(* ===== verification/Crawl_Prelude.thy ===== *)
theory Crawl_Prelude
  imports Main "HOL-Library.Word"
begin

text \<open>
  Shared vocabulary of the development: the machine integers of the Rust sources
  as words of their width, byte strings, results with an error value, and the
  generic lemmas on lists, maps and words that the component theories use.

  \<^item> \<^verbatim>\<open>u8\<close>, \<^verbatim>\<open>u32\<close>, \<^verbatim>\<open>u64\<close> are words read with \<open>unat\<close>/\<open>uint\<close>; \<^verbatim>\<open>i64\<close> is the
    64-bit word read with \<open>sint\<close>, so that Rust's \<^verbatim>\<open>as u64\<close>/\<^verbatim>\<open>as i64\<close> casts
    are the identity.  The target is a 64-bit machine: \<^verbatim>\<open>usize\<close> values are
    naturals and converting a \<^verbatim>\<open>u64\<close> to \<^verbatim>\<open>usize\<close> never fails.
  \<^item> A fallible Rust function returns a sum: \<open>Inl\<close> the error, \<open>Inr\<close> the value.
    The text of an \<^verbatim>\<open>anyhow\<close> message is dropped, each failing check has its own
    constructor in the component's error type.
\<close>

unbundle bit_operations_syntax

named_theorems codec_simps \<open>facts about the wire codecs that simp should apply\<close>
named_theorems run_rules \<open>composition rules of the column stream reader\<close>
named_theorems write_rules \<open>composition rules of the column stream writer\<close>

type_synonym u8 = "8 word"
type_synonym u32 = "32 word"
type_synonym u64 = "64 word"
type_synonym i64 = "64 word"
type_synonym bytes = "u8 list"

subsection \<open>Results\<close>

definition res_bind :: "'e + 'a \<Rightarrow> ('a \<Rightarrow> 'e + 'b) \<Rightarrow> 'e + 'b" where
  "res_bind m f = (case m of Inl e \<Rightarrow> Inl e | Inr x \<Rightarrow> f x)"

lemma res_bind_simps [simp]:
  "res_bind (Inl e) f = Inl e"
  "res_bind (Inr x) f = f x"
  by (simp_all add: res_bind_def)

lemma res_bind_cong [fundef_cong]:
  "m = m' \<Longrightarrow> (\<And>x. m' = Inr x \<Longrightarrow> f x = g x) \<Longrightarrow> res_bind m f = res_bind m' g"
  by (cases m') (auto simp: res_bind_def)

lemma res_bind_eq_Inr:
  "res_bind m f = Inr y \<longleftrightarrow> (\<exists>x. m = Inr x \<and> f x = Inr y)"
  by (cases m) auto

subsection \<open>Words\<close>

lemma unat_drop_bit_less:
  fixes w :: "'a::len word"
  assumes "w \<noteq> 0" "0 < n"
  shows "unat (drop_bit n w) < unat w"
proof -
  have "0 < unat w" using assms(1) by (simp add: unat_gt_0)
  moreover have "1 < (2::nat) ^ n" using assms(2) by (rule one_less_power[rotated]) simp
  ultimately have "unat w div 2 ^ n < unat w" by (rule div_less_dividend[rotated])
  then show ?thesis unfolding unat_drop_bit_eq by (simp add: drop_bit_eq_div)
qed

lemma word_split_bits:
  fixes w :: "'a::len word"
  shows "(w AND mask n) OR push_bit n (drop_bit n w) = w"
proof (rule bit_word_eqI)
  fix k assume "k < LENGTH('a)"
  then show "bit ((w AND mask n) OR push_bit n (drop_bit n w)) k = bit w k"
    by (cases "k < n") (simp_all add: bit_simps)
qed

lemma unat_of_nat_u64 [simp]: "n < 2 ^ 64 \<Longrightarrow> unat (of_nat n :: u64) = n"
  by (simp add: unat_of_nat)

subsection \<open>Strings\<close>

text \<open>A Rust string is its UTF-8 bytes: HOL's \<open>char\<close> is a byte, so \<open>string\<close> and \<^verbatim>\<open>as_bytes\<close> fit.\<close>

definition as_bytes :: "string \<Rightarrow> bytes" where
  "as_bytes s = map of_char s"

lemma length_as_bytes [simp]: "length (as_bytes s) = length s"
  by (simp add: as_bytes_def)

end
