(* ===== verification/Rust_Text.thy ===== *)
theory Rust_Text
  imports Crawl_Prelude
begin

text \<open>
  The text operations of Rust's standard library that the sources use on ASCII input (HTTP header values,
  match ids): splitting, trimming and parsing unsigned decimal numbers.
\<close>

text \<open>\<^verbatim>\<open>str::split\<close>: the pieces between the separators, at least one.\<close>

fun split_on :: "char \<Rightarrow> string \<Rightarrow> string list" where
  "split_on c [] = [[]]"
| "split_on c (x # xs) =
     (if x = c then [] # split_on c xs
      else case split_on c xs of p # ps \<Rightarrow> (x # p) # ps | [] \<Rightarrow> [[x]])"

text \<open>\<^verbatim>\<open>str::split_once\<close>: the parts before and after the first separator.\<close>

fun split_once :: "char \<Rightarrow> string \<Rightarrow> (string \<times> string) option" where
  "split_once c [] = None"
| "split_once c (x # xs) = (if x = c then Some ([], xs) else map_option (apfst (Cons x)) (split_once c xs))"

definition is_space :: "char \<Rightarrow> bool" where
  "is_space c \<longleftrightarrow> of_char c \<in> {9, 10, 11, 12, 13, 32 :: nat}"

text \<open>\<^verbatim>\<open>str::trim\<close>.\<close>

definition trim :: "string \<Rightarrow> string" where
  "trim s = rev (dropWhile is_space (rev (dropWhile is_space s)))"

definition is_digit :: "char \<Rightarrow> bool" where
  "is_digit c \<longleftrightarrow> 48 \<le> (of_char c :: nat) \<and> of_char c \<le> (57 :: nat)"

fun parse_digits :: "nat \<Rightarrow> nat \<Rightarrow> string \<Rightarrow> nat option" where
  "parse_digits bound acc [] = Some acc"
| "parse_digits bound acc (c # cs) =
     (if \<not> is_digit c then None
      else let v = acc * 10 + (of_char c - 48) in
        if v < bound then parse_digits bound v cs else None)"

text \<open>\<^verbatim>\<open>str::parse\<close> for an unsigned type with values below \<open>bound\<close>: an optional plus sign and at least one digit.\<close>

definition parse_uint :: "nat \<Rightarrow> string \<Rightarrow> nat option" where
  "parse_uint bound s =
     (let ds = (case s of c # cs \<Rightarrow> if c = CHR ''+'' then cs else s | [] \<Rightarrow> [])
      in if ds = [] then None else parse_digits bound 0 ds)"

text \<open>\<^verbatim>\<open>str::parse\<close> for \<^verbatim>\<open>i64\<close>.\<close>

definition parse_i64 :: "string \<Rightarrow> int option" where
  "parse_i64 s =
     (case s of
        c # cs \<Rightarrow>
          if c = CHR ''-'' then (if cs = [] then None else map_option (\<lambda>n. - int n) (parse_digits (2 ^ 63 + 1) 0 cs))
          else map_option int (parse_uint (2 ^ 63) s)
      | [] \<Rightarrow> None)"

text \<open>Decimal output of \<^verbatim>\<open>format!\<close>.\<close>

definition digit_char :: "nat \<Rightarrow> char" where
  "digit_char d = ''0123456789'' ! d"

fun show_nat :: "nat \<Rightarrow> string" where
  "show_nat n = (if n < 10 then [digit_char n] else show_nat (n div 10) @ [digit_char (n mod 10)])"

declare show_nat.simps [simp del]

definition show_int :: "int \<Rightarrow> string" where
  "show_int i = (if i < 0 then CHR ''-'' # show_nat (nat (- i)) else show_nat (nat i))"

lemma parse_digits_bound: "parse_digits bound acc cs = Some v \<Longrightarrow> acc < bound \<Longrightarrow> v < bound"
  by (induction bound acc cs rule: parse_digits.induct) (auto simp: Let_def split: if_splits)

lemma parse_uint_bound: "parse_uint bound s = Some v \<Longrightarrow> 0 < bound \<Longrightarrow> v < bound"
  using parse_digits_bound by (auto simp: parse_uint_def Let_def split: if_splits list.splits)

lemma split_once_append:
  assumes "c \<notin> set xs"
  shows "split_once c (xs @ c # ys) = Some (xs, ys)"
  using assms by (induction xs) auto

lemma split_onceD: "split_once c s = Some (a, b) \<Longrightarrow> s = a @ c # b \<and> c \<notin> set a"
  by (induction s arbitrary: a) (auto split: if_splits)

lemma digit_roundtrip:
  assumes "d < 10"
  shows "is_digit (digit_char d)" "of_char (digit_char d) - 48 = d" "digit_char d \<noteq> CHR ''+''" "digit_char d \<noteq> CHR ''-''"
proof -
  have "d \<in> {0, 1, 2, 3, 4, 5, 6, 7, 8, 9}" using assms by auto
  then show "is_digit (digit_char d)" "of_char (digit_char d) - 48 = d" "digit_char d \<noteq> CHR ''+''" "digit_char d \<noteq> CHR ''-''"
    by (auto simp: digit_char_def is_digit_def)
qed

lemma parse_digits_append:
  "parse_digits b acc (xs @ ys) = (case parse_digits b acc xs of Some v \<Rightarrow> parse_digits b v ys | None \<Rightarrow> None)"
  by (induction b acc xs rule: parse_digits.induct) (auto simp: Let_def)

lemma parse_show_digits: "n < b \<Longrightarrow> parse_digits b 0 (show_nat n) = Some n"
proof (induction n rule: show_nat.induct)
  case (1 n)
  show ?case
  proof (cases "n < 10")
    case True
    then show ?thesis using digit_roundtrip(1,2)[OF True] "1.prems" by (simp add: show_nat.simps[of n])
  next
    case False
    have "parse_digits b 0 (show_nat (n div 10)) = Some (n div 10)" using "1.IH"[OF False] "1.prems" by simp
    then show ?thesis using digit_roundtrip(1,2)[of "n mod 10"] "1.prems" False
      by (simp add: show_nat.simps[of n] parse_digits_append Let_def)
  qed
qed

text \<open>A number that is written out is read back as the same number.\<close>

lemma show_nat_inj: "show_nat m = show_nat n \<longleftrightarrow> m = n"
proof
  assume "show_nat m = show_nat n"
  then have "parse_digits (Suc (max m n)) 0 (show_nat m) = parse_digits (Suc (max m n)) 0 (show_nat n)" by simp
  then show "m = n" using parse_show_digits[of m "Suc (max m n)"] parse_show_digits[of n "Suc (max m n)"] by simp
qed simp

end
