(* ===== verification/Tables.thy ===== *)
theory Tables
  imports Crawl_Prelude "HOL-Library.RBT" "HOL-Library.Char_ord" "HOL-Library.List_Lexorder"
    "HOL-Library.Product_Lexorder"
begin

text \<open>
  The tables of the embedded database (redb) as the sources use them: ordered maps with lookup,
  insert, remove and iteration over a key range in ascending order.  They are the library's
  red-black trees; keys are compared as redb compares them (numbers by value, strings
  by their bytes, tuples lexicographically).  Values are stored decoded: what the code writes with
  \<^verbatim>\<open>postcard\<close> and reads back with \<^verbatim>\<open>postcard\<close> is the value itself.
\<close>

type_synonym ('k, 'v) table = "('k, 'v) RBT.rbt"

definition range_of :: "'k::linorder \<Rightarrow> 'k \<Rightarrow> ('k, 'v) table \<Rightarrow> ('k \<times> 'v) list" where
  "range_of lo hi t = filter (\<lambda>(k, v). lo \<le> k \<and> k \<le> hi) (RBT.entries t)"

text \<open>\<^verbatim>\<open>lo..hi\<close>, without the upper bound.\<close>

definition range_until :: "'k::linorder \<Rightarrow> 'k \<Rightarrow> ('k, 'v) table \<Rightarrow> ('k \<times> 'v) list" where
  "range_until lo hi t = filter (\<lambda>(k, v). lo \<le> k \<and> k < hi) (RBT.entries t)"

text \<open>Inserting the elements of a list one after the other.\<close>

definition insert_all :: "('k::linorder \<times> 'v) list \<Rightarrow> ('k, 'v) table \<Rightarrow> ('k, 'v) table" where
  "insert_all kvs t = fold (\<lambda>(k, v). RBT.insert k v) kvs t"

lemma mem_entries: "(k, v) \<in> set (RBT.entries t) \<longleftrightarrow> RBT.lookup t k = Some v"
  using RBT.distinct_entries[of t] by (simp flip: RBT.map_of_entries)

lemma entries_empty [simp]: "RBT.entries RBT.empty = []"
proof -
  have "(k, v) \<notin> set (RBT.entries RBT.empty)" for k :: 'a and v :: 'b by (simp add: mem_entries)
  then show ?thesis by (metis list.set_intros(1) neq_Nil_conv prod.exhaust)
qed

lemma mem_range_of: "(k, v) \<in> set (range_of lo hi t) \<longleftrightarrow> RBT.lookup t k = Some v \<and> lo \<le> k \<and> k \<le> hi"
  by (auto simp: range_of_def mem_entries)

lemma mem_range_until: "(k, v) \<in> set (range_until lo hi t) \<longleftrightarrow> RBT.lookup t k = Some v \<and> lo \<le> k \<and> k < hi"
  by (auto simp: range_until_def mem_entries)

lemma sorted_filter_fst: "sorted (map fst xs) \<Longrightarrow> sorted (map fst (filter P xs))"
  by (rule sorted_filter)

lemma distinct_filter_fst: "distinct (map fst xs) \<Longrightarrow> distinct (map fst (filter P xs))"
  by (rule distinct_map_filter)

lemma distinct_of_map: "distinct (map f xs) \<Longrightarrow> distinct xs"
  by (simp add: distinct_map)

lemma range_of_sorted: "sorted (map fst (range_of lo hi t))" "distinct (map fst (range_of lo hi t))"
  unfolding range_of_def
  by (rule sorted_filter_fst[OF RBT.sorted_entries], rule distinct_filter_fst[OF RBT.distinct_entries])

lemma range_until_sorted: "sorted (map fst (range_until lo hi t))" "distinct (map fst (range_until lo hi t))"
  unfolding range_until_def
  by (rule sorted_filter_fst[OF RBT.sorted_entries], rule distinct_filter_fst[OF RBT.distinct_entries])

lemma range_of_Nil: "range_of lo hi t = [] \<longleftrightarrow> (\<forall>k v. RBT.lookup t k = Some v \<longrightarrow> \<not> (lo \<le> k \<and> k \<le> hi))"
proof -
  have "range_of lo hi t = [] \<longleftrightarrow> (\<forall>k v. (k, v) \<notin> set (range_of lo hi t))" by (cases "range_of lo hi t") auto
  then show ?thesis by (auto simp: mem_range_of)
qed

lemma range_of_hd:
  assumes "range_of lo hi t = (k, v) # r"
  shows "RBT.lookup t k = Some v" "lo \<le> k" "k \<le> hi"
    and "RBT.lookup t k' = Some v' \<Longrightarrow> lo \<le> k' \<Longrightarrow> k' \<le> hi \<Longrightarrow> k \<le> k'"
proof -
  have m: "(k, v) \<in> set (range_of lo hi t)" using assms by simp
  then show "RBT.lookup t k = Some v" "lo \<le> k" "k \<le> hi" by (simp_all add: mem_range_of)
  assume "RBT.lookup t k' = Some v'" "lo \<le> k'" "k' \<le> hi"
  then have "(k', v') \<in> set ((k, v) # r)" using mem_range_of[of k' v' lo hi t] assms by simp
  then show "k \<le> k'" using range_of_sorted(1)[of lo hi t] assms by (auto dest: in_set_takeD bspec)
qed

lemma lookup_insert_all:
  "RBT.lookup (insert_all kvs t) = RBT.lookup t ++ map_of (rev kvs)"
proof (induction kvs arbitrary: t)
  case (Cons kv kvs)
  then show ?case by (cases kv) (simp add: insert_all_def fun_eq_iff map_add_def split: option.splits)
qed (simp add: insert_all_def)

lemma finite_dom_lookup [simp]: "finite (dom (RBT.lookup t))"
  by simp

end
