(* ===== verification/Ratelimit.thy ===== *)
theory Ratelimit
  imports Complex_Main Rust_Text Tables
begin

text \<open>
  The node's rate limiters (\<^verbatim>\<open>crates/node/src/ratelimit.rs\<close>): sliding windows over the send times, cooldowns after
  a 429, and the pacing of app limiters.

  An \<^verbatim>\<open>Instant\<close> is a natural number of nanoseconds; \<^verbatim>\<open>duration_since\<close> saturates at zero like subtraction of
  naturals.  Instants are unbounded: the panic of adding a \<^verbatim>\<open>Retry-After\<close> near \<open>2 ^ 63\<close> seconds to the current time is not part of the model.  One pass of the loop of \<^verbatim>\<open>acquire\<close> holds the mutex, so it is one atomic step (\<open>try_acquire\<close>) and any
  interleaving of tasks is a sequence of such steps.  The random draw of the jitter is an argument; the floating
  point arithmetic of the pacing gap is done in exact rationals.
\<close>

section \<open>Limit windows\<close>

record window_spec =
  ws_limit :: u32
  ws_window_ms :: u64

definition RL_DEFAULT_WINDOWS :: "(u32 \<times> u64) list" where
  "RL_DEFAULT_WINDOWS = [(20, 1000), (100, 120000)]"

definition default_specs :: "window_spec list" where
  "default_specs = map (\<lambda>(limit, window_ms). \<lparr>ws_limit = limit, ws_window_ms = window_ms\<rparr>) RL_DEFAULT_WINDOWS"

definition parse_limit_part :: "string \<Rightarrow> window_spec option" where
  "parse_limit_part part =
     (case split_once CHR '':'' (trim part) of
        None \<Rightarrow> None
      | Some (limit, secs) \<Rightarrow>
          (case parse_uint (2 ^ 32) (trim limit) of
             None \<Rightarrow> None
           | Some limit \<Rightarrow>
               (case parse_uint (2 ^ 64) (trim secs) of
                  None \<Rightarrow> None
                | Some secs \<Rightarrow>
                    if secs * 1000 < 2 ^ 64 then Some \<lparr>ws_limit = of_nat limit, ws_window_ms = of_nat (secs * 1000)\<rparr>
                    else None)))"

definition parse_limit_header :: "string \<Rightarrow> window_spec list" where
  "parse_limit_header s = List.map_filter parse_limit_part (split_on CHR '','' s)"

section \<open>A limiter\<close>

record rate_limiter =
  rl_specs :: "window_spec list"
  rl_sent :: "nat list"
  rl_cooldown_until :: "nat option"
  rl_next_slot :: "nat option"
  rl_key :: string
  rl_pace :: bool
  rl_sent_total :: u64

datatype rl_panic = OutOfBounds

definition rl_new :: "string \<Rightarrow> window_spec list \<Rightarrow> bool \<Rightarrow> rate_limiter" where
  "rl_new key specs pace =
     \<lparr>rl_specs = specs, rl_sent = [], rl_cooldown_until = None, rl_next_slot = None, rl_key = key, rl_pace = pace,
      rl_sent_total = 0\<rparr>"

definition from_millis :: "u64 \<Rightarrow> nat" where
  "from_millis ms = unat ms * 1000000"

definition update_specs :: "window_spec list \<Rightarrow> rate_limiter \<Rightarrow> rate_limiter" where
  "update_specs specs l = (if specs = [] then l else if rl_specs l \<noteq> specs then l\<lparr>rl_specs := specs\<rparr> else l)"

definition max_window :: "window_spec list \<Rightarrow> nat" where
  "max_window specs = from_millis (fold (\<lambda>s m. max m (ws_window_ms s)) specs 0)"

definition prune_sent :: "nat \<Rightarrow> window_spec list \<Rightarrow> nat list \<Rightarrow> nat list" where
  "prune_sent now specs sent = dropWhile (\<lambda>front. now - front \<ge> max_window specs) sent"

definition in_window :: "nat \<Rightarrow> nat \<Rightarrow> nat list \<Rightarrow> nat" where
  "in_window now win sent = length (takeWhile (\<lambda>t. now - t < win) (rev sent))"

text \<open>The wait the windows demand; the index of the limit-th newest send is out of bounds for a limit of zero.\<close>

fun window_wait :: "nat \<Rightarrow> nat list \<Rightarrow> window_spec list \<Rightarrow> nat option \<Rightarrow> rl_panic + nat option" where
  "window_wait now sent [] wait = Inr wait"
| "window_wait now sent (spec # specs) wait =
     (let win = from_millis (ws_window_ms spec); i = length sent - unat (ws_limit spec) in
      if in_window now win sent \<ge> unat (ws_limit spec) then
        if i < length sent then
          let d = win - (now - sent ! i) in
          window_wait now sent specs (Some (case wait of None \<Rightarrow> d | Some cur \<Rightarrow> max cur d))
        else Inl OutOfBounds
      else window_wait now sent specs wait)"

definition base_ms :: "window_spec list \<Rightarrow> rat" where
  "base_ms specs = fold (\<lambda>s b. max b (of_nat (unat (ws_window_ms s)) / of_nat (unat (max (ws_limit s) 1)))) specs 0"

text \<open>The pacing gap for a draw from 0 to 1; the cast to \<^verbatim>\<open>u64\<close> truncates and saturates.\<close>

definition pace_gap :: "rat \<Rightarrow> window_spec list \<Rightarrow> nat" where
  "pace_gap draw specs = min (nat \<lfloor>base_ms specs * (35 / 100 + draw * (13 / 10))\<rfloor>) (2 ^ 64 - 1)"

definition reserve_slot :: "rat \<Rightarrow> nat \<Rightarrow> rate_limiter \<Rightarrow> rate_limiter" where
  "reserve_slot draw now l =
     (let l = l\<lparr>rl_sent := rl_sent l @ [now]\<rparr> in
      if rl_pace l then l\<lparr>rl_next_slot := Some (now + pace_gap draw (rl_specs l) * 1000000)\<rparr> else l)"

definition cooldown_gate :: "nat \<Rightarrow> rate_limiter \<Rightarrow> nat option \<times> rate_limiter" where
  "cooldown_gate now l =
     (case rl_cooldown_until l of
        Some until \<Rightarrow> if until > now then (Some (until - now), l) else (None, l\<lparr>rl_cooldown_until := None\<rparr>)
      | None \<Rightarrow> (None, l))"

definition pacing_gate :: "nat \<Rightarrow> rate_limiter \<Rightarrow> nat option" where
  "pacing_gate now l =
     (if rl_pace l then (case rl_next_slot l of Some ns \<Rightarrow> if ns > now then Some (ns - now) else None | None \<Rightarrow> None)
      else None)"

text \<open>One pass of the loop of \<^verbatim>\<open>acquire\<close> at time \<open>now\<close>: the time to wait, or \<open>None\<close> and the reserved slot.\<close>

definition try_acquire :: "rat \<Rightarrow> nat \<Rightarrow> rate_limiter \<Rightarrow> rl_panic + nat option \<times> rate_limiter" where
  "try_acquire draw now l =
     (case cooldown_gate now l of
        (Some d, l) \<Rightarrow> Inr (Some d, l)
      | (None, l) \<Rightarrow>
          (case pacing_gate now l of
             Some d \<Rightarrow> Inr (Some d, l)
           | None \<Rightarrow>
               let l = l\<lparr>rl_sent := prune_sent now (rl_specs l) (rl_sent l)\<rparr> in
               res_bind (window_wait now (rl_sent l) (rl_specs l) None) (\<lambda>wait.
               Inr (wait, if wait = None then reserve_slot draw now l else l))))"

text \<open>The whole loop for a task alone on the limiter: each pass has its draw and the delay by which the sleep overran.
  The fuel bounds the passes.\<close>

fun acquire :: "nat \<Rightarrow> (nat \<Rightarrow> rat \<times> nat) \<Rightarrow> nat \<Rightarrow> rate_limiter \<Rightarrow> (rl_panic + nat \<times> rate_limiter) option" where
  "acquire 0 env now l = None"
| "acquire (Suc fuel) env now l =
     (case try_acquire (fst (env fuel)) now l of
        Inl e \<Rightarrow> Some (Inl e)
      | Inr (None, l) \<Rightarrow> Some (Inr (now, l\<lparr>rl_sent_total := rl_sent_total l + 1\<rparr>))
      | Inr (Some d, l) \<Rightarrow> acquire fuel env (now + (d + from_millis 5) + snd (env fuel)) l)"

definition cooldown :: "nat \<Rightarrow> u64 \<Rightarrow> rate_limiter \<Rightarrow> rate_limiter" where
  "cooldown now secs l =
     (let until = now + unat secs * 1000000000 in
      if (case rl_cooldown_until l of None \<Rightarrow> True | Some u \<Rightarrow> u < until) then l\<lparr>rl_cooldown_until := Some until\<rparr> else l)"

section \<open>The registry of limiters\<close>

record limiter_registry =
  lr_app :: "(string, rate_limiter) table"
  lr_method :: "(string \<times> string, rate_limiter) table"

definition registry_default :: limiter_registry where
  "registry_default = \<lparr>lr_app = RBT.empty, lr_method = RBT.empty\<rparr>"

definition app_limiter :: "string \<Rightarrow> limiter_registry \<Rightarrow> rate_limiter \<times> limiter_registry" where
  "app_limiter host r =
     (case RBT.lookup (lr_app r) host of
        Some l \<Rightarrow> (l, r)
      | None \<Rightarrow> let l = rl_new host default_specs True in (l, r\<lparr>lr_app := RBT.insert host l (lr_app r)\<rparr>))"

definition method_limiter :: "string \<Rightarrow> string \<Rightarrow> limiter_registry \<Rightarrow> rate_limiter \<times> limiter_registry" where
  "method_limiter host method r =
     (case RBT.lookup (lr_method r) (host, method) of
        Some l \<Rightarrow> (l, r)
      | None \<Rightarrow> let l = rl_new (host @ ''/'' @ method) default_specs False
               in (l, r\<lparr>lr_method := RBT.insert (host, method) l (lr_method r)\<rparr>))"

definition sent_totals :: "limiter_registry \<Rightarrow> (string \<times> u64) list" where
  "sent_totals r = map (\<lambda>(h, l). (h, rl_sent_total l)) (RBT.entries (lr_app r))"

section \<open>Runs\<close>

text \<open>What can happen to a limiter, with its time; a run collects the times of the granted sends.\<close>

datatype rl_event = Try rat nat | Declare "window_spec list" | Cool nat u64

fun event_time :: "rl_event \<Rightarrow> nat \<Rightarrow> nat" where
  "event_time (Try draw now) t0 = now"
| "event_time (Declare specs) t0 = t0"
| "event_time (Cool now secs) t0 = now"

fun in_time_order :: "nat \<Rightarrow> rl_event list \<Rightarrow> bool" where
  "in_time_order t0 [] = True"
| "in_time_order t0 (e # es) \<longleftrightarrow> t0 \<le> event_time e t0 \<and> in_time_order (event_time e t0) es"

fun rl_run :: "rl_event list \<Rightarrow> nat list \<times> rate_limiter \<Rightarrow> rl_panic + nat list \<times> rate_limiter" where
  "rl_run [] s = Inr s"
| "rl_run (Try draw now # es) (sends, l) =
     res_bind (try_acquire draw now l) (\<lambda>(wait, l). rl_run es (if wait = None then sends @ [now] else sends, l))"
| "rl_run (Declare specs # es) (sends, l) = rl_run es (sends, update_specs specs l)"
| "rl_run (Cool now secs # es) (sends, l) = rl_run es (sends, cooldown now secs l)"

fun keeps_window :: "window_spec \<Rightarrow> rl_event \<Rightarrow> bool" where
  "keeps_window spec (Declare specs) \<longleftrightarrow> specs = [] \<or> spec \<in> set specs"
| "keeps_window spec e \<longleftrightarrow> True"

end
