(* ===== verification/Ratelimit_Props.thy ===== *)
theory Ratelimit_Props
  imports Ratelimit
begin

text \<open>
  What the limiters guarantee: no window is ever exceeded whatever tasks interleave on a limiter, a task alone gets its
  slot after at most three sleeps and respects cooldown and pacing, and the loop panics on a declared limit of zero.
\<close>

section \<open>Windows\<close>

lemma fold_max_ge:
  fixes m :: "'a::linorder"
  shows "m \<le> fold (\<lambda>s b. max b (f s)) xs m \<and> (x \<in> set xs \<longrightarrow> f x \<le> fold (\<lambda>s b. max b (f s)) xs m)"
proof (induction xs arbitrary: m)
  case (Cons y xs)
  have "max m (f y) \<le> fold (\<lambda>s b. max b (f s)) xs (max m (f y))" using Cons.IH by blast
  then show ?case using Cons.IH[of "max m (f y)"] by auto
qed simp

lemma max_window_ge: "spec \<in> set specs \<Longrightarrow> from_millis (ws_window_ms spec) \<le> max_window specs"
  using fold_max_ge[where f = ws_window_ms and xs = specs and m = 0 and x = spec]
  by (simp add: max_window_def from_millis_def word_le_nat_alt)

text \<open>A send time that is not among the newest ones of its window is out of the window.\<close>

lemma newest_out_of_window:
  assumes "sorted sent" "in_window now win sent < limit" "limit \<le> length sent"
  shows "\<not> now - sent ! (length sent - limit) < win"
proof -
  let ?P = "\<lambda>t. now - t < win"
  let ?k = "length (takeWhile ?P (rev sent))"
  have k: "?k < limit" "?k < length (rev sent)" using assms(2,3) by (simp_all add: in_window_def)
  have "\<not> ?P (rev sent ! ?k)" using nth_length_takeWhile[OF k(2)] .
  then have "\<not> ?P (sent ! (length sent - Suc ?k))" using k(2) by (simp add: rev_nth)
  moreover have "sent ! (length sent - limit) \<le> sent ! (length sent - Suc ?k)"
    using assms(1,3) k by (intro sorted_nth_mono) auto
  ultimately show ?thesis by linarith
qed

lemma window_wait_None:
  assumes "window_wait now sent specs wait = Inr None" "spec \<in> set specs"
  shows "in_window now (from_millis (ws_window_ms spec)) sent < unat (ws_limit spec)"
proof -
  have some: "window_wait now sent specs (Some d) \<noteq> Inr None" for specs d
    by (induction specs arbitrary: d) (auto simp: Let_def)
  show ?thesis using assms by (induction specs arbitrary: wait) (auto simp: Let_def some split: if_splits)
qed

lemma prune_split:
  obtains k where "prune_sent now specs sent = drop k sent" "k \<le> length sent"
    "\<And>i. i < k \<Longrightarrow> now - sent ! i \<ge> max_window specs"
proof
  let ?P = "\<lambda>front. now - front \<ge> max_window specs"
  let ?k = "length (takeWhile ?P sent)"
  show "prune_sent now specs sent = drop ?k sent" by (simp add: prune_sent_def dropWhile_eq_drop)
  show "?k \<le> length sent" by (rule length_takeWhile_le)
  show "now - sent ! i \<ge> max_window specs" if "i < ?k" for i
    using that nth_mem[OF that] set_takeWhileD[of "takeWhile ?P sent ! i" ?P sent] by (simp add: takeWhile_nth)
qed

text \<open>The limit holds in a log of send times: a send and the limit-th after it are a window apart.\<close>

definition spaced :: "window_spec \<Rightarrow> nat list \<Rightarrow> bool" where
  "spaced spec sends \<longleftrightarrow>
     (\<forall>i. i + unat (ws_limit spec) < length sends \<longrightarrow>
        sends ! i + from_millis (ws_window_ms spec) \<le> sends ! (i + unat (ws_limit spec)))"

text \<open>The limiter remembers every send that can still count in the window.\<close>

definition remembers :: "window_spec \<Rightarrow> nat \<Rightarrow> nat list \<Rightarrow> rate_limiter \<Rightarrow> bool" where
  "remembers spec now sends l \<longleftrightarrow>
     spec \<in> set (rl_specs l) \<and> sorted sends \<and> (\<forall>t \<in> set sends. t \<le> now)
     \<and> (\<exists>k \<le> length sends. rl_sent l = drop k sends \<and> (\<forall>i < k. sends ! i + from_millis (ws_window_ms spec) \<le> now))"

lemma remembers_later: "remembers spec now sends l \<Longrightarrow> now \<le> now' \<Longrightarrow> remembers spec now' sends l"
  unfolding remembers_def by (meson order_trans)

lemma remembers_cong:
  "remembers spec now sends l \<Longrightarrow> rl_specs l' = rl_specs l \<Longrightarrow> rl_sent l' = rl_sent l \<Longrightarrow> remembers spec now sends l'"
  by (simp add: remembers_def)

lemma remembers_prune:
  assumes "remembers spec now sends l"
  shows "remembers spec now sends (l\<lparr>rl_sent := prune_sent now (rl_specs l) (rl_sent l)\<rparr>)"
proof -
  from assms obtain k where k: "k \<le> length sends" "rl_sent l = drop k sends"
    "\<And>i. i < k \<Longrightarrow> sends ! i + from_millis (ws_window_ms spec) \<le> now" and le: "\<And>t. t \<in> set sends \<Longrightarrow> t \<le> now"
    and spec: "spec \<in> set (rl_specs l)"
    by (auto simp: remembers_def)
  obtain j where j: "prune_sent now (rl_specs l) (rl_sent l) = drop j (rl_sent l)" "j \<le> length (rl_sent l)"
    "\<And>i. i < j \<Longrightarrow> now - rl_sent l ! i \<ge> max_window (rl_specs l)" using prune_split[of now "rl_specs l" "rl_sent l"] by blast
  have "sends ! i + from_millis (ws_window_ms spec) \<le> now" if "i < k + j" for i
  proof (cases "i < k")
    case False
    then have "now - sends ! i \<ge> max_window (rl_specs l)" using j(2) j(3)[of "i - k"] k(1,2) that by simp
    moreover have "sends ! i \<le> now" using False that j(2) k(1,2) by (intro le nth_mem) simp
    ultimately show ?thesis using max_window_ge[OF spec] by linarith
  qed (rule k(3))
  moreover have "prune_sent now (rl_specs l) (rl_sent l) = drop (k + j) sends" "k + j \<le> length sends"
    using j(1,2) k(1,2) by (auto simp: add.commute)
  ultimately show ?thesis using assms unfolding remembers_def by (auto intro!: exI[of _ "k + j"])
qed

lemma remembers_send:
  assumes "remembers spec now sends l" "spaced spec sends"
    and "in_window now (from_millis (ws_window_ms spec)) (rl_sent l) < unat (ws_limit spec)"
  shows "spaced spec (sends @ [now])"
    and "rl_sent l' = rl_sent l @ [now] \<Longrightarrow> rl_specs l' = rl_specs l \<Longrightarrow> remembers spec now (sends @ [now]) l'"
proof -
  let ?L = "unat (ws_limit spec)" and ?W = "from_millis (ws_window_ms spec)"
  from assms(1) obtain k where k: "k \<le> length sends" "rl_sent l = drop k sends"
    "\<And>i. i < k \<Longrightarrow> sends ! i + ?W \<le> now" and le: "\<And>t. t \<in> set sends \<Longrightarrow> t \<le> now" and so: "sorted sends"
    by (auto simp: remembers_def)
  have "sends ! i + ?W \<le> now" if i: "i + ?L = length sends" for i
  proof (cases "i < k")
    case False
    have "sorted (rl_sent l)" using so by (simp add: k(2) sorted_wrt_drop)
    moreover have "?L \<le> length (rl_sent l)" "length (rl_sent l) - ?L = i - k" using i False k(1,2) by auto
    ultimately have "\<not> now - rl_sent l ! (i - k) < ?W" using newest_out_of_window[OF _ assms(3)] by auto
    moreover have "rl_sent l ! (i - k) = sends ! i" using False i k(1,2) by (simp add: nth_drop)
    moreover have "sends ! i \<le> now" using i assms(3) by (intro le nth_mem) simp
    ultimately show ?thesis by linarith
  qed (rule k(3))
  moreover have "0 < ?L" using assms(3) by simp
  ultimately show "spaced spec (sends @ [now])"
    using assms(2) by (auto simp: spaced_def nth_append less_Suc_eq)
  show "remembers spec now (sends @ [now]) l'" if "rl_sent l' = rl_sent l @ [now]" "rl_specs l' = rl_specs l"
    using assms(1) that k le so unfolding remembers_def
    by (auto simp: sorted_append nth_append intro!: exI[of _ k])
qed

lemma cooldown_gate_same:
  "cooldown_gate now l = (w, l') \<Longrightarrow> rl_specs l' = rl_specs l \<and> rl_sent l' = rl_sent l \<and> rl_pace l' = rl_pace l
     \<and> rl_next_slot l' = rl_next_slot l"
  by (auto simp: cooldown_gate_def split: option.splits if_splits)

lemma reserve_slot_simps [simp]:
  "rl_sent (reserve_slot draw now l) = rl_sent l @ [now]" "rl_specs (reserve_slot draw now l) = rl_specs l"
  by (simp_all add: reserve_slot_def Let_def)

lemma try_acquire_inv:
  assumes "remembers spec now sends l" "spaced spec sends" "try_acquire draw now l = Inr (wait, l')"
  shows "remembers spec now (if wait = None then sends @ [now] else sends) l'
    \<and> spaced spec (if wait = None then sends @ [now] else sends)"
proof -
  obtain w l1 where g: "cooldown_gate now l = (w, l1)" by fastforce
  have r1: "remembers spec now sends l1" using remembers_cong[OF assms(1)] cooldown_gate_same[OF g] by simp
  let ?l2 = "l1\<lparr>rl_sent := prune_sent now (rl_specs l1) (rl_sent l1)\<rparr>"
  note r2 = remembers_prune[OF r1]
  show ?thesis
  proof (cases "w = None \<and> pacing_gate now l1 = None")
    case False
    then show ?thesis using assms(2,3) g r1 by (auto simp: try_acquire_def split: option.splits)
  next
    case True
    then have w: "window_wait now (rl_sent ?l2) (rl_specs ?l2) None = Inr wait"
      and l': "l' = (if wait = None then reserve_slot draw now ?l2 else ?l2)"
      using assms(3) g by (auto simp: try_acquire_def Let_def res_bind_eq_Inr)
    show ?thesis
    proof (cases wait)
      case None
      have "spec \<in> set (rl_specs ?l2)" using r2 by (simp add: remembers_def)
      then have "in_window now (from_millis (ws_window_ms spec)) (rl_sent ?l2) < unat (ws_limit spec)"
        using window_wait_None[OF w[unfolded None]] by blast
      from remembers_send(1)[OF r2 assms(2) this] remembers_send(2)[OF r2 assms(2) this, of l'] show ?thesis using None l' by simp
    qed (use r2 l' assms(2) in simp)
  qed
qed

lemma rl_run_inv:
  assumes "rl_run es (sends, l) = Inr (sends', l')" "in_time_order t0 es" "list_all (keeps_window spec) es"
    and "remembers spec t0 sends l" "spaced spec sends"
  shows "spaced spec sends'"
  using assms
proof (induction es arbitrary: sends l t0)
  case (Cons e es)
  show ?case
  proof (cases e)
    case (Try draw now)
    then obtain wait l1 where t: "try_acquire draw now l = Inr (wait, l1)"
      and r: "rl_run es (if wait = None then sends @ [now] else sends, l1) = Inr (sends', l')"
      using Cons.prems(1) by (auto simp: res_bind_eq_Inr split: prod.splits)
    have o: "t0 \<le> now" "in_time_order now es" using Cons.prems(2) Try by simp_all
    note i = try_acquire_inv[OF remembers_later[OF Cons.prems(4) o(1)] Cons.prems(5) t]
    show ?thesis using Cons.IH[OF r o(2)] Cons.prems(3) i by simp
  next
    case (Declare specs)
    have "remembers spec t0 sends (update_specs specs l)"
      using Cons.prems(3,4) Declare by (auto simp: update_specs_def remembers_def)
    then show ?thesis using Cons.IH[of sends "update_specs specs l" t0] Cons.prems Declare by simp
  next
    case (Cool now secs)
    have "remembers spec t0 sends (cooldown now secs l)"
      by (rule remembers_cong[OF Cons.prems(4)]) (simp_all add: cooldown_def Let_def)
    then have "remembers spec now sends (cooldown now secs l)" using remembers_later Cons.prems(2) Cool by simp
    then show ?thesis using Cons.IH[of sends "cooldown now secs l" now] Cons.prems Cool by simp
  qed
qed simp

section \<open>A task alone\<close>

definition positive_limits :: "rate_limiter \<Rightarrow> bool" where
  "positive_limits l \<longleftrightarrow> list_all (\<lambda>s. ws_limit s > 0) (rl_specs l)"

lemma in_window_le: "in_window now win sent \<le> length sent"
  unfolding in_window_def using length_takeWhile_le[of _ "rev sent"] by simp

lemma window_wait_total:
  "list_all (\<lambda>s. ws_limit s > 0) specs \<Longrightarrow> \<exists>wait'. window_wait now sent specs wait = Inr wait'"
proof (induction specs arbitrary: wait)
  case (Cons s specs)
  have "0 < unat (ws_limit s)" using Cons.prems by (simp add: word_less_nat_alt)
  then have "length sent - unat (ws_limit s) < length sent" if "in_window now win sent \<ge> unat (ws_limit s)" for win
    using that in_window_le[of now win sent] by linarith
  then show ?case using Cons by (auto simp: Let_def)
qed simp

lemma window_wait_grows: "window_wait now sent specs (Some d) = Inr wait' \<Longrightarrow> \<exists>d'. wait' = Some d' \<and> d \<le> d'"
proof (induction specs arbitrary: d)
  case (Cons s specs)
  then obtain c where "d \<le> c" "window_wait now sent specs (Some c) = Inr wait'"
    by (simp add: Let_def split: if_splits) (metis max.cobounded1, blast)
  then show ?case using Cons.IH by (meson order_trans)
qed auto

text \<open>The wait is long enough for every window that is full.\<close>

lemma window_wait_enough:
  assumes "window_wait now sent specs wait = Inr wait'" "spec \<in> set specs"
    and "in_window now (from_millis (ws_window_ms spec)) sent \<ge> unat (ws_limit spec)"
  shows "\<exists>d'. wait' = Some d' \<and> from_millis (ws_window_ms spec) \<le> d' + (now - sent ! (length sent - unat (ws_limit spec)))"
  using assms
proof (induction specs arbitrary: wait)
  case (Cons s specs)
  let ?d = "from_millis (ws_window_ms spec) - (now - sent ! (length sent - unat (ws_limit spec)))"
  show ?case
  proof (cases "s = spec")
    case True
    define c where "c = (case wait of None \<Rightarrow> ?d | Some cur \<Rightarrow> max cur ?d)"
    have "window_wait now sent specs (Some c) = Inr wait'"
      using Cons.prems True by (simp add: Let_def c_def split: if_splits)
    moreover have "?d \<le> c" by (simp add: c_def split: option.split)
    ultimately show ?thesis using window_wait_grows by fastforce
  next
    case False
    then obtain w where "window_wait now sent specs w = Inr wait'"
      using Cons.prems(1) by (auto simp: Let_def split: if_splits)
    then show ?thesis using Cons.IH Cons.prems(2,3) False by auto
  qed
qed simp

lemma takeWhile_suffix_le: "length (takeWhile P (rev (drop k xs))) \<le> length (takeWhile P (rev xs))"
proof -
  have "rev xs = rev (drop k xs) @ rev (take k xs)" by (metis append_take_drop_id rev_append)
  then have "takeWhile P (rev xs) = takeWhile P (rev (drop k xs) @ rev (take k xs))" by simp
  then show ?thesis by (cases "\<forall>x \<in> set (rev (drop k xs)). P x") (use length_takeWhile_le[of P "rev (drop k xs)"] in \<open>auto simp: takeWhile_append\<close>)
qed

lemma takeWhile_mono_length: "(\<And>x. P x \<Longrightarrow> Q x) \<Longrightarrow> length (takeWhile P xs) \<le> length (takeWhile Q xs)"
  by (induction xs) auto

lemma in_window_shrinks: "now \<le> now' \<Longrightarrow> in_window now' win (drop k sent) \<le> in_window now win sent"
  unfolding in_window_def
  by (rule order_trans[OF takeWhile_suffix_le takeWhile_mono_length]) linarith

lemma in_window_stops:
  assumes "\<not> now - sent ! (length sent - limit) < win" "0 < limit" "limit \<le> length sent"
  shows "in_window now win sent < limit"
proof (rule ccontr)
  let ?P = "\<lambda>t. now - t < win"
  assume "\<not> in_window now win sent < limit"
  then have l: "limit - 1 < length (takeWhile ?P (rev sent))" using assms(2) by (simp add: in_window_def)
  have "?P (takeWhile ?P (rev sent) ! (limit - 1))" using nth_mem[OF l] set_takeWhileD by fast
  moreover have "takeWhile ?P (rev sent) ! (limit - 1) = sent ! (length sent - limit)"
    using assms(2,3) l by (simp add: takeWhile_nth rev_nth)
  ultimately show False using assms(1) by simp
qed

text \<open>After the demanded wait every window has room.\<close>

lemma wait_frees_window:
  assumes "window_wait now sent specs wait = Inr (Some d)" "now + d \<le> now'" "spec \<in> set specs" "ws_limit spec > 0"
    and past: "\<forall>t \<in> set sent. t \<le> now"
  shows "in_window now' (from_millis (ws_window_ms spec)) (drop k sent) < unat (ws_limit spec)"
proof -
  let ?W = "from_millis (ws_window_ms spec)" and ?L = "unat (ws_limit spec)"
  have L: "0 < ?L" using assms(4) by (simp add: word_less_nat_alt)
  have "in_window now' ?W sent < ?L"
  proof (cases "in_window now ?W sent < ?L")
    case True
    have "now \<le> now'" using assms(2) by simp
    then show ?thesis using in_window_shrinks[of now now' ?W 0 sent] True by simp
  next
    case False
    let ?t = "sent ! (length sent - ?L)"
    have l: "?L \<le> length sent" using False in_window_le[of now ?W sent] by linarith
    then have "?t \<le> now" using L past by (intro bspec[OF past] nth_mem) simp
    moreover have "?W \<le> d + (now - ?t)" using window_wait_enough[OF assms(1,3)] False by auto
    ultimately have "\<not> now' - ?t < ?W" using assms(2) by linarith
    then show ?thesis using in_window_stops L l by blast
  qed
  then show ?thesis using in_window_shrinks[of now' now' ?W k sent] by simp
qed

lemma window_wait_free:
  "(\<And>spec. spec \<in> set specs \<Longrightarrow> in_window now (from_millis (ws_window_ms spec)) sent < unat (ws_limit spec)) \<Longrightarrow>
    window_wait now sent specs None = Inr None"
proof (induction specs)
  case (Cons s specs)
  have "\<not> unat (ws_limit s) \<le> in_window now (from_millis (ws_window_ms s)) sent" using Cons.prems[of s] by simp
  then show ?case using Cons by (simp add: Let_def)
qed simp

section \<open>The loop\<close>

text \<open>A pass that neither cooldown nor pacing holds back.\<close>

definition open_gates :: "nat \<Rightarrow> rate_limiter \<Rightarrow> bool" where
  "open_gates now l \<longleftrightarrow> (\<forall>u. rl_cooldown_until l = Some u \<longrightarrow> u \<le> now)
     \<and> (rl_pace l \<longrightarrow> (\<forall>ns. rl_next_slot l = Some ns \<longrightarrow> ns \<le> now))"

lemma open_gates_later: "open_gates now l \<Longrightarrow> now \<le> now' \<Longrightarrow> open_gates now' l"
  unfolding open_gates_def by (meson order_trans)

definition past_sends :: "nat \<Rightarrow> rate_limiter \<Rightarrow> bool" where
  "past_sends now l \<longleftrightarrow> list_all (\<lambda>t. t \<le> now) (rl_sent l)"

lemma past_sends_later: "past_sends now l \<Longrightarrow> now \<le> now' \<Longrightarrow> past_sends now' l"
  by (auto simp: past_sends_def list_all_iff)

text \<open>A pass through open gates grants the slot or demands a wait after which the next pass grants it.\<close>

lemma open_pass:
  assumes "open_gates now l" "positive_limits l" "past_sends now l"
  obtains (grant) "\<And>draw. \<exists>l'. try_acquire draw now l = Inr (None, l') \<and> rl_sent l' \<noteq> [] \<and> last (rl_sent l') = now"
    | (wait) d l' where "\<And>draw. try_acquire draw now l = Inr (Some d, l')"
      "\<And>draw now'. now + d \<le> now' \<Longrightarrow> \<exists>l''. try_acquire draw now' l' = Inr (None, l'') \<and> rl_sent l'' \<noteq> [] \<and> last (rl_sent l'') = now'"
proof -
  define l1 where "l1 = l\<lparr>rl_cooldown_until := None\<rparr>"
  have g: "cooldown_gate now l = (None, l1)" "pacing_gate now l1 = None"
    using assms(1) by (auto simp: open_gates_def cooldown_gate_def pacing_gate_def l1_def split: option.splits)
  define l2 where "l2 = l1\<lparr>rl_sent := prune_sent now (rl_specs l1) (rl_sent l1)\<rparr>"
  obtain w where w: "window_wait now (rl_sent l2) (rl_specs l2) None = Inr w"
    using window_wait_total assms(2) by (force simp: positive_limits_def l2_def l1_def)
  have t: "try_acquire draw now l = Inr (w, if w = None then reserve_slot draw now l2 else l2)" for draw
    using w by (simp add: try_acquire_def g Let_def flip: l2_def)
  show ?thesis
  proof (cases w)
    case None
    then show ?thesis using t grant by simp
  next
    case (Some d)
    have "\<exists>l''. try_acquire draw now' l2 = Inr (None, l'') \<and> rl_sent l'' \<noteq> [] \<and> last (rl_sent l'') = now'" if n: "now + d \<le> now'" for draw now'
    proof -
      obtain k where k: "prune_sent now' (rl_specs l2) (rl_sent l2) = drop k (rl_sent l2)"
        using prune_split[of now' "rl_specs l2" "rl_sent l2"] by blast
      have past: "\<forall>t \<in> set (rl_sent l2). t \<le> now"
        using assms(3) by (auto simp: past_sends_def list_all_iff l2_def l1_def prune_sent_def dest: set_dropWhileD)
      have "window_wait now' (drop k (rl_sent l2)) (rl_specs l2) None = Inr None"
        using wait_frees_window[OF w[unfolded Some] n _ _ past] assms(2)
        by (intro window_wait_free) (auto simp: positive_limits_def list_all_iff l2_def l1_def)
      moreover have "cooldown_gate now' l2 = (None, l2)" "pacing_gate now' l2 = None"
        using assms(1) n by (auto simp: open_gates_def cooldown_gate_def pacing_gate_def l2_def l1_def split: option.splits)
      ultimately show ?thesis by (simp add: try_acquire_def Let_def k)
    qed
    then show ?thesis using t Some wait by simp
  qed
qed

definition granted_at :: "nat \<Rightarrow> rate_limiter \<Rightarrow> bool" where
  "granted_at now l \<longleftrightarrow> rl_sent l \<noteq> [] \<and> last (rl_sent l) = now"

lemma acquire_sleep:
  "try_acquire (fst (env fuel)) now l = Inr (Some d, l1) \<Longrightarrow>
     acquire (Suc fuel) env now l = acquire fuel env (now + (d + from_millis 5) + snd (env fuel)) l1"
  by simp

lemma acquire_open:
  assumes "open_gates now l" "positive_limits l" "past_sends now l"
  shows "\<exists>now' l'. acquire (Suc (Suc fuel)) env now l = Some (Inr (now', l')) \<and> now \<le> now' \<and> granted_at now' l'"
  using assms
proof (cases rule: open_pass)
  case grant
  then obtain l' where "try_acquire (fst (env (Suc fuel))) now l = Inr (None, l')" "granted_at now l'"
    unfolding granted_at_def by blast
  then show ?thesis by (simp add: granted_at_def)
next
  case (wait d l')
  let ?now = "now + (d + from_millis 5) + snd (env (Suc fuel))"
  obtain l'' where "try_acquire (fst (env fuel)) ?now l' = Inr (None, l'')" "granted_at ?now l''"
    using wait(2)[of ?now] unfolding granted_at_def by (auto simp: from_millis_def)
  then show ?thesis using wait(1) by (simp add: granted_at_def)
qed

lemma acquire_paced:
  assumes "\<And>u. rl_cooldown_until l = Some u \<Longrightarrow> u \<le> now" "positive_limits l" "past_sends now l"
  shows "\<exists>now' l'. acquire (Suc (Suc (Suc fuel))) env now l = Some (Inr (now', l')) \<and> now \<le> now' \<and> granted_at now' l'
    \<and> (\<forall>ns. rl_pace l \<longrightarrow> rl_next_slot l = Some ns \<longrightarrow> ns \<le> now')"
proof (cases "open_gates now l")
  case True
  then show ?thesis using acquire_open[OF True assms(2,3), of "Suc fuel" env]
    by (auto simp: open_gates_def intro: order_trans)
next
  case False
  define l1 where "l1 = l\<lparr>rl_cooldown_until := None\<rparr>"
  obtain ns where ns: "rl_pace l" "rl_next_slot l = Some ns" "now < ns" using False assms(1) by (auto simp: open_gates_def not_le)
  have g: "cooldown_gate now l = (None, l1)" using assms(1) by (auto simp: cooldown_gate_def l1_def split: option.splits)
  have t: "try_acquire draw now l = Inr (Some (ns - now), l1)" for draw
    using ns by (simp add: try_acquire_def g pacing_gate_def l1_def)
  let ?now = "now + ((ns - now) + from_millis 5) + snd (env (Suc (Suc fuel)))"
  have "open_gates ?now l1" "positive_limits l1" "past_sends ?now l1"
    using ns assms(2) past_sends_later[OF assms(3), of ?now] by (auto simp: open_gates_def l1_def positive_limits_def past_sends_def)
  from acquire_open[OF this, of fuel env] obtain now' l' where
    "acquire (Suc (Suc fuel)) env ?now l1 = Some (Inr (now', l'))" "?now \<le> now'" "granted_at now' l'" by blast
  moreover note acquire_sleep[of env "Suc (Suc fuel)", OF t]
  ultimately show ?thesis using ns by (intro exI[of _ now'] exI[of _ l']) auto
qed

lemma acquire_total:
  assumes "positive_limits l" "past_sends now l"
  shows "\<exists>now' l'. acquire 4 env now l = Some (Inr (now', l')) \<and> now \<le> now' \<and> granted_at now' l'
    \<and> (\<forall>u. rl_cooldown_until l = Some u \<longrightarrow> u \<le> now') \<and> (\<forall>ns. rl_pace l \<longrightarrow> rl_next_slot l = Some ns \<longrightarrow> ns \<le> now')"
proof (cases "\<exists>u. rl_cooldown_until l = Some u \<and> now < u")
  case True
  then obtain u where u: "rl_cooldown_until l = Some u" "now < u" by blast
  let ?now = "now + ((u - now) + from_millis 5) + snd (env 3)"
  have t: "try_acquire draw now l = Inr (Some (u - now), l)" for draw
    using u by (simp add: try_acquire_def cooldown_gate_def)
  have "past_sends ?now l" using past_sends_later[OF assms(2)] by simp
  from acquire_paced[OF _ assms(1) this, of 0 env] obtain now' l' where
    "acquire (Suc (Suc (Suc 0))) env ?now l = Some (Inr (now', l'))" "?now \<le> now'" "granted_at now' l'"
    "\<forall>ns. rl_pace l \<longrightarrow> rl_next_slot l = Some ns \<longrightarrow> ns \<le> now'" using u by auto
  moreover note acquire_sleep[of env 3, OF t]
  moreover have "(4::nat) = Suc 3" "(3::nat) = Suc (Suc (Suc 0))" by simp_all
  ultimately have "acquire 4 env now l = Some (Inr (now', l'))" by metis
  then show ?thesis using u \<open>?now \<le> now'\<close> \<open>granted_at now' l'\<close> \<open>\<forall>ns. rl_pace l \<longrightarrow> rl_next_slot l = Some ns \<longrightarrow> ns \<le> now'\<close> by auto
next
  case False
  then have c: "\<And>u. rl_cooldown_until l = Some u \<Longrightarrow> u \<le> now" by (meson not_le)
  have "(4::nat) = Suc (Suc (Suc 1))" by simp
  then obtain now' l' where "acquire 4 env now l = Some (Inr (now', l'))" "now \<le> now'" "granted_at now' l'"
    "\<forall>ns. rl_pace l \<longrightarrow> rl_next_slot l = Some ns \<longrightarrow> ns \<le> now'" using acquire_paced[OF c assms, of 1 env] by metis
  then show ?thesis using c by (blast intro: order_trans)
qed

section \<open>Properties\<close>

text \<open>C7: Whatever tasks interleave on a limiter and however often windows are re-declared or cooldowns set, a window
  that stays declared is never exceeded: any send and the limit-th send after it are at least the window apart.\<close>

theorem window_never_exceeded:
  assumes "spec \<in> set specs" "list_all (keeps_window spec) es" "in_time_order t0 es"
    and "rl_run es ([], rl_new key specs pace) = Inr (sends, l)" "i + unat (ws_limit spec) < length sends"
  shows "sends ! i + from_millis (ws_window_ms spec) \<le> sends ! (i + unat (ws_limit spec))"
proof -
  have "remembers spec t0 [] (rl_new key specs pace)" using assms(1) by (simp add: remembers_def rl_new_def)
  then have "spaced spec sends" using rl_run_inv[OF assms(4,3,2)] by (simp add: spaced_def)
  then show ?thesis using assms(5) by (simp add: spaced_def)
qed

theorem window_never_exceeded_witness:
  "\<exists>l. rl_run [Try 0 0, Try 0 600000, Declare (\<lparr>ws_limit = 1, ws_window_ms = 1\<rparr> # default_specs), Cool 600000 0, Try 0 2000000]
      ([], rl_new ''k'' [\<lparr>ws_limit = 1, ws_window_ms = 1\<rparr>] False) = Inr ([0, 2000000], l)
     \<and> [0, 2000000] ! 0 + from_millis 1 \<le> [0, 2000000] ! 1"
proof -
  let ?spec = "\<lparr>ws_limit = 1, ws_window_ms = 1\<rparr>"
  let ?es = "[Try 0 0, Try 0 600000, Declare (?spec # default_specs), Cool 600000 0, Try 0 2000000]"
  have "\<exists>l. rl_run ?es ([], rl_new ''k'' [?spec] False) = Inr ([0, 2000000], l)"
    by (simp add: rl_new_def try_acquire_def cooldown_gate_def pacing_gate_def prune_sent_def max_window_def from_millis_def
        in_window_def reserve_slot_def Let_def update_specs_def cooldown_def default_specs_def RL_DEFAULT_WINDOWS_def)
  then obtain l where r: "rl_run ?es ([], rl_new ''k'' [?spec] False) = Inr ([0, 2000000], l)" by blast
  show ?thesis using window_never_exceeded[of ?spec "[?spec]" ?es 0 "''k''" False "[0, 2000000]" l 0] r by auto
qed

text \<open>C28: A task alone on a limiter with positive limits gets its slot after at most three sleeps (cooldown, pacing,
  window), however long each sleep overruns, and not before the cooldown and the pacing slot have passed.\<close>

theorem acquire_returns:
  assumes "positive_limits l" "past_sends now l"
  shows "\<exists>now' l'. acquire 4 env now l = Some (Inr (now', l')) \<and> now \<le> now' \<and> granted_at now' l'
    \<and> (\<forall>u. rl_cooldown_until l = Some u \<longrightarrow> u \<le> now') \<and> (\<forall>ns. rl_pace l \<longrightarrow> rl_next_slot l = Some ns \<longrightarrow> ns \<le> now')"
  by (rule acquire_total[OF assms])

theorem acquire_returns_witness:
  "\<exists>now' l'. acquire 4 (\<lambda>_. (1 / 2, 3)) 7 (cooldown 2 1 (rl_new ''europe'' default_specs True)) = Some (Inr (now', l'))
     \<and> 1000000002 \<le> now' \<and> granted_at now' l'"
proof -
  let ?l = "cooldown 2 1 (rl_new ''europe'' default_specs True)"
  have "positive_limits ?l" "past_sends 7 ?l" "rl_cooldown_until ?l = Some 1000000002"
    by (simp_all add: positive_limits_def past_sends_def cooldown_def rl_new_def default_specs_def RL_DEFAULT_WINDOWS_def Let_def)
  then show ?thesis using acquire_returns[of ?l 7 "\<lambda>_. (1 / 2, 3)"] by auto
qed

text \<open>A response that declares a limit of zero, such as \<^verbatim>\<open>0:10\<close>, passes the header parser and makes the next
  acquire of the limiter index past the end of its send times.\<close>

theorem zero_limit_panics:
  "parse_limit_header ''0:10'' = [\<lparr>ws_limit = 0, ws_window_ms = 10000\<rparr>]
   \<and> try_acquire draw now (update_specs (parse_limit_header ''0:10'') (rl_new key default_specs pace)) = Inl OutOfBounds"
proof -
  have h: "parse_limit_header ''0:10'' = [\<lparr>ws_limit = 0, ws_window_ms = 10000\<rparr>]"
    by (simp add: parse_limit_header_def parse_limit_part_def trim_def is_space_def parse_uint_def is_digit_def List.map_filter_simps)
  then show ?thesis
    by (simp add: update_specs_def rl_new_def default_specs_def RL_DEFAULT_WINDOWS_def try_acquire_def cooldown_gate_def
        pacing_gate_def prune_sent_def)
qed

end
