(* ===== verification/Registry.thy ===== *)
theory Registry
  imports Crawl_Prelude "HOL-Library.Char_ord" "HOL-Library.List_Lexorder" "HOL-Library.Multiset"
begin

text \<open>
  The runtime node registry of \<^verbatim>\<open>crates/server/src/registry.rs\<close>.  A \<^verbatim>\<open>HashMap\<close> is a partial
  map; an operation that iterates over it takes the iteration order as the list \<open>order\<close> of its
  keys, which is arbitrary.  \<^verbatim>\<open>Instant\<close>s are milliseconds, counters are naturals (one
  increment per completed request cannot reach \<open>2 ^ 64\<close>).  The token hash of
  \<^verbatim>\<open>token_hash_hex\<close> is SHA-256 from a library: the parameter \<open>hash\<close>.
\<close>

datatype audit_verdict = Pass | HardFail | SoftFail

record node_rt =
  nr_name :: string
  last_seen :: "nat option"
  completed :: nat
  audits_pass :: nat
  audits_hard_fail :: nat
  audits_soft_fail :: nat
  key_bad :: bool

record node_report =
  rep_id :: nat
  rep_name :: string
  rep_completed :: nat
  rep_audits_pass :: nat
  rep_audits_hard_fail :: nat
  rep_audits_soft_fail :: nat
  rep_key_bad :: bool
  idle_secs :: "nat option"

record registry =
  by_token_hash :: "string \<Rightarrow> nat option"
  reg_nodes :: "nat \<Rightarrow> node_rt option"

definition ACTIVE_WINDOW :: nat where
  "ACTIVE_WINDOW = 600000"

definition registry_new :: registry where
  "registry_new = \<lparr>by_token_hash = Map.empty, reg_nodes = Map.empty\<rparr>"

definition node_rt_new :: "string \<Rightarrow> node_rt" where
  "node_rt_new name = \<lparr>nr_name = name, last_seen = None, completed = 0, audits_pass = 0,
     audits_hard_fail = 0, audits_soft_fail = 0, key_bad = False\<rparr>"

definition enroll_runtime :: "nat \<Rightarrow> string \<Rightarrow> string \<Rightarrow> registry \<Rightarrow> registry" where
  "enroll_runtime i name token_hash_hex r =
     r\<lparr>by_token_hash := (by_token_hash r)(token_hash_hex \<mapsto> i),
       reg_nodes := (reg_nodes r)(i \<mapsto> node_rt_new name)\<rparr>"

definition name_taken :: "nat list \<Rightarrow> string \<Rightarrow> registry \<Rightarrow> bool" where
  "name_taken order name r \<longleftrightarrow>
     list_ex (\<lambda>i. case reg_nodes r i of Some n \<Rightarrow> nr_name n = name | None \<Rightarrow> False) order"

definition auth :: "(string \<Rightarrow> string) \<Rightarrow> string \<Rightarrow> registry \<Rightarrow> nat option" where
  "auth hash token r = by_token_hash r (hash token)"

definition modify_node :: "nat \<Rightarrow> (node_rt \<Rightarrow> node_rt) \<Rightarrow> registry \<Rightarrow> registry" where
  "modify_node i f r =
     (case reg_nodes r i of
        Some n \<Rightarrow> r\<lparr>reg_nodes := (reg_nodes r)(i \<mapsto> f n)\<rparr>
      | None \<Rightarrow> r)"

definition touch :: "nat \<Rightarrow> nat \<Rightarrow> registry \<Rightarrow> registry" where
  "touch now i r = modify_node i (\<lambda>n. n\<lparr>last_seen := Some now\<rparr>) r"

definition job_completed :: "nat \<Rightarrow> registry \<Rightarrow> registry" where
  "job_completed i r = modify_node i (\<lambda>n. n\<lparr>completed := completed n + 1, key_bad := False\<rparr>) r"

definition set_key_bad :: "nat \<Rightarrow> bool \<Rightarrow> registry \<Rightarrow> registry" where
  "set_key_bad i bad r = modify_node i (\<lambda>n. n\<lparr>key_bad := bad\<rparr>) r"

fun count_verdict :: "audit_verdict \<Rightarrow> node_rt \<Rightarrow> node_rt" where
  "count_verdict Pass n = n\<lparr>audits_pass := audits_pass n + 1\<rparr>"
| "count_verdict HardFail n = n\<lparr>audits_hard_fail := audits_hard_fail n + 1\<rparr>"
| "count_verdict SoftFail n = n\<lparr>audits_soft_fail := audits_soft_fail n + 1\<rparr>"

definition audit_result :: "nat \<Rightarrow> nat \<Rightarrow> audit_verdict \<Rightarrow> registry \<Rightarrow> registry" where
  "audit_result a b verdict r =
     modify_node b (count_verdict verdict) (modify_node a (count_verdict verdict) r)"

definition active_node_other_than :: "nat list \<Rightarrow> nat \<Rightarrow> nat \<Rightarrow> registry \<Rightarrow> bool" where
  "active_node_other_than order now i r \<longleftrightarrow>
     list_ex (\<lambda>nid. case reg_nodes r nid of
        Some n \<Rightarrow> nid \<noteq> i \<and> (case last_seen n of Some t \<Rightarrow> now - t < ACTIVE_WINDOW | None \<Rightarrow> False)
      | None \<Rightarrow> False) order"

text \<open>\<open>fallback\<close> is the \<^verbatim>\<open>format!\<close> of the id.\<close>

definition name_of :: "(nat \<Rightarrow> string) \<Rightarrow> nat \<Rightarrow> registry \<Rightarrow> string" where
  "name_of fallback i r = (case reg_nodes r i of Some n \<Rightarrow> nr_name n | None \<Rightarrow> fallback i)"

definition node_report_of :: "nat \<Rightarrow> nat \<Rightarrow> node_rt \<Rightarrow> node_report" where
  "node_report_of now i n =
     \<lparr>rep_id = i, rep_name = nr_name n, rep_completed = completed n,
      rep_audits_pass = audits_pass n, rep_audits_hard_fail = audits_hard_fail n,
      rep_audits_soft_fail = audits_soft_fail n, rep_key_bad = key_bad n,
      idle_secs = map_option (\<lambda>t. (now - t) div 1000) (last_seen n)\<rparr>"

definition report :: "nat list \<Rightarrow> nat \<Rightarrow> registry \<Rightarrow> node_report list" where
  "report order now r =
     sort_key rep_name
       (List.map_filter (\<lambda>i. map_option (node_report_of now i) (reg_nodes r i)) order)"

section \<open>Facts\<close>

lemma modify_node_lookup [simp]:
  "reg_nodes (modify_node i f r) j = (if j = i then map_option f (reg_nodes r j) else reg_nodes r j)"
  by (simp add: modify_node_def split: option.split)

lemma modify_node_tokens [simp]: "by_token_hash (modify_node i f r) = by_token_hash r"
  by (simp add: modify_node_def split: option.split)

lemma count_verdict_name [simp]: "nr_name (count_verdict v n) = nr_name n"
  by (cases v) simp_all

section \<open>Properties\<close>

text \<open>Enrolling a node makes exactly its token valid for it: its own token authenticates as the new
  id, every token with another hash authenticates as before, and the node's counters start at zero.\<close>

lemma enroll_then_auth:
  "auth hash t (enroll_runtime i name (hash tok) r) =
     (if hash t = hash tok then Some i else auth hash t r)
   \<and> reg_nodes (enroll_runtime i name h r) j = (if j = i then Some (node_rt_new name) else reg_nodes r j)"
  by (simp add: auth_def enroll_runtime_def)

text \<open>The status report lists every registered node exactly once, in name order, with the
  counters of the runtime view, whatever the iteration order of the map.\<close>

lemma report_sorted_complete:
  assumes "distinct order" "set order = dom (reg_nodes r)"
  shows "sorted (map rep_name (report order now r))
    \<and> distinct (map rep_id (report order now r))
    \<and> set (report order now r) = {node_report_of now i n | i n. reg_nodes r i = Some n}"
proof -
  let ?f = "\<lambda>i. map_option (node_report_of now i) (reg_nodes r i)"
  have "mset (report order now r) = mset (List.map_filter ?f order)"
    by (simp add: report_def)
  moreover have "map rep_id (List.map_filter ?f order) = filter (\<lambda>i. reg_nodes r i \<noteq> None) order"
    by (induction order) (auto simp: List.map_filter_def node_report_of_def)
  ultimately have "mset (map rep_id (report order now r)) = mset (filter (\<lambda>i. reg_nodes r i \<noteq> None) order)"
    by (metis mset_map)
  then have "distinct (map rep_id (report order now r))"
    using assms(1) by (metis distinct_filter mset_eq_imp_distinct_iff)
  moreover have "set (report order now r) = {node_report_of now i n | i n. reg_nodes r i = Some n}"
    using assms(2) by (force simp: report_def List.map_filter_def)
  moreover have "sorted (map rep_name (report order now r))" by (simp add: report_def)
  ultimately show ?thesis by blast
qed

lemma report_sorted_complete_witness:
  "sorted (map rep_name (report [2, 1] 9000 (enroll_runtime 2 ''b'' ''h2'' (enroll_runtime 1 ''a'' ''h1'' registry_new))))"
  using report_sorted_complete[of "[2, 1]" "enroll_runtime 2 ''b'' ''h2'' (enroll_runtime 1 ''a'' ''h1'' registry_new)" 9000]
  by (simp add: enroll_runtime_def registry_new_def insert_commute)

end
