(* ===== verification/Stats.thy ===== *)
theory Stats
  imports Crawl_Prelude
begin

text \<open>
  The per-node contribution counters of \<^verbatim>\<open>crates/server/src/stats.rs\<close>: a 60-slot minute ring,
  hour buckets for a week and all-time totals.  The specification counts events: the windows a
  snapshot reports are the numbers of recorded events inside them.  Counters and milliseconds
  are naturals; \<^verbatim>\<open>saturating_sub\<close> is the subtraction of naturals.  A \<^verbatim>\<open>BTreeMap\<close> is its list of
  entries in key order, a \<^verbatim>\<open>BTreeSet\<close> its list of elements in order.
\<close>

record bucket =
  requests :: nat
  matches :: nat

definition bucket_zero :: bucket where
  "bucket_zero = \<lparr>requests = 0, matches = 0\<rparr>"

definition bucket_add :: "bucket \<Rightarrow> bucket \<Rightarrow> bucket" where
  "bucket_add b c = \<lparr>requests = requests b + requests c, matches = matches b + matches c\<rparr>"

definition MINUTE_MS :: nat where "MINUTE_MS = 60000"

definition HOUR_MS :: nat where "HOUR_MS = 3600000"

definition RETAIN_HOURS :: nat where "RETAIN_HOURS = 169"

record node_stats =
  total :: bucket
  minutes :: "bucket list"
  head_minute :: nat
  hours :: "(nat \<times> bucket) list"
  dirty :: "nat list"

definition node_stats_default :: node_stats where
  "node_stats_default = \<lparr>total = bucket_zero, minutes = replicate 60 bucket_zero, head_minute = 0,
     hours = [], dirty = []\<rparr>"

definition advance :: "nat \<Rightarrow> node_stats \<Rightarrow> node_stats" where
  "advance m ns =
     (if m \<le> head_minute ns then ns
      else
        let steps = min (m - head_minute ns) 60 in
        ns\<lparr>minutes := fold (\<lambda>i ms. ms[(head_minute ns + i) mod 60 := bucket_zero]) [1..<Suc steps] (minutes ns),
           head_minute := m\<rparr>)"

definition window_m60 :: "node_stats \<Rightarrow> bucket" where
  "window_m60 ns = foldl bucket_add bucket_zero (minutes ns)"

definition window_hours :: "nat \<Rightarrow> nat \<Rightarrow> node_stats \<Rightarrow> bucket" where
  "window_hours now_ms n ns =
     (let cutoff = (now_ms div HOUR_MS - (n - 1)) * HOUR_MS in
      foldl bucket_add bucket_zero (map snd (filter (\<lambda>(k, v). cutoff \<le> k) (hours ns))))"

record node_windows =
  win_node_id :: nat
  m60 :: bucket
  h24 :: bucket
  d7 :: bucket
  win_all :: bucket

type_synonym stats_map = "nat \<Rightarrow> node_stats option"

text \<open>\<^verbatim>\<open>hours.entry(hour).or_default().add(b)\<close> and \<^verbatim>\<open>hours.insert(hour, b)\<close>\<close>

fun hours_upd :: "(bucket \<Rightarrow> bucket) \<Rightarrow> nat \<Rightarrow> (nat \<times> bucket) list \<Rightarrow> (nat \<times> bucket) list" where
  "hours_upd f k [] = [(k, f bucket_zero)]"
| "hours_upd f k ((k', v) # xs) =
     (if k = k' then (k, f v) # xs
      else if k < k' then (k, f bucket_zero) # (k', v) # xs
      else (k', v) # hours_upd f k xs)"

definition ns_of :: "stats_map \<Rightarrow> nat \<Rightarrow> node_stats" where
  "ns_of s node = (case s node of Some ns \<Rightarrow> ns | None \<Rightarrow> node_stats_default)"

definition load_row :: "nat \<Rightarrow> nat \<times> nat \<times> bucket \<Rightarrow> stats_map \<Rightarrow> stats_map" where
  "load_row now_ms row s =
     (case row of (node, hour, b) \<Rightarrow>
      let cutoff = (now_ms div HOUR_MS - RETAIN_HOURS) * HOUR_MS;
          ns = ns_of s node;
          ns = ns\<lparr>total := bucket_add (total ns) b\<rparr>;
          ns = (if hour \<ge> cutoff then ns\<lparr>hours := hours_upd (\<lambda>_. b) hour (hours ns)\<rparr> else ns)
      in s(node \<mapsto> ns\<lparr>head_minute := now_ms div MINUTE_MS\<rparr>))"

definition load :: "(nat \<times> nat \<times> bucket) list \<Rightarrow> nat \<Rightarrow> stats_map" where
  "load rows now_ms = fold (load_row now_ms) rows Map.empty"

definition record_ns :: "bool \<Rightarrow> nat \<Rightarrow> node_stats \<Rightarrow> node_stats" where
  "record_ns is_match now_ms ns =
     (let b = \<lparr>requests = 1, matches = (if is_match then 1 else 0)\<rparr>;
          ns = advance (now_ms div MINUTE_MS) ns;
          slot = head_minute ns mod 60;
          ns = ns\<lparr>minutes := (minutes ns)[slot := bucket_add (minutes ns ! slot) b]\<rparr>;
          hour = now_ms div HOUR_MS * HOUR_MS;
          ns = ns\<lparr>hours := hours_upd (\<lambda>v. bucket_add v b) hour (hours ns),
                 dirty := insort_insert hour (dirty ns),
                 total := bucket_add (total ns) b\<rparr>
      in if length (hours ns) > RETAIN_HOURS
         then ns\<lparr>hours := filter (\<lambda>(k, v). hour - RETAIN_HOURS * HOUR_MS \<le> k) (hours ns)\<rparr>
         else ns)"

definition stats_record :: "nat \<Rightarrow> bool \<Rightarrow> nat \<Rightarrow> stats_map \<Rightarrow> stats_map" where
  "stats_record node_id is_match now_ms s = s(node_id \<mapsto> record_ns is_match now_ms (ns_of s node_id))"

definition node_windows_of :: "nat \<Rightarrow> nat \<Rightarrow> node_stats \<Rightarrow> node_windows" where
  "node_windows_of now_ms i ns =
     \<lparr>win_node_id = i, m60 = window_m60 ns, h24 = window_hours now_ms 24 ns,
      d7 = window_hours now_ms 168 ns, win_all = total ns\<rparr>"

definition snapshot :: "nat list \<Rightarrow> nat \<Rightarrow> stats_map \<Rightarrow> node_windows list \<times> stats_map" where
  "snapshot order now_ms s =
     (let s' = (\<lambda>i. map_option (advance (now_ms div MINUTE_MS)) (s i)) in
      (List.map_filter (\<lambda>i. map_option (node_windows_of now_ms i) (s' i)) order, s'))"

definition dirty_rows :: "nat \<Rightarrow> node_stats \<Rightarrow> (nat \<times> nat \<times> bucket) list" where
  "dirty_rows i ns =
     List.map_filter (\<lambda>hour. map_option (\<lambda>b. (i, hour, b)) (map_of (hours ns) hour)) (dirty ns)"

definition take_dirty :: "nat list \<Rightarrow> stats_map \<Rightarrow> (nat \<times> nat \<times> bucket) list \<times> stats_map" where
  "take_dirty order s =
     (concat (map (\<lambda>i. case s i of Some ns \<Rightarrow> dirty_rows i ns | None \<Rightarrow> []) order),
      (\<lambda>i. map_option (\<lambda>ns. ns\<lparr>dirty := []\<rparr>) (s i)))"

section \<open>Events\<close>

text \<open>An event of one node is its time and whether it stored a match.\<close>

type_synonym event = "nat \<times> bool"

definition tally :: "event list \<Rightarrow> bucket" where
  "tally evs = \<lparr>requests = length evs, matches = length (filter snd evs)\<rparr>"

definition minute_of :: "event \<Rightarrow> nat" where
  "minute_of e = fst e div MINUTE_MS"

definition hour_of :: "event \<Rightarrow> nat" where
  "hour_of e = fst e div HOUR_MS * HOUR_MS"

lemma bucket_add_zero [simp]: "bucket_add bucket_zero b = b" "bucket_add b bucket_zero = b"
  by (simp_all add: bucket_add_def bucket_zero_def)

lemma bucket_add_assoc: "bucket_add (bucket_add a b) c = bucket_add a (bucket_add b c)"
  by (simp add: bucket_add_def)

lemma tally_simps [simp]:
  "tally [] = bucket_zero"
  "tally (xs @ ys) = bucket_add (tally xs) (tally ys)"
  by (simp_all add: tally_def bucket_zero_def bucket_add_def)

lemma tally_one: "tally [(t, m)] = \<lparr>requests = 1, matches = (if m then 1 else 0)\<rparr>"
  by (simp add: tally_def)

lemma foldl_bucket:
  "foldl bucket_add b bs = \<lparr>requests = requests b + sum_list (map requests bs),
     matches = matches b + sum_list (map matches bs)\<rparr>"
  by (induction bs arbitrary: b) (simp_all add: bucket_add_def)

lemma sum_partition:
  "distinct ks \<Longrightarrow> sum_list (map (\<lambda>k. length (filter (\<lambda>e. g e = k) evs)) ks) =
     length (filter (\<lambda>e. g e \<in> set ks) evs)"
proof (induction evs)
  case (Cons e evs)
  have "sum_list (map (\<lambda>k. if g e = k then 1 else 0) ks) = (if g e \<in> set ks then 1 else (0::nat))"
    using Cons.prems by (induction ks) auto
  moreover have "(\<lambda>k. length (filter (\<lambda>e. g e = k) (e # evs))) =
    (\<lambda>k. (if g e = k then 1 else 0) + length (filter (\<lambda>e. g e = k) evs))" by auto
  ultimately show ?case using Cons by (simp add: sum_list_addf)
qed simp

lemma tally_partition:
  assumes "distinct ks"
  shows "foldl bucket_add bucket_zero (map (\<lambda>k. tally (filter (\<lambda>e. g e = k) evs)) ks) =
    tally (filter (\<lambda>e. g e \<in> set ks) evs)"
proof -
  have "sum_list (map (\<lambda>k. length (filter snd (filter (\<lambda>e. g e = k) evs))) ks) =
    length (filter snd (filter (\<lambda>e. g e \<in> set ks) evs))"
    using sum_partition[OF assms, of g "filter snd evs"] by (simp add: conj_commute)
  with sum_partition[OF assms, of g evs] show ?thesis
    by (simp add: foldl_bucket tally_def bucket_zero_def comp_def)
qed


section \<open>The minute ring\<close>

definition in_ring :: "nat \<Rightarrow> event \<Rightarrow> bool" where
  "in_ring h e \<longleftrightarrow> minute_of e \<le> h \<and> h < minute_of e + 60"

definition ring_ok :: "event list \<Rightarrow> nat \<Rightarrow> bucket list \<Rightarrow> bool" where
  "ring_ok evs h ms \<longleftrightarrow> length ms = 60 \<and>
     (\<forall>i < 60. ms ! i = tally (filter (\<lambda>e. in_ring h e \<and> minute_of e mod 60 = i) evs))"

lemma fold_zero_slots:
  "length (fold (\<lambda>i ms. ms[(h + i) mod 60 := bucket_zero]) is ms) = length ms"
  "j < length ms \<Longrightarrow> fold (\<lambda>i ms. ms[(h + i) mod 60 := bucket_zero]) is ms ! j =
     (if \<exists>i \<in> set is. (h + i) mod 60 = j then bucket_zero else ms ! j)"
  by (induction "is" arbitrary: ms) (auto simp: nth_list_update)

lemma no_wrap_event:
  fixes h m k e :: nat
  assumes "e \<le> h" "m < e + 60" "1 \<le> k" "h + k \<le> m" "(h + k) mod 60 = e mod 60"
  shows False
proof -
  have "60 dvd (h + k) - e" using assms(1,5) by (metis le_add1 le_trans mod_eq_dvd_iff_nat)
  moreover have "0 < (h + k) - e" "(h + k) - e < 60" using assms(1-4) by linarith+
  ultimately show False using nat_dvd_not_less by blast
qed

lemma ring_advance:
  assumes ok: "ring_ok evs h ms" and le: "h \<le> m" and past: "\<forall>e \<in> set evs. minute_of e \<le> h"
  shows "ring_ok evs m (fold (\<lambda>i ms. ms[(h + i) mod 60 := bucket_zero]) [1..<Suc (min (m - h) 60)] ms)"
    (is "ring_ok evs m ?ms")
  unfolding ring_ok_def
proof (intro conjI allI impI)
  show "length ?ms = 60" using ok by (simp add: ring_ok_def fold_zero_slots)
  fix j :: nat assume j: "j < 60"
  let ?zeroed = "\<exists>i \<in> set [1..<Suc (min (m - h) 60)]. (h + i) mod 60 = j"
  have nth: "?ms ! j = (if ?zeroed then bucket_zero else ms ! j)"
    using ok j by (simp add: ring_ok_def fold_zero_slots(2))
  show "?ms ! j = tally (filter (\<lambda>e. in_ring m e \<and> minute_of e mod 60 = j) evs)"
  proof (cases ?zeroed)
    case True
    then obtain k where "k \<in> set [1..<Suc (min (m - h) 60)]" and kj: "(h + k) mod 60 = j" by blast
    then have k: "1 \<le> k" "k \<le> m - h" "(h + k) mod 60 = j" by (simp_all only: set_upt) auto
    have "filter (\<lambda>e. in_ring m e \<and> minute_of e mod 60 = j) evs = []"
      unfolding filter_empty_conv in_ring_def
    proof (intro ballI notI, elim conjE)
      fix e assume "e \<in> set evs" "m < minute_of e + 60" "minute_of e mod 60 = j"
      with past k le show False by (intro no_wrap_event[of "minute_of e" h m k]) auto
    qed
    with nth show ?thesis unfolding if_P[OF True] by simp
  next
    case False
    have "in_ring h e \<longleftrightarrow> in_ring m e" if e: "e \<in> set evs" "minute_of e mod 60 = j" for e
    proof (rule ccontr)
      assume "\<not> ?thesis"
      then have lo: "minute_of e \<le> h" "h < minute_of e + 60" "minute_of e + 60 \<le> m"
        using past e(1) le by (auto simp: in_ring_def)
      then have "minute_of e + 60 - h \<in> set [1..<Suc (min (m - h) 60)]" by auto
      moreover have "(h + (minute_of e + 60 - h)) mod 60 = j" using lo e(2) by simp
      ultimately show False using False by blast
    qed
    then have "filter (\<lambda>e. in_ring h e \<and> minute_of e mod 60 = j) evs =
      filter (\<lambda>e. in_ring m e \<and> minute_of e mod 60 = j) evs" by (intro filter_cong) auto
    with nth ok j show ?thesis unfolding if_not_P[OF False] ring_ok_def by simp
  qed
qed

lemma ring_sum: "ring_ok evs h ms \<Longrightarrow> foldl bucket_add bucket_zero ms = tally (filter (in_ring h) evs)"
proof -
  assume ok: "ring_ok evs h ms"
  then have "ms = map (\<lambda>i. tally (filter (\<lambda>e. minute_of e mod 60 = i) (filter (in_ring h) evs))) [0..<60]"
    by (intro nth_equalityI) (auto simp: ring_ok_def conj_commute)
  then have "foldl bucket_add bucket_zero ms =
    tally (filter (\<lambda>e. minute_of e mod 60 \<in> set [0..<60]) (filter (in_ring h) evs))"
    by (metis tally_partition distinct_upt)
  then show ?thesis by simp
qed

section \<open>The node invariant\<close>

definition hours_ok :: "event list \<Rightarrow> nat \<Rightarrow> (nat \<times> bucket) list \<Rightarrow> bool" where
  "hours_ok evs lst hs \<longleftrightarrow> sorted_wrt (<) (map fst hs)
     \<and> (\<forall>k b. map_of hs k = Some b \<longrightarrow> b = tally (filter (\<lambda>e. hour_of e = k) evs))
     \<and> (\<forall>e \<in> set evs. lst \<le> hour_of e + RETAIN_HOURS * HOUR_MS \<longrightarrow> hour_of e \<in> fst ` set hs)"

text \<open>\<open>t\<close> is the time of the latest event.\<close>

definition ns_ok :: "event list \<Rightarrow> nat \<Rightarrow> node_stats \<Rightarrow> bool" where
  "ns_ok evs t ns \<longleftrightarrow> total ns = tally evs
     \<and> ring_ok evs (head_minute ns) (minutes ns) \<and> head_minute ns \<le> t div MINUTE_MS
     \<and> (\<forall>e \<in> set evs. minute_of e \<le> head_minute ns)
     \<and> hours_ok evs (t div HOUR_MS * HOUR_MS) (hours ns)"

lemma ns_ok_default: "ns_ok [] 0 node_stats_default"
  by (simp add: ns_ok_def node_stats_default_def ring_ok_def hours_ok_def)

lemma advance_total_hours [simp]: "total (advance m ns) = total ns" "hours (advance m ns) = hours ns"
  by (simp_all add: advance_def Let_def)

lemma ring_ok_advance:
  assumes "ring_ok evs (head_minute ns) (minutes ns)" "\<forall>e \<in> set evs. minute_of e \<le> head_minute ns"
    and "head_minute ns \<le> m"
  shows "ring_ok evs m (minutes (advance m ns))" "head_minute (advance m ns) = m"
  using assms ring_advance[OF assms(1,3,2)] by (auto simp: advance_def Let_def)

lemma fst_hours_upd: "fst ` set (hours_upd f k hs) = insert k (fst ` set hs)"
  by (induction f k hs rule: hours_upd.induct) auto

lemma hours_upd_sorted: "sorted_wrt (<) (map fst hs) \<Longrightarrow> sorted_wrt (<) (map fst (hours_upd f k hs))"
proof (induction f k hs rule: hours_upd.induct)
  case (2 f k k' v xs)
  have "fst ` set (hours_upd f k xs) = insert k (fst ` set xs)" by (rule fst_hours_upd)
  with 2 show ?case by (auto dest: order.strict_trans)
qed simp

lemma map_of_hours_upd:
  "sorted_wrt (<) (map fst hs) \<Longrightarrow> map_of (hours_upd f k hs) =
     (map_of hs)(k \<mapsto> f (case map_of hs k of Some v \<Rightarrow> v | None \<Rightarrow> bucket_zero))"
proof (induction f k hs rule: hours_upd.induct)
  case (2 f k k' v xs)
  have "map_of xs k = None" if "k < k'" using 2 that by (force simp: map_of_eq_None_iff)
  with 2 show ?case by auto
qed simp

lemma hours_ok_upd:
  assumes ok: "hours_ok evs last0 hs" and le: "last0 \<le> hour_of e" and b: "b = tally [e]"
  shows "hours_ok (evs @ [e]) (hour_of e) (hours_upd (\<lambda>v. bucket_add v b) (hour_of e) hs)"
    (is "hours_ok _ _ ?hs")
proof -
  have srt: "sorted_wrt (<) (map fst hs)" using ok by (simp add: hours_ok_def)
  have none: "filter (\<lambda>e'. hour_of e' = hour_of e) evs = []" if "map_of hs (hour_of e) = None"
    using ok le that unfolding hours_ok_def map_of_eq_None_iff filter_empty_conv
    by (metis add_increasing2 zero_le)
  have "c = tally (filter (\<lambda>e. hour_of e = k) (evs @ [e]))" if "map_of ?hs k = Some c" for k c
    using that ok none b unfolding map_of_hours_upd[OF srt] hours_ok_def
    by (cases "map_of hs (hour_of e)") (auto split: if_splits)
  moreover have "hour_of e' \<in> fst ` set ?hs"
    if "e' \<in> set (evs @ [e])" "hour_of e \<le> hour_of e' + RETAIN_HOURS * HOUR_MS" for e'
    using that ok le unfolding fst_hours_upd hours_ok_def by (auto dest: order.trans)
  ultimately show ?thesis using hours_upd_sorted[OF srt] unfolding hours_ok_def by blast
qed

lemma map_of_filter_keys:
  "map_of (filter (\<lambda>(k, v). P k) hs) k = (if P k then map_of hs k else None)"
  by (induction hs) auto

lemma hours_ok_prune:
  assumes "hours_ok evs t hs"
  shows "hours_ok evs t (filter (\<lambda>(k, v). t - RETAIN_HOURS * HOUR_MS \<le> k) hs)"
proof -
  let ?hs = "filter (\<lambda>(k, v). t - RETAIN_HOURS * HOUR_MS \<le> k) hs"
  have "sorted_wrt (<) (map fst ?hs)"
    using assms by (auto simp: hours_ok_def sorted_wrt_map intro: sorted_wrt_filter)
  moreover have "c = tally (filter (\<lambda>e. hour_of e = k) evs)" if "map_of ?hs k = Some c" for k c
    using that assms by (auto simp: hours_ok_def map_of_filter_keys split: if_splits)
  moreover have "hour_of e \<in> fst ` set ?hs"
    if "e \<in> set evs" "t \<le> hour_of e + RETAIN_HOURS * HOUR_MS" for e
    using that assms by (force simp: hours_ok_def image_iff)
  ultimately show ?thesis unfolding hours_ok_def by blast
qed

lemma ring_ok_count:
  assumes "ring_ok evs h ms" "minute_of e = h"
  shows "ring_ok (evs @ [e]) h (ms[h mod 60 := bucket_add (ms ! (h mod 60)) (tally [e])])"
  using assms unfolding ring_ok_def
  by (auto simp: nth_list_update in_ring_def)

lemma ns_ok_record:
  assumes ok: "ns_ok evs t ns" and le: "t \<le> now"
  shows "ns_ok (evs @ [(now, m)]) now (record_ns m now ns)"
proof -
  let ?e = "(now, m)"
  have b: "\<lparr>requests = 1, matches = (if m then 1 else 0)\<rparr> = tally [?e]" by (simp add: tally_one)
  have hour: "now div HOUR_MS * HOUR_MS = hour_of ?e" and minute: "now div MINUTE_MS = minute_of ?e"
    by (simp_all add: hour_of_def minute_of_def)
  have tm: "t div MINUTE_MS \<le> now div MINUTE_MS" "t div HOUR_MS * HOUR_MS \<le> hour_of ?e"
    using le by (simp_all add: hour_of_def div_le_mono)
  have head: "head_minute ns \<le> minute_of ?e" using ok tm(1) by (simp add: ns_ok_def minute_of_def)
  have past: "\<forall>e \<in> set evs. minute_of e \<le> minute_of ?e"
    using ok head by (auto simp: ns_ok_def dest: order.trans)
  have adv: "ring_ok evs (minute_of ?e) (minutes (advance (minute_of ?e) ns))"
    "head_minute (advance (minute_of ?e) ns) = minute_of ?e"
    using ring_ok_advance[of evs ns, OF _ _ head] ok by (simp_all add: ns_ok_def)
  note hrs = hours_ok_upd[of evs _ "hours ns" ?e, OF _ tm(2) refl]
  show ?thesis
    using ok past ring_ok_count[OF adv(1) refl] adv(2) hrs hours_ok_prune[OF hrs]
    unfolding record_ns_def Let_def b hour minute ns_ok_def
    by (auto simp: minute)
qed

lemma window_m60_tally:
  assumes "ns_ok evs t ns" "t \<le> now"
  shows "window_m60 (advance (now div MINUTE_MS) ns) = tally (filter (in_ring (now div MINUTE_MS)) evs)"
proof -
  have "head_minute ns \<le> now div MINUTE_MS"
    using assms by (auto simp: ns_ok_def intro: order.trans div_le_mono)
  then show ?thesis
    using assms(1) ring_ok_advance[of evs ns] by (auto simp: window_m60_def ns_ok_def intro!: ring_sum)
qed

lemma window_hours_tally:
  assumes "ns_ok evs t ns" "t \<le> now" "n \<le> Suc RETAIN_HOURS"
  shows "window_hours now n ns =
    tally (filter (\<lambda>e. (now div HOUR_MS - (n - 1)) * HOUR_MS \<le> hour_of e) evs)"
proof -
  let ?c = "(now div HOUR_MS - (n - 1)) * HOUR_MS"
  let ?hs = "filter (\<lambda>(k, v). ?c \<le> k) (hours ns)"
  have ok: "hours_ok evs (t div HOUR_MS * HOUR_MS) (hours ns)" using assms(1) by (simp add: ns_ok_def)
  then have dist: "distinct (map fst (hours ns))" by (simp add: hours_ok_def strict_sorted_iff)
  then have dist': "distinct (map fst ?hs)" by (simp add: distinct_map_filter)
  have "v = tally (filter (\<lambda>e. hour_of e = k) evs)" if "(k, v) \<in> set ?hs" for k v
    using that ok map_of_eq_Some_iff[OF dist] by (auto simp: hours_ok_def)
  then have "map snd ?hs = map (\<lambda>k. tally (filter (\<lambda>e. hour_of e = k) evs)) (map fst ?hs)"
    by (auto intro!: map_cong)
  then have "foldl bucket_add bucket_zero (map snd ?hs) =
    tally (filter (\<lambda>e. hour_of e \<in> set (map fst ?hs)) evs)" using tally_partition[OF dist'] by metis
  moreover have "hour_of e \<in> set (map fst ?hs) \<longleftrightarrow> ?c \<le> hour_of e" if e: "e \<in> set evs" for e
  proof -
    have "t div HOUR_MS * HOUR_MS \<le> hour_of e + RETAIN_HOURS * HOUR_MS" if c: "?c \<le> hour_of e"
    proof -
      have "t div HOUR_MS \<le> (now div HOUR_MS - (n - 1)) + RETAIN_HOURS"
        using div_le_mono[OF assms(2), of HOUR_MS] assms(3) by linarith
      then have "t div HOUR_MS * HOUR_MS \<le> ?c + RETAIN_HOURS * HOUR_MS"
        by (metis add_mult_distrib mult_le_mono1)
      with c show ?thesis by linarith
    qed
    then have "?c \<le> hour_of e \<Longrightarrow> hour_of e \<in> fst ` set (hours ns)"
      using ok e by (simp add: hours_ok_def)
    then show ?thesis by force
  qed
  ultimately show ?thesis
    unfolding window_hours_def Let_def by (metis (mono_tags, lifting) filter_cong)
qed


section \<open>Specification of the counters\<close>

text \<open>A recorded event: the node, whether a match was stored, and the time.\<close>

definition replay :: "(nat \<times> bool \<times> nat) list \<Rightarrow> stats_map" where
  "replay evs = fold (\<lambda>(node, m, t). stats_record node m t) evs Map.empty"

definition events_of :: "nat \<Rightarrow> (nat \<times> bool \<times> nat) list \<Rightarrow> event list" where
  "events_of n evs = map (\<lambda>(_, m, t). (t, m)) (filter (\<lambda>(node, _). node = n) evs)"

definition spec_windows :: "nat \<Rightarrow> (nat \<times> bool \<times> nat) list \<Rightarrow> nat \<Rightarrow> node_windows" where
  "spec_windows now evs n =
     (let es = events_of n evs; this_minute = now div MINUTE_MS; this_hour = now div HOUR_MS in
      \<lparr>win_node_id = n,
       m60 = tally (filter (\<lambda>(t, _). this_minute < t div MINUTE_MS + 60) es),
       h24 = tally (filter (\<lambda>(t, _). this_hour < t div HOUR_MS + 24) es),
       d7 = tally (filter (\<lambda>(t, _). this_hour < t div HOUR_MS + 168) es),
       win_all = tally es\<rparr>)"

lemma ns_ok_mono:
  assumes "ns_ok evs t ns" "t \<le> t'"
  shows "ns_ok evs t' ns"
proof -
  have le: "t div HOUR_MS * HOUR_MS \<le> t' div HOUR_MS * HOUR_MS" "t div MINUTE_MS \<le> t' div MINUTE_MS"
    using assms(2) by (simp_all add: div_le_mono)
  then have "hours_ok evs (t' div HOUR_MS * HOUR_MS) (hours ns)"
    using assms(1) unfolding ns_ok_def hours_ok_def by (meson order.trans)
  with le(2) assms(1) show ?thesis by (simp add: ns_ok_def)
qed

lemma replay_ok:
  assumes "sorted (map (\<lambda>(_, _, t). t) evs)" "\<forall>(_, _, t') \<in> set evs. t' \<le> t"
  shows "if events_of n evs = [] then replay evs n = None
     else \<exists>ns. replay evs n = Some ns \<and> ns_ok (events_of n evs) t ns"
  using assms
proof (induction evs arbitrary: t rule: rev_induct)
  case Nil
  then show ?case by (simp add: events_of_def replay_def)
next
  case (snoc x evs)
  obtain node m t0 where x: "x = (node, m, t0)" by (cases x)
  from snoc.prems have "sorted (map (\<lambda>(_, _, t). t) evs)" "\<forall>(_, _, t') \<in> set evs. t' \<le> t0" "t0 \<le> t"
    by (auto simp: x sorted_append)
  note IH = snoc.IH[OF this(1,2)] and le = this(3)
  have rep: "replay (evs @ [x]) = (replay evs)(node \<mapsto> record_ns m t0 (ns_of (replay evs) node))"
    by (simp add: replay_def x stats_record_def)
  have evs: "events_of n (evs @ [x]) = events_of n evs @ (if n = node then [(t0, m)] else [])"
    by (auto simp: events_of_def x)
  show ?case
  proof (cases "n = node")
    case True
    have "ns_ok (events_of n evs) t0 (ns_of (replay evs) n)"
      using IH ns_ok_mono[OF ns_ok_default, of t0] by (auto simp: ns_of_def split: if_splits)
    from ns_ok_record[OF this order.refl, of m] have
      "ns_ok (events_of n (evs @ [x])) t0 (record_ns m t0 (ns_of (replay evs) n))" using evs True by simp
    then show ?thesis using rep evs True ns_ok_mono[OF _ le] by auto
  next
    case False
    then show ?thesis using IH rep evs ns_ok_mono[OF _ le] by (auto split: if_splits)
  qed
qed

lemma hour_window: "1 \<le> n \<Longrightarrow> (h - (n - 1)) * HOUR_MS \<le> hour_of (t, m) \<longleftrightarrow> h < t div HOUR_MS + n"
  by (auto simp: hour_of_def HOUR_MS_def)

lemma advance_windows:
  assumes ok: "ns_ok (events_of n evs) now ns"
  shows "node_windows_of now n (advance (now div MINUTE_MS) ns) = spec_windows now evs n"
proof -
  let ?es = "events_of n evs"
  have "in_ring (now div MINUTE_MS) (t, m) \<longleftrightarrow> now div MINUTE_MS < t div MINUTE_MS + 60" if "(t, m) \<in> set ?es" for t m
    using that ok by (force simp: in_ring_def ns_ok_def minute_of_def)
  then have "filter (in_ring (now div MINUTE_MS)) ?es = filter (\<lambda>(t, _). now div MINUTE_MS < t div MINUTE_MS + 60) ?es"
    by (intro filter_cong) auto
  moreover have "window_hours now k (advance m ns) =
      tally (filter (\<lambda>(t, _). now div HOUR_MS < t div HOUR_MS + k) ?es)" if "1 \<le> k" "k \<le> 169" for k m
  proof -
    have "filter (\<lambda>e. (now div HOUR_MS - (k - 1)) * HOUR_MS \<le> hour_of e) ?es =
        filter (\<lambda>(t, _). now div HOUR_MS < t div HOUR_MS + k) ?es"
      by (rule filter_cong) (auto simp: hour_window[OF that(1)] simp del: One_nat_def)
    moreover have "window_hours now k (advance m ns) = window_hours now k ns"
      by (simp add: window_hours_def)
    ultimately show ?thesis
      using window_hours_tally[OF ok order.refl, of k] that(2) by (simp add: RETAIN_HOURS_def)
  qed
  ultimately show ?thesis
    using window_m60_tally[OF ok order.refl] ok
    by (simp add: node_windows_of_def spec_windows_def Let_def ns_ok_def)
qed

section \<open>Flushing and reloading\<close>

definition dirty_ok :: "event list \<Rightarrow> node_stats \<Rightarrow> bool" where
  "dirty_ok evs ns \<longleftrightarrow> distinct (dirty ns) \<and> set (dirty ns) = hour_of ` set evs"

lemma advance_dirty [simp]: "dirty (advance m ns) = dirty ns"
  by (simp add: advance_def Let_def)

lemma dirty_ok_record: "dirty_ok evs ns \<Longrightarrow> dirty_ok (evs @ [(t, m)]) (record_ns m t ns)"
  by (auto simp: dirty_ok_def record_ns_def Let_def hour_of_def set_insort_insert distinct_insort_insert)

lemma replay_dirty: "dirty_ok (events_of n evs) (ns_of (replay evs) n)"
proof (induction evs rule: rev_induct)
  case Nil
  then show ?case by (simp add: dirty_ok_def events_of_def replay_def ns_of_def node_stats_default_def)
next
  case (snoc x evs)
  obtain node m t0 where x: "x = (node, m, t0)" by (cases x)
  have "events_of n (evs @ [x]) = events_of n evs @ (if n = node then [(t0, m)] else [])"
    by (auto simp: events_of_def x)
  moreover have "ns_of (replay (evs @ [x])) n =
      (if n = node then record_ns m t0 (ns_of (replay evs) n) else ns_of (replay evs) n)"
    by (simp add: replay_def x stats_record_def ns_of_def)
  ultimately show ?case using snoc by (auto intro: dirty_ok_record)
qed

lemma load_total:
  "total (ns_of (fold (load_row now) rows s) n) =
     foldl bucket_add (total (ns_of s n)) (map (\<lambda>(_, _, b). b) (filter (\<lambda>(i, _). i = n) rows))"
proof (induction rows arbitrary: s)
  case (Cons row rows)
  obtain i h b where row: "row = (i, h, b)" by (cases row)
  have "total (ns_of (load_row now row s) n) =
      (if i = n then bucket_add (total (ns_of s n)) b else total (ns_of s n))"
    by (simp add: load_row_def row Let_def ns_of_def)
  with Cons show ?case by (simp add: row)
qed simp

lemma dirty_rows_eq:
  assumes "ns_ok evs t ns" "dirty_ok evs ns"
    and "\<forall>e \<in> set evs. t div HOUR_MS * HOUR_MS \<le> hour_of e + RETAIN_HOURS * HOUR_MS"
  shows "dirty_rows n ns = map (\<lambda>h. (n, h, tally (filter (\<lambda>e. hour_of e = h) evs))) (dirty ns)"
proof -
  have "map_of (hours ns) h = Some (tally (filter (\<lambda>e. hour_of e = h) evs))" if "h \<in> set (dirty ns)" for h
  proof -
    have "h \<in> fst ` set (hours ns)" using that assms by (auto simp: dirty_ok_def ns_ok_def hours_ok_def)
    then obtain b where "map_of (hours ns) h = Some b" by (metis map_of_eq_None_iff option.exhaust)
    then show ?thesis using assms(1) by (auto simp: ns_ok_def hours_ok_def)
  qed
  then show ?thesis
    unfolding dirty_rows_def List.map_filter_def comp_def by (auto intro!: map_cong simp: filter_id_conv)
qed

lemma filter_concat_rows:
  assumes "distinct order" "n \<in> set order" "\<And>i row. row \<in> set (f i) \<Longrightarrow> fst row = i"
  shows "filter (\<lambda>(i, _). i = n) (concat (map f order)) = f n"
  using assms(1,2)
proof (induction order)
  case (Cons i order)
  have "filter (\<lambda>(j, _). j = n) (f i) = (if i = n then f n else [])"
    using assms(3)[of _ i] by (force simp: filter_id_conv filter_empty_conv)
  moreover have "filter (\<lambda>(j, _). j = n) (concat (map f order)) = []" if "n \<notin> set order"
    using that assms(3) by (fastforce simp: filter_empty_conv)
  ultimately show ?case using Cons by auto
qed simp

section \<open>Properties\<close>

text \<open>C25: For any history of recorded requests in time order, a snapshot reports for every node that has
  one the exact counts of the events of the last 60 minutes (the current minute and the 59 before
  it), of the last 24 and 168 clock hours and of all time, although the code keeps only a ring of
  60 slots and prunes its hour buckets; nodes without events are not listed.\<close>

theorem snapshot_counts_events:
  assumes "sorted (map (\<lambda>(_, _, t). t) evs)" "\<forall>(_, _, t) \<in> set evs. t \<le> now"
  shows "fst (snapshot order now (replay evs)) =
    map (spec_windows now evs) (filter (\<lambda>n. events_of n evs \<noteq> []) order)"
proof (induction order)
  case (Cons n order)
  have "map_option (node_windows_of now n) (map_option (advance (now div MINUTE_MS)) (replay evs n)) =
    (if events_of n evs = [] then None else Some (spec_windows now evs n))"
    using replay_ok[OF assms, of n] advance_windows[of n evs now] by (auto split: if_splits)
  with Cons show ?case by (auto simp: snapshot_def Let_def List.map_filter_simps)
qed (simp add: snapshot_def List.map_filter_simps)

theorem snapshot_counts_events_witness:
  "fst (snapshot [7, 8] 7200000 (replay [(7, True, 5), (7, False, 3600001)])) =
     [\<lparr>win_node_id = 7, m60 = \<lparr>requests = 0, matches = 0\<rparr>, h24 = \<lparr>requests = 2, matches = 1\<rparr>,
       d7 = \<lparr>requests = 2, matches = 1\<rparr>, win_all = \<lparr>requests = 2, matches = 1\<rparr>\<rparr>]"
  using snapshot_counts_events[of "[(7, True, 5), (7, False, 3600001)]" 7200000 "[7, 8]"]
  by (simp add: spec_windows_def events_of_def tally_def MINUTE_MS_def HOUR_MS_def Let_def bucket_zero_def)

text \<open>A restart loses no contribution: when every recorded event lies within the retention window,
  flushing the dirty hour buckets and loading the flushed rows rebuilds for every node exactly the
  all-time totals of its events.\<close>

theorem flush_load_totals:
  assumes "sorted (map (\<lambda>(_, _, t). t) evs)" "\<forall>(_, _, t) \<in> set evs. t \<le> now"
    and "\<forall>(_, _, t) \<in> set evs. now div HOUR_MS \<le> t div HOUR_MS + RETAIN_HOURS"
    and "distinct order" "n \<in> set order"
  shows "total (ns_of (load (fst (take_dirty order (replay evs))) now) n) = tally (events_of n evs)"
proof -
  let ?f = "\<lambda>i. case replay evs i of Some ns \<Rightarrow> dirty_rows i ns | None \<Rightarrow> []"
  have fst_rows: "fst row = i" if "row \<in> set (?f i)" for row i
    using that by (auto simp: dirty_rows_def List.map_filter_def split: option.splits)
  have tot: "total (ns_of (load (fst (take_dirty order (replay evs))) now) n) =
      foldl bucket_add bucket_zero (map (\<lambda>(_, _, b). b) (?f n))"
    using load_total[of now "concat (map ?f order)" Map.empty n]
      filter_concat_rows[OF assms(4,5), of ?f] fst_rows
    by (simp add: load_def take_dirty_def ns_of_def node_stats_default_def)
  show ?thesis
  proof (cases "events_of n evs = []")
    case True
    then have "replay evs n = None" using replay_ok[OF assms(1,2), of n] by simp
    with tot True show ?thesis by simp
  next
    case False
    then obtain ns where ns: "replay evs n = Some ns" "ns_ok (events_of n evs) now ns"
      using replay_ok[OF assms(1,2), of n] by auto
    have d: "dirty_ok (events_of n evs) ns" using replay_dirty[of n evs] ns(1) by (simp add: ns_of_def)
    have "\<forall>e \<in> set (events_of n evs). now div HOUR_MS * HOUR_MS \<le> hour_of e + RETAIN_HOURS * HOUR_MS"
      using assms(3) by (auto simp: events_of_def hour_of_def simp flip: add_mult_distrib)
    note rows = dirty_rows_eq[OF ns(2) d this, of n]
    have "tally (filter (\<lambda>e. hour_of e \<in> set (dirty ns)) (events_of n evs)) = tally (events_of n evs)"
      using d by (intro arg_cong[where f = tally]) (auto simp: dirty_ok_def filter_id_conv)
    with tot ns(1) rows tally_partition[of "dirty ns" hour_of "events_of n evs"] d show ?thesis
      by (simp add: dirty_ok_def comp_def)
  qed
qed

theorem flush_load_totals_witness:
  "total (ns_of (load (fst (take_dirty [7, 8] (replay [(7, True, 5), (8, True, 9), (7, False, 3600001)]))) 7200000) 7) =
     \<lparr>requests = 2, matches = 1\<rparr>"
  using flush_load_totals[of "[(7, True, 5), (8, True, 9), (7, False, 3600001)]" 7200000 "[7, 8]" 7]
  by (simp add: events_of_def tally_def HOUR_MS_def RETAIN_HOURS_def)

end
