(* ===== verification/Broker.thy ===== *)
theory Broker
  imports Registry Stats
begin

text \<open>
  The fetch broker of \<^verbatim>\<open>crates/server/src/broker.rs\<close>.  Each method is one step on the state, as
  the mutex makes it, except \<^verbatim>\<open>fetch\<close>, which tests the shutdown flag before it takes the lock:
  \<open>fetch_enter\<close> and \<open>fetch_enqueue\<close> are its two steps.  A oneshot channel is named by the id of
  the job that owns its sender; what is sent on the channels is appended to \<open>resolved\<close>.
  Arguments stand for what the code takes from outside: \<open>now\<close> for the clock, \<open>rolls\<close> for the
  successive outcomes of the audit dice, \<open>order\<close> for the iteration order of a hash map, \<open>parse\<close>
  for \<^verbatim>\<open>serde_json::from_str\<close>.  Job ids are naturals: \<^verbatim>\<open>next_id\<close> counts one per job and cannot
  reach \<open>2 ^ 64\<close>.
\<close>

section \<open>State\<close>

datatype fetch_error = JobAbandoned | ServerShuttingDown | BrokerShutDown

text \<open>\<^verbatim>\<open>Result<Option<String>>\<close>\<close>

type_synonym fetch_result = "fetch_error + string option"

record job_state =
  j_host :: string
  j_method :: string
  j_path :: string
  responder :: "nat option"
  lease :: "(nat \<times> nat) option"
  attempts :: nat
  exclude_node :: "nat option"
  twin_id :: "nat option"
  is_twin :: bool
  created :: nat

datatype audit_body = Found string | NotFound

record audit_pair =
  ap_method :: string
  ap_path :: string
  primary_node :: nat
  twin_node :: "nat option"
  primary :: "audit_body option"
  twin :: "audit_body option"

type_synonym queue_entry = "nat \<times> nat option"

record broker =
  next_id :: nat
  jobs :: "nat \<Rightarrow> job_state option"
  queues :: "string \<Rightarrow> queue_entry list option"
  audits :: "nat \<Rightarrow> audit_pair option"
  b_registry :: registry
  b_stats :: stats_map
  shutdown_flag :: bool
  resolved :: "(nat \<times> fetch_result) list"

record job =
  job_id :: nat
  job_host :: string
  job_method :: string
  job_path :: string
  job_lease_ms :: nat

datatype job_outcome = OutOk | OutNotFound | OutKeyRejected | OutFailed

record job_result =
  res_id :: nat
  res_outcome :: job_outcome
  res_body :: "string option"

definition TARGET_INFLIGHT_PER_HOST :: nat where "TARGET_INFLIGHT_PER_HOST = 8"

definition MAX_ATTEMPTS :: nat where "MAX_ATTEMPTS = 6"

definition TWIN_TTL :: nat where "TWIN_TTL = 600000"

definition LEASE_MS :: nat where "LEASE_MS = 150000"

definition IMMUTABLE_METHODS :: "string list" where
  "IMMUTABLE_METHODS = [''match-v5.match'', ''match-v5.timeline'']"

definition broker_new :: "registry \<Rightarrow> stats_map \<Rightarrow> broker" where
  "broker_new reg st = \<lparr>next_id = 1, jobs = Map.empty, queues = Map.empty, audits = Map.empty,
     b_registry = reg, b_stats = st, shutdown_flag = False, resolved = []\<rparr>"

section \<open>Operations\<close>

definition queue_of :: "broker \<Rightarrow> string \<Rightarrow> queue_entry list" where
  "queue_of b host = (case queues b host of Some q \<Rightarrow> q | None \<Rightarrow> [])"

text \<open>\<^verbatim>\<open>queues.entry(host).or_default().push_back(entry)\<close>\<close>

definition push_back :: "string \<Rightarrow> queue_entry \<Rightarrow> broker \<Rightarrow> broker" where
  "push_back host e b = b\<lparr>queues := (queues b)(host \<mapsto> queue_of b host @ [e])\<rparr>"

text \<open>\<^verbatim>\<open>if let Some(tx) = job.responder { tx.send(..) }\<close>\<close>

definition send :: "nat option \<Rightarrow> fetch_result \<Rightarrow> broker \<Rightarrow> broker" where
  "send tx res b = (case tx of Some ch \<Rightarrow> b\<lparr>resolved := resolved b @ [(ch, res)]\<rparr> | None \<Rightarrow> b)"

definition fetch_enter :: "broker \<Rightarrow> fetch_error + unit" where
  "fetch_enter b = (if shutdown_flag b then Inl BrokerShutDown else Inr ())"

definition fetch_enqueue :: "string \<Rightarrow> string \<Rightarrow> string \<Rightarrow> nat \<Rightarrow> broker \<Rightarrow> broker" where
  "fetch_enqueue host method path now b =
     (let i = next_id b;
          job = \<lparr>j_host = host, j_method = method, j_path = path, responder = Some i, lease = None,
            attempts = 0, exclude_node = None, twin_id = None, is_twin = False, created = now\<rparr>;
          b = b\<lparr>next_id := i + 1, jobs := (jobs b)(i \<mapsto> job)\<rparr>
      in push_back host (i, None) b)"

text \<open>The \<^verbatim>\<open>while cap > 0 && i < q.len()\<close> loop of \<^verbatim>\<open>take_jobs\<close>.\<close>

function pick_loop :: "nat \<Rightarrow> nat \<Rightarrow> nat \<Rightarrow> queue_entry list \<Rightarrow> nat list \<Rightarrow> queue_entry list \<times> nat list" where
  "pick_loop node_id cap i q picked =
     (if cap > 0 \<and> i < length q then
        if snd (q ! i) = Some node_id then pick_loop node_id cap (i + 1) q picked
        else pick_loop node_id (cap - 1) i (take i q @ drop (Suc i) q) (picked @ [fst (q ! i)])
      else (q, picked))"
  by pat_completeness auto
termination
  by (relation "measure (\<lambda>(node_id, cap, i, q, picked). length q - i)") auto

declare pick_loop.simps [simp del]

text \<open>What \<^verbatim>\<open>take_jobs\<close> accumulates: the leased jobs, the twins to create, the remaining dice.\<close>

record take_acc =
  out :: "job list"
  new_twins :: "(nat \<times> string \<times> string \<times> string) list"
  dice :: "bool list"

definition roll :: "bool list \<Rightarrow> bool \<times> bool list" where
  "roll rs = (case rs of [] \<Rightarrow> (False, []) | r # rs' \<Rightarrow> (r, rs'))"

definition lease_one :: "nat \<Rightarrow> nat \<Rightarrow> bool \<Rightarrow> nat \<Rightarrow> broker \<times> take_acc \<Rightarrow> broker \<times> take_acc" where
  "lease_one node_id now audit_possible i st =
     (case st of (b, acc) \<Rightarrow>
      case jobs b i of
        None \<Rightarrow> (b, acc)
      | Some job \<Rightarrow>
          let job = job\<lparr>lease := Some (node_id, now + LEASE_MS)\<rparr>;
              b = b\<lparr>jobs := (jobs b)(i \<mapsto> job)\<rparr>;
              acc = acc\<lparr>out := out acc @ [\<lparr>job_id = i, job_host = j_host job, job_method = j_method job,
                job_path = j_path job, job_lease_ms = LEASE_MS\<rparr>]\<rparr>
          in if \<not> is_twin job \<and> twin_id job = None \<and> audit_possible
             then let (r, rest) = roll (dice acc); acc = acc\<lparr>dice := rest\<rparr> in
               if r then (b, acc\<lparr>new_twins := new_twins acc @ [(i, j_host job, j_method job, j_path job)]\<rparr>)
               else (b, acc)
             else (b, acc))"

definition take_host ::
  "nat \<Rightarrow> nat \<Rightarrow> (string \<Rightarrow> nat option) \<Rightarrow> bool \<Rightarrow> string \<Rightarrow> broker \<times> take_acc \<Rightarrow> broker \<times> take_acc" where
  "take_host node_id now pending audit_possible host st =
     (case st of (b, acc) \<Rightarrow>
      let held = (case pending host of Some n \<Rightarrow> n | None \<Rightarrow> 0);
          cap = TARGET_INFLIGHT_PER_HOST - held;
          (q, picked) = pick_loop node_id cap 0 (queue_of b host) [];
          b = b\<lparr>queues := (queues b)(host \<mapsto> q)\<rparr>
      in fold (lease_one node_id now audit_possible) picked (b, acc))"

definition add_twin :: "nat \<Rightarrow> nat \<Rightarrow> nat \<times> string \<times> string \<times> string \<Rightarrow> broker \<Rightarrow> broker" where
  "add_twin node_id now tw b =
     (case tw of (primary_id, host, method, path) \<Rightarrow>
      let t = next_id b;
          job = \<lparr>j_host = host, j_method = method, j_path = path, responder = None, lease = None,
            attempts = 0, exclude_node = Some node_id, twin_id = Some primary_id, is_twin = True,
            created = now\<rparr>;
          b = b\<lparr>next_id := t + 1, jobs := (jobs b)(t \<mapsto> job)\<rparr>;
          b = (case jobs b primary_id of
                 Some p \<Rightarrow> b\<lparr>jobs := (jobs b)(primary_id \<mapsto> p\<lparr>twin_id := Some t\<rparr>)\<rparr>
               | None \<Rightarrow> b);
          b = push_back host (t, Some node_id) b
      in b\<lparr>audits := (audits b)(t \<mapsto> \<lparr>ap_method = method, ap_path = path, primary_node = node_id,
           twin_node = None, primary = None, twin = None\<rparr>)\<rparr>)"

text \<open>\<open>hosts\<close> is the order in which the keys of \<^verbatim>\<open>queues\<close> come, \<open>order\<close> that of the registry's nodes.\<close>

definition take_jobs ::
  "string list \<Rightarrow> nat list \<Rightarrow> bool list \<Rightarrow> nat \<Rightarrow> nat \<Rightarrow> (string \<Rightarrow> nat option) \<Rightarrow> broker \<Rightarrow> job list \<times> broker" where
  "take_jobs hosts order rolls now node_id pending b =
     (let audit_possible = active_node_other_than order now node_id (b_registry b);
          (b, acc) = fold (take_host node_id now pending audit_possible) hosts
            (b, \<lparr>out = [], new_twins = [], dice = rolls\<rparr>);
          b = fold (add_twin node_id now) (new_twins acc) b
      in (out acc, b))"

definition abandon :: "nat \<Rightarrow> broker \<Rightarrow> broker" where
  "abandon i b =
     (case jobs b i of
        None \<Rightarrow> b
      | Some job \<Rightarrow>
          let b = b\<lparr>jobs := (jobs b)(i := None)\<rparr>;
              b = send (responder job) (Inl JobAbandoned) b
          in if is_twin job then b\<lparr>audits := (audits b)(i := None)\<rparr>
             else (case twin_id job of
                     Some t \<Rightarrow> b\<lparr>audits := (audits b)(t := None), jobs := (jobs b)(t := None)\<rparr>
                   | None \<Rightarrow> b))"

definition release :: "nat \<Rightarrow> bool \<Rightarrow> broker \<Rightarrow> broker" where
  "release i count_attempt b =
     (case jobs b i of
        None \<Rightarrow> b
      | Some job \<Rightarrow>
          let job = job\<lparr>lease := None\<rparr>;
              job = (if count_attempt then job\<lparr>attempts := attempts job + 1\<rparr> else job);
              b = b\<lparr>jobs := (jobs b)(i \<mapsto> job)\<rparr>
          in if count_attempt \<and> attempts job \<ge> MAX_ATTEMPTS then abandon i b
             else push_back (j_host job) (i, exclude_node job) b)"

definition json_equal :: "(string \<Rightarrow> 'json option) \<Rightarrow> string \<Rightarrow> string \<Rightarrow> bool" where
  "json_equal parse x y =
     (case (parse x, parse y) of (Some u, Some v) \<Rightarrow> u = v | _ \<Rightarrow> x = y)"

fun bodies_equal :: "(string \<Rightarrow> 'json option) \<Rightarrow> audit_body \<Rightarrow> audit_body \<Rightarrow> bool" where
  "bodies_equal parse NotFound NotFound = True"
| "bodies_equal parse (Found x) (Found y) = json_equal parse x y"
| "bodies_equal parse _ _ = False"

definition finish_audit_if_ready :: "(string \<Rightarrow> 'json option) \<Rightarrow> nat \<Rightarrow> broker \<Rightarrow> broker" where
  "finish_audit_if_ready parse t b =
     (case audits b t of
        None \<Rightarrow> b
      | Some pair \<Rightarrow>
          (case (primary pair, twin pair) of
             (Some x, Some y) \<Rightarrow>
               let b = b\<lparr>audits := (audits b)(t := None)\<rparr>;
                   twin_node = (case twin_node pair of Some n \<Rightarrow> n | None \<Rightarrow> 0);
                   hard = ap_method pair \<in> set IMMUTABLE_METHODS;
                   verdict = (if bodies_equal parse x y then Pass else if hard then HardFail else SoftFail)
               in b\<lparr>b_registry := audit_result (primary_node pair) twin_node verdict (b_registry b)\<rparr>
           | _ \<Rightarrow> b))"

definition complete_body :: "(string \<Rightarrow> 'json option) \<Rightarrow> nat \<Rightarrow> nat \<Rightarrow> job_result \<Rightarrow> job_state \<Rightarrow> broker \<Rightarrow> broker" where
  "complete_body parse now_ms node_id res job b =
     (let b = b\<lparr>jobs := (jobs b)(res_id res := None)\<rparr>;
          body = (if res_outcome res = OutOk
                  then Found (case res_body res of Some s \<Rightarrow> s | None \<Rightarrow> []) else NotFound);
          b = send (responder job) (Inr (case body of Found s \<Rightarrow> Some s | NotFound \<Rightarrow> None)) b;
          is_match = (j_method job = ''match-v5.match'' \<and> res_outcome res = OutOk);
          b = b\<lparr>b_registry := job_completed node_id (b_registry b),
                b_stats := stats_record node_id is_match now_ms (b_stats b)\<rparr>
      in if is_twin job then
           finish_audit_if_ready parse (res_id res)
             (case audits b (res_id res) of
                Some pair \<Rightarrow> b\<lparr>audits := (audits b)(res_id res \<mapsto>
                  pair\<lparr>twin_node := Some node_id, twin := Some body\<rparr>)\<rparr>
              | None \<Rightarrow> b)
         else (case twin_id job of
                 Some t \<Rightarrow> finish_audit_if_ready parse t
                   (case audits b t of
                      Some pair \<Rightarrow> b\<lparr>audits := (audits b)(t \<mapsto> pair\<lparr>primary := Some body\<rparr>)\<rparr>
                    | None \<Rightarrow> b)
               | None \<Rightarrow> b))"

definition accepts_result :: "nat \<Rightarrow> job_state \<Rightarrow> bool" where
  "accepts_result node_id job \<longleftrightarrow> (case lease job of Some (n, _) \<Rightarrow> n = node_id | None \<Rightarrow> True)"

definition complete :: "(string \<Rightarrow> 'json option) \<Rightarrow> nat \<Rightarrow> nat \<Rightarrow> job_result \<Rightarrow> broker \<Rightarrow> broker" where
  "complete parse now_ms node_id res b =
     (case jobs b (res_id res) of
        None \<Rightarrow> b
      | Some job \<Rightarrow>
          if \<not> accepts_result node_id job then b
          else case res_outcome res of
            OutOk \<Rightarrow> complete_body parse now_ms node_id res job b
          | OutNotFound \<Rightarrow> complete_body parse now_ms node_id res job b
          | OutKeyRejected \<Rightarrow>
              release (res_id res) False (b\<lparr>b_registry := set_key_bad node_id True (b_registry b)\<rparr>)
          | OutFailed \<Rightarrow>
              let job = job\<lparr>attempts := attempts job + 1\<rparr>;
                  b = b\<lparr>jobs := (jobs b)(res_id res \<mapsto> job)\<rparr>
              in if attempts job \<ge> MAX_ATTEMPTS then abandon (res_id res) b
                 else release (res_id res) False b)"

definition lease_expired :: "nat \<Rightarrow> job_state \<Rightarrow> bool" where
  "lease_expired now job \<longleftrightarrow> (case lease job of Some (_, exp) \<Rightarrow> exp \<le> now | None \<Rightarrow> False)"

definition stale_twin :: "nat \<Rightarrow> job_state \<Rightarrow> bool" where
  "stale_twin now job \<longleftrightarrow> is_twin job \<and> lease job = None \<and> now - created job > TWIN_TTL"

definition ids_where :: "(job_state \<Rightarrow> bool) \<Rightarrow> nat list \<Rightarrow> broker \<Rightarrow> nat list" where
  "ids_where P order b = filter (\<lambda>i. case jobs b i of Some j \<Rightarrow> P j | None \<Rightarrow> False) order"

definition drop_twin :: "nat \<Rightarrow> broker \<Rightarrow> broker" where
  "drop_twin i b = b\<lparr>jobs := (jobs b)(i := None), audits := (audits b)(i := None)\<rparr>"

text \<open>\<open>order1\<close> and \<open>order2\<close>: the two iterations over \<^verbatim>\<open>jobs\<close>.\<close>

definition sweep :: "nat list \<Rightarrow> nat list \<Rightarrow> nat \<Rightarrow> broker \<Rightarrow> broker" where
  "sweep order1 order2 now b =
     (let b = fold (\<lambda>i. release i True) (ids_where (lease_expired now) order1 b) b
      in fold drop_twin (ids_where (stale_twin now) order2 b) b)"

definition shutdown :: "nat list \<Rightarrow> broker \<Rightarrow> broker" where
  "shutdown order b =
     (let b = b\<lparr>shutdown_flag := True\<rparr>;
          b = fold (\<lambda>i b. case jobs b i of
                 Some job \<Rightarrow> send (responder job) (Inl ServerShuttingDown) b
               | None \<Rightarrow> b) order b
      in b\<lparr>jobs := Map.empty, queues := Map.empty, audits := Map.empty\<rparr>)"

definition depth :: "nat list \<Rightarrow> broker \<Rightarrow> nat \<times> nat" where
  "depth order b =
     (let leased = length (ids_where (\<lambda>j. lease j \<noteq> None) order b)
      in (length (ids_where (\<lambda>j. True) order b) - leased, leased))"

end
