(* ===== verification/Executor.thy ===== *)
theory Executor
  imports Ratelimit_Props Broker
begin

text \<open>
  The node's job executor (\<^verbatim>\<open>crates/node/src/executor.rs\<close>): the retry loop around one request, the adoption of the
  declared limit windows, cooldowns and the rejected key.

  What comes back over the wire, the latency and the random draws of the limiters are a script: one entry per pass of
  the loop.  The job runs alone on the executor.  The time of each wire request is recorded.  The user-interface
  callback and the texts of the error messages are dropped.
\<close>

record http_response =
  hr_status :: nat
  hr_app_limit :: "string option"
  hr_method_limit :: "string option"
  hr_retry_after :: "string option"
  hr_limit_type :: "string option"
  hr_body :: "string option"

text \<open>A pass: the draws and overruns of the two acquires, the latency and the response; \<open>None\<close> is a request error, and a body
  of \<open>None\<close> one that could not be read.\<close>

record io_pass =
  io_method_env :: "nat \<Rightarrow> rat \<times> nat"
  io_app_env :: "nat \<Rightarrow> rat \<times> nat"
  io_latency :: nat
  io_response :: "http_response option"

record executor =
  ex_api_key :: string
  ex_limiters :: limiter_registry
  ex_key_bad :: bool

definition executor_new :: "string \<Rightarrow> executor" where
  "executor_new api_key = \<lparr>ex_api_key = api_key, ex_limiters = registry_default, ex_key_bad = False\<rparr>"

definition set_api_key :: "string \<Rightarrow> executor \<Rightarrow> executor" where
  "set_api_key key ex = ex\<lparr>ex_api_key := key, ex_key_bad := False\<rparr>"

definition set_app :: "string \<Rightarrow> rate_limiter \<Rightarrow> executor \<Rightarrow> executor" where
  "set_app host l ex = ex\<lparr>ex_limiters := (ex_limiters ex)\<lparr>lr_app := RBT.insert host l (lr_app (ex_limiters ex))\<rparr>\<rparr>"

definition set_method :: "string \<Rightarrow> string \<Rightarrow> rate_limiter \<Rightarrow> executor \<Rightarrow> executor" where
  "set_method host method l ex =
     ex\<lparr>ex_limiters := (ex_limiters ex)\<lparr>lr_method := RBT.insert (host, method) l (lr_method (ex_limiters ex))\<rparr>\<rparr>"

definition app_of :: "job \<Rightarrow> executor \<Rightarrow> rate_limiter" where
  "app_of job ex = fst (app_limiter (job_host job) (ex_limiters ex))"

definition method_of :: "job \<Rightarrow> executor \<Rightarrow> rate_limiter" where
  "method_of job ex = fst (method_limiter (job_host job) (job_method job) (ex_limiters ex))"

definition on_app :: "job \<Rightarrow> (rate_limiter \<Rightarrow> rate_limiter) \<Rightarrow> executor \<Rightarrow> executor" where
  "on_app job f ex = set_app (job_host job) (f (app_of job ex)) ex"

definition on_method :: "job \<Rightarrow> (rate_limiter \<Rightarrow> rate_limiter) \<Rightarrow> executor \<Rightarrow> executor" where
  "on_method job f ex = set_method (job_host job) (job_method job) (f (method_of job ex)) ex"

definition acquire_method :: "nat \<Rightarrow> job \<Rightarrow> (nat \<Rightarrow> rat \<times> nat) \<Rightarrow> nat \<Rightarrow> executor \<Rightarrow> (rl_panic + nat \<times> executor) option" where
  "acquire_method fuel job env now ex =
     map_option (map_sum id (map_prod id (\<lambda>l. set_method (job_host job) (job_method job) l ex)))
       (acquire fuel env now (method_of job ex))"

definition acquire_app :: "nat \<Rightarrow> job \<Rightarrow> (nat \<Rightarrow> rat \<times> nat) \<Rightarrow> nat \<Rightarrow> executor \<Rightarrow> (rl_panic + nat \<times> executor) option" where
  "acquire_app fuel job env now ex =
     map_option (map_sum id (map_prod id (\<lambda>l. set_app (job_host job) l ex))) (acquire fuel env now (app_of job ex))"

definition job_answer :: "job \<Rightarrow> job_outcome \<Rightarrow> string option \<Rightarrow> job_result" where
  "job_answer job outc body = \<lparr>res_id = job_id job, res_outcome = outc, res_body = body\<rparr>"

datatype after_response = Done job_result | Again nat nat

definition adopt_limits :: "job \<Rightarrow> http_response \<Rightarrow> executor \<Rightarrow> executor" where
  "adopt_limits job r ex =
     (let ex = (case hr_app_limit r of Some h \<Rightarrow> on_app job (update_specs (parse_limit_header h)) ex | None \<Rightarrow> ex)
      in case hr_method_limit r of Some h \<Rightarrow> on_method job (update_specs (parse_limit_header h)) ex | None \<Rightarrow> ex)"

definition retry_secs :: "http_response \<Rightarrow> u64" where
  "retry_secs r =
     (case hr_retry_after r of
        Some v \<Rightarrow> (case parse_uint (2 ^ 64) v of Some n \<Rightarrow> of_nat n | None \<Rightarrow> 10)
      | None \<Rightarrow> 10)"

definition SECOND :: nat where "SECOND = 1000000000"

text \<open>What the loop does with a response: a result, or another pass with the attempts counted so far and the time after
  the backoff.\<close>

definition handle_response :: "job \<Rightarrow> nat \<Rightarrow> nat \<Rightarrow> http_response option \<Rightarrow> executor \<Rightarrow> after_response \<times> executor" where
  "handle_response job tries now resp ex =
     (case resp of
        None \<Rightarrow>
          (if tries \<ge> 4 then Done (job_answer job OutFailed None) else Again tries (now + 5 * tries * SECOND), ex)
      | Some r \<Rightarrow>
          let ex = adopt_limits job r ex; status = hr_status r in
          if 200 \<le> status \<and> status < 300 then
            (Done (case hr_body r of Some body \<Rightarrow> job_answer job OutOk (Some body) | None \<Rightarrow> job_answer job OutFailed None), ex)
          else if status = 404 then (Done (job_answer job OutNotFound None), ex)
          else if status = 429 then
            (Again (tries - 1) now,
             if hr_limit_type r = Some ''method'' then on_method job (cooldown now (retry_secs r)) ex
             else on_app job (cooldown now (retry_secs r)) ex)
          else if status = 401 \<or> status = 403 then (Done (job_answer job OutKeyRejected None), ex\<lparr>ex_key_bad := True\<rparr>)
          else if 500 \<le> status \<and> status \<le> 599 then
            (if tries \<ge> 4 then Done (job_answer job OutFailed None) else Again tries (now + 5 * tries * SECOND), ex)
          else (Done (job_answer job OutFailed None), ex))"

fun execute_loop :: "nat \<Rightarrow> job \<Rightarrow> nat \<Rightarrow> nat list \<Rightarrow> io_pass list \<Rightarrow> nat \<Rightarrow> executor \<Rightarrow>
  (rl_panic + job_result \<times> nat list \<times> executor) option" where
  "execute_loop fuel job tries sends [] now ex = None"
| "execute_loop fuel job tries sends (io # script) now ex =
     (case acquire_method fuel job (io_method_env io) now ex of
        None \<Rightarrow> None
      | Some (Inl e) \<Rightarrow> Some (Inl e)
      | Some (Inr (now, ex)) \<Rightarrow>
          (case acquire_app fuel job (io_app_env io) now ex of
             None \<Rightarrow> None
           | Some (Inl e) \<Rightarrow> Some (Inl e)
           | Some (Inr (now, ex)) \<Rightarrow>
               (case handle_response job (tries + 1) (now + io_latency io) (io_response io) ex of
                  (Done res, ex) \<Rightarrow> Some (Inr (res, sends @ [now], ex))
                | (Again tries now', ex) \<Rightarrow> execute_loop fuel job tries (sends @ [now]) script now' ex)))"

definition execute :: "nat \<Rightarrow> job \<Rightarrow> io_pass list \<Rightarrow> nat \<Rightarrow> executor \<Rightarrow> (rl_panic + job_result \<times> nat list \<times> executor) option" where
  "execute fuel job script now ex =
     execute_loop fuel job 0 [] script now (on_app job id (on_method job id ex))"

section \<open>What a script means\<close>

datatype verdict = Decided job_outcome "string option" | Limited | Broken

definition verdict_of :: "http_response option \<Rightarrow> verdict" where
  "verdict_of resp =
     (case resp of
        None \<Rightarrow> Broken
      | Some r \<Rightarrow>
          if hr_status r div 100 = 2 then (if hr_body r = None then Decided OutFailed None else Decided OutOk (hr_body r))
          else if hr_status r = 404 then Decided OutNotFound None
          else if hr_status r \<in> {401, 403} then Decided OutKeyRejected None
          else if hr_status r = 429 then Limited
          else if hr_status r div 100 = 5 then Broken
          else Decided OutFailed None)"

text \<open>The outcome a script of verdicts has: the first decided one, unless four broken ones come before.\<close>

fun spec_outcome :: "nat \<Rightarrow> verdict list \<Rightarrow> (job_outcome \<times> string option) option" where
  "spec_outcome broken [] = None"
| "spec_outcome broken (Decided outc body # vs) = Some (outc, body)"
| "spec_outcome broken (Limited # vs) = spec_outcome broken vs"
| "spec_outcome broken (Broken # vs) = (if broken \<ge> 3 then Some (OutFailed, None) else spec_outcome (broken + 1) vs)"

text \<open>No header of the script declares a limit of zero.\<close>

definition sane_header :: "string option \<Rightarrow> bool" where
  "sane_header h \<longleftrightarrow> (case h of None \<Rightarrow> True | Some s \<Rightarrow> list_all (\<lambda>w. ws_limit w > 0) (parse_limit_header s))"

definition sane_pass :: "io_pass \<Rightarrow> bool" where
  "sane_pass io \<longleftrightarrow> (case io_response io of None \<Rightarrow> True | Some r \<Rightarrow> sane_header (hr_app_limit r) \<and> sane_header (hr_method_limit r))"

text \<open>The two limiters of the job are ready: positive limits and sends in the past.\<close>

definition ready :: "nat \<Rightarrow> rate_limiter \<Rightarrow> bool" where
  "ready now l \<longleftrightarrow> positive_limits l \<and> past_sends now l"

definition limiters_ready :: "job \<Rightarrow> nat \<Rightarrow> executor \<Rightarrow> bool" where
  "limiters_ready job now ex \<longleftrightarrow> ready now (app_of job ex) \<and> ready now (method_of job ex)"

section \<open>Lemmas\<close>

lemma limiter_of_set [simp]:
  "app_of job (set_app (job_host job) l ex) = l" "method_of job (set_app h l ex) = method_of job ex"
  "method_of job (set_method (job_host job) (job_method job) l ex) = l" "app_of job (set_method h m l ex) = app_of job ex"
  "ex_key_bad (set_app h l ex) = ex_key_bad ex" "ex_key_bad (set_method h m l ex) = ex_key_bad ex"
  "app_of job (ex\<lparr>ex_key_bad := b\<rparr>) = app_of job ex" "method_of job (ex\<lparr>ex_key_bad := b\<rparr>) = method_of job ex"
  by (simp_all add: app_of_def method_of_def set_app_def set_method_def app_limiter_def method_limiter_def Let_def split: option.split)

lemma on_limiter [simp]:
  "app_of job (on_app job f ex) = f (app_of job ex)" "method_of job (on_app job f ex) = method_of job ex"
  "method_of job (on_method job f ex) = f (method_of job ex)" "app_of job (on_method job f ex) = app_of job ex"
  "ex_key_bad (on_app job f ex) = ex_key_bad ex" "ex_key_bad (on_method job f ex) = ex_key_bad ex"
  by (simp_all add: on_app_def on_method_def)

lemma ready_later: "ready now l \<Longrightarrow> now \<le> now' \<Longrightarrow> ready now' l"
  using past_sends_later by (auto simp: ready_def)

lemma ready_update: "ready now l \<Longrightarrow> list_all (\<lambda>w. ws_limit w > 0) specs \<Longrightarrow> ready now (update_specs specs l)"
  by (simp add: ready_def update_specs_def positive_limits_def past_sends_def)

lemma ready_cooldown: "ready now l \<Longrightarrow> ready now (cooldown t secs l)"
  by (simp add: ready_def cooldown_def positive_limits_def past_sends_def Let_def)

lemma try_acquire_keeps:
  assumes "try_acquire draw now l = Inr (w, l')" "ready now l"
  shows "ready now l'"
proof -
  obtain w1 l1 where g: "cooldown_gate now l = (w1, l1)" by fastforce
  have "ready now l1" using cooldown_gate_same[OF g] assms(2) by (simp add: ready_def positive_limits_def past_sends_def)
  moreover have "ready now (l1\<lparr>rl_sent := prune_sent now (rl_specs l1) (rl_sent l1)\<rparr>)"
    using \<open>ready now l1\<close> by (auto simp: ready_def positive_limits_def past_sends_def prune_sent_def list_all_iff dest: set_dropWhileD)
  moreover have "ready now l2 \<Longrightarrow> ready now (reserve_slot draw now l2)" for l2
    by (simp add: ready_def positive_limits_def past_sends_def)
  ultimately show ?thesis using assms(1) g by (auto simp: try_acquire_def Let_def res_bind_eq_Inr split: option.splits)
qed

lemma acquire_keeps: "acquire fuel env now l = Some (Inr (now', l')) \<Longrightarrow> ready now l \<Longrightarrow> now \<le> now' \<and> ready now' l'"
proof (induction fuel env now l rule: acquire.induct)
  case (2 fuel env now l)
  show ?case
  proof (cases "try_acquire (fst (env fuel)) now l")
    case (Inr r)
    obtain w l1 where r: "r = (w, l1)" by fastforce
    note k = try_acquire_keeps[OF Inr[unfolded r] 2(3)]
    show ?thesis
    proof (cases w)
      case None
      then show ?thesis using 2(2) Inr r k by (auto simp: ready_def positive_limits_def past_sends_def)
    next
      case (Some d)
      then show ?thesis using 2(1)[OF Inr, of w l1 d] 2(2) Inr r ready_later[OF k] by auto
    qed
  qed (use 2(2) in simp)
qed simp

lemma acquire_ready: "ready now l \<Longrightarrow> \<exists>now' l'. acquire 4 env now l = Some (Inr (now', l')) \<and> now \<le> now' \<and> ready now' l'"
  using acquire_total[of l now env] acquire_keeps[of 4 env now l] unfolding ready_def by blast

lemma sane_update: "sane_header h \<Longrightarrow> h = Some s \<Longrightarrow> ready now l \<Longrightarrow> ready now (update_specs (parse_limit_header s) l)"
  by (rule ready_update) (simp_all add: sane_header_def)

lemma adopt_ready:
  assumes "limiters_ready job now ex" "sane_header (hr_app_limit r)" "sane_header (hr_method_limit r)"
  shows "limiters_ready job now (adopt_limits job r ex)"
  using assms sane_update by (auto simp: adopt_limits_def limiters_ready_def Let_def split: option.split)

lemma adopt_key_bad [simp]: "ex_key_bad (adopt_limits job r ex) = ex_key_bad ex"
  by (simp add: adopt_limits_def Let_def split: option.split)

lemma limiters_ready_later: "limiters_ready job now ex \<Longrightarrow> now \<le> now' \<Longrightarrow> limiters_ready job now' ex"
  using ready_later by (auto simp: limiters_ready_def)

text \<open>The two acquires of a pass return.\<close>

lemma acquires:
  assumes "limiters_ready job now ex"
  obtains now1 ex1 now2 ex2 where "acquire_method 4 job menv now ex = Some (Inr (now1, ex1))"
    "acquire_app 4 job aenv now1 ex1 = Some (Inr (now2, ex2))" "now \<le> now2" "limiters_ready job now2 ex2" "ex_key_bad ex2 = ex_key_bad ex"
proof -
  obtain now1 m where m: "acquire 4 menv now (method_of job ex) = Some (Inr (now1, m))" "now \<le> now1" "ready now1 m"
    using acquire_ready assms unfolding limiters_ready_def by blast
  define ex1 where "ex1 = set_method (job_host job) (job_method job) m ex"
  have "ready now1 (app_of job ex1)" using assms ready_later m(2) by (auto simp: ex1_def limiters_ready_def)
  then obtain now2 a where a: "acquire 4 aenv now1 (app_of job ex1) = Some (Inr (now2, a))" "now1 \<le> now2" "ready now2 a"
    using acquire_ready by blast
  show thesis
  proof (rule that)
    show "acquire_method 4 job menv now ex = Some (Inr (now1, ex1))" using m by (simp add: acquire_method_def ex1_def)
    show "acquire_app 4 job aenv now1 ex1 = Some (Inr (now2, set_app (job_host job) a ex1))" using a by (simp add: acquire_app_def)
    show "now \<le> now2" using m(2) a(2) by simp
    show "limiters_ready job now2 (set_app (job_host job) a ex1)"
      using a(3) ready_later[OF m(3) a(2)] by (simp add: limiters_ready_def ex1_def)
  qed (simp add: ex1_def)
qed

text \<open>A response is handled as its verdict says.\<close>

lemma handle_response_verdict:
  assumes "handle_response job tries now (io_response io) ex = (after, ex')" "limiters_ready job now ex" "sane_pass io"
  shows "case verdict_of (io_response io) of
      Decided outc body \<Rightarrow> after = Done (job_answer job outc body) \<and> ex_key_bad ex' = (ex_key_bad ex \<or> outc = OutKeyRejected)
    | Limited \<Rightarrow> after = Again (tries - 1) now \<and> limiters_ready job now ex' \<and> ex_key_bad ex' = ex_key_bad ex
    | Broken \<Rightarrow> after = (if tries \<ge> 4 then Done (job_answer job OutFailed None) else Again tries (now + 5 * tries * SECOND))
        \<and> limiters_ready job now ex' \<and> ex_key_bad ex' = ex_key_bad ex"
proof (cases "io_response io")
  case None
  then show ?thesis using assms by (auto simp: handle_response_def verdict_of_def)
next
  case (Some r)
  have two: "hr_status r div 100 = 2 \<longleftrightarrow> 200 \<le> hr_status r \<and> hr_status r < 300"
    and five: "hr_status r div 100 = 5 \<longleftrightarrow> 500 \<le> hr_status r \<and> hr_status r \<le> 599" by auto
  have "limiters_ready job now (adopt_limits job r ex)"
    using adopt_ready[OF assms(2)] assms(3) Some by (simp add: sane_pass_def)
  then show ?thesis using assms(1) ready_cooldown
    by (auto simp: handle_response_def verdict_of_def Some two five Let_def limiters_ready_def split: if_splits option.splits)
qed

lemma execute_loop_outcome:
  assumes "spec_outcome tries (map (\<lambda>io. verdict_of (io_response io)) script) = Some (outc, body)"
    and "list_all sane_pass script" "limiters_ready job now ex" "tries \<le> 3"
  shows "\<exists>ss ex'. execute_loop 4 job tries sends script now ex = Some (Inr (job_answer job outc body, sends @ ss, ex'))
    \<and> ex_key_bad ex' = (ex_key_bad ex \<or> outc = OutKeyRejected)
    \<and> length ss \<le> 4 - tries + length (filter (\<lambda>io. verdict_of (io_response io) = Limited) script)"
  using assms
proof (induction script arbitrary: tries sends now ex)
  case (Cons io script)
  obtain now1 ex1 now2 ex2 where a: "acquire_method 4 job (io_method_env io) now ex = Some (Inr (now1, ex1))"
    "acquire_app 4 job (io_app_env io) now1 ex1 = Some (Inr (now2, ex2))" "now \<le> now2" "limiters_ready job now2 ex2"
    "ex_key_bad ex2 = ex_key_bad ex" by (rule acquires[OF Cons.prems(3)])
  let ?now = "now2 + io_latency io"
  obtain after ex3 where h: "handle_response job (tries + 1) ?now (io_response io) ex2 = (after, ex3)" by fastforce
  have r: "limiters_ready job ?now ex2" using limiters_ready_later[OF a(4)] by simp
  note v = handle_response_verdict[OF h r]
  have step: "execute_loop 4 job tries sends (io # script) now ex =
    (case after of Done res \<Rightarrow> Some (Inr (res, sends @ [now2], ex3)) | Again tries now' \<Rightarrow> execute_loop 4 job tries (sends @ [now2]) script now' ex3)"
    using a h by simp
  have sane: "sane_pass io" "list_all sane_pass script" using Cons.prems(2) by simp_all
  show ?case
  proof (cases "verdict_of (io_response io)")
    case (Decided outc' body')
    then show ?thesis using v[OF sane(1)] step Cons.prems(1,4) a(5) by (auto simp del: execute_loop.simps)
  next
    case Limited
    then have "after = Again tries ?now" "limiters_ready job ?now ex3" "ex_key_bad ex3 = ex_key_bad ex" using v[OF sane(1)] a(5) by auto
    with Limited show ?thesis using Cons.IH[of tries ?now ex3 "sends @ [now2]"] Cons.prems(1,4) sane(2) step
      by (auto simp del: execute_loop.simps)
  next
    case Broken
    then have b: "after = (if tries \<ge> 3 then Done (job_answer job OutFailed None) else Again (tries + 1) (?now + 5 * (tries + 1) * SECOND))"
      "limiters_ready job ?now ex3" "ex_key_bad ex3 = ex_key_bad ex" using v[OF sane(1)] a(5) by auto
    show ?thesis
    proof (cases "tries \<ge> 3")
      case True
      then show ?thesis using b step Cons.prems(1,4) Broken by (auto simp del: execute_loop.simps)
    next
      case False
      let ?later = "?now + 5 * (tries + 1) * SECOND"
      have "limiters_ready job ?later ex3" using limiters_ready_later[OF b(2)] by simp
      with False Broken b Cons.prems(1) obtain ss ex' where
        "execute_loop 4 job (tries + 1) (sends @ [now2]) script ?later ex3 = Some (Inr (job_answer job outc body, (sends @ [now2]) @ ss, ex'))"
        "ex_key_bad ex' = (ex_key_bad ex \<or> outc = OutKeyRejected)"
        "length ss \<le> 4 - (tries + 1) + length (filter (\<lambda>io. verdict_of (io_response io) = Limited) script)"
        using Cons.IH[of "tries + 1" ?later ex3 "sends @ [now2]"] sane(2) by auto
      then show ?thesis using step b(1) False Broken
        by (intro exI[of _ "now2 # ss"] exI[of _ ex']) (auto simp del: execute_loop.simps)
    qed
  qed
qed simp

section \<open>Properties\<close>

text \<open>C10: A job always ends with the outcome its responses call for, never stuck on a limiter: the first decisive response (a
  body, 404, a rejected key, an unexpected status) wins, 429 never counts, and the fourth server or network error gives
  up.  The wire sees at most four requests more than 429 answers, and the key is marked bad exactly on rejection.\<close>

theorem execute_outcome:
  assumes "spec_outcome 0 (map (\<lambda>io. verdict_of (io_response io)) script) = Some (outc, body)"
    and "list_all sane_pass script" "limiters_ready job now ex"
  shows "\<exists>sends ex'. execute 4 job script now ex = Some (Inr (job_answer job outc body, sends, ex'))
    \<and> ex_key_bad ex' = (ex_key_bad ex \<or> outc = OutKeyRejected)
    \<and> length sends \<le> 4 + length (filter (\<lambda>io. verdict_of (io_response io) = Limited) script)"
proof -
  have "limiters_ready job now (on_app job id (on_method job id ex))" using assms(3) by (simp add: limiters_ready_def)
  from execute_loop_outcome[OF assms(1,2) this, of "[]"] show ?thesis by (simp add: execute_def)
qed

theorem execute_outcome_witness:
  "\<exists>job io sends ex'. execute 4 job [io, io, io, io] 0 (executor_new ''key'') = Some (Inr (job_answer job OutFailed None, sends, ex'))
     \<and> length sends \<le> 4"
proof -
  define io where "io = \<lparr>io_method_env = (\<lambda>_. (0, 0)), io_app_env = (\<lambda>_. (0, 0)), io_latency = 3,
    io_response = Some \<lparr>hr_status = 503, hr_app_limit = None, hr_method_limit = None, hr_retry_after = None, hr_limit_type = None, hr_body = None\<rparr>\<rparr>"
  define job where "job = \<lparr>job_id = 1, job_host = ''europe'', job_method = ''m'', job_path = ''/p'', job_lease_ms = 0\<rparr>"
  have "limiters_ready job 0 (executor_new ''key'')"
    by (simp add: limiters_ready_def ready_def app_of_def method_of_def executor_new_def registry_default_def app_limiter_def
        method_limiter_def rl_new_def positive_limits_def past_sends_def default_specs_def RL_DEFAULT_WINDOWS_def Let_def)
  moreover have "verdict_of (io_response io) = Broken" "sane_pass io" by (simp_all add: verdict_of_def io_def sane_pass_def sane_header_def)
  ultimately show ?thesis using execute_outcome[of "[io, io, io, io]" OutFailed None job 0 "executor_new ''key''"] by auto
qed

end
