(* ===== verification/Broker_Inv.thy ===== *)
theory Broker_Inv
  imports Broker
begin

text \<open>
  The invariant of the fetch broker and its preservation by every operation.  \<open>binv_but K L\<close> is
  the invariant with its scheduling clause suspended for the jobs of \<open>K\<close> and its attempt bound
  suspended for those of \<open>L\<close>, as it is in the middle of an operation.  \<open>outstanding\<close> is the
  accounting of the fetches: those that wait for an answer and those that were answered.
\<close>

section \<open>Invariant\<close>

definition ids_ok :: "broker \<Rightarrow> bool" where
  "ids_ok b \<longleftrightarrow> (\<forall>i j. jobs b i = Some j \<longrightarrow>
     i < next_id b \<and> responder j = (if is_twin j then None else Some i))"

definition links_ok :: "broker \<Rightarrow> bool" where
  "links_ok b \<longleftrightarrow> (\<forall>i j t. jobs b i = Some j \<longrightarrow> \<not> is_twin j \<longrightarrow> twin_id j = Some t \<longrightarrow>
     t < next_id b \<and> (\<forall>jt. jobs b t = Some jt \<longrightarrow> is_twin jt))"

definition queue_ok :: "broker \<Rightarrow> bool" where
  "queue_ok b \<longleftrightarrow> (\<forall>h i ex. (i, ex) \<in> set (queue_of b h) \<longrightarrow>
     i < next_id b \<and> (\<forall>j. jobs b i = Some j \<longrightarrow> j_host j = h \<and> exclude_node j = ex))"

definition res_ok :: "broker \<Rightarrow> bool" where
  "res_ok b \<longleftrightarrow> distinct (map fst (resolved b))
     \<and> (\<forall>i \<in> fst ` set (resolved b). i < next_id b \<and> jobs b i = None)"

definition scheduled :: "broker \<Rightarrow> nat \<Rightarrow> job_state \<Rightarrow> bool" where
  "scheduled b i j \<longleftrightarrow> (case lease j of
     None \<Rightarrow> (i, exclude_node j) \<in> set (queue_of b (j_host j))
   | Some (n, _) \<Rightarrow> exclude_node j \<noteq> Some n)"

definition binv_but :: "nat set \<Rightarrow> nat set \<Rightarrow> broker \<Rightarrow> bool" where
  "binv_but K L b \<longleftrightarrow> ids_ok b \<and> links_ok b \<and> queue_ok b \<and> res_ok b
     \<and> (\<forall>i j. jobs b i = Some j \<longrightarrow> (i \<notin> K \<longrightarrow> scheduled b i j) \<and> (i \<notin> L \<longrightarrow> attempts j < MAX_ATTEMPTS))"

abbreviation binv :: "broker \<Rightarrow> bool" where
  "binv \<equiv> binv_but {} {}"

definition outstanding :: "broker \<Rightarrow> nat set" where
  "outstanding b = {i. \<exists>j. jobs b i = Some j \<and> \<not> is_twin j} \<union> fst ` set (resolved b)"

lemmas binv_defs = binv_but_def ids_ok_def links_ok_def queue_ok_def res_ok_def

lemma queue_ok_sub:
  assumes "queue_ok b" "\<And>h. set (queue_of c h) \<subseteq> set (queue_of b h)" "next_id b \<le> next_id c"
    and "\<And>i j. jobs c i = Some j \<Longrightarrow> \<exists>j0. jobs b i = Some j0 \<and> j_host j0 = j_host j \<and> exclude_node j0 = exclude_node j"
  shows "queue_ok c"
  unfolding queue_ok_def
proof (intro allI impI)
  fix h i ex assume "(i, ex) \<in> set (queue_of c h)"
  then have "(i, ex) \<in> set (queue_of b h)" using assms(2) by blast
  with assms(1) have "i < next_id b" "\<And>j. jobs b i = Some j \<Longrightarrow> j_host j = h \<and> exclude_node j = ex"
    unfolding queue_ok_def by blast+
  with assms(3,4) show "i < next_id c \<and> (\<forall>j. jobs c i = Some j \<longrightarrow> j_host j = h \<and> exclude_node j = ex)"
    by fastforce
qed

lemma queue_of_updates [simp]:
  "queue_of (b\<lparr>jobs := js\<rparr>) h = queue_of b h"
  "queue_of (b\<lparr>next_id := n\<rparr>) h = queue_of b h"
  "queue_of (b\<lparr>audits := a\<rparr>) h = queue_of b h"
  "queue_of (b\<lparr>b_registry := r\<rparr>) h = queue_of b h"
  "queue_of (b\<lparr>b_stats := s\<rparr>) h = queue_of b h"
  "queue_of (b\<lparr>resolved := l\<rparr>) h = queue_of b h"
  "queue_of (b\<lparr>shutdown_flag := f\<rparr>) h = queue_of b h"
  "queue_of (b\<lparr>queues := (queues b)(h' \<mapsto> q)\<rparr>) h = (if h = h' then q else queue_of b h)"
  by (simp_all add: queue_of_def)

lemma push_back_sel [simp]:
  "jobs (push_back h e b) = jobs b" "next_id (push_back h e b) = next_id b"
  "resolved (push_back h e b) = resolved b" "audits (push_back h e b) = audits b"
  "b_registry (push_back h e b) = b_registry b"
  "queue_of (push_back h e b) h' = (if h' = h then queue_of b h @ [e] else queue_of b h')"
  by (simp_all add: push_back_def)

lemma scheduled_updates [simp]:
  "scheduled (b\<lparr>jobs := js\<rparr>) i j = scheduled b i j"
  "scheduled (b\<lparr>next_id := n\<rparr>) i j = scheduled b i j"
  "scheduled (b\<lparr>audits := a\<rparr>) i j = scheduled b i j"
  "scheduled (b\<lparr>b_registry := r\<rparr>) i j = scheduled b i j"
  "scheduled (b\<lparr>b_stats := s\<rparr>) i j = scheduled b i j"
  "scheduled (b\<lparr>resolved := l\<rparr>) i j = scheduled b i j"
  "scheduled (b\<lparr>shutdown_flag := f\<rparr>) i j = scheduled b i j"
  by (simp_all add: scheduled_def cong: option.case_cong)

lemma scheduled_twin_id: "scheduled b i (j\<lparr>twin_id := t\<rparr>) = scheduled b i j"
  by (simp add: scheduled_def cong: option.case_cong)

lemma scheduled_push_back: "scheduled b i j \<Longrightarrow> scheduled (push_back h e b) i j"
  by (auto simp: scheduled_def split: option.splits)

lemma binv_other [simp]:
  "binv_but K L (b\<lparr>audits := a\<rparr>) = binv_but K L b"
  "binv_but K L (b\<lparr>b_registry := r\<rparr>) = binv_but K L b"
  "binv_but K L (b\<lparr>b_stats := s\<rparr>) = binv_but K L b"
  "binv_but K L (b\<lparr>shutdown_flag := f\<rparr>) = binv_but K L b"
  by (simp_all add: binv_defs)

lemma outstanding_other [simp]:
  "outstanding (b\<lparr>audits := a\<rparr>) = outstanding b"
  "outstanding (b\<lparr>b_registry := r\<rparr>) = outstanding b"
  "outstanding (b\<lparr>b_stats := s\<rparr>) = outstanding b"
  "outstanding (b\<lparr>shutdown_flag := f\<rparr>) = outstanding b"
  "outstanding (b\<lparr>queues := q\<rparr>) = outstanding b"
  "outstanding (b\<lparr>next_id := n\<rparr>) = outstanding b"
  "outstanding (push_back h e b) = outstanding b"
  by (simp_all add: outstanding_def push_back_def)

lemma binv_mono: "binv_but K L b \<Longrightarrow> K \<subseteq> K' \<Longrightarrow> L \<subseteq> L' \<Longrightarrow> binv_but K' L' b"
  unfolding binv_but_def by blast

section \<open>Updating one job\<close>

definition same_static :: "job_state \<Rightarrow> job_state \<Rightarrow> bool" where
  "same_static j k \<longleftrightarrow> j_host k = j_host j \<and> exclude_node k = exclude_node j \<and> responder k = responder j
     \<and> is_twin k = is_twin j \<and> twin_id k = twin_id j"

lemma binv_update_job:
  assumes "binv_but K L b" "jobs b i = Some j" "same_static j k"
  shows "binv_but (insert i K) (insert i L) (b\<lparr>jobs := (jobs b)(i \<mapsto> k)\<rparr>)" (is "binv_but _ _ ?b")
proof -
  from assms(1) have inv: "ids_ok b" "links_ok b" "queue_ok b" "res_ok b"
    and rest: "\<And>i j. jobs b i = Some j \<Longrightarrow> (i \<notin> K \<longrightarrow> scheduled b i j) \<and> (i \<notin> L \<longrightarrow> attempts j < MAX_ATTEMPTS)"
    by (simp_all add: binv_but_def)
  note k = assms(2,3)[unfolded same_static_def]
  have "ids_ok ?b" using inv(1) k by (simp add: ids_ok_def)
  moreover have "links_ok ?b"
    unfolding links_ok_def
  proof (intro allI impI)
    fix i' j' t assume "jobs ?b i' = Some j'" "\<not> is_twin j'" "twin_id j' = Some t"
    then obtain j0 where "jobs b i' = Some j0" "\<not> is_twin j0" "twin_id j0 = Some t"
      using k by (cases "i' = i") auto
    with inv(2) have "t < next_id b \<and> (\<forall>jt. jobs b t = Some jt \<longrightarrow> is_twin jt)"
      unfolding links_ok_def by blast
    with k show "t < next_id ?b \<and> (\<forall>jt. jobs ?b t = Some jt \<longrightarrow> is_twin jt)" by simp
  qed
  moreover have "queue_ok ?b" using inv(3) k by (simp add: queue_ok_def)
  moreover have "res_ok ?b" using inv(4) k by (auto simp: res_ok_def)
  moreover have "(i' \<notin> insert i K \<longrightarrow> scheduled ?b i' j') \<and> (i' \<notin> insert i L \<longrightarrow> attempts j' < MAX_ATTEMPTS)"
    if "jobs ?b i' = Some j'" for i' j' using that rest[of i'] by (auto split: if_splits)
  ultimately show ?thesis unfolding binv_but_def by blast
qed

lemma binv_settle:
  assumes "binv_but (insert i K) (insert i L) b" "jobs b i = Some j" "scheduled b i j" "attempts j < MAX_ATTEMPTS"
  shows "binv_but K L b"
  using assms unfolding binv_but_def by (metis insert_iff option.inject)

lemma outstanding_update_job:
  "jobs b i = Some j \<Longrightarrow> is_twin k = is_twin j \<Longrightarrow> outstanding (b\<lparr>jobs := (jobs b)(i \<mapsto> k)\<rparr>) = outstanding b"
  by (auto simp: outstanding_def)

lemma binv_push_back:
  assumes "binv_but K L b" "i < next_id b" "\<And>j. jobs b i = Some j \<Longrightarrow> j_host j = h \<and> exclude_node j = ex"
  shows "binv_but K L (push_back h (i, ex) b)"
  using assms unfolding binv_defs by (auto simp: scheduled_push_back split: if_splits)

lemma binv_remove_job:
  assumes "binv_but (insert i K) (insert i L) b"
  shows "binv_but K L (b\<lparr>jobs := (jobs b)(i := None)\<rparr>)"
  using assms unfolding binv_defs by (auto split: if_splits)


lemma binv_absent: "binv_but (insert i K) (insert i L) b \<Longrightarrow> jobs b i = None \<Longrightarrow> binv_but K L b"
  unfolding binv_but_def by (metis insert_iff option.distinct(1))

lemma outstanding_remove_twin:
  "(\<And>j. jobs b i = Some j \<Longrightarrow> is_twin j) \<Longrightarrow> outstanding (b\<lparr>jobs := (jobs b)(i := None)\<rparr>) = outstanding b"
  by (auto simp: outstanding_def)

text \<open>Removing a job and answering its channel.\<close>

lemma binv_resolve:
  assumes "binv_but (insert i K) (insert i L) b" "jobs b i = Some j"
  shows "binv_but K L (send (responder j) r (b\<lparr>jobs := (jobs b)(i := None)\<rparr>))"
    and "outstanding (send (responder j) r (b\<lparr>jobs := (jobs b)(i := None)\<rparr>)) = outstanding b"
proof -
  let ?b = "b\<lparr>jobs := (jobs b)(i := None)\<rparr>"
  have rm: "binv_but K L ?b" using assms(1) by (rule binv_remove_job)
  from assms have j: "i < next_id b" "responder j = (if is_twin j then None else Some i)"
    by (simp_all add: binv_but_def ids_ok_def)
  have fresh: "i \<notin> fst ` set (resolved b)" using assms by (auto simp: binv_but_def res_ok_def)
  show "binv_but K L (send (responder j) r ?b)"
  proof (cases "is_twin j")
    case False
    have "binv_but K L (?b\<lparr>resolved := resolved b @ [(i, r)]\<rparr>)"
      using rm j(1) fresh unfolding binv_defs by (simp add: ball_Un)
    then show ?thesis using j(2) False by (simp add: send_def)
  qed (use rm j(2) in \<open>simp add: send_def\<close>)
  show "outstanding (send (responder j) r ?b) = outstanding b"
    using j(2) assms(2) by (auto simp: send_def outstanding_def)
qed

section \<open>Abandoning and releasing\<close>

lemma abandon_binv:
  assumes "binv_but (insert i K) (insert i L) b"
  shows "binv_but K L (abandon i b)" "outstanding (abandon i b) = outstanding b"
proof -
  have "binv_but K L (abandon i b) \<and> outstanding (abandon i b) = outstanding b"
  proof (cases "jobs b i")
    case None
    then show ?thesis using binv_absent[OF assms] by (simp add: abandon_def)
  next
    case (Some j)
    let ?b = "send (responder j) (Inl JobAbandoned) (b\<lparr>jobs := (jobs b)(i := None)\<rparr>)"
    note r = binv_resolve[OF assms Some, of "Inl JobAbandoned"]
    have jb: "jobs ?b = (jobs b)(i := None)" by (simp add: send_def split: option.split)
    show ?thesis
    proof (cases "\<not> is_twin j \<and> twin_id j \<noteq> None")
      case True
      then obtain t where t: "twin_id j = Some t" by auto
      have "links_ok b" using assms by (simp add: binv_but_def)
      then have "is_twin jt" if "jobs b t = Some jt" for jt
        using that Some True t unfolding links_ok_def by blast
      then have tw: "is_twin jt" if "jobs ?b t = Some jt" for jt
        using that jb by (simp split: if_splits)
      let ?c = "?b\<lparr>audits := (audits ?b)(t := None)\<rparr>"
      have "binv_but (insert t K) (insert t L) ?c"
        using binv_mono[OF r(1) subset_insertI subset_insertI] by simp
      from binv_remove_job[OF this] have "binv_but K L (?c\<lparr>jobs := (jobs ?c)(t := None)\<rparr>)" .
      moreover have "outstanding (?c\<lparr>jobs := (jobs ?c)(t := None)\<rparr>) = outstanding b"
        using outstanding_remove_twin[of ?c t] tw r(2) by simp
      ultimately show ?thesis using True t Some by (simp add: abandon_def Let_def)
    next
      case False
      then have "abandon i b = (if is_twin j then ?b\<lparr>audits := (audits ?b)(i := None)\<rparr> else ?b)"
        using Some by (cases "twin_id j") (auto simp: abandon_def Let_def)
      then show ?thesis using r by simp
    qed
  qed
  then show "binv_but K L (abandon i b)" "outstanding (abandon i b) = outstanding b" by auto
qed

lemma scheduled_pushed: "lease j = None \<Longrightarrow> scheduled (push_back (j_host j) (i, exclude_node j) b) i j"
  by (simp add: scheduled_def)

lemma requeue_binv:
  assumes "binv_but (insert i K) (insert i L) b" "jobs b i = Some j" "lease j = None" "attempts j < MAX_ATTEMPTS"
  shows "binv_but K L (push_back (j_host j) (i, exclude_node j) b)"
proof (rule binv_settle)
  show "binv_but (insert i K) (insert i L) (push_back (j_host j) (i, exclude_node j) b)"
    using assms by (intro binv_push_back) (auto simp: binv_but_def ids_ok_def)
qed (use assms in \<open>simp_all add: scheduled_pushed\<close>)

lemma release_binv:
  assumes "binv_but (insert i K) (insert i L) b"
    and "\<And>j. jobs b i = Some j \<Longrightarrow> \<not> c \<Longrightarrow> attempts j < MAX_ATTEMPTS"
  shows "binv_but K L (release i c b)" "outstanding (release i c b) = outstanding b"
proof -
  have "binv_but K L (release i c b) \<and> outstanding (release i c b) = outstanding b"
  proof (cases "jobs b i")
    case None
    then show ?thesis using binv_absent[OF assms(1)] by (simp add: release_def)
  next
    case (Some j)
    let ?k = "(if c then j\<lparr>lease := None, attempts := attempts j + 1\<rparr> else j\<lparr>lease := None\<rparr>)"
    let ?b = "b\<lparr>jobs := (jobs b)(i \<mapsto> ?k)\<rparr>"
    have inv: "binv_but (insert i K) (insert i L) ?b"
      using binv_update_job[OF assms(1) Some, of ?k] by (simp add: same_static_def)
    have out: "outstanding ?b = outstanding b" by (rule outstanding_update_job[OF Some]) simp
    have rel: "release i c b = (if c \<and> attempts ?k \<ge> MAX_ATTEMPTS then abandon i ?b
        else push_back (j_host ?k) (i, exclude_node ?k) ?b)"
      by (simp add: release_def Some Let_def)
    show ?thesis
    proof (cases "c \<and> attempts ?k \<ge> MAX_ATTEMPTS")
      case True
      then show ?thesis using abandon_binv[OF inv] out rel by auto
    next
      case False
      then have "attempts ?k < MAX_ATTEMPTS" using assms(2)[OF Some] by auto
      then have "binv_but K L (push_back (j_host ?k) (i, exclude_node ?k) ?b)"
        by (intro requeue_binv[OF inv]) auto
      then show ?thesis using False out rel by auto
    qed
  qed
  then show "binv_but K L (release i c b)" "outstanding (release i c b) = outstanding b" by auto
qed

section \<open>The public operations\<close>

lemma finish_audit_sel [simp]:
  "binv_but K L (finish_audit_if_ready parse t b) = binv_but K L b"
  "outstanding (finish_audit_if_ready parse t b) = outstanding b"
  by (auto simp: finish_audit_if_ready_def Let_def split: option.split)

lemma complete_body_binv:
  assumes "binv b" "jobs b (res_id res) = Some j"
  shows "binv (complete_body parse now node res j b)" "outstanding (complete_body parse now node res j b) = outstanding b"
proof -
  note r = binv_resolve[OF binv_mono[OF assms(1)] assms(2), of "{}" "{}"]
  show "binv (complete_body parse now node res j b)"
    using r(1) by (auto simp: complete_body_def Let_def split: option.split)
  show "outstanding (complete_body parse now node res j b) = outstanding b"
    using r(2) by (auto simp: complete_body_def Let_def split: option.split)
qed

lemma complete_binv:
  assumes "binv b"
  shows "binv (complete parse now node res b) \<and> outstanding (complete parse now node res b) = outstanding b"
proof (cases "jobs b (res_id res)")
  case None
  then show ?thesis using assms by (simp add: complete_def)
next
  case (Some j)
  have att: "attempts j < MAX_ATTEMPTS" using assms Some by (simp add: binv_but_def)
  show ?thesis
  proof (cases "accepts_result node j")
    case False
    then show ?thesis using assms Some by (simp add: complete_def)
  next
    case acc: True
    show ?thesis
    proof (cases "res_outcome res")
      case OutFailed
      let ?k = "j\<lparr>attempts := attempts j + 1\<rparr>"
      let ?b = "b\<lparr>jobs := (jobs b)(res_id res \<mapsto> ?k)\<rparr>"
      have inv: "binv_but {res_id res} {res_id res} ?b"
        using binv_update_job[OF assms Some, of ?k] by (simp add: same_static_def)
      have out: "outstanding ?b = outstanding b" by (rule outstanding_update_job[OF Some]) simp
      show ?thesis
        using abandon_binv[of "res_id res" "{}" "{}" ?b] release_binv[of "res_id res" "{}" "{}" ?b False] inv out Some acc OutFailed
        by (auto simp: complete_def Let_def)
    next
      case OutKeyRejected
      then show ?thesis
        using release_binv[of "res_id res" "{}" "{}" "b\<lparr>b_registry := set_key_bad node True (b_registry b)\<rparr>" False]
          binv_mono[OF assms] Some acc att by (simp add: complete_def)
    qed (simp_all add: complete_def complete_body_binv[OF assms Some] Some acc)
  qed
qed


lemma binv_new_job:
  assumes "binv b" "responder j = (if is_twin j then None else Some (next_id b))" "is_twin j \<or> twin_id j = None"
  shows "binv_but {next_id b} {next_id b} (b\<lparr>next_id := next_id b + 1, jobs := (jobs b)(next_id b \<mapsto> j)\<rparr>)"
    (is "binv_but _ _ ?b")
proof -
  from assms have inv: "ids_ok b" "links_ok b" "queue_ok b" "res_ok b"
    and rest: "\<And>i j. jobs b i = Some j \<Longrightarrow> scheduled b i j \<and> attempts j < MAX_ATTEMPTS"
    by (simp_all add: binv_but_def)
  have "ids_ok ?b" using inv(1) assms(2) by (auto simp: ids_ok_def intro: less_SucI)
  moreover have "links_ok ?b"
    unfolding links_ok_def
  proof (intro allI impI)
    fix i' j' t assume "jobs ?b i' = Some j'" "\<not> is_twin j'" "twin_id j' = Some t"
    then have "jobs b i' = Some j'" "\<not> is_twin j'" "twin_id j' = Some t"
      using assms(3) by (auto split: if_splits)
    with inv(2) have "t < next_id b \<and> (\<forall>jt. jobs b t = Some jt \<longrightarrow> is_twin jt)"
      unfolding links_ok_def by blast
    then show "t < next_id ?b \<and> (\<forall>jt. jobs ?b t = Some jt \<longrightarrow> is_twin jt)" by simp
  qed
  moreover have "queue_ok ?b" using inv(3) by (fastforce simp: queue_ok_def)
  moreover have "res_ok ?b" using inv(4) by (fastforce simp: res_ok_def)
  moreover have "(i' \<notin> {next_id b} \<longrightarrow> scheduled ?b i' j') \<and> (i' \<notin> {next_id b} \<longrightarrow> attempts j' < MAX_ATTEMPTS)"
    if "jobs ?b i' = Some j'" for i' j' using that rest[of i'] by (auto split: if_splits)
  ultimately show ?thesis unfolding binv_but_def by blast
qed

lemma next_id_free: "binv_but K L b \<Longrightarrow> jobs b (next_id b) = None"
  by (auto simp: binv_but_def ids_ok_def intro: ccontr)

lemma fetch_enqueue_binv:
  assumes "binv b"
  shows "binv (fetch_enqueue host method path now b)"
    and "outstanding (fetch_enqueue host method path now b) = insert (next_id b) (outstanding b)"
proof -
  let ?j = "\<lparr>j_host = host, j_method = method, j_path = path, responder = Some (next_id b), lease = None,
            attempts = 0, exclude_node = None, twin_id = None, is_twin = False, created = now\<rparr>"
  from requeue_binv[OF binv_new_job[OF assms, of ?j], of ?j] show "binv (fetch_enqueue host method path now b)"
    by (simp add: fetch_enqueue_def Let_def MAX_ATTEMPTS_def)
  show "outstanding (fetch_enqueue host method path now b) = insert (next_id b) (outstanding b)"
    using next_id_free[OF assms] by (auto simp: fetch_enqueue_def Let_def outstanding_def)
qed

subsection \<open>Taking jobs\<close>

lemma pick_loop_spec:
  assumes "pick_loop node cap i q picked = (q', picked')"
  shows "\<exists>new. picked' = picked @ map fst new \<and> length new \<le> cap \<and> mset q = mset q' + mset new
    \<and> (\<forall>(k, ex) \<in> set new. ex \<noteq> Some node)"
  using assms
proof (induction node cap i q picked rule: pick_loop.induct)
  case (1 node cap i q picked)
  show ?case
  proof (cases "cap > 0 \<and> i < length q")
    case False
    then show ?thesis using "1.prems" by (auto simp: pick_loop.simps)
  next
    case c: True
    show ?thesis
    proof (cases "snd (q ! i) = Some node")
      case True
      then show ?thesis using "1.IH"(1) "1.prems" c by (simp add: pick_loop.simps[of node cap])
    next
      case False
      let ?q = "take i q @ drop (Suc i) q"
      from "1.IH"(2)[OF c False] "1.prems" c False obtain new where new:
        "picked' = (picked @ [fst (q ! i)]) @ map fst new" "length new \<le> cap - 1"
        "mset ?q = mset q' + mset new" "\<forall>(k, ex) \<in> set new. ex \<noteq> Some node"
        by (auto simp: pick_loop.simps[of node cap])
      have "mset q = mset (take i q @ q ! i # drop (Suc i) q)" using c by (simp add: id_take_nth_drop[symmetric])
      then have "mset q = mset q' + mset (q ! i # new)" using new(3) by simp
      then show ?thesis using new c False
        by (intro exI[of _ "q ! i # new"]) (auto simp: prod.case_eq_if)
    qed
  qed
qed

lemma lease_one_binv:
  assumes "binv_but (insert i K) {} b" "\<And>j. jobs b i = Some j \<Longrightarrow> exclude_node j \<noteq> Some node"
  shows "binv_but K {} (fst (lease_one node now audit i (b, acc)))"
    and "outstanding (fst (lease_one node now audit i (b, acc))) = outstanding b"
    and "\<And>k j. jobs (fst (lease_one node now audit i (b, acc))) k = Some j \<Longrightarrow>
       \<exists>j0. jobs b k = Some j0 \<and> same_static j0 j"
proof -
  show "binv_but K {} (fst (lease_one node now audit i (b, acc)))"
  proof (cases "jobs b i")
    case None
    then show ?thesis using binv_absent[of i K "{}" b] binv_mono[OF assms(1)] by (simp add: lease_one_def)
  next
    case (Some j)
    let ?k = "j\<lparr>lease := Some (node, now + LEASE_MS)\<rparr>"
    let ?b = "b\<lparr>jobs := (jobs b)(i \<mapsto> ?k)\<rparr>"
    have "binv_but (insert i K) {i} ?b"
      using binv_update_job[OF assms(1) Some, of ?k] by (simp add: same_static_def)
    moreover have "attempts ?k < MAX_ATTEMPTS" using assms(1) Some by (simp add: binv_but_def)
    ultimately have "binv_but K {} ?b"
      using assms(2)[OF Some] by (intro binv_settle[of i K "{}" ?b ?k]) (auto simp: scheduled_def)
    then show ?thesis using Some by (simp add: lease_one_def Let_def split: prod.split)
  qed
  show "outstanding (fst (lease_one node now audit i (b, acc))) = outstanding b"
    by (auto simp: lease_one_def Let_def outstanding_def split: option.split prod.split)
  show "\<And>k j. jobs (fst (lease_one node now audit i (b, acc))) k = Some j \<Longrightarrow>
       \<exists>j0. jobs b k = Some j0 \<and> same_static j0 j"
    by (auto simp: lease_one_def Let_def same_static_def split: option.splits prod.splits if_splits)
qed

definition may_run :: "nat \<Rightarrow> nat set \<Rightarrow> broker \<Rightarrow> bool" where
  "may_run node S b \<longleftrightarrow> (\<forall>i \<in> S. \<forall>j. jobs b i = Some j \<longrightarrow> exclude_node j \<noteq> Some node)"

lemma fold_lease_binv:
  "binv_but (set is \<union> K) {} b \<Longrightarrow> may_run node (set is) b \<Longrightarrow>
   binv_but K {} (fst (fold (lease_one node now audit) is (b, acc)))
   \<and> outstanding (fst (fold (lease_one node now audit) is (b, acc))) = outstanding b"
proof (induction "is" arbitrary: b acc)
  case (Cons i "is")
  let ?st = "lease_one node now audit i (b, acc)"
  obtain b' acc' where st: "?st = (b', acc')" by (cases ?st)
  have "binv_but (insert i (set is \<union> K)) {} b" using Cons.prems(1) by simp
  moreover have "\<And>j. jobs b i = Some j \<Longrightarrow> exclude_node j \<noteq> Some node"
    using Cons.prems(2) by (auto simp: may_run_def)
  ultimately have l: "binv_but (set is \<union> K) {} b'" "outstanding b' = outstanding b"
    "\<And>k j. jobs b' k = Some j \<Longrightarrow> \<exists>j0. jobs b k = Some j0 \<and> same_static j0 j"
    using lease_one_binv[of i "set is \<union> K" b node now audit acc] st by (metis fst_conv)+
  have "may_run node (set is) b'"
    unfolding may_run_def
  proof (intro ballI allI impI)
    fix k j assume "k \<in> set is" "jobs b' k = Some j"
    with l(3) Cons.prems(2) show "exclude_node j \<noteq> Some node"
      by (force simp: may_run_def same_static_def)
  qed
  with Cons.IH[of b' acc'] l(1,2) st show ?case by simp
qed simp

lemma binv_take_queue:
  assumes inv: "binv b" and pick: "mset (queue_of b host) = mset q + mset new"
  shows "binv_but (set (map fst new)) {} (b\<lparr>queues := (queues b)(host \<mapsto> q)\<rparr>)" (is "binv_but _ _ ?b")
proof -
  have sub: "x \<in> set q \<Longrightarrow> x \<in> set (queue_of b host)" and split: "x \<in> set (queue_of b host) \<Longrightarrow> x \<in> set q \<or> x \<in> set new" for x
    using arg_cong[OF pick, of set_mset] by auto
  have qs: "set (queue_of ?b h) \<subseteq> set (queue_of b h)" for h using sub by auto
  have "queue_ok b" using inv by (simp add: binv_but_def)
  then have "queue_ok ?b" by (rule queue_ok_sub[OF _ qs]) simp_all
  moreover have "scheduled ?b i j" if "jobs b i = Some j" "i \<notin> set (map fst new)" for i j
  proof -
    have "scheduled b i j" using inv that(1) by (simp add: binv_but_def)
    then show ?thesis using split[of "(i, exclude_node j)"] that(2)
      by (force simp: scheduled_def split: option.splits)
  qed
  ultimately show ?thesis using inv unfolding binv_but_def ids_ok_def links_ok_def res_ok_def by simp
qed

lemma take_host_binv:
  assumes "binv b"
  shows "binv (fst (take_host node now pending audit host (b, acc)))
    \<and> outstanding (fst (take_host node now pending audit host (b, acc))) = outstanding b"
proof -
  let ?cap = "TARGET_INFLIGHT_PER_HOST - (case pending host of Some n \<Rightarrow> n | None \<Rightarrow> 0)"
  obtain q picked where p: "pick_loop node ?cap 0 (queue_of b host) [] = (q, picked)" by fastforce
  from pick_loop_spec[OF p] obtain new where new: "picked = map fst new"
    "mset (queue_of b host) = mset q + mset new" "\<forall>(k, ex) \<in> set new. ex \<noteq> Some node" by auto
  let ?b = "b\<lparr>queues := (queues b)(host \<mapsto> q)\<rparr>"
  have "binv_but (set picked \<union> {}) {} ?b" using binv_take_queue[OF assms new(2)] new(1) by simp
  moreover have "may_run node (set picked) ?b"
    unfolding may_run_def
  proof (intro ballI allI impI)
    fix i j assume i: "i \<in> set picked" and j: "jobs ?b i = Some j"
    from i new(1) obtain ex where ex: "(i, ex) \<in> set new" by auto
    then have "(i, ex) \<in> set (queue_of b host)" using arg_cong[OF new(2), of set_mset] by auto
    then have "exclude_node j = ex" using assms j by (auto simp: binv_but_def queue_ok_def)
    with ex new(3) show "exclude_node j \<noteq> Some node" by auto
  qed
  ultimately have "binv (fst (fold (lease_one node now audit) picked (?b, acc))) \<and>
    outstanding (fst (fold (lease_one node now audit) picked (?b, acc))) = outstanding b"
    using fold_lease_binv[of picked "{}" ?b node now audit acc] by simp
  then show ?thesis by (simp add: take_host_def Let_def p)
qed


lemma binv_link:
  assumes "binv_but K L b" "jobs b p = Some j" "jobs b t = Some jt" "is_twin jt"
  shows "binv_but K L (b\<lparr>jobs := (jobs b)(p \<mapsto> j\<lparr>twin_id := Some t\<rparr>)\<rparr>)" (is "binv_but _ _ ?b")
proof -
  from assms(1) have inv: "ids_ok b" "links_ok b" "queue_ok b" "res_ok b"
    and rest: "\<And>i j. jobs b i = Some j \<Longrightarrow> (i \<notin> K \<longrightarrow> scheduled b i j) \<and> (i \<notin> L \<longrightarrow> attempts j < MAX_ATTEMPTS)"
    by (simp_all add: binv_but_def)
  have "ids_ok ?b" using inv(1) assms(2) by (simp add: ids_ok_def)
  moreover have "links_ok ?b"
    unfolding links_ok_def
  proof (intro allI impI)
    fix i' j' t' assume a: "jobs ?b i' = Some j'" "\<not> is_twin j'" "twin_id j' = Some t'"
    have "t' < next_id b \<and> (\<forall>jt. jobs b t' = Some jt \<longrightarrow> is_twin jt)"
    proof (cases "i' = p")
      case True
      then have "t' = t" using a(1,3) by auto
      then show ?thesis using assms(3,4) inv(1) by (auto simp: ids_ok_def)
    next
      case False
      then have "jobs b i' = Some j'" using a(1) by simp
      with inv(2) a(2,3) show ?thesis unfolding links_ok_def by blast
    qed
    with assms(2) show "t' < next_id ?b \<and> (\<forall>jt. jobs ?b t' = Some jt \<longrightarrow> is_twin jt)"
      by simp
  qed
  moreover have "queue_ok ?b"
    using assms(2) by (intro queue_ok_sub[OF inv(3)]) (auto split: if_splits)
  moreover have "res_ok ?b" using inv(4) assms(2) by (auto simp: res_ok_def)
  moreover have "(i' \<notin> K \<longrightarrow> scheduled ?b i' j') \<and> (i' \<notin> L \<longrightarrow> attempts j' < MAX_ATTEMPTS)"
    if "jobs ?b i' = Some j'" for i' j'
    using that rest[of i'] assms(2) by (auto simp: scheduled_twin_id split: if_splits)
  ultimately show ?thesis unfolding binv_but_def by blast
qed

lemma add_twin_binv:
  assumes "binv b"
  shows "binv (add_twin node now tw b) \<and> outstanding (add_twin node now tw b) = outstanding b"
proof -
  obtain p host meth path where tw: "tw = (p, host, meth, path)" by (cases tw)
  let ?t = "next_id b"
  let ?j = "\<lparr>j_host = host, j_method = meth, j_path = path, responder = None, lease = None,
            attempts = 0, exclude_node = Some node, twin_id = Some p, is_twin = True, created = now\<rparr>"
  let ?b1 = "b\<lparr>next_id := ?t + 1, jobs := (jobs b)(?t \<mapsto> ?j)\<rparr>"
  let ?b2 = "case jobs ?b1 p of Some j \<Rightarrow> ?b1\<lparr>jobs := (jobs ?b1)(p \<mapsto> j\<lparr>twin_id := Some ?t\<rparr>)\<rparr> | None \<Rightarrow> ?b1"
  have b1: "binv_but {?t} {?t} ?b1" by (rule binv_new_job[OF assms]) simp_all
  have free: "jobs b ?t = None" using assms by (rule next_id_free)
  have b2: "binv_but {?t} {?t} ?b2"
  proof (cases "jobs ?b1 p")
    case None
    then show ?thesis using b1 by (simp only: option.case)
  next
    case (Some j)
    have "jobs ?b1 ?t = Some ?j" by simp
    from binv_link[OF b1 Some this] show ?thesis unfolding Some by simp
  qed
  have "jobs ?b2 ?t = Some (if p = ?t then ?j\<lparr>twin_id := Some ?t\<rparr> else ?j)"
    by (cases "jobs ?b1 p") (simp_all only: option.case, auto)
  then obtain k where k: "jobs ?b2 ?t = Some k" "j_host k = host" "exclude_node k = Some node" "lease k = None" "attempts k = 0"
    by (cases "p = ?t") (simp_all only: if_True if_False refl, auto)
  have "binv (push_back host (?t, Some node) ?b2)"
    using requeue_binv[of ?t "{}" "{}" ?b2 k] b2 k by (simp add: MAX_ATTEMPTS_def)
  moreover have "outstanding ?b2 = outstanding b"
    using free by (auto simp: outstanding_def split: option.split)
  ultimately show ?thesis unfolding add_twin_def tw Let_def prod.case by simp
qed

lemma fold_keeps:
  assumes "\<And>x b. P b \<Longrightarrow> P (f x b) \<and> m (f x b) = m b" "P b"
  shows "P (fold f xs b) \<and> m (fold f xs b) = m b"
  using assms(2)
proof (induction xs arbitrary: b)
  case (Cons x xs)
  from assms(1)[OF Cons.prems, of x] Cons.IH[of "f x b"] show ?case by simp
qed simp

lemma take_jobs_binv:
  assumes "binv b"
  shows "binv (snd (take_jobs hosts order rolls now node pending b))
    \<and> outstanding (snd (take_jobs hosts order rolls now node pending b)) = outstanding b"
proof -
  let ?audit = "active_node_other_than order now node (b_registry b)"
  obtain b' acc where f: "fold (take_host node now pending ?audit) hosts (b, \<lparr>out = [], new_twins = [], dice = rolls\<rparr>) = (b', acc)"
    by fastforce
  have "binv b' \<and> outstanding b' = outstanding b"
    using fold_keeps[where P = "\<lambda>s. binv (fst s)" and m = "\<lambda>s. outstanding (fst s)"
        and f = "take_host node now pending ?audit" and xs = hosts
        and b = "(b, \<lparr>out = [], new_twins = [], dice = rolls\<rparr>)"] assms f
    by (auto simp: take_host_binv)
  then show ?thesis
    using fold_keeps[where P = binv and m = outstanding and f = "add_twin node now" and xs = "new_twins acc" and b = b']
    by (simp add: take_jobs_def Let_def f add_twin_binv)
qed

subsection \<open>Sweeping and shutting down\<close>

lemma release_True_binv: "binv b \<Longrightarrow> binv (release i True b) \<and> outstanding (release i True b) = outstanding b"
  using release_binv[of i "{}" "{}" b True] binv_mono[of "{}" "{}" b "{i}" "{i}"] by simp

lemma drop_twin_binv:
  assumes "binv b" "\<And>j. jobs b i = Some j \<Longrightarrow> is_twin j"
  shows "binv (drop_twin i b)" "outstanding (drop_twin i b) = outstanding b"
proof -
  let ?b = "b\<lparr>jobs := (jobs b)(i := None)\<rparr>"
  have eq: "drop_twin i b = ?b\<lparr>audits := (audits b)(i := None)\<rparr>" by (simp add: drop_twin_def)
  show "binv (drop_twin i b)"
    unfolding eq using binv_remove_job[of i "{}" "{}" b] binv_mono[OF assms(1)] by simp
  show "outstanding (drop_twin i b) = outstanding b"
    unfolding eq using outstanding_remove_twin[of b i] assms(2) by simp
qed

lemma fold_drop_twin_binv:
  assumes "binv b" "\<forall>i \<in> set is. \<forall>j. jobs b i = Some j \<longrightarrow> is_twin j"
  shows "binv (fold drop_twin is b) \<and> outstanding (fold drop_twin is b) = outstanding b"
  using assms
proof (induction "is" arbitrary: b)
  case (Cons i "is")
  have "\<forall>k \<in> set is. \<forall>j. jobs (drop_twin i b) k = Some j \<longrightarrow> is_twin j"
    using Cons.prems(2) by (auto simp: drop_twin_def split: if_splits)
  with Cons drop_twin_binv[of b i] show ?case by simp
qed simp

lemma sweep_binv:
  assumes "binv b"
  shows "binv (sweep order1 order2 now b) \<and> outstanding (sweep order1 order2 now b) = outstanding b"
proof -
  let ?b = "fold (\<lambda>i. release i True) (ids_where (lease_expired now) order1 b) b"
  have b: "binv ?b \<and> outstanding ?b = outstanding b"
    using fold_keeps[where P = binv and m = outstanding and f = "\<lambda>i. release i True"] release_True_binv assms by auto
  have "\<forall>i \<in> set (ids_where (stale_twin now) order2 ?b). \<forall>j. jobs ?b i = Some j \<longrightarrow> is_twin j"
    by (auto simp: ids_where_def stale_twin_def)
  with fold_drop_twin_binv[of ?b] b show ?thesis by (simp add: sweep_def Let_def)
qed

end
