(* ===== verification/Broker_Props.thy ===== *)
theory Broker_Props
  imports Broker_Inv
begin

text \<open>
  The broker as a system: a step relation whose rules are the broker's operations with every
  interleaving of concurrent fetches, the invariants of its reachable states through the locale
  \<open>broker_invariant\<close>, and the contracts of the individual operations.
\<close>

section \<open>The system\<close>

text \<open>\<open>entered\<close> counts the callers of \<^verbatim>\<open>fetch\<close> that passed the shutdown test and have not taken the
  lock yet; \<open>fetched\<close> collects the ids of all jobs created by \<^verbatim>\<open>fetch\<close>.\<close>

record fetch_system =
  sys_broker :: broker
  entered :: nat
  fetched :: "nat set"

definition sys_init :: "registry \<Rightarrow> stats_map \<Rightarrow> fetch_system" where
  "sys_init reg st = \<lparr>sys_broker = broker_new reg st, entered = 0, fetched = {}\<rparr>"

inductive sys_step :: "(string \<Rightarrow> 'json option) \<Rightarrow> fetch_system \<Rightarrow> fetch_system \<Rightarrow> bool"
  for parse :: "string \<Rightarrow> 'json option" where
  step_enter: "fetch_enter (sys_broker s) = Inr () \<Longrightarrow> sys_step parse s (s\<lparr>entered := entered s + 1\<rparr>)"
| step_enqueue: "entered s > 0 \<Longrightarrow> sys_step parse s
    (s\<lparr>sys_broker := fetch_enqueue host method path now (sys_broker s), entered := entered s - 1,
       fetched := insert (next_id (sys_broker s)) (fetched s)\<rparr>)"
| step_take: "sys_step parse s
    (s\<lparr>sys_broker := snd (take_jobs hosts order rolls now node pending (sys_broker s))\<rparr>)"
| step_complete: "sys_step parse s (s\<lparr>sys_broker := complete parse now node res (sys_broker s)\<rparr>)"
| step_sweep: "sys_step parse s (s\<lparr>sys_broker := sweep order1 order2 now (sys_broker s)\<rparr>)"
| step_shutdown: "distinct order \<Longrightarrow> set order = dom (jobs (sys_broker s)) \<Longrightarrow>
    sys_step parse s (s\<lparr>sys_broker := shutdown order (sys_broker s)\<rparr>)"

definition reachable :: "(string \<Rightarrow> 'json option) \<Rightarrow> registry \<Rightarrow> stats_map \<Rightarrow> fetch_system \<Rightarrow> bool" where
  "reachable parse reg st s \<longleftrightarrow> (sys_step parse)\<^sup>*\<^sup>* (sys_init reg st) s"

text \<open>An invariant of the broker: holds at start and every operation keeps it.\<close>

locale broker_invariant =
  fixes I :: "broker \<Rightarrow> bool" and parse :: "string \<Rightarrow> 'json option"
  assumes init: "I (broker_new reg st)"
    and enqueue: "I b \<Longrightarrow> I (fetch_enqueue host method path now b)"
    and take: "I b \<Longrightarrow> I (snd (take_jobs hosts order rolls now node pending b))"
    and complete: "I b \<Longrightarrow> I (Broker.complete parse now node res b)"
    and sweep: "I b \<Longrightarrow> I (Broker.sweep order1 order2 now b)"
    and shutdown: "I b \<Longrightarrow> distinct order \<Longrightarrow> set order = dom (jobs b) \<Longrightarrow> I (Broker.shutdown order b)"
begin

lemma step_keeps: "sys_step parse s s' \<Longrightarrow> I (sys_broker s) \<Longrightarrow> I (sys_broker s')"
  by (induction rule: sys_step.induct) (auto intro: enqueue take complete sweep shutdown)

lemma reachable_inv: "reachable parse reg st s \<Longrightarrow> I (sys_broker s)"
  unfolding reachable_def
  by (induction rule: rtranclp_induct) (auto simp: sys_init_def init intro: step_keeps)

end

subsection \<open>Scheduling and accounting\<close>

lemma fold_send_sel:
  fixes r :: fetch_result
  defines "f \<equiv> \<lambda>i b. case jobs b i of Some j \<Rightarrow> send (responder j) r b | None \<Rightarrow> b"
  shows "jobs (fold f order b) = jobs b" "next_id (fold f order b) = next_id b"
    "shutdown_flag (fold f order b) = shutdown_flag b"
    "resolved (fold f order b) = resolved b @ map (\<lambda>i. (i, r))
       (List.map_filter (\<lambda>i. Option.bind (jobs b i) responder) order)"
proof -
  have f: "jobs (f i b) = jobs b" "next_id (f i b) = next_id b" "shutdown_flag (f i b) = shutdown_flag b"
    "resolved (f i b) = resolved b @ (case Option.bind (jobs b i) responder of Some c \<Rightarrow> [(c, r)] | None \<Rightarrow> [])" for i b
    by (simp_all add: f_def send_def split: option.split)
  show "jobs (fold f order b) = jobs b" "next_id (fold f order b) = next_id b"
    "shutdown_flag (fold f order b) = shutdown_flag b"
    by (induction order arbitrary: b) (simp_all add: f)
  show "resolved (fold f order b) = resolved b @ map (\<lambda>i. (i, r))
       (List.map_filter (\<lambda>i. Option.bind (jobs b i) responder) order)"
    by (induction order arbitrary: b) (auto simp: f List.map_filter_simps split: option.split)
qed

lemma shutdown_resolved:
  assumes "binv b" "distinct order" "set order = dom (jobs b)"
  shows "\<exists>is. resolved (shutdown order b) = resolved b @ map (\<lambda>i. (i, Inl ServerShuttingDown)) is
    \<and> distinct is \<and> set is = {i. \<exists>j. jobs b i = Some j \<and> \<not> is_twin j}"
proof -
  let ?is = "List.map_filter (\<lambda>i. Option.bind (jobs b i) responder) order"
  have resp: "Option.bind (jobs b i) responder =
      (if \<exists>j. jobs b i = Some j \<and> \<not> is_twin j then Some i else None)" for i
    using assms(1) by (cases "jobs b i") (auto simp: binv_but_def ids_ok_def)
  have "?is = filter (\<lambda>i. \<exists>j. jobs b i = Some j \<and> \<not> is_twin j) order"
    unfolding resp by (induction order) (auto simp: List.map_filter_simps)
  then have "distinct ?is" "set ?is = {i. \<exists>j. jobs b i = Some j \<and> \<not> is_twin j}"
    using assms(2,3) by auto
  then show ?thesis
    using fold_send_sel(4)[of "Inl ServerShuttingDown" order "b\<lparr>shutdown_flag := True\<rparr>"]
    by (intro exI[of _ ?is]) (simp add: shutdown_def Let_def)
qed

lemma shutdown_binv:
  assumes "binv b" "distinct order" "set order = dom (jobs b)"
  shows "binv (shutdown order b)" "outstanding (shutdown order b) = outstanding b"
proof -
  from shutdown_resolved[OF assms] obtain answered where r:
    "resolved (shutdown order b) = resolved b @ map (\<lambda>i. (i, Inl ServerShuttingDown)) answered"
    "distinct answered" "set answered = {i. \<exists>j. jobs b i = Some j \<and> \<not> is_twin j}" by blast
  have sel: "jobs (shutdown order b) = Map.empty" "queue_of (shutdown order b) h = []"
    "next_id (shutdown order b) = next_id b" for h
    by (simp_all add: shutdown_def Let_def fold_send_sel queue_of_def)
  have "\<forall>i \<in> set answered. i < next_id b" using r(3) assms(1) by (auto simp: binv_but_def ids_ok_def)
  moreover have "set answered \<inter> fst ` set (resolved b) = {}"
    using r(3) assms(1) by (auto simp: binv_but_def res_ok_def)
  ultimately show "binv (shutdown order b)"
    using assms(1) r(1,2) sel unfolding binv_defs by (auto simp: comp_def)
  show "outstanding (shutdown order b) = outstanding b"
    using r(1,3) sel by (force simp: outstanding_def)
qed

interpretation scheduling: broker_invariant binv parse for parse :: "string \<Rightarrow> 'json option"
proof
  show "binv (broker_new reg st)" for reg st
    by (simp add: broker_new_def binv_defs queue_of_def)
qed (simp_all add: fetch_enqueue_binv take_jobs_binv complete_binv sweep_binv shutdown_binv)

lemma reachable_accounting: "reachable parse reg st s \<Longrightarrow> outstanding (sys_broker s) = fetched s"
  unfolding reachable_def
proof (induction rule: rtranclp_induct)
  case base
  then show ?case by (simp add: sys_init_def broker_new_def outstanding_def)
next
  case (step s s')
  have "binv (sys_broker s)" using scheduling.reachable_inv step.hyps(1) by (simp add: reachable_def)
  from step.hyps(2) this step.IH show ?case
    by (induction rule: sys_step.induct)
      (simp_all add: fetch_enqueue_binv take_jobs_binv complete_binv sweep_binv shutdown_binv)
qed

subsection \<open>Audits\<close>

definition audits_open :: "broker \<Rightarrow> bool" where
  "audits_open b \<longleftrightarrow> (\<forall>t p. audits b t = Some p \<longrightarrow> primary p = None \<or> twin p = None)"


lemma audits_sel [simp]:
  "audits (send tx r b) = audits b"
  "audits (fst (lease_one node now audit i st)) = audits (fst st)"
  "audits (fetch_enqueue host method path now b) = audits b"
  by (auto simp: send_def lease_one_def fetch_enqueue_def Let_def split: option.split prod.split)

lemma fold_fst_audits:
  "(\<And>x st. audits (fst (f x st)) = audits (fst st)) \<Longrightarrow> audits (fst (fold f xs st)) = audits (fst st)"
  by (induction xs arbitrary: st) auto

lemma take_host_audits: "audits (fst (take_host node now pending audit host st)) = audits (fst st)"
  by (auto simp: take_host_def Let_def fold_fst_audits split: prod.split)

lemma audits_open_shrink: "audits_open b \<Longrightarrow> (\<And>t. audits c t = audits b t \<or> audits c t = None) \<Longrightarrow> audits_open c"
  unfolding audits_open_def by (metis option.distinct(1))

lemma audits_open_upd [simp]:
  "audits_open (b\<lparr>jobs := js\<rparr>) = audits_open b"
  "audits_open (b\<lparr>b_registry := r\<rparr>) = audits_open b"
  "audits_open (b\<lparr>b_stats := st\<rparr>) = audits_open b"
  "audits_open (push_back h e b) = audits_open b"
  "audits_open (fetch_enqueue host method path now b) = audits_open b"
  "audits_open (send tx res b) = audits_open b"
  by (simp_all add: audits_open_def)

lemma audits_open_abandon: "audits_open b \<Longrightarrow> audits_open (abandon i b)"
  by (erule audits_open_shrink) (auto simp: abandon_def Let_def split: option.splits)

lemma audits_open_release: "audits_open b \<Longrightarrow> audits_open (release i c b)"
  by (auto simp: release_def Let_def intro!: audits_open_abandon split: option.splits)

lemma audits_open_add_twin: "audits_open b \<Longrightarrow> audits_open (add_twin node now tw b)"
  by (auto simp: add_twin_def audits_open_def Let_def split: prod.splits option.splits)

lemma audits_open_fold: "(\<And>x b. audits_open b \<Longrightarrow> audits_open (f x b)) \<Longrightarrow> audits_open b \<Longrightarrow> audits_open (fold f xs b)"
  by (induction xs arbitrary: b) auto

lemma audits_open_take: "audits_open b \<Longrightarrow> audits_open (snd (take_jobs hosts order rolls now node pending b))"
proof -
  assume o: "audits_open b"
  let ?f = "take_host node now pending (active_node_other_than order now node (b_registry b))"
  let ?acc = "\<lparr>out = [], new_twins = [], dice = rolls\<rparr>"
  have "audits (fst (fold ?f hosts (b, ?acc))) = audits b"
    using fold_fst_audits[of ?f hosts "(b, ?acc)"] take_host_audits by simp
  then have "audits_open (fst (fold ?f hosts (b, ?acc)))" using o by (simp add: audits_open_def)
  then show ?thesis
    by (auto simp: take_jobs_def Let_def split: prod.split intro!: audits_open_fold audits_open_add_twin)
qed

lemma finish_audits:
  "audits (finish_audit_if_ready parse t b) t' =
     (if t' = t then (case audits b t of Some p \<Rightarrow> if primary p \<noteq> None \<and> twin p \<noteq> None then None else Some p
        | None \<Rightarrow> None) else audits b t')"
  by (auto simp: finish_audit_if_ready_def Let_def split: option.split)

lemma audits_open_finish:
  assumes "\<And>t' p. t' \<noteq> t \<Longrightarrow> audits b t' = Some p \<Longrightarrow> primary p = None \<or> twin p = None"
  shows "audits_open (finish_audit_if_ready parse t b)"
  unfolding audits_open_def finish_audits using assms by (auto split: if_splits option.splits)

lemma audits_open_set_finish:
  "audits_open b \<Longrightarrow> (\<And>t'. t' \<noteq> t \<Longrightarrow> audits c t' = audits b t') \<Longrightarrow>
   audits_open (finish_audit_if_ready parse t c)"
  by (rule audits_open_finish) (auto simp: audits_open_def)

lemma audits_open_complete_body: "audits_open b \<Longrightarrow> audits_open (complete_body parse now node res j b)"
  unfolding complete_body_def Let_def
  by (auto split: option.split intro!: audits_open_set_finish[of b])

lemma audits_open_complete: "audits_open b \<Longrightarrow> audits_open (complete parse now node res b)"
  by (auto simp: complete_def Let_def split: option.split job_outcome.split
      intro!: audits_open_release audits_open_abandon audits_open_complete_body)

interpretation open_audits: broker_invariant audits_open parse for parse :: "string \<Rightarrow> 'json option"
proof
  show "audits_open (broker_new reg st)" for reg st by (simp add: broker_new_def audits_open_def)
  show "audits_open b \<Longrightarrow> audits_open (Broker.sweep order1 order2 now b)" for b order1 order2 now
    unfolding sweep_def Let_def
    by (rule audits_open_fold[OF _ audits_open_fold[OF audits_open_release]])
      (auto simp: drop_twin_def audits_open_def split: if_splits)
  show "audits_open (Broker.shutdown order b)" for order b
    by (simp add: shutdown_def Let_def audits_open_def)
qed (simp_all add: audits_open_take audits_open_complete)


section \<open>What a poll hands out\<close>

definition leased_to :: "broker \<Rightarrow> nat \<Rightarrow> nat \<Rightarrow> job \<Rightarrow> bool" where
  "leased_to b node until jb \<longleftrightarrow> (\<exists>j. jobs b (job_id jb) = Some j \<and> lease j = Some (node, until)
     \<and> job_host jb = j_host j \<and> job_method jb = j_method j \<and> job_path jb = j_path j)"

lemma leased_to_lease_one:
  "leased_to b node (now + LEASE_MS) jb \<Longrightarrow> leased_to (fst (lease_one node now audit i (b, acc))) node (now + LEASE_MS) jb"
  by (auto simp: leased_to_def lease_one_def Let_def split: option.split prod.split)

lemma lease_one_out:
  "\<exists>new. out (snd (lease_one node now audit i (b, acc))) = out acc @ new \<and> length new \<le> 1
     \<and> (\<forall>jb \<in> set new. leased_to (fst (lease_one node now audit i (b, acc))) node (now + LEASE_MS) jb
          \<and> (\<exists>j. jobs b i = Some j \<and> job_host jb = j_host j))"
  by (auto simp: lease_one_def Let_def leased_to_def split: option.split prod.split)

lemma lease_one_host:
  "map_option j_host (jobs (fst (lease_one node now audit i (b, acc))) k) = map_option j_host (jobs b k)"
  by (auto simp: lease_one_def Let_def split: option.split prod.split)

lemma fold_lease_out:
  assumes "\<forall>i \<in> set is. \<forall>j. jobs b i = Some j \<longrightarrow> j_host j = host"
    and "\<forall>jb \<in> set (out acc). leased_to b node (now + LEASE_MS) jb"
  shows "\<exists>new. out (snd (fold (lease_one node now audit) is (b, acc))) = out acc @ new \<and> length new \<le> length is
     \<and> (\<forall>jb \<in> set new. job_host jb = host)
     \<and> (\<forall>jb \<in> set (out acc @ new). leased_to (fst (fold (lease_one node now audit) is (b, acc))) node (now + LEASE_MS) jb)"
  using assms
proof (induction "is" arbitrary: b acc)
  case (Cons i "is")
  obtain b' acc' where st: "lease_one node now audit i (b, acc) = (b', acc')" by fastforce
  from lease_one_out[of node now audit i b acc] obtain new1 where n1: "out acc' = out acc @ new1"
    "length new1 \<le> 1" "\<forall>jb \<in> set new1. leased_to b' node (now + LEASE_MS) jb \<and> (\<exists>j. jobs b i = Some j \<and> job_host jb = j_host j)"
    unfolding st by auto
  have hosts: "\<forall>k \<in> set is. \<forall>j. jobs b' k = Some j \<longrightarrow> j_host j = host"
    using Cons.prems(1) lease_one_host[of node now audit i b acc] unfolding st
    by (metis (no_types, lifting) fst_conv list.set_intros(2) map_option_eq_Some)
  have "\<forall>jb \<in> set (out acc'). leased_to b' node (now + LEASE_MS) jb"
    using Cons.prems(2) n1 leased_to_lease_one[of b node now _ audit i acc] unfolding st by auto
  from Cons.IH[OF hosts this] obtain new2 where n2:
    "out (snd (fold (lease_one node now audit) is (b', acc'))) = out acc' @ new2" "length new2 \<le> length is"
    "\<forall>jb \<in> set new2. job_host jb = host"
    "\<forall>jb \<in> set (out acc' @ new2). leased_to (fst (fold (lease_one node now audit) is (b', acc'))) node (now + LEASE_MS) jb"
    by blast
  have "\<forall>jb \<in> set new1. job_host jb = host" using n1(3) Cons.prems(1) by auto
  with n1 n2 st show ?case by (intro exI[of _ "new1 @ new2"]) auto
qed auto

definition host_cap :: "(string \<Rightarrow> nat option) \<Rightarrow> string \<Rightarrow> nat" where
  "host_cap pending host = TARGET_INFLIGHT_PER_HOST - (case pending host of Some n \<Rightarrow> n | None \<Rightarrow> 0)"

lemma take_host_out:
  assumes "binv b" "\<forall>jb \<in> set (out acc). leased_to b node (now + LEASE_MS) jb"
  shows "\<exists>new. out (snd (take_host node now pending audit host (b, acc))) = out acc @ new
     \<and> length new \<le> host_cap pending host \<and> (\<forall>jb \<in> set new. job_host jb = host)
     \<and> (\<forall>jb \<in> set (out acc @ new). leased_to (fst (take_host node now pending audit host (b, acc))) node (now + LEASE_MS) jb)"
proof -
  obtain q picked where p: "pick_loop node (host_cap pending host) 0 (queue_of b host) [] = (q, picked)" by fastforce
  from pick_loop_spec[OF p] obtain new where new: "picked = map fst new" "length new \<le> host_cap pending host"
    "mset (queue_of b host) = mset q + mset new" by auto
  let ?b = "b\<lparr>queues := (queues b)(host \<mapsto> q)\<rparr>"
  have "j_host j = host" if i: "i \<in> set picked" and j: "jobs ?b i = Some j" for i j
  proof -
    from i new(1) obtain ex where "(i, ex) \<in> set new" by auto
    then have "(i, ex) \<in> set (queue_of b host)" using arg_cong[OF new(3), of set_mset] by auto
    then show ?thesis using assms(1) j by (auto simp: binv_but_def queue_ok_def)
  qed
  moreover have "\<forall>jb \<in> set (out acc). leased_to ?b node (now + LEASE_MS) jb"
    using assms(2) by (simp add: leased_to_def)
  ultimately have "\<exists>new. out (snd (fold (lease_one node now audit) picked (?b, acc))) = out acc @ new \<and> length new \<le> length picked
     \<and> (\<forall>jb \<in> set new. job_host jb = host)
     \<and> (\<forall>jb \<in> set (out acc @ new). leased_to (fst (fold (lease_one node now audit) picked (?b, acc))) node (now + LEASE_MS) jb)"
    by (intro fold_lease_out) auto
  moreover have "take_host node now pending audit host (b, acc) = fold (lease_one node now audit) picked (?b, acc)"
    using p by (simp add: take_host_def Let_def host_cap_def)
  moreover have "length picked \<le> host_cap pending host" using new(1,2) by simp
  ultimately show ?thesis by (metis (no_types, lifting) le_trans)
qed

lemma fold_take_host_out:
  assumes "binv b" "\<forall>jb \<in> set (out acc). leased_to b node (now + LEASE_MS) jb" "distinct hosts"
    and "\<forall>jb \<in> set (out acc). job_host jb \<notin> set hosts"
    and "\<forall>h. length (filter (\<lambda>jb. job_host jb = h) (out acc)) \<le> host_cap pending h"
  shows "let (b', acc') = fold (take_host node now pending audit) hosts (b, acc) in
     (\<forall>jb \<in> set (out acc'). leased_to b' node (now + LEASE_MS) jb)
     \<and> (\<forall>h. length (filter (\<lambda>jb. job_host jb = h) (out acc')) \<le> host_cap pending h)"
  using assms
proof (induction hosts arbitrary: b acc)
  case (Cons host hosts)
  obtain b' acc' where st: "take_host node now pending audit host (b, acc) = (b', acc')" by fastforce
  from take_host_out[OF Cons.prems(1,2), of pending audit host] obtain new where new:
    "out acc' = out acc @ new" "length new \<le> host_cap pending host" "\<forall>jb \<in> set new. job_host jb = host"
    "\<forall>jb \<in> set (out acc'). leased_to b' node (now + LEASE_MS) jb" unfolding st by auto
  have inv: "binv b'" using take_host_binv[OF Cons.prems(1), of node now pending audit host acc] st by simp
  have fresh: "\<forall>jb \<in> set (out acc'). job_host jb \<notin> set hosts" using new(1,3) Cons.prems(3,4) by auto
  have "filter (\<lambda>jb. job_host jb = host) (out acc) = []" using Cons.prems(4) by (auto simp: filter_empty_conv)
  moreover have "filter (\<lambda>jb. job_host jb = h) new = (if h = host then new else [])" for h
    using new(3) by (auto simp: filter_empty_conv filter_id_conv)
  ultimately have "\<forall>h. length (filter (\<lambda>jb. job_host jb = h) (out acc')) \<le> host_cap pending h"
    using new(1,2) Cons.prems(5) by simp
  from Cons.IH[OF inv new(4) _ fresh this] Cons.prems(3) st show ?case by simp
qed simp

lemma leased_to_add_twin:
  assumes "binv b" "leased_to b node until jb"
  shows "leased_to (add_twin node' now tw b) node until jb"
proof -
  have "job_id jb \<noteq> next_id b" using assms next_id_free[OF assms(1)] by (auto simp: leased_to_def)
  with assms(2) show ?thesis
    by (auto simp: leased_to_def add_twin_def Let_def split: prod.split option.split)
qed

lemma leased_to_fold_twins:
  "binv b \<Longrightarrow> leased_to b node until jb \<Longrightarrow> leased_to (fold (add_twin node' now) tws b) node until jb"
proof (induction tws arbitrary: b)
  case (Cons tw tws)
  then show ?case using add_twin_binv[of b node' now tw] leased_to_add_twin[of b node until jb node' now tw] by simp
qed simp

lemma take_jobs_out:
  assumes "binv b" "distinct hosts"
  shows "length (filter (\<lambda>jb. job_host jb = h) (fst (take_jobs hosts order rolls now node pending b))) \<le> host_cap pending h
    \<and> (\<forall>jb \<in> set (fst (take_jobs hosts order rolls now node pending b)).
         leased_to (snd (take_jobs hosts order rolls now node pending b)) node (now + LEASE_MS) jb)"
proof -
  let ?audit = "active_node_other_than order now node (b_registry b)"
  let ?acc = "\<lparr>out = [], new_twins = [], dice = rolls\<rparr>"
  obtain b' acc where f: "fold (take_host node now pending ?audit) hosts (b, ?acc) = (b', acc)" by fastforce
  have "binv b'"
    using fold_keeps[where P = "\<lambda>s. binv (fst s)" and m = "\<lambda>s. outstanding (fst s)"
        and f = "take_host node now pending ?audit" and xs = hosts and b = "(b, ?acc)"] assms f
    by (auto simp: take_host_binv)
  moreover have "\<forall>jb \<in> set (out acc). leased_to b' node (now + LEASE_MS) jb"
    "\<forall>h. length (filter (\<lambda>jb. job_host jb = h) (out acc)) \<le> host_cap pending h"
    using fold_take_host_out[OF assms(1) _ assms(2), of ?acc node now pending ?audit] f by simp_all
  ultimately show ?thesis
    using leased_to_fold_twins[of b' node "now + LEASE_MS" _ node now "new_twins acc"] f
    by (auto simp: take_jobs_def Let_def)
qed


section \<open>Sweeping\<close>

lemma abandon_jobs: "jobs (abandon i b) k = Some j \<Longrightarrow> jobs b k = Some j \<and> k \<noteq> i"
  by (auto simp: abandon_def Let_def send_def split: option.splits if_splits)

lemma release_expired:
  assumes "jobs (release i True b) k = Some j" "lease_expired now j"
  shows "jobs b k = Some j \<and> k \<noteq> i"
proof (cases "jobs b i")
  case (Some j0)
  let ?j = "j0\<lparr>lease := None, attempts := attempts j0 + 1\<rparr>"
  have "jobs (b\<lparr>jobs := (jobs b)(i \<mapsto> ?j)\<rparr>) k = Some j"
    using assms(1) Some abandon_jobs[of i "b\<lparr>jobs := (jobs b)(i \<mapsto> ?j)\<rparr>" k j]
    by (auto simp: release_def Let_def split: if_splits)
  then show ?thesis using assms(2) by (auto simp: lease_expired_def split: if_splits)
qed (use assms in \<open>auto simp: release_def\<close>)

lemma fold_release_expired:
  "jobs (fold (\<lambda>i. release i True) is b) k = Some j \<Longrightarrow> lease_expired now j \<Longrightarrow>
   jobs b k = Some j \<and> k \<notin> set is"
proof (induction "is" arbitrary: b)
  case (Cons i "is")
  then have "jobs (release i True b) k = Some j \<and> k \<notin> set is" by simp
  with Cons.prems(2) release_expired[of i b k j now] show ?case by auto
qed simp

lemma fold_drop_twin_jobs: "jobs (fold drop_twin is b) k = Some j \<Longrightarrow> jobs b k = Some j"
proof (induction "is" arbitrary: b)
  case (Cons i "is")
  then have "jobs (drop_twin i b) k = Some j" by simp
  then show ?case by (simp add: drop_twin_def split: if_splits)
qed simp

section \<open>A concrete run\<close>

definition sample_system :: fetch_system where
  "sample_system =
     \<lparr>sys_broker = snd (take_jobs [''euw1''] [] [] 10 4 Map.empty
        (fetch_enqueue ''euw1'' ''match-v5.match'' ''/m/1'' 5 (broker_new registry_new Map.empty))),
      entered = 0, fetched = {1}\<rparr>"

lemma reachable_sample: "reachable parse registry_new Map.empty sample_system"
proof -
  let ?b0 = "broker_new registry_new Map.empty"
  let ?b1 = "fetch_enqueue ''euw1'' ''match-v5.match'' ''/m/1'' 5 ?b0"
  have "sys_step parse (sys_init registry_new Map.empty) \<lparr>sys_broker = ?b0, entered = 1, fetched = {}\<rparr>"
    using step_enter[of "sys_init registry_new Map.empty" parse]
    by (simp add: sys_init_def fetch_enter_def broker_new_def)
  moreover have "sys_step parse \<lparr>sys_broker = ?b0, entered = 1, fetched = {}\<rparr> \<lparr>sys_broker = ?b1, entered = 0, fetched = {1}\<rparr>"
    using step_enqueue[of "\<lparr>sys_broker = ?b0, entered = 1, fetched = {}\<rparr>" parse "''euw1''" "''match-v5.match''" "''/m/1''" 5]
    by (simp add: broker_new_def)
  moreover have "sys_step parse \<lparr>sys_broker = ?b1, entered = 0, fetched = {1}\<rparr> sample_system"
    using step_take[of parse "\<lparr>sys_broker = ?b1, entered = 0, fetched = {1}\<rparr>" "[''euw1'']" "[]" "[]" 10 4 Map.empty]
    by (simp add: sample_system_def)
  ultimately show ?thesis unfolding reachable_def by (meson rtranclp.rtrancl_into_rtrancl rtranclp.rtrancl_refl)
qed

definition sample_job :: job_state where
  "sample_job = \<lparr>j_host = ''euw1'', j_method = ''match-v5.match'', j_path = ''/m/1'', responder = Some 1,
     lease = Some (4, 150010), attempts = 0, exclude_node = None, twin_id = None, is_twin = False, created = 5\<rparr>"

lemma sample_jobs: "jobs (sys_broker sample_system) = [1 \<mapsto> sample_job]"
  by (simp add: sample_system_def sample_job_def take_jobs_def take_host_def lease_one_def fetch_enqueue_def
      push_back_def queue_of_def broker_new_def pick_loop.simps TARGET_INFLIGHT_PER_HOST_def LEASE_MS_def
      active_node_other_than_def Let_def)

lemma sample_job_1: "jobs (sys_broker sample_system) 1 = Some sample_job"
  by (simp add: sample_jobs)

lemma sample_swept: "jobs (sweep [1] [1] 100 (sys_broker sample_system)) 1 = Some sample_job"
  by (simp add: sweep_def ids_where_def sample_jobs lease_expired_def stale_twin_def sample_job_def Let_def)

section \<open>Properties\<close>

text \<open>C3: No fetch is lost and none is answered twice: in every reachable state of the broker, under any
  interleaving of fetches, polls, results, sweeps and shutdown, the fetches made so far are exactly
  those whose job is still pending plus those that were answered, no fetch is both, and
  every answer channel received at most one answer.\<close>

theorem fetches_answered_once:
  assumes "reachable parse reg st s"
  shows "fetched s = {i. \<exists>j. jobs (sys_broker s) i = Some j \<and> \<not> is_twin j} \<union> fst ` set (resolved (sys_broker s))
    \<and> dom (jobs (sys_broker s)) \<inter> fst ` set (resolved (sys_broker s)) = {}
    \<and> distinct (map fst (resolved (sys_broker s)))"
  using scheduling.reachable_inv[OF assms] reachable_accounting[OF assms]
  by (auto simp: outstanding_def binv_but_def res_ok_def)

theorem fetches_answered_once_witness:
  "distinct (map fst (resolved (sys_broker sample_system)))
    \<and> dom (jobs (sys_broker sample_system)) \<inter> fst ` set (resolved (sys_broker sample_system)) = {}"
  using fetches_answered_once[OF reachable_sample[of "\<lambda>_. Some ()"]] by simp

text \<open>C24: No work is stranded and audits stay independent: in every reachable state a job without a lease
  sits in its host's queue, a leased job is never held by the node it excludes (a twin is never
  dispatched to the node that ran its primary), its attempts are below the limit, and
  no finished audit pair lingers.\<close>

theorem jobs_always_scheduled:
  assumes "reachable parse reg st s" "jobs (sys_broker s) i = Some j"
  shows "(case lease j of None \<Rightarrow> (i, exclude_node j) \<in> set (queue_of (sys_broker s) (j_host j))
          | Some (n, _) \<Rightarrow> exclude_node j \<noteq> Some n)
    \<and> attempts j < 6
    \<and> (audits (sys_broker s) t = Some p \<longrightarrow> primary p = None \<or> twin p = None)"
  using scheduling.reachable_inv[OF assms(1)] open_audits.reachable_inv[OF assms(1)] assms(2)
  by (auto simp: binv_but_def scheduled_def audits_open_def MAX_ATTEMPTS_def)

theorem jobs_always_scheduled_witness:
  "attempts sample_job < 6 \<and> exclude_node sample_job \<noteq> Some 4"
  using jobs_always_scheduled[OF reachable_sample[of "\<lambda>_. Some ()"] sample_job_1] by (simp add: sample_job_def)

text \<open>A poll never overfills a node: for every host it hands out at most the inflight target minus
  what the node says it holds, and every job it returns is leased to that node for the lease time with the
  host, method and path of the stored job.\<close>

lemma take_jobs_bounded:
  assumes "reachable parse reg st s" "distinct hosts"
    and "take_jobs hosts order rolls now node pending (sys_broker s) = (js, b')"
  shows "length (filter (\<lambda>jb. job_host jb = h) js) \<le> 8 - (case pending h of Some n \<Rightarrow> n | None \<Rightarrow> 0)
    \<and> (\<forall>jb \<in> set js. \<exists>j. jobs b' (job_id jb) = Some j \<and> lease j = Some (node, now + 150000)
         \<and> job_host jb = j_host j \<and> job_method jb = j_method j \<and> job_path jb = j_path j)"
  using take_jobs_out[OF scheduling.reachable_inv[OF assms(1)] assms(2), of h order rolls now node pending] assms(3)
  by (auto simp: host_cap_def TARGET_INFLIGHT_PER_HOST_def leased_to_def LEASE_MS_def)

lemma take_jobs_bounded_witness:
  "length (filter (\<lambda>jb. job_host jb = ''euw1'')
     (fst (take_jobs [''euw1''] [] [] 20 4 [''euw1'' \<mapsto> 1] (sys_broker sample_system)))) \<le> 7"
  using take_jobs_bounded[OF reachable_sample[of "\<lambda>_. Some ()"], of "[''euw1'']" "[]" "[]" 20 4 "[''euw1'' \<mapsto> 1]"
      "fst (take_jobs [''euw1''] [] [] 20 4 [''euw1'' \<mapsto> 1] (sys_broker sample_system))"
      "snd (take_jobs [''euw1''] [] [] 20 4 [''euw1'' \<mapsto> 1] (sys_broker sample_system))" "''euw1''"]
  by simp

text \<open>The lease sweep leaves no expired lease behind: whatever order the map iterates in,
  after a sweep at \<open>now\<close> every lease still held expires later than \<open>now\<close>.\<close>

lemma sweep_clears_expired:
  assumes "set order1 = dom (jobs b)" "jobs (sweep order1 order2 now b) i = Some j" "lease j = Some (n, expiry)"
  shows "now < expiry"
proof (rule ccontr)
  assume "\<not> now < expiry"
  then have exp: "lease_expired now j" using assms(3) by (simp add: lease_expired_def)
  let ?is = "ids_where (lease_expired now) order1 b"
  have "jobs (fold (\<lambda>i. release i True) ?is b) i = Some j"
    by (rule fold_drop_twin_jobs) (use assms(2) in \<open>simp only: sweep_def Let_def\<close>)
  then have "jobs b i = Some j" "i \<notin> set ?is" using fold_release_expired exp by blast+
  then show False using exp assms(1) by (auto simp: ids_where_def)
qed

lemma sweep_clears_expired_witness:
  "jobs (sweep [1] [1] 100 (sys_broker sample_system)) 1 = Some sample_job \<and> (100 :: nat) < 150010"
  using sweep_clears_expired[of "[1]" "sys_broker sample_system" "[1]" 100 1 sample_job 4 150010] sample_swept
  by (simp add: sample_jobs sample_job_def)

text \<open>Shutdown answers every waiting fetch: each pending fetch gets exactly one shutdown error after
  the answers already given, and no job, queue entry or audit remains.\<close>

lemma shutdown_answers_all:
  assumes "reachable parse reg st s" "distinct order" "set order = dom (jobs (sys_broker s))"
  shows "\<exists>ids. resolved (shutdown order (sys_broker s)) =
       resolved (sys_broker s) @ map (\<lambda>i. (i, Inl ServerShuttingDown)) ids
     \<and> distinct ids \<and> set ids = {i. \<exists>j. jobs (sys_broker s) i = Some j \<and> \<not> is_twin j}
     \<and> jobs (shutdown order (sys_broker s)) = Map.empty \<and> shutdown_flag (shutdown order (sys_broker s))"
  using shutdown_resolved[OF scheduling.reachable_inv[OF assms(1)] assms(2,3)]
  by (auto simp: shutdown_def Let_def fold_send_sel)

lemma shutdown_answers_all_witness:
  "\<exists>ids. resolved (shutdown [1] (sys_broker sample_system)) =
     resolved (sys_broker sample_system) @ map (\<lambda>i. (i, Inl ServerShuttingDown)) ids \<and> set ids = {1}"
proof -
  have "{i. \<exists>j. jobs (sys_broker sample_system) i = Some j \<and> \<not> is_twin j} = {1}"
    by (auto simp: sample_jobs sample_job_def split: if_splits)
  with shutdown_answers_all[OF reachable_sample[of "\<lambda>_. Some ()"], of "[1]"] show ?thesis
    by (auto simp: sample_jobs)
qed

text \<open>A result decides its job: an accepted body answers the waiting fetch with exactly that body (or the
  definitive absence), removes the job and credits the node; a result for an unknown job, or for a job
  leased to another node, changes nothing.\<close>

theorem complete_outcome:
  assumes "jobs b (res_id res) = Some j"
  shows "(accepts_result node j \<longrightarrow> res_outcome res \<in> {OutOk, OutNotFound} \<longrightarrow>
        jobs (complete parse now node res b) = (jobs b)(res_id res := None)
        \<and> resolved (complete parse now node res b) = resolved b @
            (case responder j of
               Some ch \<Rightarrow> [(ch, Inr (if res_outcome res = OutOk then Some (case res_body res of Some s \<Rightarrow> s | None \<Rightarrow> []) else None))]
             | None \<Rightarrow> []))
    \<and> (lease j = Some (other, e) \<longrightarrow> other \<noteq> node \<longrightarrow> complete parse now node res b = b)"
proof -
  have fin: "jobs (finish_audit_if_ready parse t c) = jobs c" "resolved (finish_audit_if_ready parse t c) = resolved c" for t c
    by (auto simp: finish_audit_if_ready_def Let_def split: option.split)
  have "jobs (complete_body parse now node res j b) = (jobs b)(res_id res := None)
    \<and> resolved (complete_body parse now node res j b) = resolved b @
        (case responder j of
           Some ch \<Rightarrow> [(ch, Inr (if res_outcome res = OutOk then Some (case res_body res of Some s \<Rightarrow> s | None \<Rightarrow> []) else None))]
         | None \<Rightarrow> [])"
    unfolding complete_body_def Let_def
    by (auto simp: fin send_def split: option.split)
  with assms show ?thesis
    by (auto simp: complete_def accepts_result_def split: option.split)
qed

theorem complete_outcome_witness:
  "resolved (complete (\<lambda>_. Some ()) 30 4 \<lparr>res_id = 1, res_outcome = OutOk, res_body = Some ''{}''\<rparr> (sys_broker sample_system)) =
     resolved (sys_broker sample_system) @ [(1, Inr (Some ''{}''))]"
  using complete_outcome[of "sys_broker sample_system" "\<lparr>res_id = 1, res_outcome = OutOk, res_body = Some ''{}''\<rparr>" sample_job 4 "\<lambda>_. Some ()" 30]
  by (simp add: sample_jobs sample_job_def accepts_result_def)

text \<open>A fetch that passes the shutdown test just before shutdown enqueues afterwards: the broker can
  reach a state that is shut down and yet holds a pending, unanswered fetch, so shutdown does not
  resolve every pending fetch.\<close>

lemma fetch_races_shutdown:
  "\<exists>s. reachable parse registry_new Map.empty s \<and> shutdown_flag (sys_broker s)
     \<and> fetched s = {1} \<and> resolved (sys_broker s) = [] \<and> jobs (sys_broker s) 1 \<noteq> None"
proof -
  let ?b0 = "broker_new registry_new Map.empty"
  let ?s1 = "\<lparr>sys_broker = ?b0, entered = 1, fetched = {}\<rparr>"
  let ?s2 = "\<lparr>sys_broker = shutdown [] ?b0, entered = 1, fetched = {}\<rparr>"
  let ?s3 = "\<lparr>sys_broker = fetch_enqueue [] [] [] 0 (shutdown [] ?b0), entered = 0, fetched = {1}\<rparr>"
  have "sys_step parse (sys_init registry_new Map.empty) ?s1"
    using step_enter[of "sys_init registry_new Map.empty" parse]
    by (simp add: sys_init_def fetch_enter_def broker_new_def)
  moreover have "sys_step parse ?s1 ?s2"
    using step_shutdown[of "[]" ?s1 parse] by (simp add: broker_new_def)
  moreover have "sys_step parse ?s2 ?s3"
    using step_enqueue[of ?s2 parse "[]" "[]" "[]" 0] by (simp add: broker_new_def shutdown_def)
  ultimately have "reachable parse registry_new Map.empty ?s3"
    unfolding reachable_def by (meson rtranclp.rtrancl_into_rtrancl rtranclp.rtrancl_refl)
  then show ?thesis
    by (intro exI[of _ ?s3]) (simp add: fetch_enqueue_def push_back_def shutdown_def broker_new_def Let_def queue_of_def)
qed

text \<open>A failure report that arrives after its lease was swept queues the job a second time: one fetch,
  one expired lease and one late report let a single poll hand the same job out twice, against the
  queue invariant documented on the broker's state.\<close>

theorem late_failure_duplicates_job:
  "let b1 = fetch_enqueue ''h'' ''m'' ''p'' 0 (broker_new registry_new Map.empty);
       b2 = snd (take_jobs [''h''] [] [] 0 1 Map.empty b1);
       b3 = sweep [1] [1] 150000 b2;
       b4 = complete parse 150001 1 \<lparr>res_id = 1, res_outcome = OutFailed, res_body = None\<rparr> b3
   in map job_id (fst (take_jobs [''h''] [] [] 150002 2 Map.empty b4)) = [1, 1]"
  by (simp add: take_jobs_def take_host_def lease_one_def fetch_enqueue_def sweep_def ids_where_def
      release_def lease_expired_def stale_twin_def complete_def accepts_result_def
      push_back_def queue_of_def broker_new_def pick_loop.simps TARGET_INFLIGHT_PER_HOST_def LEASE_MS_def
      active_node_other_than_def MAX_ATTEMPTS_def Let_def)

end
