(* ===== verification/Worker.thy ===== *)
theory Worker
  imports Executor Broker_Props
begin

text \<open>
  The node's work loop (\<^verbatim>\<open>crates/node/src/worker.rs\<close>) and the handle it shares with its frontend
  (\<^verbatim>\<open>crates/node/src/events.rs\<close>): polling, the jobs held per host, the pause on a rejected key, and the upload of results with
  its backoff.

  Each piece of code that runs without an await is a function on the node's state; \<open>node_step\<close> interleaves them with the server.  A hash
  map from hosts to counts is a partial map, the event channel is the list of the events sent, the modification time of the configuration file
  and its content are arguments.  A task that panics has no step of its own: it is a task that never ends, and the count of its host is not lowered
  either way.  The status line and log lines are dropped.
\<close>

section \<open>The handle\<close>

datatype node_event =
    Connected
  | Disconnected
  | JobStarted nat string string
  | JobActive nat
  | JobDone nat string string string nat
  | JobUploaded nat
  | KeyBad
  | KeyOk
  | ProtocolMismatch string
  | Stopped

record node_handle =
  nh_events :: "node_event list"
  nh_completed :: nat
  nh_matches :: nat
  nh_per_host :: "string \<Rightarrow> nat option"
  nh_key_bad :: bool
  nh_connected :: bool

definition node_handle_new :: node_handle where
  "node_handle_new = \<lparr>nh_events = [], nh_completed = 0, nh_matches = 0, nh_per_host = Map.empty, nh_key_bad = False, nh_connected = False\<rparr>"

definition emit :: "node_event \<Rightarrow> node_handle \<Rightarrow> node_handle" where
  "emit ev h = h\<lparr>nh_events := nh_events h @ [ev]\<rparr>"

definition host_count :: "(string \<Rightarrow> nat option) \<Rightarrow> string \<Rightarrow> nat" where
  "host_count m host = (case m host of Some n \<Rightarrow> n | None \<Rightarrow> 0)"

definition job_finished :: "string \<Rightarrow> bool \<Rightarrow> node_handle \<Rightarrow> node_handle" where
  "job_finished host is_match h =
     (let h = h\<lparr>nh_completed := nh_completed h + 1\<rparr>;
          h = (if is_match then h\<lparr>nh_matches := nh_matches h + 1\<rparr> else h)
      in h\<lparr>nh_per_host := (nh_per_host h)(host \<mapsto> host_count (nh_per_host h) host + 1)\<rparr>)"

record node_snapshot =
  sn_completed :: nat
  sn_matches :: nat
  sn_per_host :: "string \<Rightarrow> nat option"
  sn_key_bad :: bool
  sn_connected :: bool

definition handle_snapshot :: "node_handle \<Rightarrow> node_snapshot" where
  "handle_snapshot h = \<lparr>sn_completed = nh_completed h, sn_matches = nh_matches h, sn_per_host = nh_per_host h,
     sn_key_bad = nh_key_bad h, sn_connected = nh_connected h\<rparr>"

section \<open>The node\<close>

definition IDLE_WAIT_MS :: nat where "IDLE_WAIT_MS = 25000"

definition BUSY_WAIT_MS :: nat where "BUSY_WAIT_MS = 1500"

fun outcome_str :: "job_outcome \<Rightarrow> string" where
  "outcome_str OutOk = ''ok''"
| "outcome_str OutNotFound = ''not_found''"
| "outcome_str OutKeyRejected = ''key_rejected''"
| "outcome_str OutFailed = ''failed''"

text \<open>The state of \<^verbatim>\<open>run\<close>: the executor and the counts that the tasks share, the spawned tasks, the results waiting for the uploader, and
  the local variables of the loop.\<close>

record worker =
  wk_executor :: executor
  wk_inflight :: "string \<Rightarrow> nat option"
  wk_handle :: node_handle
  wk_tasks :: "job list"
  wk_results :: "job_result list"
  wk_announced_pause :: bool
  wk_key_mtime :: "nat option"

definition worker_new :: "string \<Rightarrow> nat option \<Rightarrow> node_handle \<Rightarrow> worker" where
  "worker_new api_key mtime h = \<lparr>wk_executor = executor_new api_key, wk_inflight = Map.empty, wk_handle = h, wk_tasks = [],
     wk_results = [], wk_announced_pause = False, wk_key_mtime = mtime\<rparr>"

definition on_handle :: "(node_handle \<Rightarrow> node_handle) \<Rightarrow> worker \<Rightarrow> worker" where
  "on_handle f w = w\<lparr>wk_handle := f (wk_handle w)\<rparr>"

text \<open>The counts above zero, and the request built from them.\<close>

definition pending_of :: "(string \<Rightarrow> nat option) \<Rightarrow> string \<Rightarrow> nat option" where
  "pending_of counts host = (case counts host of Some n \<Rightarrow> if n > 0 then Some n else None | None \<Rightarrow> None)"

definition wait_for :: "(string \<Rightarrow> nat option) \<Rightarrow> nat" where
  "wait_for pending = (if pending = Map.empty then IDLE_WAIT_MS else BUSY_WAIT_MS)"

definition take_job :: "job \<Rightarrow> worker \<Rightarrow> worker" where
  "take_job job w =
     w\<lparr>wk_inflight := (wk_inflight w)(job_host job \<mapsto> host_count (wk_inflight w) (job_host job) + 1), wk_tasks := wk_tasks w @ [job]\<rparr>"

definition poll_ok :: "job list \<Rightarrow> worker \<Rightarrow> worker" where
  "poll_ok js w =
     (let was = nh_connected (wk_handle w);
          w = on_handle (\<lambda>h. h\<lparr>nh_connected := True\<rparr>) w;
          w = (if \<not> was then on_handle (emit Connected) w else w)
      in fold take_job js w)"

definition poll_failed :: "worker \<Rightarrow> worker" where
  "poll_failed w =
     (let was = nh_connected (wk_handle w);
          w = on_handle (\<lambda>h. h\<lparr>nh_connected := False\<rparr>) w
      in if was then on_handle (emit Disconnected) w else w)"

definition poll_mismatch :: "string \<Rightarrow> worker \<Rightarrow> worker" where
  "poll_mismatch message w = on_handle (emit (ProtocolMismatch message)) w"

text \<open>A spawned task: it announces itself, sends its request, and ends with the executor's result.\<close>

definition start_task :: "job \<Rightarrow> worker \<Rightarrow> worker" where
  "start_task job w = on_handle (emit (JobStarted (job_id job) (job_host job) (job_method job))) w"

definition send_task :: "job \<Rightarrow> worker \<Rightarrow> worker" where
  "send_task job w = on_handle (emit (JobActive (job_id job))) w"

definition end_task :: "job \<Rightarrow> job_result \<Rightarrow> nat \<Rightarrow> worker \<Rightarrow> worker" where
  "end_task job res ms w =
     (let w = (case wk_inflight w (job_host job) of
                 Some n \<Rightarrow> w\<lparr>wk_inflight := (wk_inflight w)(job_host job \<mapsto> n - 1)\<rparr>
               | None \<Rightarrow> w);
          is_match = (job_method job = ''match-v5.match'' \<and> res_outcome res = OutOk);
          w = on_handle (job_finished (job_host job) is_match) w;
          w = on_handle (emit (JobDone (job_id job) (job_host job) (job_method job) (outcome_str (res_outcome res)) ms)) w
      in w\<lparr>wk_tasks := remove1 job (wk_tasks w), wk_results := wk_results w @ [res]\<rparr>)"

section \<open>The rejected key\<close>

definition announce_pause :: "worker \<Rightarrow> worker" where
  "announce_pause w =
     (if \<not> wk_announced_pause w
      then (on_handle (\<lambda>h. emit KeyBad (h\<lparr>nh_key_bad := True\<rparr>)) w)\<lparr>wk_announced_pause := True\<rparr>
      else w)"

text \<open>After the wait: \<open>fresh\<close> is the key in the configuration file, \<open>None\<close> when there is none to read.\<close>

definition refresh_key :: "nat option \<Rightarrow> string option \<Rightarrow> worker \<Rightarrow> worker" where
  "refresh_key m fresh w =
     (if m \<noteq> wk_key_mtime w then
        let w = w\<lparr>wk_key_mtime := m\<rparr> in
        case fresh of
          Some key \<Rightarrow>
            (on_handle (\<lambda>h. emit KeyOk (h\<lparr>nh_key_bad := False\<rparr>))
              (w\<lparr>wk_executor := set_api_key key (wk_executor w)\<rparr>))\<lparr>wk_announced_pause := False\<rparr>
        | None \<Rightarrow> w
      else w)"

section \<open>Uploading\<close>

datatype upload_reply = UpOk | UpMismatch | UpError

datatype upload_end = Delivered | GivenUp

text \<open>The loop around one result: the outcome, the requests made and the seconds slept.\<close>

partial_function (option) upload_loop :: "(nat \<Rightarrow> upload_reply) \<Rightarrow> nat \<Rightarrow> nat \<Rightarrow> nat \<Rightarrow> (upload_end \<times> nat \<times> nat) option" where
  "upload_loop replies n delay waited =
     (case replies n of
        UpOk \<Rightarrow> Some (Delivered, n + 1, waited)
      | UpMismatch \<Rightarrow> Some (GivenUp, n + 1, waited)
      | UpError \<Rightarrow>
          if waited \<ge> 300 then Some (GivenUp, n + 1, waited)
          else upload_loop replies (n + 1) (min (delay * 2) 30) (waited + delay))"

definition upload :: "(nat \<Rightarrow> upload_reply) \<Rightarrow> (upload_end \<times> nat \<times> nat) option" where
  "upload replies = upload_loop replies 0 1 0"

definition uploaded :: "job_result \<Rightarrow> worker \<Rightarrow> worker" where
  "uploaded res w = on_handle (emit (JobUploaded (res_id res))) w"

section \<open>One pass of the loop\<close>

datatype poll_reply = PollJobs "job list" | PollMismatch string | PollError | PollStopped

record loop_io =
  lp_stopped :: bool
  lp_pause_stopped :: bool
  lp_mtime :: "nat option"
  lp_fresh_key :: "string option"
  lp_reply :: "(string \<Rightarrow> nat option) \<Rightarrow> poll_reply"
  lp_sleep_stopped :: bool

datatype loop_end = Continue | Break | Fatal

text \<open>A pass in which no task ends while it waits.\<close>

definition loop_pass :: "loop_io \<Rightarrow> worker \<Rightarrow> loop_end \<times> worker" where
  "loop_pass io w =
     (if lp_stopped io then (Break, w)
      else if ex_key_bad (wk_executor w) then
        let w = announce_pause w in
        if lp_pause_stopped io then (Break, w) else (Continue, refresh_key (lp_mtime io) (lp_fresh_key io) w)
      else case lp_reply io (pending_of (wk_inflight w)) of
        PollStopped \<Rightarrow> (Break, w)
      | PollJobs js \<Rightarrow> (if lp_sleep_stopped io then Break else Continue, poll_ok js w)
      | PollMismatch message \<Rightarrow> (Fatal, poll_mismatch message w)
      | PollError \<Rightarrow> (if lp_sleep_stopped io then Break else Continue, poll_failed w))"

definition worker_stop :: "worker \<Rightarrow> worker" where
  "worker_stop w = on_handle (\<lambda>h. emit Stopped (h\<lparr>nh_connected := False\<rparr>)) w"

end
