(* ===== verification/Frontier.thy ===== *)
theory Frontier
  imports Tables
begin

text \<open>
  The crawl frontier of \<^verbatim>\<open>crates/server/src/storage.rs\<close>: the tables \<^verbatim>\<open>T_FRONTIER\<close> (tasks ordered by
  platform, bucket, due time and player) and \<^verbatim>\<open>T_FRONTIER_IDX\<close> (the key of each queued
  player), and the operations of \<^verbatim>\<open>Store\<close> on them.  The abstract view \<open>queued\<close> is one schedule per player.
\<close>

definition BUCKET_PRIORITY :: u8 where "BUCKET_PRIORITY = 0"

definition BUCKET_OTHER :: u8 where "BUCKET_OTHER = 1"

definition DEEP_VISIT_MS :: u64 where "DEEP_VISIT_MS = 1"

record frontier_task =
  ft_puuid :: string
  last_visit_ms :: u64

record frontier_key =
  fk_platform :: string
  fk_bucket :: u8
  fk_due_ms :: u64

type_synonym task_key = "string \<times> u8 \<times> u64 \<times> u32"

record frontier =
  t_frontier :: "(task_key, frontier_task) table"
  t_frontier_idx :: "(u32, frontier_key) table"

definition empty_frontier :: frontier where
  "empty_frontier = \<lparr>t_frontier = RBT.empty, t_frontier_idx = RBT.empty\<rparr>"

text \<open>The two inserts that queue a player, shared by the single and the batch push.\<close>

definition frontier_put :: "string \<Rightarrow> u8 \<Rightarrow> u64 \<Rightarrow> u32 \<Rightarrow> frontier_task \<Rightarrow> frontier \<Rightarrow> frontier" where
  "frontier_put platform bucket due_ms pid task f =
     f\<lparr>t_frontier := RBT.insert (platform, bucket, due_ms, pid) task (t_frontier f),
       t_frontier_idx := RBT.insert pid \<lparr>fk_platform = platform, fk_bucket = bucket, fk_due_ms = due_ms\<rparr>
         (t_frontier_idx f)\<rparr>"

definition frontier_push :: "string \<Rightarrow> u8 \<Rightarrow> u64 \<Rightarrow> u32 \<Rightarrow> frontier_task \<Rightarrow> frontier \<Rightarrow> frontier" where
  "frontier_push platform bucket due_ms pid task f =
     (case RBT.lookup (t_frontier_idx f) pid of
        Some ex \<Rightarrow>
          if fk_bucket ex \<le> bucket then f
          else frontier_put platform bucket due_ms pid task
            (f\<lparr>t_frontier := RBT.delete (fk_platform ex, fk_bucket ex, fk_due_ms ex, pid) (t_frontier f)\<rparr>)
      | None \<Rightarrow> frontier_put platform bucket due_ms pid task f)"

fun frontier_push_batch :: "string \<Rightarrow> u8 \<Rightarrow> u64 \<Rightarrow> (u32 \<times> frontier_task) list \<Rightarrow> frontier \<Rightarrow> frontier" where
  "frontier_push_batch platform bucket due_ms [] f = f"
| "frontier_push_batch platform bucket due_ms ((pid, task) # items) f =
     (case RBT.lookup (t_frontier_idx f) pid of
        Some ex \<Rightarrow>
          if fk_bucket ex \<le> bucket then frontier_push_batch platform bucket due_ms items f
          else frontier_push_batch platform bucket due_ms items
            (frontier_put platform bucket due_ms pid task
              (f\<lparr>t_frontier := RBT.delete (fk_platform ex, fk_bucket ex, fk_due_ms ex, pid) (t_frontier f)\<rparr>))
      | None \<Rightarrow>
          frontier_push_batch platform bucket due_ms items (frontier_put platform bucket due_ms pid task f))"

fun pop_buckets :: "string \<Rightarrow> u64 \<Rightarrow> u8 list \<Rightarrow> frontier \<Rightarrow> (u8 \<times> u32 \<times> frontier_task) option \<times> frontier" where
  "pop_buckets platform now [] f = (None, f)"
| "pop_buckets platform now (bucket # bs) f =
     (case range_of (platform, bucket, 0, 0) (platform, bucket, now, - 1) (t_frontier f) of
        ((_, b, due, pid), task) # _ \<Rightarrow>
          (Some (b, pid, task),
           f\<lparr>t_frontier := RBT.delete (platform, b, due, pid) (t_frontier f),
             t_frontier_idx := RBT.delete pid (t_frontier_idx f)\<rparr>)
      | [] \<Rightarrow> pop_buckets platform now bs f)"

definition frontier_pop_due :: "string \<Rightarrow> u64 \<Rightarrow> frontier \<Rightarrow> (u8 \<times> u32 \<times> frontier_task) option \<times> frontier" where
  "frontier_pop_due platform now f = pop_buckets platform now [BUCKET_PRIORITY, BUCKET_OTHER] f"

fun count_capped :: "nat \<Rightarrow> nat \<Rightarrow> 'a list \<Rightarrow> nat" where
  "count_capped cap n [] = n"
| "count_capped cap n (x # xs) = (if n + 1 \<ge> cap then n + 1 else count_capped cap (n + 1) xs)"

definition saturating_sub :: "u64 \<Rightarrow> u64 \<Rightarrow> u64" where
  "saturating_sub a b = (if b \<le> a then a - b else 0)"

definition frontier_overdue_count :: "string \<Rightarrow> u64 \<Rightarrow> u64 \<Rightarrow> nat \<Rightarrow> frontier \<Rightarrow> nat" where
  "frontier_overdue_count platform now grace cap f =
     count_capped cap 0
       (range_of (platform, BUCKET_PRIORITY, 0, 0) (platform, BUCKET_PRIORITY, saturating_sub now grace, - 1)
         (t_frontier f))"

fun next_due_buckets :: "string \<Rightarrow> frontier \<Rightarrow> u64 option \<Rightarrow> u8 list \<Rightarrow> u64 option" where
  "next_due_buckets platform f best [] = best"
| "next_due_buckets platform f best (bucket # bs) =
     (case range_of (platform, bucket, 0, 0) (platform, bucket, - 1, - 1) (t_frontier f) of
        ((_, _, due, _), _) # _ \<Rightarrow>
          next_due_buckets platform f (Some (case best of None \<Rightarrow> due | Some b \<Rightarrow> min b due)) bs
      | [] \<Rightarrow> next_due_buckets platform f best bs)"

definition frontier_next_due :: "string \<Rightarrow> frontier \<Rightarrow> u64 option" where
  "frontier_next_due platform f = next_due_buckets platform f None [BUCKET_PRIORITY, BUCKET_OTHER]"

definition backfill_entries :: "(u32 \<Rightarrow> bool) \<Rightarrow> frontier \<Rightarrow> (string \<times> u64 \<times> u32 \<times> frontier_task) list" where
  "backfill_entries cohort f =
     map (\<lambda>((platform, bucket, due, pid), task). (platform, due, pid, task))
       (filter (\<lambda>((platform, bucket, due, pid), task). \<not> (bucket \<noteq> BUCKET_PRIORITY \<or> \<not> cohort pid))
         (RBT.entries (t_frontier f)))"

definition backfill_one :: "u64 \<Rightarrow> string \<times> u64 \<times> u32 \<times> frontier_task \<Rightarrow> frontier \<Rightarrow> frontier" where
  "backfill_one now = (\<lambda>(platform, due, pid, task) f.
     let f = f\<lparr>t_frontier := RBT.delete (platform, BUCKET_PRIORITY, due, pid) (t_frontier f)\<rparr>
     in f\<lparr>t_frontier := RBT.insert (platform, BUCKET_PRIORITY, now, pid)
            \<lparr>ft_puuid = ft_puuid task, last_visit_ms = DEEP_VISIT_MS\<rparr> (t_frontier f),
          t_frontier_idx := RBT.insert pid
            \<lparr>fk_platform = platform, fk_bucket = BUCKET_PRIORITY, fk_due_ms = now\<rparr> (t_frontier_idx f)\<rparr>)"

definition frontier_backfill_reset :: "(u32 \<Rightarrow> bool) \<Rightarrow> u64 \<Rightarrow> frontier \<Rightarrow> nat \<times> frontier" where
  "frontier_backfill_reset cohort now f =
     (let entries = backfill_entries cohort f in (length entries, fold (backfill_one now) entries f))"

section \<open>One schedule per player\<close>

type_synonym schedule = "string \<times> u8 \<times> u64 \<times> frontier_task"

definition task_key :: "frontier_key \<Rightarrow> u32 \<Rightarrow> task_key" where
  "task_key k pid = (fk_platform k, fk_bucket k, fk_due_ms k, pid)"

text \<open>The abstract view: the schedule of each queued player.\<close>

definition queued :: "frontier \<Rightarrow> u32 \<Rightarrow> schedule option" where
  "queued f pid =
     (case RBT.lookup (t_frontier_idx f) pid of
        None \<Rightarrow> None
      | Some k \<Rightarrow> map_option (\<lambda>task. (fk_platform k, fk_bucket k, fk_due_ms k, task))
          (RBT.lookup (t_frontier f) (task_key k pid)))"

text \<open>The tables agree: each task belongs to the indexed key of its player and each indexed key has its task.\<close>

definition frontier_wf :: "frontier \<Rightarrow> bool" where
  "frontier_wf f \<longleftrightarrow>
     (\<forall>p b d pid task. RBT.lookup (t_frontier f) (p, b, d, pid) = Some task \<longrightarrow>
        RBT.lookup (t_frontier_idx f) pid = Some \<lparr>fk_platform = p, fk_bucket = b, fk_due_ms = d\<rparr>)
     \<and> (\<forall>pid k. RBT.lookup (t_frontier_idx f) pid = Some k \<longrightarrow> RBT.lookup (t_frontier f) (task_key k pid) \<noteq> None)"

definition spec_push :: "string \<Rightarrow> u8 \<Rightarrow> u64 \<Rightarrow> u32 \<Rightarrow> frontier_task \<Rightarrow> (u32 \<Rightarrow> schedule option) \<Rightarrow> u32 \<Rightarrow> schedule option" where
  "spec_push p b d pid task q =
     (case q pid of
        Some (p', b', d', t') \<Rightarrow> if b' \<le> b then q else q(pid \<mapsto> (p, b, d, task))
      | None \<Rightarrow> q(pid \<mapsto> (p, b, d, task)))"

lemma queued_iff:
  assumes "frontier_wf f"
  shows "queued f pid = Some (p, b, d, task) \<longleftrightarrow> RBT.lookup (t_frontier f) (p, b, d, pid) = Some task"
proof
  assume "queued f pid = Some (p, b, d, task)"
  then show "RBT.lookup (t_frontier f) (p, b, d, pid) = Some task"
    by (auto simp: queued_def task_key_def split: option.splits)
next
  assume t: "RBT.lookup (t_frontier f) (p, b, d, pid) = Some task"
  with assms have "RBT.lookup (t_frontier_idx f) pid = Some \<lparr>fk_platform = p, fk_bucket = b, fk_due_ms = d\<rparr>"
    by (simp add: frontier_wf_def)
  with t show "queued f pid = Some (p, b, d, task)" by (simp add: queued_def task_key_def)
qed

lemma queued_None: "frontier_wf f \<Longrightarrow> queued f pid = None \<longleftrightarrow> RBT.lookup (t_frontier_idx f) pid = None"
  by (auto simp: queued_def frontier_wf_def split: option.splits)

lemma empty_frontier_wf: "frontier_wf empty_frontier" "queued empty_frontier = (\<lambda>_. None)"
  by (simp_all add: frontier_wf_def empty_frontier_def queued_def fun_eq_iff)

text \<open>Changing one player: the tables afterwards hold exactly the schedule \<open>s\<close> for \<open>pid\<close>.\<close>

lemma frontier_change:
  assumes wf: "frontier_wf f"
    and idx: "RBT.lookup (t_frontier_idx f') = (RBT.lookup (t_frontier_idx f))
      (pid := map_option (\<lambda>(p, b, d, t). \<lparr>fk_platform = p, fk_bucket = b, fk_due_ms = d\<rparr>) s)"
    and tasks: "\<And>p b d q. RBT.lookup (t_frontier f') (p, b, d, q) =
      (if q = pid then (case s of Some (p', b', d', t) \<Rightarrow> if (p, b, d) = (p', b', d') then Some t else None | None \<Rightarrow> None)
       else RBT.lookup (t_frontier f) (p, b, d, q))"
  shows "frontier_wf f'" "queued f' = (queued f)(pid := s)"
proof -
  show wf': "frontier_wf f'"
    using wf by (auto simp: frontier_wf_def idx tasks task_key_def split: option.splits if_splits)
  show "queued f' = (queued f)(pid := s)"
  proof
    fix q
    show "queued f' q = ((queued f)(pid := s)) q"
      by (cases "q = pid") (auto simp: queued_def idx tasks task_key_def split: option.splits)
  qed
qed

lemma wf_idx:
  "frontier_wf f \<Longrightarrow> RBT.lookup (t_frontier f) (p, b, d, pid) = Some task \<Longrightarrow>
   RBT.lookup (t_frontier_idx f) pid = Some \<lparr>fk_platform = p, fk_bucket = b, fk_due_ms = d\<rparr>"
  by (simp add: frontier_wf_def)

lemma wf_task:
  "frontier_wf f \<Longrightarrow> RBT.lookup (t_frontier_idx f) pid = Some k \<Longrightarrow>
   \<exists>task. RBT.lookup (t_frontier f) (fk_platform k, fk_bucket k, fk_due_ms k, pid) = Some task"
  unfolding frontier_wf_def task_key_def by blast

lemma only_task:
  assumes "frontier_wf f" "RBT.lookup (t_frontier_idx f) pid = Some k"
    and "(p, b, d) \<noteq> (fk_platform k, fk_bucket k, fk_due_ms k)"
  shows "RBT.lookup (t_frontier f) (p, b, d, pid) = None"
  using assms wf_idx[OF assms(1), of p b d pid] by (cases "RBT.lookup (t_frontier f) (p, b, d, pid)") auto

lemma no_task:
  assumes "frontier_wf f" "RBT.lookup (t_frontier_idx f) pid = None"
  shows "RBT.lookup (t_frontier f) (p, b, d, pid) = None"
  using assms wf_idx[OF assms(1), of p b d pid] by (cases "RBT.lookup (t_frontier f) (p, b, d, pid)") auto

lemma put_fresh:
  assumes "frontier_wf f" "RBT.lookup (t_frontier_idx f) pid = None"
  shows "frontier_wf (frontier_put p b d pid task f)"
    and "queued (frontier_put p b d pid task f) = (queued f)(pid \<mapsto> (p, b, d, task))"
  by (rule frontier_change[OF assms(1), of _ pid "Some (p, b, d, task)"];
      auto simp: frontier_put_def no_task[OF assms] fun_eq_iff)+

lemma put_replace:
  assumes "frontier_wf f" "RBT.lookup (t_frontier_idx f) pid = Some ex"
  defines "g \<equiv> f\<lparr>t_frontier := RBT.delete (fk_platform ex, fk_bucket ex, fk_due_ms ex, pid) (t_frontier f)\<rparr>"
  shows "frontier_wf (frontier_put p b d pid task g)"
    and "queued (frontier_put p b d pid task g) = (queued f)(pid \<mapsto> (p, b, d, task))"
  by (rule frontier_change[OF assms(1), of _ pid "Some (p, b, d, task)"];
      auto simp: frontier_put_def g_def only_task[OF assms(1,2)] fun_eq_iff)+

lemma queued_bucket:
  "frontier_wf f \<Longrightarrow> RBT.lookup (t_frontier_idx f) pid = Some k \<Longrightarrow>
   \<exists>task. queued f pid = Some (fk_platform k, fk_bucket k, fk_due_ms k, task)"
  using wf_task[of f pid k] by (auto simp: queued_def task_key_def)

lemma push_refines:
  assumes "frontier_wf f"
  shows "frontier_wf (frontier_push p b d pid task f)"
    and "queued (frontier_push p b d pid task f) = spec_push p b d pid task (queued f)"
proof -
  have "frontier_wf (frontier_push p b d pid task f) \<and>
    queued (frontier_push p b d pid task f) = spec_push p b d pid task (queued f)"
  proof (cases "RBT.lookup (t_frontier_idx f) pid")
    case None
    then show ?thesis using put_fresh[OF assms None] queued_None[OF assms, of pid]
      by (simp add: frontier_push_def spec_push_def)
  next
    case (Some k)
    then show ?thesis using put_replace[OF assms Some] queued_bucket[OF assms Some] assms
      by (auto simp: frontier_push_def spec_push_def)
  qed
  then show "frontier_wf (frontier_push p b d pid task f)"
    "queued (frontier_push p b d pid task f) = spec_push p b d pid task (queued f)" by auto
qed

lemma push_batch_fold:
  "frontier_push_batch p b d items f = fold (\<lambda>(pid, task). frontier_push p b d pid task) items f"
  by (induction items arbitrary: f) (auto simp: frontier_push_def split: option.split)

lemma push_batch_refines:
  assumes "frontier_wf f"
  shows "frontier_wf (frontier_push_batch p b d items f)"
    and "queued (frontier_push_batch p b d items f) = fold (\<lambda>(pid, task). spec_push p b d pid task) items (queued f)"
  using assms unfolding push_batch_fold
  by (induction items arbitrary: f) (auto simp: push_refines)

section \<open>Taking the next due task\<close>

text \<open>The players that may be popped, with the order in which they are: bucket, due time, player.\<close>

definition due_keys :: "string \<Rightarrow> u64 \<Rightarrow> frontier \<Rightarrow> (u8 \<times> u64 \<times> u32) set" where
  "due_keys platform now f =
     {(b, d, pid). b \<in> {BUCKET_PRIORITY, BUCKET_OTHER} \<and> d \<le> now \<and> (\<exists>task. queued f pid = Some (platform, b, d, task))}"

lemma bucket_range:
  "((p::string, b::u8, 0, 0) \<le> (p', b', d', pid') \<and> (p', b', d', pid') \<le> (p, b, now::u64, - 1 :: u32)) \<longleftrightarrow>
     p' = p \<and> b' = b \<and> d' \<le> now"
  by (auto simp: less_eq_prod_def less_prod_def)

lemma pop_found:
  assumes wf: "frontier_wf f" and found: "range_of (p, b, 0, 0) (p, b, now, - 1) (t_frontier f) = ((p', b', d, pid), task) # r"
  shows "p' = p \<and> b' = b \<and> d \<le> now \<and> queued f pid = Some (p, b, d, task)"
    and "queued f pid2 = Some (p, b, d2, task2) \<Longrightarrow> d2 \<le> now \<Longrightarrow> (d, pid) \<le> (d2, pid2)"
proof -
  note h = range_of_hd[OF found]
  have k: "p' = p \<and> b' = b \<and> d \<le> now" using h(2,3) bucket_range[of p b p' b' d pid now] by simp
  then show "p' = p \<and> b' = b \<and> d \<le> now \<and> queued f pid = Some (p, b, d, task)"
    using h(1) queued_iff[OF wf] by simp
  assume q: "queued f pid2 = Some (p, b, d2, task2)" "d2 \<le> now"
  have "(p', b', d, pid) \<le> (p, b, d2, pid2)"
    using h(4)[of "(p, b, d2, pid2)" task2] q queued_iff[OF wf] bucket_range[of p b p b d2 pid2 now] by simp
  then show "(d, pid) \<le> (d2, pid2)" using k by simp
qed

lemma pop_empty:
  assumes "frontier_wf f" "range_of (p, b, 0, 0) (p, b, now, - 1) (t_frontier f) = []"
  shows "queued f pid = Some (p, b, d, task) \<Longrightarrow> \<not> d \<le> now"
  using assms(2) queued_iff[OF assms(1)] bucket_range[of p b p b d pid now] unfolding range_of_Nil by blast

lemma pop_removes:
  assumes wf: "frontier_wf f" and q: "queued f pid = Some (p, b, d, task)"
  defines "g \<equiv> f\<lparr>t_frontier := RBT.delete (p, b, d, pid) (t_frontier f), t_frontier_idx := RBT.delete pid (t_frontier_idx f)\<rparr>"
  shows "frontier_wf g" "queued g = (queued f)(pid := None)"
proof -
  have i: "RBT.lookup (t_frontier_idx f) pid = Some \<lparr>fk_platform = p, fk_bucket = b, fk_due_ms = d\<rparr>"
    using q wf_idx[OF wf] queued_iff[OF wf] by blast
  show "frontier_wf g" "queued g = (queued f)(pid := None)"
    by (rule frontier_change[OF wf, of _ pid None]; auto simp: g_def only_task[OF wf i] fun_eq_iff)+
qed

lemma pop_one_bucket:
  assumes "frontier_wf f" "range_of (p, b, 0, 0) (p, b, now, - 1) (t_frontier f) = ((p', b', d, pid), task) # r"
  shows "pop_buckets p now (b # bs) f =
    (Some (b, pid, task), f\<lparr>t_frontier := RBT.delete (p, b, d, pid) (t_frontier f),
       t_frontier_idx := RBT.delete pid (t_frontier_idx f)\<rparr>)"
  using pop_found(1)[OF assms] assms(2) by simp

lemma pop_none:
  assumes "frontier_wf f" "frontier_pop_due p now f = (None, f')"
  shows "f' = f" "due_keys p now f = {}"
proof -
  from assms(2) have e: "range_of (p, 0, 0, 0) (p, 0, now, - 1) (t_frontier f) = []"
    "range_of (p, 1, 0, 0) (p, 1, now, - 1) (t_frontier f) = []" and "f' = f"
    by (auto simp: frontier_pop_due_def BUCKET_PRIORITY_def BUCKET_OTHER_def split: list.splits)
  then show "f' = f" by simp
  show "due_keys p now f = {}"
    using pop_empty[OF assms(1) e(1)] pop_empty[OF assms(1) e(2)]
    by (auto simp: due_keys_def BUCKET_PRIORITY_def BUCKET_OTHER_def)
qed

lemma due_minimal:
  assumes "queued f pid = Some (p, b, d, task)" "d \<le> now" "b \<in> {BUCKET_PRIORITY, BUCKET_OTHER}"
    and same: "\<And>pid2 d2 task2. queued f pid2 = Some (p, b, d2, task2) \<Longrightarrow> d2 \<le> now \<Longrightarrow> (d, pid) \<le> (d2, pid2)"
    and lower: "\<And>pid2 d2 task2. b \<noteq> BUCKET_PRIORITY \<Longrightarrow> queued f pid2 = Some (p, BUCKET_PRIORITY, d2, task2) \<Longrightarrow> \<not> d2 \<le> now"
  shows "is_arg_min id (\<lambda>k. k \<in> due_keys p now f) (b, d, pid)"
proof -
  have "\<not> (b2, d2, pid2) < (b, d, pid)" if k: "(b2, d2, pid2) \<in> due_keys p now f" for b2 d2 pid2
  proof (cases "b2 = b")
    case True
    then have "(d, pid) \<le> (d2, pid2)" using same k by (auto simp: due_keys_def)
    then have "\<not> (d2, pid2) < (d, pid)" by (simp only: not_less)
    with True show ?thesis by simp
  next
    case False
    with k assms(3) have "b2 = BUCKET_PRIORITY \<and> b = BUCKET_OTHER \<or> b2 = BUCKET_OTHER \<and> b = BUCKET_PRIORITY"
      by (auto simp: due_keys_def)
    then show ?thesis using k lower by (auto simp: due_keys_def less_prod_simp BUCKET_PRIORITY_def BUCKET_OTHER_def)
  qed
  then show ?thesis using assms(1-3) by (auto simp: is_arg_min_def due_keys_def)
qed

lemma pop_some:
  assumes wf: "frontier_wf f" and pop: "frontier_pop_due p now f = (Some (b, pid, task), f')"
  shows "\<exists>d. queued f pid = Some (p, b, d, task) \<and> is_arg_min id (\<lambda>k. k \<in> due_keys p now f) (b, d, pid)"
    and "frontier_wf f'" "queued f' = (queued f)(pid := None)"
proof -
  let ?r = "\<lambda>b. range_of (p, b, 0, 0) (p, b, now, - 1) (t_frontier f)"
  have "\<exists>d. queued f pid = Some (p, b, d, task) \<and> is_arg_min id (\<lambda>k. k \<in> due_keys p now f) (b, d, pid)
    \<and> f' = f\<lparr>t_frontier := RBT.delete (p, b, d, pid) (t_frontier f), t_frontier_idx := RBT.delete pid (t_frontier_idx f)\<rparr>"
  proof (cases "?r 0")
    case (Cons kv r)
    obtain p' b' d pid' task' where kv: "kv = ((p', b', d, pid'), task')" by (metis prod.collapse)
    note found = pop_found[OF wf Cons[unfolded kv]]
    have eqs: "b = 0" "pid' = pid" "task' = task"
      "f' = f\<lparr>t_frontier := RBT.delete (p, b, d, pid) (t_frontier f), t_frontier_idx := RBT.delete pid (t_frontier_idx f)\<rparr>"
      using pop pop_one_bucket[OF wf Cons[unfolded kv]]
      by (auto simp: frontier_pop_due_def BUCKET_PRIORITY_def BUCKET_OTHER_def simp del: pop_buckets.simps)
    have "is_arg_min id (\<lambda>k. k \<in> due_keys p now f) (b, d, pid)"
      by (rule due_minimal[of f pid p b d task]) (use found eqs in \<open>auto simp: BUCKET_PRIORITY_def\<close>)
    with found(1) eqs show ?thesis by blast
  next
    case Nil
    show ?thesis
    proof (cases "?r 1")
      case (Cons kv r)
      obtain p' b' d pid' task' where kv: "kv = ((p', b', d, pid'), task')" by (metis prod.collapse)
      note found = pop_found[OF wf Cons[unfolded kv]]
      have eqs: "b = 1" "pid' = pid" "task' = task"
        "f' = f\<lparr>t_frontier := RBT.delete (p, b, d, pid) (t_frontier f), t_frontier_idx := RBT.delete pid (t_frontier_idx f)\<rparr>"
        using pop Nil pop_one_bucket[OF wf Cons[unfolded kv], of "[]"]
        by (auto simp: frontier_pop_due_def BUCKET_PRIORITY_def BUCKET_OTHER_def)
      have "is_arg_min id (\<lambda>k. k \<in> due_keys p now f) (b, d, pid)"
        by (rule due_minimal[of f pid p b d task])
          (use found eqs pop_empty[OF wf Nil] in \<open>auto simp: BUCKET_PRIORITY_def BUCKET_OTHER_def\<close>)
      with found(1) eqs show ?thesis by blast
    next
      case Nil2: Nil
      with pop Nil show ?thesis by (simp add: frontier_pop_due_def BUCKET_PRIORITY_def BUCKET_OTHER_def)
    qed
  qed
  then show "\<exists>d. queued f pid = Some (p, b, d, task) \<and> is_arg_min id (\<lambda>k. k \<in> due_keys p now f) (b, d, pid)"
    "frontier_wf f'" "queued f' = (queued f)(pid := None)"
    using pop_removes[OF wf] by blast+
qed


section \<open>The contract of the scheduler\<close>

text \<open>A queue of keys from which a consumer takes the smallest ready one.  Whoever drains such a queue gets every
  ready key exactly once and in order.\<close>

locale due_queue =
  fixes pop :: "'s \<Rightarrow> 'r option \<times> 's"
    and ready :: "'s \<Rightarrow> 'k::linorder set"
    and key :: "'s \<Rightarrow> 'r \<Rightarrow> 'k"
    and inv :: "'s \<Rightarrow> bool"
  assumes pop_done: "inv s \<Longrightarrow> pop s = (None, s') \<Longrightarrow> ready s = {} \<and> s' = s"
    and pop_least: "inv s \<Longrightarrow> pop s = (Some r, s') \<Longrightarrow>
      inv s' \<and> key s r \<in> ready s \<and> (\<forall>k \<in> ready s. key s r \<le> k) \<and> ready s' = ready s - {key s r}"
    and ready_finite: "inv s \<Longrightarrow> finite (ready s)"
begin

fun drain :: "nat \<Rightarrow> 's \<Rightarrow> 'k list \<times> 's" where
  "drain 0 s = ([], s)"
| "drain (Suc n) s =
     (case pop s of
        (None, s') \<Rightarrow> ([], s')
      | (Some r, s') \<Rightarrow> (case drain n s' of (ks, s'') \<Rightarrow> (key s r # ks, s'')))"

lemma drain_all:
  "inv s \<Longrightarrow> card (ready s) \<le> n \<Longrightarrow> fst (drain n s) = sorted_list_of_set (ready s) \<and> ready (snd (drain n s)) = {}"
proof (induction n arbitrary: s)
  case 0
  then show ?case using ready_finite[of s] by simp
next
  case (Suc n)
  obtain r s' where p: "pop s = (r, s')" by fastforce
  show ?case
  proof (cases r)
    case None
    with pop_done[OF Suc.prems(1)] p show ?thesis by simp
  next
    case (Some r)
    with p pop_least[OF Suc.prems(1)] have
      l: "inv s'" "key s r \<in> ready s" "\<forall>k \<in> ready s. key s r \<le> k" "ready s' = ready s - {key s r}" by blast+
    have "card (ready s') \<le> n"
      using Suc.prems(2) l(2,4) ready_finite[OF Suc.prems(1)] by (simp add: card_Diff_singleton)
    moreover have "sorted_list_of_set (ready s) = key s r # sorted_list_of_set (ready s')"
    proof -
      have "Min (ready s) = key s r" using l(2,3) ready_finite[OF Suc.prems(1)] by (intro Min_eqI) auto
      then show ?thesis using l(2,4) ready_finite[OF Suc.prems(1)]
        by (metis empty_iff sorted_list_of_set_nonempty)
    qed
    ultimately show ?thesis using Suc.IH[OF l(1)] p Some by (simp add: split_beta)
  qed
qed

lemma drain_ends: "inv s \<Longrightarrow> \<exists>n. ready (snd (drain n s)) = {}"
  using drain_all by blast

end

text \<open>The key of a popped task: its bucket, the due time it was queued with, and the player.\<close>

definition popped_key :: "frontier \<Rightarrow> u8 \<times> u32 \<times> frontier_task \<Rightarrow> u8 \<times> u64 \<times> u32" where
  "popped_key f = (\<lambda>(b, pid, task). (b, (case queued f pid of Some (_, _, d, _) \<Rightarrow> d | None \<Rightarrow> 0), pid))"

lemma due_keys_finite: "finite (due_keys p now f)"
proof (rule finite_subset)
  show "due_keys p now f \<subseteq> {BUCKET_PRIORITY, BUCKET_OTHER} \<times> UNIV \<times> UNIV" by (auto simp: due_keys_def)
qed simp

lemma due_keys_pop:
  assumes "queued f' = (queued f)(pid := None)" "queued f pid = Some (p, b, d, task)"
  shows "due_keys p now f' = due_keys p now f - {(b, d, pid)}"
  using assms by (auto simp: due_keys_def split: if_splits)

interpretation region_queue: due_queue "frontier_pop_due p now" "due_keys p now" popped_key frontier_wf
  for p now
proof
  fix s s' assume "frontier_wf s" "frontier_pop_due p now s = (None, s')"
  then show "due_keys p now s = {} \<and> s' = s" using pop_none by blast
next
  fix s s' r assume wf: "frontier_wf s" and pop: "frontier_pop_due p now s = (Some r, s')"
  obtain b pid task where r: "r = (b, pid, task)" by (metis prod.collapse)
  obtain d where d: "queued s pid = Some (p, b, d, task)" "is_arg_min id (\<lambda>k. k \<in> due_keys p now s) (b, d, pid)"
    using pop_some(1)[OF wf pop[unfolded r]] by blast
  note rest = pop_some(2,3)[OF wf pop[unfolded r]]
  have k: "popped_key s r = (b, d, pid)" using d(1) by (simp add: popped_key_def r)
  show "frontier_wf s' \<and> popped_key s r \<in> due_keys p now s \<and> (\<forall>k\<in>due_keys p now s. popped_key s r \<le> k)
    \<and> due_keys p now s' = due_keys p now s - {popped_key s r}"
    using rest(1) due_keys_pop[OF rest(2) d(1)] d(2) unfolding k by (auto simp: is_arg_min_linorder)
qed (rule due_keys_finite)

end
