(* ===== verification/Frontier_Props.thy ===== *)
theory Frontier_Props
  imports Frontier
begin

text \<open>
  Properties of the crawl frontier: the tables implement one schedule per player, popping serves the due
  players in priority order, and the waiting time, the budget-brake signal and the backfill reset
  are exact.
\<close>

section \<open>Next due time\<close>

definition due_times :: "string \<Rightarrow> frontier \<Rightarrow> u64 set" where
  "due_times p f = {d. \<exists>b pid task. b \<in> {BUCKET_PRIORITY, BUCKET_OTHER} \<and> queued f pid = Some (p, b, d, task)}"

definition bucket_times :: "string \<Rightarrow> u8 \<Rightarrow> frontier \<Rightarrow> u64 set" where
  "bucket_times p b f = {d. \<exists>pid task. queued f pid = Some (p, b, d, task)}"

lemma bucket_first:
  assumes "frontier_wf f"
  shows "case range_of (p, b, 0, 0) (p, b, - 1, - 1) (t_frontier f) of
      [] \<Rightarrow> bucket_times p b f = {}
    | ((_, _, due, _), _) # _ \<Rightarrow> due \<in> bucket_times p b f \<and> (\<forall>d \<in> bucket_times p b f. due \<le> d)"
proof (cases "range_of (p, b, 0, 0) (p, b, - 1, - 1) (t_frontier f)")
  case Nil
  then show ?thesis using pop_empty[OF assms Nil] by (auto simp: bucket_times_def)
next
  case (Cons kv r)
  obtain p' b' d pid task where kv: "kv = ((p', b', d, pid), task)" by (metis prod.collapse)
  note found = pop_found[OF assms Cons[unfolded kv]]
  have "d \<le> d2" if "queued f pid2 = Some (p, b, d2, task2)" for d2 pid2 task2
    using found(2)[OF that] by auto
  with found(1) show ?thesis by (auto simp: Cons kv bucket_times_def)
qed

definition least_opt :: "u64 set \<Rightarrow> u64 option \<Rightarrow> bool" where
  "least_opt S m \<longleftrightarrow> (case m of None \<Rightarrow> S = {} | Some d \<Rightarrow> d \<in> S \<and> (\<forall>x \<in> S. d \<le> x))"

lemma next_due_step:
  assumes "frontier_wf f" "least_opt S best"
  shows "\<exists>best'. next_due_buckets p f best (b # bs) = next_due_buckets p f best' bs \<and> least_opt (S \<union> bucket_times p b f) best'"
proof (cases "range_of (p, b, 0, 0) (p, b, - 1, - 1) (t_frontier f)")
  case Nil
  then show ?thesis using bucket_first[OF assms(1), of p b] assms(2) by (intro exI[of _ best]) simp
next
  case (Cons kv r)
  obtain p' b' d pid task where kv: "kv = ((p', b', d, pid), task)" by (metis prod.collapse)
  have "d \<in> bucket_times p b f" "\<forall>x \<in> bucket_times p b f. d \<le> x"
    using bucket_first[OF assms(1), of p b] by (simp_all add: Cons kv)
  then have "least_opt (S \<union> bucket_times p b f) (Some (case best of None \<Rightarrow> d | Some b \<Rightarrow> min b d))"
    using assms(2) by (auto simp: least_opt_def min_def split: option.splits)
  then show ?thesis by (auto simp: Cons kv)
qed

lemma next_due_least:
  assumes "frontier_wf f"
  shows "least_opt (due_times p f) (frontier_next_due p f)"
proof -
  have "least_opt {} (None :: u64 option)" by (simp add: least_opt_def)
  from next_due_step[OF assms this, of p BUCKET_PRIORITY "[BUCKET_OTHER]"] obtain b1 where
    1: "frontier_next_due p f = next_due_buckets p f b1 [BUCKET_OTHER]" "least_opt (bucket_times p BUCKET_PRIORITY f) b1"
    unfolding frontier_next_due_def by auto
  from next_due_step[OF assms 1(2), of p BUCKET_OTHER "[]"] obtain b2 where
    "frontier_next_due p f = b2" "least_opt (bucket_times p BUCKET_PRIORITY f \<union> bucket_times p BUCKET_OTHER f) b2"
    unfolding 1(1) by auto
  moreover have "due_times p f = bucket_times p BUCKET_PRIORITY f \<union> bucket_times p BUCKET_OTHER f"
    by (auto simp: due_times_def bucket_times_def)
  ultimately show ?thesis by simp
qed

lemma due_keys_times: "due_keys p now f = {} \<longleftrightarrow> (\<forall>d \<in> due_times p f. \<not> d \<le> now)"
  by (auto simp: due_keys_def due_times_def)

lemma pop_fails_iff:
  assumes "frontier_wf f"
  shows "fst (frontier_pop_due p now f) = None \<longleftrightarrow> due_keys p now f = {}"
proof -
  obtain r f' where p: "frontier_pop_due p now f = (r, f')" by fastforce
  show ?thesis
    using pop_none(2)[OF assms, of p now f'] pop_some(1)[OF assms, of p now _ _ _ f'] p
    by (cases r) (auto simp: is_arg_min_def)
qed

section \<open>Counting overdue tasks\<close>

lemma count_capped_eq: "count_capped cap n xs = (if xs = [] then n else min (n + length xs) (max cap (n + 1)))"
  by (induction xs arbitrary: n) (auto simp: min_def max_def)

lemma range_pids:
  assumes "frontier_wf f"
  shows "length (range_of (p, b, 0, 0) (p, b, now, - 1) (t_frontier f)) =
    card {pid. \<exists>d task. queued f pid = Some (p, b, d, task) \<and> d \<le> now}"
proof -
  let ?xs = "range_of (p, b, 0, 0) (p, b, now, - 1) (t_frontier f)"
  let ?pid = "\<lambda>kv :: task_key \<times> frontier_task. snd (snd (snd (fst kv)))"
  have mem: "((p', b', d, pid), task) \<in> set ?xs \<longleftrightarrow> p' = p \<and> b' = b \<and> d \<le> now \<and> queued f pid = Some (p, b, d, task)"
    for p' b' d pid task
    using bucket_range[of p b p' b' d pid now] queued_iff[OF assms] unfolding mem_range_of by blast
  have "inj_on ?pid (set ?xs)"
  proof (rule inj_onI)
    fix x y assume m: "x \<in> set ?xs" "y \<in> set ?xs" "?pid x = ?pid y"
    obtain p1 b1 d1 q1 t1 where x: "x = ((p1, b1, d1, q1), t1)" by (metis prod.collapse)
    obtain p2 b2 d2 q2 t2 where y: "y = ((p2, b2, d2, q2), t2)" by (metis prod.collapse)
    show "x = y" using m mem[of p1 b1 d1 q1 t1] mem[of p2 b2 d2 q2 t2] by (auto simp: x y)
  qed
  moreover have "?pid ` set ?xs = {pid. \<exists>d task. queued f pid = Some (p, b, d, task) \<and> d \<le> now}"
  proof (intro equalityI subsetI)
    fix pid assume "pid \<in> ?pid ` set ?xs"
    then obtain p' b' d task where "((p', b', d, pid), task) \<in> set ?xs" by auto
    then show "pid \<in> {pid. \<exists>d task. queued f pid = Some (p, b, d, task) \<and> d \<le> now}" using mem by blast
  next
    fix pid assume "pid \<in> {pid. \<exists>d task. queued f pid = Some (p, b, d, task) \<and> d \<le> now}"
    then obtain d task where "((p, b, d, pid), task) \<in> set ?xs" using mem by blast
    then show "pid \<in> ?pid ` set ?xs" by force
  qed
  moreover have "distinct ?xs" using range_of_sorted(2) by (rule distinct_of_map)
  ultimately show ?thesis using card_image[of ?pid "set ?xs"] distinct_card[of ?xs] by simp
qed

section \<open>Backfill\<close>

definition deepened :: "u64 \<Rightarrow> schedule \<Rightarrow> schedule" where
  "deepened now = (\<lambda>(p, b, d, task). (p, b, now, \<lparr>ft_puuid = ft_puuid task, last_visit_ms = DEEP_VISIT_MS\<rparr>))"

lemma backfill_one_refines:
  assumes wf: "frontier_wf f" and q: "queued f pid = Some (p, BUCKET_PRIORITY, d, task)"
  shows "frontier_wf (backfill_one now (p, d, pid, task) f)"
    and "queued (backfill_one now (p, d, pid, task) f) = (queued f)(pid \<mapsto> deepened now (p, BUCKET_PRIORITY, d, task))"
proof -
  have i: "RBT.lookup (t_frontier_idx f) pid = Some \<lparr>fk_platform = p, fk_bucket = BUCKET_PRIORITY, fk_due_ms = d\<rparr>"
    using q wf_idx[OF wf] queued_iff[OF wf] by blast
  show "frontier_wf (backfill_one now (p, d, pid, task) f)"
    "queued (backfill_one now (p, d, pid, task) f) = (queued f)(pid \<mapsto> deepened now (p, BUCKET_PRIORITY, d, task))"
    by (rule frontier_change[OF wf, of _ pid "Some (deepened now (p, BUCKET_PRIORITY, d, task))"];
        auto simp: backfill_one_def deepened_def Let_def only_task[OF wf i] fun_eq_iff)+
qed

lemma backfill_fold:
  assumes "frontier_wf f" "distinct (map (\<lambda>(p, d, pid, task). pid) es)"
    and "\<And>p d pid task. (p, d, pid, task) \<in> set es \<Longrightarrow> queued f pid = Some (p, BUCKET_PRIORITY, d, task)"
  shows "frontier_wf (fold (backfill_one now) es f)
    \<and> queued (fold (backfill_one now) es f) =
        (\<lambda>pid. if pid \<in> (\<lambda>(p, d, pid, task). pid) ` set es then map_option (deepened now) (queued f pid) else queued f pid)"
  using assms
proof (induction es arbitrary: f)
  case (Cons e es)
  obtain p d pid task where e: "e = (p, d, pid, task)" by (metis prod.collapse)
  have q: "queued f pid = Some (p, BUCKET_PRIORITY, d, task)" using Cons.prems(3) e by simp
  note one = backfill_one_refines[OF Cons.prems(1) q, of now]
  have "frontier_wf (fold (backfill_one now) es (backfill_one now e f))
    \<and> queued (fold (backfill_one now) es (backfill_one now e f)) =
        (\<lambda>pid. if pid \<in> (\<lambda>(p, d, pid, task). pid) ` set es then map_option (deepened now) (queued (backfill_one now e f) pid)
          else queued (backfill_one now e f) pid)"
  proof (rule Cons.IH)
    fix p2 d2 pid2 task2 assume m: "(p2, d2, pid2, task2) \<in> set es"
    then have "pid2 \<noteq> pid" using Cons.prems(2) e by force
    then show "queued (backfill_one now e f) pid2 = Some (p2, BUCKET_PRIORITY, d2, task2)"
      using m Cons.prems(3) one(2) e by simp
  qed (use Cons.prems(2) one e in auto)
  moreover have "pid \<notin> (\<lambda>(p, d, pid, task). pid) ` set es" using Cons.prems(2) e by auto
  ultimately show ?case using one(2) q e by (auto simp: fun_eq_iff)
qed simp

lemma backfill_entries_mem:
  assumes "frontier_wf f"
  shows "(p, d, pid, task) \<in> set (backfill_entries cohort f) \<longleftrightarrow>
    queued f pid = Some (p, BUCKET_PRIORITY, d, task) \<and> cohort pid"
  using queued_iff[OF assms, of pid p BUCKET_PRIORITY d task]
  by (force simp: backfill_entries_def mem_entries image_iff)

lemma backfill_entries_distinct:
  assumes "frontier_wf f"
  shows "distinct (map (\<lambda>(p, d, pid, task). pid) (backfill_entries cohort f))"
proof -
  let ?ks = "filter (\<lambda>((platform, bucket, due, pid), task). \<not> (bucket \<noteq> BUCKET_PRIORITY \<or> \<not> cohort pid)) (RBT.entries (t_frontier f))"
  have "map (\<lambda>(p, d, pid, task). pid) (backfill_entries cohort f) = map (\<lambda>kv. snd (snd (snd (fst kv)))) ?ks"
    by (simp add: backfill_entries_def split_beta)
  moreover have "distinct ?ks" using RBT.distinct_entries[of "t_frontier f"] by (intro distinct_filter) (rule distinct_of_map)
  moreover have "inj_on (\<lambda>kv. snd (snd (snd (fst kv)))) (set ?ks)"
  proof (rule inj_onI)
    fix x y assume m: "x \<in> set ?ks" "y \<in> set ?ks" "snd (snd (snd (fst x))) = snd (snd (snd (fst y)))"
    obtain p1 b1 d1 q1 t1 where x: "x = ((p1, b1, d1, q1), t1)" by (metis prod.collapse)
    obtain p2 b2 d2 q2 t2 where y: "y = ((p2, b2, d2, q2), t2)" by (metis prod.collapse)
    have "queued f q1 = Some (p1, b1, d1, t1)" "queued f q2 = Some (p2, b2, d2, t2)" "q1 = q2"
      using m queued_iff[OF assms] by (auto simp: x y mem_entries)
    then show "x = y" by (simp add: x y)
  qed
  ultimately show ?thesis by (simp add: distinct_map)
qed

lemma backfill_pids:
  assumes "frontier_wf f"
  shows "(\<lambda>(p, d, pid, task). pid) ` set (backfill_entries cohort f) =
    {pid. cohort pid \<and> (\<exists>p d task. queued f pid = Some (p, BUCKET_PRIORITY, d, task))}" (is "?A = ?B")
proof (intro equalityI subsetI)
  fix pid assume "pid \<in> ?A"
  then obtain p d task where "(p, d, pid, task) \<in> set (backfill_entries cohort f)" by auto
  then show "pid \<in> ?B" using backfill_entries_mem[OF assms] by blast
next
  fix pid assume "pid \<in> ?B"
  then obtain p d task where "(p, d, pid, task) \<in> set (backfill_entries cohort f)"
    using backfill_entries_mem[OF assms] by blast
  then show "pid \<in> ?A" by force
qed

lemma backfill_exact:
  assumes "frontier_wf f" "frontier_backfill_reset cohort now f = (n, f')"
  defines "hit \<equiv> {pid. cohort pid \<and> (\<exists>p d task. queued f pid = Some (p, BUCKET_PRIORITY, d, task))}"
  shows "frontier_wf f'" "n = card hit"
    and "queued f' = (\<lambda>pid. if pid \<in> hit then map_option (deepened now) (queued f pid) else queued f pid)"
proof -
  let ?es = "backfill_entries cohort f"
  have f': "f' = fold (backfill_one now) ?es f" "n = length ?es"
    using assms(2) by (auto simp: frontier_backfill_reset_def Let_def)
  have "frontier_wf f' \<and> queued f' =
    (\<lambda>pid. if pid \<in> (\<lambda>(p, d, pid, task). pid) ` set ?es then map_option (deepened now) (queued f pid) else queued f pid)"
    unfolding f'(1)
    by (rule backfill_fold[OF assms(1) backfill_entries_distinct[OF assms(1)]])
      (use backfill_entries_mem[OF assms(1)] in blast)
  then show "frontier_wf f'" "queued f' = (\<lambda>pid. if pid \<in> hit then map_option (deepened now) (queued f pid) else queued f pid)"
    unfolding backfill_pids[OF assms(1)] hit_def by simp_all
  show "n = card hit"
    using distinct_card[OF backfill_entries_distinct[OF assms(1), of cohort]] backfill_pids[OF assms(1), of cohort]
    by (simp add: f'(2) hit_def)
qed

section \<open>Histories\<close>

text \<open>A history of calls, and what it does to the tables.\<close>

datatype frontier_op =
    FPush string u8 u64 u32 frontier_task
  | FBatch string u8 u64 "(u32 \<times> frontier_task) list"
  | FPop string u64
  | FBackfill "u32 list" u64

datatype frontier_out = OutNone | OutPop "(u8 \<times> u32 \<times> frontier_task) option" | OutCount nat

fun frontier_exec :: "frontier_op \<Rightarrow> frontier \<Rightarrow> frontier_out \<times> frontier" where
  "frontier_exec (FPush p b d pid task) f = (OutNone, frontier_push p b d pid task f)"
| "frontier_exec (FBatch p b d items) f = (OutNone, frontier_push_batch p b d items f)"
| "frontier_exec (FPop p now) f = (case frontier_pop_due p now f of (r, f') \<Rightarrow> (OutPop r, f'))"
| "frontier_exec (FBackfill cohort now) f =
     (case frontier_backfill_reset (\<lambda>pid. pid \<in> set cohort) now f of (n, f') \<Rightarrow> (OutCount n, f'))"

fun frontier_run :: "frontier_op list \<Rightarrow> frontier \<Rightarrow> frontier_out list \<times> frontier" where
  "frontier_run [] f = ([], f)"
| "frontier_run (x # xs) f =
     (case frontier_exec x f of (r, f') \<Rightarrow> (case frontier_run xs f' of (rs, f'') \<Rightarrow> (r # rs, f'')))"

text \<open>The same history on the abstract schedule.\<close>

definition spec_due :: "string \<Rightarrow> u64 \<Rightarrow> (u32 \<Rightarrow> schedule option) \<Rightarrow> (u8 \<times> u64 \<times> u32) set" where
  "spec_due p now q =
     {(b, d, pid). b \<in> {BUCKET_PRIORITY, BUCKET_OTHER} \<and> d \<le> now \<and> (\<exists>task. q pid = Some (p, b, d, task))}"

definition spec_pop ::
  "string \<Rightarrow> u64 \<Rightarrow> (u32 \<Rightarrow> schedule option) \<Rightarrow> (u8 \<times> u32 \<times> frontier_task) option \<times> (u32 \<Rightarrow> schedule option)" where
  "spec_pop p now q =
     (if spec_due p now q = {} then (None, q)
      else case Min (spec_due p now q) of
        (b, d, pid) \<Rightarrow> (map_option (\<lambda>(_, _, _, task). (b, pid, task)) (q pid), q(pid := None)))"

definition spec_hit :: "u32 list \<Rightarrow> (u32 \<Rightarrow> schedule option) \<Rightarrow> u32 set" where
  "spec_hit cohort q = {pid \<in> set cohort. \<exists>p d task. q pid = Some (p, BUCKET_PRIORITY, d, task)}"

fun spec_exec :: "frontier_op \<Rightarrow> (u32 \<Rightarrow> schedule option) \<Rightarrow> frontier_out \<times> (u32 \<Rightarrow> schedule option)" where
  "spec_exec (FPush p b d pid task) q = (OutNone, spec_push p b d pid task q)"
| "spec_exec (FBatch p b d items) q = (OutNone, fold (\<lambda>(pid, task). spec_push p b d pid task) items q)"
| "spec_exec (FPop p now) q = (case spec_pop p now q of (r, q') \<Rightarrow> (OutPop r, q'))"
| "spec_exec (FBackfill cohort now) q =
     (OutCount (card (spec_hit cohort q)),
      \<lambda>pid. if pid \<in> spec_hit cohort q then map_option (deepened now) (q pid) else q pid)"

fun spec_run :: "frontier_op list \<Rightarrow> (u32 \<Rightarrow> schedule option) \<Rightarrow> frontier_out list \<times> (u32 \<Rightarrow> schedule option)" where
  "spec_run [] q = ([], q)"
| "spec_run (x # xs) q =
     (case spec_exec x q of (r, q') \<Rightarrow> (case spec_run xs q' of (rs, q'') \<Rightarrow> (r # rs, q'')))"

lemma spec_due_queued: "spec_due p now (queued f) = due_keys p now f"
  by (simp add: spec_due_def due_keys_def)

lemma pop_refines:
  assumes "frontier_wf f"
  shows "frontier_wf (snd (frontier_pop_due p now f)) \<and>
    map_prod id queued (frontier_pop_due p now f) = spec_pop p now (queued f)"
proof (cases "fst (frontier_pop_due p now f)")
  case None
  then obtain f' where e: "frontier_pop_due p now f = (None, f')" by (metis prod.collapse)
  with pop_none[OF assms e] assms show ?thesis by (simp add: spec_pop_def spec_due_queued)
next
  case (Some r)
  then obtain b pid task f' where e: "frontier_pop_due p now f = (Some (b, pid, task), f')" by (metis prod.collapse)
  obtain d where d: "queued f pid = Some (p, b, d, task)" "is_arg_min id (\<lambda>k. k \<in> due_keys p now f) (b, d, pid)"
    using pop_some(1)[OF assms e] by blast
  then have "Min (due_keys p now f) = (b, d, pid)"
    by (intro Min_eqI due_keys_finite) (auto simp: is_arg_min_linorder)
  moreover have "due_keys p now f \<noteq> {}" using d(2) by (auto simp: is_arg_min_def)
  ultimately show ?thesis using pop_some(2,3)[OF assms e] d(1) e by (simp add: spec_pop_def spec_due_queued)
qed

lemma exec_refines:
  assumes "frontier_wf f"
  shows "frontier_wf (snd (frontier_exec x f)) \<and> map_prod id queued (frontier_exec x f) = spec_exec x (queued f)"
proof (cases x)
  case (FPop p now)
  then show ?thesis using pop_refines[OF assms, of p now]
    by (cases "frontier_pop_due p now f"; cases "spec_pop p now (queued f)") simp
next
  case (FBackfill cohort now)
  obtain n f' where e: "frontier_backfill_reset (\<lambda>pid. pid \<in> set cohort) now f = (n, f')" by fastforce
  show ?thesis using backfill_exact[OF assms e] FBackfill e by (simp add: spec_hit_def)
qed (simp_all add: push_refines push_batch_refines assms)

lemma run_refines:
  "frontier_wf f \<Longrightarrow> frontier_wf (snd (frontier_run ops f)) \<and> map_prod id queued (frontier_run ops f) = spec_run ops (queued f)"
proof (induction ops arbitrary: f)
  case (Cons x xs)
  obtain r f' where e: "frontier_exec x f = (r, f')" by fastforce
  have "frontier_wf f'" "spec_exec x (queued f) = (r, queued f')" using exec_refines[OF Cons.prems, of x] e by auto
  with Cons.IH[of f'] e show ?case by (cases "frontier_run xs f'"; cases "spec_run xs (queued f')") simp
qed simp

abbreviation frontier_after :: "frontier_op list \<Rightarrow> frontier" where
  "frontier_after ops \<equiv> snd (frontier_run ops empty_frontier)"

lemma after_wf: "frontier_wf (frontier_after ops)"
  using run_refines[OF empty_frontier_wf(1)] by blast

section \<open>Properties\<close>

text \<open>C6: The frontier tables implement one schedule per player: for every history of pushes, batch pushes, pops and
  backfill resets, starting from empty tables, each call returns what the abstract schedule returns and the tables hold
  exactly its entries.  In the abstract schedule a push replaces an entry only for a strictly better bucket, a pop
  takes the least due entry by bucket, due time and player, and a backfill reset turns the queued priority tasks
  of cohort members into deep visits due now.\<close>

theorem frontier_implements_schedule:
  "map_prod id queued (frontier_run ops empty_frontier) = spec_run ops (\<lambda>_. None)"
  using run_refines[OF empty_frontier_wf(1)] empty_frontier_wf(2) by simp

text \<open>C29: Draining a region hands out every due player exactly once, in order of bucket, then due time, then
  player id, and terminates: after as many pops as there are due entries none is left.\<close>

theorem drain_serves_due_in_order:
  "let f = frontier_after ops;
       served = due_queue.drain (frontier_pop_due p now) popped_key (card (due_keys p now f)) f
   in fst served = sorted_list_of_set (due_keys p now f) \<and> due_keys p now (snd served) = {}"
  using region_queue.drain_all[OF after_wf order_refl, of p now ops] by (simp add: Let_def)

text \<open>Sleeping until the reported next due time is exact: the reported time is the least due time of the
  region's two buckets (none when both are empty), and a pop finds a task at time \<open>now\<close> exactly when that
  time has come.\<close>

lemma next_due_exact:
  "(case frontier_next_due p (frontier_after ops) of
      None \<Rightarrow> due_times p (frontier_after ops) = {}
    | Some d \<Rightarrow> d = Min (due_times p (frontier_after ops)) \<and> d \<in> due_times p (frontier_after ops))
   \<and> (fst (frontier_pop_due p now (frontier_after ops)) \<noteq> None \<longleftrightarrow>
      (\<exists>d. frontier_next_due p (frontier_after ops) = Some d \<and> d \<le> now))"
proof -
  note least = next_due_least[OF after_wf, of p ops, unfolded least_opt_def]
  have "finite (due_times p (frontier_after ops))" by (rule finite_subset[of _ UNIV]) auto
  then have 1: "case frontier_next_due p (frontier_after ops) of
      None \<Rightarrow> due_times p (frontier_after ops) = {}
    | Some d \<Rightarrow> d = Min (due_times p (frontier_after ops)) \<and> d \<in> due_times p (frontier_after ops)"
    using least by (auto split: option.splits intro!: Min_eqI[symmetric])
  have "fst (frontier_pop_due p now (frontier_after ops)) \<noteq> None \<longleftrightarrow> (\<exists>d \<in> due_times p (frontier_after ops). d \<le> now)"
    unfolding pop_fails_iff[OF after_wf] due_keys_times by blast
  also have "\<dots> \<longleftrightarrow> (\<exists>d. frontier_next_due p (frontier_after ops) = Some d \<and> d \<le> now)"
    using least by (force split: option.splits intro: order_trans)
  finally show ?thesis using 1 by blast
qed

text \<open>The budget-brake signal counts the players of the region whose priority task is overdue by more than the grace
  period, capped at \<open>cap\<close> (a cap of zero still reports one).\<close>

lemma overdue_count_exact:
  "frontier_overdue_count p now grace cap (frontier_after ops) =
     min (card {pid. \<exists>d task. queued (frontier_after ops) pid = Some (p, BUCKET_PRIORITY, d, task)
                        \<and> d \<le> saturating_sub now grace}) (max cap 1)"
  unfolding frontier_overdue_count_def count_capped_eq range_pids[OF after_wf, symmetric] by simp

end
