(* ===== verification/Varint.thy ===== *)
theory Varint
  imports Crawl_Prelude
begin

unbundle bit_operations_syntax

text \<open>
  The primitive codecs of \<^verbatim>\<open>crates/server/src/columnar.rs\<close>: protobuf varints, zigzag,
  checked deltas and the range checks of the decoder.  A Rust writer pushes bytes onto
  an \<^verbatim>\<open>out: &mut Vec<u8>\<close>; its model returns the bytes pushed, and the caller appends
  them.  A Rust reader advances a \<^verbatim>\<open>pos: &mut usize\<close>; its model returns the new
  position beside the value.
\<close>

datatype col_error =
    TruncatedVarint
  | VarintOverflow
  | VarintTooLong
  | ExceedsU32
  | DeltaExceedsI64
  | DeltaOutsideRange
  | TruncatedHeader
  | BadMagic
  | UnsupportedVersion
  | TooManyColumns
  | TruncatedManifest
  | ColumnLengthsOverflow
  | TruncatedColumnData
  | TrailingBytes
  | ManifestCountMismatch
  | ByteLengthOverflow
  | TruncatedBytes
  | MissingStatColumn nat
  | MissingRuneColumn nat
  | UnconsumedBytes
  | NotABool
  | InputDecodeFailed nat
  | SelfCheckCount
  | SelfCheckMismatch nat

section \<open>Varints\<close>

function write_varint :: "u64 \<Rightarrow> bytes" where
  "write_varint v =
     (let byte = ucast (v AND 0x7f) :: u8; v' = drop_bit 7 v in
      if v' = 0 then [byte] else (byte OR 0x80) # write_varint v')"
  by pat_completeness auto
termination
proof (relation "measure unat", goal_cases)
  case (2 v x xa)
  then have "v \<noteq> 0" by auto
  with 2 show ?case by (simp add: unat_drop_bit_less)
qed simp

declare write_varint.simps [simp del]

function read_varint_loop :: "bytes \<Rightarrow> nat \<Rightarrow> nat \<Rightarrow> u64 \<Rightarrow> col_error + (u64 \<times> nat)" where
  "read_varint_loop bs idx pos out =
     (if idx < 10 then
        if pos < length bs then
          let byte = bs ! pos; pos = pos + 1 in
          if idx = 9 \<and> byte AND 0xfe \<noteq> 0 then Inl VarintOverflow
          else
            let out = out OR push_bit (idx * 7) (ucast (byte AND 0x7f)) in
            if byte AND 0x80 = 0 then Inr (out, pos)
            else read_varint_loop bs (idx + 1) pos out
        else Inl TruncatedVarint
      else Inl VarintTooLong)"
  by pat_completeness auto
termination
  by (relation "measure (\<lambda>(bs, idx, pos, out). 10 - idx)") auto

declare read_varint_loop.simps [simp del]

definition read_varint_at :: "bytes \<Rightarrow> nat \<Rightarrow> col_error + (u64 \<times> nat)" where
  "read_varint_at bs pos = read_varint_loop bs 0 pos 0"

section \<open>Zigzag\<close>

definition zigzag_i64 :: "i64 \<Rightarrow> u64" where
  "zigzag_i64 v = push_bit 1 v XOR signed_drop_bit 63 v"

definition unzigzag_i64 :: "u64 \<Rightarrow> i64" where
  "unzigzag_i64 v = drop_bit 1 v XOR - (v AND 1)"

section \<open>Range checks and deltas\<close>

definition read_u32 :: "u64 \<Rightarrow> col_error + u32" where
  "read_u32 v = (if unat v < 2 ^ 32 then Inr (ucast v) else Inl ExceedsU32)"

definition delta_u64 :: "u64 \<Rightarrow> u64 \<Rightarrow> col_error + i64" where
  "delta_u64 v prev =
     (let delta = uint v - uint prev in
      if - (2 ^ 63) \<le> delta \<and> delta < 2 ^ 63 then Inr (word_of_int delta) else Inl DeltaExceedsI64)"

definition add_delta_u64 :: "u64 \<Rightarrow> i64 \<Rightarrow> col_error + u64" where
  "add_delta_u64 prev delta =
     (let v = uint prev + sint delta in
      if 0 \<le> v \<and> v \<le> 2 ^ 64 - 1 then Inr (word_of_int v) else Inl DeltaOutsideRange)"

definition delta_i64 :: "i64 \<Rightarrow> i64 \<Rightarrow> col_error + i64" where
  "delta_i64 v prev =
     (let delta = sint v - sint prev in
      if - (2 ^ 63) \<le> delta \<and> delta < 2 ^ 63 then Inr (word_of_int delta) else Inl DeltaExceedsI64)"

definition add_delta_i64 :: "i64 \<Rightarrow> i64 \<Rightarrow> col_error + i64" where
  "add_delta_i64 prev delta =
     (let v = sint prev + sint delta in
      if - (2 ^ 63) \<le> v \<and> v \<le> 2 ^ 63 - 1 then Inr (word_of_int v) else Inl DeltaOutsideRange)"

definition add_delta_u32 :: "u32 \<Rightarrow> i64 \<Rightarrow> col_error + u32" where
  "add_delta_u32 prev delta =
     (let v = uint prev + sint delta in
      if 0 \<le> v \<and> v \<le> 2 ^ 32 - 1 then Inr (word_of_int v) else Inl DeltaOutsideRange)"

section \<open>Zigzag is a bijection\<close>

lemma minus_and_one: "- (z AND 1 :: 64 word) = (if bit z 0 then - 1 else 0)"
  by (cases "odd z") (simp_all add: and_one_eq bit_0 mod_2_eq_odd)

lemma bit_zigzag: "n < 64 \<Longrightarrow> bit (zigzag_i64 v) n = ((0 < n \<and> bit v (n - 1)) \<noteq> bit v 63)"
  unfolding zigzag_i64_def bit_xor_iff bit_push_bit_iff bit_signed_drop_bit_iff
  by (auto simp: not_le)

lemma bit_unzigzag: "n < 64 \<Longrightarrow> bit (unzigzag_i64 z) n = ((n < 63 \<and> bit z (n + 1)) \<noteq> bit z 0)"
  using bit_imp_le_length[of z "Suc n"]
  by (auto simp: unzigzag_i64_def minus_and_one bit_simps)

lemma unzigzag_zigzag: "unzigzag_i64 (zigzag_i64 v) = v"
proof (rule bit_word_eqI)
  fix n assume "n < LENGTH(64)"
  then have "n < 63 \<or> n = 63" by auto
  then show "bit (unzigzag_i64 (zigzag_i64 v)) n = bit v n"
    by (auto simp: bit_unzigzag bit_zigzag)
qed

lemma zigzag_unzigzag: "zigzag_i64 (unzigzag_i64 z) = z"
proof (rule bit_word_eqI)
  fix n assume "n < LENGTH(64)"
  then have "n < 64" by simp
  then show "bit (zigzag_i64 (unzigzag_i64 z)) n = bit z n"
    by (cases n) (auto simp: bit_unzigzag bit_zigzag)
qed


section \<open>Reading back a written varint\<close>

lemma bit_0x80: "bit (0x80 :: u8) n \<longleftrightarrow> n = 7" "bit (0x80 :: nat) n \<longleftrightarrow> n = 7" "bit (0x80 :: int) n \<longleftrightarrow> n = 7"
proof -
  have "(0x80 :: u8) = 2 ^ 7" "(0x80 :: nat) = 2 ^ 7" "(0x80 :: int) = 2 ^ 7" by simp_all
  then show "bit (0x80 :: u8) n \<longleftrightarrow> n = 7" "bit (0x80 :: nat) n \<longleftrightarrow> n = 7"
    "bit (0x80 :: int) n \<longleftrightarrow> n = 7" by (simp_all only: bit_exp_iff) auto
qed

lemma mask_0x7f: "(0x7f :: u8) = mask 7" "(0x7f :: u64) = mask 7"
  by (simp_all add: mask_eq_exp_minus_1)

lemma byte_low7:
  "(ucast ((ucast (v AND 0x7f) :: u8) AND 0x7f) :: u64) = v AND 0x7f"
  "(ucast (((ucast (v AND 0x7f) :: u8) OR 0x80) AND 0x7f) :: u64) = v AND 0x7f"
  unfolding mask_0x7f by (rule bit_word_eqI, auto simp: bit_simps bit_0x80)+

lemma byte_flag:
  "(ucast (v AND 0x7f :: u64) :: u8) AND 0x80 = 0"
  "((ucast (v AND 0x7f :: u64) :: u8) OR 0x80) AND 0x80 \<noteq> 0"
proof -
  show "(ucast (v AND 0x7f :: u64) :: u8) AND 0x80 = 0"
    unfolding mask_0x7f by (rule bit_word_eqI) (auto simp: bit_simps bit_0x80)
  have "bit (((ucast (v AND 0x7f :: u64) :: u8) OR 0x80) AND 0x80) 7"
    unfolding mask_0x7f by (auto simp: bit_simps bit_0x80)
  then show "((ucast (v AND 0x7f :: u64) :: u8) OR 0x80) AND 0x80 \<noteq> 0" by auto
qed

lemma drop_ConsD: "drop pos bs = x # xs \<Longrightarrow> pos < length bs \<and> bs ! pos = x \<and> drop (pos + 1) bs = xs"
  by (cases "pos < length bs") (auto simp flip: Cons_nth_drop_Suc)

lemma read_write_loop:
  "drop pos bs = write_varint v @ post \<Longrightarrow> idx < 10 \<Longrightarrow> unat v < 2 ^ (64 - 7 * idx) \<Longrightarrow>
   read_varint_loop bs idx pos out =
     Inr (out OR push_bit (7 * idx) v, pos + length (write_varint v))"
proof (induction v arbitrary: idx pos out rule: write_varint.induct)
  case (1 v)
  define byte where "byte = (ucast (v AND 0x7f) :: u8)"
  have m: "(0x7f :: u64) = mask 7" by (simp add: mask_eq_exp_minus_1)
  show ?case
  proof (cases "drop_bit 7 v = 0")
    case True
    then have w: "write_varint v = [byte]"
      by (subst write_varint.simps) (simp add: byte_def Let_def)
    then have at: "pos < length bs" "bs ! pos = byte"
      using "1.prems"(1) by (auto dest: drop_ConsD)
    have v: "v AND 0x7f = v" unfolding m using True word_split_bits[of v 7] by simp
    have "unat v < 2" if "idx = 9" using that "1.prems"(3) by simp
    then have "byte AND 0xfe = 0" if "idx = 9"
    proof -
      have "v = 0 \<or> v = 1" using that \<open>idx = 9 \<Longrightarrow> unat v < 2\<close>
        by (metis less_2_cases unat_eq_zero unat_1 word_unat_eq_iff One_nat_def)
      then show ?thesis by (auto simp: byte_def)
    qed
    moreover have "(ucast (byte AND 0x7f) :: u64) = v" "byte AND 0x80 = 0"
      using byte_low7(1)[of v] byte_flag(1)[of v] v by (simp_all add: byte_def)
    ultimately show ?thesis using "1.prems"(2) at w
      by (subst read_varint_loop.simps) (simp add: Let_def mult.commute)
  next
    case False
    then have w: "write_varint v = (byte OR 0x80) # write_varint (drop_bit 7 v)"
      by (subst write_varint.simps) (simp add: byte_def Let_def)
    then have at: "pos < length bs" "bs ! pos = byte OR 0x80"
      and rest: "drop (pos + 1) bs = write_varint (drop_bit 7 v) @ post"
      using "1.prems"(1) by (auto dest: drop_ConsD)
    have small: "unat (drop_bit 7 v) = unat v div 2 ^ 7"
      unfolding unat_drop_bit_eq by (simp add: drop_bit_eq_div)
    have idx: "idx < 9"
    proof (rule ccontr)
      assume "\<not> idx < 9"
      then have "unat v < 2" using "1.prems"(2,3) by (cases "idx = 9") auto
      then have "unat (drop_bit 7 v) = 0" using small by simp
      with False show False by (simp add: unat_eq_zero)
    qed
    have bound: "unat (drop_bit 7 v) < 2 ^ (64 - 7 * (idx + 1))"
    proof -
      have "64 - 7 * idx = (64 - 7 * (idx + 1)) + 7" using idx by simp
      then have "(2::nat) ^ (64 - 7 * idx) = 2 ^ (64 - 7 * (idx + 1)) * 2 ^ 7"
        by (simp only: power_add)
      with "1.prems"(3) show ?thesis unfolding small
        by (simp add: less_mult_imp_div_less)
    qed
    have "(out OR push_bit (idx * 7) (v AND 0x7f)) OR push_bit (7 * (idx + 1)) (drop_bit 7 v)
        = out OR push_bit (idx * 7) ((v AND 0x7f) OR push_bit 7 (drop_bit 7 v))"
      by (simp add: push_bit_or or.assoc mult.commute add.commute)
    also have "\<dots> = out OR push_bit (7 * idx) v"
      unfolding m word_split_bits by (simp add: mult.commute)
    finally have comb: "(out OR push_bit (idx * 7) (v AND 0x7f)) OR push_bit (7 * (idx + 1)) (drop_bit 7 v)
        = out OR push_bit (7 * idx) v" .
    have "read_varint_loop bs (idx + 1) (pos + 1) (out OR push_bit (idx * 7) (v AND 0x7f)) =
       Inr (out OR push_bit (7 * idx) v, pos + 1 + length (write_varint (drop_bit 7 v)))"
      using "1.IH"[OF refl refl False rest _ bound, of "out OR push_bit (idx * 7) (v AND 0x7f)"] idx
      by (simp only: comb)
    then show ?thesis using at w idx
      by (subst read_varint_loop.simps)
         (simp add: byte_low7 byte_flag byte_def)
  qed
qed


lemma read_varint_write:
  assumes "drop pos bs = write_varint v @ post"
  shows "read_varint_at bs pos = Inr (v, pos + length (write_varint v))"
  using read_write_loop[OF assms, of 0 0] unsigned_less[of v, where ?'a = nat] by (simp add: read_varint_at_def)

lemma write_varint_not_Nil [simp]: "write_varint v \<noteq> []"
  by (subst write_varint.simps) (simp add: Let_def)

lemma read_varint_loop_len:
  "read_varint_loop bs idx pos out = Inr (v, pos') \<Longrightarrow> pos' \<le> pos + (10 - idx)"
proof (induction bs idx pos out rule: read_varint_loop.induct)
  case (1 bs idx pos out)
  show ?case using "1.prems" "1.IH"
    by (subst (asm) read_varint_loop.simps)
       (fastforce simp: Let_def split: if_splits)
qed

lemma length_write_varint: "length (write_varint v) \<le> 10"
  using read_varint_write[of 0 "write_varint v" v "[]"] read_varint_loop_len[of "write_varint v" 0 0 0 v]
  by (auto simp: read_varint_at_def)

lemma read_varint_loop_Inr_pos:
  "read_varint_loop bs idx pos out = Inr (v, pos') \<Longrightarrow> pos < pos' \<and> pos' \<le> length bs"
proof (induction bs idx pos out rule: read_varint_loop.induct)
  case (1 bs idx pos out)
  show ?case using "1.prems" "1.IH"
    by (subst (asm) read_varint_loop.simps)
       (fastforce simp: Let_def split: if_splits)
qed

lemma last_byte_ends: "(byte :: u8) AND 0xfe = 0 \<Longrightarrow> byte AND 0x80 = 0"
proof -
  assume "byte AND 0xfe = 0"
  moreover have "byte AND 0x80 = (byte AND 0xfe) AND 0x80" by (simp only: and.assoc) simp
  ultimately show ?thesis by simp
qed

lemma read_varint_loop_errors:
  "idx < 10 \<Longrightarrow> read_varint_loop bs idx pos out = Inl e \<Longrightarrow> e = TruncatedVarint \<or> e = VarintOverflow"
proof (induction bs idx pos out rule: read_varint_loop.induct)
  case (1 bs idx pos out)
  show ?case
  proof (cases "idx = 9")
    case True
    then show ?thesis using last_byte_ends "1.prems"
      by (subst (asm) read_varint_loop.simps) (auto simp: Let_def split: if_splits)
  next
    case False
    then have "idx + 1 < 10" using "1.prems" by simp
    then show ?thesis using "1.IH" "1.prems"
      by (subst (asm) read_varint_loop.simps) (auto simp: Let_def split: if_splits)
  qed
qed

section \<open>Deltas invert\<close>

lemma sint_word_of_int_64:
  "- (2 ^ 63) \<le> d \<Longrightarrow> d < 2 ^ 63 \<Longrightarrow> sint (word_of_int d :: 64 word) = d"
  unfolding sint_sbintrunc' by (rule signed_take_bit_int_eq_self) simp_all

lemma sint_range_64: "- (2 ^ 63) \<le> sint (v :: 64 word)" "sint (v :: 64 word) < 2 ^ 63"
  using sint_ge[of v] sint_lt[of v] by simp_all

lemma read_u32_ucast [simp]: "read_u32 (ucast (v :: u32)) = Inr v"
proof -
  have "unat (ucast v :: u64) < 2 ^ 32"
    using unsigned_less[of v, where ?'a = nat] by (simp add: unsigned_ucast_eq take_bit_nat_eq_self)
  moreover have "(ucast (ucast v :: u64) :: u32) = v"
    by (rule bit_word_eqI) (auto simp: bit_simps)
  ultimately show ?thesis by (simp add: read_u32_def)
qed

lemma delta_u64_eq: "delta_u64 v prev = Inr d \<Longrightarrow> sint d = uint v - uint prev"
  unfolding delta_u64_def Let_def
  by (metis Inl_Inr_False Inr_inject sint_word_of_int_64)

lemma delta_i64_eq: "delta_i64 v prev = Inr d \<Longrightarrow> sint d = sint v - sint prev"
  unfolding delta_i64_def Let_def
  by (metis Inl_Inr_False Inr_inject sint_word_of_int_64)

lemma add_delta_u64_delta: "delta_u64 v prev = Inr d \<Longrightarrow> add_delta_u64 prev d = Inr v"
  using unsigned_less[of v, where ?'a = int] by (simp add: add_delta_u64_def delta_u64_eq)

lemma add_delta_i64_delta: "delta_i64 v prev = Inr d \<Longrightarrow> add_delta_i64 prev d = Inr v"
  using sint_range_64[of v] by (simp add: add_delta_i64_def delta_i64_eq)

lemma add_delta_u32_diff: "add_delta_u32 prev (ucast v - ucast prev) = Inr v"
proof -
  have u: "0 \<le> uint v" "uint v < 2 ^ 32" "0 \<le> uint prev" "uint prev < 2 ^ 32"
    using unsigned_less[of v, where ?'a = int] unsigned_less[of prev, where ?'a = int] by simp_all
  have "(2::int) ^ 32 \<le> 2 ^ 63" by simp
  with u have "- (2 ^ 63) \<le> uint v - uint prev" "uint v - uint prev < 2 ^ 63" by linarith+
  then have "sint (word_of_int (uint v - uint prev) :: i64) = uint v - uint prev"
    by (rule sint_word_of_int_64)
  moreover have "(word_of_int (uint v - uint prev) :: i64) = ucast v - ucast prev"
    by simp
  ultimately have "sint (ucast v - ucast prev :: i64) = uint v - uint prev" by simp
  then show ?thesis using u by (simp add: add_delta_u32_def)
qed

section \<open>Properties\<close>

text \<open>\<^verbatim>\<open>read_varint_at\<close> inverts \<^verbatim>\<open>write_varint\<close>: whatever bytes surround it, a varint
  written at a position is read back as the same 64-bit value, and the reader stops
  right after its last byte.\<close>

lemma varint_roundtrip:
  "read_varint_at (pre @ write_varint v @ post) (length pre) =
     Inr (v, length pre + length (write_varint v))"
  by (rule read_varint_write) simp

text \<open>zigzag maps the 64-bit signed values one-to-one onto the unsigned ones, and
  \<^verbatim>\<open>unzigzag_i64\<close> is its inverse in both directions.\<close>

lemma zigzag_bijection:
  "unzigzag_i64 (zigzag_i64 v) = v \<and> zigzag_i64 (unzigzag_i64 z) = z"
  by (simp add: unzigzag_zigzag zigzag_unzigzag)

text \<open>the reader either fails for lack of bytes or overflow, or returns a value
  after consuming at least one byte within the buffer; the \<^verbatim>\<open>varint too long\<close> exit
  below the ten-byte loop is unreachable.\<close>

lemma read_varint_outcomes:
  "(case read_varint_at bs pos of
      Inl e \<Rightarrow> e = TruncatedVarint \<or> e = VarintOverflow
    | Inr (v, pos') \<Rightarrow> pos < pos' \<and> pos' \<le> length bs)"
  using read_varint_loop_errors[of 0 bs pos 0] read_varint_loop_Inr_pos[of bs 0 pos 0]
  by (auto simp: read_varint_at_def split: sum.splits)

end
