(* ===== verification/Column_Streams.thy ===== *)
theory Column_Streams
  imports Varint
begin

text \<open>
  The column streams of \<^verbatim>\<open>crates/server/src/columnar.rs\<close>: the writer \<^verbatim>\<open>Cols\<close>, the readers
  \<^verbatim>\<open>ColReader\<close>/\<^verbatim>\<open>ColReaders\<close>, and the reader actions as a state-and-error monad over
  \<open>col_readers\<close>.  The second half is the calculus used for the codec: a sequence of
  tokens says which bytes go to which column; \<open>writes f ts\<close> says that the writer step \<open>f\<close>
  appends exactly the tokens \<open>ts\<close>; \<open>runs m ts v\<close> says that the reader action \<open>m\<close>, started
  where the columns hold \<open>ts\<close>, consumes exactly \<open>ts\<close> and returns \<open>v\<close>.  The locale
  \<open>item_codec\<close> lifts a codec of one item to the loops over a list of items.
\<close>

section \<open>Writer\<close>

record cols =
  cfixed :: "bytes list"
  cstat :: "bytes list"
  crune :: "bytes list"

definition NMISC :: nat where
  "NMISC = 50"

definition cols_new :: cols where
  "cols_new = \<lparr>cfixed = replicate NMISC [], cstat = [], crune = []\<rparr>"

definition push_to :: "nat \<Rightarrow> bytes \<Rightarrow> bytes list \<Rightarrow> bytes list" where
  "push_to i bs xs = xs[i := xs ! i @ bs]"

definition wv :: "nat \<Rightarrow> u64 \<Rightarrow> cols \<Rightarrow> cols" where
  "wv col v c = c\<lparr>cfixed := push_to col (write_varint v) (cfixed c)\<rparr>"

definition wz :: "nat \<Rightarrow> i64 \<Rightarrow> cols \<Rightarrow> cols" where
  "wz col v c = wv col (zigzag_i64 v) c"

definition wbytes :: "nat \<Rightarrow> bytes \<Rightarrow> cols \<Rightarrow> cols" where
  "wbytes col bs c = c\<lparr>cfixed := push_to col bs (cfixed c)\<rparr>"

function grow_to :: "nat \<Rightarrow> bytes list \<Rightarrow> bytes list" where
  "grow_to idx xs = (if length xs \<le> idx then grow_to idx (xs @ [[]]) else xs)"
  by pat_completeness auto
termination
  by (relation "measure (\<lambda>(idx, xs). Suc idx - length xs)") auto

declare grow_to.simps [simp del]

definition wrune :: "nat \<Rightarrow> u64 \<Rightarrow> cols \<Rightarrow> cols" where
  "wrune idx v c = c\<lparr>crune := push_to idx (write_varint v) (grow_to idx (crune c))\<rparr>"

definition wstat_z :: "nat \<Rightarrow> i64 \<Rightarrow> cols \<Rightarrow> cols" where
  "wstat_z idx v c = c\<lparr>cstat := push_to idx (write_varint (zigzag_i64 v)) (grow_to idx (cstat c))\<rparr>"

text \<open>The Rust \<^verbatim>\<open>for (idx, x) in xs.iter().enumerate()\<close> over a mutable state.\<close>

fun for_each :: "(nat \<Rightarrow> 'a \<Rightarrow> 's \<Rightarrow> 's) \<Rightarrow> nat \<Rightarrow> 'a list \<Rightarrow> 's \<Rightarrow> 's" where
  "for_each body idx [] s = s"
| "for_each body idx (x # xs) s = for_each body (Suc idx) xs (body idx x s)"

section \<open>Reader\<close>

record col_reader =
  rbytes :: bytes
  rpos :: nat

record col_readers =
  rfixed :: "col_reader list"
  rstat :: "col_reader list"
  rrune :: "col_reader list"

type_synonym 'a rd = "col_readers \<Rightarrow> col_error + ('a \<times> col_readers)"

definition rd_ret :: "'a \<Rightarrow> 'a rd" where
  "rd_ret v rs = Inr (v, rs)"

definition rd_bind :: "'a rd \<Rightarrow> ('a \<Rightarrow> 'b rd) \<Rightarrow> 'b rd" where
  "rd_bind m f rs = (case m rs of Inl e \<Rightarrow> Inl e | Inr (v, rs') \<Rightarrow> f v rs')"

definition rd_lift :: "col_error + 'a \<Rightarrow> 'a rd" where
  "rd_lift r rs = (case r of Inl e \<Rightarrow> Inl e | Inr v \<Rightarrow> Inr (v, rs))"

definition col_reader_new :: "bytes \<Rightarrow> col_reader" where
  "col_reader_new bs = \<lparr>rbytes = bs, rpos = 0\<rparr>"

definition reader_varint :: "col_reader \<Rightarrow> col_error + (u64 \<times> col_reader)" where
  "reader_varint r =
     (case read_varint_at (rbytes r) (rpos r) of
        Inl e \<Rightarrow> Inl e
      | Inr (v, pos) \<Rightarrow> Inr (v, r\<lparr>rpos := pos\<rparr>))"

definition reader_bytes :: "nat \<Rightarrow> col_reader \<Rightarrow> col_error + (bytes \<times> col_reader)" where
  "reader_bytes len r =
     (let end = rpos r + len in
      if end \<ge> 2 ^ 64 then Inl ByteLengthOverflow
      else if end \<le> length (rbytes r)
      then Inr (take len (drop (rpos r) (rbytes r)), r\<lparr>rpos := end\<rparr>)
      else Inl TruncatedBytes)"

definition rv :: "nat \<Rightarrow> u64 rd" where
  "rv col rs =
     (case reader_varint (rfixed rs ! col) of
        Inl e \<Rightarrow> Inl e
      | Inr (v, r) \<Rightarrow> Inr (v, rs\<lparr>rfixed := (rfixed rs)[col := r]\<rparr>))"

definition rz :: "nat \<Rightarrow> i64 rd" where
  "rz col = rd_bind (rv col) (\<lambda>v. rd_ret (unzigzag_i64 v))"

definition rbytes_col :: "nat \<Rightarrow> nat \<Rightarrow> bytes rd" where
  "rbytes_col col len rs =
     (case reader_bytes len (rfixed rs ! col) of
        Inl e \<Rightarrow> Inl e
      | Inr (v, r) \<Rightarrow> Inr (v, rs\<lparr>rfixed := (rfixed rs)[col := r]\<rparr>))"

definition rstat_z :: "nat \<Rightarrow> i64 rd" where
  "rstat_z idx rs =
     (if idx < length (rstat rs)
      then (case reader_varint (rstat rs ! idx) of
              Inl e \<Rightarrow> Inl e
            | Inr (v, r) \<Rightarrow> Inr (unzigzag_i64 v, rs\<lparr>rstat := (rstat rs)[idx := r]\<rparr>))
      else Inl (MissingStatColumn idx))"

definition rrune_v :: "nat \<Rightarrow> u64 rd" where
  "rrune_v idx rs =
     (if idx < length (rrune rs)
      then (case reader_varint (rrune rs ! idx) of
              Inl e \<Rightarrow> Inl e
            | Inr (v, r) \<Rightarrow> Inr (v, rs\<lparr>rrune := (rrune rs)[idx := r]\<rparr>))
      else Inl (MissingRuneColumn idx))"

text \<open>\<^verbatim>\<open>read_u32(cols.rv(col)?, ..)?\<close> and \<^verbatim>\<open>to_usize(cols.rv(col)?, ..)?\<close>, the two ways the decoder
  reads a count or a field; \<^verbatim>\<open>usize\<close> has 64 bits, so \<^verbatim>\<open>to_usize\<close> never fails.\<close>

definition rv_u32 :: "nat \<Rightarrow> u32 rd" where
  "rv_u32 col = rd_bind (rv col) (\<lambda>v. rd_lift (read_u32 v))"

definition rv_usize :: "nat \<Rightarrow> nat rd" where
  "rv_usize col = rd_bind (rv col) (\<lambda>v. rd_ret (unat v))"

definition reader_done :: "col_reader \<Rightarrow> bool" where
  "reader_done r \<longleftrightarrow> rpos r = length (rbytes r)"

definition ensure_done :: "col_readers \<Rightarrow> col_error + unit" where
  "ensure_done rs =
     (if list_all reader_done (rfixed rs) \<and> list_all reader_done (rstat rs)
         \<and> list_all reader_done (rrune rs)
      then Inr () else Inl UnconsumedBytes)"

text \<open>The Rust \<^verbatim>\<open>for idx in 0..n\<close> whose body may fail.\<close>

primrec for_range :: "(nat \<Rightarrow> 's \<Rightarrow> 's rd) \<Rightarrow> nat \<Rightarrow> nat \<Rightarrow> 's \<Rightarrow> 's rd" where
  "for_range body 0 idx s = rd_ret s"
| "for_range body (Suc n) idx s = rd_bind (body idx s) (\<lambda>s'. for_range body n (Suc idx) s')"

section \<open>Tokens\<close>

datatype col = Fixed nat | Stat nat | Rune nat

type_synonym tok = "col \<times> bytes"

definition proj :: "col \<Rightarrow> tok list \<Rightarrow> bytes" where
  "proj k ts = concat (map snd (filter (\<lambda>t. fst t = k) ts))"

lemma proj_simps [simp]:
  "proj k [] = []"
  "proj k (t # ts) = (if fst t = k then snd t else []) @ proj k ts"
  "proj k (ts @ us) = proj k ts @ proj k us"
  by (simp_all add: proj_def)

definition nth_or_Nil :: "bytes list \<Rightarrow> nat \<Rightarrow> bytes" where
  "nth_or_Nil xs i = (if i < length xs then xs ! i else [])"

fun view :: "cols \<Rightarrow> col \<Rightarrow> bytes" where
  "view c (Fixed i) = nth_or_Nil (cfixed c) i"
| "view c (Stat i) = nth_or_Nil (cstat c) i"
| "view c (Rune i) = nth_or_Nil (crune c) i"

definition writes :: "(cols \<Rightarrow> cols) \<Rightarrow> tok list \<Rightarrow> bool" where
  "writes f ts \<longleftrightarrow> (\<forall>c. length (cfixed c) = NMISC \<longrightarrow>
     length (cfixed (f c)) = NMISC \<and> (\<forall>k. view (f c) k = view c k @ proj k ts))"

subsection \<open>Writer steps\<close>

lemma grow_to_eq: "grow_to idx xs = xs @ replicate (Suc idx - length xs) []"
proof (induction idx xs rule: grow_to.induct)
  case (1 idx xs)
  show ?case
  proof (cases "length xs \<le> idx")
    case True
    then have "Suc idx - length xs = Suc (Suc idx - length (xs @ [[]]))" by simp
    then show ?thesis using True "1.IH" by (subst grow_to.simps) simp
  next
    case False
    then show ?thesis by (subst grow_to.simps) simp
  qed
qed

lemma nth_or_Nil_grow [simp]: "nth_or_Nil (grow_to idx xs) i = nth_or_Nil xs i"
  by (auto simp: nth_or_Nil_def grow_to_eq nth_append)

lemma length_grow [simp]: "idx < length (grow_to idx xs)"
  by (simp add: grow_to_eq)

lemma nth_or_Nil_push [simp]:
  "i < length xs \<Longrightarrow> nth_or_Nil (push_to i bs xs) j = nth_or_Nil xs j @ (if j = i then bs else [])"
  by (auto simp: nth_or_Nil_def push_to_def)

lemma length_push [simp]: "length (push_to i bs xs) = length xs"
  by (simp add: push_to_def)

lemma writes_wv [write_rules]: "k < NMISC \<Longrightarrow> writes (wv k v) [(Fixed k, write_varint v)]"
  unfolding writes_def wv_def
  by (intro allI impI conjI, simp) (case_tac ka; simp)

lemma writes_wz [write_rules]: "k < NMISC \<Longrightarrow> writes (wz k v) [(Fixed k, write_varint (zigzag_i64 v))]"
  unfolding wz_def by (rule writes_wv)

lemma writes_wbytes [write_rules]: "k < NMISC \<Longrightarrow> writes (wbytes k bs) [(Fixed k, bs)]"
  unfolding writes_def wbytes_def
  by (intro allI impI conjI, simp) (case_tac ka; simp)

lemma writes_wrune [write_rules]: "writes (wrune i v) [(Rune i, write_varint v)]"
  unfolding writes_def wrune_def
  by (intro allI impI conjI, simp) (case_tac k; simp)

lemma writes_wstat_z [write_rules]:
  "writes (wstat_z i v) [(Stat i, write_varint (zigzag_i64 v))]"
  unfolding writes_def wstat_z_def
  by (intro allI impI conjI, simp) (case_tac k; simp)

lemma writes_id: "writes (\<lambda>c. c) []"
  by (simp add: writes_def)

lemma writes_comp:
  "writes f ts \<Longrightarrow> writes g us \<Longrightarrow> writes (\<lambda>c. g (f c)) (ts @ us)"
  by (simp add: writes_def)

lemma writes_cong: "writes f ts \<Longrightarrow> (\<And>k. proj k ts = proj k us) \<Longrightarrow> writes f us"
  by (simp add: writes_def)

subsection \<open>Reader steps\<close>

definition reader_ok :: "col_reader \<Rightarrow> bool" where
  "reader_ok r \<longleftrightarrow> rpos r \<le> length (rbytes r) \<and> length (rbytes r) < 2 ^ 64"

definition readers_ok :: "col_readers \<Rightarrow> bool" where
  "readers_ok rs \<longleftrightarrow> length (rfixed rs) = NMISC \<and> list_all reader_ok (rfixed rs)
     \<and> list_all reader_ok (rstat rs) \<and> list_all reader_ok (rrune rs)"

definition left :: "col_reader list \<Rightarrow> nat \<Rightarrow> bytes" where
  "left xs i = (if i < length xs then drop (rpos (xs ! i)) (rbytes (xs ! i)) else [])"

fun remaining :: "col_readers \<Rightarrow> col \<Rightarrow> bytes" where
  "remaining rs (Fixed i) = left (rfixed rs) i"
| "remaining rs (Stat i) = left (rstat rs) i"
| "remaining rs (Rune i) = left (rrune rs) i"

definition offers :: "col_readers \<Rightarrow> tok list \<Rightarrow> (col \<Rightarrow> bytes) \<Rightarrow> bool" where
  "offers rs ts rest \<longleftrightarrow> readers_ok rs \<and> (\<forall>k. remaining rs k = proj k ts @ rest k)"

definition runs :: "'a rd \<Rightarrow> tok list \<Rightarrow> 'a \<Rightarrow> bool" where
  "runs m ts v \<longleftrightarrow>
     (\<forall>rs rest. offers rs ts rest \<longrightarrow> (\<exists>rs'. m rs = Inr (v, rs') \<and> offers rs' [] rest))"

lemma offersD: "offers rs ts rest \<Longrightarrow> remaining rs k = proj k ts @ rest k"
  by (simp add: offers_def)

lemma runs_ret [run_rules]: "runs (rd_ret v) [] v"
  by (simp add: runs_def rd_ret_def)

lemma runs_bind:
  assumes "runs m ts v" "runs (f v) us w"
  shows "runs (rd_bind m f) (ts @ us) w"
  unfolding runs_def
proof (intro allI impI)
  fix rs rest assume "offers rs (ts @ us) rest"
  then have "offers rs ts (\<lambda>k. proj k us @ rest k)" by (simp add: offers_def)
  then obtain rs' where m: "m rs = Inr (v, rs')" and off: "offers rs' [] (\<lambda>k. proj k us @ rest k)"
    using assms(1) unfolding runs_def by blast
  from off have "offers rs' us rest" by (simp add: offers_def)
  then obtain rs'' where "f v rs' = Inr (w, rs'')" "offers rs'' [] rest"
    using assms(2) unfolding runs_def by blast
  with m show "\<exists>rs'. rd_bind m f rs = Inr (w, rs') \<and> offers rs' [] rest"
    by (simp add: rd_bind_def)
qed

lemma runs_bind_Nil: "runs m [] v \<Longrightarrow> runs (f v) us w \<Longrightarrow> runs (rd_bind m f) us w"
  using runs_bind[of m "[]"] by simp

lemma runs_bind_Cons: "runs m [t] v \<Longrightarrow> runs (f v) us w \<Longrightarrow> runs (rd_bind m f) (t # us) w"
  using runs_bind[of m "[t]"] by simp

lemma runs_lift: "r = Inr v \<Longrightarrow> runs (rd_lift r) [] v"
  by (simp add: runs_def rd_lift_def)

lemma runs_cong: "runs m ts v \<Longrightarrow> (\<And>k. proj k ts = proj k us) \<Longrightarrow> runs m us v"
  by (simp add: runs_def offers_def)

lemma reader_varint_reads:
  assumes "reader_ok r" "drop (rpos r) (rbytes r) = write_varint v @ rest"
  shows "\<exists>r'. reader_varint r = Inr (v, r') \<and> reader_ok r' \<and> drop (rpos r') (rbytes r') = rest"
proof -
  let ?r = "r\<lparr>rpos := rpos r + length (write_varint v)\<rparr>"
  have "reader_varint r = Inr (v, ?r)"
    using read_varint_write[OF assms(2)] by (simp add: reader_varint_def)
  moreover have "length (drop (rpos r) (rbytes r)) = length (write_varint v) + length rest"
    using assms(2) by simp
  then have "reader_ok ?r" using assms(1) by (auto simp: reader_ok_def)
  moreover have "drop (rpos ?r) (rbytes ?r) = rest"
    using arg_cong[OF assms(2), of "drop (length (write_varint v))"] by (simp add: add.commute)
  ultimately show ?thesis by blast
qed

lemma left_update [simp]:
  "i < length xs \<Longrightarrow> left (xs[i := r]) j = (if j = i then drop (rpos r) (rbytes r) else left xs j)"
  by (simp add: left_def)

lemma list_all_update: "list_all P xs \<Longrightarrow> P x \<Longrightarrow> list_all P (xs[i := x])"
  by (auto simp: list_all_iff dest: set_update_subset_insert[THEN subsetD])

lemma left_not_Nil: "left xs i = write_varint v @ rest \<Longrightarrow> i < length xs"
  by (auto simp: left_def split: if_splits)


lemma offers_Fixed:
  assumes "offers rs [(Fixed k, bs)] rest" "k < NMISC"
  shows "reader_ok (rfixed rs ! k)" "k < length (rfixed rs)"
    "drop (rpos (rfixed rs ! k)) (rbytes (rfixed rs ! k)) = bs @ rest (Fixed k)"
proof -
  from assms show k: "k < length (rfixed rs)" by (simp add: offers_def readers_ok_def)
  with assms show "reader_ok (rfixed rs ! k)"
    by (auto simp: offers_def readers_ok_def list_all_length)
  from offersD[OF assms(1), of "Fixed k"] have "remaining rs (Fixed k) = bs @ rest (Fixed k)" by simp
  with k show "drop (rpos (rfixed rs ! k)) (rbytes (rfixed rs ! k)) = bs @ rest (Fixed k)"
    by (simp add: left_def)
qed

lemma offers_Fixed_update:
  assumes "offers rs [(Fixed k, bs)] rest" "k < NMISC"
    and "reader_ok r" "drop (rpos r) (rbytes r) = rest (Fixed k)"
  shows "offers (rs\<lparr>rfixed := (rfixed rs)[k := r]\<rparr>) [] rest"
proof -
  have "remaining (rs\<lparr>rfixed := (rfixed rs)[k := r]\<rparr>) c = rest c" for c
    using assms offers_Fixed(2)[OF assms(1,2)] offersD[OF assms(1), of c]
    by (cases c) (auto split: if_splits)
  with assms show ?thesis by (simp add: offers_def readers_ok_def list_all_update)
qed

lemma runs_rv [run_rules]: "k < NMISC \<Longrightarrow> runs (rv k) [(Fixed k, write_varint v)] v"
  unfolding runs_def
proof (intro allI impI)
  fix rs rest assume k: "k < NMISC" and off: "offers rs [(Fixed k, write_varint v)] rest"
  from reader_varint_reads[OF offers_Fixed(1,3)[OF off k]] obtain r where
    "reader_varint (rfixed rs ! k) = Inr (v, r)" "reader_ok r"
    "drop (rpos r) (rbytes r) = rest (Fixed k)" by blast
  with offers_Fixed_update[OF off k]
  show "\<exists>rs'. rv k rs = Inr (v, rs') \<and> offers rs' [] rest" by (simp add: rv_def)
qed

lemma runs_rz [run_rules]: "k < NMISC \<Longrightarrow> runs (rz k) [(Fixed k, write_varint (zigzag_i64 v))] v"
  unfolding rz_def
  by (rule runs_bind_Cons[OF runs_rv]) (auto simp: unzigzag_zigzag intro: runs_ret)

lemma runs_rv_u32 [run_rules]: "k < NMISC \<Longrightarrow> runs (rv_u32 k) [(Fixed k, write_varint (ucast v))] v"
  unfolding rv_u32_def by (rule runs_bind_Cons[OF runs_rv]) (auto intro: runs_lift)

lemma runs_rv_usize [run_rules]:
  "k < NMISC \<Longrightarrow> n < 2 ^ 64 \<Longrightarrow> runs (rv_usize k) [(Fixed k, write_varint (of_nat n))] n"
  unfolding rv_usize_def
  using runs_ret[of "unat (of_nat n :: u64)"]
  by (intro runs_bind_Cons[OF runs_rv]) auto

lemma runs_rbytes [run_rules]: "k < NMISC \<Longrightarrow> runs (rbytes_col k (length bs)) [(Fixed k, bs)] bs"
  unfolding runs_def
proof (intro allI impI)
  fix rs rest assume k: "k < NMISC" and off: "offers rs [(Fixed k, bs)] rest"
  let ?r = "rfixed rs ! k"
  note r = offers_Fixed(1,3)[OF off k]
  have len: "rpos ?r + length bs \<le> length (rbytes ?r)"
    using r(1) arg_cong[OF r(2), of length] by (auto simp: reader_ok_def)
  let ?r' = "?r\<lparr>rpos := rpos ?r + length bs\<rparr>"
  have "reader_bytes (length bs) ?r = Inr (bs, ?r')"
    using r len by (auto simp: reader_bytes_def reader_ok_def Let_def)
  moreover have "reader_ok ?r'" using r(1) len by (simp add: reader_ok_def)
  moreover have "drop (rpos ?r') (rbytes ?r') = rest (Fixed k)"
    using arg_cong[OF r(2), of "drop (length bs)"] by (simp add: add.commute)
  ultimately show "\<exists>rs'. rbytes_col k (length bs) rs = Inr (bs, rs') \<and> offers rs' [] rest"
    using offers_Fixed_update[OF off k] by (simp add: rbytes_col_def)
qed

lemma runs_rstat_z [run_rules]: "runs (rstat_z i) [(Stat i, write_varint (zigzag_i64 v))] v"
  unfolding runs_def
proof (intro allI impI)
  fix rs rest assume off: "offers rs [(Stat i, write_varint (zigzag_i64 v))] rest"
  then have l: "left (rstat rs) i = write_varint (zigzag_i64 v) @ rest (Stat i)"
    using offersD[OF off, of "Stat i"] by simp
  then have i: "i < length (rstat rs)" by (rule left_not_Nil)
  then have "reader_ok (rstat rs ! i)" using off by (simp add: offers_def readers_ok_def list_all_length)
  from reader_varint_reads[OF this] l i obtain r where
    r: "reader_varint (rstat rs ! i) = Inr (zigzag_i64 v, r)" "reader_ok r"
    "drop (rpos r) (rbytes r) = rest (Stat i)" by (auto simp: left_def)
  have "remaining (rs\<lparr>rstat := (rstat rs)[i := r]\<rparr>) c = rest c" for c
    using offersD[OF off, of c] i r(3) by (cases c) (auto split: if_splits)
  with off r have "offers (rs\<lparr>rstat := (rstat rs)[i := r]\<rparr>) [] rest"
    by (simp add: offers_def readers_ok_def list_all_update)
  then show "\<exists>rs'. rstat_z i rs = Inr (v, rs') \<and> offers rs' [] rest"
    using r i by (simp add: rstat_z_def unzigzag_zigzag)
qed

lemma runs_rrune_v [run_rules]: "runs (rrune_v i) [(Rune i, write_varint v)] v"
  unfolding runs_def
proof (intro allI impI)
  fix rs rest assume off: "offers rs [(Rune i, write_varint v)] rest"
  then have l: "left (rrune rs) i = write_varint v @ rest (Rune i)"
    using offersD[OF off, of "Rune i"] by simp
  then have i: "i < length (rrune rs)" by (rule left_not_Nil)
  then have "reader_ok (rrune rs ! i)" using off by (simp add: offers_def readers_ok_def list_all_length)
  from reader_varint_reads[OF this] l i obtain r where
    r: "reader_varint (rrune rs ! i) = Inr (v, r)" "reader_ok r"
    "drop (rpos r) (rbytes r) = rest (Rune i)" by (auto simp: left_def)
  have "remaining (rs\<lparr>rrune := (rrune rs)[i := r]\<rparr>) c = rest c" for c
    using offersD[OF off, of c] i r(3) by (cases c) (auto split: if_splits)
  with off r have "offers (rs\<lparr>rrune := (rrune rs)[i := r]\<rparr>) [] rest"
    by (simp add: offers_def readers_ok_def list_all_update)
  then show "\<exists>rs'. rrune_v i rs = Inr (v, rs') \<and> offers rs' [] rest"
    using r i by (simp add: rrune_v_def)
qed

lemma runs_ret_eq: "v = w \<Longrightarrow> runs (rd_ret v) [] w"
  by (simp add: runs_ret)

lemma runs_bind_last: "runs m ts v \<Longrightarrow> runs (f v) [] w \<Longrightarrow> runs (rd_bind m f) ts w"
  using runs_bind[of m ts v f "[]"] by simp

section \<open>Loops\<close>

text \<open>The Rust \<^verbatim>\<open>for (idx, x) in xs.into_iter().enumerate()\<close> whose body may fail.\<close>

fun for_list :: "(nat \<Rightarrow> 'a \<Rightarrow> 's \<Rightarrow> 's rd) \<Rightarrow> nat \<Rightarrow> 'a list \<Rightarrow> 's \<Rightarrow> 's rd" where
  "for_list body idx [] s = rd_ret s"
| "for_list body idx (x # xs) s = rd_bind (body idx x s) (\<lambda>s'. for_list body (Suc idx) xs s')"

text \<open>
  The interface between one item's codec and the loops over many items.  The encoder
  body \<open>enc\<close> writes item \<open>a\<close> (the \<open>i\<close>-th) given the running delta state \<open>p\<close>; the decoder body
  \<open>dec\<close> reads one item and folds it into its output \<open>acc\<close>.  Both follow the same delta
  state.  Promised for items that fit and delta states within the invariant: the encoder
  writes the tokens \<open>emit i p a\<close> and moves the delta state to \<open>nxt p a\<close>; the decoder, offered
  these tokens, yields \<open>put acc a\<close> and the same delta state.
\<close>

fun emit_all :: "(nat \<Rightarrow> 'p \<Rightarrow> 'a \<Rightarrow> tok list) \<Rightarrow> ('p \<Rightarrow> 'a \<Rightarrow> 'p) \<Rightarrow> nat \<Rightarrow> 'p \<Rightarrow> 'a list \<Rightarrow> tok list" where
  "emit_all emit nxt i p [] = []"
| "emit_all emit nxt i p (a # as) = emit i p a @ emit_all emit nxt (Suc i) (nxt p a) as"

lemma emit_all_free:
  "(\<And>i p a. proj k (emit i p a) = []) \<Longrightarrow> proj k (emit_all emit nxt i p as) = []"
  by (induction as arbitrary: i p) auto

locale item_codec =
  fixes enc :: "nat \<Rightarrow> 'a \<Rightarrow> cols \<times> 'p \<Rightarrow> cols \<times> 'p"
    and dec :: "nat \<Rightarrow> 'o \<times> 'p \<Rightarrow> ('o \<times> 'p) rd"
    and emit :: "nat \<Rightarrow> 'p \<Rightarrow> 'a \<Rightarrow> tok list"
    and nxt :: "'p \<Rightarrow> 'a \<Rightarrow> 'p"
    and put :: "'o \<Rightarrow> 'a \<Rightarrow> 'o"
    and inv :: "'p \<Rightarrow> bool"
    and fits :: "'a \<Rightarrow> bool"
  assumes nxt_inv: "inv p \<Longrightarrow> inv (nxt p a)"
    and enc_state: "inv p \<Longrightarrow> snd (enc i a (c, p)) = nxt p a"
    and enc_writes: "inv p \<Longrightarrow> writes (\<lambda>c. fst (enc i a (c, p))) (emit i p a)"
    and dec_runs: "inv p \<Longrightarrow> fits a \<Longrightarrow> runs (dec i (acc, p)) (emit i p a) (put acc a, nxt p a)"
begin

lemma for_each_state: "inv p \<Longrightarrow> snd (for_each enc i as (c, p)) = foldl nxt p as"
proof (induction as arbitrary: i c p)
  case (Cons a as)
  moreover have "enc i a (c, p) = (fst (enc i a (c, p)), nxt p a)"
    using enc_state[OF Cons.prems, of i a c] by (metis prod.collapse)
  ultimately show ?case using nxt_inv by (metis for_each.simps(2) foldl_Cons)
qed simp

lemma for_each_writes: "inv p \<Longrightarrow> writes (\<lambda>c. fst (for_each enc i as (c, p))) (emit_all emit nxt i p as)"
proof (induction as arbitrary: i p)
  case Nil
  then show ?case by (simp add: writes_id)
next
  case (Cons a as)
  have "enc i a (c, p) = (fst (enc i a (c, p)), nxt p a)" for c
    using enc_state[OF Cons.prems, of i a c] by (metis prod.collapse)
  then have "fst (for_each enc i (a # as) (c, p)) =
      (\<lambda>c. fst (for_each enc (Suc i) as (c, nxt p a))) (fst (enc i a (c, p)))" for c
    by (metis for_each.simps(2))
  with writes_comp[OF enc_writes[OF Cons.prems, of i a] Cons.IH[OF nxt_inv[OF Cons.prems]]]
  show ?case by simp
qed

lemma for_range_runs:
  "inv p \<Longrightarrow> list_all fits as \<Longrightarrow>
   runs (for_range dec (length as) i (acc, p)) (emit_all emit nxt i p as)
     (foldl put acc as, foldl nxt p as)"
proof (induction as arbitrary: i acc p)
  case (Cons a as)
  then have "inv (nxt p a)" "list_all fits as" using nxt_inv by auto
  from Cons.IH[OF this, of "Suc i" "put acc a"] Cons.prems show ?case
    by (auto intro!: runs_bind[OF dec_runs])
qed (simp add: runs_ret)

end

text \<open>The same for a loop that carries no delta state.\<close>

fun emit_list :: "(nat \<Rightarrow> 'a \<Rightarrow> tok list) \<Rightarrow> nat \<Rightarrow> 'a list \<Rightarrow> tok list" where
  "emit_list emit i [] = []"
| "emit_list emit i (a # as) = emit i a @ emit_list emit (Suc i) as"

lemma emit_list_free: "(\<And>i a. proj k (emit i a) = []) \<Longrightarrow> proj k (emit_list emit i as) = []"
  by (induction as arbitrary: i) auto

locale plain_codec =
  fixes enc :: "nat \<Rightarrow> 'a \<Rightarrow> cols \<Rightarrow> cols"
    and dec :: "nat \<Rightarrow> 'o \<Rightarrow> 'o rd"
    and emit :: "nat \<Rightarrow> 'a \<Rightarrow> tok list"
    and put :: "'o \<Rightarrow> 'a \<Rightarrow> 'o"
    and fits :: "'a \<Rightarrow> bool"
  assumes enc_writes: "writes (enc i a) (emit i a)"
    and dec_runs: "fits a \<Longrightarrow> runs (dec i acc) (emit i a) (put acc a)"
begin

lemma for_each_writes: "writes (for_each enc i as) (emit_list emit i as)"
proof (induction as arbitrary: i)
  case Nil
  then show ?case by (simp add: writes_def)
next
  case (Cons a as)
  from writes_comp[OF enc_writes[of i a] Cons.IH[of "Suc i"]] show ?case
    by (simp add: writes_def)
qed

lemma for_range_runs:
  "list_all fits as \<Longrightarrow>
   runs (for_range dec (length as) i acc) (emit_list emit i as) (foldl put acc as)"
  by (induction as arbitrary: i acc) (auto intro: runs_ret runs_bind dec_runs)

end

end
