(* ===== verification/Match_Record.thy ===== *)
theory Match_Record
  imports Crawl_Prelude
begin

text \<open>
  The stored match representation of \<^verbatim>\<open>crates/server/src/record.rs\<close>: one HOL record per
  prost message, with the source's field names (prefixed where two messages share one)
  and the width of every integer.
\<close>

record participant =
  player_id :: u32
  champion_id :: u32
  position :: u32
  spell1 :: u32
  spell2 :: u32
  runes :: "u32 list"
  stats :: "i64 list"

record minute_frame =
  minute :: u32
  total_gold :: "u32 list"
  xp :: "u32 list"
  cs :: "u32 list"
  dmg_to_champs :: "u32 list"

record kill_event =
  k_t_s :: u32
  k_killer :: u32
  k_victim :: u32
  k_assist_mask :: u32
  k_x :: u32
  k_y :: u32

record objective_event =
  o_t_s :: u32
  o_kind :: u32
  o_killer :: u32
  o_losing_team :: u32
  o_lane :: u32

record ward_event =
  w_t_s :: u32
  w_kind :: u32
  w_participant :: u32

record timeline_lite =
  frames :: "minute_frame list"
  kills :: "kill_event list"
  objectives :: "objective_event list"
  wards :: "ward_event list"

record match_record =
  schema_version :: u32
  game_id :: u64
  platform :: string
  queue_id :: u32
  game_start_ms :: i64
  duration_s :: u32
  blue_won :: bool
  game_version :: string
  patch_major :: u32
  patch_minor :: u32
  participants :: "participant list"
  timeline :: "timeline_lite option"
  bans :: "u32 list"

end
