(* ===== verification/Columnar.thy ===== *)
theory Columnar
  imports Column_Streams Match_Record
begin

unbundle bit_operations_syntax

text \<open>
  The block transform of \<^verbatim>\<open>crates/server/src/columnar.rs\<close>: \<^verbatim>\<open>encode_record\<close>, \<^verbatim>\<open>encode_timeline\<close>
  and \<^verbatim>\<open>encode_payload\<close> write a block of match records as column streams; \<^verbatim>\<open>Manifest::parse\<close>,
  \<^verbatim>\<open>decode_record\<close> and \<^verbatim>\<open>decode_timeline\<close> rebuild the protobuf bytes of every record.
  The prost decoder that turns the raw input bytes into a \<open>match_record\<close> is the parameter
  \<open>decode\<close> of \<open>encode_block\<close>.
\<close>

section \<open>Column numbers\<close>

abbreviation (input) SCHEMA :: nat where "SCHEMA \<equiv> 0"
abbreviation (input) GID_D :: nat where "GID_D \<equiv> 1"
abbreviation (input) PLAT_LEN :: nat where "PLAT_LEN \<equiv> 2"
abbreviation (input) PLAT :: nat where "PLAT \<equiv> 3"
abbreviation (input) QUEUE :: nat where "QUEUE \<equiv> 4"
abbreviation (input) START_D :: nat where "START_D \<equiv> 5"
abbreviation (input) DUR :: nat where "DUR \<equiv> 6"
abbreviation (input) BLUE :: nat where "BLUE \<equiv> 7"
abbreviation (input) GV_LEN :: nat where "GV_LEN \<equiv> 8"
abbreviation (input) GV :: nat where "GV \<equiv> 9"
abbreviation (input) PMAJ :: nat where "PMAJ \<equiv> 10"
abbreviation (input) PMIN :: nat where "PMIN \<equiv> 11"
abbreviation (input) BANS_N :: nat where "BANS_N \<equiv> 12"
abbreviation (input) BANS :: nat where "BANS \<equiv> 13"
abbreviation (input) NPARTS :: nat where "NPARTS \<equiv> 14"
abbreviation (input) P_PLAYER :: nat where "P_PLAYER \<equiv> 15"
abbreviation (input) P_CHAMP :: nat where "P_CHAMP \<equiv> 16"
abbreviation (input) P_POS :: nat where "P_POS \<equiv> 17"
abbreviation (input) P_SP1 :: nat where "P_SP1 \<equiv> 18"
abbreviation (input) P_SP2 :: nat where "P_SP2 \<equiv> 19"
abbreviation (input) P_RUNES_N :: nat where "P_RUNES_N \<equiv> 20"
abbreviation (input) P_STATS_N :: nat where "P_STATS_N \<equiv> 21"
abbreviation (input) TL_PRESENT :: nat where "TL_PRESENT \<equiv> 22"
abbreviation (input) NFRAMES :: nat where "NFRAMES \<equiv> 23"
abbreviation (input) F_MINUTE :: nat where "F_MINUTE \<equiv> 24"
abbreviation (input) F_GOLD_N :: nat where "F_GOLD_N \<equiv> 25"
abbreviation (input) F_GOLD :: nat where "F_GOLD \<equiv> 26"
abbreviation (input) F_XP_N :: nat where "F_XP_N \<equiv> 27"
abbreviation (input) F_XP :: nat where "F_XP \<equiv> 28"
abbreviation (input) F_CS_N :: nat where "F_CS_N \<equiv> 29"
abbreviation (input) F_CS :: nat where "F_CS \<equiv> 30"
abbreviation (input) F_DMG_N :: nat where "F_DMG_N \<equiv> 31"
abbreviation (input) F_DMG :: nat where "F_DMG \<equiv> 32"
abbreviation (input) NKILLS :: nat where "NKILLS \<equiv> 33"
abbreviation (input) K_T :: nat where "K_T \<equiv> 34"
abbreviation (input) K_KILLER :: nat where "K_KILLER \<equiv> 35"
abbreviation (input) K_VICTIM :: nat where "K_VICTIM \<equiv> 36"
abbreviation (input) K_MASK :: nat where "K_MASK \<equiv> 37"
abbreviation (input) K_X :: nat where "K_X \<equiv> 38"
abbreviation (input) K_Y :: nat where "K_Y \<equiv> 39"
abbreviation (input) NOBJS :: nat where "NOBJS \<equiv> 40"
abbreviation (input) O_T :: nat where "O_T \<equiv> 41"
abbreviation (input) O_KIND :: nat where "O_KIND \<equiv> 42"
abbreviation (input) O_KILLER :: nat where "O_KILLER \<equiv> 43"
abbreviation (input) O_TEAM :: nat where "O_TEAM \<equiv> 44"
abbreviation (input) O_LANE :: nat where "O_LANE \<equiv> 45"
abbreviation (input) NWARDS :: nat where "NWARDS \<equiv> 46"
abbreviation (input) W_T :: nat where "W_T \<equiv> 47"
abbreviation (input) W_KIND :: nat where "W_KIND \<equiv> 48"
abbreviation (input) W_PART :: nat where "W_PART \<equiv> 49"

definition MAGIC :: bytes where
  "MAGIC = [0x4C, 0x43, 0x4F, 0x4C]"

definition VERSION :: u8 where
  "VERSION = 1"

section \<open>Encoder\<close>

record block_state =
  bs_game_id :: u64
  bs_game_start_ms :: i64

definition block_state_default :: block_state where
  "block_state_default = \<lparr>bs_game_id = 0, bs_game_start_ms = 0\<rparr>"

text \<open>\<^verbatim>\<open>prev_series[idx].get(slot).copied().unwrap_or(0)\<close>\<close>

definition get_or_0 :: "u32 list \<Rightarrow> nat \<Rightarrow> u32" where
  "get_or_0 xs slot = (if slot < length xs then xs ! slot else 0)"

definition encode_slot :: "nat \<Rightarrow> u32 list \<Rightarrow> nat \<Rightarrow> u32 \<Rightarrow> cols \<Rightarrow> cols" where
  "encode_slot v_col prev_vals slot v cols =
     (let prev = get_or_0 prev_vals slot in wz v_col (ucast v - ucast prev) cols)"

definition encode_series ::
  "nat \<Rightarrow> nat \<times> nat \<times> u32 list \<Rightarrow> cols \<times> u32 list list \<Rightarrow> cols \<times> u32 list list" where
  "encode_series idx s st =
     (case s of (n_col, v_col, vals) \<Rightarrow> case st of (cols, prev_series) \<Rightarrow>
      let cols = wv n_col (of_nat (length vals)) cols;
          cols = for_each (encode_slot v_col (prev_series ! idx)) 0 vals cols
      in (cols, prev_series[idx := vals]))"

definition encode_frame :: "nat \<Rightarrow> minute_frame \<Rightarrow> cols \<times> u32 list list \<Rightarrow> cols \<times> u32 list list" where
  "encode_frame i frame st =
     (case st of (cols, prev_series) \<Rightarrow>
      let cols = wv F_MINUTE (ucast (minute frame)) cols;
          series = [(F_GOLD_N, F_GOLD, total_gold frame), (F_XP_N, F_XP, xp frame),
                    (F_CS_N, F_CS, cs frame), (F_DMG_N, F_DMG, dmg_to_champs frame)]
      in for_each encode_series 0 series (cols, prev_series))"

definition encode_kill :: "nat \<Rightarrow> kill_event \<Rightarrow> cols \<times> u32 \<Rightarrow> cols \<times> u32" where
  "encode_kill i kill st =
     (case st of (cols, prev_t) \<Rightarrow>
      let cols = wz K_T (ucast (k_t_s kill) - ucast prev_t) cols;
          prev_t = k_t_s kill;
          cols = wv K_KILLER (ucast (k_killer kill)) cols;
          cols = wv K_VICTIM (ucast (k_victim kill)) cols;
          cols = wv K_MASK (ucast (k_assist_mask kill)) cols;
          cols = wv K_X (ucast (k_x kill)) cols;
          cols = wv K_Y (ucast (k_y kill)) cols
      in (cols, prev_t))"

definition encode_objective :: "nat \<Rightarrow> objective_event \<Rightarrow> cols \<times> u32 \<Rightarrow> cols \<times> u32" where
  "encode_objective i obj st =
     (case st of (cols, prev_t) \<Rightarrow>
      let cols = wz O_T (ucast (o_t_s obj) - ucast prev_t) cols;
          prev_t = o_t_s obj;
          cols = wv O_KIND (ucast (o_kind obj)) cols;
          cols = wv O_KILLER (ucast (o_killer obj)) cols;
          cols = wv O_TEAM (ucast (o_losing_team obj)) cols;
          cols = wv O_LANE (ucast (o_lane obj)) cols
      in (cols, prev_t))"

definition encode_ward :: "nat \<Rightarrow> ward_event \<Rightarrow> cols \<times> u32 \<Rightarrow> cols \<times> u32" where
  "encode_ward i ward st =
     (case st of (cols, prev_t) \<Rightarrow>
      let cols = wz W_T (ucast (w_t_s ward) - ucast prev_t) cols;
          prev_t = w_t_s ward;
          cols = wv W_KIND (ucast (w_kind ward)) cols;
          cols = wv W_PART (ucast (w_participant ward)) cols
      in (cols, prev_t))"

definition encode_timeline :: "timeline_lite \<Rightarrow> cols \<Rightarrow> cols" where
  "encode_timeline tline cols =
     (let cols = wv NFRAMES (of_nat (length (frames tline))) cols;
          cols = fst (for_each encode_frame 0 (frames tline) (cols, replicate 4 []));
          cols = wv NKILLS (of_nat (length (kills tline))) cols;
          cols = fst (for_each encode_kill 0 (kills tline) (cols, 0));
          cols = wv NOBJS (of_nat (length (objectives tline))) cols;
          cols = fst (for_each encode_objective 0 (objectives tline) (cols, 0));
          cols = wv NWARDS (of_nat (length (wards tline))) cols
      in fst (for_each encode_ward 0 (wards tline) (cols, 0)))"

definition encode_rune :: "nat \<Rightarrow> u32 \<Rightarrow> cols \<Rightarrow> cols" where
  "encode_rune idx rune cols = wrune idx (ucast rune) cols"

definition encode_participant :: "nat \<Rightarrow> participant \<Rightarrow> cols \<Rightarrow> cols" where
  "encode_participant i p cols =
     (let cols = wv P_PLAYER (ucast (player_id p)) cols;
          cols = wv P_CHAMP (ucast (champion_id p)) cols;
          cols = wv P_POS (ucast (position p)) cols;
          cols = wv P_SP1 (ucast (spell1 p)) cols;
          cols = wv P_SP2 (ucast (spell2 p)) cols;
          cols = wv P_RUNES_N (of_nat (length (runes p))) cols;
          cols = for_each encode_rune 0 (runes p) cols;
          cols = wv P_STATS_N (of_nat (length (stats p))) cols
      in for_each wstat_z 0 (stats p) cols)"

definition encode_ban :: "nat \<Rightarrow> u32 \<Rightarrow> cols \<Rightarrow> cols" where
  "encode_ban i ban cols = wv BANS (ucast ban) cols"

definition encode_record ::
  "match_record \<Rightarrow> cols \<times> block_state \<Rightarrow> col_error + (cols \<times> block_state)" where
  "encode_record r st =
     (case st of (cols, state) \<Rightarrow>
      let cols = wv SCHEMA (ucast (schema_version r)) cols in
      res_bind (delta_u64 (game_id r) (bs_game_id state)) (\<lambda>gid_d.
      let cols = wz GID_D gid_d cols;
          state = state\<lparr>bs_game_id := game_id r\<rparr>;
          cols = wv PLAT_LEN (of_nat (length (platform r))) cols;
          cols = wbytes PLAT (as_bytes (platform r)) cols;
          cols = wv QUEUE (ucast (queue_id r)) cols in
      res_bind (delta_i64 (game_start_ms r) (bs_game_start_ms state)) (\<lambda>start_d.
      let cols = wz START_D start_d cols;
          state = state\<lparr>bs_game_start_ms := game_start_ms r\<rparr>;
          cols = wv DUR (ucast (duration_s r)) cols;
          cols = wv BLUE (if blue_won r then 1 else 0) cols;
          cols = wv GV_LEN (of_nat (length (game_version r))) cols;
          cols = wbytes GV (as_bytes (game_version r)) cols;
          cols = wv PMAJ (ucast (patch_major r)) cols;
          cols = wv PMIN (ucast (patch_minor r)) cols;
          cols = wv BANS_N (of_nat (length (bans r))) cols;
          cols = for_each encode_ban 0 (bans r) cols;
          cols = wv NPARTS (of_nat (length (participants r))) cols;
          cols = for_each encode_participant 0 (participants r) cols;
          cols = wv TL_PRESENT (if timeline r \<noteq> None then 1 else 0) cols;
          cols = (case timeline r of Some tline \<Rightarrow> encode_timeline tline cols | None \<Rightarrow> cols)
      in Inr (cols, state))))"

text \<open>\<^verbatim>\<open>try_fold(0usize, |acc, col| acc.checked_add(col.len()))\<close>\<close>

fun checked_sum :: "nat \<Rightarrow> nat list \<Rightarrow> nat option" where
  "checked_sum acc [] = Some acc"
| "checked_sum acc (n # ns) = (if acc + n < 2 ^ 64 then checked_sum (acc + n) ns else None)"

definition encode_payload :: "nat \<Rightarrow> cols \<Rightarrow> col_error + bytes" where
  "encode_payload records cols =
     (if NMISC + length (cstat cols) < 2 ^ 64
         \<and> NMISC + length (cstat cols) + length (crune cols) < 2 ^ 64
      then
        let all = cfixed cols @ cstat cols @ crune cols;
            out = MAGIC @ [VERSION] @ write_varint (of_nat records)
              @ write_varint (of_nat (length (cstat cols)))
              @ write_varint (of_nat (length (crune cols)))
              @ concat (map (\<lambda>col. write_varint (of_nat (length col))) all)
        in case checked_sum 0 (map length all) of
             None \<Rightarrow> Inl ColumnLengthsOverflow
           | Some data_len \<Rightarrow> Inr (out @ concat all)
      else Inl TooManyColumns)"

section \<open>Manifest\<close>

record col_manifest =
  m_records :: nat
  m_stat_cols :: nat
  m_rune_cols :: nat
  m_columns :: "bytes list"

primrec read_lengths :: "bytes \<Rightarrow> nat \<Rightarrow> nat \<Rightarrow> nat list \<Rightarrow> col_error + (nat list \<times> nat)" where
  "read_lengths payload 0 pos lengths = Inr (lengths, pos)"
| "read_lengths payload (Suc n) pos lengths =
     res_bind (read_varint_at payload pos) (\<lambda>(len, pos).
     read_lengths payload n pos (lengths @ [unat len]))"

fun slice_columns :: "bytes \<Rightarrow> nat \<Rightarrow> nat list \<Rightarrow> bytes list" where
  "slice_columns payload off [] = []"
| "slice_columns payload off (len # lengths) =
     take len (drop off payload) # slice_columns payload (off + len) lengths"

definition manifest_parse :: "bytes \<Rightarrow> col_error + col_manifest" where
  "manifest_parse payload =
     (if length payload < length MAGIC + 1 then Inl TruncatedHeader
      else if take (length MAGIC) payload \<noteq> MAGIC then Inl BadMagic
      else if payload ! length MAGIC \<noteq> VERSION then Inl UnsupportedVersion
      else
        res_bind (read_varint_at payload (length MAGIC + 1)) (\<lambda>(records, pos).
        res_bind (read_varint_at payload pos) (\<lambda>(stat_cols, pos).
        res_bind (read_varint_at payload pos) (\<lambda>(rune_cols, pos).
        if unat stat_cols + unat rune_cols \<ge> 2 ^ 64 then Inl TooManyColumns
        else if NMISC + (unat stat_cols + unat rune_cols) \<ge> 2 ^ 64 then Inl TooManyColumns
        else
          let total_cols = NMISC + (unat stat_cols + unat rune_cols) in
          if total_cols > length payload - pos then Inl TruncatedManifest
          else
            res_bind (read_lengths payload total_cols pos []) (\<lambda>(lengths, data_start).
            case checked_sum 0 lengths of
              None \<Rightarrow> Inl ColumnLengthsOverflow
            | Some data_len \<Rightarrow>
                if data_start + data_len \<ge> 2 ^ 64 then Inl ColumnLengthsOverflow
                else if data_start + data_len > length payload then Inl TruncatedColumnData
                else if data_start + data_len \<noteq> length payload then Inl TrailingBytes
                else Inr \<lparr>m_records = unat records, m_stat_cols = unat stat_cols,
                          m_rune_cols = unat rune_cols,
                          m_columns = slice_columns payload data_start lengths\<rparr>)))))"

definition col_readers_new :: "bytes list \<Rightarrow> nat \<Rightarrow> nat \<Rightarrow> col_error + col_readers" where
  "col_readers_new columns stat_cols rune_cols =
     (if length columns = NMISC + stat_cols + rune_cols
      then Inr \<lparr>rfixed = map col_reader_new (take NMISC columns),
                rstat = map col_reader_new (take stat_cols (drop NMISC columns)),
                rrune = map col_reader_new (drop (NMISC + stat_cols) columns)\<rparr>
      else Inl ManifestCountMismatch)"

section \<open>Protobuf fields\<close>

definition put_field_varint :: "bytes \<Rightarrow> u32 \<Rightarrow> u64 \<Rightarrow> bytes" where
  "put_field_varint out field v =
     (if v = 0 then out
      else out @ write_varint (push_bit 3 (ucast field)) @ write_varint v)"

definition put_field_int64 :: "bytes \<Rightarrow> u32 \<Rightarrow> i64 \<Rightarrow> bytes" where
  "put_field_int64 out field v =
     (if v = 0 then out
      else out @ write_varint (push_bit 3 (ucast field)) @ write_varint v)"

definition put_field_bytes :: "bytes \<Rightarrow> u32 \<Rightarrow> bytes \<Rightarrow> bytes" where
  "put_field_bytes out field bs =
     (if bs = [] then out
      else out @ write_varint (push_bit 3 (ucast field) OR 2) @ write_varint (of_nat (length bs)) @ bs)"

definition put_field_message :: "bytes \<Rightarrow> u32 \<Rightarrow> bytes \<Rightarrow> bytes" where
  "put_field_message out field bs =
     out @ write_varint (push_bit 3 (ucast field) OR 2) @ write_varint (of_nat (length bs)) @ bs"

definition put_field_packed_body :: "bytes \<Rightarrow> u32 \<Rightarrow> bytes \<Rightarrow> bytes" where
  "put_field_packed_body out field body = put_field_bytes out field body"

section \<open>Decoder\<close>

definition decode_slot :: "nat \<Rightarrow> u32 list \<Rightarrow> nat \<Rightarrow> bytes \<times> u32 list \<Rightarrow> (bytes \<times> u32 list) rd" where
  "decode_slot v_col prev_vals slot st =
     (case st of (packed, vals) \<Rightarrow>
      let prev = get_or_0 prev_vals slot in
      rd_bind (rz v_col) (\<lambda>d.
      rd_bind (rd_lift (add_delta_u32 prev d)) (\<lambda>v.
      rd_ret (packed @ write_varint (ucast v), vals @ [v]))))"

definition decode_series ::
  "nat \<Rightarrow> u32 \<times> nat \<times> nat \<Rightarrow> bytes \<times> u32 list list \<Rightarrow> (bytes \<times> u32 list list) rd" where
  "decode_series idx s st =
     (case s of (field, n_col, v_col) \<Rightarrow> case st of (frame, prev_series) \<Rightarrow>
      rd_bind (rv_usize n_col) (\<lambda>n_values.
      rd_bind (for_range (decode_slot v_col (prev_series ! idx)) n_values 0 ([], [])) (\<lambda>pv.
      rd_ret (put_field_packed_body frame field (fst pv), prev_series[idx := snd pv]))))"

definition decode_frame :: "nat \<Rightarrow> bytes \<times> u32 list list \<Rightarrow> (bytes \<times> u32 list list) rd" where
  "decode_frame i st =
     (case st of (tline, prev_series) \<Rightarrow>
      rd_bind (rv_u32 F_MINUTE) (\<lambda>m.
      let frame = put_field_varint [] 1 (ucast m);
          series = [(2, F_GOLD_N, F_GOLD), (3, F_XP_N, F_XP), (4, F_CS_N, F_CS), (5, F_DMG_N, F_DMG)]
      in rd_bind (for_list decode_series 0 series (frame, prev_series)) (\<lambda>fp.
         rd_ret (put_field_message tline 1 (fst fp), snd fp))))"

definition decode_kill :: "nat \<Rightarrow> bytes \<times> u32 \<Rightarrow> (bytes \<times> u32) rd" where
  "decode_kill i st =
     (case st of (tline, prev_t) \<Rightarrow>
      rd_bind (rz K_T) (\<lambda>d.
      rd_bind (rd_lift (add_delta_u32 prev_t d)) (\<lambda>prev_t.
      let kill = put_field_varint [] 1 (ucast prev_t) in
      rd_bind (rv_u32 K_KILLER) (\<lambda>v. let kill = put_field_varint kill 2 (ucast v) in
      rd_bind (rv_u32 K_VICTIM) (\<lambda>v. let kill = put_field_varint kill 3 (ucast v) in
      rd_bind (rv_u32 K_MASK) (\<lambda>v. let kill = put_field_varint kill 4 (ucast v) in
      rd_bind (rv_u32 K_X) (\<lambda>v. let kill = put_field_varint kill 5 (ucast v) in
      rd_bind (rv_u32 K_Y) (\<lambda>v. let kill = put_field_varint kill 6 (ucast v) in
      rd_ret (put_field_message tline 2 kill, prev_t)))))))))"

definition decode_objective :: "nat \<Rightarrow> bytes \<times> u32 \<Rightarrow> (bytes \<times> u32) rd" where
  "decode_objective i st =
     (case st of (tline, prev_t) \<Rightarrow>
      rd_bind (rz O_T) (\<lambda>d.
      rd_bind (rd_lift (add_delta_u32 prev_t d)) (\<lambda>prev_t.
      let obj = put_field_varint [] 1 (ucast prev_t) in
      rd_bind (rv_u32 O_KIND) (\<lambda>v. let obj = put_field_varint obj 2 (ucast v) in
      rd_bind (rv_u32 O_KILLER) (\<lambda>v. let obj = put_field_varint obj 3 (ucast v) in
      rd_bind (rv_u32 O_TEAM) (\<lambda>v. let obj = put_field_varint obj 4 (ucast v) in
      rd_bind (rv_u32 O_LANE) (\<lambda>v. let obj = put_field_varint obj 5 (ucast v) in
      rd_ret (put_field_message tline 3 obj, prev_t))))))))"

definition decode_ward :: "nat \<Rightarrow> bytes \<times> u32 \<Rightarrow> (bytes \<times> u32) rd" where
  "decode_ward i st =
     (case st of (tline, prev_t) \<Rightarrow>
      rd_bind (rz W_T) (\<lambda>d.
      rd_bind (rd_lift (add_delta_u32 prev_t d)) (\<lambda>prev_t.
      let ward = put_field_varint [] 1 (ucast prev_t) in
      rd_bind (rv_u32 W_KIND) (\<lambda>v. let ward = put_field_varint ward 2 (ucast v) in
      rd_bind (rv_u32 W_PART) (\<lambda>v. let ward = put_field_varint ward 3 (ucast v) in
      rd_ret (put_field_message tline 4 ward, prev_t))))))"

definition decode_timeline :: "bytes rd" where
  "decode_timeline =
     rd_bind (rv_usize NFRAMES) (\<lambda>n_frames.
     rd_bind (for_range decode_frame n_frames 0 ([], replicate 4 [])) (\<lambda>st.
     rd_bind (rv_usize NKILLS) (\<lambda>n_kills.
     rd_bind (for_range decode_kill n_kills 0 (fst st, 0)) (\<lambda>st.
     rd_bind (rv_usize NOBJS) (\<lambda>n_objs.
     rd_bind (for_range decode_objective n_objs 0 (fst st, 0)) (\<lambda>st.
     rd_bind (rv_usize NWARDS) (\<lambda>n_wards.
     rd_bind (for_range decode_ward n_wards 0 (fst st, 0)) (\<lambda>st.
     rd_ret (fst st)))))))))"

definition decode_rune :: "nat \<Rightarrow> bytes \<Rightarrow> bytes rd" where
  "decode_rune idx packed =
     rd_bind (rrune_v idx) (\<lambda>v.
     rd_bind (rd_lift (read_u32 v)) (\<lambda>rune. rd_ret (packed @ write_varint (ucast rune))))"

definition decode_stat :: "nat \<Rightarrow> bytes \<Rightarrow> bytes rd" where
  "decode_stat idx packed =
     rd_bind (rstat_z idx) (\<lambda>stat. rd_ret (packed @ write_varint (zigzag_i64 stat)))"

definition decode_participant :: "nat \<Rightarrow> bytes \<Rightarrow> bytes rd" where
  "decode_participant i out =
     rd_bind (rv_u32 P_PLAYER) (\<lambda>v. let p = put_field_varint [] 1 (ucast v) in
     rd_bind (rv_u32 P_CHAMP) (\<lambda>v. let p = put_field_varint p 2 (ucast v) in
     rd_bind (rv_u32 P_POS) (\<lambda>v. let p = put_field_varint p 3 (ucast v) in
     rd_bind (rv_u32 P_SP1) (\<lambda>v. let p = put_field_varint p 4 (ucast v) in
     rd_bind (rv_u32 P_SP2) (\<lambda>v. let p = put_field_varint p 5 (ucast v) in
     rd_bind (rv_usize P_RUNES_N) (\<lambda>n_runes.
     rd_bind (for_range decode_rune n_runes 0 []) (\<lambda>packed.
     let p = put_field_packed_body p 6 packed in
     rd_bind (rv_usize P_STATS_N) (\<lambda>n_stats.
     rd_bind (for_range decode_stat n_stats 0 []) (\<lambda>packed.
     let p = put_field_packed_body p 7 packed in
     rd_ret (put_field_message out 11 p))))))))))"

definition decode_ban :: "nat \<Rightarrow> bytes \<Rightarrow> bytes rd" where
  "decode_ban i packed = rd_bind (rv_u32 BANS) (\<lambda>ban. rd_ret (packed @ write_varint (ucast ban)))"

definition decode_record :: "block_state \<Rightarrow> (bytes \<times> block_state) rd" where
  "decode_record state =
     rd_bind (rv_u32 SCHEMA) (\<lambda>v. let out = put_field_varint [] 1 (ucast v) in
     rd_bind (rz GID_D) (\<lambda>d.
     rd_bind (rd_lift (add_delta_u64 (bs_game_id state) d)) (\<lambda>game_id.
     let state = state\<lparr>bs_game_id := game_id\<rparr>; out = put_field_varint out 2 game_id in
     rd_bind (rv_usize PLAT_LEN) (\<lambda>platform_len.
     rd_bind (rbytes_col PLAT platform_len) (\<lambda>platform. let out = put_field_bytes out 3 platform in
     rd_bind (rv_u32 QUEUE) (\<lambda>v. let out = put_field_varint out 4 (ucast v) in
     rd_bind (rz START_D) (\<lambda>d.
     rd_bind (rd_lift (add_delta_i64 (bs_game_start_ms state) d)) (\<lambda>game_start_ms.
     let state = state\<lparr>bs_game_start_ms := game_start_ms\<rparr>; out = put_field_int64 out 5 game_start_ms in
     rd_bind (rv_u32 DUR) (\<lambda>v. let out = put_field_varint out 6 (ucast v) in
     rd_bind (rv BLUE) (\<lambda>blue_won.
     rd_bind (rd_lift (if blue_won \<le> 1 then Inr () else Inl NotABool)) (\<lambda>_.
     let out = put_field_varint out 7 blue_won in
     rd_bind (rv_usize GV_LEN) (\<lambda>game_version_len.
     rd_bind (rbytes_col GV game_version_len) (\<lambda>game_version. let out = put_field_bytes out 8 game_version in
     rd_bind (rv_u32 PMAJ) (\<lambda>v. let out = put_field_varint out 9 (ucast v) in
     rd_bind (rv_u32 PMIN) (\<lambda>v. let out = put_field_varint out 10 (ucast v) in
     rd_bind (rv_usize NPARTS) (\<lambda>n_parts.
     rd_bind (for_range decode_participant n_parts 0 out) (\<lambda>out.
     rd_bind (rv TL_PRESENT) (\<lambda>tl_present.
     rd_bind (rd_lift (if tl_present \<le> 1 then Inr () else Inl NotABool)) (\<lambda>_.
     rd_bind (if tl_present = 1
              then rd_bind decode_timeline (\<lambda>tline. rd_ret (put_field_message out 12 tline))
              else rd_ret out) (\<lambda>out.
     rd_bind (rv_usize BANS_N) (\<lambda>n_bans.
     rd_bind (for_range decode_ban n_bans 0 []) (\<lambda>bans.
     rd_ret (put_field_packed_body out 13 bans, state)))))))))))))))))))))))"

definition decode_into :: "nat \<Rightarrow> bytes list \<times> block_state \<Rightarrow> (bytes list \<times> block_state) rd" where
  "decode_into idx st =
     (case st of (records, state) \<Rightarrow>
      rd_bind (decode_record state) (\<lambda>rs. rd_ret (records @ [fst rs], snd rs)))"

definition decode_block :: "bytes \<Rightarrow> col_error + bytes list" where
  "decode_block payload =
     res_bind (manifest_parse payload) (\<lambda>m.
     res_bind (col_readers_new (m_columns m) (m_stat_cols m) (m_rune_cols m)) (\<lambda>cols.
     res_bind (for_range decode_into (m_records m) 0 ([], block_state_default) cols) (\<lambda>(st, cols).
     res_bind (ensure_done cols) (\<lambda>_. Inr (fst st)))))"

section \<open>Encoding a block\<close>

text \<open>The input loop of \<^verbatim>\<open>encode_block\<close>: \<open>decode\<close> is prost's \<^verbatim>\<open>MatchRecord::decode\<close>.\<close>

fun encode_records ::
  "(bytes \<Rightarrow> match_record option) \<Rightarrow> nat \<Rightarrow> bytes list \<Rightarrow> cols \<times> block_state \<Rightarrow> col_error + (cols \<times> block_state)" where
  "encode_records decode idx [] st = Inr st"
| "encode_records decode idx (raw # raws) st =
     (case decode raw of
        None \<Rightarrow> Inl (InputDecodeFailed idx)
      | Some r \<Rightarrow> res_bind (encode_record r st) (\<lambda>st. encode_records decode (Suc idx) raws st))"

fun first_mismatch :: "nat \<Rightarrow> bytes list \<Rightarrow> bytes list \<Rightarrow> nat option" where
  "first_mismatch idx (want # ws) (got # gs) =
     (if want \<noteq> got then Some idx else first_mismatch (Suc idx) ws gs)"
| "first_mismatch idx _ _ = None"

definition encode_block :: "(bytes \<Rightarrow> match_record option) \<Rightarrow> bytes list \<Rightarrow> col_error + bytes" where
  "encode_block decode records =
     res_bind (encode_records decode 0 records (cols_new, block_state_default)) (\<lambda>(cols, state).
     res_bind (encode_payload (length records) cols) (\<lambda>payload.
     res_bind (decode_block payload) (\<lambda>rebuilt.
     if length rebuilt \<noteq> length records then Inl SelfCheckCount
     else case first_mismatch 0 records rebuilt of
            Some idx \<Rightarrow> Inl (SelfCheckMismatch idx)
          | None \<Rightarrow> Inr payload)))"

end
