(* ===== verification/Columnar_Codec.thy ===== *)
theory Columnar_Codec
  imports Columnar
begin

unbundle bit_operations_syntax

text \<open>
  Correctness of the columnar block transform.  \<open>wire_record\<close> is the canonical protobuf
  encoding of a match record (fields in tag order, default values omitted, packed repeated
  scalars): the specification of what the archive holds.  Every loop of the codec is an
  interpretation of \<open>plain_codec\<close> or \<open>item_codec\<close>, and the block theorems follow from
  their loop lemmas: decoding a block returns the canonical bytes of every record encoded.
\<close>

section \<open>Canonical protobuf bytes\<close>

definition wire_key :: "u32 \<Rightarrow> nat \<Rightarrow> bytes" where
  "wire_key field wire_type = write_varint (of_nat (8 * unat field + wire_type))"

definition fld_varint :: "u32 \<Rightarrow> u64 \<Rightarrow> bytes" where
  "fld_varint field v = (if v = 0 then [] else wire_key field 0 @ write_varint v)"

definition fld_message :: "u32 \<Rightarrow> bytes \<Rightarrow> bytes" where
  "fld_message field bs = wire_key field 2 @ write_varint (of_nat (length bs)) @ bs"

definition fld_bytes :: "u32 \<Rightarrow> bytes \<Rightarrow> bytes" where
  "fld_bytes field bs = (if bs = [] then [] else fld_message field bs)"

definition packed_u32 :: "u32 list \<Rightarrow> bytes" where
  "packed_u32 vs = concat (map (\<lambda>v. write_varint (ucast v)) vs)"

definition packed_sint64 :: "i64 list \<Rightarrow> bytes" where
  "packed_sint64 vs = concat (map (\<lambda>v. write_varint (zigzag_i64 v)) vs)"

definition wire_participant :: "participant \<Rightarrow> bytes" where
  "wire_participant p = concat
     [fld_varint 1 (ucast (player_id p)), fld_varint 2 (ucast (champion_id p)),
      fld_varint 3 (ucast (position p)), fld_varint 4 (ucast (spell1 p)),
      fld_varint 5 (ucast (spell2 p)), fld_bytes 6 (packed_u32 (runes p)),
      fld_bytes 7 (packed_sint64 (stats p))]"

definition wire_frame :: "minute_frame \<Rightarrow> bytes" where
  "wire_frame f = concat
     [fld_varint 1 (ucast (minute f)), fld_bytes 2 (packed_u32 (total_gold f)),
      fld_bytes 3 (packed_u32 (xp f)), fld_bytes 4 (packed_u32 (cs f)),
      fld_bytes 5 (packed_u32 (dmg_to_champs f))]"

definition wire_kill :: "kill_event \<Rightarrow> bytes" where
  "wire_kill k = concat
     [fld_varint 1 (ucast (k_t_s k)), fld_varint 2 (ucast (k_killer k)),
      fld_varint 3 (ucast (k_victim k)), fld_varint 4 (ucast (k_assist_mask k)),
      fld_varint 5 (ucast (k_x k)), fld_varint 6 (ucast (k_y k))]"

definition wire_objective :: "objective_event \<Rightarrow> bytes" where
  "wire_objective b = concat
     [fld_varint 1 (ucast (o_t_s b)), fld_varint 2 (ucast (o_kind b)),
      fld_varint 3 (ucast (o_killer b)), fld_varint 4 (ucast (o_losing_team b)),
      fld_varint 5 (ucast (o_lane b))]"

definition wire_ward :: "ward_event \<Rightarrow> bytes" where
  "wire_ward w = concat
     [fld_varint 1 (ucast (w_t_s w)), fld_varint 2 (ucast (w_kind w)),
      fld_varint 3 (ucast (w_participant w))]"

definition wire_timeline :: "timeline_lite \<Rightarrow> bytes" where
  "wire_timeline t =
     concat (map (\<lambda>f. fld_message 1 (wire_frame f)) (frames t))
     @ concat (map (\<lambda>k. fld_message 2 (wire_kill k)) (kills t))
     @ concat (map (\<lambda>b. fld_message 3 (wire_objective b)) (objectives t))
     @ concat (map (\<lambda>w. fld_message 4 (wire_ward w)) (wards t))"

definition wire_record :: "match_record \<Rightarrow> bytes" where
  "wire_record r = concat
     [fld_varint 1 (ucast (schema_version r)), fld_varint 2 (game_id r),
      fld_bytes 3 (as_bytes (platform r)), fld_varint 4 (ucast (queue_id r)),
      fld_varint 5 (game_start_ms r), fld_varint 6 (ucast (duration_s r)),
      fld_varint 7 (if blue_won r then 1 else 0), fld_bytes 8 (as_bytes (game_version r)),
      fld_varint 9 (ucast (patch_major r)), fld_varint 10 (ucast (patch_minor r)),
      concat (map (\<lambda>p. fld_message 11 (wire_participant p)) (participants r)),
      (case timeline r of None \<Rightarrow> [] | Some t \<Rightarrow> fld_message 12 (wire_timeline t)),
      fld_bytes 13 (packed_u32 (bans r))]"

subsection \<open>The decoder's field writers produce them\<close>

lemma push_bit_3_key: "push_bit 3 (ucast (f :: u32)) = (of_nat (8 * unat f) :: u64)"
  by (simp add: push_bit_eq_mult)

lemma push_bit_3_key_2: "(push_bit 3 (ucast (f :: u32)) OR 2 :: u64) = of_nat (8 * unat f + 2)"
proof -
  have "\<not> bit (push_bit 3 (ucast f) :: u64) n \<or> \<not> bit (2 :: u64) n" for n
    by (cases "n = 1") (auto simp: bit_simps bit_2_iff)
  then have "(push_bit 3 (ucast f) OR 2 :: u64) = push_bit 3 (ucast f) + 2"
    by (intro disjunctive_add[symmetric]) auto
  then show ?thesis by (simp add: push_bit_eq_mult)
qed

lemma put_field_eq [codec_simps]:
  "put_field_varint out f v = out @ fld_varint f v"
  "put_field_int64 out f v = out @ fld_varint f v"
  "put_field_message out f bs = out @ fld_message f bs"
  "put_field_bytes out f bs = out @ fld_bytes f bs"
  "put_field_packed_body out f bs = out @ fld_bytes f bs"
  unfolding put_field_varint_def put_field_int64_def put_field_message_def put_field_bytes_def
    put_field_packed_body_def fld_varint_def fld_message_def fld_bytes_def wire_key_def push_bit_3_key_2
  by (simp_all add: push_bit_3_key del: of_nat_mult)

lemma foldl_append_concat: "foldl (\<lambda>acc a. acc @ g a) acc xs = acc @ concat (map g xs)"
  by (induction xs arbitrary: acc) auto

section \<open>Loops without delta state\<close>

definition rune_toks :: "nat \<Rightarrow> u32 \<Rightarrow> tok list" where
  "rune_toks i rune = [(Rune i, write_varint (ucast rune))]"

definition stat_toks :: "nat \<Rightarrow> i64 \<Rightarrow> tok list" where
  "stat_toks i stat = [(Stat i, write_varint (zigzag_i64 stat))]"

definition ban_toks :: "nat \<Rightarrow> u32 \<Rightarrow> tok list" where
  "ban_toks i ban = [(Fixed BANS, write_varint (ucast ban))]"

definition slot_toks :: "nat \<Rightarrow> u32 list \<Rightarrow> nat \<Rightarrow> u32 \<Rightarrow> tok list" where
  "slot_toks v_col prev_vals slot v =
     (if v_col < NMISC
      then [(Fixed v_col, write_varint (zigzag_i64 (ucast v - ucast (get_or_0 prev_vals slot))))]
      else [])"

interpretation rune_codec:
  plain_codec encode_rune decode_rune rune_toks "\<lambda>acc v. acc @ write_varint (ucast v)" "\<lambda>_. True"
proof
  show "writes (encode_rune i a) (rune_toks i a)" for i a
    unfolding encode_rune_def rune_toks_def by (rule writes_wrune)
  show "runs (decode_rune i acc) (rune_toks i a) (acc @ write_varint (ucast a))" for i acc a
    unfolding decode_rune_def rune_toks_def
    by (rule runs_bind_Cons[OF runs_rrune_v], rule runs_bind_Nil[OF runs_lift])
      (auto intro: runs_ret)
qed

interpretation stat_codec:
  plain_codec wstat_z decode_stat stat_toks "\<lambda>acc v. acc @ write_varint (zigzag_i64 v)" "\<lambda>_. True"
proof
  show "writes (wstat_z i a) (stat_toks i a)" for i a
    unfolding stat_toks_def by (rule writes_wstat_z)
  show "runs (decode_stat i acc) (stat_toks i a) (acc @ write_varint (zigzag_i64 a))" for i acc a
    unfolding decode_stat_def stat_toks_def
    by (rule runs_bind_Cons[OF runs_rstat_z]) (rule runs_ret)
qed

lemma below_NMISC [simp]: "k < 50 \<Longrightarrow> k < NMISC"
  by (simp add: NMISC_def)

interpretation ban_codec:
  plain_codec encode_ban decode_ban ban_toks "\<lambda>acc v. acc @ write_varint (ucast v)" "\<lambda>_. True"
proof
  show "writes (encode_ban i a) (ban_toks i a)" for i a
    unfolding encode_ban_def ban_toks_def by (rule writes_wv) simp
  show "runs (decode_ban i acc) (ban_toks i a) (acc @ write_varint (ucast a))" for i acc a
    unfolding decode_ban_def ban_toks_def
    by (rule runs_bind_Cons[OF runs_rv_u32]) (auto intro: runs_ret)
qed

lemma wz_out_of_range: "\<not> k < NMISC \<Longrightarrow> length (cfixed c) = NMISC \<Longrightarrow> wz k v c = c"
  by (simp add: wz_def wv_def push_to_def not_less list_update_beyond)

interpretation slot_codec:
  plain_codec "encode_slot v_col prev" "decode_slot v_col prev" "slot_toks v_col prev"
    "\<lambda>acc v. (fst acc @ write_varint (ucast v), snd acc @ [v])" "\<lambda>_. v_col < NMISC"
  for v_col prev
proof
  show "writes (encode_slot v_col prev i a) (slot_toks v_col prev i a)" for i a
    using writes_wz[of v_col "ucast a - ucast (get_or_0 prev i)"]
    by (cases "v_col < NMISC") (simp_all add: encode_slot_def slot_toks_def writes_def wz_out_of_range)
  fix i :: nat and a :: u32 and acc :: "bytes \<times> u32 list" assume k: "v_col < NMISC"
  obtain packed vals where acc: "acc = (packed, vals)" by (cases acc)
  show "runs (decode_slot v_col prev i acc) (slot_toks v_col prev i a)
    (fst acc @ write_varint (ucast a), snd acc @ [a])"
    unfolding decode_slot_def slot_toks_def acc Let_def prod.case if_P[OF k]
    by (rule runs_bind_Cons[OF runs_rz[OF k]], rule runs_bind_Nil[OF runs_lift])
      (auto intro: runs_ret simp: add_delta_u32_diff)
qed


subsection \<open>Composing writers\<close>

lemma writes_from: "writes f ts \<Longrightarrow> ts = us \<Longrightarrow> writes f us"
  by simp

lemmas then_wv = writes_comp[OF _ writes_wv]
lemmas then_wz = writes_comp[OF _ writes_wz]
lemmas then_wbytes = writes_comp[OF _ writes_wbytes]
lemmas then_loops =
  writes_comp[OF _ rune_codec.for_each_writes] writes_comp[OF _ stat_codec.for_each_writes]
  writes_comp[OF _ ban_codec.for_each_writes] writes_comp[OF _ slot_codec.for_each_writes]

subsection \<open>Participants\<close>

definition participant_toks :: "nat \<Rightarrow> participant \<Rightarrow> tok list" where
  "participant_toks i p =
     (Fixed P_PLAYER, write_varint (ucast (player_id p)))
     # (Fixed P_CHAMP, write_varint (ucast (champion_id p)))
     # (Fixed P_POS, write_varint (ucast (position p)))
     # (Fixed P_SP1, write_varint (ucast (spell1 p)))
     # (Fixed P_SP2, write_varint (ucast (spell2 p)))
     # (Fixed P_RUNES_N, write_varint (of_nat (length (runes p))))
     # emit_list rune_toks 0 (runes p)
     @ (Fixed P_STATS_N, write_varint (of_nat (length (stats p))))
     # emit_list stat_toks 0 (stats p)"

text \<open>A Rust vector has fewer than \<open>2 ^ 64\<close> elements.\<close>

definition vec_fits :: "'a list \<Rightarrow> bool" where
  "vec_fits xs \<longleftrightarrow> length xs < 2 ^ 64"

definition participant_fits :: "participant \<Rightarrow> bool" where
  "participant_fits p \<longleftrightarrow> vec_fits (runes p) \<and> vec_fits (stats p)"

lemma list_all_True [simp]: "list_all (\<lambda>_. True) xs"
  by (simp add: list_all_iff)

interpretation participant_codec:
  plain_codec encode_participant decode_participant participant_toks
    "\<lambda>acc p. acc @ fld_message 11 (wire_participant p)" participant_fits
proof
  show "writes (encode_participant i p) (participant_toks i p)" for i p
    unfolding encode_participant_def Let_def
    by (rule writes_from, (rule then_wv then_loops writes_id)+)
      (simp_all add: participant_toks_def)
  fix i :: nat and p :: participant and acc assume "participant_fits p"
  then have len: "length (runes p) < 2 ^ 64" "length (stats p) < 2 ^ 64"
    by (simp_all add: participant_fits_def vec_fits_def)
  show "runs (decode_participant i acc) (participant_toks i p)
     (acc @ fld_message 11 (wire_participant p))"
    unfolding decode_participant_def participant_toks_def Let_def
    apply (rule runs_bind_Cons[OF runs_rv_u32], simp)+
    apply (rule runs_bind_Cons[OF runs_rv_usize[OF _ len(1)]], simp)
    apply (rule runs_bind[OF rune_codec.for_range_runs], simp)
    apply (rule runs_bind_Cons[OF runs_rv_usize[OF _ len(2)]], simp)
    apply (rule runs_bind_last[OF stat_codec.for_range_runs], simp)
    apply (rule runs_ret_eq)
    apply (simp add: codec_simps foldl_append_concat wire_participant_def packed_u32_def packed_sint64_def)
    done
qed


section \<open>Timeline\<close>

definition series_toks :: "nat \<Rightarrow> nat \<Rightarrow> u32 list \<Rightarrow> u32 list \<Rightarrow> tok list" where
  "series_toks n_col v_col prev vals =
     (Fixed n_col, write_varint (of_nat (length vals))) # emit_list (slot_toks v_col prev) 0 vals"

lemma encode_series_writes:
  assumes "n_col < NMISC"
  shows "writes (\<lambda>c. fst (encode_series idx (n_col, v_col, vals) (c, prev)))
     (series_toks n_col v_col (prev ! idx) vals)"
  unfolding encode_series_def Let_def prod.case fst_conv
  by (rule writes_from, (rule then_wv then_loops writes_id assms)+)
    (simp add: series_toks_def)

lemma slot_fold:
  "foldl (\<lambda>acc v. (fst acc @ write_varint (ucast v), snd acc @ [v])) (bs, us) vals =
     (bs @ packed_u32 vals, us @ vals)"
  by (induction vals arbitrary: bs us) (auto simp: packed_u32_def)

lemma decode_series_runs:
  assumes "n_col < NMISC" "v_col < NMISC" "vec_fits vals" "prev ! idx = pv"
  shows "runs (decode_series idx (field, n_col, v_col) (frame, prev))
     (series_toks n_col v_col pv vals)
     (frame @ fld_bytes field (packed_u32 vals), prev[idx := vals])"
  using assms unfolding decode_series_def series_toks_def prod.case vec_fits_def
  apply (intro runs_bind_Cons[OF runs_rv_usize])
    apply simp_all
  apply (rule runs_bind_last[OF slot_codec.for_range_runs])
   apply (simp add: list_all_iff)
  apply (rule runs_ret_eq)
  apply (simp add: slot_fold codec_simps)
  done

definition frame_toks :: "nat \<Rightarrow> u32 list list \<Rightarrow> minute_frame \<Rightarrow> tok list" where
  "frame_toks i prev f =
     (Fixed F_MINUTE, write_varint (ucast (minute f)))
     # series_toks F_GOLD_N F_GOLD (prev ! 0) (total_gold f)
     @ series_toks F_XP_N F_XP (prev ! 1) (xp f)
     @ series_toks F_CS_N F_CS (prev ! 2) (cs f)
     @ series_toks F_DMG_N F_DMG (prev ! 3) (dmg_to_champs f)"

definition frame_series :: "u32 list list \<Rightarrow> minute_frame \<Rightarrow> u32 list list" where
  "frame_series prev f = [total_gold f, xp f, cs f, dmg_to_champs f]"

definition frame_fits :: "minute_frame \<Rightarrow> bool" where
  "frame_fits f \<longleftrightarrow> vec_fits (total_gold f) \<and> vec_fits (xp f) \<and> vec_fits (cs f)
     \<and> vec_fits (dmg_to_champs f)"

lemma length_4_cases:
  assumes "length p = 4"
  obtains a b c d where "p = [a, b, c, d]"
  using assms by (auto simp: numeral_eq_Suc length_Suc_conv)

lemma snd_encode_series [simp]: "snd (encode_series idx s st) = (snd st)[idx := snd (snd s)]"
  by (simp add: encode_series_def Let_def split: prod.split)

lemma writes_series_then:
  assumes "writes (\<lambda>c. fst (st c)) ts" "\<And>c. snd (st c) = prev" "n_col < NMISC"
  shows "writes (\<lambda>c. fst (encode_series idx (n_col, v_col, vals) (st c)))
    (ts @ series_toks n_col v_col (prev ! idx) vals)"
proof -
  have "st c = (fst (st c), prev)" for c using assms(2)[of c] by (metis prod.collapse)
  then have "fst (encode_series idx (n_col, v_col, vals) (st c)) =
    fst (encode_series idx (n_col, v_col, vals) (fst (st c), prev))" for c by metis
  then show ?thesis
    using writes_comp[OF assms(1) encode_series_writes[OF assms(3), of idx v_col vals prev]] by simp
qed

interpretation frame_codec:
  item_codec encode_frame decode_frame frame_toks frame_series
    "\<lambda>acc f. acc @ fld_message 1 (wire_frame f)" "\<lambda>p. length p = 4" frame_fits
proof
  show "length (frame_series p a) = 4" for p a by (simp add: frame_series_def)
  fix i :: nat and f :: minute_frame and c :: cols and p :: "u32 list list" and acc :: bytes
  assume "length p = 4"
  then obtain pg px pc pd where p: "p = [pg, px, pc, pd]" by (rule length_4_cases)
  show "snd (encode_frame i f (c, p)) = frame_series p f"
    by (simp add: encode_frame_def p frame_series_def encode_series_def Let_def)
  show "writes (\<lambda>c. fst (encode_frame i f (c, p))) (frame_toks i p f)"
    unfolding encode_frame_def Let_def prod.case p for_each.simps
    apply (rule writes_from)
     apply (rule writes_series_then[where prev = "[total_gold f, xp f, cs f, pd]"])
       apply (rule writes_series_then[where prev = "[total_gold f, xp f, pc, pd]"])
         apply (rule writes_series_then[where prev = "[total_gold f, px, pc, pd]"])
           apply (rule writes_series_then[where prev = "[pg, px, pc, pd]"])
             apply (unfold fst_conv, rule then_wv[OF writes_id])
             apply (simp_all add: frame_toks_def)
    done
  assume fit: "frame_fits f"
  show "runs (decode_frame i (acc, p)) (frame_toks i p f)
     (acc @ fld_message 1 (wire_frame f), frame_series p f)"
    unfolding decode_frame_def frame_toks_def Let_def prod.case for_list.simps p
    apply (rule runs_bind_Cons[OF runs_rv_u32], simp)
    apply (rule runs_bind_last)
     apply (rule runs_bind[OF decode_series_runs], use fit in \<open>simp_all add: frame_fits_def\<close>)+
     apply (rule runs_bind_last[OF decode_series_runs], use fit in \<open>simp_all add: frame_fits_def\<close>)
     apply (rule runs_ret)
    apply (rule runs_ret_eq)
    apply (simp add: codec_simps wire_frame_def frame_series_def)
    done
qed

definition kill_toks :: "nat \<Rightarrow> u32 \<Rightarrow> kill_event \<Rightarrow> tok list" where
  "kill_toks i prev_t k =
     [(Fixed K_T, write_varint (zigzag_i64 (ucast (k_t_s k) - ucast prev_t))),
      (Fixed K_KILLER, write_varint (ucast (k_killer k))),
      (Fixed K_VICTIM, write_varint (ucast (k_victim k))),
      (Fixed K_MASK, write_varint (ucast (k_assist_mask k))),
      (Fixed K_X, write_varint (ucast (k_x k))),
      (Fixed K_Y, write_varint (ucast (k_y k)))]"

definition objective_toks :: "nat \<Rightarrow> u32 \<Rightarrow> objective_event \<Rightarrow> tok list" where
  "objective_toks i prev_t b =
     [(Fixed O_T, write_varint (zigzag_i64 (ucast (o_t_s b) - ucast prev_t))),
      (Fixed O_KIND, write_varint (ucast (o_kind b))),
      (Fixed O_KILLER, write_varint (ucast (o_killer b))),
      (Fixed O_TEAM, write_varint (ucast (o_losing_team b))),
      (Fixed O_LANE, write_varint (ucast (o_lane b)))]"

definition ward_toks :: "nat \<Rightarrow> u32 \<Rightarrow> ward_event \<Rightarrow> tok list" where
  "ward_toks i prev_t w =
     [(Fixed W_T, write_varint (zigzag_i64 (ucast (w_t_s w) - ucast prev_t))),
      (Fixed W_KIND, write_varint (ucast (w_kind w))),
      (Fixed W_PART, write_varint (ucast (w_participant w)))]"

lemma runs_delta_u32_then:
  assumes "k < NMISC" "runs (f v) us w"
  shows "runs (rd_bind (rz k) (\<lambda>d. rd_bind (rd_lift (add_delta_u32 prev d)) f))
     ((Fixed k, write_varint (zigzag_i64 (ucast v - ucast prev))) # us) w"
  by (rule runs_bind_Cons[OF runs_rz[OF assms(1)]], rule runs_bind_Nil[OF runs_lift])
    (auto simp: add_delta_u32_diff assms)

interpretation kill_codec:
  item_codec encode_kill decode_kill kill_toks "\<lambda>_. k_t_s"
    "\<lambda>acc k. acc @ fld_message 2 (wire_kill k)" "\<lambda>_. True" "\<lambda>_. True"
proof
  fix i k c p and acc :: bytes
  show "snd (encode_kill i k (c, p)) = k_t_s k" by (simp add: encode_kill_def Let_def)
  show "writes (\<lambda>c. fst (encode_kill i k (c, p))) (kill_toks i p k)"
    unfolding encode_kill_def Let_def prod.case fst_conv
    by (rule writes_from, (rule then_wv then_wz writes_id)+) (simp_all add: kill_toks_def)
  show "runs (decode_kill i (acc, p)) (kill_toks i p k) (acc @ fld_message 2 (wire_kill k), k_t_s k)"
    unfolding decode_kill_def kill_toks_def Let_def prod.case
    by (rule runs_delta_u32_then, simp, (rule runs_bind_Cons[OF runs_rv_u32], simp)+,
        rule runs_ret_eq) (simp add: codec_simps wire_kill_def)
qed simp

interpretation objective_codec:
  item_codec encode_objective decode_objective objective_toks "\<lambda>_. o_t_s"
    "\<lambda>acc b. acc @ fld_message 3 (wire_objective b)" "\<lambda>_. True" "\<lambda>_. True"
proof
  fix i b c p and acc :: bytes
  show "snd (encode_objective i b (c, p)) = o_t_s b" by (simp add: encode_objective_def Let_def)
  show "writes (\<lambda>c. fst (encode_objective i b (c, p))) (objective_toks i p b)"
    unfolding encode_objective_def Let_def prod.case fst_conv
    by (rule writes_from, (rule then_wv then_wz writes_id)+) (simp_all add: objective_toks_def)
  show "runs (decode_objective i (acc, p)) (objective_toks i p b)
     (acc @ fld_message 3 (wire_objective b), o_t_s b)"
    unfolding decode_objective_def objective_toks_def Let_def prod.case
    by (rule runs_delta_u32_then, simp, (rule runs_bind_Cons[OF runs_rv_u32], simp)+,
        rule runs_ret_eq) (simp add: codec_simps wire_objective_def)
qed simp

interpretation ward_codec:
  item_codec encode_ward decode_ward ward_toks "\<lambda>_. w_t_s"
    "\<lambda>acc w. acc @ fld_message 4 (wire_ward w)" "\<lambda>_. True" "\<lambda>_. True"
proof
  fix i w c p and acc :: bytes
  show "snd (encode_ward i w (c, p)) = w_t_s w" by (simp add: encode_ward_def Let_def)
  show "writes (\<lambda>c. fst (encode_ward i w (c, p))) (ward_toks i p w)"
    unfolding encode_ward_def Let_def prod.case fst_conv
    by (rule writes_from, (rule then_wv then_wz writes_id)+) (simp_all add: ward_toks_def)
  show "runs (decode_ward i (acc, p)) (ward_toks i p w) (acc @ fld_message 4 (wire_ward w), w_t_s w)"
    unfolding decode_ward_def ward_toks_def Let_def prod.case
    by (rule runs_delta_u32_then, simp, (rule runs_bind_Cons[OF runs_rv_u32], simp)+,
        rule runs_ret_eq) (simp add: codec_simps wire_ward_def)
qed simp

definition timeline_toks :: "timeline_lite \<Rightarrow> tok list" where
  "timeline_toks t =
     (Fixed NFRAMES, write_varint (of_nat (length (frames t))))
     # emit_all frame_toks frame_series 0 (replicate 4 []) (frames t)
     @ (Fixed NKILLS, write_varint (of_nat (length (kills t))))
     # emit_all kill_toks (\<lambda>_. k_t_s) 0 0 (kills t)
     @ (Fixed NOBJS, write_varint (of_nat (length (objectives t))))
     # emit_all objective_toks (\<lambda>_. o_t_s) 0 0 (objectives t)
     @ (Fixed NWARDS, write_varint (of_nat (length (wards t))))
     # emit_all ward_toks (\<lambda>_. w_t_s) 0 0 (wards t)"

definition timeline_fits :: "timeline_lite \<Rightarrow> bool" where
  "timeline_fits t \<longleftrightarrow> vec_fits (frames t) \<and> list_all frame_fits (frames t)
     \<and> vec_fits (kills t) \<and> vec_fits (objectives t) \<and> vec_fits (wards t)"

lemmas then_event_loops =
  writes_comp[OF _ frame_codec.for_each_writes] writes_comp[OF _ kill_codec.for_each_writes]
  writes_comp[OF _ objective_codec.for_each_writes] writes_comp[OF _ ward_codec.for_each_writes]

lemma encode_timeline_writes: "writes (encode_timeline t) (timeline_toks t)"
  unfolding encode_timeline_def Let_def
  by (rule writes_from, (rule then_event_loops then_wv writes_id)+)
    (simp_all add: timeline_toks_def)

lemma decode_timeline_runs:
  assumes "timeline_fits t"
  shows "runs decode_timeline (timeline_toks t) (wire_timeline t)"
proof -
  from assms have len: "length (frames t) < 2 ^ 64" "length (kills t) < 2 ^ 64"
    "length (objectives t) < 2 ^ 64" "length (wards t) < 2 ^ 64" "list_all frame_fits (frames t)"
    by (simp_all add: timeline_fits_def vec_fits_def)
  show ?thesis
    unfolding decode_timeline_def timeline_toks_def
    apply (rule runs_bind_Cons[OF runs_rv_usize[OF _ len(1)]], simp)
    apply (rule runs_bind[OF frame_codec.for_range_runs[OF _ len(5)]], simp)
    apply (rule runs_bind_Cons[OF runs_rv_usize[OF _ len(2)]], simp)
    apply (rule runs_bind[OF kill_codec.for_range_runs], simp, simp)
    apply (rule runs_bind_Cons[OF runs_rv_usize[OF _ len(3)]], simp)
    apply (rule runs_bind[OF objective_codec.for_range_runs], simp, simp)
    apply (rule runs_bind_Cons[OF runs_rv_usize[OF _ len(4)]], simp)
    apply (rule runs_bind_last[OF ward_codec.for_range_runs], simp, simp)
    apply (rule runs_ret_eq)
    apply (simp add: wire_timeline_def foldl_append_concat)
    done
qed

end
