(* ===== verification/Columnar_Block.thy ===== *)
theory Columnar_Block
  imports Columnar_Codec
begin

text \<open>
  The columnar codec on whole records and whole blocks: the payload of a block decodes to
  the canonical bytes of its records, the self-check of \<^verbatim>\<open>encode_block\<close> accepts every
  canonical input, and a block that \<^verbatim>\<open>encode_block\<close> returns always decodes to its input.
\<close>

section \<open>One record\<close>

definition record_head_toks :: "i64 \<Rightarrow> i64 \<Rightarrow> match_record \<Rightarrow> tok list" where
  "record_head_toks gid_d start_d r =
     [(Fixed SCHEMA, write_varint (ucast (schema_version r))),
      (Fixed GID_D, write_varint (zigzag_i64 gid_d)),
      (Fixed PLAT_LEN, write_varint (of_nat (length (as_bytes (platform r))))),
      (Fixed PLAT, as_bytes (platform r)),
      (Fixed QUEUE, write_varint (ucast (queue_id r))),
      (Fixed START_D, write_varint (zigzag_i64 start_d)),
      (Fixed DUR, write_varint (ucast (duration_s r))),
      (Fixed BLUE, write_varint (if blue_won r then 1 else 0)),
      (Fixed GV_LEN, write_varint (of_nat (length (as_bytes (game_version r))))),
      (Fixed GV, as_bytes (game_version r)),
      (Fixed PMAJ, write_varint (ucast (patch_major r))),
      (Fixed PMIN, write_varint (ucast (patch_minor r)))]"

definition record_bans_toks :: "match_record \<Rightarrow> tok list" where
  "record_bans_toks r =
     (Fixed BANS_N, write_varint (of_nat (length (bans r)))) # emit_list ban_toks 0 (bans r)"

definition record_body_toks :: "match_record \<Rightarrow> tok list" where
  "record_body_toks r =
     (Fixed NPARTS, write_varint (of_nat (length (participants r))))
     # emit_list participant_toks 0 (participants r)
     @ (Fixed TL_PRESENT, write_varint (if timeline r \<noteq> None then 1 else 0))
     # (case timeline r of Some t \<Rightarrow> timeline_toks t | None \<Rightarrow> [])"

text \<open>The encoder's order; the decoder reads the bans last.\<close>

definition record_toks :: "i64 \<Rightarrow> i64 \<Rightarrow> match_record \<Rightarrow> tok list" where
  "record_toks gid_d start_d r =
     record_head_toks gid_d start_d r @ record_bans_toks r @ record_body_toks r"

definition record_fits :: "match_record \<Rightarrow> bool" where
  "record_fits r \<longleftrightarrow> vec_fits (platform r) \<and> vec_fits (game_version r) \<and> vec_fits (bans r)
     \<and> vec_fits (participants r) \<and> list_all participant_fits (participants r)
     \<and> (case timeline r of Some t \<Rightarrow> timeline_fits t | None \<Rightarrow> True)"

definition record_state :: "match_record \<Rightarrow> block_state" where
  "record_state r = \<lparr>bs_game_id = game_id r, bs_game_start_ms = game_start_ms r\<rparr>"

lemma start_of_gid_update: "bs_game_start_ms (st\<lparr>bs_game_id := g\<rparr>) = bs_game_start_ms st"
  by simp

lemma writes_option_timeline:
  assumes "writes f ts"
  shows "writes (\<lambda>c. case m of Some t \<Rightarrow> encode_timeline t (f c) | None \<Rightarrow> f c)
    (ts @ (case m of Some t \<Rightarrow> timeline_toks t | None \<Rightarrow> []))"
  using assms writes_comp[OF assms encode_timeline_writes] by (cases m) simp_all

lemmas then_participants = writes_comp[OF _ participant_codec.for_each_writes]

lemma encode_record_writes:
  assumes "delta_u64 (game_id r) (bs_game_id st) = Inr gid_d"
    and "delta_i64 (game_start_ms r) (bs_game_start_ms st) = Inr start_d"
  obtains f where "\<And>c. encode_record r (c, st) = Inr (f c, record_state r)"
    and "writes f (record_toks gid_d start_d r)"
proof -
  let ?f = "\<lambda>c. fst (projr (encode_record r (c, st)))"
  have eq: "encode_record r (c, st) = Inr (?f c, record_state r)" for c
    using assms by (simp add: encode_record_def Let_def record_state_def)
  moreover have "writes ?f (record_toks gid_d start_d r)"
    unfolding encode_record_def prod.case Let_def assms start_of_gid_update res_bind_simps sum.sel fst_conv
    by (rule writes_from,
        (rule writes_option_timeline then_participants then_loops then_wv then_wz then_wbytes writes_id)+)
      (simp_all add: record_toks_def record_head_toks_def record_bans_toks_def record_body_toks_def)
  ultimately show thesis by (rule that)
qed

text \<open>Disjoint columns commute.\<close>

lemma ban_columns_free:
  assumes "k = Fixed BANS_N \<or> k = Fixed BANS"
  shows "proj k (record_body_toks r) = []"
proof -
  have slots: "proj k (emit_list (slot_toks v prev) i vals) = []" if "v \<noteq> 12" "v \<noteq> 13" for v prev i vals
    using that assms by (intro emit_list_free) (auto simp: slot_toks_def)
  have "proj k (participant_toks i p) = []" for i p
    using assms emit_list_free[of k rune_toks 0 "runes p"] emit_list_free[of k stat_toks 0 "stats p"]
    by (auto simp: participant_toks_def rune_toks_def stat_toks_def)
  moreover have "proj k (frame_toks i prev f) = []" for i prev f
    using assms by (auto simp: frame_toks_def series_toks_def slots)
  moreover have "proj k (kill_toks i prev e) = []" "proj k (objective_toks i prev b) = []"
    "proj k (ward_toks i prev w) = []" for i prev e b w
    using assms by (auto simp: kill_toks_def objective_toks_def ward_toks_def)
  ultimately have "proj k (timeline_toks t) = []" "proj k (emit_list participant_toks 0 ps) = []" for t ps
    using assms by (auto simp: timeline_toks_def emit_all_free emit_list_free)
  with assms show ?thesis by (auto simp: record_body_toks_def split: option.split)
qed

lemma proj_bans_other: "k \<noteq> Fixed BANS_N \<Longrightarrow> k \<noteq> Fixed BANS \<Longrightarrow> proj k (record_bans_toks r) = []"
  using emit_list_free[of k ban_toks 0 "bans r"] by (auto simp: record_bans_toks_def ban_toks_def)

lemma record_toks_reorder:
  "proj k (record_head_toks g s r @ record_body_toks r @ record_bans_toks r) = proj k (record_toks g s r)"
  using ban_columns_free[of k r] proj_bans_other[of k r]
  by (cases "k = Fixed BANS_N \<or> k = Fixed BANS") (auto simp: record_toks_def)

lemma runs_check_le_1: "v \<le> 1 \<Longrightarrow> runs (rd_lift (if v \<le> 1 then Inr () else Inl e)) [] ()"
  by (rule runs_lift) simp

lemma decode_record_runs:
  assumes "record_fits r"
    and gid: "delta_u64 (game_id r) (bs_game_id st) = Inr gid_d"
    and start: "delta_i64 (game_start_ms r) (bs_game_start_ms st) = Inr start_d"
  shows "runs (decode_record st) (record_toks gid_d start_d r) (wire_record r, record_state r)"
proof -
  from assms(1) have len: "length (as_bytes (platform r)) < 2 ^ 64" "length (as_bytes (game_version r)) < 2 ^ 64"
    "length (bans r) < 2 ^ 64" "length (participants r) < 2 ^ 64" "list_all participant_fits (participants r)"
    by (simp_all add: record_fits_def vec_fits_def)
  note u32 = runs_bind_Cons[OF runs_rv_u32]
  have tl: "runs (if b = 1 then rd_bind decode_timeline (\<lambda>tline. rd_ret (put_field_message out 12 tline)) else rd_ret out)
      (case timeline r of Some t \<Rightarrow> timeline_toks t | None \<Rightarrow> [])
      (out @ (case timeline r of None \<Rightarrow> [] | Some t \<Rightarrow> fld_message 12 (wire_timeline t)))"
    if "b = (if timeline r \<noteq> None then 1 else (0 :: u64))" for b out
    using assms(1) that
    by (cases "timeline r") (auto simp: record_fits_def codec_simps
        intro!: runs_ret runs_bind_last[OF decode_timeline_runs])
  have "runs (decode_record st) (record_head_toks gid_d start_d r @ record_body_toks r @ record_bans_toks r)
     (wire_record r, record_state r)"
    unfolding decode_record_def Let_def record_head_toks_def record_body_toks_def record_bans_toks_def
      append_Cons append_Nil append_assoc
    apply (rule u32, simp)
    apply (rule runs_bind_Cons[OF runs_rz], simp)
    apply (rule runs_bind_Nil[OF runs_lift[OF add_delta_u64_delta[OF gid]]])
    apply (rule runs_bind_Cons[OF runs_rv_usize[OF _ len(1)]], simp)
    apply (rule runs_bind_Cons[OF runs_rbytes], simp)
    apply (rule u32, simp)
    apply (rule runs_bind_Cons[OF runs_rz], simp)
    apply (unfold start_of_gid_update)
    apply (rule runs_bind_Nil[OF runs_lift[OF add_delta_i64_delta[OF start]]])
    apply (rule u32, simp)
    apply (rule runs_bind_Cons[OF runs_rv], simp)
    apply (rule runs_bind_Nil[OF runs_check_le_1], simp)
    apply (rule runs_bind_Cons[OF runs_rv_usize[OF _ len(2)]], simp)
    apply (rule runs_bind_Cons[OF runs_rbytes], simp)
    apply (rule u32, simp)
    apply (rule u32, simp)
    apply (rule runs_bind_Cons[OF runs_rv_usize[OF _ len(4)]], simp)
    apply (rule runs_bind[OF participant_codec.for_range_runs[OF len(5)]])
    apply (rule runs_bind_Cons[OF runs_rv], simp)
    apply (rule runs_bind_Nil[OF runs_check_le_1], simp)
    apply (rule runs_bind[OF tl], simp)
    apply (rule runs_bind_Cons[OF runs_rv_usize[OF _ len(3)]], simp)
    apply (rule runs_bind_last[OF ban_codec.for_range_runs], simp)
    apply (rule runs_ret_eq)
    apply (simp add: codec_simps foldl_append_concat wire_record_def packed_u32_def record_state_def)
    done
  then show ?thesis by (rule runs_cong) (rule record_toks_reorder)
qed


section \<open>Blocks\<close>

text \<open>The tokens of a whole block and the ranges the delta columns can express.\<close>

fun block_toks :: "block_state \<Rightarrow> match_record list \<Rightarrow> tok list" where
  "block_toks st [] = []"
| "block_toks st (r # rs) =
     record_toks (projr (delta_u64 (game_id r) (bs_game_id st)))
       (projr (delta_i64 (game_start_ms r) (bs_game_start_ms st))) r
     @ block_toks (record_state r) rs"

fun deltas_fit :: "block_state \<Rightarrow> match_record list \<Rightarrow> bool" where
  "deltas_fit st [] \<longleftrightarrow> True"
| "deltas_fit st (r # rs) \<longleftrightarrow>
     - (2 ^ 63) \<le> uint (game_id r) - uint (bs_game_id st)
     \<and> uint (game_id r) - uint (bs_game_id st) < 2 ^ 63
     \<and> - (2 ^ 63) \<le> sint (game_start_ms r) - sint (bs_game_start_ms st)
     \<and> sint (game_start_ms r) - sint (bs_game_start_ms st) < 2 ^ 63
     \<and> deltas_fit (record_state r) rs"

lemma deltas_fit_Cons:
  assumes "deltas_fit st (r # rs)"
  obtains g s where "delta_u64 (game_id r) (bs_game_id st) = Inr g"
    "delta_i64 (game_start_ms r) (bs_game_start_ms st) = Inr s" "deltas_fit (record_state r) rs"
  using assms by (simp add: delta_u64_def delta_i64_def Let_def)

lemma encode_decoded_writes:
  assumes "deltas_fit st rs" "map decode raws = map Some rs"
  shows "\<exists>f st'. (\<forall>c. encode_records decode idx raws (c, st) = Inr (f c, st'))
     \<and> writes f (block_toks st rs)"
  using assms
proof (induction rs arbitrary: st idx raws)
  case Nil
  then show ?case by (auto intro: writes_id)
next
  case (Cons r rs)
  from Cons.prems(2) obtain raw raws' where raws: "raws = raw # raws'" "decode raw = Some r" "map decode raws' = map Some rs" by auto
  from Cons.prems(1) obtain g s where gs: "delta_u64 (game_id r) (bs_game_id st) = Inr g"
    "delta_i64 (game_start_ms r) (bs_game_start_ms st) = Inr s"
    and "deltas_fit (record_state r) rs" by (rule deltas_fit_Cons)
  from Cons.IH[OF this(3) raws(3), of "Suc idx"] obtain f' st' where
    f': "\<And>c. encode_records decode (Suc idx) raws' (c, record_state r) = Inr (f' c, st')"
    "writes f' (block_toks (record_state r) rs)" by auto
  from encode_record_writes[OF gs] obtain f where
    f: "\<And>c. encode_record r (c, st) = Inr (f c, record_state r)" "writes f (record_toks g s r)" by auto
  have "encode_records decode idx raws (c, st) = Inr (f' (f c), st')" for c
    using raws(1,2) f(1) f'(1) by simp
  moreover have "writes (\<lambda>c. f' (f c)) (block_toks st (r # rs))"
    using writes_comp[OF f(2) f'(2)] gs by simp
  ultimately show ?case by (intro exI conjI allI)
qed

lemma encode_decoded_unfit:
  assumes "\<not> deltas_fit st rs" "map decode raws = map Some rs"
  shows "encode_records decode idx (raws @ rest) (c, st) = Inl DeltaExceedsI64"
  using assms
proof (induction rs arbitrary: st idx c raws)
  case (Cons r rs)
  from Cons.prems(2) obtain raw raws' where raws: "raws = raw # raws'" "decode raw = Some r" "map decode raws' = map Some rs" by auto
  show ?case
  proof (cases "deltas_fit st [r]")
    case True
    then obtain g s where "delta_u64 (game_id r) (bs_game_id st) = Inr g"
      "delta_i64 (game_start_ms r) (bs_game_start_ms st) = Inr s" by (rule deltas_fit_Cons)
    from encode_record_writes[OF this] obtain f where
      "\<And>c. encode_record r (c, st) = Inr (f c, record_state r)" by auto
    moreover have "\<not> deltas_fit (record_state r) rs" using Cons.prems(1) True by auto
    ultimately show ?thesis using raws Cons.IH by simp
  next
    case False
    then have "encode_record r (c, st) = Inl DeltaExceedsI64"
      by (auto simp: encode_record_def Let_def delta_u64_def delta_i64_def)
    then show ?thesis using raws(1,2) by simp
  qed
qed simp

lemma encode_records_append:
  "encode_records decode idx (xs @ ys) st = res_bind (encode_records decode idx xs st) (encode_records decode (idx + length xs) ys)"
proof (induction xs arbitrary: idx st)
  case (Cons x xs)
  then show ?case by (cases "decode x"; cases "encode_record (the (decode x)) st") simp_all
qed simp

lemma encode_records_writes:
  assumes "deltas_fit st rs" "\<And>r. r \<in> set rs \<Longrightarrow> decode (wire r) = Some r"
  shows "\<exists>f st'. (\<forall>c. encode_records decode idx (map wire rs) (c, st) = Inr (f c, st'))
     \<and> writes f (block_toks st rs)"
  by (rule encode_decoded_writes[OF assms(1)]) (simp add: assms(2))

lemma decode_into_runs:
  assumes "deltas_fit st rs" "list_all record_fits rs"
  shows "\<exists>st'. runs (for_range decode_into (length rs) i (acc, st)) (block_toks st rs)
    (acc @ map wire_record rs, st')"
  using assms
proof (induction rs arbitrary: st i acc)
  case Nil
  then show ?case by (auto intro: runs_ret)
next
  case (Cons r rs)
  from Cons.prems(1) obtain g s where gs: "delta_u64 (game_id r) (bs_game_id st) = Inr g"
    "delta_i64 (game_start_ms r) (bs_game_start_ms st) = Inr s"
    and "deltas_fit (record_state r) rs" by (rule deltas_fit_Cons)
  from Cons.IH[OF this(3), of "Suc i" "acc @ [wire_record r]"] Cons.prems(2) obtain st' where
    rest: "runs (for_range decode_into (length rs) (Suc i) (acc @ [wire_record r], record_state r))
      (block_toks (record_state r) rs) ((acc @ [wire_record r]) @ map wire_record rs, st')" by auto
  have "runs (decode_into i (acc, st)) (record_toks g s r) (acc @ [wire_record r], record_state r)"
    unfolding decode_into_def prod.case
    by (rule runs_bind_last[OF decode_record_runs[OF _ gs]], use Cons.prems in simp)
      (auto intro: runs_ret)
  from runs_bind[OF this, of "for_range decode_into (length rs) (Suc i)", OF rest] gs
  show ?case by auto
qed

subsection \<open>Container\<close>

lemma checked_sum_eq: "acc + sum_list ns < 2 ^ 64 \<Longrightarrow> checked_sum acc ns = Some (acc + sum_list ns)"
  by (induction ns arbitrary: acc) (simp_all add: add.assoc)

lemma read_varint_step:
  assumes "drop pos bs = write_varint v @ rest"
  shows "read_varint_at bs pos = Inr (v, pos + length (write_varint v))"
    and "drop (pos + length (write_varint v)) bs = rest"
  using read_varint_write[OF assms] arg_cong[OF assms, of "drop (length (write_varint v))"]
  by (simp_all add: add.commute)

lemma read_lengths_eq:
  assumes "drop pos payload = concat (map (\<lambda>c. write_varint (of_nat (length c))) cls) @ rest"
    and "\<And>c. c \<in> set cls \<Longrightarrow> length c < 2 ^ 64"
  shows "\<exists>pos'. read_lengths payload (length cls) pos acc = Inr (acc @ map length cls, pos')
     \<and> pos' = pos + length (concat (map (\<lambda>c. write_varint (of_nat (length c))) cls))
     \<and> drop pos' payload = rest"
  using assms
proof (induction cls arbitrary: pos acc)
  case (Cons c cls)
  let ?v = "of_nat (length c) :: u64"
  from Cons.prems(1) have "drop pos payload =
    write_varint ?v @ (concat (map (\<lambda>c. write_varint (of_nat (length c))) cls) @ rest)" by simp
  note step = read_varint_step[OF this]
  from Cons.IH[OF step(2), of "acc @ [length c]"] Cons.prems(2) step(1) show ?case
    by (auto simp: add.assoc)
qed simp

lemma slice_columns_eq:
  "drop off payload = concat cls \<Longrightarrow> slice_columns payload off (map length cls) = cls"
proof (induction cls arbitrary: off)
  case (Cons c cls)
  have "drop (off + length c) payload = concat cls"
    using arg_cong[OF Cons.prems, of "drop (length c)"] by (simp add: add.commute)
  with Cons show ?case by simp
qed simp


lemma encode_payload_Inr:
  assumes "encode_payload n c = Inr payload"
  shows "payload = MAGIC @ [VERSION] @ write_varint (of_nat n) @ write_varint (of_nat (length (cstat c)))
      @ write_varint (of_nat (length (crune c)))
      @ concat (map (\<lambda>col. write_varint (of_nat (length col))) (cfixed c @ cstat c @ crune c))
      @ concat (cfixed c @ cstat c @ crune c)"
    and "NMISC + length (cstat c) + length (crune c) < 2 ^ 64"
  using assms by (auto simp: encode_payload_def Let_def split: if_splits option.splits)

lemma length_le_lengths:
  "length cls \<le> length (concat (map (\<lambda>col. write_varint (of_nat (length col))) cls))"
proof (induction cls)
  case (Cons c cls)
  have "1 \<le> length (write_varint (of_nat (length c)))" by (simp add: Suc_le_eq)
  with Cons show ?case by simp
qed simp

lemma length_le_concat: "x \<in> set xs \<Longrightarrow> length x \<le> length (concat xs)"
  by (induction xs) auto

lemma manifest_parse_payload:
  assumes enc: "encode_payload n c = Inr payload" and nfix: "length (cfixed c) = NMISC"
    and small: "length payload < 2 ^ 64" and n: "n < 2 ^ 64"
  shows "manifest_parse payload = Inr \<lparr>m_records = n, m_stat_cols = length (cstat c),
     m_rune_cols = length (crune c), m_columns = cfixed c @ cstat c @ crune c\<rparr>"
proof -
  let ?cls = "cfixed c @ cstat c @ crune c"
  let ?ns = "concat (map (\<lambda>col. write_varint (of_nat (length col))) ?cls)"
  note p = encode_payload_Inr[OF enc]
  have hdr: "length MAGIC = 4" by (simp add: MAGIC_def)
  have "drop 5 payload = write_varint (of_nat n) @ write_varint (of_nat (length (cstat c)))
      @ write_varint (of_nat (length (crune c))) @ ?ns @ concat ?cls"
    using p(1) hdr by simp
  note s1 = read_varint_step[OF this]
  note s2 = read_varint_step[OF s1(2)]
  note s3 = read_varint_step[OF s2(2)]
  let ?pos = "5 + length (write_varint (of_nat n)) + length (write_varint (of_nat (length (cstat c))))
     + length (write_varint (of_nat (length (crune c))))"
  have len: "length payload = ?pos + length ?ns + length (concat ?cls)" using p(1) hdr by simp
  have each: "length col < 2 ^ 64" if "col \<in> set ?cls" for col
  proof -
    from that have "length col \<le> length (concat ?cls)" by (rule length_le_concat)
    with small len show ?thesis by linarith
  qed
  obtain pos' where r: "read_lengths payload (length ?cls) ?pos [] = Inr (map length ?cls, pos')"
    "pos' = ?pos + length ?ns" "drop pos' payload = concat ?cls"
    using read_lengths_eq[OF s3(2), of "[]"] each by auto
  have tot: "length ?cls = NMISC + (length (cstat c) + length (crune c))" using nfix by simp
  have "length (concat ?cls) < 2 ^ 64" using small len by linarith
  then have sum: "checked_sum 0 (map length ?cls) = Some (length (concat ?cls))"
    using checked_sum_eq[of 0 "map length ?cls"] by (simp only: length_concat) simp
  have le: "NMISC + (length (cstat c) + length (crune c)) \<le> length payload - ?pos"
    using length_le_lengths[of ?cls] len tot by linarith
  have "take 4 payload = MAGIC" "payload ! 4 = VERSION" "5 \<le> length payload"
    using p(1) hdr by (auto simp: nth_append)
  then show ?thesis
    using s1(1) s2(1) s3(1) p(2) n le r len sum small slice_columns_eq[OF r(3)]
    unfolding manifest_parse_def hdr tot
    by (simp add: Let_def)
qed


subsection \<open>Decoding a block\<close>

lemma view_offers:
  assumes "length (cfixed c) = NMISC" "\<And>col. col \<in> set (cfixed c @ cstat c @ crune c) \<Longrightarrow> length col < 2 ^ 64"
    and "\<And>k. view c k = proj k ts"
  shows "\<exists>rs. col_readers_new (cfixed c @ cstat c @ crune c) (length (cstat c)) (length (crune c)) = Inr rs
     \<and> offers rs ts (\<lambda>_. [])"
proof -
  let ?rs = "\<lparr>rfixed = map col_reader_new (cfixed c), rstat = map col_reader_new (cstat c),
    rrune = map col_reader_new (crune c)\<rparr>"
  have new: "left (map col_reader_new cls) i = nth_or_Nil cls i" for cls i
    by (simp add: left_def nth_or_Nil_def col_reader_new_def)
  have "remaining ?rs k = view c k" for k by (cases k) (simp_all add: new)
  moreover have "readers_ok ?rs"
    using assms(1,2) by (auto simp: readers_ok_def list_all_iff reader_ok_def col_reader_new_def)
  ultimately have "offers ?rs ts (\<lambda>_. [])" using assms(3) by (simp add: offers_def)
  then show ?thesis using assms(1) by (simp add: col_readers_new_def)
qed

lemma list_all_done:
  assumes "list_all reader_ok rs" "\<And>i. left rs i = []"
  shows "list_all reader_done rs"
  unfolding list_all_length
proof (intro allI impI)
  fix i assume i: "i < length rs"
  then show "reader_done (rs ! i)"
    using assms(1) assms(2)[of i] by (auto simp: left_def reader_done_def reader_ok_def list_all_length)
qed

lemma ensure_done_offers: "offers rs [] (\<lambda>_. []) \<Longrightarrow> ensure_done rs = Inr ()"
proof -
  assume off: "offers rs [] (\<lambda>_. [])"
  then have "left (rfixed rs) i = []" "left (rstat rs) i = []" "left (rrune rs) i = []" for i
    using offersD[OF off, of "Fixed i"] offersD[OF off, of "Stat i"] offersD[OF off, of "Rune i"] by auto
  with off show ?thesis by (simp add: ensure_done_def offers_def readers_ok_def list_all_done)
qed

lemma view_cols_new [simp]: "view cols_new k = []"
  by (cases k) (simp_all add: cols_new_def nth_or_Nil_def)

lemma decode_block_payload:
  assumes fit: "deltas_fit block_state_default rs" "list_all record_fits rs" "vec_fits rs"
    and w: "writes f (block_toks block_state_default rs)"
    and enc: "encode_payload (length rs) (f cols_new) = Inr payload" and small: "length payload < 2 ^ 64"
  shows "decode_block payload = Inr (map wire_record rs)"
proof -
  let ?c = "f cols_new"
  have n0: "length (cfixed cols_new) = NMISC" by (simp add: cols_new_def)
  have nfix: "length (cfixed ?c) = NMISC" and vw: "\<And>k. view ?c k = proj k (block_toks block_state_default rs)"
    using w n0 unfolding writes_def by auto
  note m = manifest_parse_payload[OF enc nfix small fit(3)[unfolded vec_fits_def]]
  have "length col < 2 ^ 64" if "col \<in> set (cfixed ?c @ cstat ?c @ crune ?c)" for col
    using length_le_concat[OF that] arg_cong[OF encode_payload_Inr(1)[OF enc], of length] small by simp
  from view_offers[OF nfix this vw] obtain crs where
    crs: "col_readers_new (cfixed ?c @ cstat ?c @ crune ?c) (length (cstat ?c)) (length (crune ?c)) = Inr crs"
    "offers crs (block_toks block_state_default rs) (\<lambda>_. [])" by blast
  from decode_into_runs[OF fit(1,2), of 0 "[]"] crs(2) obtain st' crs' where
    "for_range decode_into (length rs) 0 ([], block_state_default) crs = Inr (([] @ map wire_record rs, st'), crs')"
    "offers crs' [] (\<lambda>_. [])" unfolding runs_def by blast
  with m crs(1) ensure_done_offers[OF this(2)] show ?thesis by (simp add: decode_block_def)
qed

lemma first_mismatch_None:
  "length ws = length gs \<Longrightarrow> first_mismatch idx ws gs = None \<longleftrightarrow> ws = gs"
  by (induction ws gs arbitrary: idx rule: list_induct2) auto

lemma first_mismatch_Some:
  assumes "length ws = length gs" "ws \<noteq> gs"
  shows "\<exists>i < length ws. first_mismatch idx ws gs = Some (idx + i) \<and> take i ws = take i gs \<and> ws ! i \<noteq> gs ! i"
  using assms
proof (induction ws gs arbitrary: idx rule: list_induct2)
  case (Cons w ws g gs)
  show ?case
  proof (cases "w = g")
    case True
    then obtain i where "i < length ws" "first_mismatch (Suc idx) ws gs = Some (Suc idx + i)" "take i ws = take i gs" "ws ! i \<noteq> gs ! i"
      using Cons.IH[of "Suc idx"] Cons.prems by auto
    then show ?thesis using True by (intro exI[of _ "Suc i"]) simp
  next
    case False
    then show ?thesis by (intro exI[of _ 0]) simp
  qed
qed simp

lemma first_mismatch_refl [simp]: "first_mismatch idx ws ws = None"
  by (simp add: first_mismatch_None)

lemma encode_block_of_wire:
  assumes "deltas_fit block_state_default rs" "list_all record_fits rs" "vec_fits rs"
    and "\<forall>r \<in> set rs. decode (wire_record r) = Some r"
  shows "\<exists>c st. encode_records decode 0 (map wire_record rs) (cols_new, block_state_default) = Inr (c, st)
     \<and> (\<forall>payload. encode_payload (length rs) c = Inr payload \<longrightarrow> length payload < 2 ^ 64 \<longrightarrow>
          encode_block decode (map wire_record rs) = Inr payload
          \<and> decode_block payload = Inr (map wire_record rs))"
proof -
  obtain f st' where f: "\<And>c. encode_records decode 0 (map wire_record rs) (c, block_state_default) = Inr (f c, st')"
    "writes f (block_toks block_state_default rs)"
    using encode_records_writes[OF assms(1), of decode wire_record 0] assms(4) by blast
  from decode_block_payload[OF assms(1-3) f(2)] f(1) show ?thesis
    by (auto simp: encode_block_def)
qed

subsection \<open>A concrete block\<close>

definition sample_record :: match_record where
  "sample_record = \<lparr>schema_version = 1, game_id = 300, platform = ''EUW1'', queue_id = 420,
     game_start_ms = 5, duration_s = 1800, blue_won = True, game_version = ''15.1'',
     patch_major = 15, patch_minor = 1,
     participants = [\<lparr>player_id = 7, champion_id = 0, position = 2, spell1 = 4, spell2 = 14,
       runes = [8100, 0], stats = [- 3, 12]\<rparr>],
     timeline = Some \<lparr>frames = [\<lparr>minute = 0, total_gold = [500], xp = [], cs = [1], dmg_to_champs = []\<rparr>,
        \<lparr>minute = 1, total_gold = [450, 3], xp = [9], cs = [], dmg_to_champs = []\<rparr>],
       kills = [\<lparr>k_t_s = 61, k_killer = 3, k_victim = 0, k_assist_mask = 6, k_x = 100, k_y = 200\<rparr>],
       objectives = [], wards = [\<lparr>w_t_s = 9, w_kind = 1, w_participant = 255\<rparr>]\<rparr>,
     bans = [0, 157]\<rparr>"

lemma sample_fits:
  "deltas_fit block_state_default [sample_record]" "list_all record_fits [sample_record]"
  "vec_fits [sample_record]" "\<forall>r \<in> set [sample_record]. (\<lambda>_. Some sample_record) (wire_record r) = Some r"
  by (simp_all add: sample_record_def block_state_default_def record_fits_def vec_fits_def
      participant_fits_def timeline_fits_def frame_fits_def)

lemma length_lengths:
  "length (concat (map (\<lambda>col. write_varint (of_nat (length col))) cls)) \<le> 10 * length cls"
proof (induction cls)
  case (Cons c cls)
  with length_write_varint[of "of_nat (length c)"] show ?case by simp
qed simp

lemma encode_payload_small:
  assumes "length (cfixed c @ cstat c @ crune c) \<le> 100" "length (concat (cfixed c @ cstat c @ crune c)) \<le> 1000"
    and "NMISC + length (cstat c) + length (crune c) < 2 ^ 64"
  obtains payload where "encode_payload n c = Inr payload" "length payload < 2 ^ 64"
proof -
  let ?cls = "cfixed c @ cstat c @ crune c"
  have "checked_sum 0 (map length ?cls) = Some (length (concat ?cls))"
    using checked_sum_eq[of 0 "map length ?cls"] assms(2) by (simp only: length_concat) simp
  then obtain payload where p: "encode_payload n c = Inr payload"
    using assms(3) by (auto simp: encode_payload_def Let_def)
  moreover have "length payload < 2 ^ 64"
    using arg_cong[OF encode_payload_Inr(1)[OF p], of length] assms(1,2) length_lengths[of ?cls]
      length_write_varint[of "of_nat n"] length_write_varint[of "of_nat (length (cstat c))"]
      length_write_varint[of "of_nat (length (crune c))"]
    by (simp add: MAGIC_def)
  ultimately show thesis by (rule that)
qed

lemma sample_cols_small:
  "case encode_records (\<lambda>_. Some sample_record) 0 [[]] (cols_new, block_state_default) of
     Inl _ \<Rightarrow> False
   | Inr (c, st) \<Rightarrow> length (cfixed c @ cstat c @ crune c) \<le> 100
       \<and> length (concat (cfixed c @ cstat c @ crune c)) \<le> 1000"
  by code_simp

lemma sample_payload:
  "\<exists>c st payload. encode_records (\<lambda>_. Some sample_record) 0 (map wire_record [sample_record])
       (cols_new, block_state_default) = Inr (c, st)
     \<and> encode_payload (length [sample_record]) c = Inr payload \<and> length payload < 2 ^ 64"
proof -
  let ?d = "\<lambda>_. Some sample_record"
  from encode_block_of_wire[OF sample_fits] obtain c st where
    c: "encode_records ?d 0 [wire_record sample_record] (cols_new, block_state_default) = Inr (c, st)"
    by auto
  from c(1) sample_cols_small have
    "length (cfixed c @ cstat c @ crune c) \<le> 100" "length (concat (cfixed c @ cstat c @ crune c)) \<le> 1000"
    by simp_all
  then obtain payload where "encode_payload 1 c = Inr payload" "length payload < 2 ^ 64"
    using encode_payload_small[of c 1] by (auto simp: NMISC_def)
  with c show ?thesis by auto
qed

section \<open>Properties\<close>

text \<open>C2: The columnar payload is a faithful encoding: take records whose vectors are Rust vectors
  and whose consecutive ids and start times differ by an \<^verbatim>\<open>i64\<close>, encoded from their canonical
  protobuf bytes by \<^verbatim>\<open>encode_block\<close> with a prost decoder that inverts these bytes.  When the
  assembled payload fits the address space, \<^verbatim>\<open>encode_block\<close> returns it
  (its self-check never rejects) and \<^verbatim>\<open>decode_block\<close> returns exactly the original bytes of every record.\<close>

theorem encode_block_complete:
  assumes "deltas_fit block_state_default rs" "list_all record_fits rs" "vec_fits rs"
    and "\<forall>r \<in> set rs. decode (wire_record r) = Some r"
    and "encode_records decode 0 (map wire_record rs) (cols_new, block_state_default) = Inr (c, st)"
    and "encode_payload (length rs) c = Inr payload" "length payload < 2 ^ 64"
  shows "encode_block decode (map wire_record rs) = Inr payload
     \<and> decode_block payload = Inr (map wire_record rs)"
  using encode_block_of_wire[OF assms(1-4)] assms(5-7) by auto

theorem encode_block_complete_witness:
  "\<exists>payload. encode_block (\<lambda>_. Some sample_record) [wire_record sample_record] = Inr payload
     \<and> decode_block payload = Inr [wire_record sample_record]"
  using sample_payload encode_block_complete[OF sample_fits] by auto

text \<open>C26: The outcome of \<^verbatim>\<open>encode_block\<close> on any input, canonical or not, for whatever prost's decoder returns.  When every input decodes: if some consecutive ids or start
  times differ by more than an \<^verbatim>\<open>i64\<close>, the delta error; otherwise the payload that is assembled, if it fits the address space, decodes to the canonical bytes
  of the decoded records, and it is returned exactly when the input is those bytes, while the first input that is not is reported.  When an
  input does not decode, its index is reported, unless the delta error came first.\<close>

theorem encode_block_outcome:
  assumes "map decode raws = map Some rs" "list_all record_fits rs" "vec_fits rs"
  shows "if deltas_fit block_state_default rs
     then (\<exists>c st. encode_records decode 0 raws (cols_new, block_state_default) = Inr (c, st)
         \<and> (\<forall>payload. encode_payload (length raws) c = Inr payload \<longrightarrow> length payload < 2 ^ 64 \<longrightarrow>
              decode_block payload = Inr (map wire_record rs)
              \<and> (if raws = map wire_record rs then encode_block decode raws = Inr payload
                 else \<exists>i < length raws. encode_block decode raws = Inl (SelfCheckMismatch i)
                        \<and> take i raws = take i (map wire_record rs) \<and> raws ! i \<noteq> wire_record (rs ! i))))
       \<and> (decode bad = None \<longrightarrow> encode_block decode (raws @ bad # rest) = Inl (InputDecodeFailed (length raws)))
     else encode_block decode (raws @ rest) = Inl DeltaExceedsI64"
proof (cases "deltas_fit block_state_default rs")
  case False
  then show ?thesis using encode_decoded_unfit[OF False assms(1)] by (simp add: encode_block_def)
next
  case True
  obtain f st where f: "\<And>c. encode_records decode 0 raws (c, block_state_default) = Inr (f c, st)"
    "writes f (block_toks block_state_default rs)" using encode_decoded_writes[OF True assms(1)] by blast
  have len: "length raws = length rs" using map_eq_imp_length_eq[OF assms(1)] .
  have "\<exists>i < length raws. first_mismatch 0 raws (map wire_record rs) = Some i \<and> take i raws = take i (map wire_record rs) \<and> raws ! i \<noteq> wire_record (rs ! i)"
    if "raws \<noteq> map wire_record rs"
    using first_mismatch_Some[of raws "map wire_record rs" 0] that len by auto
  moreover have "first_mismatch 0 raws raws = None" by (simp add: first_mismatch_None)
  ultimately have "decode_block payload = Inr (map wire_record rs)
      \<and> (if raws = map wire_record rs then encode_block decode raws = Inr payload
         else \<exists>i < length raws. encode_block decode raws = Inl (SelfCheckMismatch i)
                \<and> take i raws = take i (map wire_record rs) \<and> raws ! i \<noteq> wire_record (rs ! i))"
    if "encode_payload (length raws) (f cols_new) = Inr payload" "length payload < 2 ^ 64" for payload
    using decode_block_payload[OF True assms(2,3) f(2)] that f(1) len by (auto simp: encode_block_def)
  moreover have "encode_block decode (raws @ bad # rest) = Inl (InputDecodeFailed (length raws))" if "decode bad = None"
    using that f(1) by (simp add: encode_block_def encode_records_append)
  ultimately show ?thesis using True f(1) by auto
qed

theorem encode_block_outcome_witness:
  "\<exists>payload. encode_block (\<lambda>_. Some sample_record) [wire_record sample_record] = Inr payload
     \<and> decode_block payload = Inr [wire_record sample_record]
     \<and> encode_block (\<lambda>_. Some sample_record) [0 # wire_record sample_record] = Inl (SelfCheckMismatch 0)"
proof -
  obtain c st payload where p: "encode_records (\<lambda>_. Some sample_record) 0 [wire_record sample_record] (cols_new, block_state_default) = Inr (c, st)"
    "encode_payload 1 c = Inr payload" "length payload < 2 ^ 64" using sample_payload by auto
  then have p': "encode_records (\<lambda>_. Some sample_record) 0 [0 # wire_record sample_record] (cols_new, block_state_default) = Inr (c, st)" by simp
  have m: "map (\<lambda>_. Some sample_record) [wire_record sample_record] = map Some [sample_record]"
    "map (\<lambda>_. Some sample_record) [0 # wire_record sample_record] = map Some [sample_record]" by simp_all
  from encode_block_outcome[OF m(1) sample_fits(2,3)] sample_fits(1) p
  have 1: "encode_block (\<lambda>_. Some sample_record) [wire_record sample_record] = Inr payload" "decode_block payload = Inr [wire_record sample_record]" by auto
  from encode_block_outcome[OF m(2) sample_fits(2,3)] sample_fits(1) p(2,3) p'
  have "encode_block (\<lambda>_. Some sample_record) [0 # wire_record sample_record] = Inl (SelfCheckMismatch 0)" by auto
  with 1 show ?thesis by blast
qed

end
