(* ===== verification/Segment.thy ===== *)
theory Segment
  imports Columnar_Block
begin

unbundle bit_operations_syntax

text \<open>
  The segment log of \<^verbatim>\<open>crates/server/src/storage.rs\<close>: the append-only block container, its
  writer, its readers, the locator index and the recompaction of closed days.  A file is its
  bytes; the file system is a map from paths to files, and I/O errors other than a missing file
  are not modelled.  Code from libraries is the argument \<open>c\<close>: zstd compression and
  decompression, the crc32 hash, and the prost decoder and encoder of \<open>match_record\<close>.  Offsets
  are naturals; a locator whose offset is close to \<open>2 ^ 64\<close> fails in the code's checked
  arithmetic and fails here as out of range.
\<close>

record seg_codec =
  zcompress :: "bytes \<Rightarrow> bytes"
  zdecompress :: "bytes \<Rightarrow> nat \<Rightarrow> bytes option"
  crc32 :: "bytes \<Rightarrow> u32"
  pdecode :: "bytes \<Rightarrow> match_record option"
  pencode :: "match_record \<Rightarrow> bytes"

datatype seg_error =
    TruncatedSegHeader | UnknownSegMagic | TruncatedSegBlock | BlockTooLarge | CrcMismatch
  | ZstdFailed | UlenMismatch | ColumnarFailed col_error | RowLenTruncated | RowBodyTruncated
  | OffsetExceedsU32 | BlockLengthOverflow | NoBlock | RecordNotFound | GameIdUndecodable
  | RecordOffsetMismatch | TornRewrite | VerifyCount | VerifyBytes nat | IdxMalformed | TailIndexed
  | BlockExceedsU32 | EncodeFailed col_error | FileMissing

section \<open>Little-endian integers\<close>

definition to_le :: "nat \<Rightarrow> 'a::len word \<Rightarrow> bytes" where
  "to_le n w = map (\<lambda>i. ucast (drop_bit (8 * i) w)) [0..<n]"

definition from_le :: "bytes \<Rightarrow> 'a::len word" where
  "from_le bs = foldr (\<lambda>b acc. ucast b OR push_bit 8 acc) bs 0"

definition slice :: "nat \<Rightarrow> nat \<Rightarrow> 'a list \<Rightarrow> 'a list" where
  "slice from to xs = take (to - from) (drop from xs)"

section \<open>Blocks\<close>

definition SEG_MAGIC :: u32 where "SEG_MAGIC = 0x47534C31"

definition COL_MAGIC :: u32 where "COL_MAGIC = 0x4C4F4331"

definition BLOCK_HEADER_LEN :: nat where "BLOCK_HEADER_LEN = 16"

definition IDX_ENTRY_LEN :: nat where "IDX_ENTRY_LEN = 20"

definition MAX_SEGMENT_BLOCK_BYTES :: nat where "MAX_SEGMENT_BLOCK_BYTES = 256 * 1024 * 1024"

definition BLOCK_TARGET_BYTES :: nat where "BLOCK_TARGET_BYTES = 4 * 1024 * 1024"

definition COLUMNAR_RECOMPACT_RECORDS_PER_BLOCK :: nat where
  "COLUMNAR_RECOMPACT_RECORDS_PER_BLOCK = 6000"

datatype segment_block_kind = Row | Columnar

record idx_entry =
  ie_game_id :: u64
  ie_block_off :: u64
  ie_rec_off :: u32

record segment_block =
  sb_kind :: segment_block_kind
  sb_block_off :: nat
  sb_next_off :: nat
  sb_records :: "bytes list"
  sb_rec_offsets :: "u32 list"

record torn_tail =
  valid_len :: nat
  dropped_bytes :: nat

record segment_layout =
  sl_records :: "bytes list"
  sl_idx_entries :: "idx_entry list"
  has_row_blocks :: bool
  sl_torn_tail :: "torn_tail option"

definition known_segment_magic :: "u32 \<Rightarrow> bool" where
  "known_segment_magic magic \<longleftrightarrow> magic = SEG_MAGIC \<or> magic = COL_MAGIC"

text \<open>The 16 header bytes: magic, crc, compressed length, uncompressed length.\<close>

definition block_header :: "u32 \<Rightarrow> u32 \<Rightarrow> u32 \<Rightarrow> u32 \<Rightarrow> bytes" where
  "block_header magic crc clen ulen = to_le 4 magic @ to_le 4 crc @ to_le 4 clen @ to_le 4 ulen"

function validate_loop :: "bytes \<Rightarrow> nat \<Rightarrow> nat" where
  "validate_loop seg pos =
     (if pos + BLOCK_HEADER_LEN > length seg then pos
      else
        let header = slice pos (pos + 16) seg;
            magic = from_le (slice 0 4 header) :: u32;
            clen = unat (from_le (slice 8 12 header) :: u32)
        in if \<not> known_segment_magic magic \<or> pos + BLOCK_HEADER_LEN + clen > length seg then pos
           else validate_loop seg (pos + BLOCK_HEADER_LEN + clen))"
  by pat_completeness auto
termination
  by (relation "measure (\<lambda>(seg, pos). length seg - pos)") (auto simp: BLOCK_HEADER_LEN_def)

declare validate_loop.simps [simp del]

definition validate_segment :: "bytes \<Rightarrow> nat" where
  "validate_segment seg = validate_loop seg 0"

definition invalid_block :: "bool \<Rightarrow> seg_error \<Rightarrow> seg_error + 'a option" where
  "invalid_block strict e = (if strict then Inl e else Inr None)"

function decode_row_loop ::
  "bytes \<Rightarrow> bool \<Rightarrow> nat \<Rightarrow> bytes list \<Rightarrow> u32 list \<Rightarrow> seg_error + (bytes list \<times> u32 list)" where
  "decode_row_loop block strict off records rec_offsets =
     (if off < length block then
        if off + 4 > length block then
          (if strict then Inl RowLenTruncated else Inr (records, rec_offsets))
        else if off \<ge> 2 ^ 32 then Inl OffsetExceedsU32
        else
          let rec_off = of_nat off :: u32;
              rlen = unat (from_le (slice off (off + 4) block) :: u32)
          in if off + 4 + rlen > length block then
               (if strict then Inl RowBodyTruncated else Inr (records, rec_offsets))
             else decode_row_loop block strict (off + 4 + rlen)
               (records @ [slice (off + 4) (off + 4 + rlen) block]) (rec_offsets @ [rec_off])
      else Inr (records, rec_offsets))"
  by pat_completeness auto
termination
  by (relation "measure (\<lambda>(block, strict, off, records, offs). length block - off)") auto

declare decode_row_loop.simps [simp del]

definition decode_row_block :: "bytes \<Rightarrow> bool \<Rightarrow> seg_error + (bytes list \<times> u32 list)" where
  "decode_row_block block strict = decode_row_loop block strict 0 [] []"

definition decode_block_body ::
  "segment_block_kind \<Rightarrow> bytes \<Rightarrow> bool \<Rightarrow> seg_error + (bytes list \<times> u32 list) option" where
  "decode_block_body kind block strict =
     (case kind of
        Row \<Rightarrow> res_bind (decode_row_block block strict) (\<lambda>r. Inr (Some r))
      | Columnar \<Rightarrow>
          (case decode_block block of
             Inr records \<Rightarrow>
               if length records \<le> 2 ^ 32 then Inr (Some (records, map of_nat [0..<length records]))
               else Inl OffsetExceedsU32
           | Inl e \<Rightarrow> invalid_block strict (ColumnarFailed e)))"

definition read_segment_block :: "seg_codec \<Rightarrow> bytes \<Rightarrow> nat \<Rightarrow> bool \<Rightarrow> seg_error + segment_block option" where
  "read_segment_block c f pos strict =
     (if pos + BLOCK_HEADER_LEN > length f then invalid_block strict TruncatedSegHeader
      else
        let header = slice pos (pos + 16) f;
            magic = from_le (slice 0 4 header) :: u32;
            crc = from_le (slice 4 8 header) :: u32;
            clen = unat (from_le (slice 8 12 header) :: u32);
            ulen = unat (from_le (slice 12 16 header) :: u32);
            next_off = pos + BLOCK_HEADER_LEN + clen
        in if next_off \<ge> 2 ^ 64 then Inl BlockLengthOverflow
           else if \<not> known_segment_magic magic then invalid_block strict UnknownSegMagic
           else if next_off > length f then invalid_block strict TruncatedSegBlock
           else if clen > MAX_SEGMENT_BLOCK_BYTES then invalid_block strict BlockTooLarge
           else if ulen > MAX_SEGMENT_BLOCK_BYTES then invalid_block strict BlockTooLarge
           else
             let compressed = slice (pos + 16) (pos + 16 + clen) f in
             if crc32 c compressed \<noteq> crc then invalid_block strict CrcMismatch
             else case zdecompress c compressed ulen of
               None \<Rightarrow> invalid_block strict ZstdFailed
             | Some block \<Rightarrow>
                 if length block \<noteq> ulen then invalid_block strict UlenMismatch
                 else
                   let kind = (if magic = SEG_MAGIC then Row else Columnar) in
                   res_bind (decode_block_body kind block strict) (\<lambda>body.
                   case body of
                     None \<Rightarrow> Inr None
                   | Some (records, rec_offsets) \<Rightarrow>
                       Inr (Some \<lparr>sb_kind = kind, sb_block_off = pos, sb_next_off = next_off,
                                  sb_records = records, sb_rec_offsets = rec_offsets\<rparr>)))"

lemma res_bind_Inr_cases: "res_bind m f = Inr y \<Longrightarrow> (\<And>x. m = Inr x \<Longrightarrow> f x = Inr y \<Longrightarrow> P) \<Longrightarrow> P"
  by (auto simp: res_bind_eq_Inr)

lemma read_block_next:
  assumes "read_segment_block c f pos strict = Inr (Some b)"
  shows "pos + BLOCK_HEADER_LEN \<le> sb_next_off b" "sb_next_off b \<le> length f" "sb_block_off b = pos"
  using assms
  by (auto simp: read_segment_block_def Let_def invalid_block_def elim!: res_bind_Inr_cases
      split: if_splits option.splits prod.splits)

lemma read_block_progress:
  assumes "read_segment_block c f pos strict = Inr (Some b)" "pos < length f"
  shows "length f - sb_next_off b < length f - pos"
  using read_block_next[OF assms(1)] assms(2) by (simp add: BLOCK_HEADER_LEN_def)

section \<open>Reading\<close>

function read_records_loop :: "seg_codec \<Rightarrow> bytes \<Rightarrow> nat \<Rightarrow> bytes list \<Rightarrow> seg_error + bytes list" where
  "read_records_loop c f pos records =
     (if pos < length f then
        case read_segment_block c f pos False of
          Inl e \<Rightarrow> Inl e
        | Inr None \<Rightarrow> Inr records
        | Inr (Some block) \<Rightarrow> read_records_loop c f (sb_next_off block) (records @ sb_records block)
      else Inr records)"
  by pat_completeness auto
termination
  by (relation "measure (\<lambda>(c, f, pos, records). length f - pos)")
    (auto intro: read_block_progress)

declare read_records_loop.simps [simp del]

definition read_segment_records :: "seg_codec \<Rightarrow> bytes \<Rightarrow> seg_error + bytes list" where
  "read_segment_records c f = read_records_loop c f 0 []"

fun find_offset :: "u32 list \<Rightarrow> u32 \<Rightarrow> nat option" where
  "find_offset [] x = None"
| "find_offset (y # ys) x = (if y = x then Some 0 else map_option Suc (find_offset ys x))"

definition read_record_at :: "seg_codec \<Rightarrow> bytes \<Rightarrow> u64 \<Rightarrow> u32 \<Rightarrow> seg_error + bytes" where
  "read_record_at c f block_off rec_off =
     res_bind (read_segment_block c f (unat block_off) True) (\<lambda>b.
     case b of
       None \<Rightarrow> Inl NoBlock
     | Some block \<Rightarrow>
         (case sb_kind block of
            Row \<Rightarrow>
              (case find_offset (sb_rec_offsets block) rec_off of
                 Some idx \<Rightarrow> Inr (sb_records block ! idx)
               | None \<Rightarrow> Inl RecordNotFound)
          | Columnar \<Rightarrow>
              (if unat rec_off < length (sb_records block) then Inr (sb_records block ! unat rec_off)
               else Inl RecordNotFound)))"

definition decode_game_id :: "seg_codec \<Rightarrow> bytes \<Rightarrow> seg_error + u64" where
  "decode_game_id c raw =
     (case pdecode c raw of Some r \<Rightarrow> Inr (game_id r) | None \<Rightarrow> Inl GameIdUndecodable)"

fun layout_entries ::
  "seg_codec \<Rightarrow> nat \<Rightarrow> bytes list \<Rightarrow> u32 list \<Rightarrow> seg_error + idx_entry list" where
  "layout_entries c block_off (raw # raws) (rec_off # offs) =
     res_bind (decode_game_id c raw) (\<lambda>gid.
     res_bind (layout_entries c block_off raws offs) (\<lambda>es.
     Inr (\<lparr>ie_game_id = gid, ie_block_off = of_nat block_off, ie_rec_off = rec_off\<rparr> # es)))"
| "layout_entries c block_off _ _ = Inr []"

function read_layout_loop :: "seg_codec \<Rightarrow> bytes \<Rightarrow> nat \<Rightarrow> segment_layout \<Rightarrow> seg_error + segment_layout" where
  "read_layout_loop c f pos lay =
     (if pos < length f then
        case read_segment_block c f pos True of
          Inr (Some block) \<Rightarrow>
            if length (sb_records block) \<noteq> length (sb_rec_offsets block) then Inl RecordOffsetMismatch
            else
              res_bind (layout_entries c (sb_block_off block) (sb_records block) (sb_rec_offsets block)) (\<lambda>es.
              read_layout_loop c f (sb_next_off block)
                (lay\<lparr>has_row_blocks := has_row_blocks lay \<or> sb_kind block = Row,
                     sl_idx_entries := sl_idx_entries lay @ es,
                     sl_records := sl_records lay @ sb_records block\<rparr>))
        | _ \<Rightarrow> Inr (lay\<lparr>sl_torn_tail := Some \<lparr>valid_len = pos, dropped_bytes = length f - pos\<rparr>\<rparr>)
      else Inr lay)"
  by pat_completeness auto
termination
  by (relation "measure (\<lambda>(c, f, pos, lay). length f - pos)")
    (auto intro: read_block_progress)

declare read_layout_loop.simps [simp del]

definition read_segment_layout :: "seg_codec \<Rightarrow> bytes \<Rightarrow> seg_error + segment_layout" where
  "read_segment_layout c f = read_layout_loop c f 0
     \<lparr>sl_records = [], sl_idx_entries = [], has_row_blocks = False, sl_torn_tail = None\<rparr>"

definition read_segment_records_strict :: "seg_codec \<Rightarrow> bytes \<Rightarrow> seg_error + bytes list" where
  "read_segment_records_strict c f =
     res_bind (read_segment_layout c f) (\<lambda>lay.
     if sl_torn_tail lay = None then Inr (sl_records lay) else Inl TornRewrite)"


section \<open>Index files\<close>

definition idx_entry_bytes :: "idx_entry \<Rightarrow> bytes" where
  "idx_entry_bytes e = to_le 8 (ie_game_id e) @ to_le 8 (ie_block_off e) @ to_le 4 (ie_rec_off e)"

fun idx_chunks :: "bytes \<Rightarrow> nat \<Rightarrow> idx_entry list" where
  "idx_chunks bs 0 = []"
| "idx_chunks bs (Suc n) =
     \<lparr>ie_game_id = from_le (slice 0 8 bs), ie_block_off = from_le (slice 8 16 bs),
      ie_rec_off = from_le (slice 16 20 bs)\<rparr> # idx_chunks (drop IDX_ENTRY_LEN bs) n"

definition parse_idx_entries :: "bytes \<Rightarrow> idx_entry list option" where
  "parse_idx_entries bs =
     (if length bs mod IDX_ENTRY_LEN \<noteq> 0 then None
      else Some (idx_chunks bs (length bs div IDX_ENTRY_LEN)))"

section \<open>Writer\<close>

type_synonym fsys = "string \<Rightarrow> bytes option"

record segment_writer =
  sw_dir :: string
  sw_date :: string
  sw_buf :: bytes
  sw_pending :: "(u64 \<times> u32) list"

definition seg_path :: "string \<Rightarrow> string \<Rightarrow> string" where
  "seg_path dir date = dir @ ''/'' @ date @ ''.seg''"

definition idx_path :: "string \<Rightarrow> string \<Rightarrow> string" where
  "idx_path dir date = dir @ ''/'' @ date @ ''.idx''"

definition contents :: "fsys \<Rightarrow> string \<Rightarrow> bytes" where
  "contents fs p = (case fs p of Some bs \<Rightarrow> bs | None \<Rightarrow> [])"

definition append_file :: "string \<Rightarrow> bytes \<Rightarrow> fsys \<Rightarrow> fsys" where
  "append_file p bs fs = fs(p \<mapsto> contents fs p @ bs)"

definition open_files :: "string \<Rightarrow> string \<Rightarrow> fsys \<Rightarrow> fsys" where
  "open_files dir date fs =
     (let seg = contents fs (seg_path dir date);
          valid = validate_segment seg;
          fs = fs(seg_path dir date \<mapsto> (if valid < length seg then take valid seg else seg))
      in append_file (idx_path dir date) [] fs)"

definition sw_open :: "string \<Rightarrow> string \<Rightarrow> fsys \<Rightarrow> segment_writer \<times> fsys" where
  "sw_open today dir fs =
     (\<lparr>sw_dir = dir, sw_date = today, sw_buf = [], sw_pending = []\<rparr>, open_files dir today fs)"

definition needs_roll :: "string \<Rightarrow> segment_writer \<Rightarrow> bool" where
  "needs_roll today w \<longleftrightarrow> today \<noteq> sw_date w"

definition sw_append :: "seg_codec \<Rightarrow> match_record \<Rightarrow> segment_writer \<Rightarrow> segment_writer" where
  "sw_append c r w =
     (let off = of_nat (length (sw_buf w)) :: u32;
          bs = pencode c r
      in w\<lparr>sw_buf := sw_buf w @ to_le 4 (of_nat (length bs) :: u32) @ bs,
           sw_pending := sw_pending w @ [(game_id r, off)]\<rparr>)"

definition should_flush :: "segment_writer \<Rightarrow> bool" where
  "should_flush w \<longleftrightarrow> length (sw_buf w) \<ge> BLOCK_TARGET_BYTES"

definition sw_flush :: "seg_codec \<Rightarrow> segment_writer \<times> fsys \<Rightarrow> segment_writer \<times> fsys" where
  "sw_flush c st =
     (case st of (w, fs) \<Rightarrow>
      if sw_pending w = [] then (w, fs)
      else
        let sp = seg_path (sw_dir w) (sw_date w);
            block_off = length (contents fs sp);
            compressed = zcompress c (sw_buf w);
            header = block_header SEG_MAGIC (crc32 c compressed) (of_nat (length compressed))
              (of_nat (length (sw_buf w)));
            fs = append_file sp compressed (append_file sp header fs);
            idx_buf = concat (map (\<lambda>(gid, rec_off).
              to_le 8 gid @ to_le 8 (of_nat block_off :: u64) @ to_le 4 rec_off) (sw_pending w));
            fs = append_file (idx_path (sw_dir w) (sw_date w)) idx_buf fs
        in (w\<lparr>sw_buf := [], sw_pending := []\<rparr>, fs))"

definition roll_over :: "seg_codec \<Rightarrow> string \<Rightarrow> segment_writer \<times> fsys \<Rightarrow> segment_writer \<times> fsys" where
  "roll_over c today st =
     (case sw_flush c st of (w, fs) \<Rightarrow> (w\<lparr>sw_date := today\<rparr>, open_files (sw_dir w) today fs))"

section \<open>Recompaction\<close>

text \<open>Where the code stops in the middle of the rewrite, a partial temporary file is left behind until
  \<^verbatim>\<open>recompact_segment\<close> removes it; the model of the inner function does not keep the partial bytes.\<close>

definition write_container_block :: "seg_codec \<Rightarrow> u32 \<Rightarrow> bytes \<Rightarrow> bytes \<Rightarrow> seg_error + bytes" where
  "write_container_block c magic uncompressed compressed =
     (if length compressed \<ge> 2 ^ 32 then Inl BlockExceedsU32
      else if length uncompressed \<ge> 2 ^ 32 then Inl BlockExceedsU32
      else Inr (block_header magic (crc32 c compressed) (of_nat (length compressed))
                  (of_nat (length uncompressed)) @ compressed))"

text \<open>\<open>seg\<close> is the file so far; the new offset and the grown file are returned.\<close>

definition write_columnar_block :: "seg_codec \<Rightarrow> bytes \<Rightarrow> bytes list \<Rightarrow> seg_error + (nat \<times> bytes)" where
  "write_columnar_block c seg records =
     (case encode_block (pdecode c) records of
        Inl e \<Rightarrow> Inl (EncodeFailed e)
      | Inr payload \<Rightarrow>
          res_bind (write_container_block c COL_MAGIC payload (zcompress c payload)) (\<lambda>bs.
          Inr (length seg, seg @ bs)))"

fun chunk_entries :: "seg_codec \<Rightarrow> nat \<Rightarrow> nat \<Rightarrow> bytes list \<Rightarrow> seg_error + idx_entry list" where
  "chunk_entries c block_off ord [] = Inr []"
| "chunk_entries c block_off ord (raw # raws) =
     res_bind (decode_game_id c raw) (\<lambda>gid.
     if ord \<ge> 2 ^ 32 then Inl OffsetExceedsU32
     else res_bind (chunk_entries c block_off (Suc ord) raws) (\<lambda>es.
       Inr (\<lparr>ie_game_id = gid, ie_block_off = of_nat block_off, ie_rec_off = of_nat ord\<rparr> # es)))"

function rewrite_chunks ::
  "seg_codec \<Rightarrow> bytes list \<Rightarrow> bytes \<Rightarrow> idx_entry list \<Rightarrow> seg_error + (bytes \<times> idx_entry list)" where
  "rewrite_chunks c records out idx =
     (if records = [] then Inr (out, idx)
      else
        let chunk = take COLUMNAR_RECOMPACT_RECORDS_PER_BLOCK records in
        res_bind (write_columnar_block c out chunk) (\<lambda>(block_off, out).
        res_bind (chunk_entries c block_off 0 chunk) (\<lambda>es.
        rewrite_chunks c (drop COLUMNAR_RECOMPACT_RECORDS_PER_BLOCK records) out (idx @ es))))"
  by pat_completeness auto
termination
  by (relation "measure (\<lambda>(c, records, out, idx). length records)")
    (auto simp: COLUMNAR_RECOMPACT_RECORDS_PER_BLOCK_def)

declare rewrite_chunks.simps [simp del]

definition verify_rewrite :: "bytes list \<Rightarrow> bytes list \<Rightarrow> seg_error + unit" where
  "verify_rewrite want got =
     (if length want \<noteq> length got then Inl VerifyCount
      else case first_mismatch 0 want got of Some idx \<Rightarrow> Inl (VerifyBytes idx) | None \<Rightarrow> Inr ())"

definition ensure_torn_tail_unindexed :: "bytes option \<Rightarrow> torn_tail \<Rightarrow> seg_error + unit" where
  "ensure_torn_tail_unindexed idx tail =
     (case idx of
        None \<Rightarrow> Inr ()
      | Some bs \<Rightarrow>
          (case parse_idx_entries bs of
             None \<Rightarrow> Inl IdxMalformed
           | Some entries \<Rightarrow>
               if list_ex (\<lambda>e. unat (ie_block_off e) \<ge> valid_len tail) entries then Inl TailIndexed
               else Inr ()))"

definition tmp_path :: "string \<Rightarrow> string" where
  "tmp_path p = p @ ''.tmp''"

definition idx_bytes :: "idx_entry list \<Rightarrow> bytes" where
  "idx_bytes es = concat (map idx_entry_bytes es)"

definition rename_file :: "string \<Rightarrow> string \<Rightarrow> fsys \<Rightarrow> fsys" where
  "rename_file src dst fs = (fs(dst := fs src))(src := None)"

definition replace_idx :: "string \<Rightarrow> idx_entry list \<Rightarrow> fsys \<Rightarrow> fsys" where
  "replace_idx idx entries fs =
     (let fs = fs(tmp_path idx := None);
          fs = fs(tmp_path idx \<mapsto> idx_bytes entries)
      in rename_file (tmp_path idx) idx fs)"

definition idx_matches :: "bytes option \<Rightarrow> idx_entry list \<Rightarrow> bool" where
  "idx_matches idx expected \<longleftrightarrow> (case idx of None \<Rightarrow> False | Some bs \<Rightarrow> parse_idx_entries bs = Some expected)"

definition ensure_idx_consistent_or_rebuild :: "string \<Rightarrow> idx_entry list \<Rightarrow> fsys \<Rightarrow> bool \<times> fsys" where
  "ensure_idx_consistent_or_rebuild idx expected fs =
     (if idx_matches (fs idx) expected then (False, fs) else (True, replace_idx idx expected fs))"

record recompact_outcome =
  already_compacted :: bool
  rebuilt_idx :: bool
  dropped_tail_bytes :: nat
  before_seg_bytes :: nat
  after_seg_bytes :: nat
  before_idx_bytes :: nat
  after_idx_bytes :: nat
  record_count :: nat

definition recompact_segment_inner ::
  "seg_codec \<Rightarrow> string \<Rightarrow> string \<Rightarrow> fsys \<Rightarrow> (seg_error + recompact_outcome) \<times> fsys" where
  "recompact_segment_inner c seg idx fs =
     (let fs = fs(tmp_path seg := None, tmp_path idx := None) in
      case fs seg of
        None \<Rightarrow> (Inl FileMissing, fs)
      | Some f \<Rightarrow>
          let before_idx = length (contents fs idx) in
          case read_segment_layout c f of
            Inl e \<Rightarrow> (Inl e, fs)
          | Inr lay \<Rightarrow>
              let count = length (sl_records lay);
                  dropped = (case sl_torn_tail lay of Some t \<Rightarrow> dropped_bytes t | None \<Rightarrow> 0)
              in case (case sl_torn_tail lay of Some t \<Rightarrow> ensure_torn_tail_unindexed (fs idx) t | None \<Rightarrow> Inr ()) of
                   Inl e \<Rightarrow> (Inl e, fs)
                 | Inr _ \<Rightarrow>
                     if \<not> has_row_blocks lay then
                       let fs = (case sl_torn_tail lay of
                                   Some t \<Rightarrow> fs(seg \<mapsto> take (valid_len t) f) | None \<Rightarrow> fs);
                           (rebuilt, fs) = ensure_idx_consistent_or_rebuild idx (sl_idx_entries lay) fs
                       in (Inr \<lparr>already_compacted = True, rebuilt_idx = rebuilt, dropped_tail_bytes = dropped,
                                before_seg_bytes = length f, after_seg_bytes = length (contents fs seg),
                                before_idx_bytes = before_idx, after_idx_bytes = length (contents fs idx),
                                record_count = count\<rparr>, fs)
                     else
                       case rewrite_chunks c (sl_records lay) [] [] of
                         Inl e \<Rightarrow> (Inl e, fs)
                       | Inr (new_seg, new_idx) \<Rightarrow>
                           let fs = fs(tmp_path seg \<mapsto> new_seg, tmp_path idx \<mapsto> idx_bytes new_idx) in
                           case res_bind (read_segment_records_strict c new_seg)
                                  (\<lambda>rewritten. verify_rewrite (sl_records lay) rewritten) of
                             Inl e \<Rightarrow> (Inl e, fs)
                           | Inr _ \<Rightarrow>
                               let fs = rename_file (tmp_path idx) idx (rename_file (tmp_path seg) seg fs)
                               in (Inr \<lparr>already_compacted = False, rebuilt_idx = True, dropped_tail_bytes = dropped,
                                        before_seg_bytes = length f, after_seg_bytes = length (contents fs seg),
                                        before_idx_bytes = before_idx, after_idx_bytes = length (contents fs idx),
                                        record_count = count\<rparr>, fs))"

definition recompact_segment ::
  "seg_codec \<Rightarrow> string \<Rightarrow> string \<Rightarrow> fsys \<Rightarrow> (seg_error + recompact_outcome) \<times> fsys" where
  "recompact_segment c seg idx fs =
     (case recompact_segment_inner c seg idx fs of
        (Inr outcome, fs) \<Rightarrow> (Inr outcome, fs)
      | (Inl err, fs) \<Rightarrow> (Inl err, fs(tmp_path seg := None, tmp_path idx := None)))"

end
