(* ===== verification/Segment_Props.thy ===== *)
theory Segment_Props
  imports Segment
begin

unbundle bit_operations_syntax

text \<open>
  Correctness of the segment log.  What zstd and prost promise is stated where it is used:
  decompressing what was compressed gives it back, and decoding an encoded record gives
  the record.  A segment is \<open>intact\<close> when its blocks read strictly up to its end; flushing keeps
  it intact and adds exactly the pending records, every locator written to the index finds its
  record, a torn last write is invisible, and recompaction preserves the records.
\<close>

section \<open>Little-endian round trip\<close>

lemma to_le_Suc: "to_le (Suc n) w = ucast w # to_le n (drop_bit 8 w)"
proof -
  have "[0..<Suc n] = 0 # map Suc [0..<n]" by (simp add: upt_conv_Cons map_Suc_upt del: upt_Suc)
  then show ?thesis unfolding to_le_def by (simp add: add.commute)
qed

lemma length_to_le [simp]: "length (to_le n w) = n"
  by (simp add: to_le_def)

lemma from_le_to_le: "from_le (to_le n w) = (take_bit (8 * n) w :: 'a::len word)"
proof (induction n arbitrary: w)
  case 0
  then show ?case by (simp add: to_le_def from_le_def)
next
  case (Suc n)
  have "from_le (to_le (Suc n) w) = (ucast (ucast w :: u8) :: 'a word) OR push_bit 8 (take_bit (8 * n) (drop_bit 8 w))"
    using Suc[of "drop_bit 8 w"] by (simp add: to_le_Suc from_le_def)
  also have "\<dots> = take_bit (8 * Suc n) w"
    by (rule bit_word_eqI) (auto simp: bit_simps not_le less_diff_conv2)
  finally show ?case .
qed

lemma take_bit_32_u32: "take_bit 32 (w :: 32 word) = w" "take_bit 64 (v :: 64 word) = v"
  by (rule bit_word_eqI, simp add: bit_simps)+

lemma from_le_to_le_4 [simp]: "from_le (to_le 4 w) = (w :: u32)"
  using from_le_to_le[of 4 w] take_bit_32_u32(1)[of w] by simp

lemma from_le_to_le_8 [simp]: "from_le (to_le 8 w) = (w :: u64)"
  using from_le_to_le[of 8 w] take_bit_32_u32(2)[of w] by simp

lemma slice_append [simp]: "length xs = m \<Longrightarrow> slice m n (xs @ ys) = take (n - m) ys"
  by (simp add: slice_def)

lemma slice_take: "n \<le> k \<Longrightarrow> slice m n (take k xs) = slice m n xs"
  by (simp add: slice_def drop_take min_def)

lemma header_fields [simp]:
  "length (block_header magic crc clen ulen) = 16"
  "slice 0 4 (block_header magic crc clen ulen) = to_le 4 magic"
  "slice 4 8 (block_header magic crc clen ulen) = to_le 4 crc"
  "slice 8 12 (block_header magic crc clen ulen) = to_le 4 clen"
  "slice 12 16 (block_header magic crc clen ulen) = to_le 4 ulen"
  by (simp_all add: block_header_def slice_def)

section \<open>Blocks\<close>

text \<open>The bytes of a container block.\<close>

definition container :: "seg_codec \<Rightarrow> u32 \<Rightarrow> bytes \<Rightarrow> bytes" where
  "container c magic block =
     block_header magic (crc32 c (zcompress c block)) (of_nat (length (zcompress c block)))
       (of_nat (length block)) @ zcompress c block"

text \<open>A block within the limits of the reader, and zstd inverting its own output on it.\<close>

definition block_fits :: "seg_codec \<Rightarrow> bytes \<Rightarrow> bool" where
  "block_fits c block \<longleftrightarrow> length block \<le> MAX_SEGMENT_BLOCK_BYTES
     \<and> length (zcompress c block) \<le> MAX_SEGMENT_BLOCK_BYTES
     \<and> zdecompress c (zcompress c block) (length block) = Some block"

lemma unat_of_nat_u32 [simp]: "n < 2 ^ 32 \<Longrightarrow> unat (of_nat n :: u32) = n"
  by (simp add: unat_of_nat)

lemma container_length: "length (container c magic block) = 16 + length (zcompress c block)"
  by (simp add: container_def)

lemma read_container:
  assumes "block_fits c block" "known_segment_magic magic" "length s + length (container c magic block) < 2 ^ 64"
  shows "read_segment_block c (s @ container c magic block @ t) (length s) strict =
    res_bind (decode_block_body (if magic = SEG_MAGIC then Row else Columnar) block strict) (\<lambda>body.
      case body of None \<Rightarrow> Inr None
      | Some (records, rec_offsets) \<Rightarrow>
          Inr (Some \<lparr>sb_kind = (if magic = SEG_MAGIC then Row else Columnar), sb_block_off = length s,
            sb_next_off = length s + length (container c magic block),
            sb_records = records, sb_rec_offsets = rec_offsets\<rparr>))"
proof -
  let ?z = "zcompress c block"
  let ?h = "block_header magic (crc32 c ?z) (of_nat (length ?z)) (of_nat (length block))"
  have lim: "length ?z < 2 ^ 32" "length block < 2 ^ 32" "length ?z \<le> MAX_SEGMENT_BLOCK_BYTES"
    "length block \<le> MAX_SEGMENT_BLOCK_BYTES" "zdecompress c ?z (length block) = Some block"
    using assms(1) by (auto simp: block_fits_def MAX_SEGMENT_BLOCK_BYTES_def)
  have hdr: "slice (length s) (length s + 16) (s @ container c magic block @ t) = ?h"
    by (simp add: container_def)
  have body: "slice (length s + 16) (length s + 16 + length ?z) (s @ container c magic block @ t) = ?z"
    by (simp add: container_def slice_def)
  show ?thesis
    unfolding read_segment_block_def Let_def hdr container_length
    using lim assms(2,3) body by (simp add: BLOCK_HEADER_LEN_def container_length add.assoc)
qed

text \<open>A block that was read depends only on the bytes before its end.\<close>

lemma slice_same_prefix:
  assumes "take n f = take n g" "j \<le> n"
  shows "slice i j f = slice i j g"
  using slice_take[OF assms(2), of i f] slice_take[OF assms(2), of i g] assms(1) by simp

definition header_of :: "bytes \<Rightarrow> nat \<Rightarrow> bytes" where
  "header_of f pos = slice pos (pos + 16) f"

definition clen_of :: "bytes \<Rightarrow> nat \<Rightarrow> nat" where
  "clen_of f pos = unat (from_le (slice 8 12 (header_of f pos)) :: u32)"

lemma read_block_next_off:
  "read_segment_block c f pos strict = Inr (Some b) \<Longrightarrow> sb_next_off b = pos + 16 + clen_of f pos"
  by (auto simp: read_segment_block_def Let_def invalid_block_def clen_of_def header_of_def BLOCK_HEADER_LEN_def
      elim!: res_bind_Inr_cases split: if_splits option.splits prod.splits)

lemma read_block_prefix:
  assumes b: "read_segment_block c f pos strict = Inr (Some b)"
    and same: "take n f = take n g" "sb_next_off b \<le> n" "n \<le> length g"
  shows "read_segment_block c g pos strict = Inr (Some b)"
proof -
  note nx = read_block_next_off[OF b]
  have hdr: "slice pos (pos + 16) g = slice pos (pos + 16) f"
    using same nx by (intro slice_same_prefix[of n]) auto
  have clen: "clen_of f pos = unat (from_le (slice 8 12 (slice pos (pos + 16) f)) :: u32)"
    by (simp add: clen_of_def header_of_def)
  have body: "slice (pos + 16) (pos + 16 + clen_of f pos) g = slice (pos + 16) (pos + 16 + clen_of f pos) f"
    using same nx by (intro slice_same_prefix[of n]) auto
  have len: "pos + 16 + clen_of f pos \<le> length g" "pos + 16 \<le> length g"
    "pos + 16 + clen_of f pos \<le> length f" "pos + 16 \<le> length f"
    using same nx read_block_next[OF b] by auto
  have "read_segment_block c g pos strict = read_segment_block c f pos strict"
    unfolding read_segment_block_def Let_def hdr clen[symmetric] BLOCK_HEADER_LEN_def body using len by simp
  with b show ?thesis by simp
qed

lemma decode_row_nonstrict:
  "decode_row_loop block True off rs os = Inr x \<Longrightarrow> decode_row_loop block False off rs os = Inr x"
proof (induction block True off rs os rule: decode_row_loop.induct)
  case (1 block off rs os)
  then show ?case
    by (simp add: decode_row_loop.simps[of block True off] decode_row_loop.simps[of block False off] Let_def
        split: if_splits)
qed

lemma read_block_nonstrict:
  assumes "read_segment_block c f pos True = Inr (Some b)"
  shows "read_segment_block c f pos False = Inr (Some b)"
proof -
  have body: "decode_block_body kind block False = Inr (Some x)" if "decode_block_body kind block True = Inr (Some x)" for kind block x
    using that decode_row_nonstrict
    by (auto simp: decode_block_body_def decode_row_block_def invalid_block_def res_bind_eq_Inr
        split: segment_block_kind.splits sum.splits if_splits)
  show ?thesis
    using assms
    by (auto simp: read_segment_block_def Let_def invalid_block_def body elim!: res_bind_Inr_cases
        split: if_splits option.splits prod.splits)
qed

section \<open>Rows\<close>

definition row_bytes :: "bytes list \<Rightarrow> bytes" where
  "row_bytes bss = concat (map (\<lambda>b. to_le 4 (of_nat (length b) :: u32) @ b) bss)"

fun row_offsets :: "nat \<Rightarrow> bytes list \<Rightarrow> u32 list" where
  "row_offsets off [] = []"
| "row_offsets off (b # bss) = of_nat off # row_offsets (off + 4 + length b) bss"

lemma decode_row_loop_rows:
  assumes "block = pre @ row_bytes bss" "length block < 2 ^ 32"
  shows "decode_row_loop block strict (length pre) rs os = Inr (rs @ bss, os @ row_offsets (length pre) bss)"
  using assms
proof (induction bss arbitrary: pre rs os)
  case Nil
  then show ?case by (subst decode_row_loop.simps) (simp add: row_bytes_def)
next
  case (Cons b bss)
  let ?len = "to_le 4 (of_nat (length b) :: u32)"
  have blk: "block = (pre @ ?len @ b) @ row_bytes bss" using Cons.prems(1) by (simp add: row_bytes_def)
  then have lens: "length block = length pre + 4 + length b + length (row_bytes bss)" by simp
  have "slice (length pre) (length pre + 4) block = ?len" using blk by simp
  moreover have "slice (length pre + 4) (length pre + 4 + length b) block = b"
    unfolding blk by (simp add: slice_def)
  moreover have "length b < 2 ^ 32" using lens Cons.prems(2) by linarith
  ultimately have "decode_row_loop block strict (length pre) rs os =
      decode_row_loop block strict (length (pre @ ?len @ b)) (rs @ [b]) (os @ [of_nat (length pre)])"
    using lens Cons.prems(2) by (subst decode_row_loop.simps) (simp add: Let_def add.assoc)
  with Cons.IH[OF blk Cons.prems(2), of "rs @ [b]" "os @ [of_nat (length pre)]"] show ?case
    by (simp add: add.assoc)
qed

lemma decode_row_block_rows:
  "length (row_bytes bss) < 2 ^ 32 \<Longrightarrow> decode_row_block (row_bytes bss) strict = Inr (bss, row_offsets 0 bss)"
  using decode_row_loop_rows[of "row_bytes bss" "[]" bss strict "[]" "[]"] by (simp add: decode_row_block_def)


lemma length_row_offsets [simp]: "length (row_offsets off bss) = length bss"
  by (induction bss arbitrary: off) simp_all

lemma row_offsets_ge:
  "off' < off \<Longrightarrow> off + length (row_bytes bss) < 2 ^ 32 \<Longrightarrow> i < length bss \<Longrightarrow> row_offsets off bss ! i \<noteq> of_nat off'"
proof (induction bss arbitrary: off i)
  case (Cons b bss)
  have len: "off + 4 + length b + length (row_bytes bss) < 2 ^ 32"
    using Cons.prems(2) by (simp add: row_bytes_def add.assoc)
  show ?case
  proof (cases i)
    case 0
    have "unat (of_nat off :: u32) = off" "unat (of_nat off' :: u32) = off'" using len Cons.prems(1) by simp_all
    then have "(of_nat off :: u32) \<noteq> of_nat off'" using Cons.prems(1) by (metis less_irrefl)
    then show ?thesis using 0 by simp
  next
    case (Suc j)
    then show ?thesis using Cons.IH[of "off + 4 + length b" j] Cons.prems len by simp
  qed
qed simp

lemma find_row_offset:
  "off + length (row_bytes bss) < 2 ^ 32 \<Longrightarrow> i < length bss \<Longrightarrow>
   find_offset (row_offsets off bss) (row_offsets off bss ! i) = Some i"
proof (induction bss arbitrary: off i)
  case (Cons b bss)
  have len: "off + 4 + length b + length (row_bytes bss) < 2 ^ 32"
    using Cons.prems(1) by (simp add: row_bytes_def add.assoc)
  show ?case
  proof (cases i)
    case (Suc j)
    moreover have "of_nat off \<noteq> row_offsets (off + 4 + length b) bss ! j"
      using Suc Cons.prems(2) len by (intro row_offsets_ge[THEN not_sym]) auto
    ultimately show ?thesis using Cons.IH[of "off + 4 + length b" j] Cons.prems(2) len by simp
  qed simp
qed simp

section \<open>Intact segments\<close>

inductive intact :: "seg_codec \<Rightarrow> bytes \<Rightarrow> nat \<Rightarrow> bytes list \<Rightarrow> bool" for c f where
  intact_end: "pos = length f \<Longrightarrow> intact c f pos []"
| intact_step: "read_segment_block c f pos True = Inr (Some b) \<Longrightarrow> intact c f (sb_next_off b) rs \<Longrightarrow>
    intact c f pos (sb_records b @ rs)"

lemma read_pos_less: "read_segment_block c f pos strict = Inr (Some b) \<Longrightarrow> pos < length f"
  using read_block_next[of c f pos strict b] by (simp add: BLOCK_HEADER_LEN_def)

lemma intact_extend_block:
  "read_segment_block c f pos strict = Inr (Some b) \<Longrightarrow> read_segment_block c (f @ t) pos strict = Inr (Some b)"
  by (rule read_block_prefix[of c f pos strict b "length f"]) (simp_all add: read_block_next(2))

lemma intact_append:
  "intact c f pos rs \<Longrightarrow> intact c (f @ t) (length f) rs' \<Longrightarrow> intact c (f @ t) pos (rs @ rs')"
  by (induction rule: intact.induct) (auto intro: intact_step intact_extend_block)

lemma intact_read:
  "intact c f pos rs \<Longrightarrow> read_records_loop c (f @ t) pos acc = read_records_loop c (f @ t) (length f) (acc @ rs)"
proof (induction arbitrary: acc rule: intact.induct)
  case (intact_step pos b rs)
  have "read_segment_block c (f @ t) pos False = Inr (Some b)"
    using intact_extend_block[OF intact_step.hyps(1)] by (rule read_block_nonstrict)
  with intact_step.IH[of "acc @ sb_records b"] read_pos_less[OF intact_step.hyps(1)] show ?case
    by (subst read_records_loop.simps) simp
qed simp

lemma read_block_valid:
  assumes "read_segment_block c f pos strict = Inr (Some b)"
  shows "validate_loop f pos = validate_loop f (sb_next_off b)"
  using assms
  by (subst validate_loop.simps)
    (auto simp: read_segment_block_def Let_def invalid_block_def BLOCK_HEADER_LEN_def elim!: res_bind_Inr_cases
      split: if_splits option.splits prod.splits)

lemma intact_validate: "intact c f pos rs \<Longrightarrow> validate_loop (f @ t) pos = validate_loop (f @ t) (length f)"
proof (induction rule: intact.induct)
  case (intact_step pos b rs)
  then show ?case using read_block_valid[OF intact_extend_block[OF intact_step.hyps(1)], of t] by simp
qed simp

lemma row_container_intact:
  assumes "block_fits c (row_bytes bss)" "length f + length (container c SEG_MAGIC (row_bytes bss)) < 2 ^ 64"
  defines "b \<equiv> \<lparr>sb_kind = Row, sb_block_off = length f,
     sb_next_off = length f + length (container c SEG_MAGIC (row_bytes bss)),
     sb_records = bss, sb_rec_offsets = row_offsets 0 bss\<rparr>"
  shows "read_segment_block c (f @ container c SEG_MAGIC (row_bytes bss) @ t) (length f) strict = Inr (Some b)"
proof -
  have "length (row_bytes bss) < 2 ^ 32"
    using assms(1) by (simp add: block_fits_def MAX_SEGMENT_BLOCK_BYTES_def)
  then show ?thesis
    using read_container[OF assms(1) _ assms(2), of t strict]
    by (simp add: known_segment_magic_def decode_block_body_def decode_row_block_rows b_def)
qed

text \<open>A write that stopped early: only \<open>k\<close> bytes of the block reached the file.\<close>

lemma torn_header:
  assumes "16 \<le> k" "k \<le> length (container c magic block)"
  shows "slice (length f) (length f + 16) (f @ take k (container c magic block)) =
    block_header magic (crc32 c (zcompress c block)) (of_nat (length (zcompress c block))) (of_nat (length block))"
  using assms by (simp add: container_def)

lemma torn_block:
  assumes "k < length (container c magic block)" "block_fits c block" "known_segment_magic magic"
    and "length f + length (container c magic block) < 2 ^ 64"
  shows "read_segment_block c (f @ take k (container c magic block)) (length f) False = Inr None"
    and "validate_loop (f @ take k (container c magic block)) (length f) = length f"
proof -
  have z: "length (zcompress c block) < 2 ^ 32"
    using assms(2) by (auto simp: block_fits_def MAX_SEGMENT_BLOCK_BYTES_def)
  have lim: "length f + 16 + length (zcompress c block) < 2 ^ 64" "k < 16 + length (zcompress c block)"
    using assms(1,4) by (simp_all add: container_length)
  show "read_segment_block c (f @ take k (container c magic block)) (length f) False = Inr None"
  proof (cases "16 \<le> k")
    case True
    note h = torn_header[OF True less_imp_le[OF assms(1)], of f]
    show ?thesis
      unfolding read_segment_block_def Let_def h
      using z lim assms(3) by (simp add: invalid_block_def BLOCK_HEADER_LEN_def container_length)
  next
    case False
    then have "length f + BLOCK_HEADER_LEN > length (f @ take k (container c magic block))"
      by (simp add: BLOCK_HEADER_LEN_def)
    then show ?thesis unfolding read_segment_block_def invalid_block_def by (simp only: if_True if_False simp_thms)
  qed
  show "validate_loop (f @ take k (container c magic block)) (length f) = length f"
  proof (cases "16 \<le> k")
    case True
    note h = torn_header[OF True less_imp_le[OF assms(1)], of f]
    show ?thesis
      by (subst validate_loop.simps, unfold Let_def h)
        (use z lim in \<open>simp add: BLOCK_HEADER_LEN_def container_length\<close>)
  next
    case False
    then have "length f + BLOCK_HEADER_LEN > length (f @ take k (container c magic block))"
      by (simp add: BLOCK_HEADER_LEN_def)
    then show ?thesis by (subst validate_loop.simps) (simp only: if_True)
  qed
qed


section \<open>The writer\<close>

definition sw_holds :: "seg_codec \<Rightarrow> segment_writer \<Rightarrow> match_record list \<Rightarrow> bool" where
  "sw_holds c w rs \<longleftrightarrow> sw_buf w = row_bytes (map (pencode c) rs)
     \<and> sw_pending w = zip (map game_id rs) (row_offsets 0 (map (pencode c) rs))"

lemma row_bytes_snoc: "row_bytes (bss @ [b]) = row_bytes bss @ to_le 4 (of_nat (length b) :: u32) @ b"
  by (simp add: row_bytes_def)

lemma row_offsets_snoc:
  "row_offsets off (bss @ [b]) = row_offsets off bss @ [of_nat (off + length (row_bytes bss))]"
  by (induction bss arbitrary: off) (simp_all add: row_bytes_def add.assoc)

lemma sw_append_holds: "sw_holds c w rs \<Longrightarrow> sw_holds c (sw_append c r w) (rs @ [r])"
  by (simp add: sw_holds_def sw_append_def Let_def row_bytes_snoc row_offsets_snoc)

lemma paths_differ [simp]: "seg_path dir date \<noteq> idx_path dir date" "idx_path dir date \<noteq> seg_path dir date"
  by (simp_all add: seg_path_def idx_path_def)

lemma contents_append [simp]:
  "contents (append_file p bs fs) q = (if q = p then contents fs p @ bs else contents fs q)"
  by (simp add: append_file_def contents_def)

definition pending_entries :: "nat \<Rightarrow> (u64 \<times> u32) list \<Rightarrow> idx_entry list" where
  "pending_entries block_off ps =
     map (\<lambda>(gid, rec_off). \<lparr>ie_game_id = gid, ie_block_off = of_nat block_off, ie_rec_off = rec_off\<rparr>) ps"

lemma idx_bytes_pending:
  "concat (map (\<lambda>(gid, rec_off). to_le 8 gid @ to_le 8 (of_nat off :: u64) @ to_le 4 rec_off) ps) =
     idx_bytes (pending_entries off ps)"
  by (induction ps) (auto simp: idx_bytes_def pending_entries_def idx_entry_bytes_def)

lemma sw_flush_files:
  assumes "sw_pending w \<noteq> []" "sw_flush c (w, fs) = (w', fs')"
  defines "sp \<equiv> seg_path (sw_dir w) (sw_date w)"
  shows "contents fs' sp = contents fs sp @ container c SEG_MAGIC (sw_buf w)"
    and "contents fs' (idx_path (sw_dir w) (sw_date w)) =
       contents fs (idx_path (sw_dir w) (sw_date w)) @ idx_bytes (pending_entries (length (contents fs sp)) (sw_pending w))"
    and "sw_holds c w' []"
  using assms by (auto simp: sw_flush_def Let_def container_def idx_bytes_pending sw_holds_def row_bytes_def)

section \<open>Index files\<close>

lemma length_idx_bytes: "length (idx_bytes es) = 20 * length es"
  by (induction es) (simp_all add: idx_bytes_def idx_entry_bytes_def)

lemma idx_chunks_bytes: "idx_chunks (idx_bytes es) (length es) = es"
proof (induction es)
  case (Cons e es)
  have b: "idx_bytes (e # es) = to_le 8 (ie_game_id e) @ to_le 8 (ie_block_off e) @ to_le 4 (ie_rec_off e) @ idx_bytes es"
    by (simp add: idx_bytes_def idx_entry_bytes_def)
  have "slice 0 8 (idx_bytes (e # es)) = to_le 8 (ie_game_id e)"
    "slice 8 16 (idx_bytes (e # es)) = to_le 8 (ie_block_off e)"
    "slice 16 20 (idx_bytes (e # es)) = to_le 4 (ie_rec_off e)"
    "drop IDX_ENTRY_LEN (idx_bytes (e # es)) = idx_bytes es"
    unfolding b by (simp_all add: slice_def IDX_ENTRY_LEN_def)
  with Cons show ?case by simp
qed simp

lemma parse_idx_bytes: "parse_idx_entries (idx_bytes es) = Some es"
  using idx_chunks_bytes[of es] by (simp add: parse_idx_entries_def length_idx_bytes IDX_ENTRY_LEN_def)

lemma read_record_at_row:
  assumes "read_segment_block c f pos True = Inr (Some b)" "sb_kind b = Row" "sb_rec_offsets b = row_offsets 0 (sb_records b)"
    and "length (row_bytes (sb_records b)) < 2 ^ 32" "i < length (sb_records b)" "pos < 2 ^ 64"
  shows "read_record_at c f (of_nat pos) (row_offsets 0 (sb_records b) ! i) = Inr (sb_records b ! i)"
  using assms find_row_offset[of 0 "sb_records b" i] by (simp add: read_record_at_def)

section \<open>Recompaction\<close>

lemma layout_loop_intact:
  assumes "read_layout_loop c f pos lay = Inr lay'" "sl_torn_tail lay = None" "pos \<le> length f"
  shows "\<exists>n rs. n \<le> length f \<and> intact c (take n f) pos rs \<and> sl_records lay' = sl_records lay @ rs
    \<and> (case sl_torn_tail lay' of None \<Rightarrow> n = length f | Some t \<Rightarrow> valid_len t = n \<and> dropped_bytes t = length f - n)"
  using assms
proof (induction c f pos lay rule: read_layout_loop.induct)
  case (1 c f pos lay)
  show ?case
  proof (cases "pos < length f \<and> (\<exists>b. read_segment_block c f pos True = Inr (Some b))")
    case True
    then obtain b where b: "read_segment_block c f pos True = Inr (Some b)" and pos: "pos < length f" by blast
    from "1.prems"(1) b pos obtain es where len: "\<not> length (sb_records b) \<noteq> length (sb_rec_offsets b)"
      and es: "layout_entries c (sb_block_off b) (sb_records b) (sb_rec_offsets b) = Inr es"
      and rest: "read_layout_loop c f (sb_next_off b)
        (lay\<lparr>has_row_blocks := has_row_blocks lay \<or> sb_kind b = Row, sl_idx_entries := sl_idx_entries lay @ es,
             sl_records := sl_records lay @ sb_records b\<rparr>) = Inr lay'"
      by (subst (asm) read_layout_loop.simps) (auto simp: res_bind_eq_Inr split: if_splits)
    from "1.IH"[OF pos b refl len es rest] "1.prems"(2) read_block_next(2)[OF b] obtain n rs where
      n: "n \<le> length f" "intact c (take n f) (sb_next_off b) rs" "sl_records lay' = (sl_records lay @ sb_records b) @ rs"
      "case sl_torn_tail lay' of None \<Rightarrow> n = length f | Some t \<Rightarrow> valid_len t = n \<and> dropped_bytes t = length f - n"
      by auto
    have "sb_next_off b \<le> n"
      using n(2,1) by (cases rule: intact.cases) (auto dest!: read_pos_less)
    then have "read_segment_block c (take n f) pos True = Inr (Some b)"
      using n(1) by (intro read_block_prefix[OF b, of n]) auto
    from intact_step[OF this n(2)] n(1,3,4) show ?thesis by auto
  next
    case False
    have "lay' = (if pos < length f then lay\<lparr>sl_torn_tail := Some \<lparr>valid_len = pos, dropped_bytes = length f - pos\<rparr>\<rparr> else lay)"
      using "1.prems"(1) False
      by (subst (asm) read_layout_loop.simps) (auto split: if_splits sum.splits option.splits)
    moreover have "intact c (take pos f) pos []" using "1.prems"(3) by (intro intact_end) simp
    ultimately show ?thesis using "1.prems"(2,3) by (intro exI[of _ pos] exI[of _ "[]"]) auto
  qed
qed

lemma layout_intact:
  assumes "read_segment_layout c f = Inr lay"
  shows "\<exists>n. n \<le> length f \<and> intact c (take n f) 0 (sl_records lay)
    \<and> (case sl_torn_tail lay of None \<Rightarrow> n = length f | Some t \<Rightarrow> valid_len t = n)"
  using layout_loop_intact[OF assms[unfolded read_segment_layout_def]] by (auto split: option.splits)

lemma intact_records: "intact c f 0 rs \<Longrightarrow> read_segment_records c f = Inr rs"
  using intact_read[of c f 0 rs "[]" "[]"]
  by (simp add: read_segment_records_def read_records_loop.simps[of c f "length f"])

lemma verify_rewrite_Inr: "verify_rewrite want got = Inr u \<Longrightarrow> want = got"
  by (auto simp: verify_rewrite_def first_mismatch_None split: if_splits option.splits)

lemma tmp_path_differs [simp]: "tmp_path p \<noteq> p" "p \<noteq> tmp_path p"
  by (simp_all add: tmp_path_def)

lemma tmp_path_inj [simp]: "tmp_path p = tmp_path q \<longleftrightarrow> p = q"
  by (simp add: tmp_path_def)


definition recompact_ok ::
  "seg_codec \<Rightarrow> string \<Rightarrow> string \<Rightarrow> fsys \<Rightarrow> (seg_error + recompact_outcome) \<Rightarrow> fsys \<Rightarrow> bool" where
  "recompact_ok c seg idx fs res fs' \<longleftrightarrow>
     fs' (tmp_path seg) = None \<and> fs' (tmp_path idx) = None
     \<and> (case res of
          Inl e \<Rightarrow> fs' seg = fs seg \<and> fs' idx = fs idx
        | Inr out \<Rightarrow> \<exists>f lay g. fs seg = Some f \<and> read_segment_layout c f = Inr lay \<and> fs' seg = Some g
            \<and> intact c g 0 (sl_records lay) \<and> record_count out = length (sl_records lay))"

text \<open>The four paths are different.\<close>

definition paths_ok :: "string \<Rightarrow> string \<Rightarrow> bool" where
  "paths_ok seg idx \<longleftrightarrow> seg \<noteq> idx \<and> tmp_path seg \<noteq> idx \<and> tmp_path idx \<noteq> seg"

lemma compact_branch:
  assumes "paths_ok seg idx" "fs seg = Some f" "read_segment_layout c f = Inr lay"
    and "ensure_idx_consistent_or_rebuild idx (sl_idx_entries lay)
      (case sl_torn_tail lay of Some t \<Rightarrow> fs(seg \<mapsto> take (valid_len t) f) | None \<Rightarrow> fs) = (rebuilt, fs')"
    and "fs (tmp_path seg) = None" "fs (tmp_path idx) = None" "record_count out = length (sl_records lay)"
  shows "recompact_ok c seg idx fs (Inr out) fs'"
proof -
  from layout_intact[OF assms(3)] obtain n where n: "n \<le> length f" "intact c (take n f) 0 (sl_records lay)"
    "case sl_torn_tail lay of None \<Rightarrow> n = length f | Some t \<Rightarrow> valid_len t = n" by blast
  have "fs' seg = Some (take n f)" "fs' (tmp_path seg) = None" "fs' (tmp_path idx) = None"
    using assms(1,2,4-6) n(3)
    by (auto simp: ensure_idx_consistent_or_rebuild_def replace_idx_def rename_file_def paths_ok_def Let_def
        split: if_splits option.splits)
  with n(2) assms show ?thesis by (auto simp: recompact_ok_def)
qed

lemma rewrite_branch:
  assumes "paths_ok seg idx" "fs seg = Some f" "read_segment_layout c f = Inr lay"
    and "res_bind (read_segment_records_strict c new_seg) (\<lambda>rewritten. verify_rewrite (sl_records lay) rewritten) = Inr u"
    and "record_count out = length (sl_records lay)"
  shows "recompact_ok c seg idx fs (Inr out) (rename_file (tmp_path idx) idx (rename_file (tmp_path seg) seg
     (fs(tmp_path seg \<mapsto> new_seg, tmp_path idx \<mapsto> bs))))"
proof -
  from assms(4) obtain rewritten where r: "read_segment_records_strict c new_seg = Inr rewritten"
    "sl_records lay = rewritten" by (auto simp: res_bind_eq_Inr dest: verify_rewrite_Inr)
  then obtain lay2 where "read_segment_layout c new_seg = Inr lay2" "sl_torn_tail lay2 = None" "sl_records lay2 = sl_records lay"
    by (auto simp: read_segment_records_strict_def res_bind_eq_Inr split: if_splits)
  with layout_intact[of c new_seg lay2] have "intact c new_seg 0 (sl_records lay)" by auto
  then show ?thesis
    using assms(1-3,5) by (auto simp: recompact_ok_def rename_file_def paths_ok_def)
qed

lemma checked_file_cases:
  fixes g :: "'l \<Rightarrow> 'e + unit" and r :: "'f \<Rightarrow> 'e + 'l"
  assumes "m = None \<Longrightarrow> P" "\<And>f e. m = Some f \<Longrightarrow> r f = Inl e \<Longrightarrow> P"
    and "\<And>f l e. m = Some f \<Longrightarrow> r f = Inr l \<Longrightarrow> g l = Inl e \<Longrightarrow> P"
    and "\<And>f l. m = Some f \<Longrightarrow> r f = Inr l \<Longrightarrow> g l = Inr () \<Longrightarrow> P"
  shows P
proof (cases m)
  case (Some f)
  show P
  proof (cases "r f")
    case (Inr l)
    then show P using Some assms(3,4) by (cases "g l") auto
  qed (use Some assms(2) in auto)
qed (rule assms(1))

lemma recompact_correct:
  assumes "recompact_segment c seg idx fs = (res, fs')" "paths_ok seg idx"
  shows "recompact_ok c seg idx (fs(tmp_path seg := None, tmp_path idx := None)) res fs'"
proof -
  let ?fs = "fs(tmp_path seg := None, tmp_path idx := None)"
  note def = assms(1)[unfolded recompact_segment_def recompact_segment_inner_def Let_def]
  have p: "seg \<noteq> tmp_path idx" "idx \<noteq> tmp_path seg" "seg \<noteq> idx" using assms(2) by (auto simp: paths_ok_def)
  have err: "recompact_ok c seg idx ?fs (Inl e) (fs''(tmp_path seg := None, tmp_path idx := None))"
    if "fs'' seg = ?fs seg" "fs'' idx = ?fs idx" for e fs''
    using that p by (auto simp: recompact_ok_def)
  have err0: "recompact_ok c seg idx ?fs (Inl e) ?fs" for e by (simp add: recompact_ok_def)
  consider (missing) "?fs seg = None" | (unreadable) f e where "?fs seg = Some f" "read_segment_layout c f = Inl e"
    | (indexed) f lay e where "?fs seg = Some f" "read_segment_layout c f = Inr lay"
        "(case sl_torn_tail lay of Some t \<Rightarrow> ensure_torn_tail_unindexed (?fs idx) t | None \<Rightarrow> Inr ()) = Inl e"
    | (ok) f lay where "?fs seg = Some f" "read_segment_layout c f = Inr lay"
        "(case sl_torn_tail lay of Some t \<Rightarrow> ensure_torn_tail_unindexed (?fs idx) t | None \<Rightarrow> Inr ()) = Inr ()"
    by (rule checked_file_cases[where m = "?fs seg" and r = "read_segment_layout c" and g =
          "\<lambda>lay. case sl_torn_tail lay of Some t \<Rightarrow> ensure_torn_tail_unindexed (?fs idx) t | None \<Rightarrow> Inr ()"])
  then show ?thesis
  proof cases
    case missing
    with def have "res = Inl FileMissing" "fs' = ?fs" by auto
    then show ?thesis using err0 by simp
  next
    case unreadable
    with def have "res = Inl e" "fs' = ?fs" by auto
    then show ?thesis using err0 by simp
  next
    case indexed
    with def have "res = Inl e" "fs' = ?fs" by auto
    then show ?thesis using err0 by simp
  next
    case f: ok
    show ?thesis
    proof (cases "has_row_blocks lay")
      case False
      obtain rebuilt fs2 where e: "ensure_idx_consistent_or_rebuild idx (sl_idx_entries lay)
        (case sl_torn_tail lay of Some t \<Rightarrow> ?fs(seg \<mapsto> take (valid_len t) f) | None \<Rightarrow> ?fs) = (rebuilt, fs2)" by fastforce
      note def' = def[unfolded f option.case sum.case e prod.case, simplified False, simplified]
      then obtain out where "res = Inr out" "fs' = fs2" "record_count out = length (sl_records lay)"
        by (metis recompact_outcome.select_convs(8))
      then show ?thesis using compact_branch[OF assms(2) f(1,2) e] by auto
    next
      case True
      show ?thesis
      proof (cases "rewrite_chunks c (sl_records lay) [] []")
        case (Inl e)
        then show ?thesis using def f True err0[of e] by auto
      next
        case (Inr x)
        obtain new_seg new_idx where x: "x = (new_seg, new_idx)" by (cases x)
        let ?v = "res_bind (read_segment_records_strict c new_seg) (\<lambda>rewritten. verify_rewrite (sl_records lay) rewritten)"
        show ?thesis
        proof (cases ?v)
          case (Inl e)
          then show ?thesis
            using def f True Inr x p err[of "?fs(tmp_path seg \<mapsto> new_seg, tmp_path idx \<mapsto> idx_bytes new_idx)" e] by auto
        next
          case v: (Inr u)
          have "recompact_ok c seg idx ?fs (fst (res, fs')) (snd (res, fs'))"
            unfolding def[symmetric]
            by (simp only: f option.case sum.case Inr x prod.case v True not_True_eq_False if_False fst_conv snd_conv)
              (rule rewrite_branch[where fs = ?fs, OF assms(2) f(1,2) v], simp)
          then show ?thesis by simp
        qed
      qed
    qed
  qed
qed


section \<open>A concrete codec and writer\<close>

definition sample_codec :: seg_codec where
  "sample_codec = \<lparr>zcompress = (\<lambda>b. b), zdecompress = (\<lambda>b n. Some b), crc32 = (\<lambda>b. of_nat (length b)),
     pdecode = (\<lambda>_. Some sample_record), pencode = (\<lambda>_. [1, 2, 3])\<rparr>"

definition sample_writer :: segment_writer where
  "sample_writer = sw_append sample_codec sample_record \<lparr>sw_dir = ''m'', sw_date = ''d'', sw_buf = [], sw_pending = []\<rparr>"

lemma sample_holds: "sw_holds sample_codec sample_writer [sample_record]"
  using sw_append_holds[of sample_codec "\<lparr>sw_dir = ''m'', sw_date = ''d'', sw_buf = [], sw_pending = []\<rparr>" "[]" sample_record]
  by (simp add: sample_writer_def sw_holds_def row_bytes_def)

lemma sample_block: "block_fits sample_codec (sw_buf sample_writer)"
  by (simp add: block_fits_def sample_codec_def sample_writer_def sw_append_def MAX_SEGMENT_BLOCK_BYTES_def)

lemma sample_dirs: "sw_dir sample_writer = ''m''" "sw_date sample_writer = ''d''"
  by (simp_all add: sample_writer_def sw_append_def Let_def)

lemma sample_size: "length (container sample_codec magic (sw_buf sample_writer)) = 23"
  by (simp add: container_length sample_codec_def sample_writer_def sw_append_def Let_def)

section \<open>Flushing\<close>

lemma append_rows_intact:
  assumes "intact c f 0 old" "block_fits c (row_bytes bss)" "length f + length (container c SEG_MAGIC (row_bytes bss)) < 2 ^ 64"
  shows "intact c (f @ container c SEG_MAGIC (row_bytes bss)) 0 (old @ bss)"
proof -
  note blk = row_container_intact[OF assms(2,3), of "[]" True, simplified]
  have "intact c (f @ container c SEG_MAGIC (row_bytes bss)) (length f) (bss @ [])"
    using intact_step[OF blk, of "[]"] by (simp add: intact_end)
  then show ?thesis using intact_append[OF assms(1)] by simp
qed

section \<open>Properties\<close>

text \<open>C27: Flushing the writer is lossless and indexed: onto an intact segment it adds exactly the pending
  records (as prost encoded them), the segment stays intact, and every locator it appends to the
  index finds its record again.  Assumed of zstd: decompressing the block it just compressed gives it back.\<close>

theorem flush_then_read:
  assumes "sw_holds c w rs" "rs \<noteq> []" "sw_flush c (w, fs) = (w', fs')"
    and "intact c (contents fs (seg_path (sw_dir w) (sw_date w))) 0 old"
    and "block_fits c (sw_buf w)"
    and "length (contents fs' (seg_path (sw_dir w) (sw_date w))) < 2 ^ 64"
  shows "let seg = contents fs' (seg_path (sw_dir w) (sw_date w));
         off = length (contents fs (seg_path (sw_dir w) (sw_date w))) in
     intact c seg 0 (old @ map (pencode c) rs)
     \<and> read_segment_records c seg = Inr (old @ map (pencode c) rs)
     \<and> (\<forall>i < length rs. read_record_at c seg (of_nat off) (snd (sw_pending w ! i)) = Inr (pencode c (rs ! i))
          \<and> fst (sw_pending w ! i) = game_id (rs ! i))
     \<and> contents fs' (idx_path (sw_dir w) (sw_date w)) =
         contents fs (idx_path (sw_dir w) (sw_date w)) @ idx_bytes (pending_entries off (sw_pending w))"
proof -
  let ?f = "contents fs (seg_path (sw_dir w) (sw_date w))"
  let ?bss = "map (pencode c) rs"
  let ?blk = "container c SEG_MAGIC (row_bytes ?bss)"
  from assms(1,2) have hold: "sw_buf w = row_bytes ?bss" "sw_pending w = zip (map game_id rs) (row_offsets 0 ?bss)"
    "sw_pending w \<noteq> []" by (cases rs; simp add: sw_holds_def)+
  note fl = sw_flush_files[OF hold(3) assms(3)]
  have seg: "contents fs' (seg_path (sw_dir w) (sw_date w)) = ?f @ ?blk" using fl(1) hold(1) by simp
  have fits: "block_fits c (row_bytes ?bss)" "length ?f + length ?blk < 2 ^ 64"
    using assms(5,6) hold(1) seg by simp_all
  note blk = row_container_intact[OF fits, of "[]" True, simplified]
  have int: "intact c (?f @ ?blk) 0 (old @ ?bss)" by (rule append_rows_intact[OF assms(4) fits])
  have "length (row_bytes ?bss) < 2 ^ 32" using fits(1) by (simp add: block_fits_def MAX_SEGMENT_BLOCK_BYTES_def)
  then have "read_record_at c (?f @ ?blk) (of_nat (length ?f)) (row_offsets 0 ?bss ! i) = Inr (pencode c (rs ! i))"
    if "i < length rs" for i using read_record_at_row[OF blk, of i] that fits(2) by simp
  then show ?thesis
    unfolding Let_def seg using int intact_records[OF int] fl(2) hold(2) by simp
qed

theorem flush_then_read_witness:
  "\<exists>seg. contents (snd (sw_flush sample_codec (sample_writer, Map.empty))) (seg_path ''m'' ''d'') = seg
     \<and> read_segment_records sample_codec seg = Inr [[1, 2, 3]]
     \<and> read_record_at sample_codec seg 0 0 = Inr [1, 2, 3]"
proof -
  obtain w' fs' where fl: "sw_flush sample_codec (sample_writer, Map.empty) = (w', fs')" by fastforce
  have p: "sw_pending sample_writer = [(game_id sample_record, 0)]"
    by (simp add: sample_writer_def sw_append_def Let_def)
  have "contents fs' (seg_path ''m'' ''d'') = [] @ container sample_codec SEG_MAGIC (sw_buf sample_writer)"
    using sw_flush_files(1)[OF _ fl] p by (simp add: sample_dirs contents_def)
  then have "length (contents fs' (seg_path ''m'' ''d'')) < 2 ^ 64" by (simp add: sample_size)
  with flush_then_read[OF sample_holds _ fl, of "[]"] sample_block p fl show ?thesis
    by (auto simp: sample_dirs contents_def intact_end Let_def sample_codec_def)
qed

text \<open>C9: A crash in the middle of a block write loses nothing before it: when only a proper prefix of the
  next block reached the file, readers still return exactly the records of the intact part, and
  reopening the segment for writing truncates it to exactly that part.\<close>

theorem torn_write_recovers:
  assumes "intact c f 0 rs" "known_segment_magic magic" "block_fits c block"
    and "k < length (container c magic block)" "length f + length (container c magic block) < 2 ^ 64"
    and "fs (seg_path dir date) = Some (f @ take k (container c magic block))"
  shows "read_segment_records c (f @ take k (container c magic block)) = Inr rs
    \<and> contents (open_files dir date fs) (seg_path dir date) = f"
proof -
  let ?g = "f @ take k (container c magic block)"
  note torn = torn_block[OF assms(4,3,2,5)]
  have "read_records_loop c ?g (length f) rs = Inr rs"
    using torn(1) by (subst read_records_loop.simps) simp
  then have "read_segment_records c ?g = Inr rs"
    using intact_read[OF assms(1), of "take k (container c magic block)" "[]"] by (simp add: read_segment_records_def)
  moreover have "validate_segment ?g = length f"
    using torn(2) intact_validate[OF assms(1)] by (simp add: validate_segment_def)
  then have "contents (open_files dir date fs) (seg_path dir date) = f"
    using assms(6) by (auto simp: open_files_def Let_def contents_def append_file_def)
  ultimately show ?thesis by blast
qed

theorem torn_write_recovers_witness:
  "read_segment_records sample_codec (take 20 (container sample_codec SEG_MAGIC (sw_buf sample_writer))) = Inr []
   \<and> contents (open_files ''m'' ''d'' [seg_path ''m'' ''d'' \<mapsto> take 20 (container sample_codec SEG_MAGIC (sw_buf sample_writer))])
       (seg_path ''m'' ''d'') = []"
  using torn_write_recovers[of sample_codec "[]" "[]" SEG_MAGIC "sw_buf sample_writer" 20
      "[seg_path ''m'' ''d'' \<mapsto> take 20 (container sample_codec SEG_MAGIC (sw_buf sample_writer))]" "''m''" "''d''"]
    sample_block by (simp add: intact_end known_segment_magic_def sample_size)

text \<open>C8: Recompaction never loses a record: when it succeeds the segment is intact and holds exactly
  the records the old segment had up to its torn tail; when it fails, segment and index are
  untouched; either way no temporary file remains.  No assumption on zstd, crc32 or prost is needed, because
  the rewritten file is read back and compared before it replaces the old one.\<close>

theorem recompact_preserves_records:
  assumes "recompact_segment c seg idx fs = (res, fs')" "seg \<noteq> idx" "tmp_path seg \<noteq> idx" "tmp_path idx \<noteq> seg"
  shows "fs' (tmp_path seg) = None \<and> fs' (tmp_path idx) = None
     \<and> (case res of
          Inl e \<Rightarrow> fs' seg = fs seg \<and> fs' idx = fs idx
        | Inr out \<Rightarrow> \<exists>f lay g. fs seg = Some f \<and> read_segment_layout c f = Inr lay \<and> fs' seg = Some g
            \<and> read_segment_records c g = Inr (sl_records lay) \<and> record_count out = length (sl_records lay))"
proof -
  have "paths_ok seg idx" using assms(2-4) by (simp add: paths_ok_def)
  from recompact_correct[OF assms(1) this] assms(2-4) show ?thesis
    by (auto simp: recompact_ok_def split: sum.splits dest: intact_records)
qed

theorem recompact_preserves_records_witness:
  "\<exists>res fs'. recompact_segment sample_codec ''a.seg'' ''a.idx'' [''a.seg'' \<mapsto> [9, 9]] = (res, fs')
     \<and> fs' ''a.seg.tmp'' = None"
proof -
  obtain res fs' where r: "recompact_segment sample_codec ''a.seg'' ''a.idx'' [''a.seg'' \<mapsto> [9, 9]] = (res, fs')" by fastforce
  from recompact_preserves_records[OF this] show ?thesis using r by (simp add: tmp_path_def)
qed

text \<open>The index file format is a bijection on entry lists: parsing the bytes written for a list of
  locators returns that list, and files whose length is not a multiple of the entry size are rejected.\<close>

lemma idx_roundtrip:
  "parse_idx_entries (idx_bytes es) = Some es
   \<and> (parse_idx_entries bs = None \<longleftrightarrow> length bs mod 20 \<noteq> 0)"
  using parse_idx_bytes by (simp add: parse_idx_entries_def IDX_ENTRY_LEN_def)

text \<open>The writer's validation looks only at magics and lengths: there are segments it accepts to the last
  byte, so that the writer keeps appending to them, whose block fails the reader's checksum test.\<close>

lemma validate_ignores_checksum:
  "\<exists>f. validate_segment f = length f \<and> 0 < length f \<and> read_segment_block sample_codec f 0 True = Inl CrcMismatch"
proof -
  let ?f = "block_header SEG_MAGIC 5 0 0"
  have h: "slice 0 16 ?f = ?f" by (simp add: slice_def)
  have "validate_loop ?f 0 = 16"
    by (subst validate_loop.simps, subst validate_loop.simps)
      (simp add: h known_segment_magic_def BLOCK_HEADER_LEN_def Let_def)
  moreover have "slice 16 16 ?f = []" by (simp add: slice_def)
  then have "read_segment_block sample_codec ?f 0 True = Inl CrcMismatch"
    by (simp add: read_segment_block_def h known_segment_magic_def BLOCK_HEADER_LEN_def invalid_block_def
        sample_codec_def Let_def)
  ultimately show ?thesis by (intro exI[of _ ?f]) (simp add: validate_segment_def)
qed

end
