(* ===== verification/Store.thy ===== *)
theory Store
  imports Frontier_Props Segment_Props Stats
begin

text \<open>
  The store of \<^verbatim>\<open>crates/server/src/storage.rs\<close>: the database tables, the in-memory caches written
  through to them, the segment writers, and the operations of \<^verbatim>\<open>impl Store\<close>.

  The database is kept twice: \<open>st_db\<close> is what transactions see, \<open>st_durable\<close> is what a crash leaves behind.
  A fast transaction (\<^verbatim>\<open>Durability::None\<close>) changes the first only; a durable commit copies it to the second.
  Files are written by segment flushes, which the code fsyncs.  A hash map is an ordered table,
  because nothing the code does depends on its iteration order.  Wall-clock time and the current UTC date are
  arguments.  The serialisation of the roaring bitmaps is a parameter (\<open>store_lib\<close>).
\<close>

section \<open>Configuration\<close>

record region =
  rg_platform :: string
  rg_platform_host :: string
  rg_regional_host :: string

definition ALL_REGIONS :: "region list" where
  "ALL_REGIONS =
    [\<lparr>rg_platform = ''BR1'', rg_platform_host = ''br1'', rg_regional_host = ''americas''\<rparr>,
     \<lparr>rg_platform = ''EUN1'', rg_platform_host = ''eun1'', rg_regional_host = ''europe''\<rparr>,
     \<lparr>rg_platform = ''EUW1'', rg_platform_host = ''euw1'', rg_regional_host = ''europe''\<rparr>,
     \<lparr>rg_platform = ''JP1'', rg_platform_host = ''jp1'', rg_regional_host = ''asia''\<rparr>,
     \<lparr>rg_platform = ''KR'', rg_platform_host = ''kr'', rg_regional_host = ''asia''\<rparr>,
     \<lparr>rg_platform = ''LA1'', rg_platform_host = ''la1'', rg_regional_host = ''americas''\<rparr>,
     \<lparr>rg_platform = ''LA2'', rg_platform_host = ''la2'', rg_regional_host = ''americas''\<rparr>,
     \<lparr>rg_platform = ''ME1'', rg_platform_host = ''me1'', rg_regional_host = ''europe''\<rparr>,
     \<lparr>rg_platform = ''NA1'', rg_platform_host = ''na1'', rg_regional_host = ''americas''\<rparr>,
     \<lparr>rg_platform = ''OC1'', rg_platform_host = ''oc1'', rg_regional_host = ''sea''\<rparr>,
     \<lparr>rg_platform = ''RU'', rg_platform_host = ''ru'', rg_regional_host = ''europe''\<rparr>,
     \<lparr>rg_platform = ''SG2'', rg_platform_host = ''sg2'', rg_regional_host = ''sea''\<rparr>,
     \<lparr>rg_platform = ''TR1'', rg_platform_host = ''tr1'', rg_regional_host = ''europe''\<rparr>,
     \<lparr>rg_platform = ''TW2'', rg_platform_host = ''tw2'', rg_regional_host = ''sea''\<rparr>,
     \<lparr>rg_platform = ''VN2'', rg_platform_host = ''vn2'', rg_regional_host = ''sea''\<rparr>]"

definition ENABLED_REGIONS :: "string list" where
  "ENABLED_REGIONS = [''EUW1'', ''NA1'', ''KR'', ''VN2'']"

definition enabled_regions :: "region list" where
  "enabled_regions = filter (\<lambda>r. rg_platform r \<in> set ENABLED_REGIONS) ALL_REGIONS"

definition REMAKE_MAX_DURATION_S :: u32 where "REMAKE_MAX_DURATION_S = 300"

definition ADOPTION_THRESHOLD :: u32 where "ADOPTION_THRESHOLD = 2"

definition HISTORY_REQUIRED :: u8 where "HISTORY_REQUIRED = 20"

definition COHORT_SRC_APEX :: u8 where "COHORT_SRC_APEX = 0"

definition COHORT_SRC_ADOPTED :: u8 where "COHORT_SRC_ADOPTED = 1"

definition COHORT_SRC_LADDER :: u8 where "COHORT_SRC_LADDER = 2"

section \<open>State\<close>

record node_rec =
  nd_name :: string
  nd_token_sha256_hex :: string
  nd_created_ms :: u64

record rank_snap =
  rs_tier :: string
  rs_division :: string
  rs_lp :: int
  rs_wins :: int
  rs_losses :: int

record tables =
  t_players :: "(string, u32) table"
  t_meta :: "(string, bytes) table"
  t_ranks :: "(u32 \<times> u64, rank_snap) table"
  t_player_tl :: "(u32 \<times> u64, u64 \<times> u8) table"
  t_front :: frontier
  t_cohort :: "(u32, u64 \<times> u8) table"
  t_outsider :: "(u32, u32) table"
  t_progress :: "(string \<times> u64, bytes) table"
  t_nodes :: "(u32, node_rec) table"
  t_node_stats :: "(u32 \<times> u64, bucket) table"

definition empty_tables :: tables where
  "empty_tables = \<lparr>t_players = RBT.empty, t_meta = RBT.empty, t_ranks = RBT.empty, t_player_tl = RBT.empty,
     t_front = empty_frontier, t_cohort = RBT.empty, t_outsider = RBT.empty, t_progress = RBT.empty,
     t_nodes = RBT.empty, t_node_stats = RBT.empty\<rparr>"

record store =
  st_db :: tables
  st_durable :: tables
  st_files :: fsys
  st_data_dir :: string
  st_players :: "(string, u32) table"
  st_next_player_id :: u32
  st_seen :: "(string, u64 set) table"
  st_writers :: "(string, segment_writer) table"
  st_pending_ranks :: "(u32 \<times> u64 \<times> rank_snap) list"
  st_dirty_bitmaps :: bool
  st_cohort :: "u32 set"
  st_outsider_seen :: "(u32, u32) table"
  st_valid_samples :: "(string, u64) table"

record store_lib =
  lib_seg :: seg_codec
  bitmap_ser :: "u64 set \<Rightarrow> bytes"
  bitmap_de :: "bytes \<Rightarrow> u64 set option"

datatype store_error = BitmapCorrupt | IndexPanic

section \<open>Opening\<close>

definition bitmap_key :: "string \<Rightarrow> string" where
  "bitmap_key plat = ''bitmap_'' @ plat"

definition valid_key :: "string \<Rightarrow> string" where
  "valid_key plat = ''valid_samples_'' @ plat"

definition next_id_after :: "(string \<times> u32) list \<Rightarrow> u32" where
  "next_id_after kvs = fold (\<lambda>(_, v) n. max n (v + 1)) kvs 1"

fun load_regions :: "store_lib \<Rightarrow> (string, bytes) table \<Rightarrow> region list \<Rightarrow>
  (string, u64 set) table \<times> (string, u64) table \<Rightarrow> store_error + (string, u64 set) table \<times> (string, u64) table" where
  "load_regions lib meta [] acc = Inr acc"
| "load_regions lib meta (r # rs) (seen, valid) =
     (let bm = (case RBT.lookup meta (bitmap_key (rg_platform r)) of
                  Some bs \<Rightarrow> bitmap_de lib bs | None \<Rightarrow> Some {});
          v = (case RBT.lookup meta (valid_key (rg_platform r)) of
                 Some bs \<Rightarrow> if length bs = 8 then from_le bs else 0 | None \<Rightarrow> 0)
      in case bm of
           None \<Rightarrow> Inl BitmapCorrupt
         | Some bm \<Rightarrow> load_regions lib meta rs
             (RBT.insert (rg_platform r) bm seen, RBT.insert (rg_platform r) v valid))"

definition open_store :: "store_lib \<Rightarrow> string \<Rightarrow> tables \<Rightarrow> fsys \<Rightarrow> store_error + store" where
  "open_store lib data_dir db fs =
     res_bind (load_regions lib (t_meta db) enabled_regions (RBT.empty, RBT.empty)) (\<lambda>(seen, valid).
     Inr \<lparr>st_db = db, st_durable = db, st_files = fs, st_data_dir = data_dir,
          st_players = insert_all (RBT.entries (t_players db)) RBT.empty,
          st_next_player_id = next_id_after (RBT.entries (t_players db)),
          st_seen = seen, st_writers = RBT.empty, st_pending_ranks = [], st_dirty_bitmaps = False,
          st_cohort = set (RBT.keys (t_cohort db)),
          st_outsider_seen = insert_all (RBT.entries (t_outsider db)) RBT.empty,
          st_valid_samples = valid\<rparr>)"

fun dedup_adjacent :: "'a list \<Rightarrow> 'a list" where
  "dedup_adjacent (x # y # zs) = (if x = y then dedup_adjacent (y # zs) else x # dedup_adjacent (y # zs))"
| "dedup_adjacent xs = xs"

definition open_writer_dates :: "store \<Rightarrow> string list" where
  "open_writer_dates s = dedup_adjacent (sort (map (\<lambda>(_, w). sw_date w) (RBT.entries (st_writers s))))"

section \<open>Transactions\<close>

text \<open>A committed fast transaction, and a durable commit.\<close>

definition commit_fast :: "(tables \<Rightarrow> tables) \<Rightarrow> store \<Rightarrow> store" where
  "commit_fast txn s = s\<lparr>st_db := txn (st_db s)\<rparr>"

definition commit_durable :: "(tables \<Rightarrow> tables) \<Rightarrow> store \<Rightarrow> store" where
  "commit_durable txn s = s\<lparr>st_db := txn (st_db s), st_durable := txn (st_db s)\<rparr>"

definition durable_checkpoint :: "u64 \<Rightarrow> store \<Rightarrow> store" where
  "durable_checkpoint now s =
     (commit_durable (\<lambda>t. t\<lparr>t_meta := RBT.insert ''checkpoint_ms'' (to_le 8 now) (t_meta t),
                          t_ranks := insert_all (map (\<lambda>(pid, ts, val). ((pid, ts), val)) (st_pending_ranks s)) (t_ranks t)\<rparr>) s)
       \<lparr>st_pending_ranks := []\<rparr>"

section \<open>Players\<close>

text \<open>The ids of the puuids, the grown cache, the next id and the fresh assignments.\<close>

fun assign_ids :: "string list \<Rightarrow> (string, u32) table \<Rightarrow> u32 \<Rightarrow> u32 list \<times> (string, u32) table \<times> u32 \<times> (string \<times> u32) list" where
  "assign_ids [] players nxt = ([], players, nxt, [])"
| "assign_ids (p # ps) players nxt =
     (case RBT.lookup players p of
        Some pid \<Rightarrow> (case assign_ids ps players nxt of (ids, players', nxt', fresh) \<Rightarrow> (pid # ids, players', nxt', fresh))
      | None \<Rightarrow> (case assign_ids ps (RBT.insert p nxt players) (nxt + 1) of
                   (ids, players', nxt', fresh) \<Rightarrow> (nxt # ids, players', nxt', (p, nxt) # fresh)))"

definition assign_player_ids :: "string list \<Rightarrow> store \<Rightarrow> u32 list \<times> store" where
  "assign_player_ids puuids s =
     (case assign_ids puuids (st_players s) (st_next_player_id s) of
        (ids, players, nxt, fresh) \<Rightarrow>
          let s = s\<lparr>st_players := players, st_next_player_id := nxt\<rparr> in
          (ids, if fresh = [] then s
                else commit_fast (\<lambda>t. t\<lparr>t_players := insert_all fresh (t_players t)\<rparr>) s))"

definition is_seen :: "string \<Rightarrow> u64 \<Rightarrow> store \<Rightarrow> bool" where
  "is_seen plat gid s = (case RBT.lookup (st_seen s) plat of Some b \<Rightarrow> gid \<in> b | None \<Rightarrow> False)"

definition mark_seen :: "string \<Rightarrow> u64 \<Rightarrow> store \<Rightarrow> store" where
  "mark_seen plat gid s =
     s\<lparr>st_seen := RBT.insert plat
         (insert gid (case RBT.lookup (st_seen s) plat of Some b \<Rightarrow> b | None \<Rightarrow> {})) (st_seen s),
       st_dirty_bitmaps := True\<rparr>"

section \<open>Storing a match\<close>

definition fill_ids :: "participant list \<Rightarrow> u32 list \<Rightarrow> participant list" where
  "fill_ids parts pids = map (\<lambda>(part, pid). part\<lparr>player_id := pid\<rparr>) (zip parts pids) @ drop (length pids) parts"

text \<open>Counting one sighting of a player, or adopting it.\<close>

definition adopt_one :: "u64 \<Rightarrow> bool \<Rightarrow> u32 \<times> string \<Rightarrow> store \<times> (u32 \<times> string) list \<Rightarrow> store \<times> (u32 \<times> string) list" where
  "adopt_one ts growth_paused = (\<lambda>(pid, puuid) (s, adopted).
     if pid \<in> st_cohort s then (s, adopted)
     else
       let count = (case RBT.lookup (st_outsider_seen s) pid of Some n \<Rightarrow> n | None \<Rightarrow> 0) + 1 in
       if \<not> growth_paused \<and> count \<ge> ADOPTION_THRESHOLD then
         (commit_fast (\<lambda>t. t\<lparr>t_outsider := RBT.delete pid (t_outsider t),
                            t_cohort := RBT.insert pid (ts, COHORT_SRC_ADOPTED) (t_cohort t)\<rparr>)
            (s\<lparr>st_outsider_seen := RBT.delete pid (st_outsider_seen s), st_cohort := insert pid (st_cohort s)\<rparr>),
          adopted @ [(pid, puuid)])
       else
         (commit_fast (\<lambda>t. t\<lparr>t_outsider := RBT.insert pid count (t_outsider t)\<rparr>)
            (s\<lparr>st_outsider_seen := RBT.insert pid count (st_outsider_seen s)\<rparr>),
          adopted))"

definition pred_count :: "(u32 \<times> u64, u64 \<times> u8) table \<Rightarrow> u64 \<Rightarrow> u32 \<Rightarrow> u8" where
  "pred_count tl_table ts pid =
     of_nat (count_capped (unat HISTORY_REQUIRED) 0 (rev (range_until (pid, 0) (pid, ts) tl_table)))"

definition all_full :: "bytes \<Rightarrow> bool" where
  "all_full pr \<longleftrightarrow> list_all (\<lambda>c. c \<ge> HISTORY_REQUIRED) (take 10 pr)"

text \<open>The eleven progress bytes of a new match; a player in slot eleven or later indexes out of bounds.\<close>

fun fill_progress :: "(u32 \<times> u64, u64 \<times> u8) table \<Rightarrow> u64 \<Rightarrow> nat \<Rightarrow> u32 list \<Rightarrow> bytes \<Rightarrow> store_error + bytes" where
  "fill_progress tl_table ts i [] pr = Inr pr"
| "fill_progress tl_table ts i (pid # pids) pr =
     (if i < length pr then fill_progress tl_table ts (Suc i) pids (pr[i := pred_count tl_table ts pid])
      else Inl IndexPanic)"

fun timeline_rows :: "u64 \<Rightarrow> u64 \<Rightarrow> nat \<Rightarrow> u32 list \<Rightarrow> ((u32 \<times> u64) \<times> (u64 \<times> u8)) list" where
  "timeline_rows gid ts i [] = []"
| "timeline_rows gid ts i (pid # pids) = ((pid, ts), (gid, of_nat i)) # timeline_rows gid ts (Suc i) pids"

text \<open>The retroactive credit to one player's later games.\<close>

fun retro_games :: "string \<Rightarrow> ((u32 \<times> u64) \<times> (u64 \<times> u8)) list \<Rightarrow> (string \<times> u64, bytes) table \<times> u64 \<Rightarrow>
  store_error + (string \<times> u64, bytes) table \<times> u64" where
  "retro_games plat [] acc = Inr acc"
| "retro_games plat ((_, (gid2, pos2)) # later) (prog, newly_valid) =
     (case RBT.lookup prog (plat, gid2) of
        None \<Rightarrow> retro_games plat later (prog, newly_valid)
      | Some pr \<Rightarrow>
          if length pr \<noteq> 11 then retro_games plat later (prog, newly_valid)
          else if unat pos2 \<ge> 11 then Inl IndexPanic
          else if pr ! unat pos2 \<ge> HISTORY_REQUIRED then Inr (prog, newly_valid)
          else
            let pr = pr[unat pos2 := pr ! unat pos2 + 1];
                full = (pr ! 10 = 0 \<and> all_full pr);
                pr = (if full then pr[10 := 1] else pr)
            in retro_games plat later
                 (RBT.insert (plat, gid2) pr prog, if full then newly_valid + 1 else newly_valid))"

fun retro_players :: "string \<Rightarrow> u64 \<Rightarrow> (u32 \<times> u64, u64 \<times> u8) table \<Rightarrow> u32 list \<Rightarrow>
  (string \<times> u64, bytes) table \<times> u64 \<Rightarrow> store_error + (string \<times> u64, bytes) table \<times> u64" where
  "retro_players plat ts tl_table [] acc = Inr acc"
| "retro_players plat ts tl_table (pid # pids) acc =
     res_bind (retro_games plat (range_of (pid, ts + 1) (pid, - 1) tl_table) acc) (\<lambda>acc.
     retro_players plat ts tl_table pids acc)"

text \<open>The history part of the transaction: progress of this match, timeline rows, retroactive credit.\<close>

definition track_history ::
  "string \<Rightarrow> u64 \<Rightarrow> u64 \<Rightarrow> u32 list \<Rightarrow> (u32 \<times> u64, u64 \<times> u8) table \<Rightarrow> (string \<times> u64, bytes) table \<Rightarrow>
   store_error + (u32 \<times> u64, u64 \<times> u8) table \<times> (string \<times> u64, bytes) table \<times> u64" where
  "track_history plat gid ts pids tl_table prog =
     res_bind (fill_progress tl_table ts 0 pids (replicate 11 0)) (\<lambda>pr.
     let full = all_full pr;
         pr = (if full then pr[10 := 1] else pr);
         prog = RBT.insert (plat, gid) pr prog;
         tl_table = insert_all (timeline_rows gid ts 0 pids) tl_table
     in res_bind (retro_players plat ts tl_table pids (prog, if full then 1 else 0)) (\<lambda>(prog, newly_valid).
        Inr (tl_table, prog, newly_valid)))"

definition count_valid :: "string \<Rightarrow> u64 \<Rightarrow> store \<Rightarrow> store" where
  "count_valid plat newly_valid s =
     (if newly_valid > 0 then
        let total = (case RBT.lookup (st_valid_samples s) plat of Some v \<Rightarrow> v + newly_valid | None \<Rightarrow> newly_valid)
        in commit_fast (\<lambda>t. t\<lparr>t_meta := RBT.insert (valid_key plat) (to_le 8 total) (t_meta t)\<rparr>)
             (s\<lparr>st_valid_samples := RBT.insert plat total (st_valid_samples s)\<rparr>)
      else s)"

text \<open>The match transaction: ids, then either the remake marker, or sightings, history and the valid-sample count,
  or nothing when a progress record is already there.\<close>

definition match_txn ::
  "match_record \<Rightarrow> string list \<Rightarrow> u64 \<Rightarrow> bool \<Rightarrow> store \<Rightarrow> store_error + match_record \<times> (u32 \<times> string) list \<times> store" where
  "match_txn rec puuids ts growth_paused s =
     (let already_stored = RBT.lookup (t_progress (st_db s)) (platform rec, game_id rec) \<noteq> None;
          is_remake = duration_s rec < REMAKE_MAX_DURATION_S
      in case assign_player_ids puuids s of
           (pids, s) \<Rightarrow>
             let rec = rec\<lparr>participants := fill_ids (participants rec) pids\<rparr> in
             if is_remake \<and> \<not> already_stored then
               Inr (rec, [], commit_fast (\<lambda>t. t\<lparr>t_progress := RBT.insert (platform rec, game_id rec) [] (t_progress t)\<rparr>) s)
             else if \<not> already_stored then
               (case fold (adopt_one ts growth_paused) (zip pids puuids) (s, []) of
                  (s, adopted) \<Rightarrow>
                    res_bind (track_history (platform rec) (game_id rec) ts pids (t_player_tl (st_db s)) (t_progress (st_db s)))
                      (\<lambda>(tl_table, prog, newly_valid).
                    Inr (rec, adopted, count_valid (platform rec) newly_valid
                      (commit_fast (\<lambda>t. t\<lparr>t_player_tl := tl_table, t_progress := prog\<rparr>) s))))
             else Inr (rec, [], s))"

definition match_dir :: "string \<Rightarrow> store \<Rightarrow> string" where
  "match_dir plat s = st_data_dir s @ ''/matches/'' @ plat"

definition roll_writer :: "store_lib \<Rightarrow> string \<Rightarrow> u64 \<Rightarrow> string \<Rightarrow> store \<Rightarrow> store" where
  "roll_writer lib today now plat s =
     (case RBT.lookup (st_writers s) plat of
        Some w \<Rightarrow>
          if needs_roll today w then
            let s = durable_checkpoint now s in
            case roll_over (lib_seg lib) today (w, st_files s) of
              (w, fs) \<Rightarrow> s\<lparr>st_writers := RBT.insert plat w (st_writers s), st_files := fs\<rparr>
          else s
      | None \<Rightarrow> s)"

definition append_record :: "store_lib \<Rightarrow> string \<Rightarrow> match_record \<Rightarrow> store \<Rightarrow> store" where
  "append_record lib today rec s =
     (case (case RBT.lookup (st_writers s) (platform rec) of
              Some w \<Rightarrow> (w, st_files s)
            | None \<Rightarrow> sw_open today (match_dir (platform rec) s) (st_files s)) of
        (w, fs) \<Rightarrow> s\<lparr>st_writers := RBT.insert (platform rec) (sw_append (lib_seg lib) rec w) (st_writers s), st_files := fs\<rparr>)"

definition store_match ::
  "store_lib \<Rightarrow> string \<Rightarrow> u64 \<Rightarrow> match_record \<Rightarrow> string list \<Rightarrow> u64 \<Rightarrow> bool \<Rightarrow> store \<Rightarrow>
   store_error + match_record \<times> (u32 \<times> string) list \<times> store" where
  "store_match lib today now rec puuids ts growth_paused s =
     res_bind (match_txn rec puuids ts growth_paused s) (\<lambda>(rec, adopted, s).
     let s = roll_writer lib today now (platform rec) s;
         s = append_record lib today rec s;
         s = mark_seen (platform rec) (game_id rec) s
     in Inr (rec, adopted, s))"

section \<open>Snapshots, cohort, nodes, meta\<close>

definition add_rank_snapshot :: "u32 \<Rightarrow> u64 \<Rightarrow> rank_snap \<Rightarrow> store \<Rightarrow> store" where
  "add_rank_snapshot pid ts snap s = s\<lparr>st_pending_ranks := st_pending_ranks s @ [(pid, ts, snap)]\<rparr>"

definition is_cohort :: "u32 \<Rightarrow> store \<Rightarrow> bool" where
  "is_cohort pid s \<longleftrightarrow> pid \<in> st_cohort s"

definition cohort_add_batch :: "u32 list \<Rightarrow> u8 \<Rightarrow> u64 \<Rightarrow> store \<Rightarrow> u32 list \<times> store" where
  "cohort_add_batch pids source now s =
     (let new = filter (\<lambda>pid. pid \<notin> st_cohort s) pids in
      if new = [] then (new, s)
      else
        let s = commit_fast (\<lambda>t. t\<lparr>t_cohort := insert_all (map (\<lambda>pid. (pid, (now, source))) new) (t_cohort t),
                                  t_outsider := fold RBT.delete new (t_outsider t)\<rparr>) s
        in (new, s\<lparr>st_cohort := st_cohort s \<union> set new, st_outsider_seen := fold RBT.delete new (st_outsider_seen s)\<rparr>))"

definition valid_sample_totals :: "store \<Rightarrow> (string \<times> u64) list" where
  "valid_sample_totals s = RBT.entries (st_valid_samples s)"

definition meta_get_u32 :: "string \<Rightarrow> store \<Rightarrow> u32 option" where
  "meta_get_u32 key s =
     map_option (\<lambda>bs. if length bs = 4 then from_le bs else 0) (RBT.lookup (t_meta (st_db s)) key)"

definition meta_set_u32 :: "string \<Rightarrow> u32 \<Rightarrow> store \<Rightarrow> store" where
  "meta_set_u32 key val s = commit_fast (\<lambda>t. t\<lparr>t_meta := RBT.insert key (to_le 4 val) (t_meta t)\<rparr>) s"

definition nodes_all :: "store \<Rightarrow> (u32 \<times> node_rec) list" where
  "nodes_all s = RBT.entries (t_nodes (st_db s))"

definition node_add :: "string \<Rightarrow> string \<Rightarrow> u64 \<Rightarrow> store \<Rightarrow> u32 \<times> store" where
  "node_add name token_sha256_hex now s =
     (let nid = (case meta_get_u32 ''next_node_id'' s of Some n \<Rightarrow> n | None \<Rightarrow> 1);
          rec = \<lparr>nd_name = name, nd_token_sha256_hex = token_sha256_hex, nd_created_ms = now\<rparr>
      in (nid, commit_durable (\<lambda>t. t\<lparr>t_nodes := RBT.insert nid rec (t_nodes t),
                t_meta := RBT.insert ''next_node_id'' (to_le 4 (nid + 1)) (t_meta t)\<rparr>) s))"

definition node_stats_all :: "store \<Rightarrow> (u32 \<times> u64 \<times> bucket) list" where
  "node_stats_all s = map (\<lambda>((node, hour), b). (node, hour, b)) (RBT.entries (t_node_stats (st_db s)))"

definition node_stats_upsert :: "(u32 \<times> u64 \<times> bucket) list \<Rightarrow> store \<Rightarrow> store" where
  "node_stats_upsert rows s =
     (if rows = [] then s
      else commit_fast (\<lambda>t. t\<lparr>t_node_stats := insert_all (map (\<lambda>(node, hour, b). ((node, hour), b)) rows) (t_node_stats t)\<rparr>) s)"

section \<open>Frontier operations of the store\<close>

definition store_frontier :: "(frontier \<Rightarrow> 'a \<times> frontier) \<Rightarrow> store \<Rightarrow> 'a \<times> store" where
  "store_frontier f s = (case f (t_front (st_db s)) of (r, fr) \<Rightarrow> (r, commit_fast (\<lambda>t. t\<lparr>t_front := fr\<rparr>) s))"

definition puuid_of :: "store \<Rightarrow> u32 \<Rightarrow> string option" where
  "puuid_of s pid = map_option fst (find (\<lambda>(p, i). i = pid) (RBT.entries (st_players s)))"

text \<open>The region a stranded cohort member is put back to, with its task, if any.\<close>

definition stranded_task :: "store \<Rightarrow> u32 \<Rightarrow> (string \<times> u32 \<times> frontier_task) option" where
  "stranded_task s pid =
     (case puuid_of s pid of
        None \<Rightarrow> None
      | Some puuid \<Rightarrow>
          (case rev (range_of (pid, 0) (pid, - 1) (t_player_tl (st_db s))) of
             [] \<Rightarrow> None
           | (_, (gid, _)) # _ \<Rightarrow>
               (case find (\<lambda>p. RBT.lookup (t_progress (st_db s)) (p, gid) \<noteq> None) (map rg_platform enabled_regions) of
                  None \<Rightarrow> None
                | Some plat \<Rightarrow> Some (plat, pid, \<lparr>ft_puuid = puuid, last_visit_ms = 0\<rparr>))))"

definition frontier_reconcile :: "u64 \<Rightarrow> store \<Rightarrow> nat \<times> store" where
  "frontier_reconcile now s =
     (let stranded = filter (\<lambda>pid. RBT.lookup (t_frontier_idx (t_front (st_db s))) pid = None) (RBT.keys (t_cohort (st_db s)));
          tasks = List.map_filter (stranded_task s) stranded;
          batch = (\<lambda>p. map snd (filter (\<lambda>(p', _). p' = p) tasks))
      in fold (\<lambda>p (n, s). (n + length (batch p),
                 snd (store_frontier (\<lambda>f. ((), frontier_push_batch p BUCKET_PRIORITY now (batch p) f)) s)))
           (map rg_platform enabled_regions) (0, s))"

section \<open>Commit\<close>

definition flush_writers :: "store_lib \<Rightarrow> store \<Rightarrow> store" where
  "flush_writers lib s =
     fold (\<lambda>(plat, w) s. case sw_flush (lib_seg lib) (w, st_files s) of
             (w, fs) \<Rightarrow> s\<lparr>st_writers := RBT.insert plat w (st_writers s), st_files := fs\<rparr>)
       (RBT.entries (st_writers s)) s"

definition commit_bitmaps :: "store_lib \<Rightarrow> store \<Rightarrow> store" where
  "commit_bitmaps lib s =
     (commit_durable (\<lambda>t. t\<lparr>t_meta := insert_all (map (\<lambda>(plat, bm). (bitmap_key plat, bitmap_ser lib bm))
         (RBT.entries (st_seen s))) (t_meta t)\<rparr>) s)\<lparr>st_dirty_bitmaps := False\<rparr>"

definition commit_store :: "store_lib \<Rightarrow> u64 \<Rightarrow> store \<Rightarrow> store" where
  "commit_store lib now s =
     (let s = durable_checkpoint now s;
          s = flush_writers lib s
      in if \<not> st_dirty_bitmaps s then s else commit_bitmaps lib s)"

definition should_commit :: "store \<Rightarrow> bool" where
  "should_commit s \<longleftrightarrow>
     list_ex (\<lambda>(_, w). should_flush w) (RBT.entries (st_writers s)) \<or> length (st_pending_ranks s) > 5000"

section \<open>Statistics\<close>

record store_stats =
  ss_players :: nat
  ss_rank_snapshots :: nat
  ss_player_timeline_entries :: nat
  ss_frontier :: "(string \<times> u8 \<times> nat) list"
  ss_seen :: "(string \<times> nat) list"
  ss_cohort :: nat
  ss_outsiders_tracked :: nat
  ss_valid_samples :: "(string \<times> u64) list"
  ss_readiness_histogram :: "nat list"

definition frontier_counts :: "frontier \<Rightarrow> (string \<times> u8 \<times> nat) list" where
  "frontier_counts f =
     map (\<lambda>((p, b), n). (p, b, n)) (RBT.entries (fold (\<lambda>((p, b, _, _), _) counts.
       RBT.insert (p, b) (Suc (case RBT.lookup counts (p, b) of Some n \<Rightarrow> n | None \<Rightarrow> 0)) counts)
       (RBT.entries (t_frontier f)) RBT.empty))"

definition readiness_histogram :: "(string \<times> u64, bytes) table \<Rightarrow> nat list" where
  "readiness_histogram prog =
     fold (\<lambda>(_, pr) h. if length pr = 11
              then let ready = length (filter (\<lambda>c. c \<ge> HISTORY_REQUIRED) (take 10 pr)) in h[ready := h ! ready + 1]
              else h)
       (RBT.entries prog) (replicate 11 0)"

definition debug_stats :: "store \<Rightarrow> store_stats" where
  "debug_stats s =
     \<lparr>ss_players = length (RBT.entries (st_players s)),
      ss_rank_snapshots = length (RBT.entries (t_ranks (st_db s))),
      ss_player_timeline_entries = length (RBT.entries (t_player_tl (st_db s))),
      ss_frontier = frontier_counts (t_front (st_db s)),
      ss_seen = map (\<lambda>(p, b). (p, card b)) (RBT.entries (st_seen s)),
      ss_cohort = card (st_cohort s),
      ss_outsiders_tracked = length (RBT.entries (st_outsider_seen s)),
      ss_valid_samples = valid_sample_totals s,
      ss_readiness_histogram = readiness_histogram (t_progress (st_db s))\<rparr>"

end
