(* ===== verification/Store_History.thy ===== *)
theory Store_History
  imports Store
begin

text \<open>
  The sample-progress tracker: the eleven bytes kept per match are exact.  The slot of a
  participant holds the number of stored earlier games of that player, capped at the required history, and the
  eleventh byte is set exactly when ten slots are full, whatever the order in which matches arrive.
\<close>

type_synonym timeline_table = "(u32 \<times> u64, u64 \<times> u8) table"
type_synonym progress_table = "(string \<times> u64, bytes) table"

section \<open>Counting predecessors\<close>

definition earlier :: "timeline_table \<Rightarrow> u32 \<Rightarrow> u64 \<Rightarrow> u64 set" where
  "earlier tlt pid ts = {t. t < ts \<and> RBT.lookup tlt (pid, t) \<noteq> None}"

definition games_before :: "timeline_table \<Rightarrow> u32 \<Rightarrow> u64 \<Rightarrow> nat" where
  "games_before tlt pid ts = card (earlier tlt pid ts)"

lemma earlier_finite [simp]: "finite (earlier tlt pid ts)"
  by (rule finite_subset[of _ UNIV]) auto

lemma games_before_mono: "t \<le> t' \<Longrightarrow> games_before tlt pid t \<le> games_before tlt pid t'"
  unfolding games_before_def by (rule card_mono) (auto simp: earlier_def)

lemma length_range_until:
  "length (range_until (pid, 0) (pid, ts) tlt) = games_before tlt pid ts"
proof -
  let ?xs = "range_until (pid, 0) (pid, ts) tlt"
  have "set (map fst ?xs) = Pair pid ` earlier tlt pid ts"
  proof (intro equalityI subsetI)
    fix k assume "k \<in> set (map fst ?xs)"
    then obtain q t v where "k = (q, t)" "((q, t), v) \<in> set ?xs" by auto
    then show "k \<in> Pair pid ` earlier tlt pid ts"
      by (auto simp: mem_range_until earlier_def less_eq_prod_def less_prod_def)
  next
    fix k assume "k \<in> Pair pid ` earlier tlt pid ts"
    then obtain t v where "k = (pid, t)" "RBT.lookup tlt (pid, t) = Some v" "t < ts" by (auto simp: earlier_def)
    then have "(k, v) \<in> set ?xs" by (simp add: mem_range_until)
    then show "k \<in> set (map fst ?xs)" by force
  qed
  then have "card (set (map fst ?xs)) = games_before tlt pid ts"
    by (simp add: card_image inj_on_def games_before_def)
  then show ?thesis using distinct_card[OF range_until_sorted(2)[of "(pid, 0)" "(pid, ts)" tlt]] by simp
qed

lemma pred_count_exact: "unat (pred_count tlt ts pid) = min 20 (games_before tlt pid ts)"
proof -
  have "count_capped 20 0 xs = min 20 (length xs)" for xs :: "((u32 \<times> u64) \<times> (u64 \<times> u8)) list"
    by (cases "xs = []") (auto simp: count_capped_eq)
  then show ?thesis
    by (simp add: pred_count_def HISTORY_REQUIRED_def length_range_until unat_of_nat)
qed

lemma fill_progress_eq:
  "fill_progress tlt ts i pids pr =
     (if pids = [] \<or> i + length pids \<le> length pr then Inr (take i pr @ map (pred_count tlt ts) pids @ drop (i + length pids) pr)
      else Inl IndexPanic)"
proof (induction pids arbitrary: i pr)
  case (Cons pid pids)
  show ?case
  proof (cases "i < length pr")
    case True
    then have "take (Suc i) (pr[i := pred_count tlt ts pid]) = take i pr @ [pred_count tlt ts pid]"
      by (simp add: take_Suc_conv_app_nth)
    moreover have "drop (Suc (i + length pids)) (pr[i := pred_count tlt ts pid]) = drop (Suc (i + length pids)) pr"
      by simp
    ultimately show ?thesis using True Cons.IH[of "Suc i" "pr[i := pred_count tlt ts pid]"] by auto
  qed auto
qed simp

lemma insert_all_simps [simp]:
  "insert_all [] t = t"
  "insert_all ((k, v) # kvs) t = insert_all kvs (RBT.insert k v t)"
  by (simp_all add: insert_all_def)

lemma rows_other: "t \<noteq> ts \<or> q \<notin> set pids \<Longrightarrow>
  RBT.lookup (insert_all (timeline_rows gid ts i pids) tlt) (q, t) = RBT.lookup tlt (q, t)"
  by (induction pids arbitrary: i tlt) auto

lemma rows_own: "distinct pids \<Longrightarrow> n < length pids \<Longrightarrow>
  RBT.lookup (insert_all (timeline_rows gid ts i pids) tlt) (pids ! n, ts) = Some (gid, of_nat (i + n))"
proof (induction pids arbitrary: i n tlt)
  case (Cons pid pids)
  then show ?case by (cases n) (auto simp: rows_other)
qed simp

section \<open>Crediting a later game\<close>

definition bump :: "nat \<Rightarrow> bytes \<Rightarrow> bytes" where
  "bump pos pr =
     (if pr ! pos \<ge> HISTORY_REQUIRED then pr
      else let pr = pr[pos := pr ! pos + 1] in if pr ! 10 = 0 \<and> all_full pr then pr[10 := 1] else pr)"

definition flag_ok :: "bytes \<Rightarrow> bool" where
  "flag_ok pr \<longleftrightarrow> length pr = 11 \<and> pr ! 10 = (if all_full pr then 1 else 0)"

lemma all_full_nth: "length pr = 11 \<Longrightarrow> all_full pr \<longleftrightarrow> (\<forall>i < 10. HISTORY_REQUIRED \<le> pr ! i)"
  by (auto simp: all_full_def list_all_length)

lemma all_full_flag [simp]: "all_full (pr[10 := c]) = all_full pr"
  by (simp add: all_full_def)

lemma length_bump [simp]: "length (bump pos pr) = length pr"
  by (simp add: bump_def Let_def)

lemma bump_other: "pos < 10 \<Longrightarrow> i < 10 \<Longrightarrow> i \<noteq> pos \<Longrightarrow> bump pos pr ! i = pr ! i"
  by (simp add: bump_def Let_def)

lemma bump_own:
  assumes "length pr = 11" "pos < 10" "unat (pr ! pos) = min 20 n"
  shows "unat (bump pos pr ! pos) = min 20 (Suc n)"
proof (cases "pr ! pos \<ge> HISTORY_REQUIRED")
  case True
  then have "20 \<le> unat (pr ! pos)" by (simp add: HISTORY_REQUIRED_def word_le_nat_alt)
  with True assms(3) show ?thesis by (simp add: bump_def)
next
  case False
  then have "unat (pr ! pos) < 20" by (simp add: HISTORY_REQUIRED_def word_less_nat_alt not_le)
  then have "unat (pr ! pos + 1) = Suc (unat (pr ! pos))" by (subst unat_word_ariths) simp
  with False assms \<open>unat (pr ! pos) < 20\<close> show ?thesis by (simp add: bump_def Let_def)
qed

lemma bump_flag_ok:
  assumes "flag_ok pr" "pos < 10"
  shows "flag_ok (bump pos pr)"
proof (cases "pr ! pos \<ge> HISTORY_REQUIRED")
  case False
  then have "\<not> all_full pr" using assms by (auto simp: flag_ok_def all_full_nth)
  with assms False show ?thesis by (auto simp: flag_ok_def bump_def Let_def)
qed (simp add: bump_def assms)

text \<open>The number of matches of a platform whose valid flag is set.\<close>

definition flagged :: "(string \<times> u64 \<Rightarrow> bytes option) \<Rightarrow> string \<Rightarrow> u64 set" where
  "flagged m p = {g. \<exists>pr. m (p, g) = Some pr \<and> length pr = 11 \<and> pr ! 10 = 1}"

lemma flagged_finite [simp]: "finite (flagged m p)"
  by (rule finite_subset[of _ UNIV]) auto

lemma flagged_upd:
  assumes "length pr' = 11"
  shows "flagged (m((p, g) \<mapsto> pr')) q =
    (if q = p then (if pr' ! 10 = 1 then insert g (flagged m p) else flagged m p - {g}) else flagged m q)"
  using assms by (auto simp: flagged_def)

text \<open>What the loop over one player's later games does to the table.\<close>

definition credit :: "string \<Rightarrow> ((u32 \<times> u64) \<times> (u64 \<times> u8)) list \<Rightarrow> (string \<times> u64 \<Rightarrow> bytes option) \<Rightarrow> string \<times> u64 \<Rightarrow> bytes option" where
  "credit p es m = fold (\<lambda>(_, (g, pos)) m. m((p, g) := map_option (bump (unat pos)) (m (p, g)))) es m"

definition creditable :: "string \<Rightarrow> (string \<times> u64 \<Rightarrow> bytes option) \<Rightarrow> (u32 \<times> u64) \<times> (u64 \<times> u8) \<Rightarrow> bool" where
  "creditable p m e \<longleftrightarrow> (case e of (_, (g, pos)) \<Rightarrow> unat pos < 10 \<and> (\<exists>pr. m (p, g) = Some pr \<and> flag_ok pr))"

definition slot_value :: "string \<Rightarrow> (string \<times> u64 \<Rightarrow> bytes option) \<Rightarrow> (u32 \<times> u64) \<times> (u64 \<times> u8) \<Rightarrow> u8" where
  "slot_value p m e = (case e of (_, (g, pos)) \<Rightarrow> the (m (p, g)) ! unat pos)"

lemma credit_full:
  assumes "\<forall>e \<in> set es. creditable p m e \<and> HISTORY_REQUIRED \<le> slot_value p m e"
  shows "credit p es m = m"
  using assms
proof (induction es)
  case (Cons e es)
  obtain k g pos where e: "e = (k, (g, pos))" by (metis prod.collapse)
  from Cons.prems obtain pr where "m (p, g) = Some pr" "HISTORY_REQUIRED \<le> pr ! unat pos"
    by (auto simp: e creditable_def slot_value_def)
  then have "m((p, g) := map_option (bump (unat pos)) (m (p, g))) = m" by (auto simp: bump_def fun_eq_iff)
  with Cons show ?case by (simp add: credit_def e)
qed (simp add: credit_def)

lemma retro_games_credit:
  assumes "distinct (map (\<lambda>e. fst (snd e)) es)" "\<forall>e \<in> set es. creditable p (RBT.lookup prog) e"
    and "sorted (map (slot_value p (RBT.lookup prog)) es)"
  shows "\<exists>prog' nv'. retro_games p es (prog, nv) = Inr (prog', nv')
    \<and> RBT.lookup prog' = credit p es (RBT.lookup prog)
    \<and> nv' + of_nat (card (flagged (RBT.lookup prog) p)) = nv + of_nat (card (flagged (RBT.lookup prog') p))"
  using assms
proof (induction es arbitrary: prog nv)
  case (Cons e es)
  obtain k g pos where e: "e = (k, (g, pos))" by (metis prod.collapse)
  let ?m = "RBT.lookup prog"
  obtain pr where pr: "?m (p, g) = Some pr" "flag_ok pr" and pos: "unat pos < 10"
    using Cons.prems(2) by (auto simp: e creditable_def)
  have len: "length pr = 11" using pr(2) by (simp add: flag_ok_def)
  show ?case
  proof (cases "pr ! unat pos \<ge> HISTORY_REQUIRED")
    case True
    have "\<forall>x \<in> set (e # es). creditable p ?m x \<and> HISTORY_REQUIRED \<le> slot_value p ?m x"
      using Cons.prems(2,3) True pr(1) by (fastforce simp: e slot_value_def)
    from credit_full[OF this] show ?thesis using True pr len pos by (simp add: e)
  next
    case False
    let ?pr = "bump (unat pos) pr"
    let ?prog = "RBT.insert (p, g) ?pr prog"
    let ?nv = "if ?pr ! 10 = 1 then nv + 1 else nv"
    have nf: "\<not> all_full pr" using False pos len by (auto simp: all_full_nth)
    then have f0: "pr ! 10 = 0" using pr(2) by (simp add: flag_ok_def)
    have step: "retro_games p (e # es) (prog, nv) = retro_games p es (?prog, ?nv)"
      using False pr(1) len pos f0 by (simp add: e bump_def Let_def)
    have keep: "creditable p (RBT.lookup ?prog) x" "slot_value p (RBT.lookup ?prog) x = slot_value p ?m x"
      if x: "x \<in> set es" for x
    proof -
      have "fst (snd x) \<noteq> g" using x Cons.prems(1) by (auto simp: e)
      then show "creditable p (RBT.lookup ?prog) x" "slot_value p (RBT.lookup ?prog) x = slot_value p ?m x"
        using x Cons.prems(2) by (auto simp: creditable_def slot_value_def split: prod.splits)
    qed
    have srt: "map (slot_value p (RBT.lookup ?prog)) es = map (slot_value p ?m) es" using keep(2) by (rule map_cong[OF refl])
    have "\<exists>prog' nv'. retro_games p es (?prog, ?nv) = Inr (prog', nv')
      \<and> RBT.lookup prog' = credit p es (RBT.lookup ?prog)
      \<and> nv' + of_nat (card (flagged (RBT.lookup ?prog) p)) = ?nv + of_nat (card (flagged (RBT.lookup prog') p))"
    proof (rule Cons.IH)
      show "sorted (map (slot_value p (RBT.lookup ?prog)) es)" unfolding srt using Cons.prems(3) by simp
      show "\<forall>x \<in> set es. creditable p (RBT.lookup ?prog) x" using keep(1) by blast
    qed (use Cons.prems(1) in simp)
    then obtain prog' nv' where r: "retro_games p es (?prog, ?nv) = Inr (prog', nv')"
      "RBT.lookup prog' = credit p es (RBT.lookup ?prog)"
      "nv' + of_nat (card (flagged (RBT.lookup ?prog) p)) = ?nv + of_nat (card (flagged (RBT.lookup prog') p))"
      by blast
    have "g \<notin> flagged ?m p" using pr(1) f0 by (simp add: flagged_def)
    then have "card (flagged (RBT.lookup ?prog) p) = card (flagged ?m p) + (if ?pr ! 10 = 1 then 1 else 0)"
      using len flagged_upd[of ?pr ?m p g p] by simp
    with r(3) have "nv' + of_nat (card (flagged ?m p)) = nv + of_nat (card (flagged (RBT.lookup prog') p))"
      by (auto simp: algebra_simps split: if_splits)
    moreover have "credit p (e # es) ?m = credit p es (RBT.lookup ?prog)"
      using pr(1) by (simp add: credit_def e)
    ultimately show ?thesis using step r(1,2) by simp
  qed
qed (simp add: credit_def)


lemma credit_outside: "(q, g) \<notin> (\<lambda>e. (p, fst (snd e))) ` set es \<Longrightarrow> credit p es m (q, g) = m (q, g)"
  by (induction es arbitrary: m) (auto simp: credit_def split: prod.splits)

lemma credit_inside:
  "distinct (map (\<lambda>e. fst (snd e)) es) \<Longrightarrow> (k, (g, pos)) \<in> set es \<Longrightarrow>
   credit p es m (p, g) = map_option (bump (unat pos)) (m (p, g))"
proof (induction es arbitrary: m)
  case (Cons e es)
  obtain k' g' pos' where e: "e = (k', (g', pos'))" by (metis prod.collapse)
  show ?case
  proof (cases "g' = g")
    case True
    then have out: "(p, g) \<notin> (\<lambda>e. (p, fst (snd e))) ` set es" using Cons.prems(1) e by auto
    then have "pos' = pos" using Cons.prems(2) True e by force
    then show ?thesis using credit_outside[OF out] True by (simp add: credit_def e)
  next
    case False
    then show ?thesis using Cons by (auto simp: credit_def e)
  qed
qed simp

section \<open>The invariant\<close>

text \<open>\<open>home\<close> is the platform a player's games are stored under; \<open>cnt\<close> the number of earlier games
  each slot should show.\<close>

definition slots_ok :: "(u32 \<Rightarrow> string) \<Rightarrow> (u32 \<Rightarrow> u64 \<Rightarrow> nat) \<Rightarrow> timeline_table \<Rightarrow> (string \<times> u64 \<Rightarrow> bytes option) \<Rightarrow> bool" where
  "slots_ok home cnt tlt m \<longleftrightarrow>
     (\<forall>pid ts g pos. RBT.lookup tlt (pid, ts) = Some (g, pos) \<longrightarrow>
        unat pos < 10 \<and> (\<exists>pr. m (home pid, g) = Some pr \<and> length pr = 11 \<and> unat (pr ! unat pos) = min 20 (cnt pid ts)))"

definition rows_ok :: "(u32 \<Rightarrow> string) \<Rightarrow> timeline_table \<Rightarrow> bool" where
  "rows_ok home tlt \<longleftrightarrow>
     (\<forall>pid ts pid' ts' g pos pos'. RBT.lookup tlt (pid, ts) = Some (g, pos) \<longrightarrow>
        RBT.lookup tlt (pid', ts') = Some (g, pos') \<longrightarrow> home pid = home pid' \<longrightarrow>
        ts = ts' \<and> (pos = pos' \<longrightarrow> pid = pid'))"

definition flags_ok :: "(string \<times> u64 \<Rightarrow> bytes option) \<Rightarrow> bool" where
  "flags_ok m \<longleftrightarrow> (\<forall>k pr. m k = Some pr \<longrightarrow> length pr = 11 \<longrightarrow> flag_ok pr)"

definition history_ok :: "(u32 \<Rightarrow> string) \<Rightarrow> timeline_table \<Rightarrow> progress_table \<Rightarrow> bool" where
  "history_ok home tlt prog \<longleftrightarrow>
     slots_ok home (games_before tlt) tlt (RBT.lookup prog) \<and> rows_ok home tlt \<and> flags_ok (RBT.lookup prog)"

lemma slots_okD:
  "slots_ok home cnt tlt m \<Longrightarrow> RBT.lookup tlt (pid, ts) = Some (g, pos) \<Longrightarrow>
   unat pos < 10 \<and> (\<exists>pr. m (home pid, g) = Some pr \<and> length pr = 11 \<and> unat (pr ! unat pos) = min 20 (cnt pid ts))"
  unfolding slots_ok_def by blast

lemma rows_okD:
  "rows_ok home tlt \<Longrightarrow> RBT.lookup tlt (pid, ts) = Some (g, pos) \<Longrightarrow> RBT.lookup tlt (pid', ts') = Some (g, pos') \<Longrightarrow>
   home pid = home pid' \<Longrightarrow> ts = ts' \<and> (pos = pos' \<longrightarrow> pid = pid')"
  unfolding rows_ok_def by blast

abbreviation later_games :: "timeline_table \<Rightarrow> u32 \<Rightarrow> u64 \<Rightarrow> ((u32 \<times> u64) \<times> (u64 \<times> u8)) list" where
  "later_games tlt pid ts \<equiv> range_of (pid, ts + 1) (pid, - 1) tlt"

lemma word_Suc_le: "(ts :: u64) \<noteq> - 1 \<Longrightarrow> ts + 1 \<le> t \<longleftrightarrow> ts < t"
proof -
  assume "ts \<noteq> - 1"
  then have "1 + ts \<noteq> 0" by (metis add.commute eq_neg_iff_add_eq_0)
  then have "unat (ts + 1) = Suc (unat ts)" by (simp add: unatSuc add.commute)
  then show ?thesis by (simp add: word_le_nat_alt word_less_nat_alt Suc_le_eq)
qed

lemma mem_later:
  assumes "ts \<noteq> - 1"
  shows "((q, t), v) \<in> set (later_games tlt pid ts) \<longleftrightarrow> q = pid \<and> ts < t \<and> RBT.lookup tlt (pid, t) = Some v"
  using word_Suc_le[OF assms, of t] by (auto simp: mem_range_of less_eq_prod_def less_prod_def)


lemma later_sorted_times: "sorted (map (\<lambda>e. snd (fst e)) (later_games tlt pid ts))"
proof -
  have "sorted_wrt (\<lambda>e e'. fst e \<le> fst e') (later_games tlt pid ts)"
    using range_of_sorted(1)[of "(pid, ts + 1)" "(pid, - 1)" tlt] by (simp add: sorted_map)
  then have "sorted_wrt (\<lambda>e e'. snd (fst e) \<le> snd (fst e')) (later_games tlt pid ts)"
  proof (rule sorted_wrt_mono_rel[rotated])
    fix e e' assume m: "e \<in> set (later_games tlt pid ts)" "e' \<in> set (later_games tlt pid ts)" "fst e \<le> fst e'"
    obtain q t v where e: "e = ((q, t), v)" by (metis prod.collapse)
    obtain q' t' v' where e': "e' = ((q', t'), v')" by (metis prod.collapse)
    show "snd (fst e) \<le> snd (fst e')"
      using m unfolding e e' mem_range_of by (auto simp: less_eq_prod_def less_prod_def)
  qed
  then show ?thesis by (simp add: sorted_map)
qed

text \<open>The situation in which the pass over one player's later games starts.\<close>

definition retro_ready ::
  "(u32 \<Rightarrow> string) \<Rightarrow> (u32 \<Rightarrow> u64 \<Rightarrow> nat) \<Rightarrow> timeline_table \<Rightarrow> (string \<times> u64 \<Rightarrow> bytes option) \<Rightarrow> u32 \<Rightarrow> u64 \<Rightarrow> bool" where
  "retro_ready home cnt tlt m pid ts \<longleftrightarrow>
     slots_ok home cnt tlt m \<and> rows_ok home tlt \<and> flags_ok m \<and> (\<forall>t t'. t \<le> t' \<longrightarrow> cnt pid t \<le> cnt pid t') \<and> ts \<noteq> - 1"

lemma retro_readyD:
  assumes "retro_ready home cnt tlt m pid ts"
  shows "slots_ok home cnt tlt m" "rows_ok home tlt" "flags_ok m" "t \<le> t' \<Longrightarrow> cnt pid t \<le> cnt pid t'" "ts \<noteq> - 1"
  using assms by (auto simp: retro_ready_def)

lemma later_entry:
  assumes "retro_ready home cnt tlt m pid ts"
  shows "(k, (g, pos)) \<in> set (later_games tlt pid ts) \<longleftrightarrow> fst k = pid \<and> ts < snd k \<and> RBT.lookup tlt (pid, snd k) = Some (g, pos)"
  using mem_later[OF retro_readyD(5)[OF assms], of "fst k" "snd k" "(g, pos)" pid tlt] by simp

lemma later_value:
  assumes r: "retro_ready home cnt tlt m pid ts" and k: "(k, (g, pos)) \<in> set (later_games tlt pid ts)"
  shows "unat pos < 10 \<and> (\<exists>pr. m (home pid, g) = Some pr \<and> flag_ok pr \<and> unat (pr ! unat pos) = min 20 (cnt pid (snd k)))"
  using k slots_okD[OF retro_readyD(1)[OF r], of pid "snd k" g pos] retro_readyD(3)[OF r]
  unfolding later_entry[OF r] flags_ok_def by blast

lemma later_distinct:
  assumes r: "retro_ready home cnt tlt m pid ts"
  shows "distinct (map (\<lambda>e. fst (snd e)) (later_games tlt pid ts))"
proof -
  let ?es = "later_games tlt pid ts"
  have "inj_on (\<lambda>e. fst (snd e)) (set ?es)"
  proof (rule inj_onI)
    fix x y assume xy: "x \<in> set ?es" "y \<in> set ?es" "fst (snd x) = fst (snd y)"
    obtain k g pos where x: "x = (k, (g, pos))" by (metis prod.collapse)
    obtain k' g' pos' where y: "y = (k', (g', pos'))" by (metis prod.collapse)
    have "RBT.lookup tlt (pid, snd k) = Some (g, pos)" "RBT.lookup tlt (pid, snd k') = Some (g, pos')" "fst k = pid" "fst k' = pid"
      using xy later_entry[OF r] by (auto simp: x y)
    with rows_okD[OF retro_readyD(2)[OF r] this(1,2)] xy(3) show "x = y" by (auto simp: x y prod_eq_iff)
  qed
  moreover have "distinct ?es" using range_of_sorted(2) by (rule distinct_of_map)
  ultimately show ?thesis by (simp add: distinct_map)
qed

lemma later_values_sorted:
  assumes r: "retro_ready home cnt tlt m pid ts"
  shows "sorted (map (slot_value (home pid) m) (later_games tlt pid ts))"
proof -
  have "sorted_wrt (\<lambda>e e'. slot_value (home pid) m e \<le> slot_value (home pid) m e') (later_games tlt pid ts)"
  proof (rule sorted_wrt_mono_rel[of _ "\<lambda>e e'. snd (fst e) \<le> snd (fst e')"])
    fix e e' assume m: "e \<in> set (later_games tlt pid ts)" "e' \<in> set (later_games tlt pid ts)" "snd (fst e) \<le> snd (fst e')"
    obtain k g pos where e: "e = (k, (g, pos))" by (metis prod.collapse)
    obtain k' g' pos' where e': "e' = (k', (g', pos'))" by (metis prod.collapse)
    have "unat (slot_value (home pid) m e) = min 20 (cnt pid (snd k))" "unat (slot_value (home pid) m e') = min 20 (cnt pid (snd k'))"
      using later_value[OF r, of k g pos] later_value[OF r, of k' g' pos'] m by (auto simp: e e' slot_value_def)
    moreover have "cnt pid (snd k) \<le> cnt pid (snd k')" using retro_readyD(4)[OF r] m(3) by (simp add: e e')
    ultimately show "slot_value (home pid) m e \<le> slot_value (home pid) m e'" by (simp add: word_le_nat_alt)
  qed (use later_sorted_times[of pid ts tlt] in \<open>simp add: sorted_map\<close>)
  then show ?thesis by (simp add: sorted_map)
qed

text \<open>Each progress record is bumped in the player's slot, or left alone.\<close>

lemma credit_cases:
  assumes r: "retro_ready home cnt tlt m pid ts"
  obtains (hit) k pos where "(k, (snd key, pos)) \<in> set (later_games tlt pid ts)" "fst key = home pid" "unat pos < 10"
      "credit (home pid) (later_games tlt pid ts) m key = map_option (bump (unat pos)) (m key)"
  | (miss) "credit (home pid) (later_games tlt pid ts) m key = m key"
      "\<And>k pos. fst key = home pid \<Longrightarrow> (k, (snd key, pos)) \<notin> set (later_games tlt pid ts)"
proof (cases "key \<in> (\<lambda>e. (home pid, fst (snd e))) ` set (later_games tlt pid ts)")
  case True
  then obtain k g pos where k: "(k, (g, pos)) \<in> set (later_games tlt pid ts)" and key: "key = (home pid, g)" by force
  then show ?thesis using hit[of k pos] later_value[OF r k] credit_inside[OF later_distinct[OF r] k] by simp
next
  case False
  have "(k, (snd key, pos)) \<notin> set (later_games tlt pid ts)" if "fst key = home pid" for k pos
  proof
    assume "(k, (snd key, pos)) \<in> set (later_games tlt pid ts)"
    then have "(home pid, fst (snd (k, (snd key, pos)))) \<in> (\<lambda>e. (home pid, fst (snd e))) ` set (later_games tlt pid ts)"
      by (rule imageI)
    then show False using False that[symmetric] by simp
  qed
  then show ?thesis using miss credit_outside[of "fst key" "snd key" "home pid"] False by simp
qed

lemma credit_slots:
  assumes r: "retro_ready home cnt tlt m pid ts"
  shows "slots_ok home (cnt(pid := (\<lambda>t. cnt pid t + (if ts < t then 1 else 0)))) tlt
    (credit (home pid) (later_games tlt pid ts) m)"
  unfolding slots_ok_def
proof (intro allI impI)
  fix q t g pos assume row: "RBT.lookup tlt (q, t) = Some (g, pos)"
  let ?goal = "unat pos < 10 \<and> (\<exists>pr. credit (home pid) (later_games tlt pid ts) m (home q, g) = Some pr \<and> length pr = 11
    \<and> unat (pr ! unat pos) = min 20 ((cnt(pid := (\<lambda>t. cnt pid t + (if ts < t then 1 else 0)))) q t))"
  obtain pr where pr: "m (home q, g) = Some pr" "length pr = 11" "unat (pr ! unat pos) = min 20 (cnt q t)" and pos: "unat pos < 10"
    using slots_okD[OF retro_readyD(1)[OF r] row] by blast
  show ?goal
  proof (cases rule: credit_cases[OF r, of "(home q, g)", case_names hit miss])
    case (hit k pos')
    then have k: "RBT.lookup tlt (pid, snd k) = Some (g, pos')" "ts < snd k" using later_entry[OF r] by auto
    note same = rows_okD[OF retro_readyD(2)[OF r] row k(1)]
    show ?thesis
    proof (cases "pos' = pos")
      case True
      then have "q = pid" "t = snd k" using same hit(2) by auto
      then show ?thesis using hit(4) True k(2) bump_own[OF pr(2) pos pr(3)] pos pr(1,2) by simp
    next
      case False
      then have "unat pos \<noteq> unat pos'" by (simp add: word_unat_eq_iff)
      moreover have "q \<noteq> pid" using False same hit(2) row k(1) by auto
      ultimately show ?thesis using hit(4) bump_other[OF hit(3) pos] pos pr by simp
    qed
  next
    case miss
    have "\<not> (q = pid \<and> ts < t)" using miss(2) later_entry[OF r, of "(pid, t)" g pos] row by auto
    then show ?thesis using miss(1) pr pos by auto
  qed
qed

lemma credit_flags:
  assumes r: "retro_ready home cnt tlt m pid ts"
  shows "flags_ok (credit (home pid) (later_games tlt pid ts) m)"
  unfolding flags_ok_def
proof (intro allI impI)
  fix key pr assume a: "credit (home pid) (later_games tlt pid ts) m key = Some pr" "length pr = 11"
  show "flag_ok pr"
  proof (cases rule: credit_cases[OF r, of key, case_names hit miss])
    case (hit k pos)
    then obtain pr0 where "m key = Some pr0" "pr = bump (unat pos) pr0" using a(1) by (cases "m key") auto
    then show ?thesis using a(2) retro_readyD(3)[OF r] bump_flag_ok[OF _ hit(3)] unfolding flags_ok_def
      by (metis length_bump)
  next
    case miss
    then show ?thesis using a retro_readyD(3)[OF r] unfolding flags_ok_def by metis
  qed
qed

text \<open>What a sequence of passes keeps of the progress table: its keys, and the other platforms.\<close>

definition same_shape :: "string \<Rightarrow> (string \<times> u64 \<Rightarrow> bytes option) \<Rightarrow> (string \<times> u64 \<Rightarrow> bytes option) \<Rightarrow> bool" where
  "same_shape p m m' \<longleftrightarrow>
     (\<forall>k. map_option length (m' k) = map_option length (m k)) \<and> (\<forall>k. fst k \<noteq> p \<longrightarrow> m' k = m k)"

lemma same_shape_refl [simp]: "same_shape p m m"
  by (simp add: same_shape_def)

lemma same_shape_trans: "same_shape p m m' \<Longrightarrow> same_shape p m' m'' \<Longrightarrow> same_shape p m m''"
  by (simp add: same_shape_def)

lemma credit_shape:
  assumes r: "retro_ready home cnt tlt m pid ts"
  shows "same_shape (home pid) m (credit (home pid) (later_games tlt pid ts) m)"
proof -
  have "map_option length (credit (home pid) (later_games tlt pid ts) m k) = map_option length (m k)
    \<and> (fst k \<noteq> home pid \<longrightarrow> credit (home pid) (later_games tlt pid ts) m k = m k)" for k
    by (cases rule: credit_cases[OF r, of k]) (auto simp: option.map_comp comp_def)
  then show ?thesis by (simp add: same_shape_def)
qed

text \<open>One player's pass raises exactly that player's slots after \<open>ts\<close>, and counts the new valid flags.\<close>

lemma retro_player_step:
  assumes r: "retro_ready home cnt tlt (RBT.lookup prog) pid ts"
  shows "\<exists>prog' nv'. retro_games (home pid) (later_games tlt pid ts) (prog, nv) = Inr (prog', nv')
    \<and> slots_ok home (cnt(pid := (\<lambda>t. cnt pid t + (if ts < t then 1 else 0)))) tlt (RBT.lookup prog')
    \<and> flags_ok (RBT.lookup prog') \<and> same_shape (home pid) (RBT.lookup prog) (RBT.lookup prog')
    \<and> nv' + of_nat (card (flagged (RBT.lookup prog) (home pid))) = nv + of_nat (card (flagged (RBT.lookup prog') (home pid)))"
proof -
  have cred: "\<forall>e \<in> set (later_games tlt pid ts). creditable (home pid) (RBT.lookup prog) e"
    using later_value[OF r] by (fastforce simp: creditable_def)
  obtain prog' nv' where "retro_games (home pid) (later_games tlt pid ts) (prog, nv) = Inr (prog', nv')"
    "RBT.lookup prog' = credit (home pid) (later_games tlt pid ts) (RBT.lookup prog)"
    "nv' + of_nat (card (flagged (RBT.lookup prog) (home pid))) = nv + of_nat (card (flagged (RBT.lookup prog') (home pid)))"
    using retro_games_credit[OF later_distinct[OF r] cred later_values_sorted[OF r], of nv] by blast
  then show ?thesis using credit_slots[OF r] credit_flags[OF r] credit_shape[OF r] by metis
qed

lemma shift_trans:
  fixes a :: "'a::ab_group_add"
  assumes "b + x = a + y" "c + y = b + z"
  shows "c + x = a + z"
proof -
  have "c + x + (b + y) = c + y + (b + x)" by (simp only: ac_simps)
  also have "\<dots> = (b + z) + (a + y)" by (simp only: assms)
  also have "\<dots> = a + z + (b + y)" by (simp only: ac_simps)
  finally show ?thesis by (rule add_right_imp_eq)
qed

text \<open>All ten passes.\<close>

lemma retro_players_step:
  assumes "slots_ok home cnt tlt (RBT.lookup prog)" "rows_ok home tlt" "flags_ok (RBT.lookup prog)" "ts \<noteq> - 1"
    and "distinct pids" "\<forall>pid \<in> set pids. home pid = p"
    and "\<forall>pid \<in> set pids. \<forall>t t'. t \<le> t' \<longrightarrow> cnt pid t \<le> cnt pid t'"
  shows "\<exists>prog' nv'. retro_players p ts tlt pids (prog, nv) = Inr (prog', nv')
    \<and> slots_ok home (\<lambda>q t. cnt q t + (if q \<in> set pids \<and> ts < t then 1 else 0)) tlt (RBT.lookup prog')
    \<and> flags_ok (RBT.lookup prog') \<and> same_shape p (RBT.lookup prog) (RBT.lookup prog')
    \<and> nv' + of_nat (card (flagged (RBT.lookup prog) p)) = nv + of_nat (card (flagged (RBT.lookup prog') p))"
  using assms
proof (induction pids arbitrary: cnt prog nv)
  case (Cons pid pids)
  let ?cnt = "cnt(pid := (\<lambda>t. cnt pid t + (if ts < t then 1 else 0)))"
  have r: "retro_ready home cnt tlt (RBT.lookup prog) pid ts" using Cons.prems by (auto simp: retro_ready_def)
  have p: "home pid = p" using Cons.prems(6) by simp
  from retro_player_step[OF r, of nv, unfolded p] obtain prog1 nv1 where
    1: "retro_games p (later_games tlt pid ts) (prog, nv) = Inr (prog1, nv1)" "slots_ok home ?cnt tlt (RBT.lookup prog1)"
      "flags_ok (RBT.lookup prog1)" "same_shape p (RBT.lookup prog) (RBT.lookup prog1)"
      "nv1 + of_nat (card (flagged (RBT.lookup prog) p)) = nv + of_nat (card (flagged (RBT.lookup prog1) p))" by blast
  have "\<forall>q \<in> set pids. \<forall>t t'. t \<le> t' \<longrightarrow> ?cnt q t \<le> ?cnt q t'" using Cons.prems(5,7) by auto
  from Cons.IH[OF 1(2) Cons.prems(2) 1(3) Cons.prems(4) _ _ this, of nv1] Cons.prems(5,6) obtain prog2 nv2 where
    2: "retro_players p ts tlt pids (prog1, nv1) = Inr (prog2, nv2)"
      "slots_ok home (\<lambda>q t. ?cnt q t + (if q \<in> set pids \<and> ts < t then 1 else 0)) tlt (RBT.lookup prog2)"
      "flags_ok (RBT.lookup prog2)" "same_shape p (RBT.lookup prog1) (RBT.lookup prog2)"
      "nv2 + of_nat (card (flagged (RBT.lookup prog1) p)) = nv1 + of_nat (card (flagged (RBT.lookup prog2) p))" by auto
  have "(\<lambda>q t. ?cnt q t + (if q \<in> set pids \<and> ts < t then 1 else 0)) =
    (\<lambda>q t. cnt q t + (if q \<in> set (pid # pids) \<and> ts < t then 1 else 0))"
    using Cons.prems(5) by (auto simp: fun_eq_iff)
  moreover have "nv2 + of_nat (card (flagged (RBT.lookup prog) p)) = nv + of_nat (card (flagged (RBT.lookup prog2) p))"
    by (rule shift_trans[OF 1(5) 2(5)])
  ultimately show ?case using 1(1) 2 same_shape_trans[OF 1(4)] by auto
qed simp


section \<open>Storing a match\<close>

lemma games_before_insert:
  assumes "\<forall>pid \<in> set pids. RBT.lookup tlt (pid, ts) = None" "distinct pids"
  shows "games_before (insert_all (timeline_rows gid ts i pids) tlt) q t =
    games_before tlt q t + (if q \<in> set pids \<and> ts < t then 1 else 0)"
proof -
  have row: "RBT.lookup (insert_all (timeline_rows gid ts i pids) tlt) (q, u) \<noteq> None \<longleftrightarrow>
    RBT.lookup tlt (q, u) \<noteq> None \<or> u = ts \<and> q \<in> set pids" for u
    using rows_own[OF assms(2)] rows_other by (metis in_set_conv_nth option.distinct(1))
  have "earlier (insert_all (timeline_rows gid ts i pids) tlt) q t =
    (if q \<in> set pids \<and> ts < t then insert ts (earlier tlt q t) else earlier tlt q t)"
    unfolding earlier_def row by auto
  moreover have "q \<in> set pids \<Longrightarrow> ts \<notin> earlier tlt q t" using assms(1) by (simp add: earlier_def)
  ultimately show ?thesis by (simp add: games_before_def)
qed

text \<open>The facts under which a match is new to the tracker.\<close>

definition fresh_match :: "(u32 \<Rightarrow> string) \<Rightarrow> string \<Rightarrow> u64 \<Rightarrow> u64 \<Rightarrow> u32 list \<Rightarrow> timeline_table \<Rightarrow> progress_table \<Rightarrow> bool" where
  "fresh_match home p gid ts pids tlt prog \<longleftrightarrow>
     distinct pids \<and> length pids \<le> 10 \<and> (\<forall>pid \<in> set pids. home pid = p \<and> RBT.lookup tlt (pid, ts) = None)
     \<and> ts \<noteq> - 1 \<and> RBT.lookup prog (p, gid) = None"

lemma new_row_cases:
  assumes "fresh_match home p gid ts pids tlt prog"
    and "RBT.lookup (insert_all (timeline_rows gid ts 0 pids) tlt) (q, t) = Some (g, pos)"
  obtains (old) "RBT.lookup tlt (q, t) = Some (g, pos)" "t \<noteq> ts \<or> q \<notin> set pids"
  | (new) n where "n < length pids" "q = pids ! n" "t = ts" "g = gid" "unat pos = n" "n < 10"
proof (cases "t = ts \<and> q \<in> set pids")
  case True
  then obtain n where n: "n < length pids" "q = pids ! n" by (metis in_set_conv_nth)
  have "n < 10" using n(1) assms(1) by (simp add: fresh_match_def)
  moreover have "pos = of_nat n" "g = gid"
    using assms rows_own[of pids n gid ts 0 tlt] n True by (auto simp: fresh_match_def)
  ultimately show ?thesis using new[of n] n True by (simp add: unat_of_nat)
next
  case False
  then show ?thesis using old assms(2) rows_other[of t ts q pids] by auto
qed

lemma rows_ok_insert:
  assumes f: "fresh_match home p gid ts pids tlt prog" and h: "history_ok home tlt prog"
  shows "rows_ok home (insert_all (timeline_rows gid ts 0 pids) tlt)"
  unfolding rows_ok_def
proof (intro allI impI)
  fix q t q' t' g pos pos'
  assume a: "RBT.lookup (insert_all (timeline_rows gid ts 0 pids) tlt) (q, t) = Some (g, pos)"
    "RBT.lookup (insert_all (timeline_rows gid ts 0 pids) tlt) (q', t') = Some (g, pos')" "home q = home q'"
  have fresh: "g \<noteq> gid" if "RBT.lookup tlt (q, t) = Some (g, pos)" "home q = p" for q t g pos
    using slots_okD[OF _ that(1)] h f that(2) by (fastforce simp: history_ok_def fresh_match_def)
  have home: "home (pids ! n) = p" if "n < length pids" for n using f that by (simp add: fresh_match_def)
  show "t = t' \<and> (pos = pos' \<longrightarrow> q = q')"
  proof (cases rule: new_row_cases[OF f a(1), case_names old new])
    case o1: old
    show ?thesis
    proof (cases rule: new_row_cases[OF f a(2), case_names old new])
      case old
      then show ?thesis using rows_okD[OF _ o1(1) old(1) a(3)] h by (simp add: history_ok_def)
    next
      case (new n)
      then show ?thesis using fresh[OF o1(1)] a(3) home by simp
    qed
  next
    case n1: (new n)
    show ?thesis
    proof (cases rule: new_row_cases[OF f a(2), case_names old new])
      case old
      then show ?thesis using fresh[OF old(1)] a(3) home n1 by simp
    next
      case (new n')
      then show ?thesis using n1 by (auto simp: word_unat_eq_iff)
    qed
  qed
qed

definition first_progress :: "timeline_table \<Rightarrow> u64 \<Rightarrow> u32 list \<Rightarrow> bytes" where
  "first_progress tlt ts pids =
     (let pr = map (pred_count tlt ts) pids @ replicate (11 - length pids) 0 in if all_full pr then pr[10 := 1] else pr)"

lemma first_progress_ok:
  assumes "length pids \<le> 10"
  shows "flag_ok (first_progress tlt ts pids)" "i < length pids \<Longrightarrow> first_progress tlt ts pids ! i = pred_count tlt ts (pids ! i)"
proof -
  have "(map (pred_count tlt ts) pids @ replicate (11 - length pids) 0) ! 10 = 0" using assms by (simp add: nth_append)
  then show "flag_ok (first_progress tlt ts pids)" using assms by (simp add: flag_ok_def first_progress_def Let_def)
  show "i < length pids \<Longrightarrow> first_progress tlt ts pids ! i = pred_count tlt ts (pids ! i)"
    using assms by (simp add: first_progress_def Let_def nth_append)
qed

lemma slots_ok_insert:
  assumes f: "fresh_match home p gid ts pids tlt prog" and h: "history_ok home tlt prog"
  shows "slots_ok home (games_before tlt) (insert_all (timeline_rows gid ts 0 pids) tlt)
    ((RBT.lookup prog)((p, gid) \<mapsto> first_progress tlt ts pids))"
  unfolding slots_ok_def
proof (intro allI impI)
  fix q t g pos assume a: "RBT.lookup (insert_all (timeline_rows gid ts 0 pids) tlt) (q, t) = Some (g, pos)"
  have len: "length pids \<le> 10" using f by (simp add: fresh_match_def)
  show "unat pos < 10 \<and> (\<exists>pr. ((RBT.lookup prog)((p, gid) \<mapsto> first_progress tlt ts pids)) (home q, g) = Some pr
      \<and> length pr = 11 \<and> unat (pr ! unat pos) = min 20 (games_before tlt q t))"
  proof (cases rule: new_row_cases[OF f a, case_names old new])
    case old
    have s: "slots_ok home (games_before tlt) tlt (RBT.lookup prog)" using h by (simp add: history_ok_def)
    have "(home q, g) \<noteq> (p, gid)" using slots_okD[OF s old(1)] f by (auto simp: fresh_match_def)
    then show ?thesis using slots_okD[OF s old(1)] by auto
  next
    case (new n)
    then have "home q = p" using f by (simp add: fresh_match_def)
    then show ?thesis
      using new first_progress_ok[OF len] pred_count_exact[of tlt ts q] by (auto simp: flag_ok_def)
  qed
qed

lemma track_history_ok:
  assumes f: "fresh_match home p gid ts pids tlt prog" and h: "history_ok home tlt prog"
  shows "\<exists>prog' nv. track_history p gid ts pids tlt prog = Inr (insert_all (timeline_rows gid ts 0 pids) tlt, prog', nv)
    \<and> history_ok home (insert_all (timeline_rows gid ts 0 pids) tlt) prog'
    \<and> same_shape p ((RBT.lookup prog)((p, gid) \<mapsto> first_progress tlt ts pids)) (RBT.lookup prog')
    \<and> nv + of_nat (card (flagged (RBT.lookup prog) p)) = of_nat (card (flagged (RBT.lookup prog') p))"
proof -
  let ?tl = "insert_all (timeline_rows gid ts 0 pids) tlt" and ?pr = "first_progress tlt ts pids"
  let ?prog = "RBT.insert (p, gid) ?pr prog" and ?nv = "if ?pr ! 10 = 1 then 1 else 0 :: u64"
  have fm: "distinct pids" "length pids \<le> 10" "\<forall>pid \<in> set pids. home pid = p" "\<forall>pid \<in> set pids. RBT.lookup tlt (pid, ts) = None"
    "ts \<noteq> - 1" "RBT.lookup prog (p, gid) = None" using f by (auto simp: fresh_match_def)
  let ?raw = "map (pred_count tlt ts) pids @ replicate (11 - length pids) 0"
  have raw10: "?raw ! 10 = 0" using fm(2) by (simp add: nth_append)
  have pr: "?pr = (if all_full ?raw then ?raw[10 := 1] else ?raw)" "?pr ! 10 = 1 \<longleftrightarrow> all_full ?raw"
    using raw10 fm(2) by (simp_all add: first_progress_def Let_def)
  have "fill_progress tlt ts 0 pids (replicate 11 0) = Inr ?raw" using fm(2) by (simp add: fill_progress_eq)
  then have unf: "track_history p gid ts pids tlt prog =
    res_bind (retro_players p ts ?tl pids (?prog, ?nv)) (\<lambda>(prog, nv). Inr (?tl, prog, nv))"
    using pr by (simp add: track_history_def Let_def)
  have flags: "flags_ok (RBT.lookup ?prog)" using h first_progress_ok(1)[OF fm(2)] by (auto simp: history_ok_def flags_ok_def)
  have mono: "\<forall>pid \<in> set pids. \<forall>t t'. t \<le> t' \<longrightarrow> games_before tlt pid t \<le> games_before tlt pid t'" by (simp add: games_before_mono)
  have slots: "slots_ok home (games_before tlt) ?tl (RBT.lookup ?prog)" using slots_ok_insert[OF f h] by simp
  obtain prog' nv where r: "retro_players p ts ?tl pids (?prog, ?nv) = Inr (prog', nv)"
    "slots_ok home (\<lambda>q t. games_before tlt q t + (if q \<in> set pids \<and> ts < t then 1 else 0)) ?tl (RBT.lookup prog')"
    "flags_ok (RBT.lookup prog')" "same_shape p (RBT.lookup ?prog) (RBT.lookup prog')"
    "nv + of_nat (card (flagged (RBT.lookup ?prog) p)) = ?nv + of_nat (card (flagged (RBT.lookup prog') p))"
    using retro_players_step[OF slots rows_ok_insert[OF f h] flags fm(5,1,3) mono, of ?nv] by blast
  have "(\<lambda>q t. games_before tlt q t + (if q \<in> set pids \<and> ts < t then 1 else 0)) = games_before ?tl"
    using games_before_insert[OF fm(4,1)] by (simp add: fun_eq_iff)
  then have "history_ok home ?tl prog'" using r(2,3) rows_ok_insert[OF f h] by (simp add: history_ok_def)
  moreover have "nv + of_nat (card (flagged (RBT.lookup prog) p)) = of_nat (card (flagged (RBT.lookup prog') p))"
  proof -
    have "gid \<notin> flagged (RBT.lookup prog) p" using fm(6) by (simp add: flagged_def)
    then have "card (flagged (RBT.lookup ?prog) p) = card (flagged (RBT.lookup prog) p) + (if ?pr ! 10 = 1 then 1 else 0)"
      using flagged_upd[of ?pr "RBT.lookup prog" p gid p] first_progress_ok(1)[OF fm(2)] by (simp add: flag_ok_def)
    then show ?thesis using r(5) by (auto simp: algebra_simps split: if_splits)
  qed
  ultimately show ?thesis using r(1,4) unf by simp
qed

end
