(* ===== verification/Store_Inv.thy ===== *)
theory Store_Inv
  imports Store_History
begin

text \<open>
  The invariant of the store: the caches mirror the tables, player ids are dense and unique, sample progress is
  exact and counted, also in the durable copy of the database.  Every operation keeps it, and reopening the
  durable database re-establishes it.
\<close>

section \<open>Player ids\<close>

definition ids_ok :: "(string \<Rightarrow> u32 option) \<Rightarrow> u32 \<Rightarrow> bool" where
  "ids_ok m nxt \<longleftrightarrow> inj_on m (dom m) \<and> ran m = {i. 1 \<le> unat i \<and> unat i < unat nxt} \<and> 1 \<le> unat nxt"

lemma ids_ok_empty: "ids_ok (\<lambda>_. None) 1"
  by (auto simp: ids_ok_def)

lemma u32_Suc: "unat (n :: u32) + 1 < 2 ^ 32 \<Longrightarrow> unat (n + 1) = Suc (unat n)"
  by (subst unat_word_ariths) simp

lemma ids_ok_extend:
  assumes "ids_ok m nxt" "m p = None" "unat nxt + 1 < 2 ^ 32"
  shows "ids_ok (m(p \<mapsto> nxt)) (nxt + 1)"
proof -
  have n: "unat (nxt + 1) = Suc (unat nxt)" using assms(3) by (rule u32_Suc)
  have r: "ran (m(p \<mapsto> nxt)) = insert nxt (ran m)" using assms(2) by (rule ran_map_upd)
  have "insert nxt {i. 1 \<le> unat i \<and> unat i < unat nxt} = {i. 1 \<le> unat i \<and> unat i < unat (nxt + 1)}"
  proof (rule set_eqI)
    fix i :: u32
    have e: "i = nxt \<longleftrightarrow> unat i = unat nxt" by (rule word_unat_eq_iff)
    have "1 \<le> unat nxt" using assms(1) unfolding ids_ok_def by blast
    then show "i \<in> insert nxt {i. 1 \<le> unat i \<and> unat i < unat nxt} \<longleftrightarrow> i \<in> {i. 1 \<le> unat i \<and> unat i < unat (nxt + 1)}"
      unfolding n insert_iff mem_Collect_eq e by linarith
  qed
  moreover have "inj_on (m(p \<mapsto> nxt)) (dom (m(p \<mapsto> nxt)))"
  proof (rule inj_onI)
    fix x y assume xy: "x \<in> dom (m(p \<mapsto> nxt))" "y \<in> dom (m(p \<mapsto> nxt))" "(m(p \<mapsto> nxt)) x = (m(p \<mapsto> nxt)) y"
    have "m z \<noteq> Some nxt" for z using assms(1) by (auto simp: ids_ok_def ran_def)
    then show "x = y" using xy assms(1) by (auto simp: ids_ok_def inj_on_def split: if_splits)
  qed
  moreover have "1 \<le> unat (nxt + 1)" using n by simp
  ultimately show ?thesis using assms(1) r by (simp add: ids_ok_def)
qed

lemma assign_ids_ok:
  assumes "assign_ids ps players nxt = (ids, players', nxt', fresh)" "ids_ok (RBT.lookup players) nxt"
    and "unat nxt + length ps < 2 ^ 32"
  shows "ids_ok (RBT.lookup players') nxt' \<and> RBT.lookup players' = RBT.lookup players ++ map_of (rev fresh)
    \<and> RBT.lookup players \<subseteq>\<^sub>m RBT.lookup players' \<and> map (RBT.lookup players') ps = map Some ids"
  using assms
proof (induction ps arbitrary: players nxt ids players' nxt' fresh)
  case (Cons p ps)
  show ?case
  proof (cases "RBT.lookup players p")
    case (Some pid)
    then obtain ids1 where a: "assign_ids ps players nxt = (ids1, players', nxt', fresh)" "ids = pid # ids1"
      using Cons.prems(1) by (auto split: prod.splits)
    from Cons.IH[OF a(1)] Cons.prems(2,3) have IH: "ids_ok (RBT.lookup players') nxt'"
      "RBT.lookup players' = RBT.lookup players ++ map_of (rev fresh)" "RBT.lookup players \<subseteq>\<^sub>m RBT.lookup players'"
      "map (RBT.lookup players') ps = map Some ids1" by auto
    moreover have "RBT.lookup players' p = Some pid" using Some IH(3) by (metis domI map_le_def)
    ultimately show ?thesis using a(2) by simp
  next
    case None
    then obtain ids1 fresh1 where a: "assign_ids ps (RBT.insert p nxt players) (nxt + 1) = (ids1, players', nxt', fresh1)"
      "ids = nxt # ids1" "fresh = (p, nxt) # fresh1"
      using Cons.prems(1) by (auto split: prod.splits)
    have "unat nxt + 1 < 2 ^ 32" "unat (nxt + 1) + length ps < 2 ^ 32" using Cons.prems(3) u32_Suc[of nxt] by simp_all
    with Cons.IH[OF a(1), unfolded RBT.lookup_insert, OF ids_ok_extend[OF Cons.prems(2) None]] have IH: "ids_ok (RBT.lookup players') nxt'"
      "RBT.lookup players' = (RBT.lookup players)(p \<mapsto> nxt) ++ map_of (rev fresh1)"
      "(RBT.lookup players)(p \<mapsto> nxt) \<subseteq>\<^sub>m RBT.lookup players'" "map (RBT.lookup players') ps = map Some ids1" by blast+
    have "RBT.lookup players' p = Some nxt" using IH(3) by (metis domI fun_upd_same map_le_def)
    moreover have "RBT.lookup players \<subseteq>\<^sub>m (RBT.lookup players)(p \<mapsto> nxt)" using None by (auto simp: map_le_def)
    then have "RBT.lookup players \<subseteq>\<^sub>m RBT.lookup players'" using IH(3) map_le_trans by blast
    moreover have "RBT.lookup players ++ map_of (rev fresh) = (RBT.lookup players)(p \<mapsto> nxt) ++ map_of (rev fresh1)"
      unfolding a(3) by (simp add: map_add_def fun_eq_iff split: option.split)
    ultimately show ?thesis using IH a(2) by simp
  qed
qed simp

lemma fold_max: "fold (\<lambda>(_, v) n. max n (f v)) kvs n = Max (insert n ((\<lambda>(_, v). f v) ` set kvs))"
  for n :: "'a::linorder"
proof (induction kvs arbitrary: n)
  case (Cons kv kvs)
  obtain k v where kv: "kv = (k, v)" by fastforce
  have "insert n (insert (f v) S) = insert n (insert (f v) S)" for S by simp
  show ?case
  proof (cases "kvs = []")
    case False
    then show ?thesis using Cons.IH[of "max n (f v)"] by (simp add: kv max.assoc)
  qed (simp add: kv)
qed simp

lemma next_id_after_ok:
  assumes "ids_ok (RBT.lookup t) nxt"
  shows "next_id_after (RBT.entries t) = nxt"
proof -
  let ?S = "(\<lambda>(_, v). v + 1) ` set (RBT.entries t)"
  have mem: "1 \<le> unat v \<and> unat v < unat nxt" if "(k, v) \<in> set (RBT.entries t)" for k v
    using that assms by (auto simp: mem_entries ids_ok_def intro: ranI)
  have suc: "unat (i + 1) = Suc (unat i)" if "unat i < unat nxt" for i :: u32
    using that unsigned_less[of nxt, where ?'a = nat] by (intro u32_Suc) simp
  have "Max (insert 1 ?S) = nxt"
  proof (rule Max_eqI)
    fix y assume "y \<in> insert 1 ?S"
    then consider "y = 1" | k v where "(k, v) \<in> set (RBT.entries t)" "y = v + 1" by auto
    then show "y \<le> nxt"
    proof cases
      case 2
      then show ?thesis using mem[OF 2(1)] suc[of v] by (simp add: word_le_nat_alt)
    qed (use assms in \<open>simp add: ids_ok_def word_le_nat_alt\<close>)
  next
    show "nxt \<in> insert 1 ?S"
    proof (cases "nxt = 1")
      case False
      have "1 \<le> nxt" using assms by (simp add: ids_ok_def word_le_nat_alt)
      then have u: "unat (nxt - 1) = unat nxt - 1" by (simp add: unat_sub)
      have "unat nxt \<noteq> 1" using False by (metis unat_1 word_unat_eq_iff)
      then have "nxt - 1 \<in> {i. 1 \<le> unat i \<and> unat i < unat nxt}"
        using assms unfolding mem_Collect_eq u ids_ok_def by linarith
      then have "nxt - 1 \<in> ran (RBT.lookup t)" using assms unfolding ids_ok_def by blast
      then obtain k where "(k, nxt - 1) \<in> set (RBT.entries t)" by (auto simp: ran_def mem_entries)
      then have "nxt - 1 + 1 \<in> ?S" by force
      then show ?thesis by simp
    qed simp
  qed simp
  then show ?thesis by (simp add: next_id_after_def fold_max[where f = "\<lambda>v. v + 1"])
qed


section \<open>The invariant\<close>

definition meta_valid :: "tables \<Rightarrow> string \<Rightarrow> u64" where
  "meta_valid t p = (case RBT.lookup (t_meta t) (valid_key p) of
     Some bs \<Rightarrow> if length bs = 8 then from_le bs else 0 | None \<Rightarrow> 0)"

definition enabled :: "string \<Rightarrow> bool" where
  "enabled p \<longleftrightarrow> p \<in> rg_platform ` set enabled_regions"

text \<open>What holds of a version of the database, visible or durable.\<close>

definition tables_ok :: "(u32 \<Rightarrow> string) \<Rightarrow> tables \<Rightarrow> bool" where
  "tables_ok home t \<longleftrightarrow>
     (\<exists>nxt. ids_ok (RBT.lookup (t_players t)) nxt)
     \<and> history_ok home (t_player_tl t) (t_progress t)
     \<and> (\<forall>p. enabled p \<longrightarrow> meta_valid t p = of_nat (card (flagged (RBT.lookup (t_progress t)) p)))
     \<and> dom (RBT.lookup (t_cohort t)) \<inter> dom (RBT.lookup (t_outsider t)) = {}
     \<and> frontier_wf (t_front t)"

text \<open>The caches hold what the tables hold.\<close>

definition caches_ok :: "store \<Rightarrow> bool" where
  "caches_ok s \<longleftrightarrow>
     RBT.lookup (st_players s) = RBT.lookup (t_players (st_db s))
     \<and> ids_ok (RBT.lookup (t_players (st_db s))) (st_next_player_id s)
     \<and> st_cohort s = dom (RBT.lookup (t_cohort (st_db s)))
     \<and> RBT.lookup (st_outsider_seen s) = RBT.lookup (t_outsider (st_db s))
     \<and> (\<forall>p. enabled p \<longrightarrow> RBT.lookup (st_valid_samples s) p = Some (meta_valid (st_db s) p))"

definition store_ok :: "(u32 \<Rightarrow> string) \<Rightarrow> store \<Rightarrow> bool" where
  "store_ok home s \<longleftrightarrow> tables_ok home (st_db s) \<and> tables_ok home (st_durable s) \<and> caches_ok s
     \<and> RBT.lookup (t_players (st_durable s)) \<subseteq>\<^sub>m RBT.lookup (t_players (st_db s))"

lemma store_okD:
  assumes "store_ok home s"
  shows "tables_ok home (st_db s)" "tables_ok home (st_durable s)" "caches_ok s"
    "RBT.lookup (t_players (st_durable s)) \<subseteq>\<^sub>m RBT.lookup (t_players (st_db s))"
  using assms by (auto simp: store_ok_def)

text \<open>Keys of the meta table that other operations write.\<close>

definition plain_key :: "string \<Rightarrow> bool" where
  "plain_key k \<longleftrightarrow> (\<forall>p. k \<noteq> valid_key p \<and> k \<noteq> bitmap_key p)"

lemma keys_differ [simp]:
  "valid_key p \<noteq> bitmap_key q" "bitmap_key q \<noteq> valid_key p"
  "valid_key p = valid_key q \<longleftrightarrow> p = q" "bitmap_key p = bitmap_key q \<longleftrightarrow> p = q"
  by (simp_all add: valid_key_def bitmap_key_def)

lemma plain_key_differs [simp]: "plain_key k \<Longrightarrow> valid_key p \<noteq> k" "plain_key k \<Longrightarrow> bitmap_key p \<noteq> k"
  by (auto simp: plain_key_def)

lemma plain_keys [simp]: "plain_key ''checkpoint_ms''" "plain_key ''next_node_id''"
  by (simp_all add: plain_key_def valid_key_def bitmap_key_def)

text \<open>Transactions that do not touch players, history, cohort or sample counts.\<close>

definition benign :: "tables \<Rightarrow> tables \<Rightarrow> bool" where
  "benign t t' \<longleftrightarrow>
     t_players t' = t_players t \<and> t_player_tl t' = t_player_tl t \<and> t_progress t' = t_progress t
     \<and> t_cohort t' = t_cohort t \<and> t_outsider t' = t_outsider t \<and> (frontier_wf (t_front t) \<longrightarrow> frontier_wf (t_front t'))
     \<and> (\<forall>p. RBT.lookup (t_meta t') (valid_key p) = RBT.lookup (t_meta t) (valid_key p))"

definition same_caches :: "store \<Rightarrow> store \<Rightarrow> bool" where
  "same_caches s s' \<longleftrightarrow>
     st_players s' = st_players s \<and> st_next_player_id s' = st_next_player_id s \<and> st_cohort s' = st_cohort s
     \<and> st_outsider_seen s' = st_outsider_seen s \<and> st_valid_samples s' = st_valid_samples s"

lemma benign_tables: "benign t t' \<Longrightarrow> tables_ok home t \<Longrightarrow> tables_ok home t'"
  by (simp add: benign_def tables_ok_def meta_valid_def)

lemma store_ok_benign:
  assumes "store_ok home s" "benign (st_db s) (st_db s')" "same_caches s s'"
    and "st_durable s' = st_durable s \<or> st_durable s' = st_db s'"
  shows "store_ok home s'"
proof -
  have "tables_ok home (st_db s')" by (rule benign_tables[OF assms(2) store_okD(1)[OF assms(1)]])
  moreover have "caches_ok s'"
    using store_okD(3)[OF assms(1)] assms(2,3) unfolding caches_ok_def benign_def same_caches_def meta_valid_def
    by (elim conjE, intro conjI) simp_all
  moreover have "t_players (st_db s') = t_players (st_db s)" using assms(2) by (simp add: benign_def)
  ultimately show ?thesis using assms(4) store_okD(2,4)[OF assms(1)] by (auto simp: store_ok_def)
qed

lemma lookup_insert_all_other: "k \<notin> fst ` set kvs \<Longrightarrow> RBT.lookup (insert_all kvs t) k = RBT.lookup t k"
  by (induction kvs arbitrary: t) auto

lemma benign_refl [simp]: "benign t t"
  by (simp add: benign_def)

lemma durable_checkpoint_ok: "store_ok home s \<Longrightarrow> store_ok home (durable_checkpoint now s)"
  by (erule store_ok_benign) (simp_all add: durable_checkpoint_def commit_durable_def benign_def same_caches_def)

lemma mark_seen_ok: "store_ok home s \<Longrightarrow> store_ok home (mark_seen p g s)"
  by (erule store_ok_benign) (auto simp: mark_seen_def same_caches_def)

lemma add_rank_ok: "store_ok home s \<Longrightarrow> store_ok home (add_rank_snapshot pid ts snap s)"
  by (erule store_ok_benign) (auto simp: add_rank_snapshot_def same_caches_def)

lemma meta_set_ok: "store_ok home s \<Longrightarrow> plain_key k \<Longrightarrow> store_ok home (meta_set_u32 k v s)"
  by (erule store_ok_benign) (simp_all add: meta_set_u32_def commit_fast_def benign_def same_caches_def)

lemma node_add_ok: "store_ok home s \<Longrightarrow> store_ok home (snd (node_add name tok now s))"
  by (erule store_ok_benign) (simp_all add: node_add_def commit_durable_def benign_def same_caches_def Let_def)

lemma node_stats_ok: "store_ok home s \<Longrightarrow> store_ok home (node_stats_upsert rows s)"
  by (erule store_ok_benign) (auto simp: node_stats_upsert_def commit_fast_def benign_def same_caches_def)

lemma store_frontier_ok:
  assumes "store_ok home s" "\<And>fr. frontier_wf fr \<Longrightarrow> frontier_wf (snd (f fr))"
  shows "store_ok home (snd (store_frontier f s))"
  using assms(1)
  by (rule store_ok_benign)
    (use assms(2)[of "t_front (st_db s)"] in
      \<open>auto simp: store_frontier_def commit_fast_def benign_def same_caches_def split: prod.split\<close>)

lemma frontier_reconcile_ok:
  assumes "store_ok home s"
  shows "store_ok home (snd (frontier_reconcile now s))"
proof -
  have *: "store_ok home (snd (fold (\<lambda>p (n, s). (n + length (batch p),
      snd (store_frontier (\<lambda>f. ((), frontier_push_batch p BUCKET_PRIORITY now (batch p) f)) s))) ps (n, s)))"
    if "store_ok home s" for ps n s and batch :: "string \<Rightarrow> (u32 \<times> frontier_task) list"
    using that
    by (induction ps arbitrary: n s) (simp_all add: store_frontier_ok push_batch_refines)
  show ?thesis unfolding frontier_reconcile_def Let_def by (rule *[OF assms])
qed

lemma flush_writers_same:
  "st_db (flush_writers lib s) = st_db s" "st_durable (flush_writers lib s) = st_durable s"
  "same_caches s (flush_writers lib s)" "st_seen (flush_writers lib s) = st_seen s"
  "st_dirty_bitmaps (flush_writers lib s) = st_dirty_bitmaps s" "st_data_dir (flush_writers lib s) = st_data_dir s"
proof -
  have *: "st_db s' = st_db s \<and> st_durable s' = st_durable s \<and> same_caches s s' \<and> st_seen s' = st_seen s
    \<and> st_dirty_bitmaps s' = st_dirty_bitmaps s \<and> st_data_dir s' = st_data_dir s"
    if "s' = fold (\<lambda>(p, w) s. case sw_flush (lib_seg lib) (w, st_files s) of
             (w, fs) \<Rightarrow> s\<lparr>st_writers := RBT.insert p w (st_writers s), st_files := fs\<rparr>) ws s" for ws s'
    using that by (induction ws arbitrary: s) (auto simp: same_caches_def split: prod.splits)
  show "st_db (flush_writers lib s) = st_db s" "st_durable (flush_writers lib s) = st_durable s"
    "same_caches s (flush_writers lib s)" "st_seen (flush_writers lib s) = st_seen s"
    "st_dirty_bitmaps (flush_writers lib s) = st_dirty_bitmaps s" "st_data_dir (flush_writers lib s) = st_data_dir s"
    using *[of _ "RBT.entries (st_writers s)"] by (simp_all add: flush_writers_def)
qed

lemma flush_writers_ok: "store_ok home s \<Longrightarrow> store_ok home (flush_writers lib s)"
  by (erule store_ok_benign) (simp_all add: flush_writers_same)

lemma commit_bitmaps_ok: "store_ok home s \<Longrightarrow> store_ok home (commit_bitmaps lib s)"
proof (erule store_ok_benign)
  have "RBT.lookup (t_meta (st_db (commit_bitmaps lib s))) (valid_key p) = RBT.lookup (t_meta (st_db s)) (valid_key p)" for p
    unfolding commit_bitmaps_def commit_durable_def by (auto intro!: lookup_insert_all_other)
  then show "benign (st_db s) (st_db (commit_bitmaps lib s))"
    by (simp add: benign_def commit_bitmaps_def commit_durable_def)
qed (simp_all add: commit_bitmaps_def commit_durable_def same_caches_def)

lemma commit_store_ok: "store_ok home s \<Longrightarrow> store_ok home (commit_store lib now s)"
  by (simp add: commit_store_def Let_def durable_checkpoint_ok flush_writers_ok commit_bitmaps_ok)


section \<open>Players and cohort\<close>

lemma insert_all_lookup_cong:
  "RBT.lookup t = RBT.lookup t' \<Longrightarrow> RBT.lookup (insert_all kvs t) = RBT.lookup (insert_all kvs t')"
  by (simp add: lookup_insert_all)

lemma assign_player_ids_ok:
  assumes ok: "store_ok home s" and a: "assign_player_ids ps s = (ids, s')"
    and bound: "unat (st_next_player_id s) + length ps < 2 ^ 32"
  shows "store_ok home s'" "map (RBT.lookup (t_players (st_db s'))) ps = map Some ids"
    "RBT.lookup (t_players (st_db s)) \<subseteq>\<^sub>m RBT.lookup (t_players (st_db s'))"
    "\<exists>players. st_db s' = (st_db s)\<lparr>t_players := players\<rparr>" "st_durable s' = st_durable s"
    "st_cohort s' = st_cohort s" "st_outsider_seen s' = st_outsider_seen s" "st_valid_samples s' = st_valid_samples s"
    "st_files s' = st_files s" "st_writers s' = st_writers s" "st_seen s' = st_seen s" "st_data_dir s' = st_data_dir s"
    "st_dirty_bitmaps s' = st_dirty_bitmaps s"
proof -
  obtain players nxt fresh where e: "assign_ids ps (st_players s) (st_next_player_id s) = (ids, players, nxt, fresh)"
    using a by (auto simp: assign_player_ids_def Let_def split: prod.splits)
  note c = store_okD(3)[OF ok, unfolded caches_ok_def]
  have ids0: "ids_ok (RBT.lookup (st_players s)) (st_next_player_id s)" using c by simp
  have i: "ids_ok (RBT.lookup players) nxt" "RBT.lookup players = RBT.lookup (st_players s) ++ map_of (rev fresh)"
    "RBT.lookup (st_players s) \<subseteq>\<^sub>m RBT.lookup players" "map (RBT.lookup players) ps = map Some ids"
    using assign_ids_ok[OF e ids0 bound] by blast+
  have s': "s' = (if fresh = [] then s\<lparr>st_players := players, st_next_player_id := nxt\<rparr>
    else s\<lparr>st_players := players, st_next_player_id := nxt, st_db := (st_db s)\<lparr>t_players := insert_all fresh (t_players (st_db s))\<rparr>\<rparr>)"
    using a e by (auto simp: assign_player_ids_def commit_fast_def Let_def)
  have tp: "RBT.lookup (t_players (st_db s')) = RBT.lookup players"
    using i(2) c by (auto simp: s' lookup_insert_all)
  show db: "\<exists>players. st_db s' = (st_db s)\<lparr>t_players := players\<rparr>"
    by (cases "fresh = []") (auto simp: s' intro: exI[of _ "t_players (st_db s)"])
  show fr: "st_durable s' = st_durable s" "st_cohort s' = st_cohort s" "st_outsider_seen s' = st_outsider_seen s"
    "st_valid_samples s' = st_valid_samples s" "st_files s' = st_files s" "st_writers s' = st_writers s"
    "st_seen s' = st_seen s" "st_data_dir s' = st_data_dir s" "st_dirty_bitmaps s' = st_dirty_bitmaps s" by (simp_all add: s')
  show ids: "map (RBT.lookup (t_players (st_db s'))) ps = map Some ids" using i(4) tp by simp
  show le: "RBT.lookup (t_players (st_db s)) \<subseteq>\<^sub>m RBT.lookup (t_players (st_db s'))" using i(3) tp c by simp
  obtain pl where pl: "st_db s' = (st_db s)\<lparr>t_players := pl\<rparr>" using db by blast
  have "tables_ok home (st_db s')"
    using store_okD(1)[OF ok] i(1) tp unfolding pl by (auto simp: tables_ok_def meta_valid_def)
  moreover have "caches_ok s'"
    using c i(1) tp fr unfolding caches_ok_def by (auto simp: s' pl meta_valid_def)
  moreover have "RBT.lookup (t_players (st_durable s')) \<subseteq>\<^sub>m RBT.lookup (t_players (st_db s'))"
    using store_okD(4)[OF ok] le fr(1) map_le_trans by metis
  ultimately show "store_ok home s'" using store_okD(2)[OF ok] fr(1) by (simp add: store_ok_def)
qed

lemma lookup_fold_delete: "RBT.lookup (fold RBT.delete ks t) k = (if k \<in> set ks then None else RBT.lookup t k)"
  by (induction ks arbitrary: t) auto

text \<open>Changes to cohort and outsiders only.\<close>

lemma store_ok_cohort:
  assumes ok: "store_ok home s"
    and s': "s' = s\<lparr>st_db := (st_db s)\<lparr>t_cohort := co, t_outsider := out\<rparr>, st_cohort := coc, st_outsider_seen := outc\<rparr>"
    and "coc = dom (RBT.lookup co)" "RBT.lookup outc = RBT.lookup out" "dom (RBT.lookup co) \<inter> dom (RBT.lookup out) = {}"
  shows "store_ok home s'"
proof -
  have "tables_ok home (st_db s')" using store_okD(1)[OF ok] assms(5) by (simp add: s' tables_ok_def meta_valid_def)
  moreover have "caches_ok s'" using store_okD(3)[OF ok] assms(3,4) by (simp add: s' caches_ok_def meta_valid_def)
  ultimately show ?thesis using store_okD(2,4)[OF ok] by (simp add: store_ok_def s')
qed

lemma cohort_add_batch_ok:
  assumes ok: "store_ok home s"
  shows "store_ok home (snd (cohort_add_batch pids source now s))"
proof -
  let ?new = "filter (\<lambda>pid. pid \<notin> st_cohort s) pids"
  let ?co = "insert_all (map (\<lambda>pid. (pid, (now, source))) ?new) (t_cohort (st_db s))"
  let ?out = "fold RBT.delete ?new (t_outsider (st_db s))"
  have co: "dom (RBT.lookup ?co) = dom (RBT.lookup (t_cohort (st_db s))) \<union> set ?new"
    by (auto simp: lookup_insert_all dom_map_of_conv_image_fst image_image)
  have c: "st_cohort s = dom (RBT.lookup (t_cohort (st_db s)))" "RBT.lookup (st_outsider_seen s) = RBT.lookup (t_outsider (st_db s))"
    "dom (RBT.lookup (t_cohort (st_db s))) \<inter> dom (RBT.lookup (t_outsider (st_db s))) = {}"
    using store_okD(1,3)[OF ok] by (auto simp: caches_ok_def tables_ok_def)
  show ?thesis
  proof (cases "?new = []")
    case True
    then show ?thesis using ok by (simp add: cohort_add_batch_def Let_def)
  next
    case False
    let ?s' = "s\<lparr>st_db := (st_db s)\<lparr>t_cohort := ?co, t_outsider := ?out\<rparr>, st_cohort := st_cohort s \<union> set ?new,
      st_outsider_seen := fold RBT.delete ?new (st_outsider_seen s)\<rparr>"
    have "snd (cohort_add_batch pids source now s) = ?s'"
      using False by (simp add: cohort_add_batch_def commit_fast_def Let_def)
    moreover have "store_ok home ?s'"
    proof (rule store_ok_cohort[OF ok refl])
      show "RBT.lookup (fold RBT.delete ?new (st_outsider_seen s)) = RBT.lookup ?out"
        by (simp add: fun_eq_iff lookup_fold_delete c(2))
      show "dom (RBT.lookup ?co) \<inter> dom (RBT.lookup ?out) = {}"
        using c(3) unfolding co by (auto simp: lookup_fold_delete dom_def)
    qed (use c(1) co in simp)
    ultimately show ?thesis by simp
  qed
qed

text \<open>What counting sightings and adopting keeps.\<close>

definition cohort_only :: "store \<Rightarrow> store \<Rightarrow> bool" where
  "cohort_only s s' \<longleftrightarrow> (\<exists>co out coc outc.
     s' = s\<lparr>st_db := (st_db s)\<lparr>t_cohort := co, t_outsider := out\<rparr>, st_cohort := coc, st_outsider_seen := outc\<rparr>)"

lemma cohort_only_refl: "cohort_only s s"
  unfolding cohort_only_def
  by (intro exI[of _ "t_cohort (st_db s)"] exI[of _ "t_outsider (st_db s)"] exI[of _ "st_cohort s"] exI[of _ "st_outsider_seen s"]) simp

lemma cohort_only_trans: "cohort_only s s' \<Longrightarrow> cohort_only s' s'' \<Longrightarrow> cohort_only s s''"
  unfolding cohort_only_def by fastforce

lemma adopt_one_ok:
  assumes ok: "store_ok home s"
  shows "store_ok home (fst (adopt_one ts paused x (s, ad))) \<and> cohort_only s (fst (adopt_one ts paused x (s, ad)))"
proof -
  obtain pid puuid where x: "x = (pid, puuid)" by fastforce
  have c: "st_cohort s = dom (RBT.lookup (t_cohort (st_db s)))" "RBT.lookup (st_outsider_seen s) = RBT.lookup (t_outsider (st_db s))"
    "dom (RBT.lookup (t_cohort (st_db s))) \<inter> dom (RBT.lookup (t_outsider (st_db s))) = {}"
    using store_okD(1,3)[OF ok] by (auto simp: caches_ok_def tables_ok_def)
  let ?n = "(case RBT.lookup (st_outsider_seen s) pid of Some n \<Rightarrow> n | None \<Rightarrow> 0) + 1"
  consider (member) "pid \<in> st_cohort s" | (adopt) "pid \<notin> st_cohort s" "\<not> paused \<and> ADOPTION_THRESHOLD \<le> ?n"
    | (count) "pid \<notin> st_cohort s" "\<not> (\<not> paused \<and> ADOPTION_THRESHOLD \<le> ?n)" by blast
  then show ?thesis
  proof cases
    case member
    then show ?thesis using ok cohort_only_refl by (simp add: adopt_one_def x)
  next
    case adopt
    let ?s' = "s\<lparr>st_db := (st_db s)\<lparr>t_cohort := RBT.insert pid (ts, COHORT_SRC_ADOPTED) (t_cohort (st_db s)),
        t_outsider := RBT.delete pid (t_outsider (st_db s))\<rparr>, st_cohort := insert pid (st_cohort s),
        st_outsider_seen := RBT.delete pid (st_outsider_seen s)\<rparr>"
    have e: "fst (adopt_one ts paused x (s, ad)) = ?s'" using adopt by (simp add: adopt_one_def x commit_fast_def Let_def)
    have "store_ok home ?s'" by (rule store_ok_cohort[OF ok refl]) (use c in \<open>auto simp: dom_def\<close>)
    then show ?thesis unfolding e cohort_only_def by blast
  next
    case count
    let ?s' = "s\<lparr>st_db := (st_db s)\<lparr>t_cohort := t_cohort (st_db s), t_outsider := RBT.insert pid ?n (t_outsider (st_db s))\<rparr>,
        st_cohort := st_cohort s, st_outsider_seen := RBT.insert pid ?n (st_outsider_seen s)\<rparr>"
    have e: "fst (adopt_one ts paused x (s, ad)) = ?s'" using count by (auto simp: adopt_one_def x commit_fast_def Let_def)
    have "store_ok home ?s'" by (rule store_ok_cohort[OF ok refl]) (use c count(1) in \<open>auto simp: dom_def\<close>)
    then show ?thesis unfolding e cohort_only_def by blast
  qed
qed

lemma adopt_fold_ok:
  "store_ok home s \<Longrightarrow> fold (adopt_one ts paused) xs (s, ad) = (s', ad') \<Longrightarrow> store_ok home s' \<and> cohort_only s s'"
proof (induction xs arbitrary: s ad)
  case (Cons x xs)
  obtain s1 ad1 where e: "adopt_one ts paused x (s, ad) = (s1, ad1)" by fastforce
  then have "store_ok home s1" "cohort_only s s1" using adopt_one_ok[OF Cons.prems(1), of ts paused x ad] by auto
  with Cons.IH[of s1 ad1] Cons.prems(2) e show ?case using cohort_only_trans by auto
qed (simp add: cohort_only_refl)


section \<open>Storing a match\<close>

text \<open>What a fast transaction leaves alone: the durable copy, files, writers, seen sets, and the stored bitmaps.\<close>

definition quiet :: "store \<Rightarrow> store \<Rightarrow> bool" where
  "quiet s s' \<longleftrightarrow>
     st_durable s' = st_durable s \<and> st_files s' = st_files s \<and> st_writers s' = st_writers s \<and> st_seen s' = st_seen s
     \<and> st_data_dir s' = st_data_dir s \<and> st_dirty_bitmaps s' = st_dirty_bitmaps s
     \<and> RBT.lookup (t_players (st_db s)) \<subseteq>\<^sub>m RBT.lookup (t_players (st_db s'))
     \<and> (\<forall>p. RBT.lookup (t_meta (st_db s')) (bitmap_key p) = RBT.lookup (t_meta (st_db s)) (bitmap_key p))"

lemma quiet_trans: "quiet s s' \<Longrightarrow> quiet s' s'' \<Longrightarrow> quiet s s''"
  unfolding quiet_def by (auto intro: map_le_trans)

lemma quiet_refl [simp]: "quiet s s"
  by (simp add: quiet_def)

lemma cohort_only_quiet: "cohort_only s s' \<Longrightarrow> quiet s s'"
  by (auto simp: cohort_only_def quiet_def)

lemma cohort_only_tables:
  "cohort_only s s' \<Longrightarrow> t_player_tl (st_db s') = t_player_tl (st_db s) \<and> t_progress (st_db s') = t_progress (st_db s)
     \<and> t_players (st_db s') = t_players (st_db s)"
  by (auto simp: cohort_only_def)

text \<open>The calls the crawler makes: ten distinct participants at most, on an enabled platform, each player's games
  stored under one platform, and a start time at which none of the players has another stored game.\<close>

definition match_call :: "(u32 \<Rightarrow> string) \<Rightarrow> match_record \<Rightarrow> string list \<Rightarrow> u64 \<Rightarrow> store \<Rightarrow> bool" where
  "match_call home rec puuids ts s \<longleftrightarrow>
     distinct puuids \<and> length puuids \<le> 10 \<and> length (participants rec) = length puuids \<and> enabled (platform rec)
     \<and> ts \<noteq> - 1 \<and> unat (st_next_player_id s) + length puuids < 2 ^ 32
     \<and> (\<forall>pid \<in> set (fst (assign_player_ids puuids s)). home pid = platform rec
          \<and> (RBT.lookup (t_progress (st_db s)) (platform rec, game_id rec) = None \<longrightarrow>
             RBT.lookup (t_player_tl (st_db s)) (pid, ts) = None))"

definition record_ids :: "match_record \<Rightarrow> u32 set" where
  "record_ids rec = player_id ` set (participants rec)"

lemma fill_ids_all: "length parts = length pids \<Longrightarrow> player_id ` set (fill_ids parts pids) = set pids"
proof -
  assume "length parts = length pids"
  then have "map player_id (fill_ids parts pids) = pids" by (simp add: fill_ids_def split_beta map_snd_zip comp_def)
  then show ?thesis by (metis set_map)
qed

lemma map_Some_set:
  assumes "map m ps = map Some ids"
  shows "set ps \<subseteq> dom m" "set ids \<subseteq> ran m"
proof -
  have "m ` set ps = Some ` set ids" using arg_cong[OF assms, of set] by simp
  then show "set ps \<subseteq> dom m" "set ids \<subseteq> ran m" by (auto simp: ran_def image_iff dom_def) (metis imageE imageI)+
qed

lemma ids_distinct:
  assumes "ids_ok m nxt" "map m ps = map Some ids" "distinct ps"
  shows "distinct ids"
proof -
  have "inj_on m (set ps)" using assms(1) map_Some_set(1)[OF assms(2)] unfolding ids_ok_def by (meson inj_on_subset)
  then have "distinct (map m ps)" using assms(3) by (simp add: distinct_map)
  then show ?thesis unfolding assms(2) by (simp add: distinct_map)
qed

text \<open>The empty progress record of a remake changes no slot and no flag.\<close>

lemma remake_ok:
  assumes ok: "store_ok home s" and none: "RBT.lookup (t_progress (st_db s)) key = None"
  shows "store_ok home (commit_fast (\<lambda>t. t\<lparr>t_progress := RBT.insert key [] (t_progress t)\<rparr>) s)"
proof -
  let ?m = "RBT.lookup (t_progress (st_db s))"
  have h: "slots_ok home (games_before (t_player_tl (st_db s))) (t_player_tl (st_db s)) ?m" "flags_ok ?m"
    using store_okD(1)[OF ok] by (auto simp: tables_ok_def history_ok_def)
  have "slots_ok home (games_before (t_player_tl (st_db s))) (t_player_tl (st_db s)) (?m(key \<mapsto> []))"
    unfolding slots_ok_def
  proof (intro allI impI)
    fix pid t g pos assume row: "RBT.lookup (t_player_tl (st_db s)) (pid, t) = Some (g, pos)"
    then have "(home pid, g) \<noteq> key" using slots_okD[OF h(1) row] none by auto
    then show "unat pos < 10 \<and> (\<exists>pr. (?m(key \<mapsto> [])) (home pid, g) = Some pr \<and> length pr = 11
      \<and> unat (pr ! unat pos) = min 20 (games_before (t_player_tl (st_db s)) pid t))"
      using slots_okD[OF h(1) row] by simp
  qed
  moreover have "flags_ok (?m(key \<mapsto> []))" using h(2) by (auto simp: flags_ok_def)
  moreover have "flagged (?m(key \<mapsto> [])) q = flagged ?m q" for q using none by (auto simp: flagged_def)
  ultimately show ?thesis
    using ok by (simp add: store_ok_def tables_ok_def caches_ok_def history_ok_def commit_fast_def meta_valid_def)
qed

lemma count_valid_quiet: "quiet s (count_valid p nv s)"
  by (simp add: count_valid_def quiet_def commit_fast_def Let_def)

lemma history_step_ok:
  assumes ok: "store_ok home s" and f: "fresh_match home p gid ts pids (t_player_tl (st_db s)) (t_progress (st_db s))"
    and en: "enabled p"
  shows "\<exists>tlt prog nv. track_history p gid ts pids (t_player_tl (st_db s)) (t_progress (st_db s)) = Inr (tlt, prog, nv)
    \<and> store_ok home (count_valid p nv (commit_fast (\<lambda>t. t\<lparr>t_player_tl := tlt, t_progress := prog\<rparr>) s))
    \<and> RBT.lookup prog (p, gid) \<noteq> None"
proof -
  let ?tlt = "insert_all (timeline_rows gid ts 0 pids) (t_player_tl (st_db s))" and ?m = "RBT.lookup (t_progress (st_db s))"
  have h: "history_ok home (t_player_tl (st_db s)) (t_progress (st_db s))" using store_okD(1)[OF ok] by (simp add: tables_ok_def)
  obtain prog nv where t: "track_history p gid ts pids (t_player_tl (st_db s)) (t_progress (st_db s)) = Inr (?tlt, prog, nv)"
    "history_ok home ?tlt prog" "same_shape p (?m((p, gid) \<mapsto> first_progress (t_player_tl (st_db s)) ts pids)) (RBT.lookup prog)"
    "nv + of_nat (card (flagged ?m p)) = of_nat (card (flagged (RBT.lookup prog) p))"
    using track_history_ok[OF f h] by blast
  let ?s1 = "commit_fast (\<lambda>t. t\<lparr>t_player_tl := ?tlt, t_progress := prog\<rparr>) s"
  let ?s' = "count_valid p nv ?s1"
  have other: "flagged (RBT.lookup prog) q = flagged ?m q" if "q \<noteq> p" for q
    using t(3) that by (auto simp: same_shape_def flagged_def)
  have key: "map_option length (RBT.lookup prog (p, gid)) \<noteq> None" using t(3) by (simp add: same_shape_def)
  have v0: "meta_valid (st_db s) p = of_nat (card (flagged ?m p))" "RBT.lookup (st_valid_samples s) p = Some (meta_valid (st_db s) p)"
    using store_okD(1,3)[OF ok] en by (auto simp: tables_ok_def caches_ok_def)
  have mv: "meta_valid (st_db ?s') q = (if q = p then meta_valid (st_db s) p + nv else meta_valid (st_db s) q)" for q
    using v0(2) by (auto simp: count_valid_def commit_fast_def meta_valid_def Let_def word_neq_0_conv[symmetric])
  have vs: "RBT.lookup (st_valid_samples ?s') q =
    (if q = p then Some (meta_valid (st_db s) p + nv) else RBT.lookup (st_valid_samples s) q)" for q
    using v0(2) by (auto simp: count_valid_def commit_fast_def Let_def word_neq_0_conv[symmetric])
  have same: "t_players (st_db ?s') = t_players (st_db s)" "t_cohort (st_db ?s') = t_cohort (st_db s)"
    "t_outsider (st_db ?s') = t_outsider (st_db s)" "t_front (st_db ?s') = t_front (st_db s)"
    "t_player_tl (st_db ?s') = ?tlt" "t_progress (st_db ?s') = prog" "st_durable ?s' = st_durable s"
    "st_players ?s' = st_players s" "st_next_player_id ?s' = st_next_player_id s" "st_cohort ?s' = st_cohort s"
    "st_outsider_seen ?s' = st_outsider_seen s"
    by (simp_all add: count_valid_def commit_fast_def Let_def)
  have "tables_ok home (st_db ?s')"
    using store_okD(1)[OF ok] t(2,4) v0(1) other
    by (auto simp: tables_ok_def same mv add.commute)
  moreover have "caches_ok ?s'"
    using store_okD(3)[OF ok] by (auto simp: caches_ok_def same mv vs)
  ultimately have "store_ok home ?s'" using store_okD(2,4)[OF ok] by (simp add: store_ok_def same)
  with t(1) key show ?thesis by auto
qed

lemma match_txn_ok:
  assumes ok: "store_ok home s" and call: "match_call home rec puuids ts s"
  shows "\<exists>rec' ad s'. match_txn rec puuids ts paused s = Inr (rec', ad, s') \<and> store_ok home s' \<and> quiet s s'
    \<and> platform rec' = platform rec \<and> game_id rec' = game_id rec
    \<and> record_ids rec' \<subseteq> ran (RBT.lookup (t_players (st_db s')))
    \<and> RBT.lookup (t_progress (st_db s')) (platform rec, game_id rec) \<noteq> None"
proof -
  obtain pids s1 where a: "assign_player_ids puuids s = (pids, s1)" by fastforce
  have bound: "unat (st_next_player_id s) + length puuids < 2 ^ 32" using call by (simp add: match_call_def)
  note as = assign_player_ids_ok[OF ok a bound]
  have q1: "quiet s s1" using as(3,4,5,9-13) by (auto simp: quiet_def)
  have t1: "t_player_tl (st_db s1) = t_player_tl (st_db s)" "t_progress (st_db s1) = t_progress (st_db s)" using as(4) by auto
  let ?rec = "rec\<lparr>participants := fill_ids (participants rec) pids\<rparr>"
  have len: "length pids = length puuids" using as(2) by (metis length_map)
  have ids: "record_ids ?rec \<subseteq> ran (RBT.lookup (t_players (st_db s1)))"
  proof -
    have "record_ids ?rec = set pids" using call len by (simp add: record_ids_def match_call_def fill_ids_all)
    moreover have "set pids \<subseteq> ran (RBT.lookup (t_players (st_db s1)))"
      using as(2) by (rule map_Some_set(2))
    ultimately show ?thesis by simp
  qed
  let ?key = "(platform rec, game_id rec)"
  consider (stored) "RBT.lookup (t_progress (st_db s)) ?key \<noteq> None"
    | (remake) "RBT.lookup (t_progress (st_db s)) ?key = None" "duration_s rec < REMAKE_MAX_DURATION_S"
    | (new) "RBT.lookup (t_progress (st_db s)) ?key = None" "\<not> duration_s rec < REMAKE_MAX_DURATION_S" by blast
  then show ?thesis
  proof cases
    case stored
    then have "match_txn rec puuids ts paused s = Inr (?rec, [], s1)" by (simp add: match_txn_def a Let_def)
    then show ?thesis using as(1) q1 ids t1 stored by simp
  next
    case remake
    let ?s' = "commit_fast (\<lambda>t. t\<lparr>t_progress := RBT.insert ?key [] (t_progress t)\<rparr>) s1"
    have "match_txn rec puuids ts paused s = Inr (?rec, [], ?s')" using remake by (simp add: match_txn_def a Let_def)
    moreover have "quiet s ?s'" using q1 by (simp add: quiet_def commit_fast_def)
    moreover have "store_ok home ?s'" using remake_ok[OF as(1)] remake(1) t1(2) by simp
    ultimately show ?thesis using ids by (auto simp: commit_fast_def)
  next
    case new
    obtain s2 ad where f: "fold (adopt_one ts paused) (zip pids puuids) (s1, []) = (s2, ad)" by fastforce
    note ad = adopt_fold_ok[OF as(1) f]
    have "distinct pids"
      using ids_distinct[OF _ as(2)] store_okD(3)[OF as(1)] call by (auto simp: caches_ok_def match_call_def)
    then have "fresh_match home (platform rec) (game_id rec) ts pids (t_player_tl (st_db s2)) (t_progress (st_db s2))"
      using cohort_only_tables[of s1 s2] ad t1 call new(1) len a by (auto simp: fresh_match_def match_call_def)
    from history_step_ok[OF _ this] ad call obtain tlt prog nv where
      h: "track_history (platform rec) (game_id rec) ts pids (t_player_tl (st_db s2)) (t_progress (st_db s2)) = Inr (tlt, prog, nv)"
      "store_ok home (count_valid (platform rec) nv (commit_fast (\<lambda>t. t\<lparr>t_player_tl := tlt, t_progress := prog\<rparr>) s2))"
      "RBT.lookup prog ?key \<noteq> None"
      by (auto simp: match_call_def)
    let ?s' = "count_valid (platform rec) nv (commit_fast (\<lambda>t. t\<lparr>t_player_tl := tlt, t_progress := prog\<rparr>) s2)"
    have e: "match_txn rec puuids ts paused s = Inr (?rec, ad, ?s')" using new h(1) f by (simp add: match_txn_def a Let_def)
    have "quiet s2 (commit_fast (\<lambda>t. t\<lparr>t_player_tl := tlt, t_progress := prog\<rparr>) s2)" by (simp add: quiet_def commit_fast_def)
    then have "quiet s ?s'" using q1 ad cohort_only_quiet quiet_trans count_valid_quiet by meson
    moreover have "t_players (st_db ?s') = t_players (st_db s1)" "t_progress (st_db ?s') = prog"
      using cohort_only_tables[of s1 s2] ad by (simp_all add: count_valid_def commit_fast_def Let_def)
    ultimately show ?thesis using e h(2,3) ids by auto
  qed
qed


lemma roll_writer_ok: "store_ok home s \<Longrightarrow> store_ok home (roll_writer lib today now p s)"
proof -
  assume ok: "store_ok home s"
  note c = durable_checkpoint_ok[OF ok, of now]
  have "store_ok home ((durable_checkpoint now s)\<lparr>st_writers := ws, st_files := fs\<rparr>)" for ws fs
    using c by (rule store_ok_benign) (simp_all add: same_caches_def)
  then show ?thesis using ok by (auto simp: roll_writer_def Let_def split: option.split prod.split)
qed

lemma append_record_ok: "store_ok home s \<Longrightarrow> store_ok home (append_record lib today rec s)"
  by (erule store_ok_benign) (auto simp: append_record_def same_caches_def split: option.split prod.split)

lemma store_match_ok:
  assumes "store_ok home s" "match_call home rec puuids ts s"
  shows "\<exists>rec' ad s'. store_match lib today now rec puuids ts paused s = Inr (rec', ad, s') \<and> store_ok home s'"
  using match_txn_ok[OF assms, of paused]
  by (auto simp: store_match_def Let_def intro!: mark_seen_ok append_record_ok roll_writer_ok)

section \<open>Reopening\<close>

text \<open>The bitmap the code loads for a platform, when it can be decoded.\<close>

definition stored_bitmap :: "store_lib \<Rightarrow> tables \<Rightarrow> string \<Rightarrow> u64 set option" where
  "stored_bitmap lib t p = (case RBT.lookup (t_meta t) (bitmap_key p) of Some bs \<Rightarrow> bitmap_de lib bs | None \<Rightarrow> Some {})"

lemma load_regions_ok:
  assumes "\<forall>r \<in> set rs. stored_bitmap lib t (rg_platform r) \<noteq> None"
  shows "\<exists>seen' valid'. load_regions lib (t_meta t) rs (seen, valid) = Inr (seen', valid')
    \<and> (\<forall>p. RBT.lookup seen' p = (if p \<in> rg_platform ` set rs then stored_bitmap lib t p else RBT.lookup seen p))
    \<and> (\<forall>p. RBT.lookup valid' p = (if p \<in> rg_platform ` set rs then Some (meta_valid t p) else RBT.lookup valid p))"
  using assms
proof (induction rs arbitrary: seen valid)
  case (Cons r rs)
  obtain bm where bm: "stored_bitmap lib t (rg_platform r) = Some bm" using Cons.prems by auto
  let ?seen = "RBT.insert (rg_platform r) bm seen" and ?valid = "RBT.insert (rg_platform r) (meta_valid t (rg_platform r)) valid"
  have step: "load_regions lib (t_meta t) (r # rs) (seen, valid) = load_regions lib (t_meta t) rs (?seen, ?valid)"
    using bm by (simp add: stored_bitmap_def meta_valid_def Let_def)
  from Cons.IH[of ?seen ?valid] Cons.prems obtain seen' valid' where
    "load_regions lib (t_meta t) rs (?seen, ?valid) = Inr (seen', valid')"
    "\<forall>p. RBT.lookup seen' p = (if p \<in> rg_platform ` set rs then stored_bitmap lib t p else RBT.lookup ?seen p)"
    "\<forall>p. RBT.lookup valid' p = (if p \<in> rg_platform ` set rs then Some (meta_valid t p) else RBT.lookup ?valid p)"
    by auto
  then show ?case unfolding step using bm by (intro exI[of _ seen'] exI[of _ valid']) (auto simp del: load_regions.simps)
qed simp

lemma lookup_reload: "RBT.lookup (insert_all (RBT.entries t) RBT.empty) = RBT.lookup t"
proof
  fix k
  have "distinct (map fst (rev (RBT.entries t)))" using RBT.distinct_entries[of t] by (simp flip: rev_map)
  then have "map_of (rev (RBT.entries t)) k = Some v \<longleftrightarrow> RBT.lookup t k = Some v" for v by (simp add: mem_entries)
  then have "map_of (rev (RBT.entries t)) k = RBT.lookup t k" by (metis not_None_eq)
  then show "RBT.lookup (insert_all (RBT.entries t) RBT.empty) k = RBT.lookup t k" by (simp add: lookup_insert_all)
qed

lemma open_store_ok:
  assumes ok: "tables_ok home t" and bm: "\<forall>p. enabled p \<longrightarrow> stored_bitmap lib t p \<noteq> None"
  shows "\<exists>s. open_store lib dir t fs = Inr s \<and> store_ok home s \<and> st_db s = t \<and> st_durable s = t \<and> st_files s = fs
    \<and> st_data_dir s = dir \<and> st_writers s = RBT.empty \<and> st_pending_ranks s = []
    \<and> (\<forall>p. RBT.lookup (st_seen s) p = (if enabled p then stored_bitmap lib t p else None))"
proof -
  have "\<forall>r \<in> set enabled_regions. stored_bitmap lib t (rg_platform r) \<noteq> None" using bm by (auto simp: enabled_def)
  from load_regions_ok[OF this, of RBT.empty RBT.empty] obtain seen valid where
    l: "load_regions lib (t_meta t) enabled_regions (RBT.empty, RBT.empty) = Inr (seen, valid)"
      "\<forall>p. RBT.lookup seen p = (if enabled p then stored_bitmap lib t p else None)"
      "\<forall>p. RBT.lookup valid p = (if enabled p then Some (meta_valid t p) else None)" by (auto simp: enabled_def)
  obtain nxt where n: "ids_ok (RBT.lookup (t_players t)) nxt" using ok by (auto simp: tables_ok_def)
  obtain s where s: "open_store lib dir t fs = Inr s" using l(1) by (simp add: open_store_def)
  have fields: "st_db s = t" "st_durable s = t" "st_files s = fs" "st_data_dir s = dir" "st_writers s = RBT.empty"
    "st_pending_ranks s = []" "st_seen s = seen" "st_valid_samples s = valid"
    "RBT.lookup (st_players s) = RBT.lookup (t_players t)" "st_next_player_id s = nxt"
    "st_cohort s = dom (RBT.lookup (t_cohort t))" "RBT.lookup (st_outsider_seen s) = RBT.lookup (t_outsider t)"
    using s l(1) next_id_after_ok[OF n] by (auto simp: open_store_def lookup_reload RBT.lookup_keys)
  have "store_ok home s" using ok n l(3) by (simp add: store_ok_def caches_ok_def fields)
  then show ?thesis using s fields l(2) by simp
qed

end
