(* ===== verification/Store_Crash.thy ===== *)
theory Store_Crash
  imports Store_Inv
begin

text \<open>
  Crash consistency of the store.  \<open>segs lib s sk arch pend\<close> relates a state to the records in its segment files
  (\<open>arch\<close>, by platform and date) and in its writers' buffers (\<open>pend\<close>): a record on disk references durable player ids only,
  and a match marked as seen is on disk, in a buffer, or was skipped on purpose (\<open>sk\<close>).
\<close>

section \<open>Paths\<close>

definition ok_date :: "string \<Rightarrow> bool" where
  "ok_date d \<longleftrightarrow> CHR ''/'' \<notin> set d"

definition seg_file :: "store \<Rightarrow> string \<Rightarrow> string \<Rightarrow> string" where
  "seg_file s p date = seg_path (match_dir p s) date"

lemma split_at_slash:
  assumes "p @ CHR ''/'' # d = p' @ CHR ''/'' # d'" "ok_date d" "ok_date d'"
  shows "p = p' \<and> d = d'"
proof -
  have tw: "takeWhile (\<lambda>c. c \<noteq> CHR ''/'') (rev (p @ CHR ''/'' # d)) = rev d" if "ok_date d" for p d
    using that by (simp add: ok_date_def, subst takeWhile_append2) auto
  have "d = d'" using tw[OF assms(2), of p] tw[OF assms(3), of p'] assms(1) by simp
  with assms(1) show ?thesis by simp
qed

lemma seg_file_eq:
  assumes "ok_date d" "ok_date d'"
  shows "seg_file s p d = seg_file s p' d' \<longleftrightarrow> p = p' \<and> d = d'"
proof -
  have "seg_file s p d = seg_file s p' d' \<longleftrightarrow> p @ CHR ''/'' # d = p' @ CHR ''/'' # d'"
    using append_same_eq[of "p @ CHR ''/'' # d" "''.seg''" "p' @ CHR ''/'' # d'"]
    by (simp add: seg_file_def seg_path_def match_dir_def)
  then show ?thesis using split_at_slash[OF _ assms, of p p'] by auto
qed

lemma seg_idx_paths [simp]: "idx_path dir date \<noteq> seg_path dir' date'" "seg_path dir' date' \<noteq> idx_path dir date"
proof -
  have "last (idx_path dir date) \<noteq> last (seg_path dir' date')" by (simp add: idx_path_def seg_path_def)
  then show "idx_path dir date \<noteq> seg_path dir' date'" "seg_path dir' date' \<noteq> idx_path dir date" by metis+
qed

section \<open>The relation between a state and its records\<close>

type_synonym archive = "string \<Rightarrow> string \<Rightarrow> match_record list"
type_synonym buffers = "string \<Rightarrow> match_record list"

definition on_disk :: "archive \<Rightarrow> string \<Rightarrow> u64 \<Rightarrow> bool" where
  "on_disk arch p g \<longleftrightarrow> (\<exists>date. ok_date date \<and> g \<in> game_id ` set (arch p date))"

definition files_hold :: "seg_codec \<Rightarrow> store \<Rightarrow> archive \<Rightarrow> bool" where
  "files_hold c s arch \<longleftrightarrow>
     (\<forall>p date. ok_date date \<longrightarrow> intact c (contents (st_files s) (seg_file s p date)) 0 (map (pencode c) (arch p date)))"

definition writers_hold :: "seg_codec \<Rightarrow> store \<Rightarrow> buffers \<Rightarrow> bool" where
  "writers_hold c s pend \<longleftrightarrow>
     (\<forall>p. case RBT.lookup (st_writers s) p of
        None \<Rightarrow> pend p = []
      | Some w \<Rightarrow> sw_dir w = match_dir p s \<and> ok_date (sw_date w) \<and> sw_holds c w (pend p))"

definition ids_durable :: "store \<Rightarrow> archive \<Rightarrow> buffers \<Rightarrow> bool" where
  "ids_durable s arch pend \<longleftrightarrow>
     (\<forall>p date. \<forall>r \<in> set (arch p date). record_ids r \<subseteq> ran (RBT.lookup (t_players (st_durable s))))
     \<and> (\<forall>p. \<forall>r \<in> set (pend p). record_ids r \<subseteq> ran (RBT.lookup (t_players (st_db s))))"

definition bitmap_backed :: "store_lib \<Rightarrow> (string \<times> u64) set \<Rightarrow> archive \<Rightarrow> tables \<Rightarrow> bool" where
  "bitmap_backed lib sk arch t \<longleftrightarrow>
     (\<forall>p. \<exists>bm. stored_bitmap lib t p = Some bm \<and> (\<forall>g \<in> bm. (p, g) \<in> sk \<or> on_disk arch p g))"

definition seen_backed :: "store \<Rightarrow> (string \<times> u64) set \<Rightarrow> archive \<Rightarrow> buffers \<Rightarrow> bool" where
  "seen_backed s sk arch pend \<longleftrightarrow>
     (\<forall>p g. is_seen p g s \<longrightarrow> (p, g) \<in> sk \<or> on_disk arch p g \<or> g \<in> game_id ` set (pend p))"

definition segs :: "store_lib \<Rightarrow> store \<Rightarrow> (string \<times> u64) set \<Rightarrow> archive \<Rightarrow> buffers \<Rightarrow> bool" where
  "segs lib s sk arch pend \<longleftrightarrow>
     files_hold (lib_seg lib) s arch \<and> writers_hold (lib_seg lib) s pend \<and> ids_durable s arch pend
     \<and> bitmap_backed lib sk arch (st_db s) \<and> bitmap_backed lib sk arch (st_durable s) \<and> seen_backed s sk arch pend"

lemmas segs_defs = segs_def files_hold_def writers_hold_def ids_durable_def bitmap_backed_def seen_backed_def

lemma seg_file_cong: "st_data_dir s' = st_data_dir s \<Longrightarrow> seg_file s' = seg_file s" "st_data_dir s' = st_data_dir s \<Longrightarrow> match_dir p s' = match_dir p s"
  by (simp_all add: seg_file_def match_dir_def fun_eq_iff)

lemma paths_upd [simp]:
  "match_dir p (s\<lparr>st_writers := ws\<rparr>) = match_dir p s" "match_dir p (s\<lparr>st_files := fs\<rparr>) = match_dir p s"
  "seg_file (s\<lparr>st_writers := ws\<rparr>) = seg_file s" "seg_file (s\<lparr>st_files := fs\<rparr>) = seg_file s"
  by (simp_all add: match_dir_def seg_file_def fun_eq_iff)

lemma ran_le: "m \<subseteq>\<^sub>m m' \<Longrightarrow> ran m \<subseteq> ran m'"
  by (force simp: map_le_def ran_def dom_def)

lemma writers_holdD:
  assumes "writers_hold c s pend" "RBT.lookup (st_writers s) p = Some w"
  shows "sw_dir w = match_dir p s" "ok_date (sw_date w)" "sw_holds c w (pend p)"
proof -
  have "case RBT.lookup (st_writers s) p of None \<Rightarrow> pend p = []
      | Some w \<Rightarrow> sw_dir w = match_dir p s \<and> ok_date (sw_date w) \<and> sw_holds c w (pend p)"
    using assms(1) unfolding writers_hold_def by (rule spec)
  then show "sw_dir w = match_dir p s" "ok_date (sw_date w)" "sw_holds c w (pend p)" using assms(2) by simp_all
qed

lemma writers_hold_none:
  assumes "writers_hold c s pend" "RBT.lookup (st_writers s) p = None"
  shows "pend p = []"
proof -
  have "case RBT.lookup (st_writers s) p of None \<Rightarrow> pend p = []
      | Some w \<Rightarrow> sw_dir w = match_dir p s \<and> ok_date (sw_date w) \<and> sw_holds c w (pend p)"
    using assms(1) unfolding writers_hold_def by (rule spec)
  then show ?thesis using assms(2) by simp
qed

lemma writers_hold_upd:
  assumes h: "writers_hold c s pend" and dir: "st_data_dir s' = st_data_dir s"
    and ws: "st_writers s' = RBT.insert p w' (st_writers s)"
    and w': "sw_dir w' = match_dir p s" "ok_date (sw_date w')" "sw_holds c w' rs"
  shows "writers_hold c s' (pend(p := rs))"
  unfolding writers_hold_def
proof
  fix q
  show "case RBT.lookup (st_writers s') q of None \<Rightarrow> (pend(p := rs)) q = []
      | Some w \<Rightarrow> sw_dir w = match_dir q s' \<and> ok_date (sw_date w) \<and> sw_holds c w ((pend(p := rs)) q)"
  proof (cases "q = p")
    case True
    then show ?thesis using w' by (simp add: ws seg_file_cong(2)[OF dir])
  next
    case False
    then show ?thesis using spec[OF h[unfolded writers_hold_def], of q]
      by (simp add: ws seg_file_cong(2)[OF dir] cong: option.case_cong)
  qed
qed

text \<open>Transactions on the visible tables.\<close>

lemma segs_quiet:
  assumes q: "quiet s s'" and g: "segs lib s sk arch pend"
  shows "segs lib s' sk arch pend"
proof -
  have sb: "stored_bitmap lib (st_db s') = stored_bitmap lib (st_db s)" using q by (simp add: quiet_def stored_bitmap_def fun_eq_iff)
  have r: "ran (RBT.lookup (t_players (st_db s))) \<subseteq> ran (RBT.lookup (t_players (st_db s')))"
    using q by (intro ran_le) (simp add: quiet_def)
  have same: "st_files s' = st_files s" "st_writers s' = st_writers s" "st_durable s' = st_durable s" "st_seen s' = st_seen s"
    "st_data_dir s' = st_data_dir s" using q by (simp_all add: quiet_def)
  have "ids_durable s' arch pend" using g r unfolding segs_def ids_durable_def same(3) by blast
  then show ?thesis
    using g by (simp add: segs_def files_hold_def writers_hold_def seen_backed_def bitmap_backed_def is_seen_def sb same
        seg_file_cong[OF same(5)] cong: option.case_cong)
qed

text \<open>Durable commits that leave players and bitmaps alone.\<close>

lemma segs_durable:
  assumes g: "segs lib s sk arch pend" and le: "RBT.lookup (t_players (st_durable s)) \<subseteq>\<^sub>m RBT.lookup (t_players (st_db s))"
    and s': "st_durable s' = st_db s'" "t_players (st_db s') = t_players (st_db s)"
      "\<And>p. RBT.lookup (t_meta (st_db s')) (bitmap_key p) = RBT.lookup (t_meta (st_db s)) (bitmap_key p)"
    and same: "st_files s' = st_files s" "st_writers s' = st_writers s" "st_seen s' = st_seen s" "st_data_dir s' = st_data_dir s"
  shows "segs lib s' sk arch pend"
proof -
  have sb: "stored_bitmap lib (st_db s') = stored_bitmap lib (st_db s)" using s'(3) by (simp add: stored_bitmap_def fun_eq_iff)
  have "ids_durable s' arch pend" using g ran_le[OF le] unfolding segs_def ids_durable_def s'(1,2) by blast
  then show ?thesis
    using g by (simp add: segs_def files_hold_def writers_hold_def seen_backed_def bitmap_backed_def is_seen_def sb s'(1) same
        seg_file_cong[OF same(4)] cong: option.case_cong)
qed

lemma segs_checkpoint:
  assumes "segs lib s sk arch pend" "store_ok home s"
  shows "segs lib (durable_checkpoint now s) sk arch pend"
  by (rule segs_durable[OF assms(1) store_okD(4)[OF assms(2)]]) (simp_all add: durable_checkpoint_def commit_durable_def)

lemma segs_node_add:
  assumes "segs lib s sk arch pend" "store_ok home s"
  shows "segs lib (snd (node_add name tok now s)) sk arch pend"
  by (rule segs_durable[OF assms(1) store_okD(4)[OF assms(2)]]) (simp_all add: node_add_def commit_durable_def Let_def)

lemma is_seen_mark: "is_seen q h (mark_seen p g s) \<longleftrightarrow> q = p \<and> h = g \<or> is_seen q h s"
  by (auto simp: is_seen_def mark_seen_def split: option.splits)

lemma mark_seen_fields [simp]:
  "st_db (mark_seen p g s) = st_db s" "st_durable (mark_seen p g s) = st_durable s" "st_files (mark_seen p g s) = st_files s"
  "st_writers (mark_seen p g s) = st_writers s" "st_data_dir (mark_seen p g s) = st_data_dir s"
  "match_dir q (mark_seen p g s) = match_dir q s" "seg_file (mark_seen p g s) = seg_file s"
  by (simp_all add: mark_seen_def match_dir_def seg_file_def fun_eq_iff)

lemma bitmap_backed_mono:
  assumes "bitmap_backed lib sk arch t" "sk \<subseteq> sk'" "\<And>p g. on_disk arch p g \<Longrightarrow> on_disk arch' p g"
  shows "bitmap_backed lib sk' arch' t"
  using assms unfolding bitmap_backed_def by blast

lemma segs_mark:
  assumes g: "segs lib s sk arch pend" and why: "(p, gid) \<in> sk' \<or> gid \<in> game_id ` set (pend p)" and sk: "sk \<subseteq> sk'"
  shows "segs lib (mark_seen p gid s) sk' arch pend"
proof -
  have "seen_backed (mark_seen p gid s) sk' arch pend"
    using g why sk unfolding segs_def seen_backed_def is_seen_mark by blast
  moreover have "bitmap_backed lib sk' arch t" if "bitmap_backed lib sk arch t" for t
    using that sk by (rule bitmap_backed_mono)
  ultimately show ?thesis using g
    by (simp add: segs_def files_hold_def writers_hold_def ids_durable_def cong: option.case_cong)
qed

section \<open>Flushing\<close>

definition fits_file :: "seg_codec \<Rightarrow> fsys \<Rightarrow> segment_writer \<Rightarrow> bool" where
  "fits_file c fs w \<longleftrightarrow> (sw_pending w \<noteq> [] \<longrightarrow> block_fits c (sw_buf w)
     \<and> length (contents fs (seg_path (sw_dir w) (sw_date w))) + length (container c SEG_MAGIC (sw_buf w)) < 2 ^ 64)"

lemma flush_contents:
  assumes "sw_flush c (w, fs) = (w', fs')"
  shows "seg_path d t \<noteq> seg_path (sw_dir w) (sw_date w) \<Longrightarrow> contents fs' (seg_path d t) = contents fs (seg_path d t)"
    and "sw_dir w' = sw_dir w" "sw_date w' = sw_date w"
  using assms by (auto simp: sw_flush_def Let_def split: if_splits)

lemma flush_holds:
  assumes f: "sw_flush c (w, fs) = (w', fs')" and h: "sw_holds c w rs" and fit: "fits_file c fs w"
    and old: "intact c (contents fs (seg_path (sw_dir w) (sw_date w))) 0 old"
  shows "intact c (contents fs' (seg_path (sw_dir w) (sw_date w))) 0 (old @ map (pencode c) rs)" "sw_holds c w' []"
proof -
  show "sw_holds c w' []" "intact c (contents fs' (seg_path (sw_dir w) (sw_date w))) 0 (old @ map (pencode c) rs)"
  proof (atomize (full), cases "sw_pending w = []")
    case True
    then have "rs = []" using h by (cases rs) (simp_all add: sw_holds_def)
    then show "sw_holds c w' [] \<and> intact c (contents fs' (seg_path (sw_dir w) (sw_date w))) 0 (old @ map (pencode c) rs)"
      using True f h old by (simp add: sw_flush_def)
  next
    case False
    note fl = sw_flush_files[OF False f]
    have "sw_buf w = row_bytes (map (pencode c) rs)" using h by (simp add: sw_holds_def)
    then show "sw_holds c w' [] \<and> intact c (contents fs' (seg_path (sw_dir w) (sw_date w))) 0 (old @ map (pencode c) rs)"
      using append_rows_intact[OF old] fit False fl(1,3) by (simp add: fits_file_def)
  qed
qed

text \<open>Moving the buffer of one platform to its file.\<close>

definition moved :: "string \<Rightarrow> string \<Rightarrow> buffers \<Rightarrow> archive \<Rightarrow> archive" where
  "moved p date pend arch = arch(p := (arch p)(date := arch p date @ pend p))"

lemma on_disk_moved: "ok_date d \<Longrightarrow> on_disk (moved p d pend arch) q g \<longleftrightarrow> on_disk arch q g \<or> q = p \<and> g \<in> game_id ` set (pend p)"
  by (auto simp: on_disk_def moved_def)

lemma segs_flush_one:
  assumes g: "segs lib s sk arch pend" and w: "RBT.lookup (st_writers s) p = Some w"
    and f: "sw_flush (lib_seg lib) (w, st_files s) = (w', fs')" and fit: "fits_file (lib_seg lib) (st_files s) w"
    and dur: "RBT.lookup (t_players (st_db s)) \<subseteq>\<^sub>m RBT.lookup (t_players (st_durable s))"
  shows "segs lib (s\<lparr>st_writers := RBT.insert p w' (st_writers s), st_files := fs'\<rparr>) sk
    (moved p (sw_date w) pend arch) (pend(p := []))"
proof -
  let ?c = "lib_seg lib" and ?s' = "s\<lparr>st_writers := RBT.insert p w' (st_writers s), st_files := fs'\<rparr>"
  have wp: "sw_dir w = match_dir p s" "ok_date (sw_date w)" "sw_holds ?c w (pend p)"
    using writers_holdD[OF _ w] g by (auto simp: segs_def)
  have own: "seg_path (sw_dir w) (sw_date w) = seg_file s p (sw_date w)" using wp(1) by (simp add: seg_file_def)
  have old: "intact ?c (contents (st_files s) (seg_path (sw_dir w) (sw_date w))) 0 (map (pencode ?c) (arch p (sw_date w)))"
    using g wp(2) unfolding segs_def files_hold_def own by blast
  note fl = flush_holds[OF f wp(3) fit old] and fc = flush_contents[OF f]
  have "files_hold ?c ?s' (moved p (sw_date w) pend arch)"
    unfolding files_hold_def
  proof (intro allI impI)
    fix q date assume d: "ok_date date"
    have p': "seg_file ?s' q date = seg_file s q date" by (simp add: seg_file_def match_dir_def)
    show "intact ?c (contents (st_files ?s') (seg_file ?s' q date)) 0 (map (pencode ?c) (moved p (sw_date w) pend arch q date))"
    proof (cases "q = p \<and> date = sw_date w")
      case True
      then show ?thesis using fl(1)[unfolded own] unfolding p' by (simp add: moved_def)
    next
      case False
      then have "seg_file s q date \<noteq> seg_path (sw_dir w) (sw_date w)" using seg_file_eq[OF d wp(2)] by (auto simp: own)
      then have "contents fs' (seg_file s q date) = contents (st_files s) (seg_file s q date)"
        using fc(1)[of "match_dir q s" date] by (simp add: seg_file_def)
      then show ?thesis using g d False unfolding segs_def files_hold_def p' by (auto simp: moved_def)
    qed
  qed
  moreover have "writers_hold ?c ?s' (pend(p := []))"
    by (rule writers_hold_upd[of _ s]) (use g wp fl(2) fc(2,3) in \<open>simp_all add: segs_def\<close>)
  moreover have "ids_durable ?s' (moved p (sw_date w) pend arch) (pend(p := []))"
    using g ran_le[OF dur] unfolding segs_def ids_durable_def by (auto simp: moved_def) blast+
  moreover have "seen_backed ?s' sk (moved p (sw_date w) pend arch) (pend(p := []))"
    using g unfolding segs_def seen_backed_def on_disk_moved[OF wp(2)] by (auto simp: is_seen_def)
  moreover have "bitmap_backed lib sk (moved p (sw_date w) pend arch) t" if "bitmap_backed lib sk arch t" for t
    using that by (rule bitmap_backed_mono) (simp_all add: on_disk_moved[OF wp(2)])
  ultimately show ?thesis using g by (simp add: segs_def)
qed


definition flushable :: "store_lib \<Rightarrow> store \<Rightarrow> bool" where
  "flushable lib s \<longleftrightarrow> (\<forall>p w. RBT.lookup (st_writers s) p = Some w \<longrightarrow> fits_file (lib_seg lib) (st_files s) w)"

definition flush_step :: "store_lib \<Rightarrow> string \<times> segment_writer \<Rightarrow> store \<Rightarrow> store" where
  "flush_step lib = (\<lambda>(p, w) s. case sw_flush (lib_seg lib) (w, st_files s) of
     (w, fs) \<Rightarrow> s\<lparr>st_writers := RBT.insert p w (st_writers s), st_files := fs\<rparr>)"

lemma flush_writers_step: "flush_writers lib s = fold (flush_step lib) (RBT.entries (st_writers s)) s"
  by (simp add: flush_writers_def flush_step_def)

lemma flush_step_frame:
  assumes "writers_hold c s pend" "c = lib_seg lib" "RBT.lookup (st_writers s) p = Some w" "RBT.lookup (st_writers s) q = Some v" "q \<noteq> p"
  shows "RBT.lookup (st_writers (flush_step lib (p, w) s)) q = Some v"
    and "fits_file c (st_files s) v \<Longrightarrow> fits_file c (st_files (flush_step lib (p, w) s)) v"
proof -
  obtain w' fs' where f: "sw_flush (lib_seg lib) (w, st_files s) = (w', fs')" by fastforce
  note hw = writers_holdD[OF assms(1,3)] and hv = writers_holdD[OF assms(1,4)]
  have "seg_path (sw_dir v) (sw_date v) \<noteq> seg_path (sw_dir w) (sw_date w)"
    using seg_file_eq[OF hv(2) hw(2), of s q p] assms(5) by (simp add: hv(1) hw(1) seg_file_def)
  then have "contents fs' (seg_path (sw_dir v) (sw_date v)) = contents (st_files s) (seg_path (sw_dir v) (sw_date v))"
    by (rule flush_contents(1)[OF f])
  then show "fits_file c (st_files s) v \<Longrightarrow> fits_file c (st_files (flush_step lib (p, w) s)) v"
    by (simp add: fits_file_def flush_step_def f)
  show "RBT.lookup (st_writers (flush_step lib (p, w) s)) q = Some v" using assms(4,5) by (simp add: flush_step_def f)
qed

lemma segs_flush_fold:
  assumes "segs lib s sk arch pend" "distinct (map fst ws)"
    and "\<forall>(p, w) \<in> set ws. RBT.lookup (st_writers s) p = Some w \<and> fits_file (lib_seg lib) (st_files s) w"
    and "RBT.lookup (t_players (st_db s)) \<subseteq>\<^sub>m RBT.lookup (t_players (st_durable s))"
  shows "\<exists>arch'. segs lib (fold (flush_step lib) ws s) sk arch' (\<lambda>p. if p \<in> fst ` set ws then [] else pend p)"
  using assms
proof (induction ws arbitrary: s arch pend)
  case (Cons x ws)
  obtain p w where x: "x = (p, w)" by fastforce
  obtain w' fs' where f: "sw_flush (lib_seg lib) (w, st_files s) = (w', fs')" by fastforce
  let ?s' = "flush_step lib (p, w) s"
  have pw: "RBT.lookup (st_writers s) p = Some w" "fits_file (lib_seg lib) (st_files s) w" using Cons.prems(3) x by auto
  have s': "?s' = s\<lparr>st_writers := RBT.insert p w' (st_writers s), st_files := fs'\<rparr>" by (simp add: flush_step_def f)
  have g: "segs lib ?s' sk (moved p (sw_date w) pend arch) (pend(p := []))"
    unfolding s' by (rule segs_flush_one[OF Cons.prems(1) pw(1) f pw(2) Cons.prems(4)])
  have wh: "writers_hold (lib_seg lib) s pend" using Cons.prems(1) by (simp add: segs_def)
  have rest: "\<forall>(q, v) \<in> set ws. RBT.lookup (st_writers ?s') q = Some v \<and> fits_file (lib_seg lib) (st_files ?s') v"
  proof clarify
    fix q v assume qv: "(q, v) \<in> set ws"
    then have "q \<noteq> p" "RBT.lookup (st_writers s) q = Some v" "fits_file (lib_seg lib) (st_files s) v"
      using Cons.prems(2,3) x by force+
    then show "RBT.lookup (st_writers ?s') q = Some v \<and> fits_file (lib_seg lib) (st_files ?s') v"
      using flush_step_frame[OF wh refl pw(1)] by blast
  qed
  have dur: "RBT.lookup (t_players (st_db ?s')) \<subseteq>\<^sub>m RBT.lookup (t_players (st_durable ?s'))" using Cons.prems(4) by (simp add: s')
  obtain arch' where "segs lib (fold (flush_step lib) ws ?s') sk arch' (\<lambda>q. if q \<in> fst ` set ws then [] else (pend(p := [])) q)"
    using Cons.IH[OF g _ rest dur] Cons.prems(2) by auto
  moreover have "(\<lambda>q. if q \<in> fst ` set ws then [] else (pend(p := [])) q) = (\<lambda>q. if q \<in> fst ` set (x # ws) then [] else pend q)"
    by (auto simp: x fun_eq_iff)
  ultimately show ?case by (auto simp: x)
qed (auto simp: fun_eq_iff)

lemma segs_flush_writers:
  assumes g: "segs lib s sk arch pend" and "flushable lib s"
    and dur: "RBT.lookup (t_players (st_db s)) \<subseteq>\<^sub>m RBT.lookup (t_players (st_durable s))"
  shows "\<exists>arch'. segs lib (flush_writers lib s) sk arch' (\<lambda>_. [])"
proof -
  have "\<forall>(p, w) \<in> set (RBT.entries (st_writers s)). RBT.lookup (st_writers s) p = Some w \<and> fits_file (lib_seg lib) (st_files s) w"
    using assms(2) by (auto simp: mem_entries flushable_def)
  from segs_flush_fold[OF g RBT.distinct_entries this dur] obtain arch' where
    a: "segs lib (flush_writers lib s) sk arch' (\<lambda>p. if p \<in> fst ` set (RBT.entries (st_writers s)) then [] else pend p)"
    unfolding flush_writers_step by blast
  moreover have "pend p = []" if "p \<notin> fst ` set (RBT.entries (st_writers s))" for p
  proof -
    have "RBT.lookup (st_writers s) p = None"
    proof (cases "RBT.lookup (st_writers s) p")
      case (Some w)
      then have "fst (p, w) \<in> fst ` set (RBT.entries (st_writers s))" by (intro imageI) (simp add: mem_entries)
      with that show ?thesis by simp
    qed
    then show ?thesis using g by (auto simp: segs_def intro: writers_hold_none)
  qed
  then have "(\<lambda>p. if p \<in> fst ` set (RBT.entries (st_writers s)) then [] else pend p) = (\<lambda>_. [])" by (auto simp: fun_eq_iff)
  ultimately show ?thesis by auto
qed


section \<open>Opening files, rolling over and appending\<close>

lemma open_files_contents:
  assumes "intact c (contents fs (seg_path dir date)) 0 rs"
  shows "contents (open_files dir date fs) (seg_path d t) = contents fs (seg_path d t)"
proof -
  have "validate_segment (contents fs (seg_path dir date)) = length (contents fs (seg_path dir date))"
    using intact_validate[OF assms, of "[]"] by (simp add: validate_segment_def validate_loop.simps[of _ "length _"] BLOCK_HEADER_LEN_def)
  then show ?thesis by (auto simp: open_files_def Let_def contents_def append_file_def split: option.splits)
qed

lemma files_hold_reopen:
  assumes "files_hold c s arch" "ok_date today" "st_files s' = open_files (match_dir p s) today (st_files s)" "st_data_dir s' = st_data_dir s"
  shows "files_hold c s' arch"
proof -
  have "intact c (contents (st_files s) (seg_path (match_dir p s) today)) 0 (map (pencode c) (arch p today))"
    using assms(1,2) by (simp add: files_hold_def seg_file_def)
  from open_files_contents[OF this] show ?thesis
    using assms(1) by (simp add: files_hold_def seg_file_def assms(3) seg_file_cong(2)[OF assms(4)])
qed

text \<open>Only the writer of one platform and the files change.\<close>

lemma segs_rewriter:
  assumes g: "segs lib s sk arch pend" and s': "s' = s\<lparr>st_writers := RBT.insert p w' (st_writers s), st_files := fs'\<rparr>"
    and w': "sw_dir w' = match_dir p s" "ok_date (sw_date w')" "sw_holds (lib_seg lib) w' rs"
    and f: "files_hold (lib_seg lib) s' arch" and rs: "set (pend p) \<subseteq> set rs"
    and ids: "\<forall>r \<in> set rs. record_ids r \<subseteq> ran (RBT.lookup (t_players (st_db s)))"
  shows "segs lib s' sk arch (pend(p := rs))"
proof -
  have "writers_hold (lib_seg lib) s' (pend(p := rs))"
    by (rule writers_hold_upd[of _ s]) (use g w' in \<open>simp_all add: segs_def s'\<close>)
  moreover have "ids_durable s' arch (pend(p := rs))" using g ids by (auto simp: segs_def ids_durable_def s')
  moreover have "seen_backed s' sk arch (pend(p := rs))"
    using g rs unfolding segs_def seen_backed_def s' is_seen_def by (fastforce split: option.splits)
  ultimately show ?thesis using g f by (simp add: segs_def s')
qed

lemma segs_writers_cong:
  assumes "segs lib s sk arch pend" "RBT.lookup ws = RBT.lookup (st_writers s)"
  shows "segs lib (s\<lparr>st_writers := ws\<rparr>) sk arch pend"
  using assms by (simp add: segs_defs is_seen_def cong: option.case_cong)

lemma files_writers_upd: "s\<lparr>st_files := fs, st_writers := ws\<rparr> = s\<lparr>st_writers := ws, st_files := fs\<rparr>"
  by (cases s) simp

lemma segs_roll:
  assumes g: "segs lib s sk arch pend" and ok: "store_ok home s" and today: "ok_date today"
    and fit: "\<And>w. RBT.lookup (st_writers s) p = Some w \<Longrightarrow> fits_file (lib_seg lib) (st_files s) w"
  shows "\<exists>arch' pend'. segs lib (roll_writer lib today now p s) sk arch' pend'"
proof (cases "RBT.lookup (st_writers s) p")
  case None
  then show ?thesis using g by (auto simp: roll_writer_def)
next
  case (Some w)
  show ?thesis
  proof (cases "needs_roll today w")
    case False
    then show ?thesis using g Some by (auto simp: roll_writer_def)
  next
    case True
    let ?s1 = "durable_checkpoint now s"
    have same: "st_writers ?s1 = st_writers s" "st_files ?s1 = st_files s" "st_data_dir ?s1 = st_data_dir s"
      "st_durable ?s1 = st_db ?s1" by (simp_all add: durable_checkpoint_def commit_durable_def)
    have g1: "segs lib ?s1 sk arch pend" by (rule segs_checkpoint[OF g ok])
    obtain w' fs' where f: "sw_flush (lib_seg lib) (w, st_files ?s1) = (w', fs')" by fastforce
    have w: "RBT.lookup (st_writers ?s1) p = Some w" "fits_file (lib_seg lib) (st_files ?s1) w" using Some fit by (simp_all add: same)
    let ?s2 = "?s1\<lparr>st_writers := RBT.insert p w' (st_writers ?s1), st_files := fs'\<rparr>"
    have g2: "segs lib ?s2 sk (moved p (sw_date w) pend arch) (pend(p := []))"
      by (rule segs_flush_one[OF g1 w(1) f w(2)]) (simp add: same)
    have l2: "RBT.lookup (st_writers ?s2) p = Some w'" by simp
    note h2 = writers_holdD[OF _ l2, of "lib_seg lib" "pend(p := [])"]
    let ?w = "w'\<lparr>sw_date := today\<rparr>" and ?fs = "open_files (sw_dir w') today fs'"
    let ?s3 = "?s2\<lparr>st_writers := RBT.insert p ?w (st_writers ?s2), st_files := ?fs\<rparr>"
    have wh: "sw_dir w' = match_dir p ?s2" "sw_holds (lib_seg lib) w' []" using h2(1,3) g2 by (simp_all add: segs_def)
    have "files_hold (lib_seg lib) ?s3 (moved p (sw_date w) pend arch)"
      by (rule files_hold_reopen[of _ ?s2 _ today _ p]) (use g2 today wh(1) in \<open>simp_all add: segs_def\<close>)
    then have "segs lib ?s3 sk (moved p (sw_date w) pend arch) ((pend(p := []))(p := []))"
      by (intro segs_rewriter[OF g2 refl]) (use wh today in \<open>simp_all add: sw_holds_def\<close>)
    from segs_writers_cong[OF this, of "RBT.insert p ?w (st_writers ?s1)"]
    have "segs lib (?s1\<lparr>st_writers := RBT.insert p ?w (st_writers ?s1), st_files := ?fs\<rparr>) sk (moved p (sw_date w) pend arch) (pend(p := []))"
      by (simp add: files_writers_upd)
    moreover have "roll_writer lib today now p s = ?s1\<lparr>st_writers := RBT.insert p ?w (st_writers ?s1), st_files := ?fs\<rparr>"
      using Some True f by (simp add: roll_writer_def roll_over_def Let_def)
    ultimately show ?thesis by auto
  qed
qed


lemma sw_append_same [simp]: "sw_dir (sw_append c r w) = sw_dir w" "sw_date (sw_append c r w) = sw_date w"
  by (simp_all add: sw_append_def Let_def)

lemma segs_append:
  assumes g: "segs lib s sk arch pend" and today: "ok_date today"
    and ids: "record_ids rec \<subseteq> ran (RBT.lookup (t_players (st_db s)))"
  shows "segs lib (append_record lib today rec s) sk arch (pend(platform rec := pend (platform rec) @ [rec]))"
proof -
  let ?p = "platform rec" and ?c = "lib_seg lib"
  have pid: "\<forall>r \<in> set (pend ?p @ [rec]). record_ids r \<subseteq> ran (RBT.lookup (t_players (st_db s)))"
    using g ids by (auto simp: segs_def ids_durable_def)
  have h: "writers_hold ?c s pend" "files_hold ?c s arch" using g by (simp_all add: segs_def)
  show ?thesis
  proof (cases "RBT.lookup (st_writers s) ?p")
    case (Some w)
    note hw = writers_holdD[OF h(1) Some]
    have e: "append_record lib today rec s = s\<lparr>st_writers := RBT.insert ?p (sw_append ?c rec w) (st_writers s), st_files := st_files s\<rparr>"
      using Some by (simp add: append_record_def)
    show ?thesis
      unfolding e using hw h(2) pid
      by (intro segs_rewriter[OF g refl]) (simp_all add: sw_append_holds files_hold_def subset_insertI)
  next
    case None
    let ?w = "\<lparr>sw_dir = match_dir ?p s, sw_date = today, sw_buf = [], sw_pending = []\<rparr>"
    let ?fs = "open_files (match_dir ?p s) today (st_files s)"
    let ?s' = "s\<lparr>st_writers := RBT.insert ?p (sw_append ?c rec ?w) (st_writers s), st_files := ?fs\<rparr>"
    have e: "append_record lib today rec s = ?s'" using None by (simp add: append_record_def sw_open_def)
    have p: "pend ?p = []" by (rule writers_hold_none[OF h(1) None])
    have "sw_holds ?c ?w []" by (simp add: sw_holds_def row_bytes_def)
    from sw_append_holds[OF this, of rec] have "sw_holds ?c (sw_append ?c rec ?w) (pend ?p @ [rec])" by (simp add: p)
    moreover have "files_hold ?c ?s' arch" by (rule files_hold_reopen[OF h(2) today]) simp_all
    ultimately show ?thesis
      unfolding e using pid today by (intro segs_rewriter[OF g refl]) (simp_all add: subset_insertI)
  qed
qed

section \<open>Bitmaps and reopening\<close>

definition lib_ok :: "store_lib \<Rightarrow> bool" where
  "lib_ok lib \<longleftrightarrow> (\<forall>bm. bitmap_de lib (bitmap_ser lib bm) = Some bm)"

lemma bitmaps_lookup:
  "RBT.lookup (insert_all (map (\<lambda>(p, bm). (bitmap_key p, bitmap_ser lib bm)) (RBT.entries seen)) meta) (bitmap_key p) =
    (case RBT.lookup seen p of Some bm \<Rightarrow> Some (bitmap_ser lib bm) | None \<Rightarrow> RBT.lookup meta (bitmap_key p))"
proof -
  let ?kvs = "map (\<lambda>(p, bm). (bitmap_key p, bitmap_ser lib bm)) (RBT.entries seen)"
  have "map fst ?kvs = map bitmap_key (map fst (RBT.entries seen))" by (simp add: split_beta)
  then have "distinct (map fst (rev ?kvs))"
    using RBT.distinct_entries[of seen] by (simp add: distinct_map inj_on_def flip: rev_map)
  then have m: "map_of (rev ?kvs) (bitmap_key p) = Some v \<longleftrightarrow> (\<exists>bm. RBT.lookup seen p = Some bm \<and> v = bitmap_ser lib bm)" for v
    by (auto simp: mem_entries)
  show ?thesis
  proof (cases "RBT.lookup seen p")
    case None
    then have "map_of (rev ?kvs) (bitmap_key p) = None" using m by (metis not_None_eq option.distinct(1))
    then show ?thesis using None by (simp add: lookup_insert_all map_add_def)
  next
    case (Some bm)
    then show ?thesis using m[of "bitmap_ser lib bm"] by (simp add: lookup_insert_all map_add_def)
  qed
qed

lemma segs_bitmaps:
  assumes g: "segs lib s sk arch (\<lambda>_. [])" and ok: "store_ok home s" and lib: "lib_ok lib"
  shows "segs lib (commit_bitmaps lib s) sk arch (\<lambda>_. [])"
proof -
  let ?s' = "commit_bitmaps lib s"
  have sb: "stored_bitmap lib (st_db ?s') p = (case RBT.lookup (st_seen s) p of Some bm \<Rightarrow> Some bm | None \<Rightarrow> stored_bitmap lib (st_db s) p)" for p
    using lib by (auto simp: stored_bitmap_def commit_bitmaps_def commit_durable_def bitmaps_lookup lib_ok_def split: option.splits)
  have b: "bitmap_backed lib sk arch (st_db ?s')"
    unfolding bitmap_backed_def
  proof
    fix p
    show "\<exists>bm. stored_bitmap lib (st_db ?s') p = Some bm \<and> (\<forall>g \<in> bm. (p, g) \<in> sk \<or> on_disk arch p g)"
    proof (cases "RBT.lookup (st_seen s) p")
      case None
      then show ?thesis using g by (simp add: sb segs_def bitmap_backed_def)
    next
      case (Some bm)
      have "(p, h) \<in> sk \<or> on_disk arch p h" if "h \<in> bm" for h
      proof -
        have "is_seen p h s" using Some that by (simp add: is_seen_def)
        then show ?thesis using g unfolding segs_def seen_backed_def by auto
      qed
      then show ?thesis using Some by (simp add: sb)
    qed
  qed
  have same: "st_durable ?s' = st_db ?s'" "st_files ?s' = st_files s" "st_writers ?s' = st_writers s" "st_seen ?s' = st_seen s"
    "st_data_dir ?s' = st_data_dir s" "t_players (st_db ?s') = t_players (st_db s)"
    by (simp_all add: commit_bitmaps_def commit_durable_def)
  have "ids_durable ?s' arch (\<lambda>_. [])"
    using g ran_le[OF store_okD(4)[OF ok]] unfolding segs_def ids_durable_def same by simp blast
  then show ?thesis
    using g b by (simp add: segs_def files_hold_def writers_hold_def seen_backed_def is_seen_def same
        seg_file_cong[OF same(5)] cong: option.case_cong)
qed

lemma segs_reopen:
  assumes g: "segs lib s sk arch pend" and ok: "store_ok home s"
  shows "\<exists>s'. open_store lib (st_data_dir s) (st_durable s) (st_files s) = Inr s' \<and> store_ok home s' \<and> segs lib s' sk arch (\<lambda>_. [])
    \<and> st_files s' = st_files s \<and> st_db s' = st_durable s \<and> st_data_dir s' = st_data_dir s"
proof -
  have bb: "bitmap_backed lib sk arch (st_durable s)" using g by (simp add: segs_def)
  then have "\<forall>p. enabled p \<longrightarrow> stored_bitmap lib (st_durable s) p \<noteq> None" unfolding bitmap_backed_def by (metis option.distinct(1))
  from open_store_ok[OF store_okD(2)[OF ok] this, of "st_data_dir s" "st_files s"] obtain s' where
    s': "open_store lib (st_data_dir s) (st_durable s) (st_files s) = Inr s'" "store_ok home s'" "st_db s' = st_durable s"
    "st_durable s' = st_durable s" "st_files s' = st_files s" "st_data_dir s' = st_data_dir s" "st_writers s' = RBT.empty"
    "\<forall>p. RBT.lookup (st_seen s') p = (if enabled p then stored_bitmap lib (st_durable s) p else None)" by blast
  have "seen_backed s' sk arch (\<lambda>_. [])"
    using bb s'(8) unfolding seen_backed_def bitmap_backed_def is_seen_def by (auto split: if_splits option.splits) (metis option.inject)+
  then have "segs lib s' sk arch (\<lambda>_. [])"
    using g bb by (simp add: segs_def files_hold_def writers_hold_def ids_durable_def s' seg_file_cong[OF s'(6)])
  then show ?thesis using s' by blast
qed


section \<open>Reachable states\<close>

text \<open>The states a server can be in: it starts on empty tables and files, calls the operations of the store in any order, and may
  crash between any two of them.  A crash keeps the durable tables and the files.  The steps of a commit and of a date roll are
  listed separately, so that the crash points inside them are covered: after the checkpoint, between the flushes of two segment writers, and after
  the last one.  A crash inside the write of one block, which leaves a torn tail, is the subject of \<open>Segment_Props\<close>.
  The second argument collects the matches skipped on purpose.\<close>

inductive store_reach :: "store_lib \<Rightarrow> (u32 \<Rightarrow> string) \<Rightarrow> store \<Rightarrow> (string \<times> u64) set \<Rightarrow> bool" for lib home where
  start: "open_store lib dir empty_tables (\<lambda>_. None) = Inr s \<Longrightarrow> store_reach lib home s {}"
| stored: "store_reach lib home s sk \<Longrightarrow> match_call home rec puuids ts s \<Longrightarrow> ok_date today \<Longrightarrow> flushable lib s \<Longrightarrow>
    store_match lib today now rec puuids ts paused s = Inr (rec', ad, s') \<Longrightarrow> store_reach lib home s' sk"
| half_stored: "store_reach lib home s sk \<Longrightarrow> match_call home rec puuids ts s \<Longrightarrow>
    match_txn rec puuids ts paused s = Inr (rec', ad, s') \<Longrightarrow> store_reach lib home (durable_checkpoint now s') sk"
| skipped: "store_reach lib home s sk \<Longrightarrow> store_reach lib home (mark_seen p g s) (insert (p, g) sk)"
| assigned: "store_reach lib home s sk \<Longrightarrow> unat (st_next_player_id s) + length ps < 2 ^ 32 \<Longrightarrow>
    store_reach lib home (snd (assign_player_ids ps s)) sk"
| joined: "store_reach lib home s sk \<Longrightarrow> store_reach lib home (snd (cohort_add_batch pids source now s)) sk"
| ranked: "store_reach lib home s sk \<Longrightarrow> store_reach lib home (add_rank_snapshot pid ts snap s) sk"
| meta: "store_reach lib home s sk \<Longrightarrow> plain_key k \<Longrightarrow> store_reach lib home (meta_set_u32 k v s) sk"
| enrolled: "store_reach lib home s sk \<Longrightarrow> store_reach lib home (snd (node_add name tok now s)) sk"
| counted: "store_reach lib home s sk \<Longrightarrow> store_reach lib home (node_stats_upsert rows s) sk"
| scheduled: "store_reach lib home s sk \<Longrightarrow> store_reach lib home (snd (store_frontier (frontier_exec x) s)) sk"
| reconciled: "store_reach lib home s sk \<Longrightarrow> store_reach lib home (snd (frontier_reconcile now s)) sk"
| checkpointed: "store_reach lib home s sk \<Longrightarrow> store_reach lib home (durable_checkpoint now s) sk"
| flushed: "store_reach lib home s sk \<Longrightarrow> flushable lib s \<Longrightarrow>
    store_reach lib home (flush_writers lib (durable_checkpoint now s)) sk"
| half_flushed: "store_reach lib home s sk \<Longrightarrow> flushable lib s \<Longrightarrow> RBT.entries (st_writers s) = ws @ vs \<Longrightarrow>
    store_reach lib home (fold (flush_step lib) ws (durable_checkpoint now s)) sk"
| committed: "store_reach lib home s sk \<Longrightarrow> flushable lib s \<Longrightarrow> store_reach lib home (commit_store lib now s) sk"
| crashed: "store_reach lib home s sk \<Longrightarrow> open_store lib (st_data_dir s) (st_durable s) (st_files s) = Inr s' \<Longrightarrow>
    store_reach lib home s' sk"

definition store_inv :: "store_lib \<Rightarrow> (u32 \<Rightarrow> string) \<Rightarrow> store \<Rightarrow> (string \<times> u64) set \<Rightarrow> bool" where
  "store_inv lib home s sk \<longleftrightarrow> store_ok home s \<and> (\<exists>arch pend. segs lib s sk arch pend)"

lemma store_invD: "store_inv lib home s sk \<Longrightarrow> store_ok home s"
  by (simp add: store_inv_def)

lemma store_inv_quiet: "store_inv lib home s sk \<Longrightarrow> store_ok home s' \<Longrightarrow> quiet s s' \<Longrightarrow> store_inv lib home s' sk"
  unfolding store_inv_def using segs_quiet by blast

lemma inv_checkpoint: "store_inv lib home s sk \<Longrightarrow> store_inv lib home (durable_checkpoint now s) sk"
  unfolding store_inv_def using durable_checkpoint_ok segs_checkpoint by blast

lemma empty_tables_ok: "tables_ok home empty_tables"
proof -
  have "enabled p \<Longrightarrow> meta_valid empty_tables p = of_nat (card (flagged (\<lambda>_. None) p))" for p
    by (simp add: meta_valid_def empty_tables_def flagged_def)
  then show ?thesis
    using ids_ok_empty empty_frontier_wf(1)
    by (auto simp: tables_ok_def empty_tables_def history_ok_def slots_ok_def rows_ok_def flags_ok_def)
qed

lemma intact_empty: "intact c [] 0 []"
  by (rule intact_end) simp

lemma inv_start:
  assumes "open_store lib dir empty_tables (\<lambda>_. None) = Inr s"
  shows "store_inv lib home s {}"
proof -
  have sb: "stored_bitmap lib empty_tables p = Some {}" for p by (simp add: stored_bitmap_def empty_tables_def)
  obtain s' where s': "open_store lib dir empty_tables (\<lambda>_. None) = Inr s'" "store_ok home s'" "st_db s' = empty_tables"
    "st_durable s' = empty_tables" "st_files s' = (\<lambda>_. None)" "st_writers s' = RBT.empty"
    "\<forall>p. RBT.lookup (st_seen s') p = (if enabled p then stored_bitmap lib empty_tables p else None)"
    using open_store_ok[OF empty_tables_ok, where lib = lib and home = home and dir = dir and fs = "\<lambda>_. None"] sb by auto
  have "segs lib s' {} (\<lambda>_ _. []) (\<lambda>_. [])"
    using s'(7) by (auto simp: segs_defs s' sb contents_def is_seen_def intact_empty split: option.splits if_splits)
  then show ?thesis using s'(1,2) assms by (auto simp: store_inv_def)
qed

lemma inv_stored:
  assumes inv: "store_inv lib home s sk" and call: "match_call home rec puuids ts s" and today: "ok_date today"
    and fit: "flushable lib s" and st: "store_match lib today now rec puuids ts paused s = Inr (rec', ad, s')"
  shows "store_inv lib home s' sk"
proof -
  obtain arch pend where g: "segs lib s sk arch pend" and ok: "store_ok home s" using inv by (auto simp: store_inv_def)
  obtain s1 where t: "match_txn rec puuids ts paused s = Inr (rec', ad, s1)" "store_ok home s1" "quiet s s1"
    "platform rec' = platform rec" "record_ids rec' \<subseteq> ran (RBT.lookup (t_players (st_db s1)))"
    using match_txn_ok[OF ok call, of paused] st by (auto simp: store_match_def Let_def)
  let ?s2 = "roll_writer lib today now (platform rec') s1"
  have fits: "\<And>w. RBT.lookup (st_writers s1) (platform rec') = Some w \<Longrightarrow> fits_file (lib_seg lib) (st_files s1) w"
    using fit t(3) by (simp add: flushable_def quiet_def)
  from segs_roll[OF segs_quiet[OF t(3) g] t(2) today fits, where now = now] obtain arch2 pend2 where g2: "segs lib ?s2 sk arch2 pend2" by blast
  have "t_players (st_db ?s2) = t_players (st_db s1)"
    by (auto simp: roll_writer_def durable_checkpoint_def commit_durable_def Let_def split: option.split prod.split)
  then have "record_ids rec' \<subseteq> ran (RBT.lookup (t_players (st_db ?s2)))" using t(5) by simp
  from segs_append[OF g2 today this] have
    "segs lib (mark_seen (platform rec') (game_id rec') (append_record lib today rec' ?s2)) sk arch2
       (pend2(platform rec' := pend2 (platform rec') @ [rec']))"
    by (rule segs_mark) auto
  moreover have "s' = mark_seen (platform rec') (game_id rec') (append_record lib today rec' ?s2)"
    using st t(1) by (simp add: store_match_def Let_def)
  moreover have "store_ok home s'"
    using store_match_ok[OF ok call, of lib today now paused] st by auto
  ultimately show ?thesis by (auto simp: store_inv_def)
qed

lemma inv_flushed:
  assumes inv: "store_inv lib home s sk" and fit: "flushable lib s"
  shows "store_ok home (flush_writers lib (durable_checkpoint now s))
    \<and> (\<exists>arch. segs lib (flush_writers lib (durable_checkpoint now s)) sk arch (\<lambda>_. []))"
proof -
  obtain arch pend where g: "segs lib s sk arch pend" and ok: "store_ok home s" using inv by (auto simp: store_inv_def)
  let ?s1 = "durable_checkpoint now s"
  have "flushable lib ?s1" "RBT.lookup (t_players (st_db ?s1)) \<subseteq>\<^sub>m RBT.lookup (t_players (st_durable ?s1))"
    using fit by (simp_all add: flushable_def durable_checkpoint_def commit_durable_def)
  with segs_flush_writers[OF segs_checkpoint[OF g ok]] show ?thesis
    using flush_writers_ok[OF durable_checkpoint_ok[OF ok]] by blast
qed

lemma flush_fold_same:
  "st_db (fold (flush_step lib) ws s) = st_db s \<and> st_durable (fold (flush_step lib) ws s) = st_durable s \<and> same_caches s (fold (flush_step lib) ws s)
     \<and> st_seen (fold (flush_step lib) ws s) = st_seen s \<and> st_dirty_bitmaps (fold (flush_step lib) ws s) = st_dirty_bitmaps s"
proof (induction ws arbitrary: s)
  case (Cons x ws)
  have "st_db (flush_step lib x s) = st_db s \<and> st_durable (flush_step lib x s) = st_durable s \<and> same_caches s (flush_step lib x s)
      \<and> st_seen (flush_step lib x s) = st_seen s \<and> st_dirty_bitmaps (flush_step lib x s) = st_dirty_bitmaps s"
    by (simp add: flush_step_def same_caches_def split: prod.split)
  with Cons.IH[of "flush_step lib x s"] show ?case by (auto simp: same_caches_def)
qed (simp add: same_caches_def)

lemma inv_half_flushed:
  assumes inv: "store_inv lib home s sk" and fit: "flushable lib s" and ws: "RBT.entries (st_writers s) = ws @ vs"
  shows "store_inv lib home (fold (flush_step lib) ws (durable_checkpoint now s)) sk"
proof -
  obtain arch pend where g: "segs lib s sk arch pend" and ok: "store_ok home s" using inv by (auto simp: store_inv_def)
  let ?s1 = "durable_checkpoint now s"
  have same: "st_writers ?s1 = st_writers s" "st_files ?s1 = st_files s"
    and dur: "RBT.lookup (t_players (st_db ?s1)) \<subseteq>\<^sub>m RBT.lookup (t_players (st_durable ?s1))"
    by (simp_all add: durable_checkpoint_def commit_durable_def)
  have d: "distinct (map fst ws)" using RBT.distinct_entries[of "st_writers s"] by (simp add: ws)
  have w: "\<forall>(p, w) \<in> set ws. RBT.lookup (st_writers ?s1) p = Some w \<and> fits_file (lib_seg lib) (st_files ?s1) w"
  proof clarify
    fix p w assume "(p, w) \<in> set ws"
    then have "(p, w) \<in> set (RBT.entries (st_writers s))" by (simp add: ws)
    then have "RBT.lookup (st_writers s) p = Some w" by (simp add: mem_entries)
    then show "RBT.lookup (st_writers ?s1) p = Some w \<and> fits_file (lib_seg lib) (st_files ?s1) w" using fit by (simp add: same flushable_def)
  qed
  have "store_ok home (fold (flush_step lib) ws ?s1)"
    by (rule store_ok_benign[OF durable_checkpoint_ok[OF ok, of now]]) (simp_all add: flush_fold_same)
  with segs_flush_fold[OF segs_checkpoint[OF g ok] d w dur] show ?thesis unfolding store_inv_def by blast
qed

lemma inv_committed:
  assumes inv: "store_inv lib home s sk" and fit: "flushable lib s" and lib: "lib_ok lib"
  shows "\<exists>arch. segs lib (commit_store lib now s) sk arch (\<lambda>_. [])"
proof -
  obtain arch where g: "segs lib (flush_writers lib (durable_checkpoint now s)) sk arch (\<lambda>_. [])"
    and ok: "store_ok home (flush_writers lib (durable_checkpoint now s))" using inv_flushed[OF inv fit] by blast
  show ?thesis using segs_bitmaps[OF g ok lib] g by (auto simp: commit_store_def Let_def)
qed

lemma quiet_ops:
  "store_ok home s \<Longrightarrow> unat (st_next_player_id s) + length ps < 2 ^ 32 \<Longrightarrow> quiet s (snd (assign_player_ids ps s))"
  "quiet s (snd (cohort_add_batch pids source now s))" "quiet s (add_rank_snapshot pid ts snap s)"
  "plain_key k \<Longrightarrow> quiet s (meta_set_u32 k v s)" "quiet s (node_stats_upsert rows s)"
  "quiet s (snd (store_frontier f s))"
proof -
  show "quiet s (snd (assign_player_ids ps s))" if "store_ok home s" "unat (st_next_player_id s) + length ps < 2 ^ 32"
  proof -
    obtain ids s' where a: "assign_player_ids ps s = (ids, s')" by fastforce
    show ?thesis using assign_player_ids_ok[OF that(1) a that(2)] a by (auto simp: quiet_def)
  qed
qed (auto simp: quiet_def cohort_add_batch_def add_rank_snapshot_def meta_set_u32_def node_stats_upsert_def store_frontier_def
    commit_fast_def Let_def split: prod.split)

lemma quiet_reconcile: "quiet s (snd (frontier_reconcile now s))"
proof -
  have "quiet s (snd (fold (\<lambda>p (n, s). (n + length (batch p),
      snd (store_frontier (\<lambda>f. ((), frontier_push_batch p BUCKET_PRIORITY now (batch p) f)) s))) ps (n, s)))"
    for ps n s and batch :: "string \<Rightarrow> (u32 \<times> frontier_task) list"
  proof (induction ps arbitrary: n s)
    case (Cons p ps)
    show ?case by (simp, rule quiet_trans[OF quiet_ops(6) Cons.IH])
  qed simp
  then show ?thesis unfolding frontier_reconcile_def Let_def .
qed

lemma reach_inv: "store_reach lib home s sk \<Longrightarrow> lib_ok lib \<Longrightarrow> store_inv lib home s sk"
proof (induction rule: store_reach.induct)
  case (half_stored s sk rec puuids ts paused rec' ad s' now)
  then have inv: "store_inv lib home s sk" by simp
  then have "store_ok home s' \<and> quiet s s'"
    using match_txn_ok[of home s rec puuids ts paused] half_stored.hyps by (auto simp: store_inv_def)
  then show ?case using inv store_inv_quiet inv_checkpoint by blast
next
  case (skipped s sk p g)
  then show ?case using mark_seen_ok segs_mark[of lib s sk _ _ p g "insert (p, g) sk"] unfolding store_inv_def by blast
next
  case (enrolled s sk name tok now)
  then show ?case using node_add_ok segs_node_add unfolding store_inv_def by blast
next
  case (scheduled s sk x)
  then have "store_ok home (snd (store_frontier (frontier_exec x) s))"
    by (intro store_frontier_ok) (auto simp: store_inv_def exec_refines)
  then show ?case using scheduled store_inv_quiet quiet_ops(6) by blast
next
  case (flushed s sk now)
  then show ?case using inv_flushed unfolding store_inv_def by blast
next
  case (half_flushed s sk ws vs now)
  show ?case by (rule inv_half_flushed[OF half_flushed.IH[OF half_flushed.prems] half_flushed.hyps(2,3)])
next
  case (committed s sk now)
  then show ?case using inv_committed commit_store_ok unfolding store_inv_def by blast
next
  case (crashed s sk s')
  then show ?case using segs_reopen unfolding store_inv_def by fastforce
next
  case (assigned s sk ps)
  then have inv: "store_inv lib home s sk" by simp
  obtain ids s' where a: "assign_player_ids ps s = (ids, s')" by fastforce
  have "store_ok home s'" using inv assign_player_ids_ok(1)[OF _ a assigned.hyps(2)] by (simp add: store_inv_def)
  then show ?case using inv store_inv_quiet quiet_ops(1)[of home s ps] assigned.hyps(2) a by (auto simp: store_inv_def)
next
  case (joined s sk pids source now)
  then show ?case using store_inv_quiet[OF _ cohort_add_batch_ok[OF store_invD] quiet_ops(2)] by blast
next
  case (ranked s sk pid ts snap)
  then show ?case using store_inv_quiet[OF _ add_rank_ok[OF store_invD] quiet_ops(3)] by blast
next
  case (meta s sk k v)
  then show ?case using store_inv_quiet[OF _ meta_set_ok[OF store_invD] quiet_ops(4)] by blast
next
  case (counted s sk rows)
  then show ?case using store_inv_quiet[OF _ node_stats_ok[OF store_invD] quiet_ops(5)] by blast
next
  case (reconciled s sk now)
  then show ?case using store_inv_quiet[OF _ frontier_reconcile_ok[OF store_invD] quiet_reconcile] by blast
next
  case (stored s sk rec puuids ts today now paused rec' ad s')
  show ?case by (rule inv_stored[OF stored.IH[OF stored.prems] stored.hyps(2-5)])
qed (simp_all add: inv_start inv_checkpoint)

end
