(* ===== verification/Store_Props.thy ===== *)
theory Store_Props
  imports Store_Crash
begin

text \<open>
  Properties of the store over every reachable state: exact sample progress, adoption, unique player ids, crash
  consistency and transparent restarts.
\<close>

section \<open>Adoption\<close>

definition sightings :: "store \<Rightarrow> u32 \<Rightarrow> u32" where
  "sightings s pid = (case RBT.lookup (st_outsider_seen s) pid of Some n \<Rightarrow> n | None \<Rightarrow> 0)"

definition adoptable :: "bool \<Rightarrow> store \<Rightarrow> u32 \<Rightarrow> bool" where
  "adoptable paused s pid \<longleftrightarrow> pid \<notin> st_cohort s \<and> \<not> paused \<and> ADOPTION_THRESHOLD \<le> sightings s pid + 1"

lemma adopt_one_effect:
  assumes "adopt_one ts paused (pid, puuid) (s, ad) = (s', ad')"
  shows "ad' = ad @ (if adoptable paused s pid then [(pid, puuid)] else [])"
    and "st_cohort s' = (if adoptable paused s pid then insert pid (st_cohort s) else st_cohort s)"
    and "RBT.lookup (st_outsider_seen s') q =
      (if q = pid \<and> pid \<notin> st_cohort s then (if adoptable paused s pid then None else Some (sightings s pid + 1))
       else RBT.lookup (st_outsider_seen s) q)"
  using assms
  by (auto simp: adopt_one_def adoptable_def sightings_def commit_fast_def Let_def split: if_splits)

lemma adopt_fold_effect:
  assumes "distinct (map fst xs)" "fold (adopt_one ts paused) xs (s, ad) = (s', ad')"
  shows "ad' = ad @ filter (\<lambda>x. adoptable paused s (fst x)) xs
    \<and> st_cohort s' = st_cohort s \<union> {pid \<in> fst ` set xs. adoptable paused s pid}
    \<and> (\<forall>q. RBT.lookup (st_outsider_seen s') q =
        (if q \<in> fst ` set xs \<and> q \<notin> st_cohort s then (if adoptable paused s q then None else Some (sightings s q + 1))
         else RBT.lookup (st_outsider_seen s) q))"
  using assms
proof (induction xs arbitrary: s ad)
  case (Cons x xs)
  obtain pid puuid where x: "x = (pid, puuid)" by fastforce
  obtain s1 ad1 where e: "adopt_one ts paused x (s, ad) = (s1, ad1)" by fastforce
  note one = adopt_one_effect[OF e[unfolded x]]
  have pid: "pid \<notin> fst ` set xs" using Cons.prems(1) by (simp add: x)
  have keep: "adoptable paused s1 q \<longleftrightarrow> adoptable paused s q" "sightings s1 q = sightings s q" "q \<in> st_cohort s1 \<longleftrightarrow> q \<in> st_cohort s"
    if "q \<noteq> pid" for q using that one by (auto simp: adoptable_def sightings_def)
  have IH: "ad' = ad1 @ filter (\<lambda>x. adoptable paused s1 (fst x)) xs"
    "st_cohort s' = st_cohort s1 \<union> {pid \<in> fst ` set xs. adoptable paused s1 pid}"
    "\<And>q. RBT.lookup (st_outsider_seen s') q =
        (if q \<in> fst ` set xs \<and> q \<notin> st_cohort s1 then (if adoptable paused s1 q then None else Some (sightings s1 q + 1))
         else RBT.lookup (st_outsider_seen s1) q)"
    using Cons.IH[of s1 ad1] Cons.prems e by auto
  have ne: "fst y \<noteq> pid" if "y \<in> set xs" for y using that pid by auto
  have "filter (\<lambda>x. adoptable paused s1 (fst x)) xs = filter (\<lambda>x. adoptable paused s (fst x)) xs"
    by (rule filter_cong[OF refl]) (simp add: keep(1) ne)
  then have "ad' = ad @ filter (\<lambda>x. adoptable paused s (fst x)) (x # xs)" using IH(1) one(1) by (simp add: x)
  moreover have "{q \<in> fst ` set xs. adoptable paused s1 q} = {q \<in> fst ` set xs. adoptable paused s q}"
    by (rule Collect_cong) (use keep(1) pid in metis)
  then have "st_cohort s' = st_cohort s \<union> {pid \<in> fst ` set (x # xs). adoptable paused s pid}"
    using IH(2) one(2) by (auto simp: x)
  moreover have "RBT.lookup (st_outsider_seen s') q =
        (if q \<in> fst ` set (x # xs) \<and> q \<notin> st_cohort s then (if adoptable paused s q then None else Some (sightings s q + 1))
         else RBT.lookup (st_outsider_seen s) q)" for q
  proof (cases "q = pid")
    case True
    then show ?thesis using IH(3)[of q] one(3)[of q] pid by (simp add: x)
  next
    case False
    then show ?thesis using IH(3)[of q] one(3)[of q] keep[OF False] by (simp add: x)
  qed
  ultimately show ?case by blast
qed simp

text \<open>What the match transaction does to cohort, outsiders and history, in its three cases.\<close>

definition stored_before :: "match_record \<Rightarrow> store \<Rightarrow> bool" where
  "stored_before rec s \<longleftrightarrow> RBT.lookup (t_progress (st_db s)) (platform rec, game_id rec) \<noteq> None"

definition remake :: "match_record \<Rightarrow> bool" where
  "remake rec \<longleftrightarrow> duration_s rec < REMAKE_MAX_DURATION_S"

lemma match_txn_effect:
  assumes ok: "store_ok home s" and call: "match_call home rec puuids ts s"
    and t: "match_txn rec puuids ts paused s = Inr (rec', ad, s')"
  defines "pids \<equiv> fst (assign_player_ids puuids s)" and "counts \<equiv> \<not> stored_before rec s \<and> \<not> remake rec"
  shows "ad = (if counts then filter (\<lambda>x. adoptable paused s (fst x)) (zip pids puuids) else [])"
    and "st_cohort s' = st_cohort s \<union> fst ` set ad"
    and "RBT.lookup (st_outsider_seen s') q =
      (if counts \<and> q \<in> set pids \<and> q \<notin> st_cohort s then (if adoptable paused s q then None else Some (sightings s q + 1))
       else RBT.lookup (st_outsider_seen s) q)"
    and "t_player_tl (st_db s') =
      (if counts then insert_all (timeline_rows (game_id rec) ts 0 pids) (t_player_tl (st_db s)) else t_player_tl (st_db s))"
proof -
  obtain s1 where a: "assign_player_ids puuids s = (pids, s1)" by (metis pids_def prod.collapse)
  have bound: "unat (st_next_player_id s) + length puuids < 2 ^ 32" using call by (simp add: match_call_def)
  note as = assign_player_ids_ok[OF ok a bound]
  have len: "length pids = length puuids" using as(2) by (metis length_map)
  have t1: "t_player_tl (st_db s1) = t_player_tl (st_db s)" "t_progress (st_db s1) = t_progress (st_db s)" using as(4) by auto
  have ad1: "adoptable paused s1 q = adoptable paused s q" "sightings s1 q = sightings s q" for q
    by (simp_all add: adoptable_def sightings_def as)
  have "ad = (if counts then filter (\<lambda>x. adoptable paused s (fst x)) (zip pids puuids) else [])
    \<and> st_cohort s' = st_cohort s \<union> fst ` set ad
    \<and> RBT.lookup (st_outsider_seen s') q =
      (if counts \<and> q \<in> set pids \<and> q \<notin> st_cohort s then (if adoptable paused s q then None else Some (sightings s q + 1))
       else RBT.lookup (st_outsider_seen s) q)
    \<and> t_player_tl (st_db s') =
      (if counts then insert_all (timeline_rows (game_id rec) ts 0 pids) (t_player_tl (st_db s)) else t_player_tl (st_db s))"
  proof (cases counts)
    case False
    then have "ad = [] \<and> (s' = s1 \<or> s' = commit_fast (\<lambda>t. t\<lparr>t_progress := RBT.insert (platform rec, game_id rec) [] (t_progress t)\<rparr>) s1)"
      using t by (auto simp: match_txn_def a Let_def counts_def stored_before_def remake_def split: if_splits)
    then show ?thesis using False t1 by (auto simp: as commit_fast_def)
  next
    case True
    obtain s2 ad2 where f: "fold (adopt_one ts paused) (zip pids puuids) (s1, []) = (s2, ad2)" by fastforce
    have dp: "distinct pids"
      using ids_distinct[OF _ as(2)] store_okD(3)[OF as(1)] call by (auto simp: caches_ok_def match_call_def)
    then have d: "distinct (map fst (zip pids puuids))" using len by (simp add: map_fst_zip)
    have fz: "fst ` set (zip pids puuids) = set pids" using len by (metis map_fst_zip set_map)
    note eff = adopt_fold_effect[OF d f, unfolded fz ad1]
    have co: "cohort_only s1 s2" using adopt_fold_ok[OF as(1) f] by blast
    obtain tlt prog nv where h: "track_history (platform rec) (game_id rec) ts pids (t_player_tl (st_db s2)) (t_progress (st_db s2)) = Inr (tlt, prog, nv)"
      and s': "s' = count_valid (platform rec) nv (commit_fast (\<lambda>t. t\<lparr>t_player_tl := tlt, t_progress := prog\<rparr>) s2)" and ad: "ad = ad2"
      using t True f by (auto simp: match_txn_def a Let_def counts_def stored_before_def remake_def res_bind_eq_Inr)
    have "tlt = insert_all (timeline_rows (game_id rec) ts 0 pids) (t_player_tl (st_db s2))"
      using h by (auto simp: track_history_def res_bind_eq_Inr Let_def)
    then have "t_player_tl (st_db s') = insert_all (timeline_rows (game_id rec) ts 0 pids) (t_player_tl (st_db s))"
      using cohort_only_tables[OF co] t1 by (simp add: s' count_valid_def commit_fast_def Let_def)
    moreover have "st_cohort s' = st_cohort s2" "st_outsider_seen s' = st_outsider_seen s2"
      by (simp_all add: s' count_valid_def commit_fast_def Let_def)
    moreover have "fst ` set (filter (\<lambda>x. adoptable paused s (fst x)) (zip pids puuids)) = {pid \<in> set pids. adoptable paused s pid}"
      using fz by (auto simp: image_iff)
    ultimately show ?thesis using eff True ad as(6,7) by simp
  qed
  then show "ad = (if counts then filter (\<lambda>x. adoptable paused s (fst x)) (zip pids puuids) else [])"
    "st_cohort s' = st_cohort s \<union> fst ` set ad"
    "RBT.lookup (st_outsider_seen s') q =
      (if counts \<and> q \<in> set pids \<and> q \<notin> st_cohort s then (if adoptable paused s q then None else Some (sightings s q + 1))
       else RBT.lookup (st_outsider_seen s) q)"
    "t_player_tl (st_db s') =
      (if counts then insert_all (timeline_rows (game_id rec) ts 0 pids) (t_player_tl (st_db s)) else t_player_tl (st_db s))"
    by blast+
qed

section \<open>A concrete library and state\<close>

text \<open>A bitmap format for the witnesses: the sorted elements, eight bytes each.\<close>

fun chunks8 :: "nat \<Rightarrow> bytes \<Rightarrow> u64 list" where
  "chunks8 0 bs = []"
| "chunks8 (Suc n) bs = from_le (take 8 bs) # chunks8 n (drop 8 bs)"

definition sample_lib :: store_lib where
  "sample_lib = \<lparr>lib_seg = sample_codec,
     bitmap_ser = (\<lambda>bm. concat (map (to_le 8) (sorted_list_of_set bm))),
     bitmap_de = (\<lambda>bs. Some (set (chunks8 (length bs div 8) bs)))\<rparr>"

lemma sample_lib_seg [simp]: "lib_seg sample_lib = sample_codec"
  by (simp add: sample_lib_def)

lemma chunks8_concat: "chunks8 (length xs) (concat (map (to_le 8) xs)) = xs"
  by (induction xs) simp_all

lemma length_concat_le: "length (concat (map (to_le 8) (xs :: u64 list))) = 8 * length xs"
  by (induction xs) simp_all

lemma sample_lib_ok: "lib_ok sample_lib"
proof -
  have "set (chunks8 (length bs div 8) bs) = bm" if "bs = concat (map (to_le 8) (sorted_list_of_set bm))" for bm :: "u64 set" and bs
    using chunks8_concat[of "sorted_list_of_set bm"] finite_subset[of bm UNIV] by (simp add: that length_concat_le)
  then show ?thesis by (simp add: lib_ok_def sample_lib_def)
qed

abbreviation sample_home :: "u32 \<Rightarrow> string" where
  "sample_home \<equiv> \<lambda>_. ''EUW1''"

lemma enabled_euw: "enabled ''EUW1''"
  by (simp add: enabled_def enabled_regions_def ALL_REGIONS_def ENABLED_REGIONS_def)

lemma sample_start:
  "\<exists>s. open_store sample_lib ''data'' empty_tables (\<lambda>_. None) = Inr s \<and> store_reach sample_lib sample_home s {}
     \<and> st_db s = empty_tables \<and> st_writers s = RBT.empty \<and> st_next_player_id s = 1 \<and> st_data_dir s = ''data''
     \<and> RBT.lookup (st_players s) = (\<lambda>_. None) \<and> st_files s = (\<lambda>_. None) \<and> st_cohort s = {} \<and> RBT.lookup (st_outsider_seen s) = (\<lambda>_. None)"
proof -
  have sb: "stored_bitmap sample_lib empty_tables p = Some {}" for p by (simp add: stored_bitmap_def empty_tables_def)
  obtain s where s: "open_store sample_lib ''data'' empty_tables (\<lambda>_. None) = Inr s" "store_ok sample_home s" "st_db s = empty_tables"
    "st_files s = (\<lambda>_. None)" "st_data_dir s = ''data''" "st_writers s = RBT.empty"
    using open_store_ok[OF empty_tables_ok, where lib = sample_lib and home = sample_home and dir = "''data''" and fs = "\<lambda>_. None"] sb
    by auto
  have "st_next_player_id s = 1" "RBT.lookup (st_players s) = (\<lambda>_. None)" "st_cohort s = {}" "RBT.lookup (st_outsider_seen s) = (\<lambda>_. None)"
    using s(1) by (auto simp: open_store_def res_bind_eq_Inr next_id_after_def empty_tables_def)
  then show ?thesis using s start by blast
qed

text \<open>The sample match is stored and committed.\<close>

lemma sample_call:
  assumes "st_db s = empty_tables" "st_next_player_id s = 1" "RBT.lookup (st_players s) = (\<lambda>_. None)"
  shows "match_call sample_home sample_record [''abc''] 5 s"
  using assms enabled_euw
  by (simp add: match_call_def sample_record_def empty_tables_def)

lemma sample_stored:
  "\<exists>s. store_reach sample_lib sample_home s {} \<and> is_seen ''EUW1'' 300 s
     \<and> RBT.lookup (t_player_tl (st_db s)) (1, 5) = Some (300, 0) \<and> flushable sample_lib s \<and> RBT.lookup (st_outsider_seen s) 1 = Some 1"
proof -
  obtain s where s: "store_reach sample_lib sample_home s {}" "st_db s = empty_tables" "st_writers s = RBT.empty"
    "st_next_player_id s = 1" "RBT.lookup (st_players s) = (\<lambda>_. None)" "st_files s = (\<lambda>_. None)" "st_data_dir s = ''data''"
    "st_cohort s = {}" "RBT.lookup (st_outsider_seen s) = (\<lambda>_. None)" using sample_start by blast
  have ok: "store_ok sample_home s" using reach_inv[OF s(1) sample_lib_ok] by (rule store_invD)
  note call = sample_call[OF s(2,4,5)]
  obtain rec ad s1 where t: "match_txn sample_record [''abc''] 5 False s = Inr (rec, ad, s1)" "quiet s s1"
    "platform rec = ''EUW1''" "game_id rec = 300"
    using match_txn_ok[OF ok call, of False] by (auto simp: sample_record_def)
  let ?s2 = "append_record sample_lib ''d'' rec s1" and ?w = "sw_append sample_codec rec \<lparr>sw_dir = ''data/matches/EUW1'', sw_date = ''d'', sw_buf = [], sw_pending = []\<rparr>"
  have w1: "st_writers s1 = RBT.empty" "st_files s1 = (\<lambda>_. None)" "st_data_dir s1 = ''data''" using t(2) s by (simp_all add: quiet_def)
  have m: "store_match sample_lib ''d'' 0 sample_record [''abc''] 5 False s = Inr (rec, ad, mark_seen ''EUW1'' 300 ?s2)"
    using t w1 by (simp add: store_match_def roll_writer_def Let_def)
  have r: "store_reach sample_lib sample_home (mark_seen ''EUW1'' 300 ?s2) {}"
    by (rule stored[OF s(1) call _ _ m]) (simp_all add: ok_date_def flushable_def s)
  have s2: "st_writers ?s2 = RBT.insert ''EUW1'' ?w RBT.empty"
    "st_files ?s2 = open_files ''data/matches/EUW1'' ''d'' (\<lambda>_. None)" "st_db ?s2 = st_db s1" "st_outsider_seen ?s2 = st_outsider_seen s1"
    using t(3) w1 by (simp_all add: append_record_def sw_open_def match_dir_def sample_lib_def split_beta)
  have "contents (st_files ?s2) (seg_path ''data/matches/EUW1'' ''d'') = []"
    using open_files_contents[of sample_codec "\<lambda>_. None" "''data/matches/EUW1''" "''d''" "[]" "''data/matches/EUW1''" "''d''"]
    by (simp add: s2(2) contents_def intact_empty)
  then have "fits_file sample_codec (st_files ?s2) ?w"
    by (simp add: fits_file_def sw_append_def Let_def block_fits_def sample_codec_def MAX_SEGMENT_BLOCK_BYTES_def container_length)
  then have "flushable sample_lib (mark_seen ''EUW1'' 300 ?s2)" by (auto simp: flushable_def s2(1) split: if_splits)
  moreover have "fst (assign_player_ids [''abc''] s) = [1]" using s(4,5) by (simp add: assign_player_ids_def)
  then have "RBT.lookup (t_player_tl (st_db s1)) (1, 5) = Some (300, 0)" "RBT.lookup (st_outsider_seen s1) 1 = Some 1"
    using match_txn_effect(3,4)[OF ok call t(1)] s
    by (simp_all add: stored_before_def remake_def sample_record_def REMAKE_MAX_DURATION_S_def empty_tables_def
        adoptable_def sightings_def ADOPTION_THRESHOLD_def word_le_nat_alt)
  moreover have "st_outsider_seen (mark_seen ''EUW1'' 300 ?s2) = st_outsider_seen s1" by (simp add: s2 mark_seen_def)
  ultimately show ?thesis using r by (intro exI[of _ "mark_seen ''EUW1'' 300 ?s2"]) (simp add: is_seen_mark s2)
qed


section \<open>Seen sets and stored bitmaps\<close>

text \<open>Unless marked dirty, the seen sets are the stored bitmaps.\<close>

definition clean_ok :: "store_lib \<Rightarrow> store \<Rightarrow> bool" where
  "clean_ok lib s \<longleftrightarrow> (\<forall>p. enabled p \<longrightarrow> RBT.lookup (st_seen s) p \<noteq> None
     \<and> (\<not> st_dirty_bitmaps s \<longrightarrow> RBT.lookup (st_seen s) p = stored_bitmap lib (st_db s) p))"

lemma clean_same:
  assumes "clean_ok lib s" "st_seen s' = st_seen s" "st_dirty_bitmaps s' = st_dirty_bitmaps s"
    and "\<And>p. RBT.lookup (t_meta (st_db s')) (bitmap_key p) = RBT.lookup (t_meta (st_db s)) (bitmap_key p)"
  shows "clean_ok lib s'"
  using assms by (simp add: clean_ok_def stored_bitmap_def)

lemma clean_mark: "clean_ok lib s \<Longrightarrow> clean_ok lib (mark_seen p g s)"
  by (auto simp: clean_ok_def mark_seen_def)

lemma clean_checkpoint: "clean_ok lib s \<Longrightarrow> clean_ok lib (durable_checkpoint now s)"
  by (erule clean_same) (simp_all add: durable_checkpoint_def commit_durable_def)

lemma clean_open:
  assumes "open_store lib dir t fs = Inr s"
  shows "clean_ok lib s"
proof -
  obtain seen valid where l: "load_regions lib (t_meta t) enabled_regions (RBT.empty, RBT.empty) = Inr (seen, valid)"
    "st_seen s = seen" "st_db s = t" using assms by (auto simp: open_store_def res_bind_eq_Inr)
  have bm: "\<forall>r \<in> set rs. stored_bitmap lib t (rg_platform r) \<noteq> None" if "load_regions lib (t_meta t) rs acc = Inr out" for rs acc out
    using that by (induction lib "t_meta t" rs acc rule: load_regions.induct) (auto simp: Let_def stored_bitmap_def split: option.splits)
  from load_regions_ok[OF bm[OF l(1)], of RBT.empty RBT.empty] show ?thesis
    using l bm[OF l(1)] by (auto simp: clean_ok_def enabled_def)
qed

lemma stored_after_bitmaps:
  assumes "lib_ok lib" "RBT.lookup (st_seen s) p = Some bm"
  shows "stored_bitmap lib (st_db (commit_bitmaps lib s)) p = Some bm"
  using assms by (simp add: stored_bitmap_def commit_bitmaps_def commit_durable_def bitmaps_lookup lib_ok_def)

lemma clean_bitmaps: "lib_ok lib \<Longrightarrow> clean_ok lib s \<Longrightarrow> clean_ok lib (commit_bitmaps lib s)"
proof -
  assume a: "lib_ok lib" "clean_ok lib s"
  have "st_seen (commit_bitmaps lib s) = st_seen s" by (simp add: commit_bitmaps_def commit_durable_def)
  then show ?thesis using a stored_after_bitmaps[OF a(1), of s] unfolding clean_ok_def by (metis not_None_eq)
qed

lemma clean_flush: "clean_ok lib s \<Longrightarrow> clean_ok lib (flush_writers lib s)"
  by (erule clean_same) (simp_all add: flush_writers_same)

lemma clean_commit: "lib_ok lib \<Longrightarrow> clean_ok lib s \<Longrightarrow> clean_ok lib (commit_store lib now s)"
  by (simp add: commit_store_def Let_def clean_bitmaps clean_flush clean_checkpoint)


lemma clean_quiet: "quiet s s' \<Longrightarrow> clean_ok lib s \<Longrightarrow> clean_ok lib s'"
  by (erule clean_same) (simp_all add: quiet_def)

lemma clean_seen: "clean_ok lib s \<Longrightarrow> enabled p \<Longrightarrow> RBT.lookup (st_seen s) p \<noteq> None"
  by (simp add: clean_ok_def)

lemma store_match_seen:
  assumes "store_match lib today now rec puuids ts paused s = Inr (rec', ad, s')" "clean_ok lib s"
    and "match_txn rec puuids ts paused s = Inr (rec', ad, s1)" "quiet s s1"
  shows "clean_ok lib s'"
proof -
  have "st_seen (append_record lib today rec' (roll_writer lib today now (platform rec') s1)) = st_seen s1"
    by (auto simp: append_record_def roll_writer_def durable_checkpoint_def commit_durable_def Let_def
        split: option.split prod.split)
  moreover have "s' = mark_seen (platform rec') (game_id rec') (append_record lib today rec' (roll_writer lib today now (platform rec') s1))"
    using assms(1,3) by (simp add: store_match_def Let_def)
  ultimately show ?thesis using assms(2,4) by (auto simp: clean_ok_def mark_seen_def quiet_def)
qed

lemma reach_clean: "store_reach lib home s sk \<Longrightarrow> lib_ok lib \<Longrightarrow> clean_ok lib s"
proof (induction rule: store_reach.induct)
  case (stored s sk rec puuids ts today now paused rec' ad s')
  have ok: "store_ok home s" using reach_inv[OF stored.hyps(1) stored.prems] by (rule store_invD)
  obtain s1 where "match_txn rec puuids ts paused s = Inr (rec', ad, s1)" "quiet s s1"
    using match_txn_ok[OF ok stored.hyps(2), of paused] stored.hyps(5) by (auto simp: store_match_def Let_def)
  then show ?case using store_match_seen[OF stored.hyps(5) stored.IH[OF stored.prems]] by blast
next
  case (half_stored s sk rec puuids ts paused rec' ad s' now)
  have ok: "store_ok home s" using reach_inv[OF half_stored.hyps(1) half_stored.prems] by (rule store_invD)
  have "quiet s s'" using match_txn_ok[OF ok half_stored.hyps(2), of paused] half_stored.hyps(3) by auto
  then show ?case using half_stored clean_quiet clean_checkpoint by blast
next
  case (assigned s sk ps)
  have ok: "store_ok home s" using reach_inv[OF assigned.hyps(1) assigned.prems] by (rule store_invD)
  show ?case using clean_quiet[OF quiet_ops(1)[OF ok assigned.hyps(2)]] assigned by blast
next
  case (joined s sk pids source now)
  then show ?case using clean_quiet[OF quiet_ops(2)] by blast
next
  case (ranked s sk pid ts snap)
  then show ?case using clean_quiet[OF quiet_ops(3)] by blast
next
  case (meta s sk k v)
  then show ?case using clean_quiet[OF quiet_ops(4)] by blast
next
  case (counted s sk rows)
  then show ?case using clean_quiet[OF quiet_ops(5)] by blast
next
  case (scheduled s sk x)
  then show ?case using clean_quiet[OF quiet_ops(6)] by blast
next
  case (reconciled s sk now)
  then show ?case using clean_quiet[OF quiet_reconcile] by blast
next
  case (enrolled s sk name tok now)
  then have "clean_ok lib s" by simp
  then show ?case by (rule clean_same) (simp_all add: node_add_def commit_durable_def Let_def)
next
  case (half_flushed s sk ws vs now)
  then show ?case using clean_checkpoint[of lib s now] flush_fold_same[of lib ws "durable_checkpoint now s"]
    by (auto elim: clean_same)
qed (auto intro: clean_open clean_mark clean_checkpoint clean_flush clean_commit)

section \<open>Properties\<close>

text \<open>C1: Crash consistency.  Whatever the server did before, and whenever it crashes (also between the phases of a commit or
  of a date roll, and between the flushes of two writers; a stop inside the write of one block is treated on the segment itself): reopening the durable database succeeds; every record in a segment file references player ids the reopened
  store knows; and a match the reopened store reports as seen is in a segment file, unless it was skipped on purpose.  Assumed
  of the bitmap library: reading back a serialised bitmap gives it; and of the calls that store a match (\<open>match_call\<close>): each player is met on one platform and
  no two games of a player start in the same millisecond.\<close>

theorem crash_consistent:
  assumes "lib_ok lib" "store_reach lib home s sk"
  shows "\<exists>s'. open_store lib (st_data_dir s) (st_durable s) (st_files s) = Inr s'
    \<and> (\<exists>arch. (\<forall>p date. ok_date date \<longrightarrow>
          read_segment_records (lib_seg lib) (contents (st_files s) (seg_file s p date)) = Inr (map (pencode (lib_seg lib)) (arch p date))
          \<and> (\<forall>r \<in> set (arch p date). record_ids r \<subseteq> ran (RBT.lookup (st_players s'))))
        \<and> (\<forall>p g. is_seen p g s' \<longrightarrow> (p, g) \<in> sk \<or> (\<exists>date. ok_date date \<and> g \<in> game_id ` set (arch p date))))"
proof -
  obtain arch pend where g: "segs lib s sk arch pend" and ok: "store_ok home s"
    using reach_inv[OF assms(2,1)] by (auto simp: store_inv_def)
  from segs_reopen[OF g ok] obtain s' where s': "open_store lib (st_data_dir s) (st_durable s) (st_files s) = Inr s'"
    "store_ok home s'" "segs lib s' sk arch (\<lambda>_. [])" "st_files s' = st_files s" "st_db s' = st_durable s" by blast
  have pl: "RBT.lookup (st_players s') = RBT.lookup (t_players (st_durable s))"
    using store_okD(3)[OF s'(2)] s'(5) by (simp add: caches_ok_def)
  have "read_segment_records (lib_seg lib) (contents (st_files s) (seg_file s p date)) = Inr (map (pencode (lib_seg lib)) (arch p date))"
    if "ok_date date" for p date using g that by (intro intact_records) (simp add: segs_def files_hold_def)
  moreover have "\<forall>r \<in> set (arch p date). record_ids r \<subseteq> ran (RBT.lookup (st_players s'))" for p date
    using g by (simp add: segs_def ids_durable_def pl)
  moreover have "is_seen p h s' \<longrightarrow> (p, h) \<in> sk \<or> (\<exists>date. ok_date date \<and> h \<in> game_id ` set (arch p date))" for p h
    using s'(3) by (simp add: segs_def seen_backed_def on_disk_def)
  ultimately show ?thesis using s'(1) by blast
qed

theorem crash_consistent_witness:
  "\<exists>s s'. store_reach sample_lib sample_home s {} \<and> is_seen ''EUW1'' 300 s
     \<and> open_store sample_lib (st_data_dir s) (st_durable s) (st_files s) = Inr s'"
  using sample_stored crash_consistent[OF sample_lib_ok] by meson


lemma commit_durable_db: "st_durable (commit_store lib now s) = st_db (commit_store lib now s)"
  by (simp add: commit_store_def Let_def flush_writers_same commit_bitmaps_def commit_durable_def durable_checkpoint_def)

lemma commit_clean: "st_dirty_bitmaps (commit_store lib now s) = False"
  by (simp add: commit_store_def Let_def commit_bitmaps_def)

lemma same_caches_commit: "same_caches s (commit_store lib now s) \<and> st_seen (commit_store lib now s) = st_seen s"
proof -
  let ?s2 = "flush_writers lib (durable_checkpoint now s)"
  have "same_caches s ?s2 \<and> st_seen ?s2 = st_seen s"
    using flush_writers_same(3)[of "durable_checkpoint now s" lib] flush_writers_same(4)[of lib "durable_checkpoint now s"]
    by (simp add: same_caches_def durable_checkpoint_def commit_durable_def)
  then show ?thesis by (simp add: commit_store_def Let_def same_caches_def commit_bitmaps_def commit_durable_def)
qed

text \<open>What a commit does to the tables: the pending rank snapshots and the keys of the commit itself are added, the rest stays.\<close>

lemma commit_tables:
  "t_players (st_db (commit_store lib now s)) = t_players (st_db s)" "t_player_tl (st_db (commit_store lib now s)) = t_player_tl (st_db s)"
  "t_front (st_db (commit_store lib now s)) = t_front (st_db s)" "t_cohort (st_db (commit_store lib now s)) = t_cohort (st_db s)"
  "t_outsider (st_db (commit_store lib now s)) = t_outsider (st_db s)" "t_progress (st_db (commit_store lib now s)) = t_progress (st_db s)"
  "t_nodes (st_db (commit_store lib now s)) = t_nodes (st_db s)" "t_node_stats (st_db (commit_store lib now s)) = t_node_stats (st_db s)"
  "RBT.lookup (t_ranks (st_db (commit_store lib now s))) =
     RBT.lookup (t_ranks (st_db s)) ++ map_of (rev (map (\<lambda>(pid, ts, snap). ((pid, ts), snap)) (st_pending_ranks s)))"
  "k \<noteq> ''checkpoint_ms'' \<Longrightarrow> k \<notin> range bitmap_key \<Longrightarrow>
     RBT.lookup (t_meta (st_db (commit_store lib now s))) k = RBT.lookup (t_meta (st_db s)) k"
proof -
  show "k \<noteq> ''checkpoint_ms'' \<Longrightarrow> k \<notin> range bitmap_key \<Longrightarrow>
     RBT.lookup (t_meta (st_db (commit_store lib now s))) k = RBT.lookup (t_meta (st_db s)) k"
    by (subst (1) commit_store_def)
      (auto simp: Let_def commit_bitmaps_def commit_durable_def durable_checkpoint_def flush_writers_same intro!: trans[OF lookup_insert_all_other])
qed (simp_all add: commit_store_def Let_def commit_bitmaps_def commit_durable_def durable_checkpoint_def flush_writers_same lookup_insert_all)

text \<open>C30: Restarting after a commit loses nothing.  The reopened store has every table as it was: players, timelines, the frontier with its schedule, the cohort, the
  sightings, the progress of all samples, the nodes, their counters, and the rank snapshots with those that were only pending, a later one for
  the same player and time winning; the other keys of the server stay too.  And it has the same caches: player ids and the next id, the
  cohort, the sighting counts and, for every enabled platform, the seen matches and the sample count.\<close>

theorem restart_transparent:
  assumes "lib_ok lib" "store_reach lib home s sk" "flushable lib s"
  shows "\<exists>s'. open_store lib (st_data_dir s) (st_durable (commit_store lib now s)) (st_files (commit_store lib now s)) = Inr s'
    \<and> t_players (st_db s') = t_players (st_db s) \<and> t_player_tl (st_db s') = t_player_tl (st_db s) \<and> t_front (st_db s') = t_front (st_db s)
    \<and> t_cohort (st_db s') = t_cohort (st_db s) \<and> t_outsider (st_db s') = t_outsider (st_db s) \<and> t_progress (st_db s') = t_progress (st_db s)
    \<and> t_nodes (st_db s') = t_nodes (st_db s) \<and> t_node_stats (st_db s') = t_node_stats (st_db s)
    \<and> RBT.lookup (t_ranks (st_db s')) =
        RBT.lookup (t_ranks (st_db s)) ++ map_of (rev (map (\<lambda>(pid, ts, snap). ((pid, ts), snap)) (st_pending_ranks s)))
    \<and> (\<forall>k. k \<noteq> ''checkpoint_ms'' \<and> k \<notin> range bitmap_key \<longrightarrow> RBT.lookup (t_meta (st_db s')) k = RBT.lookup (t_meta (st_db s)) k)
    \<and> st_durable s' = st_db s' \<and> st_pending_ranks s' = []
    \<and> RBT.lookup (st_players s') = RBT.lookup (st_players s) \<and> st_next_player_id s' = st_next_player_id s
    \<and> st_cohort s' = st_cohort s \<and> RBT.lookup (st_outsider_seen s') = RBT.lookup (st_outsider_seen s)
    \<and> (\<forall>p. enabled p \<longrightarrow> RBT.lookup (st_seen s') p = RBT.lookup (st_seen s) p
          \<and> RBT.lookup (st_valid_samples s') p = RBT.lookup (st_valid_samples s) p)"
proof -
  let ?c = "commit_store lib now s"
  have r: "store_reach lib home ?c sk" by (rule committed[OF assms(2,3)])
  have okc: "store_ok home ?c" using reach_inv[OF r assms(1)] by (rule store_invD)
  have cl: "\<And>p. enabled p \<Longrightarrow> RBT.lookup (st_seen s) p = stored_bitmap lib (st_db ?c) p" "\<And>p. enabled p \<Longrightarrow> stored_bitmap lib (st_db ?c) p \<noteq> None"
    using reach_clean[OF r assms(1)] commit_clean[of lib now s] same_caches_commit[of s lib now] unfolding clean_ok_def by metis+
  from open_store_ok[OF store_okD(1)[OF okc], of lib "st_data_dir s" "st_files ?c"] cl(2) obtain s' where
    s': "open_store lib (st_data_dir s) (st_db ?c) (st_files ?c) = Inr s'" "store_ok home s'" "st_db s' = st_db ?c"
    "\<forall>p. RBT.lookup (st_seen s') p = (if enabled p then stored_bitmap lib (st_db ?c) p else None)"
    "st_durable s' = st_db ?c" "st_pending_ranks s' = []" by auto
  note cc = store_okD(3)[OF okc, unfolded caches_ok_def] and c' = store_okD(3)[OF s'(2), unfolded caches_ok_def s'(3)]
  have same: "st_players ?c = st_players s" "st_next_player_id ?c = st_next_player_id s" "st_cohort ?c = st_cohort s"
    "st_outsider_seen ?c = st_outsider_seen s" "st_valid_samples ?c = st_valid_samples s"
    using same_caches_commit[of s lib now] by (simp_all add: same_caches_def)
  have "next_id_after (RBT.entries (t_players (st_db ?c))) = st_next_player_id s'"
    "next_id_after (RBT.entries (t_players (st_db ?c))) = st_next_player_id ?c"
    using c' cc next_id_after_ok by blast+
  then have "st_next_player_id s' = st_next_player_id s" using same(2) by simp
  then have "RBT.lookup (st_players s') = RBT.lookup (st_players s) \<and> st_next_player_id s' = st_next_player_id s
    \<and> st_cohort s' = st_cohort s \<and> RBT.lookup (st_outsider_seen s') = RBT.lookup (st_outsider_seen s)
    \<and> (\<forall>p. enabled p \<longrightarrow> RBT.lookup (st_seen s') p = RBT.lookup (st_seen s) p
          \<and> RBT.lookup (st_valid_samples s') p = RBT.lookup (st_valid_samples s) p)"
    using s'(4) c' cc same cl(1) by simp
  then show ?thesis using s'(1) by (intro exI[of _ s']) (simp add: commit_durable_db s'(3,5,6) commit_tables)
qed

theorem restart_transparent_witness:
  "\<exists>s s'. store_reach sample_lib sample_home s {} \<and> is_seen ''EUW1'' 300 s
     \<and> open_store sample_lib (st_data_dir s) (st_durable (commit_store sample_lib 9 s)) (st_files (commit_store sample_lib 9 s)) = Inr s'
     \<and> is_seen ''EUW1'' 300 s'"
proof -
  obtain s where s: "store_reach sample_lib sample_home s {}" "is_seen ''EUW1'' 300 s" "flushable sample_lib s" using sample_stored by blast
  from restart_transparent[OF sample_lib_ok s(1,3), of 9] enabled_euw obtain s' where
    "open_store sample_lib (st_data_dir s) (st_durable (commit_store sample_lib 9 s)) (st_files (commit_store sample_lib 9 s)) = Inr s'"
    "RBT.lookup (st_seen s') ''EUW1'' = RBT.lookup (st_seen s) ''EUW1''" by blast
  with s show ?thesis by (auto simp: is_seen_def)
qed

text \<open>C4: Sample progress is exact in every reachable state of a store whose players are met on one platform each and whose games of one player have different start times
  (\<open>match_call\<close>), also after matches arrived out of order and after crashes: the slot of a
  participant is the number of earlier stored games of that player, capped at 20; the eleventh byte is set exactly
  when ten slots are full; and the reported number of samples is the number of matches with ten full slots.\<close>

theorem progress_exact:
  assumes "lib_ok lib" "store_reach lib home s sk"
  shows "(RBT.lookup (t_player_tl (st_db s)) (pid, ts) = Some (g, pos) \<longrightarrow>
       (\<exists>pr. RBT.lookup (t_progress (st_db s)) (home pid, g) = Some pr \<and> length pr = 11
          \<and> unat (pr ! unat pos) = min 20 (card {t. t < ts \<and> RBT.lookup (t_player_tl (st_db s)) (pid, t) \<noteq> None})))
    \<and> (RBT.lookup (t_progress (st_db s)) (p, g) = Some pr \<and> length pr = 11 \<longrightarrow>
       (pr ! 10 = 1 \<longleftrightarrow> (\<forall>i < 10. 20 \<le> unat (pr ! i))))
    \<and> (enabled p \<longrightarrow> RBT.lookup (st_valid_samples s) p =
       Some (of_nat (card {g. \<exists>pr. RBT.lookup (t_progress (st_db s)) (p, g) = Some pr \<and> length pr = 11 \<and> pr ! 10 = 1})))"
proof -
  have ok: "store_ok home s" using reach_inv[OF assms(2,1)] by (rule store_invD)
  have h: "slots_ok home (games_before (t_player_tl (st_db s))) (t_player_tl (st_db s)) (RBT.lookup (t_progress (st_db s)))"
    "flags_ok (RBT.lookup (t_progress (st_db s)))"
    "enabled p \<longrightarrow> meta_valid (st_db s) p = of_nat (card (flagged (RBT.lookup (t_progress (st_db s))) p))"
    using store_okD(1)[OF ok] by (simp_all add: tables_ok_def history_ok_def)
  have "pr ! 10 = 1 \<longleftrightarrow> (\<forall>i < 10. 20 \<le> unat (pr ! i))"
    if "RBT.lookup (t_progress (st_db s)) (p, g) = Some pr \<and> length pr = 11"
  proof -
    have "flag_ok pr" using that h(2) unfolding flags_ok_def by blast
    then show ?thesis using that by (simp add: flag_ok_def all_full_nth HISTORY_REQUIRED_def word_le_nat_alt)
  qed
  moreover have "enabled p \<longrightarrow> RBT.lookup (st_valid_samples s) p = Some (of_nat (card (flagged (RBT.lookup (t_progress (st_db s))) p)))"
    using store_okD(3)[OF ok] h(3) by (simp add: caches_ok_def)
  ultimately show ?thesis
    using slots_okD[OF h(1)] unfolding games_before_def earlier_def flagged_def by blast
qed

theorem progress_exact_witness:
  "\<exists>s pr. store_reach sample_lib sample_home s {} \<and> RBT.lookup (t_player_tl (st_db s)) (1, 5) = Some (300, 0)
     \<and> RBT.lookup (t_progress (st_db s)) (''EUW1'', 300) = Some pr
     \<and> unat (pr ! 0) = min 20 (card {t. t < 5 \<and> RBT.lookup (t_player_tl (st_db s)) (1, t) \<noteq> None})"
proof -
  obtain s where s: "store_reach sample_lib sample_home s {}" "RBT.lookup (t_player_tl (st_db s)) (1, 5) = Some (300, 0)"
    using sample_stored by blast
  from progress_exact[OF sample_lib_ok s(1), of 1 5 300 0] s(2) obtain pr where
    "RBT.lookup (t_progress (st_db s)) (''EUW1'', 300) = Some pr"
    "unat (pr ! unat (0 :: u8)) = min 20 (card {t. t < 5 \<and> RBT.lookup (t_player_tl (st_db s)) (1, t) \<noteq> None})" by blast
  then show ?thesis using s unfolding unat_0 by blast
qed

text \<open>C32: Player ids are unique and dense and survive crashes: in every reachable state the id cache is the players table,
  the ids are exactly the numbers below the next one, no two players share an id, and the durable
  assignments are among the visible ones.\<close>

theorem player_ids_unique:
  assumes "lib_ok lib" "store_reach lib home s sk"
  shows "RBT.lookup (st_players s) = RBT.lookup (t_players (st_db s))
    \<and> inj_on (RBT.lookup (st_players s)) (dom (RBT.lookup (st_players s)))
    \<and> ran (RBT.lookup (st_players s)) = {i. 1 \<le> unat i \<and> unat i < unat (st_next_player_id s)}
    \<and> RBT.lookup (t_players (st_durable s)) \<subseteq>\<^sub>m RBT.lookup (st_players s)
    \<and> st_cohort s = dom (RBT.lookup (t_cohort (st_db s))) \<and> st_cohort s \<inter> dom (RBT.lookup (st_outsider_seen s)) = {}"
proof -
  have ok: "store_ok home s" using reach_inv[OF assms(2,1)] by (rule store_invD)
  then show ?thesis using store_okD[OF ok] by (simp add: caches_ok_def tables_ok_def ids_ok_def)
qed

theorem player_ids_unique_witness:
  "\<exists>s. store_reach sample_lib sample_home s {} \<and> is_seen ''EUW1'' 300 s
     \<and> inj_on (RBT.lookup (st_players s)) (dom (RBT.lookup (st_players s)))"
  using sample_stored player_ids_unique[OF sample_lib_ok] by blast

text \<open>C31: Storing a match counts and adopts exactly once: a match that is new and not a remake adds one sighting to every
  participant outside the cohort, and adopts those that reach two sightings unless growth is paused; a remake or a
  match stored before changes neither cohort nor sightings nor any player's history.\<close>

theorem adoption_exact:
  assumes "lib_ok lib" "store_reach lib home s sk" "match_call home rec puuids ts s"
    and "store_match lib today now rec puuids ts paused s = Inr (rec', ad, s')"
  shows "let pids = fst (assign_player_ids puuids s); new = (\<not> stored_before rec s \<and> \<not> remake rec) in
    ad = (if new then filter (\<lambda>x. adoptable paused s (fst x)) (zip pids puuids) else [])
    \<and> st_cohort s' = st_cohort s \<union> fst ` set ad
    \<and> RBT.lookup (st_outsider_seen s') q =
        (if new \<and> q \<in> set pids \<and> q \<notin> st_cohort s then (if adoptable paused s q then None else Some (sightings s q + 1))
         else RBT.lookup (st_outsider_seen s) q)
    \<and> t_player_tl (st_db s') =
        (if new then insert_all (timeline_rows (game_id rec) ts 0 pids) (t_player_tl (st_db s)) else t_player_tl (st_db s))"
proof -
  have ok: "store_ok home s" using reach_inv[OF assms(2,1)] by (rule store_invD)
  obtain s1 where t: "match_txn rec puuids ts paused s = Inr (rec', ad, s1)"
    and s': "s' = mark_seen (platform rec') (game_id rec') (append_record lib today rec' (roll_writer lib today now (platform rec') s1))"
    using match_txn_ok[OF ok assms(3), of paused] assms(4) by (auto simp: store_match_def Let_def)
  have same: "st_cohort s' = st_cohort s1" "st_outsider_seen s' = st_outsider_seen s1" "t_player_tl (st_db s') = t_player_tl (st_db s1)"
    by (auto simp: s' mark_seen_def append_record_def roll_writer_def durable_checkpoint_def commit_durable_def Let_def
        split: option.split prod.split)
  show ?thesis unfolding Let_def same using match_txn_effect[OF ok assms(3) t] by blast
qed

theorem adoption_exact_witness:
  "\<exists>s rec ad s'. store_reach sample_lib sample_home s {} \<and> store_match sample_lib ''d'' 0 sample_record [''abc''] 5 False s = Inr (rec, ad, s')
     \<and> RBT.lookup (st_outsider_seen s') 1 = Some 1 \<and> ad = []"
proof -
  obtain s where s: "store_reach sample_lib sample_home s {}" "st_db s = empty_tables" "st_next_player_id s = 1"
    "RBT.lookup (st_players s) = (\<lambda>_. None)" "st_cohort s = {}" "RBT.lookup (st_outsider_seen s) = (\<lambda>_. None)" using sample_start by blast
  note call = sample_call[OF s(2-4)]
  have ok: "store_ok sample_home s" using reach_inv[OF s(1) sample_lib_ok] by (rule store_invD)
  obtain rec ad s' where m: "store_match sample_lib ''d'' 0 sample_record [''abc''] 5 False s = Inr (rec, ad, s')"
    using store_match_ok[OF ok call] by blast
  have p: "fst (assign_player_ids [''abc''] s) = [1]" using s(3,4) by (simp add: assign_player_ids_def)
  have n: "\<not> adoptable False s 1" "sightings s 1 = 0" "\<not> stored_before sample_record s" "\<not> remake sample_record"
    using s by (simp_all add: adoptable_def sightings_def ADOPTION_THRESHOLD_def word_le_nat_alt stored_before_def remake_def
        sample_record_def REMAKE_MAX_DURATION_S_def empty_tables_def)
  from adoption_exact[OF sample_lib_ok s(1) call m, of 1] show ?thesis using s(1,5) m p n by (auto simp: Let_def)
qed

end
