(* ===== verification/Store_Frontier.thy ===== *)
theory Store_Frontier
  imports Store_Props
begin

text \<open>
  The store's frontier repair at startup, and the limits of the progress tracker for players who appear on two platforms.
\<close>

section \<open>Reconciliation\<close>

lemma spec_push_fresh:
  assumes "distinct (map fst items)" "\<forall>x \<in> set items. q (fst x) = None"
  shows "fold (\<lambda>(pid, task). spec_push p b d pid task) items q pid =
    (case map_of items pid of Some task \<Rightarrow> Some (p, b, d, task) | None \<Rightarrow> q pid)"
  using assms
proof (induction items arbitrary: q)
  case (Cons x items)
  obtain i task where x: "x = (i, task)" by fastforce
  define q' where "q' = q(i \<mapsto> (p, b, d, task))"
  have s: "spec_push p b d i task q = q'" using Cons.prems(2) by (simp add: spec_push_def x q'_def)
  have i: "map_of items i = None" "i \<notin> fst ` set items" using Cons.prems(1) by (simp_all add: x map_of_eq_None_iff)
  have "\<forall>y \<in> set items. q' (fst y) = None" using Cons.prems(2) i(2) by (auto simp: q'_def)
  then have "fold (\<lambda>(pid, task). spec_push p b d pid task) items q' pid =
    (case map_of items pid of Some task \<Rightarrow> Some (p, b, d, task) | None \<Rightarrow> q' pid)"
    using Cons.IH[of q'] Cons.prems(1) by simp
  moreover have "q' i = Some (p, b, d, task)" "j \<noteq> i \<Longrightarrow> q' j = q j" for j by (simp_all add: q'_def)
  ultimately show ?case using i(1) by (auto simp: x s split: option.splits)
qed simp

text \<open>Pushing the tasks platform by platform.\<close>

definition push_platform :: "(string \<times> u32 \<times> frontier_task) list \<Rightarrow> u64 \<Rightarrow> string \<Rightarrow> nat \<times> store \<Rightarrow> nat \<times> store" where
  "push_platform tasks now p = (\<lambda>(n, s). (n + length (map snd (filter (\<lambda>(p', _). p' = p) tasks)),
     snd (store_frontier (\<lambda>f. ((), frontier_push_batch p BUCKET_PRIORITY now (map snd (filter (\<lambda>(p', _). p' = p) tasks)) f)) s)))"

definition platform_batch :: "(string \<times> u32 \<times> frontier_task) list \<Rightarrow> string \<Rightarrow> (u32 \<times> frontier_task) list" where
  "platform_batch tasks p = map snd (filter (\<lambda>(p', _). p' = p) tasks)"

lemma batch_distinct: "distinct (map (\<lambda>t. fst (snd t)) tasks) \<Longrightarrow> distinct (map fst (platform_batch tasks p))"
  unfolding platform_batch_def by (simp add: comp_def distinct_map_filter)

lemma batch_mem: "distinct (map (\<lambda>t. fst (snd t)) tasks) \<Longrightarrow> map_of (platform_batch tasks p) pid = Some task \<longleftrightarrow> (p, pid, task) \<in> set tasks"
  using batch_distinct[of tasks p] by (auto simp: platform_batch_def image_iff split: prod.splits)

lemma push_platform_queued:
  assumes d: "distinct (map (\<lambda>t. fst (snd t)) tasks)" and wf: "frontier_wf (t_front (st_db s))"
    and none: "\<And>pid task. (p, pid, task) \<in> set tasks \<Longrightarrow> queued (t_front (st_db s)) pid = None"
    and e: "push_platform tasks now p (n, s) = (n', s')"
  shows "frontier_wf (t_front (st_db s'))" "n' = n + length (platform_batch tasks p)"
    and "queued (t_front (st_db s')) pid =
      (case map_of (platform_batch tasks p) pid of Some task \<Rightarrow> Some (p, BUCKET_PRIORITY, now, task) | None \<Rightarrow> queued (t_front (st_db s)) pid)"
proof -
  have s': "t_front (st_db s') = frontier_push_batch p BUCKET_PRIORITY now (platform_batch tasks p) (t_front (st_db s))"
    and n': "n' = n + length (platform_batch tasks p)"
    using e by (auto simp: push_platform_def store_frontier_def commit_fast_def platform_batch_def)
  show "n' = n + length (platform_batch tasks p)" by (rule n')
  show "frontier_wf (t_front (st_db s'))" unfolding s' by (rule push_batch_refines(1)[OF wf])
  have "\<forall>x \<in> set (platform_batch tasks p). queued (t_front (st_db s)) (fst x) = None"
    using none by (auto simp: platform_batch_def)
  then show "queued (t_front (st_db s')) pid =
      (case map_of (platform_batch tasks p) pid of Some task \<Rightarrow> Some (p, BUCKET_PRIORITY, now, task) | None \<Rightarrow> queued (t_front (st_db s)) pid)"
    unfolding s' push_batch_refines(2)[OF wf] by (rule spec_push_fresh[OF batch_distinct[OF d]])
qed

lemma push_platforms:
  assumes "distinct (map (\<lambda>t. fst (snd t)) tasks)" "distinct ps" "frontier_wf (t_front (st_db s))"
    and "\<And>p pid task. (p, pid, task) \<in> set tasks \<Longrightarrow> p \<in> set ps \<Longrightarrow> queued (t_front (st_db s)) pid = None"
    and "fold (push_platform tasks now) ps (n, s) = (n', s')"
  shows "n' = n + length (filter (\<lambda>t. fst t \<in> set ps) tasks)
    \<and> (\<forall>p task. (p, pid, task) \<in> set tasks \<longrightarrow> p \<in> set ps \<longrightarrow> queued (t_front (st_db s')) pid = Some (p, BUCKET_PRIORITY, now, task))
    \<and> ((\<forall>p task. (p, pid, task) \<in> set tasks \<longrightarrow> p \<notin> set ps) \<longrightarrow> queued (t_front (st_db s')) pid = queued (t_front (st_db s)) pid)"
  using assms
proof (induction ps arbitrary: n s)
  case (Cons p ps)
  obtain n1 s1 where e: "push_platform tasks now p (n, s) = (n1, s1)" by fastforce
  note one = push_platform_queued[OF Cons.prems(1,3) _ e]
  have wf1: "frontier_wf (t_front (st_db s1))" "n1 = n + length (platform_batch tasks p)"
    and q1: "\<And>pid. queued (t_front (st_db s1)) pid =
      (case map_of (platform_batch tasks p) pid of Some task \<Rightarrow> Some (p, BUCKET_PRIORITY, now, task) | None \<Rightarrow> queued (t_front (st_db s)) pid)"
    using one Cons.prems(4) by auto
  have uniq: "p2 = p3 \<and> t2 = t3" if "(p2, i, t2) \<in> set tasks" "(p3, i, t3) \<in> set tasks" for p2 p3 i t2 t3
    using Cons.prems(1) that inj_onD[of "\<lambda>t. fst (snd t)" "set tasks" "(p2, i, t2)" "(p3, i, t3)"] by (simp add: distinct_map)
  have other: "queued (t_front (st_db s1)) i = queued (t_front (st_db s)) i" if "\<And>task. (p, i, task) \<notin> set tasks" for i
    using q1[of i] batch_mem[OF Cons.prems(1), of p i] that by (auto split: option.splits)
  have none1: "queued (t_front (st_db s1)) i = None" if "(p', i, task) \<in> set tasks" "p' \<in> set ps" for p' i task
  proof -
    have "p' \<noteq> p" using that(2) Cons.prems(2) by auto
    then have "(p, i, task') \<notin> set tasks" for task' using uniq[OF that(1)] by blast
    then show ?thesis using other Cons.prems(4)[OF that(1)] that(2) by simp
  qed
  have IH: "n' = n1 + length (filter (\<lambda>t. fst t \<in> set ps) tasks)"
    "\<And>p task. (p, pid, task) \<in> set tasks \<Longrightarrow> p \<in> set ps \<Longrightarrow> queued (t_front (st_db s')) pid = Some (p, BUCKET_PRIORITY, now, task)"
    "(\<forall>p task. (p, pid, task) \<in> set tasks \<longrightarrow> p \<notin> set ps) \<Longrightarrow> queued (t_front (st_db s')) pid = queued (t_front (st_db s1)) pid"
    using Cons.IH[OF Cons.prems(1) _ wf1(1) none1, where n = n1] Cons.prems(2,5) e by auto
  have "length (filter (\<lambda>t. fst t \<in> set (p # ps)) tasks) = length (platform_batch tasks p) + length (filter (\<lambda>t. fst t \<in> set ps) tasks)"
    using Cons.prems(2) by (induction tasks) (auto simp: platform_batch_def)
  moreover have "queued (t_front (st_db s')) pid = Some (p, BUCKET_PRIORITY, now, task)" if "(p, pid, task) \<in> set tasks" for task
  proof -
    have "map_of (platform_batch tasks p) pid = Some task" using batch_mem[OF Cons.prems(1)] that by blast
    moreover have "p' \<notin> set ps" if "(p', pid, task') \<in> set tasks" for p' task'
      using uniq[OF \<open>(p, pid, task) \<in> set tasks\<close> that] Cons.prems(2) by simp
    ultimately show ?thesis using IH(3) q1[of pid] by simp
  qed
  moreover have "queued (t_front (st_db s')) pid = queued (t_front (st_db s)) pid"
    if "\<forall>p' task. (p', pid, task) \<in> set tasks \<longrightarrow> p' \<notin> set (p # ps)"
  proof -
    have "queued (t_front (st_db s')) pid = queued (t_front (st_db s1)) pid" using IH(3) that by auto
    also have "\<dots> = queued (t_front (st_db s)) pid" using other that by auto
    finally show ?thesis .
  qed
  ultimately show ?case using IH(1,2) wf1(2) by auto
qed simp


lemma reconcile_fold:
  "frontier_reconcile now s = fold (push_platform (List.map_filter (stranded_task s)
     (filter (\<lambda>pid. RBT.lookup (t_frontier_idx (t_front (st_db s))) pid = None) (RBT.keys (t_cohort (st_db s)))))
     now) (map rg_platform enabled_regions) (0, s)"
  unfolding frontier_reconcile_def push_platform_def Let_def by (rule refl)

lemma stranded_task_pid: "stranded_task s pid = Some (p, pid', task) \<Longrightarrow> pid' = pid \<and> enabled p"
  by (auto simp: stranded_task_def find_Some_iff enabled_def split: option.splits list.splits prod.splits)

lemma map_filter_mem: "y \<in> set (List.map_filter f xs) \<longleftrightarrow> (\<exists>x \<in> set xs. f x = Some y)"
  by (induction xs) (auto simp: List.map_filter_simps split: option.splits)

lemma stranded_distinct:
  assumes "distinct xs"
  shows "distinct (map (\<lambda>t. fst (snd t)) (List.map_filter (stranded_task s) xs))"
  using assms
proof (induction xs)
  case (Cons x xs)
  have "fst (snd t) \<in> set xs" if "t \<in> set (List.map_filter (stranded_task s) xs)" for t
    using that stranded_task_pid[of s _ "fst t" "fst (snd t)" "snd (snd t)"] by (auto simp: map_filter_mem)
  then show ?case using Cons stranded_task_pid[of s x]
    by (auto simp: List.map_filter_simps split: option.splits)
qed (simp add: List.map_filter_simps)

lemma enabled_distinct: "distinct (map rg_platform enabled_regions)"
  by (simp add: enabled_regions_def ALL_REGIONS_def ENABLED_REGIONS_def)

section \<open>Properties\<close>

text \<open>The startup repair is exact: a player that is queued keeps its schedule; a cohort member that is not queued, has a puuid and
  whose latest stored game is on an enabled platform is queued there as a priority task due now; nobody else is queued; and the
  reported number is the number of players put back.\<close>

theorem reconcile_requeues:
  assumes "lib_ok lib" "store_reach lib home s sk" "frontier_reconcile now s = (n, s')"
  shows "queued (t_front (st_db s')) pid =
      (case queued (t_front (st_db s)) pid of
         Some sched \<Rightarrow> Some sched
       | None \<Rightarrow> if pid \<in> st_cohort s
           then map_option (\<lambda>(p, _, task). (p, BUCKET_PRIORITY, now, task)) (stranded_task s pid) else None)
    \<and> n = card {pid \<in> st_cohort s. queued (t_front (st_db s)) pid = None \<and> stranded_task s pid \<noteq> None}"
proof -
  have ok: "store_ok home s" using reach_inv[OF assms(2,1)] by (rule store_invD)
  have wf: "frontier_wf (t_front (st_db s))" and co: "st_cohort s = set (RBT.keys (t_cohort (st_db s)))"
    using store_okD(1,3)[OF ok] by (auto simp: tables_ok_def caches_ok_def RBT.lookup_keys)
  let ?xs = "filter (\<lambda>pid. RBT.lookup (t_frontier_idx (t_front (st_db s))) pid = None) (RBT.keys (t_cohort (st_db s)))"
  let ?tasks = "List.map_filter (stranded_task s) ?xs"
  have d: "distinct (map (\<lambda>t. fst (snd t)) ?tasks)" by (rule stranded_distinct) (simp add: RBT.distinct_keys)
  have mem: "(p, i, task) \<in> set ?tasks \<longleftrightarrow> i \<in> st_cohort s \<and> queued (t_front (st_db s)) i = None \<and> stranded_task s i = Some (p, i, task)" for p i task
    using stranded_task_pid[of s _ p i task] by (auto simp: map_filter_mem co queued_None[OF wf])
  have en: "p \<in> set (map rg_platform enabled_regions)" if "(p, i, task) \<in> set ?tasks" for p i task
    using that stranded_task_pid[of s i p i task] by (simp add: mem enabled_def)
  have none: "queued (t_front (st_db s)) i = None" if "(p, i, task) \<in> set ?tasks" for p i task using that mem by blast
  from push_platforms[OF d enabled_distinct wf none assms(3)[unfolded reconcile_fold]]
  have r: "n = length (filter (\<lambda>t. fst t \<in> set (map rg_platform enabled_regions)) ?tasks)"
    "\<And>p i task. (p, i, task) \<in> set ?tasks \<Longrightarrow> queued (t_front (st_db s')) i = Some (p, BUCKET_PRIORITY, now, task)"
    "\<And>i. (\<forall>p task. (p, i, task) \<notin> set ?tasks) \<Longrightarrow> queued (t_front (st_db s')) i = queued (t_front (st_db s)) i"
    using en by auto
  have "filter (\<lambda>t. fst t \<in> set (map rg_platform enabled_regions)) ?tasks = ?tasks"
    by (rule filter_True) (metis en prod.collapse)
  then have "n = card (set (map (\<lambda>t. fst (snd t)) ?tasks))" using r(1) distinct_card[OF d] by simp
  moreover have "set (map (\<lambda>t. fst (snd t)) ?tasks) = {pid \<in> st_cohort s. queued (t_front (st_db s)) pid = None \<and> stranded_task s pid \<noteq> None}"
  proof (intro equalityI subsetI)
    fix i assume "i \<in> set (map (\<lambda>t. fst (snd t)) ?tasks)"
    then obtain p task where "(p, i, task) \<in> set ?tasks" by auto
    then show "i \<in> {pid \<in> st_cohort s. queued (t_front (st_db s)) pid = None \<and> stranded_task s pid \<noteq> None}" using mem by blast
  next
    fix i assume i: "i \<in> {pid \<in> st_cohort s. queued (t_front (st_db s)) pid = None \<and> stranded_task s pid \<noteq> None}"
    then obtain p i' task where t: "stranded_task s i = Some (p, i', task)" by auto
    then have "(p, i, task) \<in> set ?tasks" using mem i stranded_task_pid[OF t] by auto
    then show "i \<in> set (map (\<lambda>t. fst (snd t)) ?tasks)" by force
  qed
  moreover have "queued (t_front (st_db s')) pid =
      (case queued (t_front (st_db s)) pid of
         Some sched \<Rightarrow> Some sched
       | None \<Rightarrow> if pid \<in> st_cohort s
           then map_option (\<lambda>(p, _, task). (p, BUCKET_PRIORITY, now, task)) (stranded_task s pid) else None)"
  proof (cases "queued (t_front (st_db s)) pid = None \<and> pid \<in> st_cohort s \<and> stranded_task s pid \<noteq> None")
    case True
    then obtain p i' task where t: "stranded_task s pid = Some (p, i', task)" by auto
    then have "(p, pid, task) \<in> set ?tasks" using mem True stranded_task_pid[OF t] by auto
    then show ?thesis using r(2) True t by simp
  next
    case False
    then have "queued (t_front (st_db s')) pid = queued (t_front (st_db s)) pid" using r(3) mem by auto
    then show ?thesis using False by (cases "stranded_task s pid") (auto split: option.splits)
  qed
  ultimately show ?thesis by simp
qed

theorem reconcile_requeues_witness:
  "\<exists>s n s'. store_reach sample_lib sample_home s {} \<and> frontier_reconcile 9 s = (n, s')
     \<and> n = card {pid \<in> st_cohort s. queued (t_front (st_db s)) pid = None \<and> stranded_task s pid \<noteq> None}"
proof -
  obtain s where s: "store_reach sample_lib sample_home s {}" using sample_stored by blast
  obtain n s' where e: "frontier_reconcile 9 s = (n, s')" by fastforce
  show ?thesis using s e reconcile_requeues[OF sample_lib_ok s e] by blast
qed

text \<open>The tracker is not exact for a player with games on two platforms, because player timelines record the game id without its
  platform.  Here player 7 has a later game 2 on NA1, and EUW1 has another game 2 that player 7 did not play.  Storing an
  earlier EUW1 game of player 7 leaves the NA1 slot at zero although there is one earlier stored game now, and credits the slot of player 8
  in the EUW1 game, who has no earlier game.\<close>

theorem cross_platform_miscredit:
  "\<exists>tlt prog tlt' prog' nv. track_history ''EUW1'' 1 5 [7] tlt prog = Inr (tlt', prog', nv)
     \<and> RBT.lookup tlt (7, 10) = Some (2, 0) \<and> RBT.lookup tlt (8, 3) = Some (2, 0)
     \<and> games_before tlt' 7 10 = 1 \<and> RBT.lookup prog' (''NA1'', 2) = Some (replicate 11 0)
     \<and> games_before tlt' 8 3 = 0 \<and> RBT.lookup prog' (''EUW1'', 2) = Some (1 # replicate 10 0)"
proof -
  let ?tl = "RBT.insert (8, 3) (2, 0) (RBT.insert (7, 10) (2, 0) RBT.empty) :: timeline_table"
  let ?pr = "RBT.insert (''NA1'', 2) (replicate 11 0) (RBT.insert (''EUW1'', 2) (replicate 11 0) RBT.empty) :: progress_table"
  have "case track_history ''EUW1'' 1 5 [7] ?tl ?pr of Inl _ \<Rightarrow> False | Inr (tlt', prog', nv) \<Rightarrow>
      length (range_until (7, 0) (7, 10) tlt') = 1 \<and> length (range_until (8, 0) (8, 3) tlt') = 0
      \<and> RBT.lookup prog' (''NA1'', 2) = Some (replicate 11 0) \<and> RBT.lookup prog' (''EUW1'', 2) = Some (1 # replicate 10 0)"
    by code_simp
  then obtain tlt' prog' nv where "track_history ''EUW1'' 1 5 [7] ?tl ?pr = Inr (tlt', prog', nv)"
      "length (range_until (7, 0) (7, 10) tlt') = 1" "length (range_until (8, 0) (8, 3) tlt') = 0"
      "RBT.lookup prog' (''NA1'', 2) = Some (replicate 11 0)" "RBT.lookup prog' (''EUW1'', 2) = Some (1 # replicate 10 0)"
    by (force split: sum.splits prod.splits)
  moreover have "RBT.lookup ?tl (7, 10) = Some (2, 0) \<and> RBT.lookup ?tl (8, 3) = Some (2, 0)" by simp
  ultimately show ?thesis unfolding length_range_until by blast
qed

end
