(* ===== verification/Invites.thy ===== *)
theory Invites
  imports Rust_Text
begin

text \<open>
  One-time invite codes (\<^verbatim>\<open>crates/server/src/invites.rs\<close>): a text file with a line \<open>CODE<TAB>label\<close> per invite.  The
  file is its text, \<open>None\<close> when it cannot be read; the ten draws of the random generator are an argument; errors of writing
  are dropped.  \<^verbatim>\<open>consume\<close> reads the file and writes it back under no lock: \<open>invite_checked\<close> is what it decides on the text it read and
  \<open>invite_consume\<close> the whole call when nothing comes between.  The specification is the list of open invites; it is for calls one after
  another, and what overlapping calls do is shown with the enrolments in the theory of the handlers.
\<close>

section \<open>Lines\<close>

text \<open>\<^verbatim>\<open>str::lines\<close>: lines end in a newline, optionally with a carriage return before it; the last line may lack the ending.\<close>

definition strip_cr :: "string \<Rightarrow> string" where
  "strip_cr l = (if l \<noteq> [] \<and> last l = CHR 0x0D then butlast l else l)"

definition text_lines :: "string \<Rightarrow> string list" where
  "text_lines s =
     (let ps = split_on (CHR 0x0A) s in map strip_cr (butlast ps) @ (if last ps = [] then [] else [last ps]))"

text \<open>\<^verbatim>\<open>join\<close>\<close>

fun join_with :: "string \<Rightarrow> string list \<Rightarrow> string" where
  "join_with sep [] = []"
| "join_with sep [x] = x"
| "join_with sep (x # y # zs) = x @ sep @ join_with sep (y # zs)"

section \<open>Operations\<close>

definition ALPHABET :: string where "ALPHABET = ''ABCDEFGHJKMNPQRSTUVWXYZ23456789''"

definition invite_create :: "nat list \<Rightarrow> string \<Rightarrow> string option \<Rightarrow> string \<times> string option" where
  "invite_create draws label file =
     (let code = map (\<lambda>d. ALPHABET ! d) draws;
          content = (case file of Some c \<Rightarrow> c | None \<Rightarrow> []);
          content = (if content \<noteq> [] \<and> last content \<noteq> CHR 0x0A then content @ [CHR 0x0A] else content);
          content = content @ code @ [CHR 0x09] @ label @ [CHR 0x0A]
      in (code, Some content))"

definition invite_matches :: "string \<Rightarrow> string \<Rightarrow> bool" where
  "invite_matches code line \<longleftrightarrow> hd (split_on (CHR 0x09) line) = trim code"

text \<open>The reading part of \<^verbatim>\<open>consume\<close>: the text to write when the code is there.\<close>

definition invite_checked :: "string \<Rightarrow> string option \<Rightarrow> string option" where
  "invite_checked code file =
     (case file of
        None \<Rightarrow> None
      | Some content \<Rightarrow>
          let found = list_ex (invite_matches code) (text_lines content);
              kept = filter (\<lambda>line. \<not> invite_matches code line) (text_lines content)
          in if found then
               let out = join_with [CHR 0x0A] kept;
                   out = (if out \<noteq> [] then out @ [CHR 0x0A] else out)
               in Some out
             else None)"

definition invite_consume :: "string \<Rightarrow> string option \<Rightarrow> bool \<times> string option" where
  "invite_consume code file =
     (case invite_checked code file of Some out \<Rightarrow> (True, Some out) | None \<Rightarrow> (False, file))"

section \<open>The open invites\<close>

text \<open>An open invite is a code and a label; the file of a list of invites.\<close>

definition invite_line :: "string \<times> string \<Rightarrow> string" where
  "invite_line = (\<lambda>(code, label). code @ [CHR 0x09] @ label)"

definition invite_file :: "(string \<times> string) list \<Rightarrow> string" where
  "invite_file invs = concat (map (\<lambda>i. invite_line i @ [CHR 0x0A]) invs)"

definition clean_code :: "string \<Rightarrow> bool" where
  "clean_code code \<longleftrightarrow> code \<noteq> [] \<and> set code \<subseteq> set ALPHABET"

definition clean_label :: "string \<Rightarrow> bool" where
  "clean_label l \<longleftrightarrow> CHR 0x0A \<notin> set l \<and> CHR 0x0D \<notin> set l"

definition clean_invite :: "string \<times> string \<Rightarrow> bool" where
  "clean_invite i \<longleftrightarrow> clean_code (fst i) \<and> clean_label (snd i)"

lemma split_on_none: "c \<notin> set xs \<Longrightarrow> split_on c xs = [xs]"
  by (induction xs) auto

lemma split_on_append: "c \<notin> set xs \<Longrightarrow> split_on c (xs @ c # ys) = xs # split_on c ys"
  by (induction xs) auto

lemma split_on_not_Nil [simp]: "split_on c xs \<noteq> []"
  by (cases xs) (auto split: list.split)

lemma clean_line:
  assumes "clean_invite i"
  shows "CHR 0x0A \<notin> set (invite_line i)" "strip_cr (invite_line i) = invite_line i" "invite_line i \<noteq> []"
    and "hd (split_on (CHR 0x09) (invite_line i)) = fst i"
proof -
  obtain code label where i: "i = (code, label)" by fastforce
  have c: "set code \<subseteq> set ALPHABET" and l: "clean_label label" using assms by (auto simp: i clean_invite_def clean_code_def)
  have nt: "CHR 0x09 \<notin> set code" "CHR 0x0A \<notin> set code" "CHR 0x0D \<notin> set code" using c by (auto simp: ALPHABET_def)
  show "CHR 0x0A \<notin> set (invite_line i)" "invite_line i \<noteq> []" using nt l by (auto simp: i invite_line_def clean_label_def)
  have "CHR 0x0D \<notin> set (invite_line i)" using nt l by (auto simp: i invite_line_def clean_label_def)
  then show "strip_cr (invite_line i) = invite_line i" by (metis last_in_set strip_cr_def)
  show "hd (split_on (CHR 0x09) (invite_line i)) = fst i" using nt by (simp add: i invite_line_def split_on_append)
qed

lemma lines_cons: "CHR 0x0A \<notin> set l \<Longrightarrow> strip_cr l = l \<Longrightarrow> text_lines (l @ CHR 0x0A # s) = l # text_lines s"
  by (simp add: text_lines_def split_on_append Let_def)

lemma file_lines: "\<forall>i \<in> set invs. clean_invite i \<Longrightarrow> text_lines (invite_file invs) = map invite_line invs"
proof (induction invs)
  case Nil
  then show ?case by (simp add: invite_file_def text_lines_def)
next
  case (Cons i invs)
  then show ?case using lines_cons[of "invite_line i" "invite_file invs"] clean_line(1,2)[of i] by (simp add: invite_file_def)
qed

lemma join_lines: "ls \<noteq> [] \<Longrightarrow> join_with [c] ls @ [c] = concat (map (\<lambda>l. l @ [c]) ls)"
  by (induction "[c]" ls rule: join_with.induct) auto

lemma join_empty: "join_with sep ls = [] \<Longrightarrow> \<forall>l \<in> set ls. l \<noteq> [] \<Longrightarrow> ls = []"
  by (induction sep ls rule: join_with.induct) auto

text \<open>A code is matched as it is or with white space around it.\<close>

lemma consume_file:
  assumes "\<forall>i \<in> set invs. clean_invite i"
  shows "invite_consume code (Some (invite_file invs)) =
    (trim code \<in> fst ` set invs, Some (invite_file (filter (\<lambda>i. fst i \<noteq> trim code) invs)))"
proof -
  have m: "invite_matches code (invite_line i) \<longleftrightarrow> fst i = trim code" if "i \<in> set invs" for i
    using clean_line(4)[of i] assms that by (simp add: invite_matches_def)
  have f: "list_ex (invite_matches code) (text_lines (invite_file invs)) \<longleftrightarrow> trim code \<in> fst ` set invs"
    unfolding file_lines[OF assms] using m by (force simp: list_ex_iff)
  have k: "filter (\<lambda>line. \<not> invite_matches code line) (text_lines (invite_file invs)) =
      map invite_line (filter (\<lambda>i. fst i \<noteq> trim code) invs)" (is "_ = map invite_line ?kept")
    unfolding file_lines[OF assms] using m by (induction invs) auto
  have "\<forall>l \<in> set (map invite_line ?kept). l \<noteq> []" using clean_line(3) assms by auto
  then have j: "(let out = join_with [CHR 0x0A] (map invite_line ?kept) in if out \<noteq> [] then out @ [CHR 0x0A] else out) = invite_file ?kept"
    using join_lines[of "map invite_line ?kept" "CHR 0x0A"] join_empty[of "[CHR 0x0A]" "map invite_line ?kept"]
    by (cases "?kept = []") (auto simp: invite_file_def comp_def Let_def)
  have "filter (\<lambda>i. fst i \<noteq> trim code) invs = invs" if "trim code \<notin> fst ` set invs"
    using that by (intro filter_True) (metis image_eqI)
  then show ?thesis using f k j by (auto simp: invite_consume_def invite_checked_def Let_def)
qed

lemma create_file:
  "invite_create draws label (Some (invite_file invs)) =
     (map (\<lambda>d. ALPHABET ! d) draws, Some (invite_file (invs @ [(map (\<lambda>d. ALPHABET ! d) draws, label)])))"
proof -
  have "invite_file invs = [] \<or> last (invite_file invs) = CHR 0x0A"
    by (cases invs rule: rev_cases) (simp_all add: invite_file_def)
  then show ?thesis by (auto simp: invite_create_def invite_file_def invite_line_def Let_def)
qed

lemma create_none: "invite_create draws label None = invite_create draws label (Some (invite_file []))"
  by (simp add: invite_create_def invite_file_def)

section \<open>Histories\<close>

datatype invite_op = Create "nat list" string | Consume string

datatype invite_out = Minted string | Checked bool

fun invite_exec :: "invite_op \<Rightarrow> string option \<Rightarrow> invite_out \<times> string option" where
  "invite_exec (Create draws label) f = map_prod Minted id (invite_create draws label f)"
| "invite_exec (Consume code) f = map_prod Checked id (invite_consume code f)"

fun invite_run :: "invite_op list \<Rightarrow> string option \<Rightarrow> invite_out list \<times> string option" where
  "invite_run [] f = ([], f)"
| "invite_run (x # xs) f =
     (case invite_exec x f of (r, f) \<Rightarrow> case invite_run xs f of (rs, f) \<Rightarrow> (r # rs, f))"

text \<open>The same history on the open invites.\<close>

fun invites_exec :: "invite_op \<Rightarrow> (string \<times> string) list \<Rightarrow> invite_out \<times> (string \<times> string) list" where
  "invites_exec (Create draws label) invs =
     (let code = map (\<lambda>d. ALPHABET ! d) draws in (Minted code, invs @ [(code, label)]))"
| "invites_exec (Consume code) invs =
     (Checked (trim code \<in> fst ` set invs), filter (\<lambda>i. fst i \<noteq> trim code) invs)"

fun invites_run :: "invite_op list \<Rightarrow> (string \<times> string) list \<Rightarrow> invite_out list \<times> (string \<times> string) list" where
  "invites_run [] invs = ([], invs)"
| "invites_run (x # xs) invs =
     (case invites_exec x invs of (r, invs) \<Rightarrow> case invites_run xs invs of (rs, invs) \<Rightarrow> (r # rs, invs))"

definition valid_invite_op :: "invite_op \<Rightarrow> bool" where
  "valid_invite_op x = (case x of Create draws label \<Rightarrow> length draws = 10 \<and> (\<forall>d \<in> set draws. d < length ALPHABET) \<and> clean_label label | Consume _ \<Rightarrow> True)"

text \<open>The file holds the open invites; a file that is missing holds none.\<close>

definition holds_invites :: "string option \<Rightarrow> (string \<times> string) list \<Rightarrow> bool" where
  "holds_invites f invs \<longleftrightarrow> (\<forall>i \<in> set invs. clean_invite i) \<and> (f = Some (invite_file invs) \<or> f = None \<and> invs = [])"

lemma invite_exec_refines:
  assumes "holds_invites f invs" "valid_invite_op x" "invite_exec x f = (r, f')"
  shows "\<exists>invs'. invites_exec x invs = (r, invs') \<and> holds_invites f' invs'"
proof (cases x)
  case (Create draws label)
  let ?code = "map (\<lambda>d. ALPHABET ! d) draws"
  have "clean_invite (?code, label)"
    using assms(2) Create by (auto simp: valid_invite_op_def clean_invite_def clean_code_def)
  moreover have "invite_exec x f = (Minted ?code, Some (invite_file (invs @ [(?code, label)])))"
    using assms(1) create_file[of draws label invs] create_none[of draws label] Create by (auto simp: holds_invites_def)
  ultimately show ?thesis using assms(1,3) Create by (auto simp: holds_invites_def Let_def)
next
  case (Consume code)
  show ?thesis using assms(1,3) consume_file[of invs code] Consume
    by (auto simp: holds_invites_def invite_consume_def invite_checked_def)
qed

lemma consume_holds:
  assumes "holds_invites f invs"
  shows "\<exists>f'. invite_consume code f = (trim code \<in> fst ` set invs, f') \<and> holds_invites f' (filter (\<lambda>i. fst i \<noteq> trim code) invs)
    \<and> (trim code \<in> fst ` set invs \<or> f' = f)"
proof (cases f)
  case None
  then show ?thesis using assms by (simp add: holds_invites_def invite_consume_def invite_checked_def)
next
  case (Some c)
  then have c: "c = invite_file invs" and cl: "\<forall>i \<in> set invs. clean_invite i" using assms by (auto simp: holds_invites_def)
  have "filter (\<lambda>i. fst i \<noteq> trim code) invs = invs" if "trim code \<notin> fst ` set invs"
    using that by (intro filter_True) (metis image_eqI)
  then show ?thesis using consume_file[OF cl, of code] cl unfolding Some c by (cases "trim code \<in> fst ` set invs") (simp_all add: holds_invites_def)
qed

lemma invite_run_refines:
  "holds_invites f invs \<Longrightarrow> list_all valid_invite_op ops \<Longrightarrow>
     fst (invite_run ops f) = fst (invites_run ops invs) \<and> holds_invites (snd (invite_run ops f)) (snd (invites_run ops invs))"
proof (induction ops arbitrary: f invs)
  case (Cons x xs)
  obtain r f' where e: "invite_exec x f = (r, f')" by fastforce
  then obtain invs' where s: "invites_exec x invs = (r, invs')" "holds_invites f' invs'"
    using invite_exec_refines[OF Cons.prems(1) _ e] Cons.prems(2) by auto
  show ?case using Cons.IH[OF s(2)] Cons.prems(2) e s(1) by (auto split: prod.splits)
qed simp

section \<open>Properties\<close>

text \<open>C19: The invite file implements the list of open invites: over every history of minting and checking codes one after another, starting without a file,
  each call answers what the list answers and the file holds exactly the open invites.  In the list, minting appends an invite, and checking a code
  (spaces around it ignored) succeeds exactly when it is open and uses it up, leaving the other invites.\<close>

theorem invites_single_use:
  assumes "list_all valid_invite_op ops"
  shows "fst (invite_run ops None) = fst (invites_run ops [])
    \<and> text_lines (case snd (invite_run ops None) of Some c \<Rightarrow> c | None \<Rightarrow> []) = map invite_line (snd (invites_run ops []))"
proof -
  have "holds_invites None []" by (simp add: holds_invites_def)
  note r = invite_run_refines[OF this assms]
  moreover have "text_lines (case f of Some c \<Rightarrow> c | None \<Rightarrow> []) = map invite_line invs" if "holds_invites f invs" for f invs
    using that file_lines[of invs] by (auto simp: holds_invites_def text_lines_def)
  ultimately show ?thesis by blast
qed

theorem invites_single_use_witness:
  "fst (invite_run [Create [0, 0, 0, 0, 0, 0, 0, 0, 0, 1] ''bob'', Consume '' AAAAAAAAAB'', Consume ''AAAAAAAAAB''] None) =
     [Minted ''AAAAAAAAAB'', Checked True, Checked False]"
proof -
  have "list_all valid_invite_op [Create [0, 0, 0, 0, 0, 0, 0, 0, 0, 1] ''bob'', Consume '' AAAAAAAAAB'', Consume ''AAAAAAAAAB'']"
    by (simp add: valid_invite_op_def clean_label_def ALPHABET_def)
  from invites_single_use[OF this] show ?thesis
    by (auto simp: ALPHABET_def trim_def is_space_def Let_def)
qed

end
