(* ===== verification/Api.thy ===== *)
theory Api
  imports Store_Frontier Broker_Props Invites
begin

text \<open>
  The node-facing server: the HTTP handlers of \<^verbatim>\<open>crates/server/src/api.rs\<close> over the broker, the registry, the counters, the store and
  the invite file, and the start of the server in \<^verbatim>\<open>crates/server/src/main.rs\<close>.

  A handler is a function from the request to the reply and the new state; \<^verbatim>\<open>enroll\<close> holds no lock from one end to the other, and
  each of its parts (the name check, the invite, the stored node, the registry) is a definition of its own, so that concurrent enrolments can be interleaved; the
  invite file is read and written back with no lock at all, and is split at that point too.  The registry and the counters are those of
  the broker, which shares them.  SHA-256 is the parameter \<open>hash\<close>; random bytes, clock readings and the iteration order of hash maps
  are arguments.  A header is its text, \<open>None\<close> when it is absent or no text.
\<close>

section \<open>Messages and state\<close>

definition PROTOCOL_VERSION :: nat where "PROTOCOL_VERSION = 1"

definition MAX_WAIT_MS :: nat where "MAX_WAIT_MS = 30000"

record headers =
  hd_proto :: "string option"
  hd_authorization :: "string option"

record enroll_request =
  er_invite_code :: string
  er_name :: string

record window_counts =
  wc_m60 :: nat
  wc_h24 :: nat
  wc_d7 :: nat
  wc_all :: nat

record node_stats_entry =
  ns_name :: string
  ns_online :: bool
  ns_requests :: window_counts
  ns_matches :: window_counts

datatype api_reply =
    Refused nat
  | EnrollResponse string string
  | WorkResponse "job list"
  | ResultResponse
  | StatsResponse string "node_stats_entry list" nat

record server =
  sv_broker :: broker
  sv_store :: store
  sv_invites :: "string option"

definition on_registry :: "(registry \<Rightarrow> registry) \<Rightarrow> server \<Rightarrow> server" where
  "on_registry f sv = sv\<lparr>sv_broker := (sv_broker sv)\<lparr>b_registry := f (b_registry (sv_broker sv))\<rparr>\<rparr>"

abbreviation sv_registry :: "server \<Rightarrow> registry" where "sv_registry sv \<equiv> b_registry (sv_broker sv)"

section \<open>Tokens\<close>

text \<open>\<^verbatim>\<open>{b:02x}\<close>\<close>

definition hex_byte :: "u8 \<Rightarrow> string" where
  "hex_byte b = [''0123456789abcdef'' ! unat (b div 16), ''0123456789abcdef'' ! unat (b mod 16)]"

definition generate_token :: "u8 list \<Rightarrow> string" where
  "generate_token random = concat (map hex_byte random)"

section \<open>Checks\<close>

definition check_proto :: "headers \<Rightarrow> api_reply option" where
  "check_proto h =
     (if (case hd_proto h of Some v \<Rightarrow> parse_uint (2 ^ 32) v | None \<Rightarrow> None) = Some PROTOCOL_VERSION then None else Some (Refused 426))"

definition strip_prefix :: "string \<Rightarrow> string \<Rightarrow> string option" where
  "strip_prefix p s = (if take (length p) s = p then Some (drop (length p) s) else None)"

definition api_auth :: "(string \<Rightarrow> string) \<Rightarrow> headers \<Rightarrow> registry \<Rightarrow> api_reply + nat" where
  "api_auth hash h r =
     (case Option.bind (Option.bind (hd_authorization h) (strip_prefix ''Bearer '')) (\<lambda>t. auth hash t r) of
        Some i \<Rightarrow> Inr i
      | None \<Rightarrow> Inl (Refused 401))"

definition valid_name :: "string \<Rightarrow> bool" where
  "valid_name name \<longleftrightarrow> 1 \<le> length name \<and> length name \<le> 32
     \<and> list_all (\<lambda>c. 97 \<le> (of_char c :: nat) \<and> of_char c \<le> (122 :: nat) \<or> is_digit c \<or> c = CHR ''-'' \<or> c = CHR ''_'') name"

section \<open>Enrolment\<close>

definition enroll_validate :: "nat list \<Rightarrow> headers \<Rightarrow> enroll_request \<Rightarrow> server \<Rightarrow> api_reply option" where
  "enroll_validate order h req sv =
     (case check_proto h of
        Some r \<Rightarrow> Some r
      | None \<Rightarrow>
          if \<not> valid_name (er_name req) then Some (Refused 400)
          else if name_taken order (er_name req) (sv_registry sv) then Some (Refused 409)
          else None)"

definition enroll_invite :: "enroll_request \<Rightarrow> server \<Rightarrow> api_reply option \<times> server" where
  "enroll_invite req sv =
     (case invite_consume (er_invite_code req) (sv_invites sv) of
        (True, f) \<Rightarrow> (None, sv\<lparr>sv_invites := f\<rparr>)
      | (False, f) \<Rightarrow> (Some (Refused 403), sv\<lparr>sv_invites := f\<rparr>))"

definition enroll_persist :: "(string \<Rightarrow> string) \<Rightarrow> string \<Rightarrow> u64 \<Rightarrow> enroll_request \<Rightarrow> server \<Rightarrow> nat \<times> server" where
  "enroll_persist hash token now req sv =
     (case node_add (er_name req) (hash token) now (sv_store sv) of (i, s) \<Rightarrow> (unat i, sv\<lparr>sv_store := s\<rparr>))"

definition enroll_publish :: "(string \<Rightarrow> string) \<Rightarrow> string \<Rightarrow> nat \<Rightarrow> enroll_request \<Rightarrow> server \<Rightarrow> api_reply \<times> server" where
  "enroll_publish hash token i req sv =
     (EnrollResponse token (er_name req), on_registry (enroll_runtime i (er_name req) (hash token)) sv)"

definition api_enroll ::
  "(string \<Rightarrow> string) \<Rightarrow> nat list \<Rightarrow> u8 list \<Rightarrow> u64 \<Rightarrow> headers \<Rightarrow> enroll_request \<Rightarrow> server \<Rightarrow> api_reply \<times> server" where
  "api_enroll hash order random now h req sv =
     (case enroll_validate order h req sv of
        Some r \<Rightarrow> (r, sv)
      | None \<Rightarrow>
          (case enroll_invite req sv of
             (Some r, sv) \<Rightarrow> (r, sv)
           | (None, sv) \<Rightarrow>
               let token = generate_token random in
               (case enroll_persist hash token now req sv of (i, sv) \<Rightarrow> enroll_publish hash token i req sv)))"

section \<open>Work\<close>

text \<open>A pass of the long poll: what other tasks did to the broker before it, and the readings it makes.\<close>

record poll_io =
  pl_env :: "broker \<Rightarrow> broker"
  pl_hosts :: "string list"
  pl_order :: "nat list"
  pl_rolls :: "bool list"
  pl_now :: nat
  pl_after :: nat

fun work_loop :: "nat \<Rightarrow> (string \<Rightarrow> nat option) \<Rightarrow> nat \<Rightarrow> poll_io list \<Rightarrow> broker \<Rightarrow> (job list \<times> broker) option" where
  "work_loop node pending deadline [] b = None"
| "work_loop node pending deadline (io # ios) b =
     (let b = pl_env io b in
      if shutdown_flag b then Some ([], b)
      else case take_jobs (pl_hosts io) (pl_order io) (pl_rolls io) (pl_now io) node pending b of
        (js, b) \<Rightarrow>
          if js \<noteq> [] \<or> deadline \<le> pl_after io then Some (js, b)
          else work_loop node pending deadline ios b)"

record work_request =
  wr_pending :: "string \<Rightarrow> nat option"
  wr_wait_ms :: nat

text \<open>\<open>None\<close> while the poll is still waiting.\<close>

definition api_work ::
  "(string \<Rightarrow> string) \<Rightarrow> nat \<Rightarrow> poll_io list \<Rightarrow> headers \<Rightarrow> work_request \<Rightarrow> server \<Rightarrow> (api_reply \<times> server) option" where
  "api_work hash now ios h req sv =
     (case check_proto h of
        Some r \<Rightarrow> Some (r, sv)
      | None \<Rightarrow>
          (case api_auth hash h (sv_registry sv) of
             Inl r \<Rightarrow> Some (r, sv)
           | Inr node \<Rightarrow>
               let sv = on_registry (touch now node) sv;
                   deadline = now + min (wr_wait_ms req) MAX_WAIT_MS
               in map_option (\<lambda>(js, b). (WorkResponse js, sv\<lparr>sv_broker := b\<rparr>))
                    (work_loop node (wr_pending req) deadline ios (sv_broker sv))))"

section \<open>Results and statistics\<close>

definition api_result ::
  "(string \<Rightarrow> string) \<Rightarrow> (string \<Rightarrow> 'json option) \<Rightarrow> nat \<Rightarrow> nat \<Rightarrow> headers \<Rightarrow> job_result \<Rightarrow> server \<Rightarrow> api_reply \<times> server" where
  "api_result hash parse now now_ms h res sv =
     (case check_proto h of
        Some r \<Rightarrow> (r, sv)
      | None \<Rightarrow>
          (case api_auth hash h (sv_registry sv) of
             Inl r \<Rightarrow> (r, sv)
           | Inr node \<Rightarrow>
               let sv = on_registry (touch now node) sv
               in (ResultResponse, sv\<lparr>sv_broker := complete parse now_ms node res (sv_broker sv)\<rparr>)))"

definition counts_of :: "(bucket \<Rightarrow> nat) \<Rightarrow> node_windows \<Rightarrow> window_counts" where
  "counts_of f w = \<lparr>wc_m60 = f (m60 w), wc_h24 = f (h24 w), wc_d7 = f (d7 w), wc_all = f (win_all w)\<rparr>"

definition window_counts_default :: window_counts where
  "window_counts_default = \<lparr>wc_m60 = 0, wc_h24 = 0, wc_d7 = 0, wc_all = 0\<rparr>"

definition stats_entry :: "(nat \<Rightarrow> node_windows option) \<Rightarrow> node_report \<Rightarrow> node_stats_entry" where
  "stats_entry windows r =
     (let counts = (case windows (rep_id r) of
            Some w \<Rightarrow> (counts_of requests w, counts_of matches w)
          | None \<Rightarrow> (window_counts_default, window_counts_default))
      in \<lparr>ns_name = rep_name r, ns_online = (case idle_secs r of Some s \<Rightarrow> s < 120 | None \<Rightarrow> False),
          ns_requests = fst counts, ns_matches = snd counts\<rparr>)"

definition leaderboard :: "node_stats_entry list \<Rightarrow> node_stats_entry list" where
  "leaderboard = sort_key (\<lambda>e. (- int (wc_all (ns_requests e)), ns_name e))"

definition api_stats ::
  "(string \<Rightarrow> string) \<Rightarrow> (nat \<Rightarrow> string) \<Rightarrow> nat list \<Rightarrow> nat list \<Rightarrow> nat \<Rightarrow> nat \<Rightarrow> headers \<Rightarrow> server \<Rightarrow> api_reply \<times> server" where
  "api_stats hash fallback order1 order2 now now_ms h sv =
     (case check_proto h of
        Some r \<Rightarrow> (r, sv)
      | None \<Rightarrow>
          (case api_auth hash h (sv_registry sv) of
             Inl r \<Rightarrow> (r, sv)
           | Inr node \<Rightarrow>
               (case snapshot order1 now_ms (b_stats (sv_broker sv)) of
                  (ws, st) \<Rightarrow>
                    let windows = map_of (map (\<lambda>w. (win_node_id w, w)) ws);
                        nodes = leaderboard (map (stats_entry windows) (report order2 now (sv_registry sv)))
                    in (StatsResponse (name_of fallback node (sv_registry sv)) nodes now_ms,
                        sv\<lparr>sv_broker := (sv_broker sv)\<lparr>b_stats := st\<rparr>\<rparr>))))"

section \<open>Start and background work\<close>

definition load_registry :: "(u32 \<times> node_rec) list \<Rightarrow> registry" where
  "load_registry nodes =
     fold (\<lambda>(i, rec). enroll_runtime (unat i) (nd_name rec) (nd_token_sha256_hex rec)) nodes registry_new"

definition stats_rows :: "(u32 \<times> u64 \<times> bucket) list \<Rightarrow> (nat \<times> nat \<times> bucket) list" where
  "stats_rows rows = map (\<lambda>(i, hour, b). (unat i, unat hour, b)) rows"

definition server_start ::
  "store_lib \<Rightarrow> string \<Rightarrow> bool \<Rightarrow> u64 \<Rightarrow> tables \<Rightarrow> fsys \<Rightarrow> string option \<Rightarrow> store_error + server" where
  "server_start lib dir backfill now t fs invites =
     (case open_store lib dir t fs of
        Inl e \<Rightarrow> Inl e
      | Inr s \<Rightarrow>
          let s = snd (frontier_reconcile now s);
              s = (if backfill then snd (store_frontier (frontier_backfill_reset (\<lambda>pid. is_cohort pid s) now) s) else s)
          in Inr \<lparr>sv_broker = broker_new (load_registry (nodes_all s)) (load (stats_rows (node_stats_all s)) (unat now)),
               sv_store = s, sv_invites = invites\<rparr>)"

definition flush_stats :: "nat list \<Rightarrow> server \<Rightarrow> server" where
  "flush_stats order sv =
     (case take_dirty order (b_stats (sv_broker sv)) of
        (rows, st) \<Rightarrow>
          sv\<lparr>sv_broker := (sv_broker sv)\<lparr>b_stats := st\<rparr>,
             sv_store := node_stats_upsert (map (\<lambda>(i, hour, b). (of_nat i, of_nat hour, b)) rows) (sv_store sv)\<rparr>)"

text \<open>After the stop signal: the broker answers every waiting fetch, and the store is committed.\<close>

definition server_stop :: "store_lib \<Rightarrow> nat list \<Rightarrow> nat list \<Rightarrow> u64 \<Rightarrow> server \<Rightarrow> server" where
  "server_stop lib order1 order2 now sv =
     (let sv = sv\<lparr>sv_broker := shutdown order1 (sv_broker sv)\<rparr>;
          sv = flush_stats order2 sv
      in sv\<lparr>sv_store := commit_store lib now (sv_store sv)\<rparr>)"

end
