(* ===== verification/Node_Cli.thy ===== *)
theory Node_Cli
  imports Worker Api
begin

text \<open>
  The frontend of a node on the command line: its configuration file (\<^verbatim>\<open>crates/node/src/config.rs\<close>), the enrolment call
  (\<^verbatim>\<open>crates/node/src/lib.rs\<close>), the HTTP client of the work loop (\<^verbatim>\<open>ServerClient\<close> in \<^verbatim>\<open>crates/node/src/worker.rs\<close>) and the program
  \<^verbatim>\<open>crates/node/src/main.rs\<close>.

  The disk is a map from paths to the text of a file and its modification time; a file that is no text has \<open>None\<close> as its text.  The JSON
  form of the configuration is serde's: the parameters \<open>to_json\<close> and \<open>from_json\<close>.  The network is a function from requests to
  replies, \<open>None\<close> when there is no connection; a reply carries what the JSON decoder makes of its body.  A file is replaced in one step, where \<^verbatim>\<open>fs::write\<close> truncates
  it first, so that what a reader sees in the middle of a write is not modelled.  Errors of writing, file permissions and
  printed messages are dropped, and the answers at the prompts are an argument.
\<close>

section \<open>Configuration\<close>

record node_config =
  nc_server :: string
  nc_name :: string
  nc_token :: string
  nc_riot_api_key :: string

type_synonym disk = "string \<Rightarrow> (string option \<times> nat) option"

datatype node_error =
    ReadFailed
  | ParseFailed
  | NeedsUrl
  | NeedsPath
  | UnknownArgument string
  | NoConfigYet
  | NeedsServer
  | NoConnection
  | BadReply
  | EnrollFailed string
  | MismatchError string
  | ServerError string nat string

definition default_path :: "string option \<Rightarrow> string" where
  "default_path config_dir = (case config_dir of Some d \<Rightarrow> d | None \<Rightarrow> ''.'') @ ''/crawler-node'' @ ''/config.json''"

definition config_load :: "(string \<Rightarrow> node_config option) \<Rightarrow> string \<Rightarrow> disk \<Rightarrow> node_error + node_config option" where
  "config_load from_json path d =
     (case d path of
        None \<Rightarrow> Inr None
      | Some (None, _) \<Rightarrow> Inl ReadFailed
      | Some (Some content, _) \<Rightarrow> (case from_json content of Some cfg \<Rightarrow> Inr (Some cfg) | None \<Rightarrow> Inl ParseFailed))"

definition config_save :: "(node_config \<Rightarrow> string) \<Rightarrow> string \<Rightarrow> nat \<Rightarrow> node_config \<Rightarrow> disk \<Rightarrow> disk" where
  "config_save to_json path now cfg d = d(path \<mapsto> (Some (to_json cfg), now))"

definition config_mtime :: "string \<Rightarrow> disk \<Rightarrow> nat option" where
  "config_mtime path d = map_option snd (d path)"

section \<open>HTTP client\<close>

text \<open>\<^verbatim>\<open>trim_end_matches\<close> for one character.\<close>

definition trim_end :: "char \<Rightarrow> string \<Rightarrow> string" where
  "trim_end c s = rev (dropWhile (\<lambda>x. x = c) (rev s))"

record 'req http_post =
  hp_url :: string
  hp_headers :: headers
  hp_body :: 'req

record 'resp http_reply =
  rp_status :: nat
  rp_value :: "'resp option"
  rp_message :: "string option"

type_synonym ('req, 'resp) network = "'req http_post \<Rightarrow> 'resp http_reply option"

abbreviation is_success :: "nat \<Rightarrow> bool" where "is_success status \<equiv> 200 \<le> status \<and> status < 300"

text \<open>The message of an \<^verbatim>\<open>ErrorResponse\<close>, or the text of the status.\<close>

definition error_text :: "(nat \<Rightarrow> string) \<Rightarrow> 'resp http_reply \<Rightarrow> string" where
  "error_text status_text r = (case rp_message r of Some m \<Rightarrow> m | None \<Rightarrow> status_text (rp_status r))"

definition proto_headers :: "string option \<Rightarrow> headers" where
  "proto_headers bearer =
     \<lparr>hd_proto = Some (show_nat PROTOCOL_VERSION), hd_authorization = map_option (\<lambda>t. ''Bearer '' @ t) bearer\<rparr>"

record enroll_response =
  es_token :: string
  es_name :: string

definition enroll_call ::
  "(nat \<Rightarrow> string) \<Rightarrow> (enroll_request, enroll_response) network \<Rightarrow> string \<Rightarrow> string \<Rightarrow> string \<Rightarrow> node_error + enroll_response" where
  "enroll_call status_text net server name invite_code =
     (case net \<lparr>hp_url = trim_end (CHR ''/'') server @ ''/v1/enroll'', hp_headers = proto_headers None,
                hp_body = \<lparr>er_invite_code = invite_code, er_name = name\<rparr>\<rparr> of
        None \<Rightarrow> Inl NoConnection
      | Some r \<Rightarrow>
          if \<not> is_success (rp_status r) then Inl (EnrollFailed (error_text status_text r))
          else (case rp_value r of Some er \<Rightarrow> Inr er | None \<Rightarrow> Inl BadReply))"

record server_client =
  sc_server :: string
  sc_token :: string

definition server_client_new :: "string \<Rightarrow> string \<Rightarrow> server_client" where
  "server_client_new server token = \<lparr>sc_server = trim_end (CHR ''/'') server, sc_token = token\<rparr>"

definition post_json ::
  "(nat \<Rightarrow> string) \<Rightarrow> ('req, 'resp) network \<Rightarrow> string \<Rightarrow> 'req \<Rightarrow> server_client \<Rightarrow> node_error + 'resp" where
  "post_json status_text net path body c =
     (case net \<lparr>hp_url = sc_server c @ path, hp_headers = proto_headers (Some (sc_token c)), hp_body = body\<rparr> of
        None \<Rightarrow> Inl NoConnection
      | Some r \<Rightarrow>
          if is_success (rp_status r) then (case rp_value r of Some v \<Rightarrow> Inr v | None \<Rightarrow> Inl BadReply)
          else
            let msg = error_text status_text r in
            if rp_status r = 426 then Inl (MismatchError msg)
            else Inl (ServerError path (rp_status r) msg))"

definition client_stats :: "(nat \<Rightarrow> string) \<Rightarrow> (unit, 'resp) network \<Rightarrow> server_client \<Rightarrow> node_error + 'resp" where
  "client_stats status_text net c = post_json status_text net ''/v1/stats'' () c"

text \<open>What the work loop and the uploader make of the result of a call.\<close>

definition poll_reply_of :: "node_error + job list \<Rightarrow> poll_reply" where
  "poll_reply_of r =
     (case r of Inr js \<Rightarrow> PollJobs js | Inl (MismatchError m) \<Rightarrow> PollMismatch m | Inl e \<Rightarrow> PollError)"

definition upload_reply_of :: "node_error + 'resp \<Rightarrow> upload_reply" where
  "upload_reply_of r = (case r of Inr _ \<Rightarrow> UpOk | Inl (MismatchError m) \<Rightarrow> UpMismatch | Inl e \<Rightarrow> UpError)"

section \<open>Command line\<close>

record cli_args =
  ca_server :: "string option"
  ca_config_path :: string
  ca_set_key :: bool

datatype parsed_args = Parsed cli_args | HelpShown

fun parse_args_loop :: "cli_args \<Rightarrow> string list \<Rightarrow> node_error + parsed_args" where
  "parse_args_loop args [] = Inr (Parsed args)"
| "parse_args_loop args (a # it) =
     (if a = ''--server'' then
        (case it of [] \<Rightarrow> Inl NeedsUrl | url # it' \<Rightarrow> parse_args_loop (args\<lparr>ca_server := Some url\<rparr>) it')
      else if a = ''--config'' then
        (case it of [] \<Rightarrow> Inl NeedsPath | p # it' \<Rightarrow> parse_args_loop (args\<lparr>ca_config_path := p\<rparr>) it')
      else if a = ''set-key'' then parse_args_loop (args\<lparr>ca_set_key := True\<rparr>) it
      else if a = ''--help'' \<or> a = ''-h'' then Inr HelpShown
      else Inl (UnknownArgument a))"

definition parse_args :: "string option \<Rightarrow> string list \<Rightarrow> node_error + parsed_args" where
  "parse_args config_dir argv =
     parse_args_loop \<lparr>ca_server = None, ca_config_path = default_path config_dir, ca_set_key = False\<rparr> argv"

text \<open>The lines typed at the prompts of the enrolment and of \<^verbatim>\<open>set-key\<close>.\<close>

record prompts =
  pr_name :: string
  pr_invite :: string
  pr_key :: string

record node_io =
  io_config_dir :: "string option"
  io_user :: "string option"
  io_prompts :: prompts
  io_now :: nat
  io_net :: "(enroll_request, enroll_response) network"
  io_status_text :: "nat \<Rightarrow> string"
  io_to_json :: "node_config \<Rightarrow> string"
  io_from_json :: "string \<Rightarrow> node_config option"

definition cli_enroll :: "node_io \<Rightarrow> string \<Rightarrow> string \<Rightarrow> disk \<Rightarrow> (node_error + node_config) \<times> disk" where
  "cli_enroll io server config_path d =
     (let default_name = (case io_user io of Some u \<Rightarrow> u | None \<Rightarrow> ''node'');
          name = trim (pr_name (io_prompts io));
          name = (if name = [] then default_name else name);
          invite_code = trim (pr_invite (io_prompts io));
          riot_api_key = trim (pr_key (io_prompts io))
      in case enroll_call (io_status_text io) (io_net io) server name invite_code of
           Inl e \<Rightarrow> (Inl e, d)
         | Inr er \<Rightarrow>
             let cfg = \<lparr>nc_server = trim_end (CHR ''/'') server, nc_name = es_name er, nc_token = es_token er, nc_riot_api_key = riot_api_key\<rparr>
             in (Inr cfg, config_save (io_to_json io) config_path (io_now io) cfg d))"

text \<open>How \<^verbatim>\<open>main\<close> goes on: the work loop with a configuration and its path, or the end of the process.\<close>

datatype node_start = RunLoop node_config string | ExitOk | ExitError node_error

definition cli_set_key :: "node_io \<Rightarrow> string \<Rightarrow> disk \<Rightarrow> node_start \<times> disk" where
  "cli_set_key io config_path d =
     (case config_load (io_from_json io) config_path d of
        Inl e \<Rightarrow> (ExitError e, d)
      | Inr None \<Rightarrow> (ExitError NoConfigYet, d)
      | Inr (Some cfg) \<Rightarrow>
          let cfg = cfg\<lparr>nc_riot_api_key := trim (pr_key (io_prompts io))\<rparr>
          in (ExitOk, config_save (io_to_json io) config_path (io_now io) cfg d))"

definition cli_run :: "node_io \<Rightarrow> cli_args \<Rightarrow> disk \<Rightarrow> node_start \<times> disk" where
  "cli_run io args d =
     (let path = ca_config_path args in
      case config_load (io_from_json io) path d of
        Inl e \<Rightarrow> (ExitError e, d)
      | Inr (Some cfg) \<Rightarrow>
          (case ca_server args of
             Some s \<Rightarrow>
               let cfg = cfg\<lparr>nc_server := trim_end (CHR ''/'') s\<rparr>
               in (RunLoop cfg path, config_save (io_to_json io) path (io_now io) cfg d)
           | None \<Rightarrow> (RunLoop cfg path, d))
      | Inr None \<Rightarrow>
          (case ca_server args of
             None \<Rightarrow> (ExitError NeedsServer, d)
           | Some server \<Rightarrow>
               (case cli_enroll io server path d of
                  (Inl e, d) \<Rightarrow> (ExitError e, d)
                | (Inr cfg, d) \<Rightarrow> (RunLoop cfg path, d))))"

definition node_main :: "node_io \<Rightarrow> string list \<Rightarrow> disk \<Rightarrow> node_start \<times> disk" where
  "node_main io argv d =
     (case parse_args (io_config_dir io) argv of
        Inl e \<Rightarrow> (ExitError e, d)
      | Inr HelpShown \<Rightarrow> (ExitOk, d)
      | Inr (Parsed args) \<Rightarrow> if ca_set_key args then cli_set_key io (ca_config_path args) d else cli_run io args d)"

text \<open>The exit code after the work loop ended, with the error it returned.\<close>

definition exit_code :: "node_error option \<Rightarrow> nat" where
  "exit_code r = (case r of None \<Rightarrow> 0 | Some (MismatchError m) \<Rightarrow> 2 | Some e \<Rightarrow> 1)"

text \<open>The loop of a node that starts, and what it sees of its configuration file when it is paused.\<close>

definition loop_start :: "node_config \<Rightarrow> string \<Rightarrow> disk \<Rightarrow> node_handle \<Rightarrow> worker" where
  "loop_start cfg path d h = worker_new (nc_riot_api_key cfg) (config_mtime path d) h"

definition fresh_key :: "(string \<Rightarrow> node_config option) \<Rightarrow> string \<Rightarrow> disk \<Rightarrow> string option" where
  "fresh_key from_json path d =
     (case config_load from_json path d of Inr (Some fresh) \<Rightarrow> Some (nc_riot_api_key fresh) | _ \<Rightarrow> None)"

definition paused_pass :: "(string \<Rightarrow> node_config option) \<Rightarrow> string \<Rightarrow> disk \<Rightarrow> loop_io \<Rightarrow> worker \<Rightarrow> loop_end \<times> worker" where
  "paused_pass from_json path d io w =
     loop_pass (io\<lparr>lp_mtime := config_mtime path d, lp_fresh_key := fresh_key from_json path d\<rparr>) w"

end
