(* ===== verification/Match_Parse.thy ===== *)
theory Match_Parse
  imports Match_Record Rust_Text
begin

text \<open>
  The parser of \<^verbatim>\<open>crates/server/src/record.rs\<close>: from the JSON values of a match and its timeline to a
  \<open>match_record\<close>.  The text-to-value step is serde_json's and happens before: a value is a \<open>json\<close>, whose numbers carry
  what \<^verbatim>\<open>as_i64\<close> returns and whose objects list their members in iteration order.
\<close>

section \<open>JSON values\<close>

datatype json = JNull | JBool bool | JNum "i64 option" | JStr string | JArr "json list" | JObj "(string \<times> json) list"

fun jget :: "json \<Rightarrow> string \<Rightarrow> json option" where
  "jget (JObj ms) key = map_of ms key"
| "jget _ key = None"

fun as_array :: "json \<Rightarrow> json list option" where
  "as_array (JArr vs) = Some vs"
| "as_array _ = None"

fun as_object :: "json \<Rightarrow> (string \<times> json) list option" where
  "as_object (JObj ms) = Some ms"
| "as_object _ = None"

fun as_str :: "json \<Rightarrow> string option" where
  "as_str (JStr t) = Some t"
| "as_str _ = None"

fun as_bool :: "json \<Rightarrow> bool option" where
  "as_bool (JBool b) = Some b"
| "as_bool _ = None"

fun as_i64 :: "json \<Rightarrow> i64 option" where
  "as_i64 (JNum n) = n"
| "as_i64 _ = None"

definition get_array :: "json \<Rightarrow> string \<Rightarrow> json list option" where
  "get_array v key = Option.bind (jget v key) as_array"

definition get_i :: "json \<Rightarrow> string \<Rightarrow> i64" where
  "get_i v key = (case jget v key of
      Some (JNum n) \<Rightarrow> (case n of Some k \<Rightarrow> k | None \<Rightarrow> 0)
    | Some (JBool b) \<Rightarrow> (if b then 1 else 0)
    | _ \<Rightarrow> 0)"

definition get_s :: "json \<Rightarrow> string \<Rightarrow> string" where
  "get_s v key = (case Option.bind (jget v key) as_str of Some t \<Rightarrow> t | None \<Rightarrow> [])"

text \<open>\<^verbatim>\<open>.max(0) as u32\<close>.\<close>

definition clip :: "i64 \<Rightarrow> u32" where
  "clip v = (if sint v < 0 then 0 else ucast v)"

section \<open>Constants\<close>

definition SCHEMA_VERSION :: u32 where "SCHEMA_VERSION = 1"

definition STAT_FIELDS_V1 :: "string list" where
  "STAT_FIELDS_V1 =
    [''assists'', ''baronKills'', ''bountyLevel'', ''champExperience'', ''champLevel'', ''championTransform'',
     ''consumablesPurchased'', ''damageDealtToBuildings'', ''damageDealtToObjectives'', ''damageDealtToTurrets'',
     ''damageSelfMitigated'', ''deaths'', ''detectorWardsPlaced'', ''doubleKills'', ''dragonKills'',
     ''firstBloodAssist'', ''firstBloodKill'', ''firstTowerAssist'', ''firstTowerKill'',
     ''gameEndedInEarlySurrender'', ''gameEndedInSurrender'', ''goldEarned'', ''goldSpent'', ''inhibitorKills'',
     ''inhibitorTakedowns'', ''inhibitorsLost'', ''item0'', ''item1'', ''item2'', ''item3'', ''item4'', ''item5'',
     ''item6'', ''itemsPurchased'', ''killingSprees'', ''kills'', ''largestCriticalStrike'', ''largestKillingSpree'',
     ''largestMultiKill'', ''longestTimeSpentLiving'', ''magicDamageDealt'', ''magicDamageDealtToChampions'',
     ''magicDamageTaken'', ''neutralMinionsKilled'', ''nexusKills'', ''nexusLost'', ''nexusTakedowns'',
     ''objectivesStolen'', ''objectivesStolenAssists'', ''pentaKills'', ''physicalDamageDealt'',
     ''physicalDamageDealtToChampions'', ''physicalDamageTaken'', ''quadraKills'', ''sightWardsBoughtInGame'',
     ''spell1Casts'', ''spell2Casts'', ''spell3Casts'', ''spell4Casts'', ''summoner1Casts'', ''summoner2Casts'',
     ''summonerLevel'', ''teamEarlySurrendered'', ''timeCCingOthers'', ''timePlayed'',
     ''totalAllyJungleMinionsKilled'', ''totalDamageDealt'', ''totalDamageDealtToChampions'',
     ''totalDamageShieldedOnTeammates'', ''totalDamageTaken'', ''totalEnemyJungleMinionsKilled'', ''totalHeal'',
     ''totalHealsOnTeammates'', ''totalMinionsKilled'', ''totalTimeCCDealt'', ''totalTimeSpentDead'',
     ''totalUnitsHealed'', ''tripleKills'', ''trueDamageDealt'', ''trueDamageDealtToChampions'', ''trueDamageTaken'',
     ''turretKills'', ''turretTakedowns'', ''turretsLost'', ''unrealKills'', ''visionScore'',
     ''visionWardsBoughtInGame'', ''wardsKilled'', ''wardsPlaced'', ''win'']"

definition POSITIONS :: "string list" where
  "POSITIONS = [''TOP'', ''JUNGLE'', ''MIDDLE'', ''BOTTOM'', ''UTILITY'']"

definition DRAGON :: u32 where "DRAGON = 1"

definition RIFT_HERALD :: u32 where "RIFT_HERALD = 2"

definition BARON :: u32 where "BARON = 3"

definition HORDE :: u32 where "HORDE = 4"

definition ELDER_DRAGON :: u32 where "ELDER_DRAGON = 5"

definition ATAKHAN :: u32 where "ATAKHAN = 6"

definition TOWER :: u32 where "TOWER = 7"

definition INHIBITOR :: u32 where "INHIBITOR = 8"

definition PLATE :: u32 where "PLATE = 9"

definition OTHER_MONSTER :: u32 where "OTHER_MONSTER = 20"

definition OTHER_BUILDING :: u32 where "OTHER_BUILDING = 21"

definition LANE_NONE :: u32 where "LANE_NONE = 0"

definition LANE_TOP :: u32 where "LANE_TOP = 1"

definition LANE_MID :: u32 where "LANE_MID = 2"

definition LANE_BOT :: u32 where "LANE_BOT = 3"

definition WARD_PLACED :: u32 where "WARD_PLACED = 1"

definition WARD_KILLED :: u32 where "WARD_KILLED = 2"

datatype parse_error =
    NoInfo | NoMetadata | BadMatchId | NoParticipants | WrongCount nat | NotGrouped | PositionRepair | NoFrames

section \<open>Match ids\<close>

definition split_match_id :: "string \<Rightarrow> (string \<times> u64) option" where
  "split_match_id match_id =
     (case split_once CHR ''_'' match_id of
        None \<Rightarrow> None
      | Some (plat, num) \<Rightarrow> map_option (\<lambda>n. (plat, of_nat n)) (parse_uint (2 ^ 64) num))"

section \<open>Participant order\<close>

fun index_of :: "string \<Rightarrow> string list \<Rightarrow> nat option" where
  "index_of x [] = None"
| "index_of x (y # ys) = (if y = x then Some 0 else map_option Suc (index_of x ys))"

text \<open>Members with a free declared position take it, the others are unplaced.\<close>

fun place :: "nat \<Rightarrow> json list \<Rightarrow> nat option list \<times> nat list \<Rightarrow> nat option list \<times> nat list" where
  "place idx [] acc = acc"
| "place idx (p # ps) (slot_of, unplaced) =
     (case index_of (get_s p ''teamPosition'') POSITIONS of
        Some slot \<Rightarrow>
          if slot_of ! slot = None then place (idx + 1) ps (slot_of[slot := Some idx], unplaced)
          else place (idx + 1) ps (slot_of, unplaced @ [idx])
      | None \<Rightarrow> place (idx + 1) ps (slot_of, unplaced @ [idx]))"

text \<open>Free slots take the unplaced members, the last one first.\<close>

fun repair :: "nat option list \<Rightarrow> nat list \<Rightarrow> nat option list" where
  "repair [] unplaced = []"
| "repair (Some idx # slots) unplaced = Some idx # repair slots unplaced"
| "repair (None # slots) unplaced =
     (if unplaced = [] then None # repair slots [] else Some (last unplaced) # repair slots (butlast unplaced))"

fun collect_slots :: "nat option list \<Rightarrow> parse_error + nat list" where
  "collect_slots [] = Inr []"
| "collect_slots (None # slots) = Inl PositionRepair"
| "collect_slots (Some idx # slots) = res_bind (collect_slots slots) (\<lambda>rest. Inr (idx # rest))"

text \<open>The members of one team in slot order, as indices into the team.\<close>

definition order_team :: "i64 \<Rightarrow> json list \<Rightarrow> parse_error + nat list" where
  "order_team team_id members =
     (if list_ex (\<lambda>p. get_i p ''teamId'' \<noteq> team_id) members then Inl NotGrouped
      else case place 0 members (replicate 5 None, []) of
        (slot_of, unplaced) \<Rightarrow> collect_slots (repair slot_of unplaced))"

text \<open>All participants in order, as their original indices.\<close>

definition order_participants :: "json list \<Rightarrow> parse_error + nat list" where
  "order_participants ps =
     res_bind (order_team 100 (take 5 ps)) (\<lambda>blue.
     res_bind (order_team 200 (drop 5 ps)) (\<lambda>red.
     Inr (blue @ map (\<lambda>i. 5 + i) red)))"

definition parse_runes :: "json \<Rightarrow> u32 list" where
  "parse_runes p =
     (let perks = jget p ''perks'';
          styles = Option.bind (Option.bind perks (\<lambda>pk. jget pk ''styles'')) as_array;
          picked = (case styles of
              Some styles \<Rightarrow> map (\<lambda>style. clip (get_i style ''style'')) styles
                @ concat (map (\<lambda>style. case get_array style ''selections'' of
                      Some sels \<Rightarrow> map (\<lambda>sel. clip (get_i sel ''perk'')) sels | None \<Rightarrow> []) styles)
            | None \<Rightarrow> []);
          stat = (case Option.bind perks (\<lambda>pk. jget pk ''statPerks'') of
              Some sp \<Rightarrow> map (\<lambda>k. clip (get_i sp k)) [''offense'', ''flex'', ''defense'']
            | None \<Rightarrow> [])
      in picked @ stat)"

definition parse_participant :: "nat \<Rightarrow> json \<Rightarrow> participant" where
  "parse_participant slot p =
     \<lparr>player_id = 0, champion_id = clip (get_i p ''championId''), position = of_nat slot,
      spell1 = clip (get_i p ''summoner1Id''), spell2 = clip (get_i p ''summoner2Id''),
      runes = parse_runes p, stats = map (get_i p) STAT_FIELDS_V1\<rparr>"

text \<open>From original to sorted index.\<close>

definition invert_order :: "nat list \<Rightarrow> nat list" where
  "invert_order order = fold (\<lambda>(sorted_idx, orig) m. m[orig := sorted_idx]) (enumerate 0 order) (replicate 10 0)"

section \<open>Timelines\<close>

definition map_pid :: "nat list \<Rightarrow> i64 \<Rightarrow> u32" where
  "map_pid orig_to_sorted pid =
     (if 1 \<le> sint pid \<and> sint pid \<le> 10 then of_nat (orig_to_sorted ! nat (sint pid - 1)) else 255)"

definition parse_lane :: "string \<Rightarrow> u32" where
  "parse_lane lane_type =
     (if lane_type = ''TOP_LANE'' then LANE_TOP else if lane_type = ''MID_LANE'' then LANE_MID
      else if lane_type = ''BOT_LANE'' then LANE_BOT else LANE_NONE)"

definition set_participant_frame :: "nat list \<Rightarrow> string \<times> json \<Rightarrow> minute_frame \<Rightarrow> minute_frame" where
  "set_participant_frame orig_to_sorted = (\<lambda>(key, pf) mf.
     let orig = (case parse_i64 key of Some n \<Rightarrow> word_of_int n | None \<Rightarrow> 0);
         idx = map_pid orig_to_sorted orig
     in if idx = 255 then mf
        else let k = unat idx in
          mf\<lparr>total_gold := (total_gold mf)[k := clip (get_i pf ''totalGold'')],
             xp := (xp mf)[k := clip (get_i pf ''xp'')],
             cs := (cs mf)[k := clip (get_i pf ''minionsKilled'' + get_i pf ''jungleMinionsKilled'')],
             dmg_to_champs := (dmg_to_champs mf)[k :=
               clip (case jget pf ''damageStats'' of Some d \<Rightarrow> get_i d ''totalDamageDoneToChampions'' | None \<Rightarrow> 0)]\<rparr>)"

definition parse_frame :: "nat list \<Rightarrow> nat \<Rightarrow> json \<Rightarrow> minute_frame" where
  "parse_frame orig_to_sorted minute_no frame =
     (let mf = \<lparr>minute = of_nat minute_no, total_gold = replicate 10 0, xp = replicate 10 0, cs = replicate 10 0,
               dmg_to_champs = replicate 10 0\<rparr>
      in case Option.bind (jget frame ''participantFrames'') as_object of
           Some pframes \<Rightarrow> fold (set_participant_frame orig_to_sorted) pframes mf
         | None \<Rightarrow> mf)"

definition assist_mask :: "nat list \<Rightarrow> json \<Rightarrow> u32" where
  "assist_mask orig_to_sorted e =
     (case get_array e ''assistingParticipantIds'' of
        Some assists \<Rightarrow>
          fold (\<lambda>a mask. let idx = map_pid orig_to_sorted (case as_i64 a of Some n \<Rightarrow> n | None \<Rightarrow> 0) in
                   if idx < 10 then mask OR push_bit (unat idx) 1 else mask) assists 0
      | None \<Rightarrow> 0)"

definition position_of :: "json \<Rightarrow> string \<Rightarrow> u32" where
  "position_of e key = clip (case jget e ''position'' of Some p \<Rightarrow> get_i p key | None \<Rightarrow> 0)"

definition monster_kind :: "json \<Rightarrow> u32" where
  "monster_kind e =
     (let t = get_s e ''monsterType'' in
      if t = ''DRAGON'' then (if get_s e ''monsterSubType'' = ''ELDER_DRAGON'' then ELDER_DRAGON else DRAGON)
      else if t = ''RIFTHERALD'' then RIFT_HERALD
      else if t = ''BARON_NASHOR'' then BARON
      else if t = ''HORDE'' then HORDE
      else if t = ''ATAKHAN'' then ATAKHAN
      else OTHER_MONSTER)"

definition building_kind :: "json \<Rightarrow> u32" where
  "building_kind e =
     (let t = get_s e ''buildingType'' in
      if t = ''TOWER_BUILDING'' then TOWER else if t = ''INHIBITOR_BUILDING'' then INHIBITOR else OTHER_BUILDING)"

definition event_seconds :: "json \<Rightarrow> u32" where
  "event_seconds e = (let t = get_i e ''timestamp'' in if sint t < 0 then 0 else ucast (t div 1000))"

definition parse_event :: "nat list \<Rightarrow> json \<Rightarrow> timeline_lite \<Rightarrow> timeline_lite" where
  "parse_event orig_to_sorted e tml =
     (let t_s = event_seconds e; who = (\<lambda>key. map_pid orig_to_sorted (get_i e key)); kind = get_s e ''type'' in
      if kind = ''CHAMPION_KILL'' then
        tml\<lparr>kills := kills tml @ [\<lparr>k_t_s = t_s, k_killer = who ''killerId'', k_victim = who ''victimId'',
             k_assist_mask = assist_mask orig_to_sorted e, k_x = position_of e ''x'', k_y = position_of e ''y''\<rparr>]\<rparr>
      else if kind = ''ELITE_MONSTER_KILL'' then
        tml\<lparr>objectives := objectives tml @ [\<lparr>o_t_s = t_s, o_kind = monster_kind e, o_killer = who ''killerId'',
             o_losing_team = 0, o_lane = LANE_NONE\<rparr>]\<rparr>
      else if kind = ''BUILDING_KILL'' then
        tml\<lparr>objectives := objectives tml @ [\<lparr>o_t_s = t_s, o_kind = building_kind e, o_killer = who ''killerId'',
             o_losing_team = clip (get_i e ''teamId''), o_lane = parse_lane (get_s e ''laneType'')\<rparr>]\<rparr>
      else if kind = ''TURRET_PLATE_DESTROYED'' then
        tml\<lparr>objectives := objectives tml @ [\<lparr>o_t_s = t_s, o_kind = PLATE, o_killer = 255,
             o_losing_team = clip (get_i e ''teamId''), o_lane = parse_lane (get_s e ''laneType'')\<rparr>]\<rparr>
      else if kind = ''WARD_PLACED'' then
        tml\<lparr>wards := wards tml @ [\<lparr>w_t_s = t_s, w_kind = WARD_PLACED, w_participant = who ''creatorId''\<rparr>]\<rparr>
      else if kind = ''WARD_KILL'' then
        tml\<lparr>wards := wards tml @ [\<lparr>w_t_s = t_s, w_kind = WARD_KILLED, w_participant = who ''killerId''\<rparr>]\<rparr>
      else tml)"

definition parse_minute :: "nat list \<Rightarrow> nat \<times> json \<Rightarrow> timeline_lite \<Rightarrow> timeline_lite" where
  "parse_minute orig_to_sorted = (\<lambda>(minute_no, frame) tml.
     let tml = tml\<lparr>frames := frames tml @ [parse_frame orig_to_sorted minute_no frame]\<rparr>
     in case get_array frame ''events'' of
          Some events \<Rightarrow> fold (parse_event orig_to_sorted) events tml
        | None \<Rightarrow> tml)"

definition parse_timeline :: "nat list \<Rightarrow> json \<Rightarrow> parse_error + timeline_lite" where
  "parse_timeline orig_to_sorted t =
     (case Option.bind (jget t ''info'') (\<lambda>x. get_array x ''frames'') of
        None \<Rightarrow> Inl NoFrames
      | Some frames_json \<Rightarrow>
          Inr (fold (parse_minute orig_to_sorted) (enumerate 0 frames_json)
            \<lparr>frames = [], kills = [], objectives = [], wards = []\<rparr>))"

section \<open>Matches\<close>

definition parse_duration :: "json \<Rightarrow> u32" where
  "parse_duration info =
     (let d = get_i info ''gameDuration'' in clip (if sint d > 30000 then d div 1000 else d))"

definition parse_start_ms :: "json \<Rightarrow> i64" where
  "parse_start_ms info =
     (let ts = get_i info ''gameStartTimestamp'' in if sint ts > 0 then ts else get_i info ''gameCreation'')"

text \<open>The k-th part of the version, zero when it is missing or not a number.\<close>

definition version_part :: "string \<Rightarrow> nat \<Rightarrow> u32" where
  "version_part version k =
     (let parts = split_on CHR ''.'' version;
          part = (if k < length parts then parts ! k else ''0'')
      in case parse_uint (2 ^ 32) part of Some n \<Rightarrow> of_nat n | None \<Rightarrow> 0)"

definition parse_blue_won :: "json list option \<Rightarrow> bool" where
  "parse_blue_won teams =
     (case Option.bind teams (find (\<lambda>t. get_i t ''teamId'' = 100)) of
        Some t \<Rightarrow> (case Option.bind (jget t ''win'') as_bool of Some b \<Rightarrow> b | None \<Rightarrow> False)
      | None \<Rightarrow> False)"

definition parse_bans :: "json list option \<Rightarrow> u32 list" where
  "parse_bans teams =
     (case teams of
        Some ts \<Rightarrow> map (\<lambda>b. clip (get_i b ''championId''))
          (concat (map (\<lambda>t. case get_array t ''bans'' of Some bs \<Rightarrow> bs | None \<Rightarrow> []) ts))
      | None \<Rightarrow> [])"

definition parse_match :: "json \<Rightarrow> json option \<Rightarrow> parse_error + match_record \<times> string list" where
  "parse_match m tl_json =
     (case jget m ''info'' of None \<Rightarrow> Inl NoInfo | Some info \<Rightarrow>
      case jget m ''metadata'' of None \<Rightarrow> Inl NoMetadata | Some metadata \<Rightarrow>
      case split_match_id (get_s metadata ''matchId'') of None \<Rightarrow> Inl BadMatchId | Some (plat, gid) \<Rightarrow>
      case get_array info ''participants'' of None \<Rightarrow> Inl NoParticipants | Some ps \<Rightarrow>
      if length ps \<noteq> 10 then Inl (WrongCount (length ps))
      else
        res_bind (order_participants ps) (\<lambda>order.
        let teams = get_array info ''teams'';
            version = get_s info ''gameVersion''
        in res_bind (case tl_json of Some tj \<Rightarrow> res_bind (parse_timeline (invert_order order) tj) (Inr o Some) | None \<Rightarrow> Inr None) (\<lambda>tml.
           Inr (\<lparr>schema_version = SCHEMA_VERSION, game_id = gid, platform = plat, queue_id = clip (get_i info ''queueId''),
                 game_start_ms = parse_start_ms info, duration_s = parse_duration info, blue_won = parse_blue_won teams,
                 game_version = version, patch_major = version_part version 0, patch_minor = version_part version 1,
                 participants = map (\<lambda>(k, orig). parse_participant (k mod 5) (ps ! orig)) (enumerate 0 order),
                 timeline = tml, bans = parse_bans teams\<rparr>,
                map (\<lambda>orig. get_s (ps ! orig) ''puuid'') order))))"

end
