(* ===== verification/Match_Parse_Props.thy ===== *)
theory Match_Parse_Props
  imports Match_Parse "HOL-Library.Multiset"
begin

text \<open>
  The parser's participant order: always a permutation with five positions per team, declared positions kept, and the
  inverse map the timeline uses.  Parsing fails exactly on the documented shape errors.
\<close>

section \<open>Slots\<close>

definition taken :: "'a option list \<Rightarrow> 'a list" where
  "taken slots = List.map_filter id slots"

lemma taken_simps [simp]:
  "taken [] = []" "taken (None # xs) = taken xs" "taken (Some x # xs) = x # taken xs"
  by (simp_all add: taken_def List.map_filter_simps)

lemma taken_update: "xs ! k = None \<Longrightarrow> k < length xs \<Longrightarrow> mset (taken (xs[k := Some v])) = add_mset v (mset (taken xs))"
proof (induction xs arbitrary: k)
  case (Cons x xs)
  then show ?case by (cases x; cases k) auto
qed simp

lemma taken_free: "length (taken xs) + length (filter (\<lambda>x. x = None) xs) = length xs"
proof (induction xs)
  case (Cons x xs)
  then show ?case by (cases x) auto
qed simp

lemma index_of_less: "index_of x xs = Some k \<Longrightarrow> k < length xs \<and> xs ! k = x"
  by (induction xs arbitrary: k) (auto split: if_splits)

abbreviation declared :: "json \<Rightarrow> nat option" where
  "declared p \<equiv> index_of (get_s p ''teamPosition'') POSITIONS"

lemma declared_less: "declared p = Some k \<Longrightarrow> k < 5"
  using index_of_less by (fastforce simp: POSITIONS_def)

lemma place_inv:
  assumes "place idx ps (slots, un) = (slots', un')" "length slots = 5" "mset (taken slots) + mset un = mset [0..<idx]"
  shows "length slots' = 5 \<and> mset (taken slots') + mset un' = mset [0..<idx + length ps]
    \<and> (\<forall>k j. slots ! k = Some j \<longrightarrow> slots' ! k = Some j)
    \<and> (\<forall>j < length ps. \<forall>k. declared (ps ! j) = Some k \<longrightarrow> slots ! k = None \<longrightarrow>
         (\<forall>i < j. declared (ps ! i) \<noteq> Some k) \<longrightarrow> slots' ! k = Some (idx + j))"
  using assms
proof (induction ps arbitrary: idx slots un)
  case (Cons p ps)
  show ?case
  proof (cases "\<exists>k. declared p = Some k \<and> slots ! k = None")
    case True
    then obtain k where k: "declared p = Some k" "slots ! k = None" by blast
    let ?slots = "slots[k := Some idx]"
    have "k < 5" using declared_less k(1) .
    then have m: "mset (taken ?slots) + mset un = mset [0..<idx + 1]" using taken_update[of slots k idx] k(2) Cons.prems(2,3) by simp
    have r: "place (idx + 1) ps (?slots, un) = (slots', un')" using Cons.prems(1) k by simp
    have len: "length ?slots = 5" using Cons.prems(2) by simp
    note IH = Cons.IH[OF r len m]
    have kept: "slots' ! k' = Some j" if "slots ! k' = Some j" for k' j
      using IH that k(2) by (cases "k' = k") auto
    have mine: "slots' ! k = Some idx" using IH \<open>k < 5\<close> Cons.prems(2) by simp
    have "slots' ! k' = Some (idx + j)" if "j < length (p # ps)" "declared ((p # ps) ! j) = Some k'" "slots ! k' = None"
      "\<forall>i < j. declared ((p # ps) ! i) \<noteq> Some k'" for j k'
    proof (cases j)
      case 0
      then show ?thesis using mine that(2) k(1) by simp
    next
      case (Suc j')
      have "k' \<noteq> k" using that(4) k(1) Suc by auto
      moreover have "\<forall>i < j'. declared (ps ! i) \<noteq> Some k'" using that(4) Suc by auto
      ultimately show ?thesis using IH that Suc by simp
    qed
    then show ?thesis using IH kept by auto
  next
    case False
    then have r: "place (idx + 1) ps (slots, un @ [idx]) = (slots', un')" using Cons.prems(1) by (auto split: option.splits)
    have m: "mset (taken slots) + mset (un @ [idx]) = mset [0..<idx + 1]" using Cons.prems(3) by simp
    note IH = Cons.IH[OF r Cons.prems(2) m]
    have "slots' ! k = Some (idx + j)" if "j < length (p # ps)" "declared ((p # ps) ! j) = Some k" "slots ! k = None"
      "\<forall>i < j. declared ((p # ps) ! i) \<noteq> Some k" for j k
    proof (cases j)
      case 0
      then show ?thesis using False that by auto
    next
      case (Suc j')
      then have "\<forall>i < j'. declared (ps ! i) \<noteq> Some k" using that(4) by auto
      then show ?thesis using IH that Suc by simp
    qed
    then show ?thesis using IH by auto
  qed
qed simp

lemma repair_full:
  "length (filter (\<lambda>x. x = None) slots) = length un \<Longrightarrow>
   \<exists>xs. repair slots un = map Some xs \<and> mset xs = mset (taken slots) + mset un
     \<and> (\<forall>k < length slots. \<forall>j. slots ! k = Some j \<longrightarrow> xs ! k = j)"
proof (induction slots un rule: repair.induct)
  case (2 idx slots un)
  then obtain xs where "repair slots un = map Some xs \<and> mset xs = mset (taken slots) + mset un
     \<and> (\<forall>k < length slots. \<forall>j. slots ! k = Some j \<longrightarrow> xs ! k = j)" by auto
  then show ?case by (intro exI[of _ "idx # xs"]) (auto simp: nth_Cons split: nat.splits)
next
  case (3 slots un)
  then have un: "un \<noteq> []" by auto
  with 3 obtain xs where "repair slots (butlast un) = map Some xs \<and> mset xs = mset (taken slots) + mset (butlast un)
     \<and> (\<forall>k < length slots. \<forall>j. slots ! k = Some j \<longrightarrow> xs ! k = j)" by fastforce
  moreover have "mset un = add_mset (last un) (mset (butlast un))" using un by (metis append_butlast_last_id mset_append mset_single_iff_right union_mset_add_mset_right add.right_neutral mset.simps(1,2))
  ultimately show ?case using un by (intro exI[of _ "last un # xs"]) (auto simp: nth_Cons split: nat.splits)
qed simp

lemma collect_slots_map: "collect_slots (map Some xs) = Inr xs"
  by (induction xs) simp_all

text \<open>A team of five in its order.\<close>

definition team_order :: "json list \<Rightarrow> nat list \<Rightarrow> bool" where
  "team_order ms xs \<longleftrightarrow> mset xs = mset [0..<5]
     \<and> (\<forall>j < 5. \<forall>k. declared (ms ! j) = Some k \<longrightarrow> (\<forall>i < j. declared (ms ! i) \<noteq> Some k) \<longrightarrow> xs ! k = j)"

abbreviation grouped :: "i64 \<Rightarrow> json list \<Rightarrow> bool" where
  "grouped t \<equiv> list_all (\<lambda>p. get_i p ''teamId'' = t)"

lemma order_team_ungrouped: "\<not> grouped t ms \<Longrightarrow> order_team t ms = Inl NotGrouped"
  by (auto simp: order_team_def list_all_iff list_ex_iff)

lemma order_team_total:
  assumes "length ms = 5" and g: "grouped t ms"
  shows "\<exists>xs. order_team t ms = Inr xs \<and> team_order ms xs"
proof -
  obtain slots un where p: "place 0 ms (replicate 5 None, []) = (slots, un)" by fastforce
  have "mset (taken (replicate 5 None)) + mset [] = mset [0..<0]" by (simp add: eval_nat_numeral)
  note inv = place_inv[OF p _ this, simplified assms]
  have i: "length slots = 5" "mset (taken slots) + mset un = mset [0..<5]" using inv by auto
  have "length (taken slots) + length un = 5" using i(2) by (metis diff_zero length_upt size_mset size_union)
  then have "length (filter (\<lambda>x. x = None) slots) = length un" using taken_free[of slots] i(1) by simp
  from repair_full[OF this] obtain xs where xs: "repair slots un = map Some xs" "mset xs = mset (taken slots) + mset un"
    "\<forall>k < length slots. \<forall>j. slots ! k = Some j \<longrightarrow> xs ! k = j" by blast
  have "xs ! k = j" if "j < 5" "declared (ms ! j) = Some k" "\<forall>i < j. declared (ms ! i) \<noteq> Some k" for j k
    using inv that xs(3) i(1) declared_less[OF that(2)] by auto
  then have "team_order ms xs" using xs(2) i(2) by (simp add: team_order_def)
  moreover have "order_team t ms = Inr xs"
    using g p xs(1) by (simp add: order_team_def list_all_iff list_ex_iff collect_slots_map)
  ultimately show ?thesis by blast
qed

section \<open>The order of all participants\<close>

definition full_order :: "json list \<Rightarrow> nat list \<Rightarrow> bool" where
  "full_order ps order \<longleftrightarrow> (\<exists>blue red. order = blue @ map (\<lambda>i. 5 + i) red \<and> team_order (take 5 ps) blue \<and> team_order (drop 5 ps) red)"

lemma team_order_facts:
  assumes "team_order ms xs"
  shows "length xs = 5" "set xs = {0..<5}" "distinct xs"
proof -
  have m: "mset xs = mset [0..<5]" using assms by (simp add: team_order_def)
  show "length xs = 5" using mset_eq_length[OF m] by simp
  show "set xs = {0..<5}" using mset_eq_setD[OF m] by simp
  show "distinct xs" using mset_eq_imp_distinct_iff[OF m] by simp
qed

lemma order_participants_cases:
  assumes "length ps = 10"
  shows "\<not> (grouped 100 (take 5 ps) \<and> grouped 200 (drop 5 ps)) \<Longrightarrow> order_participants ps = Inl NotGrouped"
    and "grouped 100 (take 5 ps) \<Longrightarrow> grouped 200 (drop 5 ps) \<Longrightarrow> \<exists>order. order_participants ps = Inr order \<and> full_order ps order"
proof -
  have l: "length (take 5 ps) = 5" "length (drop 5 ps) = 5" using assms by simp_all
  note b = order_team_total[OF l(1)] and r = order_team_total[OF l(2)]
  show "order_participants ps = Inl NotGrouped" if "\<not> (grouped 100 (take 5 ps) \<and> grouped 200 (drop 5 ps))"
    using that b[of 100] order_team_ungrouped by (cases "grouped 100 (take 5 ps)") (force simp: order_participants_def)+
  show "\<exists>order. order_participants ps = Inr order \<and> full_order ps order" if "grouped 100 (take 5 ps)" "grouped 200 (drop 5 ps)"
  proof -
    note grps = that
    obtain xs ys where "order_team 100 (take 5 ps) = Inr xs" "team_order (take 5 ps) xs"
      "order_team 200 (drop 5 ps) = Inr ys" "team_order (drop 5 ps) ys" using b[OF grps(1)] r[OF grps(2)] by blast
    then show ?thesis unfolding order_participants_def full_order_def
      by (intro exI[of _ "xs @ map (\<lambda>i. 5 + i) ys"]) (simp, blast)
  qed
qed

lemma full_order_facts:
  assumes "full_order ps order"
  shows "length order = 10" "distinct order" "set order = {0..<10}" "mset order = mset [0..<10]"
    and "k < 5 \<Longrightarrow> order ! k < 5" and "k < 5 \<Longrightarrow> 5 \<le> order ! (5 + k)"
proof -
  obtain blue red where o: "order = blue @ map (\<lambda>i. 5 + i) red" "team_order (take 5 ps) blue" "team_order (drop 5 ps) red"
    using assms by (auto simp: full_order_def)
  note b = team_order_facts[OF o(2)] and r = team_order_facts[OF o(3)]
  show "length order = 10" using b(1) r(1) o(1) by simp
  show d: "distinct order" using b r o(1) by (auto simp: distinct_map)
  have "(\<lambda>i. 5 + i) ` {0..<5} = {5..<10::nat}" using image_add_atLeastLessThan[of 5 0 "5 :: nat"] by simp
  then show s: "set order = {0..<10}" using b(2) r(2) o(1) by auto
  show "mset order = mset [0..<10]" using d s set_eq_iff_mset_eq_distinct[of order "[0..<10]"] by simp
  show "order ! k < 5" if "k < 5" using that o(1) b nth_mem[of k blue] by (auto simp: nth_append)
  show "5 \<le> order ! (5 + k)" if "k < 5" using that o(1) b(1) r(1) by (simp add: nth_append)
qed

lemma invert_fold:
  "\<lbrakk>distinct order; set order \<subseteq> {0..<length m}; j < length order\<rbrakk> \<Longrightarrow>
    fold (\<lambda>(i, orig) m. m[orig := i]) (enumerate n order) m ! (order ! j) = n + j"
proof (induction order arbitrary: n m j)
  case (Cons x xs)
  have keep: "fold (\<lambda>(i, orig) m. m[orig := i]) (enumerate n xs) m ! y = m ! y" if "y \<notin> set xs" for y n and m :: "nat list" and xs
    using that by (induction xs arbitrary: n m) auto
  show ?case
  proof (cases j)
    case 0
    then show ?thesis using Cons.prems keep[of x xs] by simp
  next
    case (Suc j')
    then show ?thesis using Cons.prems Cons.IH[of "m[x := n]" j' "Suc n"] by simp
  qed
qed simp

lemma invert_order_nth:
  assumes "full_order ps order" "k < 10"
  shows "invert_order order ! (order ! k) = k"
  using invert_fold[of order "replicate 10 0" k 0] full_order_facts(1-3)[OF assms(1)] assms(2)
  by (simp add: invert_order_def)

lemma map_pid_order:
  assumes "full_order ps order" "k < 10"
  shows "map_pid (invert_order order) (of_nat (order ! k + 1)) = of_nat k"
proof -
  have "order ! k \<in> set order" using assms full_order_facts(1)[OF assms(1)] by simp
  then have l: "order ! k < 10" using full_order_facts(3)[OF assms(1)] by simp
  have small: "n < 11 \<Longrightarrow> sint (of_nat n :: i64) = int n" for n
    by (simp add: signed_of_nat signed_take_bit_int_eq_self)
  have "sint (of_nat (order ! k + 1) :: i64) = int (order ! k + 1)" using l by (intro small) simp
  then show ?thesis using l invert_order_nth[OF assms] by (simp add: map_pid_def)
qed

section \<open>Properties\<close>

text \<open>C33: A match payload parses exactly when it has an info and a metadata object, a match id of platform and number, and ten
  participants, the first five of team 100 and the others of team 200 (and, with a timeline, the timeline has frames).  The
  position repair never fails.\<close>

theorem parse_match_accepts:
  "((\<exists>r. parse_match m tml = Inr r) \<longleftrightarrow>
     (\<exists>info metadata ps. jget m ''info'' = Some info \<and> jget m ''metadata'' = Some metadata
        \<and> split_match_id (get_s metadata ''matchId'') \<noteq> None \<and> get_array info ''participants'' = Some ps \<and> length ps = 10
        \<and> list_all (\<lambda>p. get_i p ''teamId'' = 100) (take 5 ps) \<and> list_all (\<lambda>p. get_i p ''teamId'' = 200) (drop 5 ps)
        \<and> (tml = None \<or> (\<exists>t x. tml = Some t \<and> jget t ''info'' = Some x \<and> get_array x ''frames'' \<noteq> None))))
   \<and> parse_match m tml \<noteq> Inl PositionRepair"
proof -
  show ?thesis
  proof (cases "\<exists>info metadata ps. jget m ''info'' = Some info \<and> jget m ''metadata'' = Some metadata
        \<and> split_match_id (get_s metadata ''matchId'') \<noteq> None \<and> get_array info ''participants'' = Some ps \<and> length ps = 10")
    case False
    then show ?thesis by (auto simp: parse_match_def split: option.splits)
  next
    case True
    then obtain info metadata ps plat gid where e: "jget m ''info'' = Some info" "jget m ''metadata'' = Some metadata"
      "split_match_id (get_s metadata ''matchId'') = Some (plat, gid)" "get_array info ''participants'' = Some ps" "length ps = 10" by auto
    show ?thesis
    proof (cases "grouped 100 (take 5 ps) \<and> grouped 200 (drop 5 ps)")
      case False
      then show ?thesis using order_participants_cases(1)[OF e(5) False] e by (auto simp: parse_match_def)
    next
      case True
      then obtain order where o: "order_participants ps = Inr order" using order_participants_cases(2)[OF e(5)] by blast
      show ?thesis using e o True
        by (auto simp: parse_match_def Let_def parse_timeline_def bind_eq_Some_conv bind_eq_None_conv split: option.splits)
    qed
  qed
qed

text \<open>C11: The parsed participants are the payload's ten players in a fixed order: blue before red, positions
  0 to 4 in each team; a player that is the first of the team to declare a position stands at it; each player keeps
  its puuid and stats; and the index map of the timeline sends every original participant id to that player's place.\<close>

theorem parse_match_order:
  assumes "parse_match m tml = Inr (rec, puuids)"
  shows "\<exists>info ps order. jget m ''info'' = Some info \<and> get_array info ''participants'' = Some ps
    \<and> mset order = mset [0..<10] \<and> map position (participants rec) = [0, 1, 2, 3, 4, 0, 1, 2, 3, 4]
    \<and> puuids = map (\<lambda>orig. get_s (ps ! orig) ''puuid'') order
    \<and> map stats (participants rec) = map (\<lambda>orig. map (get_i (ps ! orig)) STAT_FIELDS_V1) order
    \<and> (\<forall>k. k < 10 \<longrightarrow> (order ! k < 5 \<longleftrightarrow> k < 5) \<and> map_pid (invert_order order) (of_nat (order ! k + 1)) = of_nat k)
    \<and> (\<forall>j k. j < 5 \<longrightarrow> declared (ps ! j) = Some k \<longrightarrow> (\<forall>i < j. declared (ps ! i) \<noteq> Some k) \<longrightarrow> order ! k = j)
    \<and> (\<forall>j k. j < 5 \<longrightarrow> declared (ps ! (5 + j)) = Some k \<longrightarrow> (\<forall>i < j. declared (ps ! (5 + i)) \<noteq> Some k) \<longrightarrow> order ! (5 + k) = 5 + j)"
proof -
  obtain info ps order where e: "jget m ''info'' = Some info" "get_array info ''participants'' = Some ps" "length ps = 10"
    "order_participants ps = Inr order" "puuids = map (\<lambda>orig. get_s (ps ! orig) ''puuid'') order"
    "participants rec = map (\<lambda>(k, orig). parse_participant (k mod 5) (ps ! orig)) (enumerate 0 order)"
    using assms by (auto simp: parse_match_def Let_def res_bind_eq_Inr split: option.splits if_splits prod.splits)
  have fo: "full_order ps order" using order_participants_cases[OF e(3)] e(4) by fastforce
  note f = full_order_facts[OF fo]
  have "map position (participants rec) = map (\<lambda>k. of_nat (k mod 5)) [0..<10]"
    unfolding e(6) enumerate_eq_zip f(1) by (rule nth_equalityI) (simp_all add: f(1) parse_participant_def)
  then have 1: "map position (participants rec) = [0, 1, 2, 3, 4, 0, 1, 2, 3, 4]" by (simp add: upt_conv_Cons)
  have 2: "map stats (participants rec) = map (\<lambda>orig. map (get_i (ps ! orig)) STAT_FIELDS_V1) order"
    unfolding e(6) enumerate_eq_zip f(1) by (rule nth_equalityI) (simp_all add: f(1) parse_participant_def)
  have 3: "(order ! k < 5 \<longleftrightarrow> k < 5) \<and> map_pid (invert_order order) (of_nat (order ! k + 1)) = of_nat k" if "k < 10" for k
  proof -
    have "k - 5 < 5" using that by linarith
    then show ?thesis using map_pid_order[OF fo that] f(5)[of k] f(6)[of "k - 5"] by (cases "k < 5") auto
  qed
  obtain blue red where o: "order = blue @ map (\<lambda>i. 5 + i) red" "team_order (take 5 ps) blue" "team_order (drop 5 ps) red"
    using fo by (auto simp: full_order_def)
  have 4: "order ! k = j" if "j < 5" "declared (ps ! j) = Some k" "\<forall>i < j. declared (ps ! i) \<noteq> Some k" for j k
  proof -
    have k: "k < 5" using declared_less[OF that(2)] .
    have "blue ! k = j" using o(2) that unfolding team_order_def by simp
    then show ?thesis using k o(1) team_order_facts(1)[OF o(2)] by (simp add: nth_append)
  qed
  have 5: "order ! (5 + k) = 5 + j" if "j < 5" "declared (ps ! (5 + j)) = Some k" "\<forall>i < j. declared (ps ! (5 + i)) \<noteq> Some k" for j k
  proof -
    have k: "k < 5" using declared_less[OF that(2)] .
    have "red ! k = j" using o(3) that e(3) unfolding team_order_def by simp
    then show ?thesis using k o(1) team_order_facts(1)[OF o(2)] team_order_facts(1)[OF o(3)] by (simp add: nth_append)
  qed
  show ?thesis using e(1,2,5) f(4) 1 2 3 4 5 by (intro exI[of _ info] exI[of _ ps] exI[of _ order]) blast
qed

definition sample_player :: "i64 \<Rightarrow> string \<Rightarrow> json" where
  "sample_player team pos = JObj [(''teamId'', JNum (Some team)), (''teamPosition'', JStr pos), (''puuid'', JStr pos)]"

definition sample_players :: "json list" where
  "sample_players = map (sample_player 100) [''UTILITY'', ''TOP'', ''TOP'', ''MIDDLE'', []] @ map (sample_player 200) (rev POSITIONS)"

definition sample_match :: json where
  "sample_match = JObj [(''metadata'', JObj [(''matchId'', JStr ''EUW1_17'')]), (''info'', JObj [(''participants'', JArr sample_players)])]"

theorem parse_match_order_witness:
  "\<exists>rec puuids order. parse_match sample_match None = Inr (rec, puuids) \<and> game_id rec = 17
     \<and> map position (participants rec) = [0, 1, 2, 3, 4, 0, 1, 2, 3, 4] \<and> mset order = mset [0..<10] \<and> order ! 4 = 0"
proof -
  have g: "grouped 100 (take 5 sample_players)" "grouped 200 (drop 5 sample_players)" "length sample_players = 10"
    "declared (sample_players ! 0) = Some 4"
    by (simp_all add: sample_players_def sample_player_def get_i_def get_s_def POSITIONS_def)
  obtain order where "order_participants sample_players = Inr order" using order_participants_cases(2)[OF g(3,1,2)] by blast
  moreover have "split_match_id ''EUW1_17'' = Some (''EUW1'', 17)" by (simp add: split_match_id_def parse_uint_def is_digit_def)
  ultimately obtain rec puuids where r: "parse_match sample_match None = Inr (rec, puuids)" "game_id rec = 17"
    using g(3) by (simp add: parse_match_def sample_match_def get_s_def get_array_def Let_def)
  from parse_match_order[OF r(1)] show ?thesis
  proof (elim exE conjE, goal_cases)
    case (1 info ps order)
    have "ps = sample_players" using 1(1,2) by (auto simp: sample_match_def get_array_def)
    then have "order ! 4 = 0" using 1(8)[rule_format, of 0 4] g(4) by simp
    then show ?case using r 1(3,4) by (intro exI[of _ rec] exI[of _ puuids] exI[of _ order] conjI)
  qed
qed

end
