(* ===== verification/Raw_Samples.thy ===== *)
theory Raw_Samples
  imports Segment "HOL-Library.Char_ord" "HOL-Library.List_Lexorder"
begin

text \<open>
  The archive of raw API payloads in \<^verbatim>\<open>crates/server/src/storage.rs\<close>: samples are written once, zstd-compressed, and
  later recompressed with a trained dictionary; reading chooses the decoder by the dictionary id in the frame.

  zstd is the argument \<open>z\<close> (\<open>raw_lib\<close>).  The directory listing and the modification times are arguments.  Between the write
  of a temporary file and the second look at the original, other writers may act: \<open>others\<close>.  I/O errors other than a
  missing file are dropped.
\<close>

record raw_lib =
  z_compress :: "bytes \<Rightarrow> bytes"
  z_decode_all :: "bytes \<Rightarrow> bytes option"
  z_dict_compress :: "bytes \<Rightarrow> bytes \<Rightarrow> bytes option"
  z_dict_decompress :: "bytes \<Rightarrow> bytes \<Rightarrow> nat \<Rightarrow> bytes option"
  z_dict_decode :: "bytes \<Rightarrow> bytes \<Rightarrow> bytes option"
  z_dict_id :: "bytes \<Rightarrow> u32"
  z_frame_dict_id :: "bytes \<Rightarrow> u32"
  z_train :: "bytes list \<Rightarrow> nat \<Rightarrow> bytes option"

datatype raw_error = RawMissing | RawUndecodable | RawUncompressable | DictMissing | DictWithoutId | DictIdMismatch
  | RoundtripMismatch | RawNotUtf8 | TrainFailed | DictTooLarge | NoRawDir

definition RAW_DICT_NAME :: string where "RAW_DICT_NAME = ''match-v1.dict''"

definition RAW_DICT_MAX_BYTES :: nat where "RAW_DICT_MAX_BYTES = 128 * 1024"

definition RAW_DICT_MIN_SAMPLES :: nat where "RAW_DICT_MIN_SAMPLES = 500"

definition RAW_DICT_MAX_TRAINING_SAMPLES :: nat where "RAW_DICT_MAX_TRAINING_SAMPLES = 4000"

definition RAW_RECOMPACT_MIN_AGE :: nat where "RAW_RECOMPACT_MIN_AGE = 3600"

section \<open>Strings and paths\<close>

definition cont :: "u8 \<Rightarrow> bool" where
  "cont b \<longleftrightarrow> 0x80 \<le> b \<and> b \<le> 0xBF"

definition between :: "u8 \<Rightarrow> u8 \<Rightarrow> u8 \<Rightarrow> bool" where
  "between lo hi b \<longleftrightarrow> lo \<le> b \<and> b \<le> hi"

text \<open>Well-formed UTF-8.\<close>

fun utf8_valid :: "bytes \<Rightarrow> bool" where
  "utf8_valid [] = True"
| "utf8_valid (a # r1) =
     (if a \<le> 0x7F then utf8_valid r1
      else case r1 of
        [] \<Rightarrow> False
      | b # r2 \<Rightarrow>
          if between 0xC2 0xDF a then cont b \<and> utf8_valid r2
          else case r2 of
            [] \<Rightarrow> False
          | c # r3 \<Rightarrow>
              if between 0xE0 0xEF a then
                (if a = 0xE0 then between 0xA0 0xBF b else if a = 0xED then between 0x80 0x9F b else cont b)
                  \<and> cont c \<and> utf8_valid r3
              else case r3 of
                [] \<Rightarrow> False
              | d # r4 \<Rightarrow>
                  between 0xF0 0xF4 a
                  \<and> (if a = 0xF0 then between 0x90 0xBF b else if a = 0xF4 then between 0x80 0x8F b else cont b)
                  \<and> cont c \<and> cont d \<and> utf8_valid r4)"

definition from_utf8 :: "bytes \<Rightarrow> string option" where
  "from_utf8 bs = (if utf8_valid bs then Some (map (\<lambda>b. char_of (unat b)) bs) else None)"

definition join :: "string \<Rightarrow> string \<Rightarrow> string" where
  "join dir name = dir @ ''/'' @ name"

definition parent_dir :: "string \<Rightarrow> string option" where
  "parent_dir p = (if p = [] then None else Some (rev (drop 1 (dropWhile (\<lambda>c. c \<noteq> CHR ''/'') (rev p)))))"

definition ends_with :: "string \<Rightarrow> string \<Rightarrow> bool" where
  "ends_with suffix s \<longleftrightarrow> length suffix \<le> length s \<and> drop (length s - length suffix) s = suffix"

definition is_raw_json_sample_path :: "string \<Rightarrow> bool" where
  "is_raw_json_sample_path p \<longleftrightarrow> ends_with ''.match.json.zst'' p \<or> ends_with ''.timeline.json.zst'' p"

definition raw_write_tmp_path :: "string \<Rightarrow> string" where
  "raw_write_tmp_path p = p @ ''.write.tmp''"

definition raw_dir_for_sample :: "string \<Rightarrow> raw_error + string" where
  "raw_dir_for_sample p =
     (case Option.bind (parent_dir p) parent_dir of Some d \<Rightarrow> Inr d | None \<Rightarrow> Inl NoRawDir)"

section \<open>Writing a sample\<close>

text \<open>Linking the temporary file into place; a path that appeared meanwhile is left alone.\<close>

definition write_file_create_once_atomically :: "string \<Rightarrow> bytes \<Rightarrow> (fsys \<Rightarrow> fsys) \<Rightarrow> fsys \<Rightarrow> fsys" where
  "write_file_create_once_atomically p bs others fs =
     (if fs p \<noteq> None then fs
      else
        let tmp = raw_write_tmp_path p;
            fs = others (fs(tmp \<mapsto> bs))
        in (if fs p = None then fs(p := fs tmp) else fs)(tmp := None))"

definition write_raw_plain_sample_create_once :: "raw_lib \<Rightarrow> string \<Rightarrow> string \<Rightarrow> (fsys \<Rightarrow> fsys) \<Rightarrow> fsys \<Rightarrow> fsys" where
  "write_raw_plain_sample_create_once z p payload others fs =
     write_file_create_once_atomically p (z_compress z (as_bytes payload)) others fs"

definition save_raw_sample :: "raw_lib \<Rightarrow> string \<Rightarrow> string \<Rightarrow> string \<Rightarrow> string \<Rightarrow> string option \<Rightarrow> (fsys \<Rightarrow> fsys) \<Rightarrow> fsys \<Rightarrow> fsys" where
  "save_raw_sample z data_dir plat match_id match_json timeline_json others fs =
     (let dir = join (join data_dir ''raw'') plat;
          fs = write_raw_plain_sample_create_once z (join dir (match_id @ ''.match.json.zst'')) match_json others fs
      in case timeline_json of
           Some tj \<Rightarrow> write_raw_plain_sample_create_once z (join dir (match_id @ ''.timeline.json.zst'')) tj others fs
         | None \<Rightarrow> fs)"

section \<open>Reading a sample\<close>

definition raw_dict_id :: "raw_lib \<Rightarrow> bytes \<Rightarrow> raw_error + u32" where
  "raw_dict_id z dict = (if z_dict_id z dict = 0 then Inl DictWithoutId else Inr (z_dict_id z dict))"

text \<open>The dictionary of a sample, from the process-wide cache or from its file, with the cache afterwards.\<close>

definition load_cached_raw_dict_for_sample :: "raw_lib \<Rightarrow> fsys \<Rightarrow> string \<Rightarrow> fsys \<Rightarrow> raw_error + bytes \<times> fsys" where
  "load_cached_raw_dict_for_sample z cache p fs =
     res_bind (raw_dir_for_sample p) (\<lambda>raw_dir.
     let dict_path = join raw_dir RAW_DICT_NAME in
     case cache dict_path of
       Some dict \<Rightarrow> Inr (dict, cache)
     | None \<Rightarrow>
         (case fs dict_path of
            None \<Rightarrow> Inl DictMissing
          | Some dict \<Rightarrow> res_bind (raw_dict_id z dict) (\<lambda>_. Inr (dict, cache(dict_path \<mapsto> dict)))))"

definition read_raw_sample :: "raw_lib \<Rightarrow> fsys \<Rightarrow> string \<Rightarrow> fsys \<Rightarrow> raw_error + string \<times> fsys" where
  "read_raw_sample z cache p fs =
     (case fs p of
        None \<Rightarrow> Inl RawMissing
      | Some compressed \<Rightarrow>
          res_bind
            (if z_frame_dict_id z compressed = 0 then
               (case z_decode_all z compressed of Some js \<Rightarrow> Inr (js, cache) | None \<Rightarrow> Inl RawUndecodable)
             else
               res_bind (load_cached_raw_dict_for_sample z cache p fs) (\<lambda>(dict, cache).
               res_bind (raw_dict_id z dict) (\<lambda>dict_id.
               if z_frame_dict_id z compressed \<noteq> dict_id then Inl DictIdMismatch
               else case z_dict_decode z dict compressed of Some js \<Rightarrow> Inr (js, cache) | None \<Rightarrow> Inl RawUndecodable)))
            (\<lambda>(js, cache). case from_utf8 js of Some t \<Rightarrow> Inr (t, cache) | None \<Rightarrow> Inl RawNotUtf8))"

section \<open>Recompression\<close>

record raw_outcome =
  ro_dict_created :: bool
  ro_dict_bytes :: nat
  ro_training_samples :: nat
  ro_files_seen :: nat
  ro_files_upgraded :: nat
  ro_files_already_dict :: nat
  ro_files_skipped_recent :: nat
  ro_files_skipped_changed :: nat
  ro_files_failed :: nat
  ro_before_bytes :: nat
  ro_after_bytes :: nat

definition raw_outcome_default :: raw_outcome where
  "raw_outcome_default = \<lparr>ro_dict_created = False, ro_dict_bytes = 0, ro_training_samples = 0, ro_files_seen = 0,
     ro_files_upgraded = 0, ro_files_already_dict = 0, ro_files_skipped_recent = 0, ro_files_skipped_changed = 0,
     ro_files_failed = 0, ro_before_bytes = 0, ro_after_bytes = 0\<rparr>"

definition file_mtime_older_than :: "(string \<Rightarrow> nat option) \<Rightarrow> string \<Rightarrow> nat \<Rightarrow> nat \<Rightarrow> bool" where
  "file_mtime_older_than mtime p age now =
     (case mtime p of Some t \<Rightarrow> t \<le> now \<and> now - t \<ge> age | None \<Rightarrow> False)"

text \<open>The sample files among the regular files found one level below the raw directory.\<close>

definition collect_raw_sample_paths :: "string list \<Rightarrow> string list" where
  "collect_raw_sample_paths listing = sort (filter is_raw_json_sample_path listing)"

fun training_samples :: "raw_lib \<Rightarrow> (string \<Rightarrow> nat option) \<Rightarrow> nat \<Rightarrow> fsys \<Rightarrow> string list \<Rightarrow> bytes list \<Rightarrow> bytes list" where
  "training_samples z mtime now fs [] samples = samples"
| "training_samples z mtime now fs (p # ps) samples =
     (if length samples \<ge> RAW_DICT_MAX_TRAINING_SAMPLES then samples
      else if \<not> file_mtime_older_than mtime p RAW_RECOMPACT_MIN_AGE now then training_samples z mtime now fs ps samples
      else case fs p of
        None \<Rightarrow> training_samples z mtime now fs ps samples
      | Some compressed \<Rightarrow>
          if z_frame_dict_id z compressed \<noteq> 0 then training_samples z mtime now fs ps samples
          else (case z_decode_all z compressed of
                  Some sample \<Rightarrow> training_samples z mtime now fs ps (samples @ [sample])
                | None \<Rightarrow> training_samples z mtime now fs ps samples))"

definition train_raw_sample_dict :: "raw_lib \<Rightarrow> (string \<Rightarrow> nat option) \<Rightarrow> nat \<Rightarrow> fsys \<Rightarrow> string list \<Rightarrow> raw_error + bytes option \<times> nat" where
  "train_raw_sample_dict z mtime now fs ps =
     (let samples = training_samples z mtime now fs ps []; n = length samples in
      if n < RAW_DICT_MIN_SAMPLES then Inr (None, n)
      else case z_train z samples RAW_DICT_MAX_BYTES of
        None \<Rightarrow> Inl TrainFailed
      | Some dict \<Rightarrow>
          if length dict > RAW_DICT_MAX_BYTES then Inl DictTooLarge
          else res_bind (raw_dict_id z dict) (\<lambda>_. Inr (Some dict, n)))"

definition write_raw_dict_atomically :: "string \<Rightarrow> bytes \<Rightarrow> fsys \<Rightarrow> fsys" where
  "write_raw_dict_atomically p dict fs = rename_file (tmp_path p) p (fs(tmp_path p \<mapsto> dict))"

datatype raw_sample_upgrade = Upgraded nat nat | AlreadyDict | Changed

definition recompact_raw_sample_path :: "raw_lib \<Rightarrow> bytes \<Rightarrow> u32 \<Rightarrow> (fsys \<Rightarrow> fsys) \<Rightarrow> string \<Rightarrow> fsys \<Rightarrow> (raw_error + raw_sample_upgrade) \<times> fsys" where
  "recompact_raw_sample_path z dict dict_id others p fs =
     (case fs p of
        None \<Rightarrow> (Inl RawMissing, fs)
      | Some before \<Rightarrow>
          if z_frame_dict_id z before \<noteq> 0 then (Inr AlreadyDict, fs)
          else case z_decode_all z before of
            None \<Rightarrow> (Inl RawUndecodable, fs)
          | Some plain \<Rightarrow>
              (case z_dict_compress z dict plain of
                 None \<Rightarrow> (Inl RawUncompressable, fs)
               | Some compressed \<Rightarrow>
                   if z_frame_dict_id z compressed \<noteq> dict_id then (Inl DictIdMismatch, fs)
                   else case z_dict_decompress z dict compressed (length plain) of
                     None \<Rightarrow> (Inl RawUndecodable, fs)
                   | Some roundtrip \<Rightarrow>
                       if roundtrip \<noteq> plain then (Inl RoundtripMismatch, fs)
                       else
                         let fs = others (fs(tmp_path p \<mapsto> compressed)) in
                         if fs p = Some before then (Inr (Upgraded (length before) (length compressed)), rename_file (tmp_path p) p fs)
                         else (Inr Changed, fs(tmp_path p := None))))"

fun recompact_paths :: "raw_lib \<Rightarrow> (string \<Rightarrow> nat option) \<Rightarrow> nat \<Rightarrow> bytes \<Rightarrow> u32 \<Rightarrow> (fsys \<Rightarrow> fsys) \<Rightarrow> string list \<Rightarrow>
  raw_outcome \<Rightarrow> fsys \<Rightarrow> raw_outcome \<times> fsys" where
  "recompact_paths z mtime now dict dict_id others [] outc fs = (outc, fs)"
| "recompact_paths z mtime now dict dict_id others (p # ps) outc fs =
     (if \<not> file_mtime_older_than mtime p RAW_RECOMPACT_MIN_AGE now then
        recompact_paths z mtime now dict dict_id others ps (outc\<lparr>ro_files_skipped_recent := ro_files_skipped_recent outc + 1\<rparr>) fs
      else case recompact_raw_sample_path z dict dict_id others p fs of
        (Inr (Upgraded before after), fs) \<Rightarrow>
          recompact_paths z mtime now dict dict_id others ps
            (outc\<lparr>ro_files_upgraded := ro_files_upgraded outc + 1, ro_before_bytes := ro_before_bytes outc + before,
                  ro_after_bytes := ro_after_bytes outc + after\<rparr>) fs
      | (Inr AlreadyDict, fs) \<Rightarrow>
          recompact_paths z mtime now dict dict_id others ps (outc\<lparr>ro_files_already_dict := ro_files_already_dict outc + 1\<rparr>) fs
      | (Inr Changed, fs) \<Rightarrow>
          recompact_paths z mtime now dict dict_id others ps (outc\<lparr>ro_files_skipped_changed := ro_files_skipped_changed outc + 1\<rparr>) fs
      | (Inl _, fs) \<Rightarrow>
          recompact_paths z mtime now dict dict_id others ps (outc\<lparr>ro_files_failed := ro_files_failed outc + 1\<rparr>) fs)"

definition recompact_raw_samples :: "raw_lib \<Rightarrow> (string \<Rightarrow> nat option) \<Rightarrow> nat \<Rightarrow> (fsys \<Rightarrow> fsys) \<Rightarrow> string \<Rightarrow> string list \<Rightarrow> fsys \<Rightarrow>
  (raw_error + raw_outcome) \<times> fsys" where
  "recompact_raw_samples z mtime now others data_dir listing fs =
     (let ps = collect_raw_sample_paths listing;
          outc = raw_outcome_default\<lparr>ro_files_seen := length ps\<rparr>;
          dict_path = join (join data_dir ''raw'') RAW_DICT_NAME;
          recompact = (\<lambda>dict outc fs.
            let outc = outc\<lparr>ro_dict_bytes := length dict\<rparr> in
            case raw_dict_id z dict of
              Inl e \<Rightarrow> (Inl e, fs)
            | Inr dict_id \<Rightarrow> apfst Inr (recompact_paths z mtime now dict dict_id others ps outc fs))
      in if ps = [] then (Inr outc, fs)
         else case fs dict_path of
           Some dict \<Rightarrow> recompact dict outc fs
         | None \<Rightarrow>
             (case train_raw_sample_dict z mtime now fs ps of
                Inl e \<Rightarrow> (Inl e, fs)
              | Inr (maybe_dict, n) \<Rightarrow>
                  let outc = outc\<lparr>ro_training_samples := n\<rparr> in
                  (case maybe_dict of
                     None \<Rightarrow> (Inr outc, fs)
                   | Some dict \<Rightarrow>
                       recompact dict (outc\<lparr>ro_dict_created := True\<rparr>) (write_raw_dict_atomically dict_path dict fs))))"

end
