(* ===== verification/Raw_Samples_Props.thy ===== *)
theory Raw_Samples_Props
  imports Raw_Samples
begin

text \<open>
  The raw archive keeps its payloads: what is saved reads back, a sample is never overwritten by a second save, and
  recompression, whether it succeeds or fails, leaves every sample reading as before.
\<close>

definition raw_lib_ok :: "raw_lib \<Rightarrow> bool" where
  "raw_lib_ok z \<longleftrightarrow> (\<forall>bs. z_decode_all z (z_compress z bs) = Some bs \<and> z_frame_dict_id z (z_compress z bs) = 0)
     \<and> (\<forall>dict bs n plain. z_dict_decompress z dict bs n = Some plain \<longrightarrow> z_dict_decode z dict bs = Some plain)"

definition dict_path :: "string \<Rightarrow> string" where
  "dict_path data_dir = join (join data_dir ''raw'') RAW_DICT_NAME"

text \<open>A sample file: below its platform directory, with one of the two suffixes.\<close>

definition sample_path :: "string \<Rightarrow> string \<Rightarrow> bool" where
  "sample_path data_dir p \<longleftrightarrow> is_raw_json_sample_path p
     \<and> (\<exists>plat name. p = join (join (join data_dir ''raw'') plat) name \<and> CHR ''/'' \<notin> set plat \<and> CHR ''/'' \<notin> set name)"

definition reads_as :: "raw_lib \<Rightarrow> fsys \<Rightarrow> string \<Rightarrow> fsys \<Rightarrow> string \<Rightarrow> bool" where
  "reads_as z cache p fs t \<longleftrightarrow> (\<exists>cache'. read_raw_sample z cache p fs = Inr (t, cache'))"

section \<open>Paths\<close>

lemma parent_join: "CHR ''/'' \<notin> set name \<Longrightarrow> parent_dir (join dir name) = Some dir"
proof -
  assume n: "CHR ''/'' \<notin> set name"
  have "dropWhile (\<lambda>c. c \<noteq> CHR ''/'') (rev name @ CHR ''/'' # rev dir) = CHR ''/'' # rev dir"
    using n by (subst dropWhile_append2) auto
  then show ?thesis by (simp add: parent_dir_def join_def)
qed

lemma sample_raw_dir: "sample_path data_dir p \<Longrightarrow> raw_dir_for_sample p = Inr (join data_dir ''raw'')"
  by (auto simp: sample_path_def raw_dir_for_sample_def parent_join)

lemma ends_with_last: "ends_with suffix p \<Longrightarrow> suffix \<noteq> [] \<Longrightarrow> last p = last suffix \<and> p \<noteq> []"
  unfolding ends_with_def by (metis drop_eq_Nil last_drop not_le drop_Nil)

lemma last_tmp: "last (tmp_path p) = CHR ''p''" "last (raw_write_tmp_path p) = CHR ''p''"
  by (simp_all add: tmp_path_def raw_write_tmp_path_def)

lemma sample_last: "is_raw_json_sample_path p \<Longrightarrow> last p = CHR ''t''"
  unfolding is_raw_json_sample_path_def using ends_with_last[of "''.match.json.zst''" p] ends_with_last[of "''.timeline.json.zst''" p] by auto

lemma suffix_4: "ends_with s p \<Longrightarrow> length s \<ge> 4 \<Longrightarrow> drop (length p - 4) p = drop (length s - 4) s"
proof -
  assume a: "ends_with s p" "length s \<ge> 4"
  have "drop (length s - 4) (drop (length p - length s) p) = drop (length s - 4) s" using a(1) by (simp add: ends_with_def)
  then show ?thesis using a by (simp add: ends_with_def)
qed

lemma dict_not_sample: "is_raw_json_sample_path p \<Longrightarrow> p \<noteq> dict_path d"
proof -
  assume "is_raw_json_sample_path p"
  then have "drop (length p - 4) p = ''.zst''"
    unfolding is_raw_json_sample_path_def using suffix_4[of "''.match.json.zst''" p] suffix_4[of "''.timeline.json.zst''" p] by auto
  moreover have "drop (length (dict_path d) - 4) (dict_path d) = ''dict''" by (simp add: dict_path_def join_def RAW_DICT_NAME_def)
  ultimately show ?thesis by auto
qed

lemma tmp_not_sample: "is_raw_json_sample_path p \<Longrightarrow> tmp_path q \<noteq> p"
  using sample_last[of p] last_tmp(1)[of q] by auto

lemma write_tmp_not_sample: "is_raw_json_sample_path p \<Longrightarrow> raw_write_tmp_path q \<noteq> p"
  using sample_last[of p] last_tmp(2)[of q] by auto

lemma tmp_not_dict: "tmp_path q \<noteq> dict_path d"
proof -
  have "last (dict_path d) = CHR ''t''" by (simp add: dict_path_def join_def RAW_DICT_NAME_def)
  then show ?thesis using last_tmp(1)[of q] by auto
qed

lemma tmp_not_self: "tmp_path q \<noteq> q" "raw_write_tmp_path q \<noteq> q"
  by (simp_all add: tmp_path_def raw_write_tmp_path_def)

section \<open>Reading\<close>

definition current_dict :: "fsys \<Rightarrow> string \<Rightarrow> fsys \<Rightarrow> bytes option" where
  "current_dict cache d fs = (case cache (dict_path d) of Some dict \<Rightarrow> Some dict | None \<Rightarrow> fs (dict_path d))"

text \<open>What a sample holds, given the dictionary.\<close>

definition payload :: "raw_lib \<Rightarrow> bytes option \<Rightarrow> bytes \<Rightarrow> bytes option" where
  "payload z dict bs =
     (if z_frame_dict_id z bs = 0 then z_decode_all z bs
      else case dict of
        Some dc \<Rightarrow> if z_dict_id z dc = z_frame_dict_id z bs then z_dict_decode z dc bs else None
      | None \<Rightarrow> None)"

lemma reads_as_iff:
  assumes "sample_path d p"
  shows "reads_as z cache p fs t \<longleftrightarrow>
    (\<exists>bs js. fs p = Some bs \<and> payload z (current_dict cache d fs) bs = Some js \<and> from_utf8 js = Some t)"
proof -
  have dp: "join (join d ''raw'') RAW_DICT_NAME = dict_path d" by (simp add: dict_path_def)
  note defs = reads_as_def read_raw_sample_def load_cached_raw_dict_for_sample_def raw_dict_id_def payload_def current_dict_def
    Let_def dp sample_raw_dir[OF assms]
  show ?thesis
  proof (cases "fs p")
    case (Some bs)
    show ?thesis
    proof (cases "z_frame_dict_id z bs = 0")
      case True
      then show ?thesis using Some by (simp add: defs split: option.split)
    next
      case frame: False
      show ?thesis
      proof (cases "cache (dict_path d)")
        case None
        then show ?thesis using Some frame by (cases "fs (dict_path d)") (auto simp: defs split: option.split)
      next
        case (Some dict)
        then show ?thesis using \<open>fs p = Some bs\<close> frame by (auto simp: defs split: option.split)
      qed
    qed
  qed (simp add: defs)
qed

lemma reads_as_same:
  "sample_path d p \<Longrightarrow> fs' p = fs p \<Longrightarrow> fs' (dict_path d) = fs (dict_path d) \<Longrightarrow> reads_as z cache p fs' t = reads_as z cache p fs t"
  by (simp add: reads_as_iff current_dict_def split: option.split)

section \<open>Saving\<close>

lemma from_utf8_as_bytes: "utf8_valid (as_bytes t) \<Longrightarrow> from_utf8 (as_bytes t) = Some t"
proof -
  have "char_of (unat (of_char c :: u8)) = c" for c :: char
  proof -
    have "(of_char c :: u8) = of_nat (of_char c)" by (rule of_nat_of_char[symmetric])
    moreover have "(of_char c :: nat) < 256" by (simp add: of_char_def)
    ultimately have "unat (of_char c :: u8) = of_char c" by (simp add: unat_of_nat)
    then show ?thesis by simp
  qed
  then show "utf8_valid (as_bytes t) \<Longrightarrow> from_utf8 (as_bytes t) = Some t"
    by (simp add: from_utf8_def as_bytes_def comp_def)
qed

text \<open>A saved payload reads back, and a sample that is there is not written again.\<close>

lemma saved_reads:
  assumes "raw_lib_ok z" "sample_path d p" "utf8_valid (as_bytes t)" "fs p = None"
  shows "reads_as z cache p (write_raw_plain_sample_create_once z p t id fs) t"
proof -
  have "write_raw_plain_sample_create_once z p t id fs p = Some (z_compress z (as_bytes t))"
    using assms(4) tmp_not_self(2)[of p]
    by (simp add: write_raw_plain_sample_create_once_def write_file_create_once_atomically_def Let_def)
  then show ?thesis using assms(1) from_utf8_as_bytes[OF assms(3)]
    by (auto simp: reads_as_iff[OF assms(2)] payload_def raw_lib_ok_def)
qed

lemma saved_once: "fs p \<noteq> None \<Longrightarrow> write_raw_plain_sample_create_once z p t others fs = fs"
  by (simp add: write_raw_plain_sample_create_once_def write_file_create_once_atomically_def)

section \<open>Recompression\<close>

text \<open>Other writers leave the sample, the dictionary and the temporary files alone.\<close>

definition leaves_alone :: "string \<Rightarrow> string \<Rightarrow> (fsys \<Rightarrow> fsys) \<Rightarrow> bool" where
  "leaves_alone d p others \<longleftrightarrow> (\<forall>fs q. q = p \<or> q = dict_path d \<or> (\<exists>q'. q = tmp_path q') \<longrightarrow> others fs q = fs q)"

text \<open>A recompression either touches nothing, or writes a verified frame next to the sample and then replaces it or steps back.\<close>

lemma recompact_cases:
  assumes "recompact_raw_sample_path z dict dict_id others q fs = (res, fs')"
  obtains (untouched) "fs' = fs"
  | (tried) before plain comp where "fs q = Some before" "z_frame_dict_id z before = 0" "z_decode_all z before = Some plain"
      "z_frame_dict_id z comp = dict_id" "z_dict_decompress z dict comp (length plain) = Some plain"
      "fs' = (if others (fs(tmp_path q \<mapsto> comp)) q = Some before then rename_file (tmp_path q) q (others (fs(tmp_path q \<mapsto> comp)))
              else (others (fs(tmp_path q \<mapsto> comp)))(tmp_path q := None))"
  using assms unfolding recompact_raw_sample_path_def Let_def
  by (simp split: option.split_asm if_split_asm)

text \<open>One sample: what it reads as is kept.\<close>

lemma recompact_one:
  assumes z: "raw_lib_ok z" and p: "sample_path d p" and q: "is_raw_json_sample_path q" and o: "leaves_alone d p others"
    and dict: "fs (dict_path d) = Some dict" "z_dict_id z dict = dict_id" "dict_id \<noteq> 0" and c: "cache (dict_path d) \<in> {None, Some dict}"
    and r: "recompact_raw_sample_path z dict dict_id others q fs = (res, fs')" and t: "reads_as z cache p fs t"
  shows "reads_as z cache p fs' t \<and> fs' (dict_path d) = Some dict"
proof -
  have sp: "is_raw_json_sample_path p" using p by (simp add: sample_path_def)
  note paths = tmp_not_sample[OF sp, of q] tmp_not_dict[of q d] dict_not_sample[OF q, of d] tmp_not_self(1)[of q]
  have oth: "\<And>g. others g p = g p" "\<And>g. others g (dict_path d) = g (dict_path d)" "\<And>g. others g (tmp_path q) = g (tmp_path q)"
    using o by (auto simp: leaves_alone_def)
  from r show ?thesis
  proof (cases rule: recompact_cases)
    case untouched
    then show ?thesis using t dict(1) by simp
  next
    case (tried before plain comp)
    let ?g = "others (fs(tmp_path q \<mapsto> comp))"
    have g: "?g p = fs p" "?g (dict_path d) = Some dict" "?g (tmp_path q) = Some comp"
      using paths(1,2) dict(1) oth by auto
    have dictE: "fs' (dict_path d) = Some dict" using g(2) paths(2,3) tried(6) by (auto simp: rename_file_def)
    show ?thesis
    proof (cases "q = p \<and> ?g q = Some before")
      case True
      then have f: "fs' p = Some comp" using tried(6) g(3) paths(4) by (auto simp: rename_file_def)
      have "current_dict cache d fs' = Some dict" using c dictE by (auto simp: current_dict_def)
      then have "payload z (current_dict cache d fs') comp = Some plain"
        using z tried(4,5) dict(2,3) by (simp add: payload_def raw_lib_ok_def)
      moreover have "payload z (current_dict cache d fs) before = Some plain" using tried(2,3) by (simp add: payload_def)
      ultimately show ?thesis using t True tried(1) f dictE by (auto simp: reads_as_iff[OF p])
    next
      case False
      have "rename_file (tmp_path q) q ?g p = ?g p" if "q \<noteq> p" using that paths(1) by (simp add: rename_file_def)
      then have "fs' p = ?g p" using tried(6) False paths(1) by (cases "q = p") simp_all
      then have "fs' p = fs p" using g(1) by simp
      then show ?thesis using t dictE reads_as_same[OF p, of fs' fs z cache t] dict(1) by simp
    qed
  qed
qed

lemma recompact_all:
  assumes z: "raw_lib_ok z" and p: "sample_path d p" and o: "leaves_alone d p others"
    and dict: "z_dict_id z dict = dict_id" "dict_id \<noteq> 0" and c: "cache (dict_path d) \<in> {None, Some dict}"
  shows "list_all is_raw_json_sample_path ps \<Longrightarrow> fs (dict_path d) = Some dict \<Longrightarrow> reads_as z cache p fs t \<Longrightarrow>
    reads_as z cache p (snd (recompact_paths z mtime now dict dict_id others ps outc fs)) t
    \<and> snd (recompact_paths z mtime now dict dict_id others ps outc fs) (dict_path d) = Some dict"
proof (induction ps arbitrary: outc fs)
  case (Cons q ps)
  obtain res fs' where r: "recompact_raw_sample_path z dict dict_id others q fs = (res, fs')" by fastforce
  have q: "is_raw_json_sample_path q" "list_all is_raw_json_sample_path ps" using Cons.prems(1) by simp_all
  note s = recompact_one[OF z p q(1) o Cons.prems(2) dict c r Cons.prems(3)]
  show ?case using Cons.IH[OF q(2)] Cons.prems(2,3) s r
    by (auto split: sum.splits raw_sample_upgrade.splits)
qed simp

lemma write_dict_effect:
  assumes "is_raw_json_sample_path p"
  shows "write_raw_dict_atomically (dict_path d) dict fs (dict_path d) = Some dict"
    and "write_raw_dict_atomically (dict_path d) dict fs p = fs p"
  using tmp_not_sample[OF assms, of "dict_path d"] tmp_not_self(1)[of "dict_path d"] dict_not_sample[OF assms, of d]
  by (simp_all add: write_raw_dict_atomically_def rename_file_def)

lemma raw_recompaction_keeps:
  assumes "raw_lib_ok z" "sample_path d p" "leaves_alone d p others"
    and "cache (dict_path d) = None \<or> cache (dict_path d) = fs (dict_path d)"
    and "recompact_raw_samples z mtime now others d listing fs = (res, fs')" "reads_as z cache p fs t"
  shows "reads_as z cache p fs' t \<and> (\<forall>dict. fs (dict_path d) = Some dict \<longrightarrow> fs' (dict_path d) = Some dict)"
proof -
  let ?ps = "collect_raw_sample_paths listing"
  have ps: "list_all is_raw_json_sample_path ?ps" by (simp add: collect_raw_sample_paths_def list_all_iff)
  have dp: "join (join d ''raw'') RAW_DICT_NAME = dict_path d" by (simp add: dict_path_def)
  have sp: "is_raw_json_sample_path p" using assms(2) by (simp add: sample_path_def)
  have run: "reads_as z cache p g' t \<and> g' (dict_path d) = Some dict"
    if "raw_dict_id z dict = Inr i" "g (dict_path d) = Some dict" "cache (dict_path d) \<in> {None, Some dict}" "reads_as z cache p g t"
      "recompact_paths z mtime now dict i others ?ps outc g = (outc', g')" for dict i outc outc' g g'
    using that recompact_all[OF assms(1-3) _ _ that(3) ps that(2,4), of i mtime now outc] by (auto simp: raw_dict_id_def split: if_splits)
  show ?thesis
  proof (cases "fs (dict_path d)")
    case (Some dict)
    then show ?thesis using assms(4-6)
      by (auto simp: recompact_raw_samples_def Let_def dp apfst_def map_prod_def split: if_splits sum.splits prod.splits dest: run)
  next
    case None
    have c: "cache (dict_path d) = None" using assms(4) None by auto
    have w: "reads_as z cache p (write_raw_dict_atomically (dict_path d) dict fs) t" for dict
    proof -
      obtain bs js where b: "fs p = Some bs" "payload z (current_dict cache d fs) bs = Some js" "from_utf8 js = Some t"
        using assms(6) by (auto simp: reads_as_iff[OF assms(2)])
      have "z_frame_dict_id z bs = 0" using b(2) None c by (auto simp: payload_def current_dict_def split: if_splits)
      then show ?thesis using b write_dict_effect(2)[OF sp] by (auto simp: reads_as_iff[OF assms(2)] payload_def)
    qed
    have "reads_as z cache p g' t"
      if "raw_dict_id z dict = Inr i" "recompact_paths z mtime now dict i others ?ps outc (write_raw_dict_atomically (dict_path d) dict fs) = (outc', g')"
      for dict i outc outc' g'
      using run[OF that(1) write_dict_effect(1)[OF sp] _ w that(2)] c by simp
    then show ?thesis using assms(5,6) None w
      by (auto simp: recompact_raw_samples_def Let_def dp apfst_def map_prod_def split: if_splits sum.splits prod.splits option.splits)
  qed
qed

section \<open>Properties\<close>

text \<open>C12: Recompressing the archive never loses a payload: whatever the outcome (no dictionary yet, a failed training, samples
  skipped, failed or upgraded), every sample that could be read before reads as the same text afterwards, also while
  other writers add files.\<close>

theorem recompact_keeps_samples:
  assumes "raw_lib_ok z" "sample_path d p" "leaves_alone d p others"
    and "cache (dict_path d) = None \<or> cache (dict_path d) = fs (dict_path d)"
    and "recompact_raw_samples z mtime now others d listing fs = (res, fs')" "reads_as z cache p fs t"
  shows "reads_as z cache p fs' t"
  using raw_recompaction_keeps[OF assms] by blast

text \<open>A library for concrete inputs: a frame is its dictionary id and the plain bytes, a dictionary starts with its id.\<close>

definition sample_zstd :: raw_lib where
  "sample_zstd = \<lparr>z_compress = (\<lambda>bs. 0 # bs), z_decode_all = (\<lambda>f. case f of [] \<Rightarrow> None | i # bs \<Rightarrow> if i = 0 then Some bs else None),
     z_dict_compress = (\<lambda>dict bs. Some (hd dict # bs)),
     z_dict_decompress = (\<lambda>dict f n. case f of [] \<Rightarrow> None | i # bs \<Rightarrow> if i = hd dict \<and> length bs \<le> n then Some bs else None),
     z_dict_decode = (\<lambda>dict f. case f of [] \<Rightarrow> None | i # bs \<Rightarrow> if i = hd dict then Some bs else None),
     z_dict_id = (\<lambda>dict. case dict of [] \<Rightarrow> 0 | i # _ \<Rightarrow> ucast i), z_frame_dict_id = (\<lambda>f. case f of [] \<Rightarrow> 0 | i # _ \<Rightarrow> ucast i),
     z_train = (\<lambda>samples n. Some [7])\<rparr>"

lemma sample_zstd_ok: "raw_lib_ok sample_zstd"
  by (auto simp: raw_lib_ok_def sample_zstd_def split: list.splits if_splits)

definition sample_file :: string where "sample_file = ''d/raw/KR/KR_1.match.json.zst''"

definition sample_files :: fsys where
  "sample_files = (\<lambda>_. None)(sample_file \<mapsto> [0, 123, 125], dict_path ''d'' \<mapsto> [7])"

theorem recompact_keeps_samples_witness:
  "\<exists>res fs'. recompact_raw_samples sample_zstd (\<lambda>_. Some 0) 4000 id ''d'' [sample_file] sample_files = (Inr res, fs')
     \<and> ro_files_upgraded res = 1 \<and> reads_as sample_zstd (\<lambda>_. None) sample_file fs' ''{}''"
proof -
  have sf: "is_raw_json_sample_path sample_file" by (simp add: is_raw_json_sample_path_def ends_with_def sample_file_def)
  have "sample_file = join (join (join ''d'' ''raw'') ''KR'') ''KR_1.match.json.zst''" by (simp add: sample_file_def join_def)
  then have p: "sample_path ''d'' sample_file" using sf unfolding sample_path_def
    by (intro conjI exI[of _ "''KR''"] exI[of _ "''KR_1.match.json.zst''"]) simp_all
  have dp: "join (join ''d'' ''raw'') RAW_DICT_NAME = dict_path ''d''" by (simp add: dict_path_def)
  have ne: "dict_path ''d'' \<noteq> sample_file" using dict_not_sample[OF sf] by metis
  have r: "reads_as sample_zstd (\<lambda>_. None) sample_file sample_files ''{}''"
    using ne by (auto simp: reads_as_iff[OF p] sample_files_def payload_def sample_zstd_def from_utf8_def char_of_def bit_simps)
  have "\<exists>res fs'. recompact_raw_samples sample_zstd (\<lambda>_. Some 0) 4000 id ''d'' [sample_file] sample_files = (Inr res, fs')
     \<and> ro_files_upgraded res = 1"
    using sf ne tmp_not_self(1)[of sample_file] tmp_not_dict[of sample_file "''d''"]
    by (simp add: recompact_raw_samples_def collect_raw_sample_paths_def dp sample_files_def raw_dict_id_def sample_zstd_def
        raw_outcome_default_def file_mtime_older_than_def RAW_RECOMPACT_MIN_AGE_def recompact_raw_sample_path_def Let_def)
  then obtain res fs' where e: "recompact_raw_samples sample_zstd (\<lambda>_. Some 0) 4000 id ''d'' [sample_file] sample_files = (Inr res, fs')"
    "ro_files_upgraded res = 1" by blast
  have "leaves_alone ''d'' sample_file id" by (simp add: leaves_alone_def)
  then show ?thesis using e recompact_keeps_samples[OF sample_zstd_ok p _ _ e(1) r] by auto
qed

end
