(* ===== verification/Crawler.thy ===== *)
theory Crawler
  imports Store_Frontier Match_Parse_Props Raw_Samples_Props Complex_Main
begin

text \<open>
  The crawl loop of one region (\<^verbatim>\<open>crates/server/src/crawler.rs\<close>) over the store: the budget brake, enrolment and apex
  seeding, ladder expansion, player visits with the download of their matches, and rescheduling.

  What the API answers, the clock readings, the stop flag and the order in which downloads complete are arguments
  (the records ending in \<open>_io\<close>): an answer is the value that the client of \<^verbatim>\<open>riot.rs\<close> returns, \<open>None\<close> when it failed.
  Each lock section of the code is one update of the store; a region runs alone.  The floating-point arithmetic of the
  revisit heuristic is done in exact rationals, and \<^verbatim>\<open>FETCH_TIMELINES\<close> is off, as configured.
\<close>

section \<open>Configuration and API values\<close>

definition QUEUE_ID :: u32 where "QUEUE_ID = 420"

definition RANKED_QUEUE_TYPE :: string where "RANKED_QUEUE_TYPE = ''RANKED_SOLO_5x5''"

definition APEX_LEAGUES :: "(string \<times> string) list" where
  "APEX_LEAGUES = [(''challengerleagues'', ''CHALLENGER''), (''grandmasterleagues'', ''GRANDMASTER''), (''masterleagues'', ''MASTER'')]"

definition SEED_INTERVAL_SECS :: nat where "SEED_INTERVAL_SECS = 6 * 3600"

definition EXPANSION_BANDS :: "(string \<times> string) list" where
  "EXPANSION_BANDS =
     [(''DIAMOND'', ''I''), (''DIAMOND'', ''II''), (''DIAMOND'', ''III''), (''DIAMOND'', ''IV''),
      (''EMERALD'', ''I''), (''EMERALD'', ''II''), (''EMERALD'', ''III''), (''EMERALD'', ''IV'')]"

definition BRAKE_OVERDUE_GRACE_MS :: u64 where "BRAKE_OVERDUE_GRACE_MS = 2 * 3600 * 1000"

definition BRAKE_ON_COUNT :: nat where "BRAKE_ON_COUNT = 500"

definition BRAKE_OFF_COUNT :: nat where "BRAKE_OFF_COUNT = 100"

definition MIN_REVISIT_DAYS :: rat where "MIN_REVISIT_DAYS = 7"

definition MAX_REVISIT_DAYS :: rat where "MAX_REVISIT_DAYS = 60"

definition REVISIT_AFTER_MATCHES :: rat where "REVISIT_AFTER_MATCHES = 4"

definition RAW_SAMPLE_PERMILLE :: u64 where "RAW_SAMPLE_PERMILLE = 10"

definition MAX_MATCH_AGE_DAYS :: int where "MAX_MATCH_AGE_DAYS = 130"

definition MATCHLIST_MAX_DEPTH :: nat where "MATCHLIST_MAX_DEPTH = 10000"

record league_entry =
  le_puuid :: string
  le_queue_type :: string
  le_tier :: string
  le_rank :: string
  le_league_points :: int
  le_wins :: int
  le_losses :: int

record league_list_entry =
  ll_puuid :: string
  ll_league_points :: int
  ll_wins :: int
  ll_losses :: int

datatype crawl_error = ApiError | BadMatchIdError | StoreFailed store_error

record crawler =
  cw_store :: store
  cw_braked :: bool
  cw_adopt_tx :: "(u32 \<times> string) list"

definition on_store :: "(store \<Rightarrow> store) \<Rightarrow> crawler \<Rightarrow> crawler" where
  "on_store f c = c\<lparr>cw_store := f (cw_store c)\<rparr>"

definition push_task :: "string \<Rightarrow> u8 \<Rightarrow> u64 \<Rightarrow> u32 \<Rightarrow> frontier_task \<Rightarrow> store \<Rightarrow> store" where
  "push_task plat bucket due pid task s =
     snd (store_frontier (\<lambda>f. ((), frontier_push plat bucket due pid task f)) s)"

section \<open>Brake\<close>

definition update_brake :: "region \<Rightarrow> u64 \<Rightarrow> crawler \<Rightarrow> bool \<times> crawler" where
  "update_brake rg now c =
     (let overdue = frontier_overdue_count (rg_platform rg) now BRAKE_OVERDUE_GRACE_MS (BRAKE_ON_COUNT * 2)
            (t_front (st_db (cw_store c)));
          c = (if \<not> cw_braked c \<and> overdue \<ge> BRAKE_ON_COUNT then c\<lparr>cw_braked := True\<rparr>
               else if cw_braked c \<and> overdue \<le> BRAKE_OFF_COUNT then c\<lparr>cw_braked := False\<rparr>
               else c)
      in (cw_braked c, c))"

section \<open>Enrolment\<close>

definition enroll :: "region \<Rightarrow> u64 \<Rightarrow> (string \<times> rank_snap) list \<Rightarrow> u8 \<Rightarrow> crawler \<Rightarrow> nat \<times> crawler" where
  "enroll rg ts entries source c =
     (let puuids = map fst entries in
      case assign_player_ids puuids (cw_store c) of (pids, s) \<Rightarrow>
      case cohort_add_batch pids source ts s of (newly, s) \<Rightarrow>
        let s = fold (\<lambda>((puuid, snap), pid) s. add_rank_snapshot pid ts snap s) (zip entries pids) s;
            items = map (\<lambda>(pid, puuid). (pid, \<lparr>ft_puuid = puuid, last_visit_ms = 0\<rparr>)) (zip pids puuids);
            s = snd (store_frontier (\<lambda>f. ((), frontier_push_batch (rg_platform rg) BUCKET_PRIORITY ts items f)) s)
        in (length newly, c\<lparr>cw_store := s\<rparr>))"

record seed_io =
  sd_stopped :: bool
  sd_brake_now :: u64
  sd_list :: "league_list_entry list option"
  sd_enroll_now :: u64

definition apex_entries :: "string \<Rightarrow> league_list_entry list \<Rightarrow> (string \<times> rank_snap) list" where
  "apex_entries tier es =
     map (\<lambda>e. (ll_puuid e, \<lparr>rs_tier = tier, rs_division = ''I'', rs_lp = ll_league_points e, rs_wins = ll_wins e, rs_losses = ll_losses e\<rparr>))
       (filter (\<lambda>e. ll_puuid e \<noteq> []) es)"

text \<open>The leagues in order; the value says whether the seed is complete (not stopped half way).\<close>

fun seed_leagues :: "region \<Rightarrow> nat \<Rightarrow> (string \<times> string) list \<Rightarrow> (nat \<Rightarrow> seed_io) \<Rightarrow> crawler \<Rightarrow> (crawl_error + bool) \<times> crawler" where
  "seed_leagues rg i [] io c = (Inr True, c)"
| "seed_leagues rg i ((league, tier) # leagues) io c =
     (if sd_stopped (io i) then (Inr False, c)
      else case update_brake rg (sd_brake_now (io i)) c of (braked, c) \<Rightarrow>
        if braked \<and> i > 0 then (Inr True, c)
        else case sd_list (io i) of
          None \<Rightarrow> (Inl ApiError, c)
        | Some es \<Rightarrow>
            seed_leagues rg (i + 1) leagues io (snd (enroll rg (sd_enroll_now (io i)) (apex_entries tier es) COHORT_SRC_APEX c)))"

definition seed_key :: "region \<Rightarrow> string" where
  "seed_key rg = ''seed_apex_'' @ rg_platform rg"

definition seed_fresh :: "u32 \<Rightarrow> u32 option \<Rightarrow> bool" where
  "seed_fresh now_s last_seed =
     (case last_seed of Some t \<Rightarrow> (if t \<le> now_s then unat (now_s - t) else 0) < SEED_INTERVAL_SECS | None \<Rightarrow> False)"

definition maybe_seed :: "region \<Rightarrow> u64 \<Rightarrow> (nat \<Rightarrow> seed_io) \<Rightarrow> crawler \<Rightarrow> (crawl_error + unit) \<times> crawler" where
  "maybe_seed rg now io c =
     (let now_s = ucast (now div 1000) :: u32 in
      if seed_fresh now_s (meta_get_u32 (seed_key rg) (cw_store c)) then (Inr (), c)
      else case seed_leagues rg 0 APEX_LEAGUES io c of
        (Inl e, c) \<Rightarrow> (Inl e, c)
      | (Inr done, c) \<Rightarrow> (Inr (), if done then on_store (meta_set_u32 (seed_key rg) now_s) c else c))"

section \<open>Ladder expansion\<close>

record expand_io =
  xp_brake_now :: u64
  xp_page :: "string \<Rightarrow> string \<Rightarrow> u32 \<Rightarrow> league_entry list option"
  xp_enroll_now :: u64

definition rank_of :: "league_entry \<Rightarrow> rank_snap" where
  "rank_of e = \<lparr>rs_tier = le_tier e, rs_division = le_rank e, rs_lp = le_league_points e, rs_wins = le_wins e, rs_losses = le_losses e\<rparr>"

definition cursor_key :: "region \<Rightarrow> string" where
  "cursor_key rg = ''expand_cursor_'' @ rg_platform rg"

definition maybe_expand :: "region \<Rightarrow> expand_io \<Rightarrow> crawler \<Rightarrow> (crawl_error + bool) \<times> crawler" where
  "maybe_expand rg io c =
     (case update_brake rg (xp_brake_now io) c of (braked, c) \<Rightarrow>
      if braked then (Inr False, c)
      else
        let cursor = (case meta_get_u32 (cursor_key rg) (cw_store c) of Some v \<Rightarrow> v | None \<Rightarrow> 0);
            band_idx = cursor div 10000;
            page = max (cursor mod 10000) 1
        in if unat band_idx \<ge> length EXPANSION_BANDS then (Inr False, c)
           else case EXPANSION_BANDS ! unat band_idx of (tier, division) \<Rightarrow>
             (case xp_page io tier division page of
                None \<Rightarrow> (Inl ApiError, c)
              | Some entries \<Rightarrow>
                  let next_cursor = (if entries = [] then (band_idx + 1) * 10000 + 1 else band_idx * 10000 + page + 1);
                      batch = map (\<lambda>e. (le_puuid e, rank_of e)) entries
                  in case (if length batch > 0 then enroll rg (xp_enroll_now io) batch COHORT_SRC_LADDER c else (0, c)) of
                       (newly, c) \<Rightarrow> (Inr (newly > 0), on_store (meta_set_u32 (cursor_key rg) next_cursor) c)))"

section \<open>Matches\<close>

datatype match_reply = ReplyError | ReplyMissing | ReplyBody string "json option"

record match_io =
  mi_stopped :: bool
  mi_reply :: match_reply
  mi_today :: string
  mi_now :: u64
  mi_adopt_now :: "u32 \<Rightarrow> u64"

record crawl_lib =
  cl_store :: store_lib
  cl_raw :: raw_lib

definition is_raw_sampled :: "u64 \<Rightarrow> bool" where
  "is_raw_sampled gid \<longleftrightarrow> gid mod 1000 < RAW_SAMPLE_PERMILLE"

definition enqueue_adopted :: "region \<Rightarrow> (u32 \<Rightarrow> u64) \<Rightarrow> (u32 \<times> string) list \<Rightarrow> store \<Rightarrow> store" where
  "enqueue_adopted rg now adopted s =
     fold (\<lambda>(pid, puuid). push_task (rg_platform rg) BUCKET_PRIORITY (now pid) pid \<lparr>ft_puuid = puuid, last_visit_ms = 0\<rparr>) adopted s"

definition fetch_and_store_match :: "crawl_lib \<Rightarrow> region \<Rightarrow> match_io \<Rightarrow> string \<Rightarrow> crawler \<Rightarrow> (crawl_error + bool) \<times> crawler" where
  "fetch_and_store_match lib rg io match_id c =
     (case split_match_id match_id of
        None \<Rightarrow> (Inl BadMatchIdError, c)
      | Some (plat, gid) \<Rightarrow>
          let skip = (Inr False, on_store (mark_seen plat gid) c) in
          (case mi_reply io of
             ReplyError \<Rightarrow> (Inl ApiError, c)
           | ReplyMissing \<Rightarrow> skip
           | ReplyBody body value \<Rightarrow>
               (case value of
                  None \<Rightarrow> skip
                | Some js \<Rightarrow>
                    (case parse_match js None of
                       Inl _ \<Rightarrow> skip
                     | Inr (rec, puuids) \<Rightarrow>
                         if queue_id rec \<noteq> QUEUE_ID \<or> platform rec \<noteq> rg_platform rg then skip
                         else
                           let ts = (if sint (game_start_ms rec) < 0 then 0 else game_start_ms rec) in
                           case store_match (cl_store lib) (mi_today io) (mi_now io) rec puuids ts (cw_braked c) (cw_store c) of
                             Inl e \<Rightarrow> (Inl (StoreFailed e), c)
                           | Inr (rec, adopted, s) \<Rightarrow>
                               let s = (if is_raw_sampled gid
                                        then s\<lparr>st_files := save_raw_sample (cl_raw lib) (st_data_dir s) plat match_id body None id (st_files s)\<rparr>
                                        else s);
                                   s = enqueue_adopted rg (mi_adopt_now io) adopted s
                               in (Inr True, c\<lparr>cw_store := s, cw_adopt_tx := cw_adopt_tx c @ adopted\<rparr>)))))"

definition fetch_counted :: "crawl_lib \<Rightarrow> region \<Rightarrow> match_io \<Rightarrow> string \<Rightarrow> crawler \<Rightarrow> nat \<times> crawler" where
  "fetch_counted lib rg io match_id c =
     (if mi_stopped io then (0, c)
      else case fetch_and_store_match lib rg io match_id c of
        (Inr True, c) \<Rightarrow> (1, c)
      | (Inr False, c) \<Rightarrow> (0, c)
      | (Inl e, c) \<Rightarrow> (0, c))"

fun fetch_all :: "crawl_lib \<Rightarrow> region \<Rightarrow> (string \<Rightarrow> match_io) \<Rightarrow> string list \<Rightarrow> nat \<Rightarrow> crawler \<Rightarrow> nat \<times> crawler" where
  "fetch_all lib rg io [] n c = (n, c)"
| "fetch_all lib rg io (match_id # ids) n c =
     (case fetch_counted lib rg (io match_id) match_id c of (k, c) \<Rightarrow> fetch_all lib rg io ids (n + k) c)"

section \<open>Visits\<close>

definition any_seen :: "store \<Rightarrow> string list \<Rightarrow> bool" where
  "any_seen s ids \<longleftrightarrow> list_ex (\<lambda>match_id. case split_match_id match_id of Some (pf, num) \<Rightarrow> is_seen pf num s | None \<Rightarrow> False) ids"

text \<open>The pages after the first; page \<open>k\<close> starts at match \<open>100 * k\<close>.\<close>

function page_loop :: "bool \<Rightarrow> store \<Rightarrow> (nat \<Rightarrow> string list option) \<Rightarrow> (nat \<Rightarrow> bool) \<Rightarrow> nat \<Rightarrow> nat \<Rightarrow> string list \<Rightarrow> crawl_error + string list" where
  "page_loop deep s page stopped k page_len ids =
     (if page_len = 100 \<and> 100 * k < MATCHLIST_MAX_DEPTH \<and> \<not> stopped k then
        if \<not> deep \<and> any_seen s (drop (length ids - 100) ids) then Inr ids
        else case page k of
          None \<Rightarrow> Inl ApiError
        | Some pg \<Rightarrow> page_loop deep s page stopped (k + 1) (length pg) (ids @ pg)
      else Inr ids)"
  by pat_completeness auto

termination
  by (relation "measure (\<lambda>(deep, s, page, stopped, k, page_len, ids). MATCHLIST_MAX_DEPTH - 100 * k)") auto

declare page_loop.simps [simp del]

record visit_io =
  vi_brake_now :: u64
  vi_start_now :: u64
  vi_page :: "int option \<Rightarrow> nat \<Rightarrow> string list option"
  vi_page_stopped :: "nat \<Rightarrow> bool"
  vi_rank :: "league_entry list option"
  vi_rank_now :: u64
  vi_order :: "string list \<Rightarrow> string list"
  vi_match :: "string \<Rightarrow> match_io"
  vi_now :: u64
  vi_stopped :: bool

definition start_time :: "bool \<Rightarrow> u64 \<Rightarrow> int option" where
  "start_time deep now = (if deep then None else Some (int (unat now div 1000) - MAX_MATCH_AGE_DAYS * 24 * 3600))"

definition rank_refresh :: "u32 \<Rightarrow> u64 \<Rightarrow> league_entry list option \<Rightarrow> store \<Rightarrow> store" where
  "rank_refresh pid now entries s =
     (case entries of
        Some es \<Rightarrow>
          (case find (\<lambda>e. le_queue_type e = RANKED_QUEUE_TYPE) es of
             Some e \<Rightarrow> add_rank_snapshot pid now (rank_of e) s
           | None \<Rightarrow> s)
      | None \<Rightarrow> s)"

definition new_match_ids :: "region \<Rightarrow> store \<Rightarrow> string list \<Rightarrow> string list" where
  "new_match_ids rg s ids =
     filter (\<lambda>match_id. case split_match_id match_id of
         None \<Rightarrow> False | Some (plat, num) \<Rightarrow> plat = rg_platform rg \<and> \<not> is_seen plat num s) ids"

definition DAY_MS :: rat where "DAY_MS = 86400000"

definition revisit_days :: "u64 \<Rightarrow> u64 \<Rightarrow> nat \<Rightarrow> rat" where
  "revisit_days last_visit now new_ids =
     (let days_passed = (if last_visit \<le> DEEP_VISIT_MS then 14 else max (of_nat (unat (now - last_visit)) / DAY_MS) (1 / 10));
          matches_per_day = max ((3 + of_nat new_ids) / (7 + days_passed)) (1 / 10)
      in min (max (REVISIT_AFTER_MATCHES / matches_per_day) MIN_REVISIT_DAYS) MAX_REVISIT_DAYS)"

definition next_due :: "u64 \<Rightarrow> u64 \<Rightarrow> nat \<Rightarrow> u64" where
  "next_due last_visit now new_ids = now + of_nat (nat \<lfloor>revisit_days last_visit now new_ids * DAY_MS\<rfloor>)"

definition process_player :: "crawl_lib \<Rightarrow> region \<Rightarrow> visit_io \<Rightarrow> u32 \<Rightarrow> frontier_task \<Rightarrow> crawler \<Rightarrow> (crawl_error + nat) \<times> crawler" where
  "process_player lib rg io pid task c =
     (let c = snd (update_brake rg (vi_brake_now io) c);
          deep = (last_visit_ms task = DEEP_VISIT_MS);
          page = vi_page io (start_time deep (vi_start_now io))
      in case page 0 of
           None \<Rightarrow> (Inl ApiError, c)
         | Some ids \<Rightarrow>
             (case page_loop deep (cw_store c) page (vi_page_stopped io) 1 (length ids) ids of
                Inl e \<Rightarrow> (Inl e, c)
              | Inr ids \<Rightarrow>
                  let ids = dedup_adjacent (sort ids);
                      c = on_store (rank_refresh pid (vi_rank_now io) (vi_rank io)) c;
                      new_ids = new_match_ids rg (cw_store c) ids
                  in case fetch_all lib rg (vi_match io) (vi_order io new_ids) 0 c of
                       (stored, c) \<Rightarrow>
                         let now = vi_now io in
                         if deep \<and> vi_stopped io then
                           (Inr stored, on_store (push_task (rg_platform rg) BUCKET_PRIORITY now pid
                              \<lparr>ft_puuid = ft_puuid task, last_visit_ms = DEEP_VISIT_MS\<rparr>) c)
                         else
                           (Inr stored, on_store (push_task (rg_platform rg) BUCKET_PRIORITY
                              (next_due (last_visit_ms task) now (length new_ids)) pid
                              \<lparr>ft_puuid = ft_puuid task, last_visit_ms = now\<rparr>) c)))"

section \<open>The loop\<close>

record pass_io =
  ps_stopped :: bool
  ps_seed_now :: u64
  ps_seed :: "nat \<Rightarrow> seed_io"
  ps_pop_now :: u64
  ps_visit :: visit_io
  ps_retry_now :: u64
  ps_expand :: expand_io
  ps_stopped_after :: bool
  ps_flush_due :: bool
  ps_commit_now :: u64

definition maybe_commit :: "crawl_lib \<Rightarrow> pass_io \<Rightarrow> crawler \<Rightarrow> crawler" where
  "maybe_commit lib io c =
     (if ps_flush_due io \<or> should_commit (cw_store c) then on_store (commit_store (cl_store lib) (ps_commit_now io)) c else c)"

text \<open>One turn of the loop of \<^verbatim>\<open>run\<close>; the value says whether the loop goes on.\<close>

definition crawl_pass :: "crawl_lib \<Rightarrow> region \<Rightarrow> pass_io \<Rightarrow> crawler \<Rightarrow> bool \<times> crawler" where
  "crawl_pass lib rg io c =
     (case maybe_seed rg (ps_seed_now io) (ps_seed io) c of
        (Inl _, c) \<Rightarrow> (\<not> ps_stopped_after io, c)
      | (Inr _, c) \<Rightarrow>
          (case store_frontier (frontier_pop_due (rg_platform rg) (ps_pop_now io)) (cw_store c) of
             (Some (_, pid, task), s) \<Rightarrow>
               let c = c\<lparr>cw_store := s\<rparr> in
               if \<not> is_cohort pid s then (True, c)
               else (case process_player lib rg (ps_visit io) pid task c of
                       (Inr _, c) \<Rightarrow> (True, maybe_commit lib io c)
                     | (Inl _, c) \<Rightarrow>
                         (True, maybe_commit lib io
                            (on_store (push_task (rg_platform rg) BUCKET_PRIORITY (ps_retry_now io + 3600 * 1000) pid task) c)))
           | (None, s) \<Rightarrow>
               (case maybe_expand rg (ps_expand io) (c\<lparr>cw_store := s\<rparr>) of
                  (Inl _, c) \<Rightarrow> if ps_stopped_after io then (False, c) else (True, maybe_commit lib io c)
                | (Inr _, c) \<Rightarrow> (True, maybe_commit lib io c))))"

fun crawl_loop :: "crawl_lib \<Rightarrow> region \<Rightarrow> pass_io list \<Rightarrow> crawler \<Rightarrow> crawler" where
  "crawl_loop lib rg [] c = c"
| "crawl_loop lib rg (io # ios) c =
     (if ps_stopped io then c
      else case crawl_pass lib rg io c of (go_on, c) \<Rightarrow> if go_on then crawl_loop lib rg ios c else c)"

text \<open>The loop and the final commit.\<close>

definition crawl_run :: "crawl_lib \<Rightarrow> region \<Rightarrow> u64 \<Rightarrow> pass_io list \<Rightarrow> crawler \<Rightarrow> crawler" where
  "crawl_run lib rg now ios c = on_store (commit_store (cl_store lib) now) (crawl_loop lib rg ios c)"

text \<open>How long an idle region sleeps.\<close>

definition idle_sleep_ms :: "u64 option \<Rightarrow> u64 \<Rightarrow> u64" where
  "idle_sleep_ms next_due_ms now =
     (case next_due_ms of Some due \<Rightarrow> min (max (saturating_sub due now) 1000) 30000 | None \<Rightarrow> 30000)"

section \<open>Adoption worker\<close>

definition adoption_handle :: "league_entry list option \<Rightarrow> u64 \<Rightarrow> u32 \<Rightarrow> store \<Rightarrow> (crawl_error + unit) \<times> store" where
  "adoption_handle entries now pid s =
     (case entries of None \<Rightarrow> (Inl ApiError, s) | Some es \<Rightarrow> (Inr (), rank_refresh pid now (Some es) s))"

end
