(* ===== verification/Crawler_Props.thy ===== *)
theory Crawler_Props
  imports Crawler
begin

text \<open>
  The crawl loop never loses a player it follows, reschedules visits within the configured bounds, walks the ladder page by
  page, and brakes with hysteresis.
\<close>

abbreviation front :: "store \<Rightarrow> frontier" where "front s \<equiv> t_front (st_db s)"

abbreviation sched :: "crawler \<Rightarrow> u32 \<Rightarrow> schedule option" where "sched c \<equiv> queued (front (cw_store c))"

section \<open>What keeps the queued players\<close>

definition keeps :: "store \<Rightarrow> store \<Rightarrow> bool" where
  "keeps s s' \<longleftrightarrow> (frontier_wf (front s) \<longrightarrow> frontier_wf (front s') \<and> dom (queued (front s)) \<subseteq> dom (queued (front s')))
     \<and> st_cohort s \<subseteq> st_cohort s'"

lemma keeps_refl [simp]: "keeps s s"
  by (simp add: keeps_def)

lemma keeps_trans: "keeps s s' \<Longrightarrow> keeps s' s'' \<Longrightarrow> keeps s s''"
  unfolding keeps_def by blast

lemma keeps_front: "front s' = front s \<Longrightarrow> st_cohort s \<subseteq> st_cohort s' \<Longrightarrow> keeps s s'"
  by (simp add: keeps_def)

lemma keeps_fold: "(\<And>x s. x \<in> set xs \<Longrightarrow> keeps s (f x s)) \<Longrightarrow> keeps s (fold f xs s)"
proof (induction xs arbitrary: s)
  case (Cons x xs)
  then show ?case using keeps_trans[of s "f x s"] by simp
qed simp

lemma spec_push_dom: "dom (spec_push p b d pid task q) = insert pid (dom q)"
  by (auto simp: spec_push_def split: option.splits if_splits)

lemma push_task_front: "front (push_task p b d pid task s) = frontier_push p b d pid task (front s)"
  "st_cohort (push_task p b d pid task s) = st_cohort s"
  by (simp_all add: push_task_def store_frontier_def commit_fast_def)

lemma push_task_queued:
  "frontier_wf (front s) \<Longrightarrow> frontier_wf (front (push_task p b d pid task s))
    \<and> queued (front (push_task p b d pid task s)) = spec_push p b d pid task (queued (front s))"
  unfolding push_task_front by (simp add: push_refines)

lemma keeps_push: "keeps s (push_task p b d pid task s)"
  using push_task_queued[of s] spec_push_dom by (simp add: keeps_def push_task_front(2)) blast

lemma batch_dom: "dom q \<subseteq> dom (fold (\<lambda>(pid, task). spec_push p b d pid task) items q)"
proof (induction items arbitrary: q)
  case (Cons x items)
  obtain pid task where x: "x = (pid, task)" by fastforce
  then show ?case using Cons[of "spec_push p b d pid task q"] spec_push_dom[of p b d pid task q] by auto
qed simp

lemma keeps_batch: "keeps s (snd (store_frontier (\<lambda>f. ((), frontier_push_batch p b d items f)) s))"
  using push_batch_refines[of "front s"] batch_dom
  by (auto simp: keeps_def store_frontier_def commit_fast_def)

lemma keeps_assign: "keeps s (snd (assign_player_ids ps s))"
  by (rule keeps_front) (simp_all add: assign_player_ids_def commit_fast_def Let_def split: prod.split)

lemma keeps_cohort: "keeps s (snd (cohort_add_batch pids source now s))"
  by (rule keeps_front) (auto simp: cohort_add_batch_def commit_fast_def Let_def)

lemma keeps_rank: "keeps s (add_rank_snapshot pid ts snap s)"
  by (rule keeps_front) (simp_all add: add_rank_snapshot_def)

lemma keeps_refresh: "keeps s (rank_refresh pid ts es s)"
  using keeps_rank by (simp add: rank_refresh_def split: option.split)

lemma keeps_meta: "keeps s (meta_set_u32 k v s)"
  by (rule keeps_front) (simp_all add: meta_set_u32_def commit_fast_def)

lemma keeps_seen: "keeps s (mark_seen p g s)"
  by (rule keeps_front) (simp_all add: mark_seen_def)

lemma flush_same: "front (flush_writers lib s) = front s \<and> st_cohort (flush_writers lib s) = st_cohort s"
proof -
  have "front (fold (\<lambda>(plat, w) s. case sw_flush (lib_seg lib) (w, st_files s) of
             (w, fs) \<Rightarrow> s\<lparr>st_writers := RBT.insert plat w (st_writers s), st_files := fs\<rparr>) xs s) = front s
    \<and> st_cohort (fold (\<lambda>(plat, w) s. case sw_flush (lib_seg lib) (w, st_files s) of
             (w, fs) \<Rightarrow> s\<lparr>st_writers := RBT.insert plat w (st_writers s), st_files := fs\<rparr>) xs s) = st_cohort s" for xs
    by (induction xs arbitrary: s) (auto split: prod.split)
  then show ?thesis by (simp add: flush_writers_def)
qed

lemma checkpoint_same: "front (durable_checkpoint now s) = front s \<and> st_cohort (durable_checkpoint now s) = st_cohort s"
  by (simp add: durable_checkpoint_def commit_durable_def)

lemma commit_same: "front (commit_store lib now s) = front s \<and> st_cohort (commit_store lib now s) = st_cohort s"
  using flush_same[of lib "durable_checkpoint now s"] checkpoint_same[of now s]
  by (simp add: commit_store_def commit_bitmaps_def commit_durable_def Let_def)

lemma keeps_commit: "keeps s (commit_store lib now s)"
  using commit_same by (intro keeps_front) auto

text \<open>Storing a match leaves the frontier alone, and the players it adopts were outside the cohort.\<close>

lemma adopt_one_same:
  assumes "adopt_one ts paused x (s, ad) = (s', ad')"
  shows "front s' = front s \<and> st_cohort s \<subseteq> st_cohort s' \<and> set ad' \<subseteq> set ad \<union> (if fst x \<in> st_cohort s then {} else {x})"
  using assms by (cases x) (auto simp: adopt_one_def commit_fast_def Let_def split: if_splits)

lemma adopt_fold_same:
  "fold (adopt_one ts paused) xs (s, ad) = (s', ad') \<Longrightarrow>
     front s' = front s \<and> st_cohort s \<subseteq> st_cohort s' \<and> (\<forall>x \<in> set ad'. x \<in> set ad \<or> fst x \<notin> st_cohort s)"
proof (induction xs arbitrary: s ad)
  case (Cons x xs)
  obtain s1 ad1 where 1: "adopt_one ts paused x (s, ad) = (s1, ad1)" by fastforce
  note a = adopt_one_same[OF 1]
  have "fold (adopt_one ts paused) xs (s1, ad1) = (s', ad')" using Cons.prems 1 by simp
  from Cons.IH[OF this] a show ?case by (auto split: if_splits)
qed simp

lemma match_txn_same:
  assumes "match_txn rec puuids ts paused s = Inr (rec', ad, s')"
  shows "front s' = front s \<and> st_cohort s \<subseteq> st_cohort s' \<and> (\<forall>x \<in> set ad. fst x \<notin> st_cohort s)"
proof -
  obtain pids s1 where a: "assign_player_ids puuids s = (pids, s1)" by fastforce
  have s1: "front s1 = front s" "st_cohort s1 = st_cohort s"
    using a by (auto simp: assign_player_ids_def commit_fast_def Let_def split: prod.splits if_splits)
  obtain s2 ad2 where f: "fold (adopt_one ts paused) (zip pids puuids) (s1, []) = (s2, ad2)" by fastforce
  show ?thesis using assms a f s1 adopt_fold_same[OF f]
    by (auto simp: match_txn_def Let_def commit_fast_def count_valid_def res_bind_eq_Inr split: if_splits prod.splits)
qed

lemma store_match_same:
  assumes "store_match lib today now rec puuids ts paused s = Inr (rec', ad, s')"
  shows "front s' = front s \<and> st_cohort s \<subseteq> st_cohort s' \<and> (\<forall>x \<in> set ad. fst x \<notin> st_cohort s)"
proof -
  obtain s1 where t: "match_txn rec puuids ts paused s = Inr (rec', ad, s1)"
    and s': "s' = mark_seen (platform rec') (game_id rec') (append_record lib today rec' (roll_writer lib today now (platform rec') s1))"
    using assms by (auto simp: store_match_def Let_def res_bind_eq_Inr)
  have "front s' = front s1 \<and> st_cohort s' = st_cohort s1"
    by (auto simp: s' mark_seen_def append_record_def roll_writer_def durable_checkpoint_def commit_durable_def Let_def
        split: option.split prod.split)
  then show ?thesis using match_txn_same[OF t] by simp
qed

lemma keeps_adopted: "keeps s (enqueue_adopted rg now ad s)"
  unfolding enqueue_adopted_def by (rule keeps_fold) (auto simp: keeps_push)

section \<open>Crawler steps\<close>

abbreviation ckeeps :: "crawler \<Rightarrow> crawler \<Rightarrow> bool" where "ckeeps c c' \<equiv> keeps (cw_store c) (cw_store c')"

lemma brake_store [simp]: "cw_store (snd (update_brake rg now c)) = cw_store c"
  by (simp add: update_brake_def Let_def)

lemma keeps_enroll: "ckeeps c (snd (enroll rg ts es source c))"
proof -
  obtain pids s1 where a: "assign_player_ids (map fst es) (cw_store c) = (pids, s1)" by fastforce
  obtain newly s2 where b: "cohort_add_batch pids source ts s1 = (newly, s2)" by fastforce
  let ?s3 = "fold (\<lambda>((puuid, snap), pid) s. add_rank_snapshot pid ts snap s) (zip es pids) s2"
  have "keeps (cw_store c) s1" using keeps_assign[of "cw_store c" "map fst es"] a by simp
  moreover have "keeps s1 s2" using keeps_cohort[of s1 pids source ts] b by simp
  moreover have "keeps s2 ?s3" by (rule keeps_fold) (auto simp: keeps_rank)
  ultimately have "keeps (cw_store c) ?s3" using keeps_trans by blast
  then show ?thesis using a b keeps_trans[OF _ keeps_batch] by (simp add: enroll_def Let_def)
qed

lemma keeps_seed_leagues: "ckeeps c (snd (seed_leagues rg i leagues io c))"
proof (induction leagues arbitrary: i c)
  case (Cons x leagues)
  obtain league tier where x: "x = (league, tier)" by fastforce
  obtain b c1 where u: "update_brake rg (sd_brake_now (io i)) c = (b, c1)" by fastforce
  have c1: "cw_store c1 = cw_store c" using brake_store[of rg "sd_brake_now (io i)" c] u by simp
  have "ckeeps c (snd (seed_leagues rg (i + 1) leagues io (snd (enroll rg t es COHORT_SRC_APEX c1))))" for t es
    using keeps_trans[OF keeps_enroll Cons.IH, of c1] c1 by simp
  then show ?case using x u c1 by (auto split: option.split)
qed simp

lemma keeps_seed: "ckeeps c (snd (maybe_seed rg now io c))"
  using keeps_seed_leagues[of c rg 0 APEX_LEAGUES io] keeps_trans[OF _ keeps_meta]
  by (auto simp: maybe_seed_def Let_def on_store_def split: prod.splits sum.splits)

lemma keeps_expand: "ckeeps c (snd (maybe_expand rg io c))"
proof -
  obtain b c1 where u: "update_brake rg (xp_brake_now io) c = (b, c1)" by fastforce
  have c1: "cw_store c1 = cw_store c" using brake_store[of rg "xp_brake_now io" c] u by simp
  have e: "keeps (cw_store c) (meta_set_u32 k v (cw_store (snd (enroll rg t batch COHORT_SRC_LADDER c1))))" for k v t batch
    using keeps_trans[OF keeps_enroll[of c1 rg t batch COHORT_SRC_LADDER] keeps_meta] c1 by simp
  show ?thesis unfolding maybe_expand_def u prod.case Let_def split_def on_store_def
    using e keeps_meta[of "cw_store c"] c1 by (simp split: option.split)
qed

text \<open>Fetching keeps every queued player, and does not queue a member that is not.\<close>

definition same_member :: "u32 \<Rightarrow> store \<Rightarrow> store \<Rightarrow> bool" where
  "same_member pid s s' \<longleftrightarrow> keeps s s'
     \<and> (frontier_wf (front s) \<longrightarrow> pid \<in> st_cohort s \<longrightarrow> queued (front s') pid = queued (front s) pid)"

lemma same_member_refl [simp]: "same_member pid s s"
  by (simp add: same_member_def)

lemma same_member_trans: "same_member pid s s' \<Longrightarrow> same_member pid s' s'' \<Longrightarrow> same_member pid s s''"
  unfolding same_member_def
proof (elim conjE, intro conjI impI, goal_cases)
  case 1
  then show ?case using keeps_trans by blast
next
  case 2
  then have "frontier_wf (front s')" "pid \<in> st_cohort s'" unfolding keeps_def by blast+
  with 2 show ?case by simp
qed

lemma same_member_front: "front s' = front s \<Longrightarrow> st_cohort s \<subseteq> st_cohort s' \<Longrightarrow> same_member pid s s'"
  by (simp add: same_member_def keeps_front)

lemma enqueue_others:
  "frontier_wf (front s) \<Longrightarrow> pid \<notin> fst ` set ad \<Longrightarrow> queued (front (enqueue_adopted rg now ad s)) pid = queued (front s) pid"
proof (induction ad arbitrary: s)
  case (Cons x ad)
  obtain i puuid where x: "x = (i, puuid)" by fastforce
  let ?s = "push_task (rg_platform rg) BUCKET_PRIORITY (now i) i \<lparr>ft_puuid = puuid, last_visit_ms = 0\<rparr> s"
  have "frontier_wf (front ?s)" "queued (front ?s) pid = queued (front s) pid"
    using push_task_queued[OF Cons.prems(1)] Cons.prems(2) x by (auto simp: spec_push_def split: option.split)
  then show ?case using Cons.IH[of ?s] Cons.prems(2) x by (simp add: enqueue_adopted_def)
qed (simp add: enqueue_adopted_def)

lemma fetch_same_member: "same_member pid (cw_store c) (cw_store (snd (fetch_and_store_match lib rg io mid c)))"
proof (cases "split_match_id mid")
  case None
  then show ?thesis by (simp add: fetch_and_store_match_def)
next
  case (Some pg)
  obtain plat gid where pg: "split_match_id mid = Some (plat, gid)" using Some by fastforce
  have seen: "same_member pid (cw_store c) (mark_seen plat gid (cw_store c))"
    by (rule same_member_front) (simp_all add: mark_seen_def)
  have stored: "same_member pid (cw_store c) (enqueue_adopted rg t ad (if P then s\<lparr>st_files := g s\<rparr> else s))"
    if "store_match (cl_store lib) today now rec puuids ts paused (cw_store c) = Inr (rec', ad, s)" for today now rec puuids ts paused rec' ad s t P g
  proof -
    note sm = store_match_same[OF that]
    let ?s = "if P then s\<lparr>st_files := g s\<rparr> else s"
    have s: "front ?s = front (cw_store c)" "st_cohort (cw_store c) \<subseteq> st_cohort ?s" using sm by auto
    have "keeps (cw_store c) (enqueue_adopted rg t ad ?s)" using keeps_trans[OF keeps_front[OF s] keeps_adopted] .
    moreover have "queued (front (enqueue_adopted rg t ad ?s)) pid = queued (front (cw_store c)) pid"
      if "frontier_wf (front (cw_store c))" "pid \<in> st_cohort (cw_store c)"
    proof -
      have "pid \<notin> fst ` set ad" using sm that(2) by auto
      then show ?thesis using enqueue_others[of ?s pid ad rg t] s(1) that(1) by simp
    qed
    ultimately show ?thesis by (simp add: same_member_def)
  qed
  show ?thesis
    unfolding fetch_and_store_match_def pg option.case prod.case Let_def on_store_def
    using seen by (auto split: match_reply.split option.split sum.split prod.split
        intro: stored[where P = True, simplified] stored[where P = False, simplified])
qed

lemma fetch_all_same_member: "same_member pid (cw_store c) (cw_store (snd (fetch_all lib rg io ids n c)))"
proof (induction ids arbitrary: n c)
  case (Cons mid ids)
  obtain k c1 where f: "fetch_counted lib rg (io mid) mid c = (k, c1)" by fastforce
  have "same_member pid (cw_store c) (cw_store c1)"
    using fetch_same_member[of pid c lib rg "io mid" mid] f
    by (auto simp: fetch_counted_def split: if_splits prod.splits sum.splits bool.splits)
  then show ?case using f same_member_trans[OF _ Cons.IH] by simp
qed simp

section \<open>A visit\<close>

text \<open>A visit fails having touched no schedule, or ends by queueing the player.\<close>

lemma visit_cases:
  obtains (failed) e c' where "process_player lib rg io pid task c = (Inl e, c')" "cw_store c' = cw_store c"
  | (visited) n c1 due visit where "process_player lib rg io pid task c =
        (Inr n, on_store (push_task (rg_platform rg) BUCKET_PRIORITY due pid \<lparr>ft_puuid = ft_puuid task, last_visit_ms = visit\<rparr>) c1)"
      "same_member pid (cw_store c) (cw_store c1)"
      "last_visit_ms task = DEEP_VISIT_MS \<and> vi_stopped io \<and> due = vi_now io \<and> visit = DEEP_VISIT_MS
        \<or> \<not> (last_visit_ms task = DEEP_VISIT_MS \<and> vi_stopped io) \<and> visit = vi_now io \<and> (\<exists>k. due = next_due (last_visit_ms task) (vi_now io) k)"
proof -
  define c0 where "c0 = snd (update_brake rg (vi_brake_now io) c)"
  define deep where "deep = (last_visit_ms task = DEEP_VISIT_MS)"
  define page where "page = vi_page io (start_time deep (vi_start_now io))"
  have c0: "cw_store c0 = cw_store c" by (simp add: c0_def)
  have pp: "process_player lib rg io pid task c =
    (case page 0 of None \<Rightarrow> (Inl ApiError, c0) | Some ids \<Rightarrow>
       (case page_loop deep (cw_store c0) page (vi_page_stopped io) 1 (length ids) ids of
          Inl e \<Rightarrow> (Inl e, c0)
        | Inr ids \<Rightarrow>
            let ids = dedup_adjacent (sort ids); c = on_store (rank_refresh pid (vi_rank_now io) (vi_rank io)) c0;
                new_ids = new_match_ids rg (cw_store c) ids
            in case fetch_all lib rg (vi_match io) (vi_order io new_ids) 0 c of
                 (stored, c) \<Rightarrow>
                   if deep \<and> vi_stopped io then
                     (Inr stored, on_store (push_task (rg_platform rg) BUCKET_PRIORITY (vi_now io) pid
                        \<lparr>ft_puuid = ft_puuid task, last_visit_ms = DEEP_VISIT_MS\<rparr>) c)
                   else
                     (Inr stored, on_store (push_task (rg_platform rg) BUCKET_PRIORITY
                        (next_due (last_visit_ms task) (vi_now io) (length new_ids)) pid
                        \<lparr>ft_puuid = ft_puuid task, last_visit_ms = vi_now io\<rparr>) c)))"
    unfolding process_player_def Let_def c0_def[symmetric] deep_def[symmetric] page_def[symmetric] by (rule refl)
  show thesis
  proof (cases "page 0")
    case None
    then show thesis using failed pp c0 by simp
  next
    case (Some ids0)
    show thesis
    proof (cases "page_loop deep (cw_store c0) page (vi_page_stopped io) 1 (length ids0) ids0")
      case (Inl e)
      then show thesis using failed pp Some c0 by simp
    next
      case (Inr ids)
      define c1 where "c1 = on_store (rank_refresh pid (vi_rank_now io) (vi_rank io)) c0"
      define new_ids where "new_ids = new_match_ids rg (cw_store c1) (dedup_adjacent (sort ids))"
      obtain stored c2 where f: "fetch_all lib rg (vi_match io) (vi_order io new_ids) 0 c1 = (stored, c2)" by fastforce
      have "same_member pid (cw_store c0) (cw_store c1)"
        by (rule same_member_front)
          (simp_all add: c1_def on_store_def rank_refresh_def add_rank_snapshot_def split: option.split)
      then have sm: "same_member pid (cw_store c) (cw_store c2)"
        using same_member_trans[OF _ fetch_all_same_member[of pid c1 lib rg "vi_match io" "vi_order io new_ids" 0]] f c0 by simp
      have r: "process_player lib rg io pid task c =
        (if deep \<and> vi_stopped io then
           (Inr stored, on_store (push_task (rg_platform rg) BUCKET_PRIORITY (vi_now io) pid
              \<lparr>ft_puuid = ft_puuid task, last_visit_ms = DEEP_VISIT_MS\<rparr>) c2)
         else
           (Inr stored, on_store (push_task (rg_platform rg) BUCKET_PRIORITY
              (next_due (last_visit_ms task) (vi_now io) (length new_ids)) pid
              \<lparr>ft_puuid = ft_puuid task, last_visit_ms = vi_now io\<rparr>) c2))"
        unfolding pp Some Inr option.case sum.case Let_def c1_def[symmetric] new_ids_def[symmetric] f prod.case by (rule refl)
      show thesis
      proof (cases "deep \<and> vi_stopped io")
        case True
        then have "process_player lib rg io pid task c =
          (Inr stored, on_store (push_task (rg_platform rg) BUCKET_PRIORITY (vi_now io) pid
            \<lparr>ft_puuid = ft_puuid task, last_visit_ms = DEEP_VISIT_MS\<rparr>) c2)" using r by simp
        from visited[OF this sm] True show thesis by (simp add: deep_def)
      next
        case False
        then have "process_player lib rg io pid task c =
          (Inr stored, on_store (push_task (rg_platform rg) BUCKET_PRIORITY
            (next_due (last_visit_ms task) (vi_now io) (length new_ids)) pid
            \<lparr>ft_puuid = ft_puuid task, last_visit_ms = vi_now io\<rparr>) c2)" using r by (simp only: if_False)
        from visited[OF this sm] False show thesis by (auto simp: deep_def)
      qed
    qed
  qed
qed

section \<open>A pass\<close>

text \<open>Popping takes out one queued player.\<close>

lemma pop_store:
  assumes "store_frontier (frontier_pop_due p now) s = (r, s')"
  shows "st_cohort s' = st_cohort s"
    and "frontier_wf (front s) \<Longrightarrow> frontier_wf (front s') \<and>
      queued (front s') = (case r of None \<Rightarrow> queued (front s) | Some (b, pid, task) \<Rightarrow> (queued (front s))(pid := None))"
proof -
  obtain f' where f: "frontier_pop_due p now (front s) = (r, f')" and s': "front s' = f'" "st_cohort s' = st_cohort s"
    using assms by (auto simp: store_frontier_def commit_fast_def split: prod.splits)
  show "st_cohort s' = st_cohort s" by (rule s'(2))
  assume wf: "frontier_wf (front s)"
  show "frontier_wf (front s') \<and>
      queued (front s') = (case r of None \<Rightarrow> queued (front s) | Some (b, pid, task) \<Rightarrow> (queued (front s))(pid := None))"
    using pop_none[OF wf, of p now f'] pop_some[OF wf, of p now _ _ _ f'] f wf
    by (cases r) (auto simp: s'(1))
qed

text \<open>The players a region must not lose: the queued members of the cohort.\<close>

definition followed :: "store \<Rightarrow> u32 set" where
  "followed s = {pid \<in> st_cohort s. queued (front s) pid \<noteq> None}"

definition retains :: "store \<Rightarrow> store \<Rightarrow> bool" where
  "retains s s' \<longleftrightarrow> (frontier_wf (front s) \<longrightarrow> frontier_wf (front s') \<and> followed s \<subseteq> followed s')"

lemma retains_trans: "retains s s' \<Longrightarrow> retains s' s'' \<Longrightarrow> retains s s''"
  unfolding retains_def by blast

lemma keeps_retains: "keeps s s' \<Longrightarrow> retains s s'"
  unfolding keeps_def retains_def followed_def by blast

lemma keeps_maybe_commit: "ckeeps c (maybe_commit lib io c)"
  by (simp add: maybe_commit_def on_store_def keeps_commit)

text \<open>After a pop, whatever keeps the remaining players and queues the popped one again has lost nobody.\<close>

lemma pop_push_retains:
  assumes "store_frontier (frontier_pop_due p now) s = (Some (b, pid, task), s1)" "keeps s1 s2"
  shows "retains s (push_task p' b' d' pid task' s2)"
  unfolding retains_def
proof
  assume wf: "frontier_wf (front s)"
  have q: "frontier_wf (front s1)" "queued (front s1) = (queued (front s))(pid := None)"
    using pop_store(2)[OF assms(1) wf] by auto
  have k: "frontier_wf (front s2)" "dom (queued (front s1)) \<subseteq> dom (queued (front s2))" "st_cohort s \<subseteq> st_cohort s2"
    using assms(2) q(1) pop_store(1)[OF assms(1)] unfolding keeps_def by auto
  note p = push_task_queued[OF k(1), of p' b' d' pid task']
  have "dom (queued (front s)) \<subseteq> dom (queued (front (push_task p' b' d' pid task' s2)))"
    using k(2) p unfolding q(2) by (simp add: spec_push_dom) blast
  then show "frontier_wf (front (push_task p' b' d' pid task' s2)) \<and> followed s \<subseteq> followed (push_task p' b' d' pid task' s2)"
    using p k(3) by (auto simp: followed_def push_task_front(2))
qed

text \<open>A popped player that is no member is dropped, which concerns no followed player.\<close>

lemma pop_drop_retains:
  assumes "store_frontier (frontier_pop_due p now) s = (Some (b, pid, task), s1)" "\<not> is_cohort pid s1"
  shows "retains s s1"
  using pop_store[OF assms(1)] assms(2) by (auto simp: retains_def followed_def is_cohort_def)

lemma pass_retains: "retains (cw_store c) (cw_store (snd (crawl_pass lib rg io c)))"
proof -
  obtain r c1 where s: "maybe_seed rg (ps_seed_now io) (ps_seed io) c = (r, c1)" by fastforce
  have 1: "retains (cw_store c) (cw_store c1)" using keeps_retains[OF keeps_seed[of c rg "ps_seed_now io" "ps_seed io"]] s by simp
  obtain x s2 where p: "store_frontier (frontier_pop_due (rg_platform rg) (ps_pop_now io)) (cw_store c1) = (x, s2)" by fastforce
  define c2 where "c2 = c1\<lparr>cw_store := s2\<rparr>"
  have commit: "retains (cw_store c1) (cw_store (maybe_commit lib io c3))" if "retains (cw_store c1) (cw_store c3)" for c3
    using retains_trans[OF that keeps_retains[OF keeps_maybe_commit]] .
  have 2: "retains (cw_store c1) (cw_store (snd (crawl_pass lib rg io c)))" if r: "r = Inr ()"
  proof (cases x)
    case None
    have "keeps (cw_store c1) s2" using pop_store[OF p] None by (simp add: keeps_def)
    then have "ckeeps c1 (snd (maybe_expand rg (ps_expand io) c2))"
      using keeps_trans[OF _ keeps_expand[of c2 rg "ps_expand io"]] by (simp add: c2_def)
    from keeps_retains[OF this] commit[OF keeps_retains[OF this]] show ?thesis
      using None p s r by (auto simp: crawl_pass_def c2_def split: prod.split sum.split)
  next
    case (Some bpt)
    obtain b pid task where x: "x = Some (b, pid, task)" using Some by (cases bpt) auto
    note pop = p[unfolded x]
    show ?thesis
    proof (cases "is_cohort pid s2")
      case False
      then show ?thesis using pop_drop_retains[OF pop] s r pop by (simp add: crawl_pass_def Let_def)
    next
      case True
      show ?thesis
      proof (rule visit_cases[of lib rg "ps_visit io" pid task c2])
        fix e c3 assume v: "process_player lib rg (ps_visit io) pid task c2 = (Inl e, c3)" "cw_store c3 = cw_store c2"
        have "retains (cw_store c1) (cw_store (on_store (push_task (rg_platform rg) BUCKET_PRIORITY (ps_retry_now io + 3600 * 1000) pid task) c3))"
          using pop_push_retains[OF pop keeps_refl] v(2) by (simp add: on_store_def c2_def)
        from commit[OF this] show ?thesis using v(1) s r pop True by (simp add: crawl_pass_def Let_def c2_def)
      next
        fix n c3 due visit
        assume v: "process_player lib rg (ps_visit io) pid task c2 =
            (Inr n, on_store (push_task (rg_platform rg) BUCKET_PRIORITY due pid \<lparr>ft_puuid = ft_puuid task, last_visit_ms = visit\<rparr>) c3)"
          and sm: "same_member pid (cw_store c2) (cw_store c3)"
        have "keeps s2 (cw_store c3)" using sm by (simp add: same_member_def c2_def)
        from commit[of "on_store (push_task (rg_platform rg) BUCKET_PRIORITY due pid \<lparr>ft_puuid = ft_puuid task, last_visit_ms = visit\<rparr>) c3"]
          pop_push_retains[OF pop this]
        show ?thesis using v s r pop True by (simp add: crawl_pass_def Let_def c2_def on_store_def)
      qed
    qed
  qed
  show ?thesis
  proof (cases r)
    case (Inl e)
    then show ?thesis using 1 s by (simp add: crawl_pass_def)
  next
    case (Inr u)
    then show ?thesis using retains_trans[OF 1 2] by simp
  qed
qed

lemma run_retains: "retains (cw_store c) (cw_store (crawl_run lib rg now ios c))"
proof -
  have "retains (cw_store c) (cw_store (crawl_loop lib rg ios c))"
  proof (induction ios arbitrary: c)
    case Nil
    then show ?case by (simp add: retains_def)
  next
    case (Cons io ios)
    obtain b c1 where p: "crawl_pass lib rg io c = (b, c1)" by fastforce
    have "retains (cw_store c) (cw_store c1)" using pass_retains[of c lib rg io] p by simp
    moreover have "retains (cw_store c) (cw_store c)" by (simp add: retains_def)
    ultimately show ?case using retains_trans[OF _ Cons[of c1]] p by simp
  qed
  then show ?thesis using retains_trans[OF _ keeps_retains[OF keeps_commit]] by (simp add: crawl_run_def on_store_def)
qed

section \<open>Revisit times\<close>

lemma revisit_days_bounds: "7 \<le> revisit_days lv now k" "revisit_days lv now k \<le> 60"
  by (simp_all add: revisit_days_def Let_def MIN_REVISIT_DAYS_def MAX_REVISIT_DAYS_def min_def max_def)

lemma next_due_bounds:
  assumes "unat now + 60 * 86400000 < 2 ^ 64"
  shows "unat now + 7 * 86400000 \<le> unat (next_due lv now k) \<and> unat (next_due lv now k) \<le> unat now + 60 * 86400000"
proof -
  define n where "n = nat \<lfloor>revisit_days lv now k * DAY_MS\<rfloor>"
  have "7 * 86400000 \<le> revisit_days lv now k * DAY_MS" "revisit_days lv now k * DAY_MS \<le> 60 * 86400000"
    using revisit_days_bounds[where lv = lv and now = now and k = k] by (simp_all add: DAY_MS_def)
  then have "7 * 86400000 \<le> \<lfloor>revisit_days lv now k * DAY_MS\<rfloor>" "\<lfloor>revisit_days lv now k * DAY_MS\<rfloor> \<le> 60 * 86400000"
    by (simp_all add: le_floor_iff floor_le_iff)
  then have n: "7 * 86400000 \<le> n" "n \<le> 60 * 86400000" unfolding n_def by linarith+
  have "next_due lv now k = of_nat (unat now + n)" by (simp add: next_due_def n_def)
  moreover have "(unat now + n) mod 2 ^ 64 = unat now + n" using assms n(2) by (intro mod_less) simp
  ultimately have "unat (next_due lv now k) = unat now + n" by (simp only: unat_of_nat) simp
  then show ?thesis using n by simp
qed

section \<open>Brake\<close>

text \<open>The players of the region whose priority task is overdue by more than the grace period.\<close>

definition overdue :: "region \<Rightarrow> u64 \<Rightarrow> store \<Rightarrow> nat" where
  "overdue rg now s = card {pid. \<exists>d task. queued (front s) pid = Some (rg_platform rg, BUCKET_PRIORITY, d, task)
     \<and> d \<le> saturating_sub now BRAKE_OVERDUE_GRACE_MS}"

lemma brake_count:
  assumes "frontier_wf (front s)"
  shows "frontier_overdue_count (rg_platform rg) now BRAKE_OVERDUE_GRACE_MS (BRAKE_ON_COUNT * 2) (front s) = min (overdue rg now s) 1000"
  unfolding frontier_overdue_count_def count_capped_eq overdue_def range_pids[OF assms, symmetric] by (simp add: BRAKE_ON_COUNT_def)

section \<open>Position on the ladder\<close>

text \<open>The band and page that the stored cursor encodes.\<close>

definition ladder_pos :: "region \<Rightarrow> store \<Rightarrow> nat \<times> nat" where
  "ladder_pos rg s =
     (let cursor = (case meta_get_u32 (cursor_key rg) s of Some v \<Rightarrow> unat v | None \<Rightarrow> 0) in (cursor div 10000, max (cursor mod 10000) 1))"

text \<open>Where the walk goes from a page: to the next page, or to the next band when the page is empty or is the last one that
  the cursor can encode.\<close>

definition ladder_next :: "nat \<times> nat \<Rightarrow> bool \<Rightarrow> nat \<times> nat" where
  "ladder_next = (\<lambda>(band, page) is_empty. if is_empty \<or> page = 9999 then (band + 1, 1) else (band, page + 1))"

lemma meta_get_set: "meta_get_u32 k (meta_set_u32 k v s) = Some v"
  by (simp add: meta_get_u32_def meta_set_u32_def commit_fast_def)

lemma ladder_pos_set:
  "ladder_pos rg (meta_set_u32 (cursor_key rg) v s) = (unat v div 10000, max (unat v mod 10000) 1)"
  by (simp add: ladder_pos_def meta_get_set Let_def)

lemma ladder_encode:
  assumes "(band, page) = (cursor div 10000, max (cursor mod 10000) 1)" "unat band < 8"
  shows "unat ((band + 1) * 10000 + 1 :: u32) = (unat band + 1) * 10000 + 1"
    and "unat (band * 10000 + page + 1 :: u32) = unat band * 10000 + unat page + 1"
    and "unat page \<le> 9999" "1 \<le> unat page"
proof -
  have m: "unat (cursor mod 10000) < 10000" by (simp add: unat_mod_distrib)
  have p: "unat page = max (unat (cursor mod 10000)) 1"
    using assms(1) by (auto simp: max_def word_le_nat_alt split: if_splits)
  show "unat page \<le> 9999" "1 \<le> unat page" using m p by auto
  have b: "band = of_nat (unat band)" "page = of_nat (unat page)" by simp_all
  have "(band + 1) * 10000 + 1 = (of_nat ((unat band + 1) * 10000 + 1) :: u32)" by simp
  then show "unat ((band + 1) * 10000 + 1) = (unat band + 1) * 10000 + 1"
    using assms(2) by (simp only: unat_of_nat) simp
  have "band * 10000 + page + 1 = (of_nat (unat band * 10000 + unat page + 1) :: u32)" by simp
  then show "unat (band * 10000 + page + 1) = unat band * 10000 + unat page + 1"
    using assms(2) \<open>unat page \<le> 9999\<close> by (simp only: unat_of_nat) simp
qed

section \<open>A sample region\<close>

definition sample_region :: region where
  "sample_region = \<lparr>rg_platform = ''EUW1'', rg_platform_host = ''euw1'', rg_regional_host = ''europe''\<rparr>"

definition sample_task :: frontier_task where "sample_task = \<lparr>ft_puuid = ''abc'', last_visit_ms = 0\<rparr>"

text \<open>A store that follows player 7, without and with its task.\<close>

definition idle_crawler :: crawler where
  "idle_crawler = \<lparr>cw_store = \<lparr>st_db = empty_tables, st_durable = empty_tables, st_files = (\<lambda>_. None), st_data_dir = ''data'',
      st_players = RBT.empty, st_next_player_id = 8, st_seen = RBT.empty, st_writers = RBT.empty, st_pending_ranks = [],
      st_dirty_bitmaps = False, st_cohort = {7}, st_outsider_seen = RBT.empty, st_valid_samples = RBT.empty\<rparr>,
     cw_braked = True, cw_adopt_tx = []\<rparr>"

definition sample_crawler :: crawler where
  "sample_crawler = on_store (push_task ''EUW1'' BUCKET_PRIORITY 5 7 sample_task) idle_crawler"

definition sample_visit :: visit_io where
  "sample_visit = \<lparr>vi_brake_now = 10, vi_start_now = 10, vi_page = (\<lambda>_ _. Some []), vi_page_stopped = (\<lambda>_. False), vi_rank = None,
     vi_rank_now = 10, vi_order = id, vi_match = (\<lambda>_. \<lparr>mi_stopped = False, mi_reply = ReplyError, mi_today = ''d'', mi_now = 10, mi_adopt_now = (\<lambda>_. 10)\<rparr>),
     vi_now = 10, vi_stopped = False\<rparr>"

definition sample_pass :: pass_io where
  "sample_pass = \<lparr>ps_stopped = False, ps_seed_now = 10, ps_seed = (\<lambda>_. \<lparr>sd_stopped = True, sd_brake_now = 10, sd_list = None, sd_enroll_now = 10\<rparr>),
     ps_pop_now = 10, ps_visit = sample_visit, ps_retry_now = 10,
     ps_expand = \<lparr>xp_brake_now = 10, xp_page = (\<lambda>_ _ _. None), xp_enroll_now = 10\<rparr>, ps_stopped_after = False, ps_flush_due = True, ps_commit_now = 10\<rparr>"

lemma idle_facts: "frontier_wf (front (cw_store idle_crawler))" "sched idle_crawler = (\<lambda>_. None)" "7 \<in> st_cohort (cw_store idle_crawler)"
  using empty_frontier_wf by (simp_all add: idle_crawler_def empty_tables_def)

lemma sample_facts:
  "frontier_wf (front (cw_store sample_crawler))"
  "sched sample_crawler = [7 \<mapsto> (''EUW1'', BUCKET_PRIORITY, 5, sample_task)]" "7 \<in> st_cohort (cw_store sample_crawler)"
  using push_task_queued[OF idle_facts(1)] idle_facts(2,3)
  by (simp_all add: sample_crawler_def on_store_def spec_push_def push_task_front(2))

section \<open>Properties\<close>

text \<open>C5: No run of the crawl loop loses a followed player.  Whatever the API answers, whichever visits fail or are stopped, and whether
  the brake is on, a cohort member that is queued before a run of a region is still a member and still queued after it, the
  final commit included: a player that is taken out for a visit is put back, on success with its next due time, on failure an hour later.\<close>

theorem players_never_lost:
  assumes "frontier_wf (front (cw_store c))" "pid \<in> st_cohort (cw_store c)" "sched c pid \<noteq> None"
  shows "pid \<in> st_cohort (cw_store (crawl_run lib rg now ios c)) \<and> sched (crawl_run lib rg now ios c) pid \<noteq> None"
  using run_retains[of c lib rg now ios] assms by (auto simp: retains_def followed_def)

theorem players_never_lost_witness:
  "let c = crawl_run \<lparr>cl_store = sample_lib, cl_raw = sample_zstd\<rparr> sample_region 10 [sample_pass, sample_pass] sample_crawler
   in 7 \<in> st_cohort (cw_store c) \<and> sched c 7 \<noteq> None"
  unfolding Let_def by (rule players_never_lost) (simp_all add: sample_facts)

text \<open>C34: A visit that returns queues its player again in the priority bucket of the region.  A deep visit that was stopped is due at
  once and keeps its marker, so that it is repeated; every other visit is dated now and the next one is due at least 7 and at most
  60 days later, whatever was found.\<close>

theorem visit_schedule:
  assumes "frontier_wf (front (cw_store c))" "pid \<in> st_cohort (cw_store c)" "sched c pid = None"
    and "process_player lib rg io pid task c = (Inr n, c')" "unat (vi_now io) + 60 * 86400000 < 2 ^ 64"
  shows "\<exists>due visit. sched c' pid = Some (rg_platform rg, BUCKET_PRIORITY, due, \<lparr>ft_puuid = ft_puuid task, last_visit_ms = visit\<rparr>)
    \<and> (if last_visit_ms task = DEEP_VISIT_MS \<and> vi_stopped io then due = vi_now io \<and> visit = DEEP_VISIT_MS
       else visit = vi_now io \<and> unat (vi_now io) + 7 * 86400000 \<le> unat due \<and> unat due \<le> unat (vi_now io) + 60 * 86400000)"
proof (rule visit_cases[of lib rg io pid task c])
  fix n1 c1 due visit
  assume v: "process_player lib rg io pid task c =
      (Inr n1, on_store (push_task (rg_platform rg) BUCKET_PRIORITY due pid \<lparr>ft_puuid = ft_puuid task, last_visit_ms = visit\<rparr>) c1)"
    and sm: "same_member pid (cw_store c) (cw_store c1)"
    and d: "last_visit_ms task = DEEP_VISIT_MS \<and> vi_stopped io \<and> due = vi_now io \<and> visit = DEEP_VISIT_MS
        \<or> \<not> (last_visit_ms task = DEEP_VISIT_MS \<and> vi_stopped io) \<and> visit = vi_now io \<and> (\<exists>k. due = next_due (last_visit_ms task) (vi_now io) k)"
  have "frontier_wf (front (cw_store c1))" "sched c1 pid = None"
    using sm assms(1-3) by (auto simp: same_member_def keeps_def)
  then have "sched c' pid = Some (rg_platform rg, BUCKET_PRIORITY, due, \<lparr>ft_puuid = ft_puuid task, last_visit_ms = visit\<rparr>)"
    using push_task_queued[of "cw_store c1"] v assms(4) by (auto simp: on_store_def spec_push_def)
  then show ?thesis using d next_due_bounds[OF assms(5)] by (intro exI[of _ due] exI[of _ visit]) auto
qed (use assms(4) in auto)

theorem visit_schedule_witness:
  "\<exists>n c' due visit. process_player \<lparr>cl_store = sample_lib, cl_raw = sample_zstd\<rparr> sample_region sample_visit 7 sample_task idle_crawler = (Inr n, c')
     \<and> sched c' 7 = Some (''EUW1'', BUCKET_PRIORITY, due, \<lparr>ft_puuid = ''abc'', last_visit_ms = visit\<rparr>)
     \<and> visit = 10 \<and> 604800010 \<le> unat due \<and> unat due \<le> 5184000010"
proof -
  let ?lib = "\<lparr>cl_store = sample_lib, cl_raw = sample_zstd\<rparr>"
  obtain n c' where e: "process_player ?lib sample_region sample_visit 7 sample_task idle_crawler = (Inr n, c')"
    by (auto simp: process_player_def sample_visit_def Let_def page_loop.simps new_match_ids_def sample_task_def DEEP_VISIT_MS_def)
  have s: "unat (vi_now sample_visit) + 60 * 86400000 < 2 ^ 64" by (simp add: sample_visit_def)
  from visit_schedule[OF idle_facts(1,3) _ e s] idle_facts(2) e show ?thesis
    by (auto simp: sample_visit_def sample_region_def sample_task_def DEEP_VISIT_MS_def)
qed

text \<open>Ladder expansion walks the bands page by page.  An expansion leaves the position alone when the brake is on, when the bands are
  exhausted and when the API fails (so that the page is asked for again); otherwise it has asked for exactly the page of its position
  and goes on to the next page, or to the next band after an empty page.  The encoding of the cursor holds 9999 pages per band, after
  which the rest of a band is skipped.\<close>

theorem expansion_walk:
  "ladder_pos rg (cw_store (snd (maybe_expand rg io c))) =
     (case ladder_pos rg (cw_store c) of (band, page) \<Rightarrow>
        if fst (update_brake rg (xp_brake_now io) c) \<or> band \<ge> length EXPANSION_BANDS then (band, page)
        else case xp_page io (fst (EXPANSION_BANDS ! band)) (snd (EXPANSION_BANDS ! band)) (of_nat page) of
               None \<Rightarrow> (band, page)
             | Some entries \<Rightarrow> ladder_next (band, page) (entries = []))"
proof -
  obtain b c1 where u: "update_brake rg (xp_brake_now io) c = (b, c1)" by fastforce
  have c1: "cw_store c1 = cw_store c" using brake_store[of rg "xp_brake_now io" c] u by simp
  define cursor where "cursor = (case meta_get_u32 (cursor_key rg) (cw_store c) of Some v \<Rightarrow> v | None \<Rightarrow> 0)"
  define bd where "bd = cursor div 10000"
  define pg where "pg = max (cursor mod 10000) 1"
  have pos: "ladder_pos rg (cw_store c) = (unat bd, unat pg)"
    unfolding ladder_pos_def bd_def pg_def cursor_def
    by (auto simp: unat_div_distrib unat_mod_distrib max_def word_le_nat_alt Let_def split: option.split)
  have len: "length EXPANSION_BANDS = 8" by (simp add: EXPANSION_BANDS_def)
  have me: "maybe_expand rg io c =
    (if b then (Inr False, c1)
     else if unat bd \<ge> 8 then (Inr False, c1)
     else case EXPANSION_BANDS ! unat bd of (tier, division) \<Rightarrow>
       (case xp_page io tier division pg of
          None \<Rightarrow> (Inl ApiError, c1)
        | Some entries \<Rightarrow>
            case (if length (map (\<lambda>e. (le_puuid e, rank_of e)) entries) > 0
                  then enroll rg (xp_enroll_now io) (map (\<lambda>e. (le_puuid e, rank_of e)) entries) COHORT_SRC_LADDER c1 else (0, c1)) of
              (newly, c) \<Rightarrow> (Inr (newly > 0), on_store (meta_set_u32 (cursor_key rg)
                (if entries = [] then (bd + 1) * 10000 + 1 else bd * 10000 + pg + 1)) c)))"
    unfolding maybe_expand_def u prod.case Let_def bd_def pg_def cursor_def c1 len by (rule refl)
  show ?thesis
  proof (cases "b \<or> unat bd \<ge> 8 \<or> xp_page io (fst (EXPANSION_BANDS ! unat bd)) (snd (EXPANSION_BANDS ! unat bd)) pg = None")
    case True
    then show ?thesis using u c1 pos len by (auto simp: me split_def)
  next
    case False
    then obtain entries where e: "xp_page io (fst (EXPANSION_BANDS ! unat bd)) (snd (EXPANSION_BANDS ! unat bd)) pg = Some entries"
      and nb: "\<not> b" "unat bd < 8" by auto
    have "ladder_pos rg (cw_store (snd (maybe_expand rg io c))) =
      (let v = (if entries = [] then (bd + 1) * 10000 + 1 else bd * 10000 + pg + 1) in (unat v div 10000, max (unat v mod 10000) 1))"
      using e nb by (simp add: me split_def on_store_def ladder_pos_set Let_def)
    also have "\<dots> = ladder_next (unat bd, unat pg) (entries = [])"
      using ladder_encode[of bd pg cursor] nb(2) by (auto simp: bd_def[symmetric] pg_def[symmetric] ladder_next_def Let_def)
    finally show ?thesis using e nb u pos len by simp
  qed
qed

text \<open>The budget brake has hysteresis: it is on after a reading exactly when at least 500 priority players of the region are overdue
  by two hours, or it was on and more than 100 still are; reading it changes nothing else.\<close>

lemma brake_hysteresis:
  assumes "frontier_wf (front (cw_store c))"
  shows "update_brake rg now c =
    (let on = 500 \<le> overdue rg now (cw_store c) \<or> cw_braked c \<and> 100 < overdue rg now (cw_store c) in (on, c\<lparr>cw_braked := on\<rparr>))"
  unfolding update_brake_def brake_count[OF assms] Let_def
  by (cases c) (auto simp: BRAKE_ON_COUNT_def BRAKE_OFF_COUNT_def)

lemma brake_hysteresis_witness:
  "update_brake sample_region 9000000 sample_crawler = (False, sample_crawler\<lparr>cw_braked := False\<rparr>)"
proof -
  have "overdue sample_region 9000000 (cw_store sample_crawler) \<le> card {7 :: u32}"
    unfolding overdue_def by (rule card_mono) (auto simp: sample_facts split: if_splits)
  then show ?thesis using brake_hysteresis[OF sample_facts(1), of sample_region 9000000] by simp
qed

end
