(* ===== verification/Crawler_Frame.thy ===== *)
theory Crawler_Frame
  imports Crawler_Props
begin

text \<open>
  What the crawler leaves alone: a preorder on stores that every store operation of the crawler respects is respected by a whole run
  of the crawl loop, whatever the API answers.  The node directory of the store is the instance.
\<close>

section \<open>Store operations of the crawler\<close>

locale store_frame =
  fixes R :: "store \<Rightarrow> store \<Rightarrow> bool"
  assumes R_refl: "R s s"
    and R_trans: "R s s' \<Longrightarrow> R s' s'' \<Longrightarrow> R s s''"
    and R_assign: "R s (snd (assign_player_ids ps s))"
    and R_cohort: "R s (snd (cohort_add_batch pids source now s))"
    and R_rank: "R s (add_rank_snapshot pid ts snap s)"
    and R_seeded: "R s (meta_set_u32 (seed_key rg) v s)"
    and R_cursor: "R s (meta_set_u32 (cursor_key rg) v s)"
    and R_seen: "R s (mark_seen p g s)"
    and R_front: "R s (commit_fast (\<lambda>t. t\<lparr>t_front := fr\<rparr>) s)"
    and R_stored: "store_match lib today now rec puuids ts paused s = Inr (rec', ad, s') \<Longrightarrow> R s s'"
    and R_files: "R s (s\<lparr>st_files := fs\<rparr>)"
    and R_commit: "R s (commit_store lib now s)"
begin

lemma frontier_op: "R s (snd (store_frontier f s))"
  by (simp add: store_frontier_def R_front split: prod.split)

lemma push: "R s (push_task p b d pid task s)"
  by (simp add: push_task_def frontier_op)

lemma folded: "(\<And>x s. R s (f x s)) \<Longrightarrow> R s (fold f xs s)"
  by (induction xs arbitrary: s) (auto intro: R_refl R_trans)

lemma enrolled: "R (cw_store c) (cw_store (snd (enroll rg ts es source c)))"
proof -
  obtain pids s1 where a: "assign_player_ids (map fst es) (cw_store c) = (pids, s1)" by fastforce
  obtain newly s2 where b: "cohort_add_batch pids source ts s1 = (newly, s2)" by fastforce
  have "R (cw_store c) s1" using R_assign[of "cw_store c" "map fst es"] a by simp
  moreover have "R s1 s2" using R_cohort[of s1 pids source ts] b by simp
  moreover have "R s2 (fold (\<lambda>((puuid, snap), pid) s. add_rank_snapshot pid ts snap s) (zip es pids) s2)"
    by (rule folded) (auto simp: R_rank)
  ultimately have "R (cw_store c) (fold (\<lambda>((puuid, snap), pid) s. add_rank_snapshot pid ts snap s) (zip es pids) s2)"
    using R_trans by blast
  from R_trans[OF this frontier_op] show ?thesis using a b by (simp add: enroll_def Let_def)
qed

lemma seeded_leagues: "R (cw_store c) (cw_store (snd (seed_leagues rg i leagues io c)))"
proof (induction leagues arbitrary: i c)
  case (Cons x leagues)
  obtain league tier where x: "x = (league, tier)" by fastforce
  obtain b c1 where u: "update_brake rg (sd_brake_now (io i)) c = (b, c1)" by fastforce
  have c1: "cw_store c1 = cw_store c" using brake_store[of rg "sd_brake_now (io i)" c] u by simp
  have "R (cw_store c) (cw_store (snd (seed_leagues rg (i + 1) leagues io (snd (enroll rg t es COHORT_SRC_APEX c1)))))" for t es
    using R_trans[OF enrolled Cons.IH, of c1] c1 by simp
  then show ?case using x u c1 R_refl by (auto split: option.split)
qed (simp add: R_refl)

lemma seeded: "R (cw_store c) (cw_store (snd (maybe_seed rg now io c)))"
  using seeded_leagues[of c rg 0 APEX_LEAGUES io] R_trans[OF _ R_seeded] R_refl
  by (auto simp: maybe_seed_def Let_def on_store_def split: prod.splits sum.splits)

lemma expanded: "R (cw_store c) (cw_store (snd (maybe_expand rg io c)))"
proof -
  obtain b c1 where u: "update_brake rg (xp_brake_now io) c = (b, c1)" by fastforce
  have c1: "cw_store c1 = cw_store c" using brake_store[of rg "xp_brake_now io" c] u by simp
  have e: "R (cw_store c) (meta_set_u32 (cursor_key rg) v (cw_store (snd (enroll rg t batch COHORT_SRC_LADDER c1))))" for v t batch
    using R_trans[OF enrolled[of c1 rg t batch COHORT_SRC_LADDER] R_cursor] c1 by simp
  show ?thesis unfolding maybe_expand_def u prod.case Let_def split_def on_store_def
    using e R_cursor[of "cw_store c"] R_refl c1 by (simp split: option.split)
qed

lemma adopted: "R s (enqueue_adopted rg now ad s)"
  unfolding enqueue_adopted_def by (rule folded) (auto simp: push)

lemma fetched: "R (cw_store c) (cw_store (snd (fetch_and_store_match lib rg io mid c)))"
proof (cases "split_match_id mid")
  case None
  then show ?thesis by (simp add: fetch_and_store_match_def R_refl)
next
  case (Some pg)
  obtain plat gid where pg: "split_match_id mid = Some (plat, gid)" using Some by fastforce
  have stored: "R (cw_store c) (enqueue_adopted rg t ad (if P then s\<lparr>st_files := g s\<rparr> else s))"
    if "store_match (cl_store lib) today now rec puuids ts paused (cw_store c) = Inr (rec', ad, s)" for today now rec puuids ts paused rec' ad s t P g
  proof -
    have "R (cw_store c) (if P then s\<lparr>st_files := g s\<rparr> else s)"
      using R_stored[OF that] R_trans[OF R_stored[OF that] R_files] by simp
    from R_trans[OF this adopted] show ?thesis .
  qed
  show ?thesis
    unfolding fetch_and_store_match_def pg option.case prod.case Let_def on_store_def
    using R_refl R_seen by (auto split: match_reply.split option.split sum.split prod.split
        intro: stored[where P = True, simplified] stored[where P = False, simplified])
qed

lemma fetched_all: "R (cw_store c) (cw_store (snd (fetch_all lib rg io ids n c)))"
proof (induction ids arbitrary: n c)
  case (Cons mid ids)
  obtain k c1 where f: "fetch_counted lib rg (io mid) mid c = (k, c1)" by fastforce
  have "R (cw_store c) (cw_store c1)"
    using fetched[of c lib rg "io mid" mid] R_refl f
    by (auto simp: fetch_counted_def split: if_splits prod.splits sum.splits bool.splits)
  then show ?case using f R_trans[OF _ Cons.IH] by simp
qed (simp add: R_refl)

lemma visited: "R (cw_store c) (cw_store (snd (process_player lib rg io pid task c)))"
proof -
  have refresh: "R s (rank_refresh pid now es s)" for now es s
    by (simp add: rank_refresh_def R_refl R_rank split: option.split)
  have all: "R (cw_store c') (cw_store (snd (fetch_all lib rg m ids 0 (on_store (rank_refresh pid now es) c'))))" for c' m ids now es
    using R_trans[OF refresh[of "cw_store c'" now es]] fetched_all[of "on_store (rank_refresh pid now es) c'" lib rg m ids 0]
    by (simp add: on_store_def)
  define c0 where "c0 = snd (update_brake rg (vi_brake_now io) c)"
  have c0: "cw_store c0 = cw_store c" by (simp add: c0_def)
  have fin: "R (cw_store c) (push_task p b d pid tk
      (cw_store (snd (fetch_all lib rg m ids 0 (c0\<lparr>cw_store := rank_refresh pid now es (cw_store c)\<rparr>)))))" for p b d tk m ids now es
    using R_trans[OF all[of c0 m ids now es] push] c0 by (simp add: on_store_def)
  show ?thesis unfolding process_player_def Let_def c0_def[symmetric] split_def on_store_def c0
    using fin c0 R_refl by (simp split: option.split sum.split)
qed

lemma maybe_committed: "R (cw_store c) (cw_store (maybe_commit lib io c))"
  by (simp add: maybe_commit_def on_store_def R_commit R_refl)

lemma passed: "R (cw_store c) (cw_store (snd (crawl_pass lib rg io c)))"
proof -
  obtain r c1 where s: "maybe_seed rg (ps_seed_now io) (ps_seed io) c = (r, c1)" by fastforce
  have 1: "R (cw_store c) (cw_store c1)" using seeded[of c rg "ps_seed_now io" "ps_seed io"] s by simp
  obtain x s2 where p: "store_frontier (frontier_pop_due (rg_platform rg) (ps_pop_now io)) (cw_store c1) = (x, s2)" by fastforce
  have 2: "R (cw_store c) s2"
    using R_trans[OF 1 frontier_op[of "cw_store c1" "frontier_pop_due (rg_platform rg) (ps_pop_now io)"]] p by simp
  have v: "R (cw_store c) (cw_store c3)" if "process_player lib rg (ps_visit io) pid task (c1\<lparr>cw_store := s2\<rparr>) = (y, c3)" for pid task y c3
    using R_trans[OF 2, of "cw_store c3"] visited[of "c1\<lparr>cw_store := s2\<rparr>" lib rg "ps_visit io" pid task] that by simp
  have w: "R (cw_store c) (cw_store c3)" if "maybe_expand rg (ps_expand io) (c1\<lparr>cw_store := s2\<rparr>) = (y, c3)" for y c3
    using R_trans[OF 2, of "cw_store c3"] expanded[of "c1\<lparr>cw_store := s2\<rparr>" rg "ps_expand io"] that by simp
  have m: "R (cw_store c) (cw_store (maybe_commit lib io c3))" if "R (cw_store c) (cw_store c3)" for c3
    using R_trans[OF that maybe_committed] .
  have q: "R (cw_store c) (cw_store (on_store (push_task a b d pid task) c3))" if "R (cw_store c) (cw_store c3)" for a b d pid task c3
    using R_trans[OF that push] by (simp add: on_store_def)
  show ?thesis unfolding crawl_pass_def s prod.case Let_def
    using 1 2 p by (auto split: sum.split prod.split option.split intro: m q v w)
qed

lemma ran: "R (cw_store c) (cw_store (crawl_run lib rg now ios c))"
proof -
  have "R (cw_store c) (cw_store (crawl_loop lib rg ios c))"
  proof (induction ios arbitrary: c)
    case (Cons io ios)
    obtain b c1 where p: "crawl_pass lib rg io c = (b, c1)" by fastforce
    have "R (cw_store c) (cw_store c1)" using passed[of c lib rg io] p by simp
    then show ?case using R_trans[OF _ Cons[of c1]] R_refl p by simp
  qed (simp add: R_refl)
  then show ?thesis using R_trans[OF _ R_commit] by (simp add: crawl_run_def on_store_def)
qed

end

section \<open>The node directory\<close>

text \<open>The enrolled nodes and their id counter, as a transaction sees them.\<close>

definition nodes_part :: "tables \<Rightarrow> (u32, node_rec) table \<times> bytes option" where
  "nodes_part t = (t_nodes t, RBT.lookup (t_meta t) ''next_node_id'')"

text \<open>A change that leaves the nodes alone, and makes durable only what is visible.\<close>

definition nodes_quiet :: "store \<Rightarrow> store \<Rightarrow> bool" where
  "nodes_quiet s s' \<longleftrightarrow> nodes_part (st_db s') = nodes_part (st_db s)
     \<and> (nodes_part (st_durable s') = nodes_part (st_durable s) \<or> nodes_part (st_durable s') = nodes_part (st_db s))"

lemma nodes_quiet_refl: "nodes_quiet s s"
  by (simp add: nodes_quiet_def)

lemma nodes_quiet_trans: "nodes_quiet s s' \<Longrightarrow> nodes_quiet s' s'' \<Longrightarrow> nodes_quiet s s''"
  unfolding nodes_quiet_def by auto

lemma quiet_fast: "nodes_part (f (st_db s)) = nodes_part (st_db s) \<Longrightarrow> nodes_quiet s (commit_fast f s)"
  by (simp add: nodes_quiet_def commit_fast_def)

lemma quiet_durable: "nodes_part (f (st_db s)) = nodes_part (st_db s) \<Longrightarrow> nodes_quiet s (commit_durable f s)"
  by (simp add: nodes_quiet_def commit_durable_def)

lemma quiet_same: "st_db s' = st_db s \<Longrightarrow> st_durable s' = st_durable s \<Longrightarrow> nodes_quiet s s'"
  by (simp add: nodes_quiet_def)

lemma quiet_after: "nodes_quiet s s' \<Longrightarrow> st_db s'' = st_db s' \<Longrightarrow> st_durable s'' = st_durable s' \<Longrightarrow> nodes_quiet s s''"
  by (simp add: nodes_quiet_def)

lemma quiet_checkpoint: "nodes_quiet s (durable_checkpoint now s)"
  by (rule quiet_after[OF quiet_durable]) (auto simp: durable_checkpoint_def nodes_part_def commit_durable_def)

lemma quiet_assign: "nodes_quiet s (snd (assign_player_ids ps s))"
  by (simp add: nodes_quiet_def assign_player_ids_def commit_fast_def nodes_part_def Let_def split: prod.split)

lemma quiet_cohort: "nodes_quiet s (snd (cohort_add_batch pids source now s))"
  by (simp add: nodes_quiet_def cohort_add_batch_def commit_fast_def nodes_part_def Let_def)

lemma quiet_meta: "k \<noteq> ''next_node_id'' \<Longrightarrow> nodes_quiet s (meta_set_u32 k v s)"
  unfolding meta_set_u32_def by (rule quiet_fast) (simp add: nodes_part_def)

lemma quiet_adopt: "nodes_quiet s (fst (fold (adopt_one ts paused) xs (s, ad)))"
proof (induction xs arbitrary: s ad)
  case (Cons x xs)
  obtain s1 ad1 where 1: "adopt_one ts paused x (s, ad) = (s1, ad1)" by fastforce
  have "nodes_quiet s s1"
    using 1 by (cases x) (auto simp: adopt_one_def nodes_quiet_def commit_fast_def nodes_part_def Let_def split: if_splits)
  then show ?case using nodes_quiet_trans[OF _ Cons] 1 by simp
qed (simp add: nodes_quiet_refl)

lemma quiet_txn:
  assumes "match_txn rec puuids ts paused s = Inr (rec', ad, s')"
  shows "nodes_quiet s s'"
proof -
  obtain pids s1 where a: "assign_player_ids puuids s = (pids, s1)" by fastforce
  have q1: "nodes_quiet s s1" using quiet_assign[of s puuids] a by simp
  obtain s2 ad2 where f: "fold (adopt_one ts paused) (zip pids puuids) (s1, []) = (s2, ad2)" by fastforce
  have q2: "nodes_quiet s s2" using nodes_quiet_trans[OF q1 quiet_adopt[of s1 ts paused "zip pids puuids" "[]"]] f by simp
  have c: "nodes_quiet s'' (count_valid p n s'')" for p n s''
    by (simp add: nodes_quiet_def count_valid_def commit_fast_def nodes_part_def valid_key_def Let_def)
  have p: "nodes_quiet s'' (commit_fast (\<lambda>t. t\<lparr>t_progress := x, t_player_tl := y\<rparr>) s'')"
    "nodes_quiet s'' (commit_fast (\<lambda>t. t\<lparr>t_player_tl := y, t_progress := x\<rparr>) s'')"
    "nodes_quiet s'' (commit_fast (\<lambda>t. t\<lparr>t_progress := RBT.insert k [] (t_progress t)\<rparr>) s'')" for s'' x y k
    by (rule quiet_fast, simp add: nodes_part_def)+
  show ?thesis using assms a f q1 nodes_quiet_trans[OF q1 p(3)] nodes_quiet_trans[OF nodes_quiet_trans[OF q2 p(1)] c] nodes_quiet_trans[OF nodes_quiet_trans[OF q2 p(2)] c]
    by (auto simp: match_txn_def Let_def res_bind_eq_Inr split: if_splits prod.splits)
qed

lemma quiet_roll: "nodes_quiet s (roll_writer lib today now plat s)"
  using nodes_quiet_refl quiet_after[OF quiet_checkpoint]
  by (auto simp: roll_writer_def Let_def split: option.split prod.split)

lemma quiet_store_match:
  assumes "store_match lib today now rec puuids ts paused s = Inr (rec', ad, s')"
  shows "nodes_quiet s s'"
proof -
  obtain s1 where t: "match_txn rec puuids ts paused s = Inr (rec', ad, s1)"
    and s': "s' = mark_seen (platform rec') (game_id rec') (append_record lib today rec' (roll_writer lib today now (platform rec') s1))"
    using assms by (auto simp: store_match_def Let_def res_bind_eq_Inr)
  have "nodes_quiet s (roll_writer lib today now (platform rec') s1)" by (rule nodes_quiet_trans[OF quiet_txn[OF t] quiet_roll])
  then show ?thesis by (rule quiet_after) (auto simp: s' mark_seen_def append_record_def split: option.split prod.split)
qed

lemma quiet_flush: "nodes_quiet s (flush_writers lib s)"
proof -
  have "nodes_quiet s (fold (\<lambda>(plat, w) s. case sw_flush (lib_seg lib) (w, st_files s) of
             (w, fs) \<Rightarrow> s\<lparr>st_writers := RBT.insert plat w (st_writers s), st_files := fs\<rparr>) xs s)" for xs
  proof (induction xs arbitrary: s)
    case (Cons x xs)
    obtain plat w where x: "x = (plat, w)" by fastforce
    obtain w' fs where f: "sw_flush (lib_seg lib) (w, st_files s) = (w', fs)" by fastforce
    have "nodes_quiet s (s\<lparr>st_writers := RBT.insert plat w' (st_writers s), st_files := fs\<rparr>)" by (simp add: quiet_same)
    from nodes_quiet_trans[OF this Cons] show ?case by (simp add: x f)
  qed (simp add: nodes_quiet_refl)
  then show ?thesis by (simp add: flush_writers_def)
qed

lemma quiet_bitmaps: "nodes_quiet s (commit_bitmaps lib s)"
proof -
  let ?kvs = "map (\<lambda>(plat, bm). (bitmap_key plat, bitmap_ser lib bm)) (RBT.entries (st_seen s))"
  have "''next_node_id'' \<notin> fst ` set ?kvs" by (auto simp: bitmap_key_def)
  then have "RBT.lookup (insert_all ?kvs m) ''next_node_id'' = RBT.lookup m ''next_node_id''" for m
    by (rule lookup_insert_all_other)
  then show ?thesis unfolding commit_bitmaps_def
    by (intro quiet_after[OF quiet_durable]) (auto simp: nodes_part_def commit_durable_def)
qed

lemma quiet_commit: "nodes_quiet s (commit_store lib now s)"
  unfolding commit_store_def Let_def
  using nodes_quiet_trans[OF quiet_checkpoint quiet_flush] nodes_quiet_trans[OF nodes_quiet_trans[OF quiet_checkpoint quiet_flush] quiet_bitmaps] by simp

interpretation node_frame: store_frame nodes_quiet
proof (unfold_locales, goal_cases)
  case 1 show ?case by (rule nodes_quiet_refl)
next
  case 2 then show ?case by (rule nodes_quiet_trans)
next
  case 3 show ?case by (rule quiet_assign)
next
  case 4 show ?case by (rule quiet_cohort)
next
  case 5 show ?case by (rule quiet_same) (simp_all add: add_rank_snapshot_def)
next
  case 6 show ?case by (rule quiet_meta) (simp add: seed_key_def)
next
  case 7 show ?case by (rule quiet_meta) (simp add: cursor_key_def)
next
  case 8 show ?case by (rule quiet_same) (simp_all add: mark_seen_def)
next
  case 9 show ?case by (rule quiet_fast) (simp add: nodes_part_def)
next
  case 10 then show ?case by (rule quiet_store_match)
next
  case 11 show ?case by (rule quiet_same) simp_all
next
  case 12 show ?case by (rule quiet_commit)
qed

end
