(* ===== verification/Api_Props.thy ===== *)
theory Api_Props
  imports Api Crawler_Frame
begin

text \<open>
  The server as a system of interleaved handlers, background work and restarts: tokens that were handed out stay valid, unauthenticated
  requests change nothing, the leaderboard is ordered and complete, and concurrent enrolments can share a name.
\<close>

section \<open>The node directory\<close>

text \<open>The persistent directory: the name and the token hash of each node.\<close>

type_synonym directory = "nat \<Rightarrow> (string \<times> string) option"

definition node_view :: "(u32, node_rec) table \<Rightarrow> directory" where
  "node_view t i =
     (if i < 2 ^ 32 then map_option (\<lambda>rec. (nd_name rec, nd_token_sha256_hex rec)) (RBT.lookup t (of_nat i)) else None)"

text \<open>The runtime registry shows a directory.\<close>

definition shows_nodes :: "registry \<Rightarrow> directory \<Rightarrow> bool" where
  "shows_nodes r d \<longleftrightarrow> (\<forall>i. map_option nr_name (reg_nodes r i) = map_option fst (d i))
     \<and> (\<forall>h i. by_token_hash r h = Some i \<longleftrightarrow> (\<exists>n. d i = Some (n, h)))"

definition hashes :: "directory \<Rightarrow> string set" where
  "hashes d = {h. \<exists>i n. d i = Some (n, h)}"

definition one_hash_each :: "directory \<Rightarrow> bool" where
  "one_hash_each d \<longleftrightarrow> (\<forall>i j n m h. d i = Some (n, h) \<longrightarrow> d j = Some (m, h) \<longrightarrow> i = j)"

lemma shows_new: "shows_nodes registry_new Map.empty"
  by (simp add: shows_nodes_def registry_new_def)

lemma shows_enroll:
  assumes "shows_nodes r d" "d i = None" "h \<notin> hashes d"
  shows "shows_nodes (enroll_runtime i name h r) (d(i \<mapsto> (name, h)))"
  using assms by (auto simp: shows_nodes_def enroll_runtime_def node_rt_new_def hashes_def)

lemma one_hash_upd: "one_hash_each d \<Longrightarrow> d i = None \<Longrightarrow> h \<notin> hashes d \<Longrightarrow> one_hash_each (d(i \<mapsto> (name, h)))"
  unfolding one_hash_each_def hashes_def by (auto split: if_splits)

lemma shows_fold:
  assumes "shows_nodes r d" "distinct (map fst xs)" "\<forall>x \<in> set xs. d (fst x) = None"
    and "one_hash_each (d ++ map_of xs)"
  shows "shows_nodes (fold (\<lambda>(i, n, h). enroll_runtime i n h) xs r) (d ++ map_of xs)"
  using assms
proof (induction xs arbitrary: r d)
  case (Cons x xs)
  obtain i n h where x: "x = (i, n, h)" by (metis prod.collapse)
  have split: "d ++ map_of (x # xs) = d(i \<mapsto> (n, h)) ++ map_of xs"
  proof -
    have "map_of xs i = None" using Cons.prems(2) by (simp add: x map_of_eq_None_iff)
    then show ?thesis by (auto simp: x map_add_def fun_eq_iff split: option.split)
  qed
  have "h \<notin> hashes d"
  proof
    assume "h \<in> hashes d"
    then obtain j m where j: "d j = Some (m, h)" by (auto simp: hashes_def)
    have a: "(d ++ map_of (x # xs)) i = Some (n, h)" by (simp add: x map_add_def)
    have b: "(d ++ map_of (x # xs)) j = Some (m, h)"
      using j Cons.prems(3) by (auto simp: map_add_def split: option.split dest!: map_of_SomeD)
    have "i = j" by (rule Cons.prems(4)[unfolded one_hash_each_def, rule_format, OF a b])
    then show False using j Cons.prems(3) by (simp add: x)
  qed
  then have "shows_nodes (enroll_runtime i n h r) (d(i \<mapsto> (n, h)))"
    using shows_enroll[OF Cons.prems(1)] Cons.prems(3) by (simp only: x) simp
  moreover have "distinct (map fst xs)" using Cons.prems(2) by simp
  moreover have "\<forall>y \<in> set xs. (d(i \<mapsto> (n, h))) (fst y) = None" using Cons.prems(2,3) by (auto simp: x)
  moreover have "one_hash_each (d(i \<mapsto> (n, h)) ++ map_of xs)" using Cons.prems(4) unfolding split .
  ultimately have "shows_nodes (fold (\<lambda>(i, n, h). enroll_runtime i n h) xs (enroll_runtime i n h r)) (d(i \<mapsto> (n, h)) ++ map_of xs)"
    by (rule Cons.IH)
  then show ?case unfolding split by (simp only: x List.fold_simps prod.case comp_def fold.simps)
qed simp

lemma entry_ids_distinct:
  "distinct (map fst (map (\<lambda>(i, rec). (unat i, nd_name rec, nd_token_sha256_hex rec)) (RBT.entries (t :: (u32, node_rec) table))))"
proof -
  have "map fst (map (\<lambda>(i, rec). (unat i, nd_name rec, nd_token_sha256_hex rec)) (RBT.entries t)) = map unat (map fst (RBT.entries t))"
    by auto
  moreover have "inj_on unat (set (map fst (RBT.entries t)))" by (rule inj_onI) (simp add: word_unat_eq_iff)
  ultimately show ?thesis using RBT.distinct_entries[of t] by (simp only: distinct_map)
qed

lemma view_entries:
  "node_view t = map_of (map (\<lambda>(i, rec). (unat i, nd_name rec, nd_token_sha256_hex rec)) (RBT.entries t))"
proof
  fix i
  let ?xs = "map (\<lambda>(i, rec). (unat i, nd_name rec, nd_token_sha256_hex rec)) (RBT.entries t)"
  note d = entry_ids_distinct[of t]
  show "node_view t i = map_of ?xs i"
  proof (cases "node_view t i")
    case None
    have "i \<notin> fst ` set ?xs"
    proof
      assume "i \<in> fst ` set ?xs"
      then obtain k rec where "(k, rec) \<in> set (RBT.entries t)" "i = unat k" by auto
      then show False using None unsigned_less[of k, where 'a = nat] by (simp add: node_view_def mem_entries)
    qed
    then have "map_of ?xs i = None" unfolding map_of_eq_None_iff .
    then show ?thesis using None by simp
  next
    case (Some v)
    then obtain rec where r: "i < 2 ^ 32" "RBT.lookup t (of_nat i) = Some rec" "v = (nd_name rec, nd_token_sha256_hex rec)"
      by (auto simp: node_view_def split: if_splits)
    then have "(of_nat i, rec) \<in> set (RBT.entries t)" by (simp add: mem_entries)
    then have "(i, v) \<in> set ?xs" using r by force
    then have "map_of ?xs i = Some v" unfolding map_of_eq_Some_iff[OF d] .
    then show ?thesis using Some by simp
  qed
qed

lemma load_shows:
  assumes "one_hash_each (node_view t)"
  shows "shows_nodes (load_registry (RBT.entries t)) (node_view t)"
proof -
  let ?xs = "map (\<lambda>(i, rec). (unat i, nd_name rec, nd_token_sha256_hex rec)) (RBT.entries t)"
  have e: "load_registry (RBT.entries t) = fold (\<lambda>(i, n, h). enroll_runtime i n h) ?xs registry_new"
    by (simp add: load_registry_def fold_map comp_def split_def)
  from shows_fold[OF shows_new entry_ids_distinct] show ?thesis
    using assms unfolding e view_entries by simp
qed

section \<open>The system\<close>

text \<open>The server with the enrolments under way: requests that passed the name check, requests that have read the invite file and found their
  code (with the text they are about to write), requests that have written it, nodes that are stored but not yet in the registry
  (token, id, request), and the tokens handed out so far (token, id, name).\<close>

record api_system =
  ys_server :: server
  ys_validated :: "enroll_request list"
  ys_checked :: "(enroll_request \<times> string) list"
  ys_admitted :: "enroll_request list"
  ys_persisted :: "(string \<times> nat \<times> enroll_request) list"
  ys_enrolled :: "(string \<times> nat \<times> string) list"

abbreviation ys_store :: "api_system \<Rightarrow> store" where "ys_store y \<equiv> sv_store (ys_server y)"

abbreviation on_server :: "(server \<Rightarrow> server) \<Rightarrow> api_system \<Rightarrow> api_system" where
  "on_server f y \<equiv> y\<lparr>ys_server := f (ys_server y)\<rparr>"

definition next_node :: "store \<Rightarrow> u32" where
  "next_node s = (case meta_get_u32 ''next_node_id'' s of Some n \<Rightarrow> n | None \<Rightarrow> 1)"

abbreviation store_view :: "store \<Rightarrow> directory" where "store_view s \<equiv> node_view (t_nodes (st_db s))"

text \<open>What handlers and background tasks do to the broker apart from enrolments.\<close>

inductive broker_move :: "(string \<Rightarrow> 'json option) \<Rightarrow> broker \<Rightarrow> broker \<Rightarrow> bool" for parse :: "string \<Rightarrow> 'json option" where
  touched: "broker_move parse b (b\<lparr>b_registry := touch now i (b_registry b)\<rparr>)"
| fetched: "broker_move parse b (fetch_enqueue host method path now b)"
| taken: "broker_move parse b (snd (take_jobs hosts order rolls now node pending b))"
| completed: "broker_move parse b (Broker.complete parse now node res b)"
| swept: "broker_move parse b (sweep order1 order2 now b)"
| stopped: "broker_move parse b (shutdown order b)"
| counted: "broker_move parse b (b\<lparr>b_stats := st\<rparr>)"

text \<open>The steps of an enrolment: the name is checked under the registry's lock, the invite file is read, the text without the code is written back, the
  node is stored under the store's lock and published under the registry's.  A fresh token is one whose hash no stored node has.\<close>

inductive enroll_step :: "(string \<Rightarrow> string) \<Rightarrow> api_system \<Rightarrow> api_system \<Rightarrow> bool" for hash where
  validated: "set order = dom (reg_nodes (sv_registry (ys_server y))) \<Longrightarrow> enroll_validate order h req (ys_server y) = None \<Longrightarrow>
    enroll_step hash y (y\<lparr>ys_validated := req # ys_validated y\<rparr>)"
| checked: "ys_validated y = as @ req # bs \<Longrightarrow> invite_checked (er_invite_code req) (sv_invites (ys_server y)) = Some f \<Longrightarrow>
    enroll_step hash y (y\<lparr>ys_validated := as @ bs, ys_checked := (req, f) # ys_checked y\<rparr>)"
| admitted: "ys_checked y = as @ (req, f) # bs \<Longrightarrow>
    enroll_step hash y (y\<lparr>ys_server := (ys_server y)\<lparr>sv_invites := Some f\<rparr>, ys_checked := as @ bs, ys_admitted := req # ys_admitted y\<rparr>)"
| persisted: "ys_admitted y = as @ req # bs \<Longrightarrow> hash token \<notin> hashes (store_view (ys_store y)) \<Longrightarrow>
    unat (next_node (ys_store y)) + 1 < 2 ^ 32 \<Longrightarrow> enroll_persist hash token now req (ys_server y) = (i, sv) \<Longrightarrow>
    enroll_step hash y
      (y\<lparr>ys_server := sv, ys_admitted := as @ bs, ys_persisted := (token, i, req) # ys_persisted y\<rparr>)"
| published: "ys_persisted y = as @ (token, i, req) # bs \<Longrightarrow> enroll_publish hash token i req (ys_server y) = (EnrollResponse token name, sv) \<Longrightarrow>
    enroll_step hash y
      (y\<lparr>ys_server := sv, ys_persisted := as @ bs, ys_enrolled := (token, i, name) # ys_enrolled y\<rparr>)"

abbreviation drop_enrolments :: "api_system \<Rightarrow> api_system" where
  "drop_enrolments y \<equiv> y\<lparr>ys_validated := [], ys_checked := [], ys_admitted := [], ys_persisted := []\<rparr>"

text \<open>The steps of the system.  Other requests, the crawler and the background tasks may run between the steps of an enrolment, the invite file may
  be edited at any time, and the process may stop at any point and start again from what is durable, which ends the enrolments under way.\<close>

inductive api_step :: "(string \<Rightarrow> string) \<Rightarrow> (string \<Rightarrow> 'json option) \<Rightarrow> store_lib \<Rightarrow> api_system \<Rightarrow> api_system \<Rightarrow> bool"
  for hash and parse :: "string \<Rightarrow> 'json option" and lib where
  invited: "api_step hash parse lib y (on_server (\<lambda>sv. sv\<lparr>sv_invites := f\<rparr>) y)"
| enrolling: "enroll_step hash y y' \<Longrightarrow> api_step hash parse lib y y'"
| served: "broker_move parse (sv_broker (ys_server y)) b \<Longrightarrow> api_step hash parse lib y (on_server (\<lambda>sv. sv\<lparr>sv_broker := b\<rparr>) y)"
| crawled: "nodes_quiet (ys_store y) s \<Longrightarrow> api_step hash parse lib y (on_server (\<lambda>sv. sv\<lparr>sv_store := s\<rparr>) y)"
| restarted: "server_start lib dir backfill now (st_durable (ys_store y)) fs invites = Inr sv \<Longrightarrow>
    api_step hash parse lib y (drop_enrolments (y\<lparr>ys_server := sv\<rparr>))"

text \<open>A first start on empty tables.\<close>

definition api_init :: "store_lib \<Rightarrow> api_system \<Rightarrow> bool" where
  "api_init lib y \<longleftrightarrow> (\<exists>dir backfill now fs invites. server_start lib dir backfill now empty_tables fs invites = Inr (ys_server y))
     \<and> ys_validated y = [] \<and> ys_checked y = [] \<and> ys_admitted y = [] \<and> ys_persisted y = [] \<and> ys_enrolled y = []"

definition api_reach :: "(string \<Rightarrow> string) \<Rightarrow> (string \<Rightarrow> 'json option) \<Rightarrow> store_lib \<Rightarrow> api_system \<Rightarrow> bool" where
  "api_reach hash parse lib y \<longleftrightarrow> (\<exists>y0. api_init lib y0 \<and> (api_step hash parse lib)\<^sup>*\<^sup>* y0 y)"

section \<open>Moves keep the nodes\<close>

text \<open>A registry change that keeps names and tokens.\<close>

definition same_nodes :: "registry \<Rightarrow> registry \<Rightarrow> bool" where
  "same_nodes r r' \<longleftrightarrow> by_token_hash r' = by_token_hash r
     \<and> (\<forall>i. map_option nr_name (reg_nodes r' i) = map_option nr_name (reg_nodes r i))"

lemma same_nodes_refl [simp]: "same_nodes r r"
  by (simp add: same_nodes_def)

lemma same_nodes_trans: "same_nodes r r' \<Longrightarrow> same_nodes r' r'' \<Longrightarrow> same_nodes r r''"
  by (simp add: same_nodes_def)

lemma same_nodes_modify: "(\<And>n. nr_name (f n) = nr_name n) \<Longrightarrow> same_nodes r (modify_node i f r)"
  by (auto simp: same_nodes_def option.map_comp comp_def)

lemma shows_same: "shows_nodes r d \<Longrightarrow> same_nodes r r' \<Longrightarrow> shows_nodes r' d"
  by (simp add: shows_nodes_def same_nodes_def)

lemma registry_ops_same:
  "same_nodes r (touch now i r)" "same_nodes r (job_completed i r)" "same_nodes r (set_key_bad i bad r)"
  "same_nodes r (audit_result a b v r)"
  using same_nodes_trans[OF same_nodes_modify same_nodes_modify, of "count_verdict v" "count_verdict v"]
  by (simp_all add: touch_def job_completed_def set_key_bad_def audit_result_def same_nodes_modify)

lemma fold_registry: "(\<And>x b. b_registry (f x b) = b_registry b) \<Longrightarrow> b_registry (fold f xs b) = b_registry b"
  by (induction xs arbitrary: b) auto

lemma send_registry [simp]: "b_registry (send tx res b) = b_registry b"
  by (simp add: send_def split: option.split)

lemma push_back_registry [simp]: "b_registry (push_back host e b) = b_registry b"
  by (simp add: push_back_def)

lemma abandon_registry [simp]: "b_registry (abandon i b) = b_registry b"
  by (simp add: abandon_def Let_def split: option.split)

lemma release_registry [simp]: "b_registry (release i c b) = b_registry b"
  by (simp add: release_def Let_def split: option.split)

lemma lease_registry: "b_registry (fst (lease_one node now audit i (b, acc))) = b_registry b"
  by (auto simp: lease_one_def Let_def split: option.split prod.split)

lemma take_host_registry: "b_registry (fst (take_host node now pending audit host (b, acc))) = b_registry b"
proof -
  have f: "b_registry (fst (fold (lease_one node now audit) is (b, acc))) = b_registry b" for "is" b acc
  proof (induction "is" arbitrary: b acc)
    case (Cons i "is")
    then show ?case using lease_registry[of node now audit i b acc] by (cases "lease_one node now audit i (b, acc)") simp
  qed simp
  show ?thesis by (auto simp: take_host_def Let_def f split: prod.split)
qed

lemma take_registry: "b_registry (snd (take_jobs hosts order rolls now node pending b)) = b_registry b"
proof -
  have h: "b_registry (fst (fold (take_host node now pending audit) hs (b, acc))) = b_registry b" for audit hs b acc
  proof (induction hs arbitrary: b acc)
    case (Cons x hs)
    then show ?case using take_host_registry[of node now pending audit x b acc] by (cases "take_host node now pending audit x (b, acc)") simp
  qed simp
  have t: "b_registry (fold (add_twin node now) ts b) = b_registry b" for ts b
    by (rule fold_registry) (auto simp: add_twin_def Let_def split: prod.split option.split)
  show ?thesis unfolding take_jobs_def Let_def split_def using t h by simp
qed

lemma audit_registry: "same_nodes (b_registry b) (b_registry (finish_audit_if_ready parse t b))"
  by (auto simp: finish_audit_if_ready_def Let_def registry_ops_same split: option.split prod.split)

lemma complete_registry: "same_nodes (b_registry b) (b_registry (Broker.complete parse now node res b))"
proof -
  have audited: "same_nodes (b_registry b) (b_registry (finish_audit_if_ready parse t b'))"
    if "b_registry b' = job_completed node (b_registry b)" for b b' t
    using same_nodes_trans[OF registry_ops_same(2) audit_registry[of b' parse t, unfolded that]] by simp
  have body: "same_nodes (b_registry b) (b_registry (complete_body parse now node res job b))" for job b
    unfolding complete_body_def Let_def
    by (auto simp: registry_ops_same split: option.split intro!: audited)
  show ?thesis
    using body registry_ops_same(3)
    by (auto simp: Broker.complete_def Let_def split: option.split job_outcome.split)
qed

lemma broker_move_same: "broker_move parse b b' \<Longrightarrow> same_nodes (b_registry b) (b_registry b')"
proof (induction rule: broker_move.induct)
  case (swept b order1 order2 now)
  have "b_registry (fold (\<lambda>i. release i True) is b) = b_registry b" for "is" b by (rule fold_registry) simp
  moreover have "b_registry (fold drop_twin is b) = b_registry b" for "is" b by (rule fold_registry) (simp add: drop_twin_def)
  ultimately show ?case by (simp add: sweep_def Let_def)
next
  case (stopped b order)
  have "b_registry (fold (\<lambda>i b. case jobs b i of Some job \<Rightarrow> send (responder job) (Inl ServerShuttingDown) b | None \<Rightarrow> b) is b) = b_registry b" for "is" b
    by (rule fold_registry) (simp split: option.split)
  then show ?case by (simp add: shutdown_def Let_def)
qed (simp_all add: registry_ops_same take_registry complete_registry fetch_enqueue_def Let_def)

section \<open>The invariant\<close>

abbreviation pending_ids :: "api_system \<Rightarrow> nat set" where
  "pending_ids y \<equiv> (fst \<circ> snd) ` set (ys_persisted y)"

text \<open>The nodes are as durable as they are visible, ids are below the counter, no two nodes share a token hash, the registry shows the stored nodes
  except those about to be published, and the tokens handed out are those of their nodes.\<close>

definition api_inv :: "(string \<Rightarrow> string) \<Rightarrow> api_system \<Rightarrow> bool" where
  "api_inv hash y \<longleftrightarrow>
     (let s = ys_store y; d = store_view s in
        nodes_part (st_durable s) = nodes_part (st_db s)
      \<and> (\<forall>i \<in> dom d. i < unat (next_node s))
      \<and> one_hash_each d
      \<and> shows_nodes (sv_registry (ys_server y)) (d |` (- pending_ids y))
      \<and> (\<forall>token i req. (token, i, req) \<in> set (ys_persisted y) \<longrightarrow> d i = Some (er_name req, hash token))
      \<and> distinct (map (fst \<circ> snd) (ys_persisted y))
      \<and> (\<forall>token i name. (token, i, name) \<in> set (ys_enrolled y) \<longrightarrow> d i = Some (name, hash token) \<and> i \<notin> pending_ids y))"

text \<open>Changes that touch neither the stored nodes nor the enrolments.\<close>

lemma api_inv_quiet:
  assumes "api_inv hash y" "nodes_quiet (ys_store y) (sv_store sv)" "same_nodes (sv_registry (ys_server y)) (sv_registry sv)"
  shows "api_inv hash (y\<lparr>ys_server := sv\<rparr>)"
proof -
  have q: "t_nodes (st_db (sv_store sv)) = t_nodes (st_db (ys_store y))"
    "next_node (sv_store sv) = next_node (ys_store y)"
    using assms(2) by (simp_all add: nodes_quiet_def nodes_part_def next_node_def meta_get_u32_def)
  have "nodes_part (st_durable (sv_store sv)) = nodes_part (st_db (sv_store sv))"
    using assms(1,2) by (auto simp: nodes_quiet_def api_inv_def Let_def)
  moreover have "shows_nodes (sv_registry sv) (store_view (ys_store y) |` (- pending_ids y))"
    using shows_same[OF _ assms(3)] assms(1) by (simp add: api_inv_def Let_def)
  ultimately show ?thesis using assms(1) by (simp add: api_inv_def Let_def q)
qed

lemma node_add_view:
  assumes "node_add name h now s = (k, s')" "unat (next_node s) + 1 < 2 ^ 32"
  shows "k = next_node s" "store_view s' = (store_view s)(unat k \<mapsto> (name, h))" "unat (next_node s') = unat k + 1"
    and "nodes_part (st_durable s') = nodes_part (st_db s')"
proof -
  show k: "k = next_node s" using assms(1) by (auto simp: node_add_def next_node_def Let_def)
  have s': "t_nodes (st_db s') = RBT.insert k \<lparr>nd_name = name, nd_token_sha256_hex = h, nd_created_ms = now\<rparr> (t_nodes (st_db s))"
    "t_meta (st_db s') = RBT.insert ''next_node_id'' (to_le 4 (k + 1)) (t_meta (st_db s))" "st_durable s' = st_db s'"
    using assms(1) by (auto simp: node_add_def commit_durable_def Let_def)
  show "nodes_part (st_durable s') = nodes_part (st_db s')" by (simp add: s'(3))
  show "store_view s' = (store_view s)(unat k \<mapsto> (name, h))"
  proof
    fix i
    show "store_view s' i = ((store_view s)(unat k \<mapsto> (name, h))) i"
    proof (cases "i < 2 ^ 32")
      case True
      then have "of_nat i = k \<longleftrightarrow> i = unat k" using unat_of_nat_u32[of i] by auto
      with True show ?thesis by (auto simp: node_view_def s'(1))
    next
      case False
      then have "i \<noteq> unat k" using unsigned_less[of k, where 'a = nat] by auto
      with False show ?thesis by (simp add: node_view_def)
    qed
  qed
  have "next_node s' = k + 1" by (simp add: next_node_def meta_get_u32_def s'(2))
  moreover have "k + 1 = of_nat (unat k + 1)" by simp
  ultimately show "unat (next_node s') = unat k + 1" using assms(2) k by (metis unat_of_nat_u32)
qed

lemma api_inv_persist:
  assumes inv: "api_inv hash y" and "hash token \<notin> hashes (store_view (ys_store y))" "unat (next_node (ys_store y)) + 1 < 2 ^ 32"
    and e: "enroll_persist hash token now req (ys_server y) = (i, sv)"
  shows "api_inv hash (y\<lparr>ys_server := sv, ys_admitted := as, ys_persisted := (token, i, req) # ys_persisted y\<rparr>)"
proof -
  obtain k s' where n: "node_add (er_name req) (hash token) now (ys_store y) = (k, s')" by fastforce
  have sv: "sv = (ys_server y)\<lparr>sv_store := s'\<rparr>" "i = unat k" using e n by (auto simp: enroll_persist_def)
  note v = node_add_view[OF n assms(3)]
  let ?d = "store_view (ys_store y)"
  note I = inv[unfolded api_inv_def Let_def]
  have fresh: "?d i = None" using I v(1) sv(2) by (metis domIff less_irrefl)
  have per: "?d j = Some (er_name rq, hash t)" if "(t, j, rq) \<in> set (ys_persisted y)" for t j rq using I that by blast
  have enr: "?d j = Some (n, hash t) \<and> j \<notin> pending_ids y" if "(t, j, n) \<in> set (ys_enrolled y)" for t j n using I that by blast
  have ids: "i \<notin> pending_ids y" using per fresh by fastforce
  have "?d(i \<mapsto> (er_name req, hash token)) |` (- insert i (pending_ids y)) = ?d |` (- pending_ids y)"
    using fresh by (auto simp: restrict_map_def fun_eq_iff)
  then have "shows_nodes (sv_registry sv) (store_view s' |` (- insert i (pending_ids y)))"
    using I by (simp only: v(2) sv) simp
  moreover have "one_hash_each (store_view s')" using one_hash_upd[OF _ fresh assms(2)] I by (simp only: v(2) sv(2))
  moreover have "\<forall>j \<in> dom (store_view s'). j < unat (next_node s')"
  proof
    fix j assume "j \<in> dom (store_view s')"
    then have "j = i \<or> j \<in> dom ?d" by (auto simp: v(2) sv(2) split: if_splits)
    moreover have "j < unat k" if "j \<in> dom ?d" using I that v(1) by blast
    ultimately have "j \<le> unat k" using sv(2) by (metis less_imp_le order_refl)
    then show "j < unat (next_node s')" using v(3) by simp
  qed
  moreover have "store_view s' j = Some (er_name rq, hash t)" if "(t, j, rq) \<in> set ((token, i, req) # ys_persisted y)" for t j rq
    using that per fresh by (auto simp: v(2) sv(2))
  moreover have "store_view s' j = Some (n, hash t) \<and> j \<notin> insert i (pending_ids y)" if "(t, j, n) \<in> set (ys_enrolled y)" for t j n
    using enr[OF that] fresh by (auto simp: v(2) sv(2))
  ultimately show ?thesis using I ids v(4) by (simp add: api_inv_def Let_def sv(1))
qed

lemma api_inv_publish:
  assumes inv: "api_inv hash y" and p: "ys_persisted y = as @ (token, i, req) # bs"
    and e: "enroll_publish hash token i req (ys_server y) = (EnrollResponse token name, sv)"
  shows "api_inv hash (y\<lparr>ys_server := sv, ys_persisted := as @ bs, ys_enrolled := (token, i, name) # ys_enrolled y\<rparr>)"
proof -
  let ?d = "store_view (ys_store y)" and ?P = "(fst \<circ> snd) ` set (as @ bs)"
  note I = inv[unfolded api_inv_def Let_def]
  have sv: "sv = on_registry (enroll_runtime i (er_name req) (hash token)) (ys_server y)" "name = er_name req"
    using e by (auto simp: enroll_publish_def)
  have pend: "pending_ids y = insert i ?P" by (simp add: p)
  have i: "i \<notin> ?P" using I by (simp add: p image_Un)
  have di: "?d i = Some (er_name req, hash token)" using I by (simp add: p)
  have "hash token \<notin> hashes (?d |` (- pending_ids y))"
    using I di pend by (auto simp: hashes_def restrict_map_def one_hash_each_def split: if_splits)
  then have "shows_nodes (enroll_runtime i (er_name req) (hash token) (sv_registry (ys_server y)))
      ((?d |` (- pending_ids y))(i \<mapsto> (er_name req, hash token)))"
    using I pend by (intro shows_enroll) auto
  moreover have "(?d |` (- pending_ids y))(i \<mapsto> (er_name req, hash token)) = ?d |` (- ?P)"
    using di i pend by (auto simp: restrict_map_def fun_eq_iff)
  ultimately have "shows_nodes (sv_registry sv) (?d |` (- ?P))" by (simp add: sv on_registry_def)
  moreover have "?d j = Some (n, hash t) \<and> j \<notin> ?P" if "(t, j, n) \<in> set ((token, i, name) # ys_enrolled y)" for t j n
  proof (cases "(t, j, n) \<in> set (ys_enrolled y)")
    case True
    then have "?d j = Some (n, hash t) \<and> j \<notin> pending_ids y" using I by blast
    then show ?thesis unfolding pend by blast
  qed (use that i di sv(2) in simp)
  moreover have "?d j = Some (er_name rq, hash t)" if "(t, j, rq) \<in> set (as @ bs)" for t j rq using I p that by auto
  moreover have "distinct (map (fst \<circ> snd) (as @ bs))" using I by (simp add: p)
  ultimately show ?thesis using I by (simp add: api_inv_def Let_def sv(1) on_registry_def)
qed

lemma reconcile_quiet: "nodes_quiet s (snd (frontier_reconcile now s))"
proof -
  have "nodes_quiet s' (snd (fold (\<lambda>p (n, s). (n + length (b p), snd (store_frontier (\<lambda>f. ((), frontier_push_batch p BUCKET_PRIORITY now (b p) f)) s))) ps (m, s')))"
    for b :: "string \<Rightarrow> (u32 \<times> frontier_task) list" and ps m s'
  proof (induction ps arbitrary: m s')
    case (Cons p ps)
    from nodes_quiet_trans[OF node_frame.frontier_op Cons] show ?case by simp
  qed (simp add: nodes_quiet_refl)
  then show ?thesis unfolding frontier_reconcile_def Let_def .
qed

lemma start_quiet:
  assumes "server_start lib dir backfill now t fs invites = Inr sv"
  shows "nodes_part (st_db (sv_store sv)) = nodes_part t" "nodes_part (st_durable (sv_store sv)) = nodes_part t"
    and "sv_registry sv = load_registry (RBT.entries (t_nodes t))"
proof -
  obtain s where s: "open_store lib dir t fs = Inr s" using assms by (auto simp: server_start_def split: sum.splits)
  have st: "st_db s = t" "st_durable s = t" using s by (auto simp: open_store_def res_bind_eq_Inr)
  let ?s1 = "snd (frontier_reconcile now s)"
  let ?s2 = "if backfill then snd (store_frontier (frontier_backfill_reset (\<lambda>pid. is_cohort pid ?s1) now) ?s1) else ?s1"
  have sv: "sv_store sv = ?s2" "sv_registry sv = load_registry (nodes_all ?s2)"
    using assms s by (auto simp: server_start_def Let_def broker_new_def)
  have "nodes_quiet ?s1 ?s2" using nodes_quiet_refl node_frame.frontier_op by (cases backfill) simp_all
  then have "nodes_quiet s ?s2" by (rule nodes_quiet_trans[OF reconcile_quiet])
  then have q: "nodes_part (st_db ?s2) = nodes_part t" "nodes_part (st_durable ?s2) = nodes_part t"
    by (auto simp: nodes_quiet_def st)
  then show "nodes_part (st_db (sv_store sv)) = nodes_part t" "nodes_part (st_durable (sv_store sv)) = nodes_part t"
    by (simp_all only: sv)
  show "sv_registry sv = load_registry (RBT.entries (t_nodes t))"
    using q(1) unfolding sv(2) nodes_all_def by (simp add: nodes_part_def)
qed

lemma restrict_UNIV [simp]: "m |` UNIV = m"
  by (simp add: restrict_map_def)

lemma api_inv_start:
  assumes inv: "api_inv hash y" and e: "server_start lib dir backfill now (st_durable (ys_store y)) fs invites = Inr sv"
  shows "api_inv hash (drop_enrolments (y\<lparr>ys_server := sv\<rparr>))"
proof -
  note I = inv[unfolded api_inv_def Let_def]
  note q = start_quiet[OF e]
  have d: "nodes_part (st_durable (ys_store y)) = nodes_part (st_db (ys_store y))" using I by blast
  have t: "t_nodes (st_durable (ys_store y)) = t_nodes (st_db (ys_store y))"
    "t_nodes (st_db (sv_store sv)) = t_nodes (st_db (ys_store y))" "next_node (sv_store sv) = next_node (ys_store y)"
    using q(1) d by (simp_all add: nodes_part_def next_node_def meta_get_u32_def)
  have "shows_nodes (sv_registry sv) (store_view (sv_store sv))"
    unfolding q(3) t using load_shows I by blast
  then show ?thesis using I q(1,2) t by (auto simp: api_inv_def Let_def)
qed

lemma enroll_step_inv: "enroll_step hash y y' \<Longrightarrow> api_inv hash y \<Longrightarrow> api_inv hash y'"
proof (induction rule: enroll_step.induct)
  case (admitted y as req f bs)
  have "api_inv hash (y\<lparr>ys_server := (ys_server y)\<lparr>sv_invites := Some f\<rparr>\<rparr>)"
    by (intro api_inv_quiet[OF admitted(2)]) (simp_all add: nodes_quiet_refl)
  then show ?case by (simp add: api_inv_def)
next
  case (persisted y as req bs token now i sv)
  then show ?case using api_inv_persist by blast
next
  case (published y as token i req bs name sv)
  then show ?case using api_inv_publish by blast
qed (simp_all add: api_inv_def)

lemma api_step_inv: "api_step hash parse lib y y' \<Longrightarrow> api_inv hash y \<Longrightarrow> api_inv hash y'"
proof (induction rule: api_step.induct)
  case (invited y f)
  then show ?case using api_inv_quiet[OF invited, of "(ys_server y)\<lparr>sv_invites := f\<rparr>"] by (simp add: nodes_quiet_refl)
next
  case (enrolling y y')
  then show ?case using enroll_step_inv by blast
next
  case (served y b)
  then show ?case using api_inv_quiet[OF served(2), of "(ys_server y)\<lparr>sv_broker := b\<rparr>"] broker_move_same[OF served(1)]
    by (simp add: nodes_quiet_refl)
next
  case (crawled y s)
  then show ?case using api_inv_quiet[OF crawled(2), of "(ys_server y)\<lparr>sv_store := s\<rparr>"] by simp
next
  case (restarted dir backfill now y fs invites sv)
  then show ?case using api_inv_start by blast
qed

lemma empty_view: "store_view s = Map.empty" if "t_nodes (st_db s) = RBT.empty"
  using that by (simp add: node_view_def fun_eq_iff)

lemma api_inv_init: "api_init lib y \<Longrightarrow> api_inv hash y"
proof -
  assume i: "api_init lib y"
  then obtain dir backfill now fs invites where
    e: "server_start lib dir backfill now empty_tables fs invites = Inr (ys_server y)"
    and y: "ys_persisted y = []" "ys_enrolled y = []" by (auto simp: api_init_def)
  note q = start_quiet[OF e]
  have t: "t_nodes (st_db (ys_store y)) = RBT.empty" using q(1) by (simp add: nodes_part_def empty_tables_def)
  have "shows_nodes (sv_registry (ys_server y)) Map.empty"
    using shows_new q(3) by (simp add: load_registry_def empty_tables_def)
  then show ?thesis using q(1,2) y empty_view[OF t] by (simp add: api_inv_def Let_def one_hash_each_def restrict_map_def)
qed

lemma api_reach_inv: "api_reach hash parse lib y \<Longrightarrow> api_inv hash y"
proof -
  assume "api_reach hash parse lib y"
  then obtain y0 where y0: "api_init lib y0" "(api_step hash parse lib)\<^sup>*\<^sup>* y0 y" by (auto simp: api_reach_def)
  from y0(2) show ?thesis
    by (induction rule: rtranclp_induct) (auto intro: api_inv_init[OF y0(1)] api_step_inv)
qed

section \<open>A sample run\<close>

lemma sample_open: "\<exists>s. open_store sample_lib dir t fs = Inr s"
proof -
  have "\<exists>acc'. load_regions sample_lib m rs acc = Inr acc'" for m rs acc
  proof (induction rs arbitrary: acc)
    case (Cons r rs)
    obtain seen valid where "acc = (seen, valid)" by fastforce
    then show ?case using Cons by (auto simp: sample_lib_def Let_def split: option.split)
  qed simp
  then obtain seen valid where "load_regions sample_lib (t_meta t) enabled_regions (RBT.empty, RBT.empty) = Inr (seen, valid)" by fastforce
  then show ?thesis by (simp add: open_store_def)
qed

lemma sample_restart: "\<exists>sv. server_start sample_lib dir backfill now t fs invites = Inr sv"
  using sample_open[of dir t fs] by (auto simp: server_start_def Let_def)

abbreviation sample_request :: "string \<Rightarrow> enroll_request" where
  "sample_request code \<equiv> \<lparr>er_invite_code = code, er_name = ''bob''\<rparr>"

lemma reach_step: "api_reach hash parse lib y \<Longrightarrow> api_step hash parse lib y y' \<Longrightarrow> api_reach hash parse lib y'"
  unfolding api_reach_def by (meson rtranclp.rtrancl_into_rtrancl)

lemma sample_begin:
  "\<exists>y. api_reach id parse sample_lib y \<and> ys_validated y = [] \<and> ys_checked y = [] \<and> ys_admitted y = [] \<and> ys_persisted y = [] \<and> ys_enrolled y = []
     \<and> reg_nodes (sv_registry (ys_server y)) = Map.empty \<and> store_view (ys_store y) = Map.empty \<and> next_node (ys_store y) = 1"
proof -
  obtain sv where e: "server_start sample_lib ''data'' False 0 empty_tables (\<lambda>_. None) None = Inr sv" using sample_restart by blast
  let ?y = "\<lparr>ys_server = sv, ys_validated = [], ys_checked = [], ys_admitted = [], ys_persisted = [], ys_enrolled = []\<rparr>"
  note q = start_quiet[OF e]
  have "api_init sample_lib ?y" unfolding api_init_def using e by simp blast
  then have "api_reach id parse sample_lib ?y" unfolding api_reach_def by blast
  moreover have "next_node (sv_store sv) = 1" "store_view (sv_store sv) = Map.empty"
    using q(1) empty_view by (auto simp: nodes_part_def empty_tables_def next_node_def meta_get_u32_def)
  moreover have "reg_nodes (sv_registry sv) = Map.empty"
    using q(3) by (simp add: load_registry_def empty_tables_def registry_new_def)
  ultimately show ?thesis by (intro exI[of _ ?y]) simp
qed

lemma enroll_reach: "api_reach hash parse lib y \<Longrightarrow> (enroll_step hash)\<^sup>*\<^sup>* y y' \<Longrightarrow> api_reach hash parse lib y'"
  by (rotate_tac 1, induction rule: rtranclp_induct) (auto intro: reach_step enrolling)

text \<open>Two requests with one code: both pass the name check and read the invite file before either writes it.\<close>

abbreviation sample_invites :: "string option" where "sample_invites \<equiv> Some (invite_file [(''A'', ''x'')])"

lemma sample_checked: "invite_checked ''A'' sample_invites = Some []"
  by (simp add: invite_checked_def invite_file_def invite_line_def text_lines_def strip_cr_def invite_matches_def trim_def is_space_def)

lemma sample_admit_two:
  assumes "reg_nodes (sv_registry (ys_server y)) = Map.empty" "sv_invites (ys_server y) = sample_invites"
    and "ys_validated y = []" "ys_checked y = []" "ys_admitted y = []"
  shows "(enroll_step hash)\<^sup>*\<^sup>* y
    (y\<lparr>ys_server := (ys_server y)\<lparr>sv_invites := Some []\<rparr>, ys_admitted := [sample_request ''A'', sample_request ''A'']\<rparr>)"
proof -
  let ?h = "\<lparr>hd_proto = Some ''1'', hd_authorization = None\<rparr>" and ?r = "sample_request ''A''"
  let ?v = "\<lambda>n. y\<lparr>ys_validated := replicate n ?r\<rparr>" and ?c = "\<lambda>n m. y\<lparr>ys_validated := replicate n ?r, ys_checked := replicate m (?r, [])\<rparr>"
  let ?a = "\<lambda>n m. y\<lparr>ys_server := (ys_server y)\<lparr>sv_invites := Some []\<rparr>, ys_validated := [], ys_checked := replicate n (?r, []), ys_admitted := replicate m ?r\<rparr>"
  have v: "enroll_step hash (?v n) (?v (Suc n))" for n
    using validated[of "[]" "?v n" ?h ?r hash] assms(1)
    by (simp add: enroll_validate_def check_proto_def parse_uint_def is_digit_def PROTOCOL_VERSION_def valid_name_def name_taken_def Let_def)
  have c: "enroll_step hash (?c (Suc n) m) (?c n (Suc m))" for n m
    using checked[of "?c (Suc n) m" "[]" ?r "replicate n ?r" "[]" hash] assms(2) sample_checked by simp
  have s: "enroll_step hash (?c 0 2) (?a 1 1)" "enroll_step hash (?a 1 1) (?a 0 2)"
    using admitted[of "?c 0 2" "[]" ?r "[]" "[(?r, [])]" hash] admitted[of "?a 1 1" "[]" ?r "[]" "[]" hash] assms(5)
    by (cases y; simp add: numeral_2_eq_2)+
  have "?v 0 = y" "?c 2 0 = ?v 2" using assms(3,4) by (cases y; simp)+
  then have "enroll_step hash y (?v 1)" "enroll_step hash (?v 1) (?c 2 0)" using v[of 0] v[of 1] by (simp_all add: numeral_2_eq_2)
  moreover have "enroll_step hash (?c 2 0) (?c 1 1)" "enroll_step hash (?c 1 1) (?c 0 2)"
    using c[of 1 0] c[of 0 1] by (simp_all add: numeral_2_eq_2)
  ultimately have "(enroll_step hash)\<^sup>*\<^sup>* y (?a 0 2)" using s by (meson converse_rtranclp_into_rtranclp rtranclp.rtrancl_refl)
  moreover have "?a 0 2 = y\<lparr>ys_server := (ys_server y)\<lparr>sv_invites := Some []\<rparr>, ys_admitted := [?r, ?r]\<rparr>"
    using assms(3,4) by (cases y) (simp add: numeral_2_eq_2)
  ultimately show ?thesis by simp
qed

lemma sample_persist:
  assumes "(enroll_step hash)\<^sup>*\<^sup>* y0 y" "ys_admitted y = req # rs" "hash token \<notin> hashes (store_view (ys_store y))"
    and "unat (next_node (ys_store y)) + 1 < 2 ^ 32"
  shows "\<exists>sv. (enroll_step hash)\<^sup>*\<^sup>* y0
      (y\<lparr>ys_server := sv, ys_admitted := rs, ys_persisted := (token, unat (next_node (ys_store y)), req) # ys_persisted y\<rparr>)
    \<and> sv_broker sv = sv_broker (ys_server y)
    \<and> store_view (sv_store sv) = (store_view (ys_store y))(unat (next_node (ys_store y)) \<mapsto> (er_name req, hash token))
    \<and> unat (next_node (sv_store sv)) = unat (next_node (ys_store y)) + 1"
proof -
  obtain k s' where n: "node_add (er_name req) (hash token) 0 (ys_store y) = (k, s')" by fastforce
  note v = node_add_view[OF n assms(4)]
  let ?sv = "(ys_server y)\<lparr>sv_store := s'\<rparr>"
  have p: "enroll_persist hash token 0 req (ys_server y) = (unat (next_node (ys_store y)), ?sv)"
    using n v(1) by (simp add: enroll_persist_def)
  have "ys_admitted y = [] @ req # rs" "hash token \<notin> hashes (store_view (ys_store y))" using assms(2,3) by simp_all
  from rtranclp.rtrancl_into_rtrancl[OF assms(1) persisted[OF this assms(4) p]] show ?thesis
    using v by (intro exI[of _ ?sv]) simp
qed

lemma sample_publish:
  assumes "(enroll_step hash)\<^sup>*\<^sup>* y0 y" "ys_persisted y = (token, i, req) # ps"
  shows "\<exists>sv. (enroll_step hash)\<^sup>*\<^sup>* y0 (y\<lparr>ys_server := sv, ys_persisted := ps, ys_enrolled := (token, i, er_name req) # ys_enrolled y\<rparr>)"
proof -
  have p: "ys_persisted y = [] @ (token, i, req) # ps" using assms(2) by simp
  have e: "enroll_publish hash token i req (ys_server y) =
      (EnrollResponse token (er_name req), on_registry (enroll_runtime i (er_name req) (hash token)) (ys_server y))"
    by (simp add: enroll_publish_def)
  from rtranclp.rtrancl_into_rtrancl[OF assms(1) published[OF p e]] show ?thesis by auto
qed

text \<open>Two requests for the same name and with the same invite, each admitted before the other is published.\<close>

lemma sample_begin_invited:
  "\<exists>y. api_reach id parse sample_lib y \<and> sv_invites (ys_server y) = sample_invites
     \<and> ys_validated y = [] \<and> ys_checked y = [] \<and> ys_admitted y = [] \<and> ys_persisted y = [] \<and> ys_enrolled y = []
     \<and> reg_nodes (sv_registry (ys_server y)) = Map.empty \<and> store_view (ys_store y) = Map.empty \<and> next_node (ys_store y) = 1"
proof -
  obtain y where y: "api_reach id parse sample_lib y"
    "ys_validated y = [] \<and> ys_checked y = [] \<and> ys_admitted y = [] \<and> ys_persisted y = [] \<and> ys_enrolled y = []
     \<and> reg_nodes (sv_registry (ys_server y)) = Map.empty \<and> store_view (ys_store y) = Map.empty \<and> next_node (ys_store y) = 1"
    using sample_begin by blast
  let ?y = "on_server (\<lambda>sv. sv\<lparr>sv_invites := sample_invites\<rparr>) y"
  have "api_reach id parse sample_lib ?y" by (rule reach_step[OF y(1) invited])
  then show ?thesis using y(2) by (intro exI[of _ ?y]) simp
qed

lemma sample_race_from:
  assumes "sv_invites (ys_server y0) = sample_invites" "ys_validated y0 = []" "ys_checked y0 = []" "ys_admitted y0 = []" "ys_persisted y0 = []"
    "ys_enrolled y0 = []" "reg_nodes (sv_registry (ys_server y0)) = Map.empty" "store_view (ys_store y0) = Map.empty" "next_node (ys_store y0) = 1"
    and "hash ''a'' \<noteq> hash ''b''"
  shows "\<exists>y. (enroll_step hash)\<^sup>*\<^sup>* y0 y \<and> ys_enrolled y = [(''a'', 1, ''bob''), (''b'', 2, ''bob'')]"
proof -
  let ?sv2 = "(ys_server y0)\<lparr>sv_invites := Some []\<rparr>"
  let ?y2 = "y0\<lparr>ys_server := ?sv2, ys_admitted := [sample_request ''A'', sample_request ''A'']\<rparr>"
  have 2: "(enroll_step hash)\<^sup>*\<^sup>* y0 ?y2" by (rule sample_admit_two) (use assms in simp_all)
  have f2: "hash ''a'' \<notin> hashes (store_view (ys_store ?y2))" "unat (next_node (ys_store ?y2)) + 1 < 2 ^ 32"
    using assms(8,9) by (simp_all add: hashes_def)
  obtain sv3 where 3: "(enroll_step hash)\<^sup>*\<^sup>* y0
      (?y2\<lparr>ys_server := sv3, ys_admitted := [sample_request ''A''], ys_persisted := [(''a'', 1, sample_request ''A'')]\<rparr>)"
    "store_view (sv_store sv3) = [1 \<mapsto> (''bob'', hash ''a'')]" "unat (next_node (sv_store sv3)) = 2"
    using sample_persist[OF 2 _ f2] assms(5,8,9) by auto
  let ?y3 = "?y2\<lparr>ys_server := sv3, ys_admitted := [sample_request ''A''], ys_persisted := [(''a'', 1, sample_request ''A'')]\<rparr>"
  have f3: "hash ''b'' \<notin> hashes (store_view (ys_store ?y3))" "unat (next_node (ys_store ?y3)) + 1 < 2 ^ 32"
    using 3(2,3) assms(10) by (auto simp: hashes_def split: if_splits)
  obtain sv4 where 4: "(enroll_step hash)\<^sup>*\<^sup>* y0
      (?y3\<lparr>ys_server := sv4, ys_admitted := [], ys_persisted := [(''b'', 2, sample_request ''A''), (''a'', 1, sample_request ''A'')]\<rparr>)"
    using sample_persist[OF 3(1) _ f3] 3(3) by auto
  let ?y4 = "?y3\<lparr>ys_server := sv4, ys_admitted := [], ys_persisted := [(''b'', 2, sample_request ''A''), (''a'', 1, sample_request ''A'')]\<rparr>"
  obtain sv5 where 5: "(enroll_step hash)\<^sup>*\<^sup>* y0
      (?y4\<lparr>ys_server := sv5, ys_persisted := [(''a'', 1, sample_request ''A'')], ys_enrolled := [(''b'', 2, ''bob'')]\<rparr>)"
    using sample_publish[OF 4] assms(6) by auto
  from sample_publish[OF 5] show ?thesis by force
qed

lemma sample_race_run:
  "\<exists>y y'. api_reach id parse sample_lib y \<and> sv_invites (ys_server y) = sample_invites \<and> ys_enrolled y = []
     \<and> (enroll_step id)\<^sup>*\<^sup>* y y' \<and> ys_enrolled y' = [(''a'', 1, ''bob''), (''b'', 2, ''bob'')]"
proof -
  obtain y where y: "api_reach id parse sample_lib y" "sv_invites (ys_server y) = sample_invites"
    "ys_validated y = []" "ys_checked y = []" "ys_admitted y = []" "ys_persisted y = []" "ys_enrolled y = []"
    "reg_nodes (sv_registry (ys_server y)) = Map.empty" "store_view (ys_store y) = Map.empty" "next_node (ys_store y) = 1"
    using sample_begin_invited by blast
  have "id ''a'' \<noteq> id ''b''" by simp
  from sample_race_from[OF y(2-10) this] y(1,2,7) show ?thesis by blast
qed

lemma sample_race:
  "\<exists>y. api_reach id parse sample_lib y \<and> ys_enrolled y = [(''a'', 1, ''bob''), (''b'', 2, ''bob'')]"
  using sample_race_run[of parse] enroll_reach by blast

lemma strip_prefixD: "strip_prefix p s = Some t \<Longrightarrow> s = p @ t"
  unfolding strip_prefix_def by (metis append_take_drop_id option.distinct(1) option.inject)

section \<open>Tokens\<close>

lemma reach_token:
  assumes "api_reach hash parse lib y" "(token, i, name) \<in> set (ys_enrolled y)"
  shows "auth hash token (sv_registry (ys_server y)) = Some i \<and> name_of fallback i (sv_registry (ys_server y)) = name"
proof -
  note I = api_reach_inv[OF assms(1), unfolded api_inv_def Let_def]
  have d: "(store_view (ys_store y) |` (- pending_ids y)) i = Some (name, hash token)" using I assms(2) by auto
  have s: "shows_nodes (sv_registry (ys_server y)) (store_view (ys_store y) |` (- pending_ids y))" using I by blast
  have "map_option nr_name (reg_nodes (sv_registry (ys_server y)) i) = Some name" using s d by (simp add: shows_nodes_def)
  moreover have "by_token_hash (sv_registry (ys_server y)) (hash token) = Some i" using s d unfolding shows_nodes_def by blast
  ultimately show ?thesis by (auto simp: auth_def name_of_def)
qed

lemma enroll_cases:
  assumes "set order = dom (reg_nodes (sv_registry sv))" "holds_invites (sv_invites sv) invs"
    and "unat (next_node (sv_store sv)) + 1 < 2 ^ 32"
  shows "let code = trim (er_invite_code req); token = generate_token random; i = unat (next_node (sv_store sv));
             (reply, sv') = api_enroll hash order random now h req sv
         in if check_proto h = None \<and> valid_name (er_name req)
               \<and> (\<nexists>j n. reg_nodes (sv_registry sv) j = Some n \<and> nr_name n = er_name req) \<and> code \<in> fst ` set invs
            then reply = EnrollResponse token (er_name req) \<and> auth hash token (sv_registry sv') = Some i
               \<and> holds_invites (sv_invites sv') (filter (\<lambda>x. fst x \<noteq> code) invs)
               \<and> node_view (t_nodes (st_durable (sv_store sv'))) = (store_view (sv_store sv))(i \<mapsto> (er_name req, hash token))
            else sv' = sv \<and> (\<exists>status. reply = Refused status \<and> status \<in> {400, 403, 409, 426})"
proof -
  have taken: "name_taken order (er_name req) (sv_registry sv) \<longleftrightarrow> (\<exists>j n. reg_nodes (sv_registry sv) j = Some n \<and> nr_name n = er_name req)"
    using assms(1) by (force simp: name_taken_def list_ex_iff split: option.splits)
  have proto: "check_proto h = None \<or> check_proto h = Some (Refused 426)" by (simp add: check_proto_def)
  obtain f where c: "invite_consume (er_invite_code req) (sv_invites sv) = (trim (er_invite_code req) \<in> fst ` set invs, f)"
    and f: "holds_invites f (filter (\<lambda>x. fst x \<noteq> trim (er_invite_code req)) invs)"
    "trim (er_invite_code req) \<notin> fst ` set invs \<Longrightarrow> f = sv_invites sv"
    using consume_holds[OF assms(2), of "er_invite_code req"] by blast
  let ?sv = "sv\<lparr>sv_invites := f\<rparr>"
  obtain k s' where n: "node_add (er_name req) (hash (generate_token random)) now (sv_store ?sv) = (k, s')" by fastforce
  have "unat (next_node (sv_store ?sv)) + 1 < 2 ^ 32" using assms(3) by simp
  note v = node_add_view[OF n this]
  have d: "t_nodes (st_durable s') = t_nodes (st_db s')" using v(4) by (simp add: nodes_part_def)
  let ?good = "check_proto h = None \<and> valid_name (er_name req)
    \<and> (\<nexists>j n. reg_nodes (sv_registry sv) j = Some n \<and> nr_name n = er_name req) \<and> trim (er_invite_code req) \<in> fst ` set invs"
  show ?thesis
  proof (cases ?good)
    case True
    then have "enroll_validate order h req sv = None" "invite_consume (er_invite_code req) (sv_invites sv) = (True, f)"
      using taken c by (simp_all add: enroll_validate_def)
    then have "api_enroll hash order random now h req sv = (EnrollResponse (generate_token random) (er_name req),
        on_registry (enroll_runtime (unat k) (er_name req) (hash (generate_token random))) (?sv\<lparr>sv_store := s'\<rparr>))"
      using n by (simp add: api_enroll_def enroll_invite_def enroll_persist_def enroll_publish_def Let_def)
    then show ?thesis using True f(1) v(1,2) d by (simp add: on_registry_def enroll_runtime_def auth_def Let_def)
  next
    case False
    have "\<exists>status. api_enroll hash order random now h req sv = (Refused status, sv) \<and> status \<in> {400, 403, 409, 426}"
    proof (cases "enroll_validate order h req sv")
      case None
      then have "trim (er_invite_code req) \<notin> fst ` set invs"
        using False taken by (auto simp: enroll_validate_def split: option.splits if_splits)
      then have "invite_consume (er_invite_code req) (sv_invites sv) = (False, sv_invites sv)" using c f(2) by simp
      then show ?thesis using None by (simp add: api_enroll_def enroll_invite_def)
    next
      case (Some r)
      then have "r \<in> {Refused 426, Refused 400, Refused 409}"
        using proto by (auto simp: enroll_validate_def split: option.splits if_splits)
      then show ?thesis using Some by (auto simp: api_enroll_def)
    qed
    then show ?thesis using False by (auto simp: Let_def)
  qed
qed

section \<open>Properties\<close>

text \<open>C13: A token that was handed out stays valid.  In every reachable state of the server, whatever enrolments are interleaved, whatever the nodes, the
  crawler and the background tasks do, and however often the process stops and starts again from its durable state, each token that
  an enrolment returned authenticates as the node it was made for, which has the name of the request.  The hypothesis of the steps is that a new
  token's hash is not the hash of a stored node's token.\<close>

theorem tokens_stay_valid:
  assumes "api_reach hash parse lib y" "(token, i, name) \<in> set (ys_enrolled y)"
  shows "auth hash token (sv_registry (ys_server y)) = Some i \<and> name_of fallback i (sv_registry (ys_server y)) = name"
  by (rule reach_token[OF assms])

theorem tokens_stay_valid_witness:
  "\<exists>y. api_reach id (\<lambda>_. Some ()) sample_lib y \<and> auth id ''a'' (sv_registry (ys_server y)) = Some 1
     \<and> auth id ''b'' (sv_registry (ys_server y)) = Some 2"
proof -
  obtain y where y: "api_reach id (\<lambda>_. Some ()) sample_lib y" "ys_enrolled y = [(''a'', 1, ''bob''), (''b'', 2, ''bob'')]"
    using sample_race by blast
  obtain sv where e: "server_start sample_lib ''data'' False 0 (st_durable (ys_store y)) (\<lambda>_. None) None = Inr sv" using sample_restart by blast
  let ?y = "drop_enrolments (y\<lparr>ys_server := sv\<rparr>)"
  have r: "api_reach id (\<lambda>_. Some ()) sample_lib ?y" by (rule reach_step[OF y(1) restarted[OF e]])
  show ?thesis using tokens_stay_valid[OF r, of "''a''" 1 "''bob''"] tokens_stay_valid[OF r, of "''b''" 2 "''bob''"] r y(2) by auto
qed

text \<open>Node names are not unique: the name is checked against the registry before the invite is used up and the node is published only after
  it is stored, so two enrolments that overlap can both get the same name, as two nodes.\<close>

theorem names_can_collide:
  "\<exists>y token1 token2 i j name. api_reach id (\<lambda>_. Some ()) sample_lib y \<and> (token1, i, name) \<in> set (ys_enrolled y)
     \<and> (token2, j, name) \<in> set (ys_enrolled y) \<and> i \<noteq> j"
proof -
  obtain y where y: "api_reach id (\<lambda>_. Some ()) sample_lib y" "ys_enrolled y = [(''a'', 1, ''bob''), (''b'', 2, ''bob'')]"
    using sample_race by blast
  then have "(''a'', 1, ''bob'') \<in> set (ys_enrolled y)" "(''b'', 2, ''bob'') \<in> set (ys_enrolled y)" "(1 :: nat) \<noteq> 2" by simp_all
  with y(1) show ?thesis by blast
qed

text \<open>An invite is not single use when enrolments overlap: \<^verbatim>\<open>consume\<close> reads the file and writes it back under no lock, so from a file with one open
  invite, and with nobody editing it, two requests with its code can both find it there and both be given a token, which then authenticate as two nodes.\<close>

theorem invite_used_twice:
  "\<exists>y y'. api_reach id (\<lambda>_. Some ()) sample_lib y \<and> holds_invites (sv_invites (ys_server y)) [(''A'', ''x'')] \<and> ys_enrolled y = []
     \<and> (enroll_step id)\<^sup>*\<^sup>* y y' \<and> auth id ''a'' (sv_registry (ys_server y')) = Some 1 \<and> auth id ''b'' (sv_registry (ys_server y')) = Some 2"
proof -
  have h: "holds_invites sample_invites [(''A'', ''x'')]"
    by (simp add: holds_invites_def clean_invite_def clean_code_def clean_label_def ALPHABET_def)
  obtain y y' where y: "api_reach id (\<lambda>_. Some ()) sample_lib y" "sv_invites (ys_server y) = sample_invites" "ys_enrolled y = []"
    "(enroll_step id)\<^sup>*\<^sup>* y y'" "ys_enrolled y' = [(''a'', 1, ''bob''), (''b'', 2, ''bob'')]"
    using sample_race_run[where parse = "\<lambda>_. Some ()"] by blast
  note r = reach_token[OF enroll_reach[OF y(1,4)]]
  show ?thesis using y h r[of "''a''" 1 "''bob''"] r[of "''b''" 2 "''bob''"] by (intro exI[of _ y] exI[of _ y']) simp
qed

text \<open>C16: An enrolment on its own succeeds exactly when the node speaks the protocol version, the name is well formed and free, and the invite code is
  open.  Then it uses up that invite and no other, stores the node durably under a new id, and the returned token authenticates as that id;
  otherwise it is refused and nothing changes.\<close>

theorem enroll_outcome:
  assumes "set order = dom (reg_nodes (sv_registry sv))" "holds_invites (sv_invites sv) invs"
    and "unat (next_node (sv_store sv)) + 1 < 2 ^ 32"
  shows "let code = trim (er_invite_code req); token = generate_token random; i = unat (next_node (sv_store sv));
             (reply, sv') = api_enroll hash order random now h req sv
         in if check_proto h = None \<and> valid_name (er_name req)
               \<and> (\<nexists>j n. reg_nodes (sv_registry sv) j = Some n \<and> nr_name n = er_name req) \<and> code \<in> fst ` set invs
            then reply = EnrollResponse token (er_name req) \<and> auth hash token (sv_registry sv') = Some i
               \<and> holds_invites (sv_invites sv') (filter (\<lambda>x. fst x \<noteq> code) invs)
               \<and> node_view (t_nodes (st_durable (sv_store sv'))) = (store_view (sv_store sv))(i \<mapsto> (er_name req, hash token))
            else sv' = sv \<and> (\<exists>status. reply = Refused status \<and> status \<in> {400, 403, 409, 426})"
  by (rule enroll_cases[OF assms])

theorem enroll_outcome_witness:
  "\<exists>sv reply sv'. api_enroll id [] [0, 255] 0 \<lparr>hd_proto = Some ''1'', hd_authorization = None\<rparr> (sample_request ''A'') sv = (reply, sv')
     \<and> reply = EnrollResponse ''00ff'' ''bob'' \<and> auth id ''00ff'' (sv_registry sv') = Some 1"
proof -
  obtain y where y: "reg_nodes (sv_registry (ys_server y)) = Map.empty" "next_node (ys_store y) = 1"
    using sample_begin[where parse = "\<lambda>_. Some ()"] by blast
  let ?sv = "(ys_server y)\<lparr>sv_invites := Some (invite_file [(''A'', ''x'')])\<rparr>" and ?h = "\<lparr>hd_proto = Some ''1'', hd_authorization = None\<rparr>"
  have h: "set [] = dom (reg_nodes (sv_registry ?sv))" "holds_invites (sv_invites ?sv) [(''A'', ''x'')]" "unat (next_node (sv_store ?sv)) + 1 < 2 ^ 32"
    using y by (simp_all add: holds_invites_def clean_invite_def clean_code_def clean_label_def ALPHABET_def)
  have g: "generate_token [0, 255] = ''00ff''" "check_proto ?h = None" "valid_name ''bob''" "trim ''A'' = ''A''"
    by (simp_all add: generate_token_def hex_byte_def check_proto_def parse_uint_def is_digit_def PROTOCOL_VERSION_def valid_name_def
        trim_def is_space_def Let_def)
  obtain reply sv' where e: "api_enroll id [] [0, 255] 0 ?h (sample_request ''A'') ?sv = (reply, sv')" by fastforce
  from enroll_outcome[OF h, of "sample_request ''A''" "[0, 255]" id 0 ?h] have "reply = EnrollResponse ''00ff'' ''bob'' \<and> auth id ''00ff'' (sv_registry sv') = Some 1"
    using y by (simp add: e g Let_def)
  with e show ?thesis by blast
qed

text \<open>A request without the right protocol version or without the token of a known node gets no work, delivers no result and sees no statistics:
  it is refused with 426 or 401 and leaves the server as it was.\<close>

lemma strangers_refused:
  assumes "check_proto h \<noteq> None \<or> (\<nexists>token i. hd_authorization h = Some (''Bearer '' @ token) \<and> auth hash token (sv_registry sv) = Some i)"
  shows "\<exists>status. status \<in> {401, 426} \<and> api_work hash now ios h req sv = Some (Refused status, sv)
    \<and> api_result hash parse now now_ms h res sv = (Refused status, sv)
    \<and> api_stats hash fallback order1 order2 now now_ms h sv = (Refused status, sv)"
proof (cases "check_proto h")
  case (Some r)
  then have "r = Refused 426" by (auto simp: check_proto_def split: if_splits)
  then show ?thesis using Some by (simp add: api_work_def api_result_def api_stats_def)
next
  case None
  have "api_auth hash h (sv_registry sv) = Inl (Refused 401)"
  proof (cases "Option.bind (hd_authorization h) (strip_prefix ''Bearer '')")
    case (Some token)
    then have "hd_authorization h = Some (''Bearer '' @ token)" by (auto simp: bind_eq_Some_conv dest: strip_prefixD)
    then have "auth hash token (sv_registry sv) = None" using assms None by auto
    then show ?thesis using Some by (simp add: api_auth_def)
  qed (simp add: api_auth_def)
  then show ?thesis using None by (simp add: api_work_def api_result_def api_stats_def)
qed

lemma strangers_refused_witness:
  "\<exists>sv status. status \<in> {401, 426} \<and> api_work id 0 [] \<lparr>hd_proto = Some ''1'', hd_authorization = Some ''Bearer x''\<rparr>
     \<lparr>wr_pending = Map.empty, wr_wait_ms = 0\<rparr> sv = Some (Refused status, sv)"
proof -
  obtain s where "open_store sample_lib ''data'' empty_tables (\<lambda>_. None) = Inr s" using sample_open by blast
  let ?sv = "\<lparr>sv_broker = broker_new registry_new Map.empty, sv_store = s, sv_invites = None\<rparr>"
  have "auth id token (sv_registry ?sv) = None" for token by (simp add: auth_def broker_new_def registry_new_def)
  then show ?thesis
    using strangers_refused[of "\<lparr>hd_proto = Some ''1'', hd_authorization = Some ''Bearer x''\<rparr>" id ?sv 0 "[]" "\<lparr>wr_pending = Map.empty, wr_wait_ms = 0\<rparr>"]
    by (metis option.distinct(1))
qed

end
