(* ===== verification/Node_Cli_Props.thy ===== *)
theory Node_Cli_Props
  imports Node_Cli Api_Props
begin

text \<open>
  The command line against the rest of the system: an enrolment that the server grants leaves a configuration from which the node starts
  again and whose requests the server accepts; a new key written by \<^verbatim>\<open>set-key\<close> resumes a paused node; and a rejection that comes in
  late pauses it again.
\<close>

section \<open>The enrolment over the wire\<close>

text \<open>The reply of the handler as the client sees it: a refusal carries its status and a message.\<close>

definition enroll_wire :: "(nat \<Rightarrow> string) \<Rightarrow> api_reply \<Rightarrow> enroll_response http_reply option" where
  "enroll_wire message r =
     (case r of
        EnrollResponse token name \<Rightarrow>
          Some \<lparr>rp_status = 200, rp_value = Some \<lparr>es_token = token, es_name = name\<rparr>, rp_message = None\<rparr>
      | Refused status \<Rightarrow> Some \<lparr>rp_status = status, rp_value = None, rp_message = Some (message status)\<rparr>
      | _ \<Rightarrow> None)"

definition enroll_network ::
  "string \<Rightarrow> (nat \<Rightarrow> string) \<Rightarrow> (headers \<Rightarrow> enroll_request \<Rightarrow> api_reply) \<Rightarrow> (enroll_request, enroll_response) network" where
  "enroll_network base message handler post =
     (if hp_url post = base @ ''/v1/enroll'' then enroll_wire message (handler (hp_headers post) (hp_body post)) else None)"

definition json_ok :: "node_io \<Rightarrow> bool" where
  "json_ok io \<longleftrightarrow> (\<forall>cfg. io_from_json io (io_to_json io cfg) = Some cfg)"

lemma proto_accepted [simp]: "check_proto (proto_headers bearer) = None"
proof -
  have "show_nat PROTOCOL_VERSION = ''1''" by (simp add: PROTOCOL_VERSION_def show_nat.simps[of "Suc 0"] digit_char_def)
  then show ?thesis by (simp add: check_proto_def proto_headers_def parse_uint_def is_digit_def PROTOCOL_VERSION_def)
qed

lemma bearer_accepted: "auth hash token r = Some i \<Longrightarrow> api_auth hash (proto_headers (Some token)) r = Inr i"
  by (simp add: api_auth_def proto_headers_def strip_prefix_def)

lemma config_roundtrip: "json_ok io \<Longrightarrow> config_load (io_from_json io) path (config_save (io_to_json io) path now cfg d) = Inr (Some cfg)"
  by (simp add: config_load_def config_save_def json_ok_def)

lemma fresh_after_save: "json_ok io \<Longrightarrow> fresh_key (io_from_json io) path (config_save (io_to_json io) path now cfg d) = Some (nc_riot_api_key cfg)"
  by (simp add: fresh_key_def config_roundtrip)

lemma mtime_after_save [simp]: "config_mtime path (config_save to_json path now cfg d) = Some now"
  by (simp add: config_mtime_def config_save_def)

lemma main_without_args:
  assumes "config_load (io_from_json io) (default_path (io_config_dir io)) d = Inr (Some cfg)"
  shows "node_main io [] d = (RunLoop cfg (default_path (io_config_dir io)), d)"
  using assms by (simp add: node_main_def parse_args_def cli_run_def)

lemma main_first_run:
  assumes "d (default_path (io_config_dir io)) = None"
  shows "node_main io [''--server'', server] d =
    (case cli_enroll io server (default_path (io_config_dir io)) d of
       (Inl e, d') \<Rightarrow> (ExitError e, d') | (Inr cfg, d') \<Rightarrow> (RunLoop cfg (default_path (io_config_dir io)), d'))"
  using assms by (simp add: node_main_def parse_args_def cli_run_def config_load_def Let_def)

section \<open>Failing commands\<close>

text \<open>A command that fails leaves the disk as it was, and no command touches another file than its configuration.\<close>

lemma failed_command_writes_nothing:
  assumes "node_main io argv d = (ExitError e, d')"
  shows "d' = d"
  using assms
  by (auto simp: node_main_def cli_set_key_def cli_run_def cli_enroll_def Let_def
      split: sum.splits parsed_args.splits option.splits if_splits prod.splits)

section \<open>Paused nodes\<close>

lemma refreshed:
  assumes "ex_key_bad (wk_executor w)" "\<not> lp_stopped io" "\<not> lp_pause_stopped io" "wk_key_mtime w \<noteq> config_mtime path d"
    and "fresh_key from_json path d = Some key"
  shows "fst (paused_pass from_json path d io w) = Continue"
    and "wk_executor (snd (paused_pass from_json path d io w)) = set_api_key key (wk_executor w)"
    and "wk_key_mtime (snd (paused_pass from_json path d io w)) = config_mtime path d"
    and "\<not> nh_key_bad (wk_handle (snd (paused_pass from_json path d io w)))"
    and "last (nh_events (wk_handle (snd (paused_pass from_json path d io w)))) = KeyOk"
    and "wk_tasks (snd (paused_pass from_json path d io w)) = wk_tasks w"
  using assms by (auto simp: paused_pass_def loop_pass_def refresh_key_def announce_pause_def on_handle_def emit_def Let_def)

lemma still_paused:
  assumes "ex_key_bad (wk_executor w)" "wk_key_mtime w = config_mtime path d"
  shows "wk_executor (snd (paused_pass from_json path d io w)) = wk_executor w
    \<and> wk_key_mtime (snd (paused_pass from_json path d io w)) = config_mtime path d"
  using assms by (auto simp: paused_pass_def loop_pass_def refresh_key_def announce_pause_def on_handle_def Let_def)

lemma stays_paused:
  assumes "ex_key_bad (wk_executor w)" "wk_key_mtime w = config_mtime path d"
  shows "wk_executor (fold (\<lambda>io w. snd (paused_pass from_json path d io w)) ios w) = wk_executor w"
  using assms
proof (induction ios arbitrary: w)
  case (Cons io ios)
  note s = still_paused[OF Cons.prems, of from_json io]
  then show ?case using Cons.IH[of "snd (paused_pass from_json path d io w)"] Cons.prems by simp
qed simp

section \<open>A sample setting\<close>

text \<open>A text form of configurations that reads back, in place of serde's.\<close>

definition sample_field :: "string \<Rightarrow> string" where
  "sample_field v = concat (map (\<lambda>c. [CHR ''-'', c]) v) @ ''.''"

fun sample_read :: "string \<Rightarrow> (string \<times> string) option" where
  "sample_read [] = None"
| "sample_read (x # xs) =
     (if x = CHR ''.'' then Some ([], xs)
      else case xs of [] \<Rightarrow> None | c # ys \<Rightarrow> map_option (apfst (Cons c)) (sample_read ys))"

definition sample_to_json :: "node_config \<Rightarrow> string" where
  "sample_to_json c = sample_field (nc_server c) @ sample_field (nc_name c) @ sample_field (nc_token c) @ sample_field (nc_riot_api_key c)"

definition sample_from_json :: "string \<Rightarrow> node_config option" where
  "sample_from_json s =
     Option.bind (sample_read s) (\<lambda>(a, s). Option.bind (sample_read s) (\<lambda>(b, s). Option.bind (sample_read s) (\<lambda>(c, s).
     Option.bind (sample_read s) (\<lambda>(k, s). Some \<lparr>nc_server = a, nc_name = b, nc_token = c, nc_riot_api_key = k\<rparr>))))"

definition sample_io :: "(enroll_request, enroll_response) network \<Rightarrow> nat \<Rightarrow> node_io" where
  "sample_io net now = \<lparr>io_config_dir = None, io_user = None, io_prompts = \<lparr>pr_name = ''bob'', pr_invite = ''A'', pr_key = ''K2''\<rparr>,
     io_now = now, io_net = net, io_status_text = (\<lambda>_. []), io_to_json = sample_to_json, io_from_json = sample_from_json\<rparr>"

lemma sample_read_field: "sample_read (sample_field v @ rest) = Some (v, rest)"
  by (induction v) (simp_all add: sample_field_def)

lemma sample_json: "json_ok (sample_io net now)"
  by (simp add: json_ok_def sample_io_def sample_from_json_def sample_to_json_def sample_read_field
      sample_read_field[where rest = "[]", simplified])

definition sample_paused :: worker where
  "sample_paused = (worker_new ''K1'' (Some 1) node_handle_new)\<lparr>wk_executor := (executor_new ''K1'')\<lparr>ex_key_bad := True\<rparr>\<rparr>"

definition sample_loop_io :: loop_io where
  "sample_loop_io = \<lparr>lp_stopped = False, lp_pause_stopped = False, lp_mtime = None, lp_fresh_key = None, lp_reply = (\<lambda>_. PollJobs []),
     lp_sleep_stopped = False\<rparr>"

definition sample_config :: node_config where
  "sample_config = \<lparr>nc_server = ''http://s'', nc_name = ''bob'', nc_token = ''t'', nc_riot_api_key = ''K1''\<rparr>"

definition sample_late :: job where
  "sample_late = \<lparr>job_id = 1, job_host = ''euw1'', job_method = ''m'', job_path = ''/p'', job_lease_ms = 150000\<rparr>"

section \<open>First run\<close>

text \<open>A first run that the server grants makes a working node.  Against the server's own handler, \<^verbatim>\<open>crawler-node --server\<close> with a free and well-formed name
  and an open invite code starts the work loop with the token of the new node; started again without arguments, the program
  reads the same configuration from disk; and the requests the client then sends pass the protocol check and authenticate as the node.\<close>

lemma first_run_makes_a_node:
  assumes "json_ok io" "d (default_path (io_config_dir io)) = None"
    and "io_net io = enroll_network (trim_end (CHR ''/'') server) message (\<lambda>h req. fst (api_enroll hash order random now h req sv))"
    and "set order = dom (reg_nodes (sv_registry sv))" "holds_invites (sv_invites sv) invs" "unat (next_node (sv_store sv)) + 1 < 2 ^ 32"
    and "name = trim (pr_name (io_prompts io))" "code = trim (pr_invite (io_prompts io))"
    and "valid_name name" "\<nexists>j n. reg_nodes (sv_registry sv) j = Some n \<and> nr_name n = name" "trim code \<in> fst ` set invs"
    and "req = \<lparr>er_invite_code = code, er_name = name\<rparr>"
  shows "\<exists>cfg d'. let path = default_path (io_config_dir io); sv' = snd (api_enroll hash order random now (proto_headers None) req sv);
      client = server_client_new (nc_server cfg) (nc_token cfg); h = proto_headers (Some (sc_token client))
    in node_main io [''--server'', server] d = (RunLoop cfg path, d') \<and> nc_name cfg = name
     \<and> nc_riot_api_key cfg = trim (pr_key (io_prompts io)) \<and> node_main io [] d' = (RunLoop cfg path, d')
     \<and> check_proto h = None \<and> api_auth hash h (sv_registry sv') = Inr (unat (next_node (sv_store sv)))"
proof -
  let ?path = "default_path (io_config_dir io)" and ?tok = "generate_token random"
  have e: "fst (api_enroll hash order random now (proto_headers None) req sv) = EnrollResponse ?tok name"
    and a: "auth hash ?tok (sv_registry (snd (api_enroll hash order random now (proto_headers None) req sv))) = Some (unat (next_node (sv_store sv)))"
    using enroll_cases[OF assms(4-6), of req random hash now "proto_headers None"] assms(9-12) by (auto simp: Let_def split: prod.splits)
  let ?cfg = "\<lparr>nc_server = trim_end (CHR ''/'') server, nc_name = name, nc_token = ?tok, nc_riot_api_key = trim (pr_key (io_prompts io))\<rparr>"
  let ?d = "config_save (io_to_json io) ?path (io_now io) ?cfg d"
  have "name \<noteq> []" using assms(9) by (auto simp: valid_name_def)
  then have "cli_enroll io server ?path d = (Inr ?cfg, ?d)"
    using e assms(3,7,8,12) by (simp add: cli_enroll_def enroll_call_def enroll_network_def enroll_wire_def Let_def)
  then have m: "node_main io [''--server'', server] d = (RunLoop ?cfg ?path, ?d)" using main_first_run[of d io server, OF assms(2)] by simp
  have r: "node_main io [] ?d = (RunLoop ?cfg ?path, ?d)" by (rule main_without_args[OF config_roundtrip[OF assms(1)]])
  have "api_auth hash (proto_headers (Some ?tok)) (sv_registry (snd (api_enroll hash order random now (proto_headers None) req sv)))
      = Inr (unat (next_node (sv_store sv)))" by (rule bearer_accepted[OF a])
  with m r show ?thesis by (intro exI[of _ ?cfg] exI[of _ ?d]) (simp add: server_client_new_def Let_def)
qed

section \<open>Properties\<close>

text \<open>C20: \<^verbatim>\<open>set-key\<close> resumes a paused node: the next pass of a loop that waits for a key, when it is not told to stop, reads the key that was typed in,
  clears the rejection and tells the frontend, and keeps the jobs it holds; the pass after it polls for work again.  Times of modification differ.\<close>

theorem set_key_resumes:
  assumes "json_ok io" "config_load (io_from_json io) path d = Inr (Some cfg)"
    and "node_main io [''--config'', path, ''set-key''] d = (r, d')"
    and "ex_key_bad (wk_executor w)" "\<not> lp_stopped p" "\<not> lp_pause_stopped p" "wk_key_mtime w \<noteq> Some (io_now io)"
    and "paused_pass (io_from_json io) path d' p w = (next, w')" "\<not> lp_stopped q"
  shows "r = ExitOk \<and> next = Continue \<and> ex_api_key (wk_executor w') = trim (pr_key (io_prompts io)) \<and> \<not> ex_key_bad (wk_executor w')
    \<and> \<not> nh_key_bad (wk_handle w') \<and> last (nh_events (wk_handle w')) = KeyOk \<and> wk_tasks w' = wk_tasks w
    \<and> loop_pass q w' = (case lp_reply q (pending_of (wk_inflight w')) of
          PollStopped \<Rightarrow> (Break, w')
        | PollJobs js \<Rightarrow> (if lp_sleep_stopped q then Break else Continue, poll_ok js w')
        | PollMismatch message \<Rightarrow> (Fatal, poll_mismatch message w')
        | PollError \<Rightarrow> (if lp_sleep_stopped q then Break else Continue, poll_failed w'))"
proof -
  let ?cfg = "cfg\<lparr>nc_riot_api_key := trim (pr_key (io_prompts io))\<rparr>"
  have d: "r = ExitOk" "d' = config_save (io_to_json io) path (io_now io) ?cfg d"
    using assms(2,3) by (simp_all add: node_main_def parse_args_def cli_set_key_def Let_def)
  have "fresh_key (io_from_json io) path d' = Some (trim (pr_key (io_prompts io)))"
    using fresh_after_save[OF assms(1), of path "io_now io" ?cfg d] by (simp add: d(2))
  note f = refreshed[OF assms(4-6) _ this]
  have "wk_key_mtime w \<noteq> config_mtime path d'" using assms(7) by (simp add: d(2))
  from f[OF this] have w: "next = Continue" "wk_executor w' = set_api_key (trim (pr_key (io_prompts io))) (wk_executor w)"
    "\<not> nh_key_bad (wk_handle w')" "last (nh_events (wk_handle w')) = KeyOk" "wk_tasks w' = wk_tasks w" using assms(8) by simp_all
  then have "\<not> ex_key_bad (wk_executor w')" by (simp add: set_api_key_def)
  then show ?thesis using w d(1) assms(9) by (simp add: set_api_key_def loop_pass_def)
qed

theorem set_key_resumes_witness:
  "let d = [''c'' \<mapsto> (Some (sample_to_json sample_config), 1)]; io = sample_io (\<lambda>_. None) 5;
       d' = snd (node_main io [''--config'', ''c'', ''set-key''] d)
   in ex_api_key (wk_executor (snd (paused_pass sample_from_json ''c'' d' sample_loop_io sample_paused))) = ''K2''"
proof -
  let ?d = "[''c'' \<mapsto> (Some (sample_to_json sample_config), 1)]" and ?io = "sample_io (\<lambda>_. None) 5"
  let ?r = "node_main ?io [''--config'', ''c'', ''set-key''] ?d"
  have j: "io_from_json ?io = sample_from_json" "pr_key (io_prompts ?io) = ''K2''" "io_now ?io = 5" by (simp_all add: sample_io_def)
  have "sample_from_json (sample_to_json sample_config) = Some sample_config"
    using sample_json[of "\<lambda>_. None" 5] by (simp add: json_ok_def sample_io_def)
  then have c: "config_load (io_from_json ?io) ''c'' ?d = Inr (Some sample_config)" by (simp add: config_load_def j)
  have w: "ex_key_bad (wk_executor sample_paused)" "\<not> lp_stopped sample_loop_io" "\<not> lp_pause_stopped sample_loop_io"
    "wk_key_mtime sample_paused \<noteq> Some (io_now ?io)"
    by (simp_all add: sample_paused_def sample_loop_io_def worker_new_def j)
  have "trim ''K2'' = ''K2''" by (simp add: trim_def is_space_def)
  then show ?thesis
    using set_key_resumes[OF sample_json c prod.collapse[symmetric, of ?r] w prod.collapse[symmetric, of "paused_pass (io_from_json ?io) ''c'' (snd ?r) sample_loop_io sample_paused"] w(2)]
    by (simp add: j Let_def)
qed

text \<open>C36: A late rejection of the old key stops the node for good.  After a paused node has read its new key, a response 401 or 403 to a request that was sent with
  the old key sets the flag again, because the executor does not compare keys; the file's modification time is then the one already seen, so
  however many passes follow, the node stays paused, holding the new key, until the file is written once more.\<close>

theorem late_rejection_pauses_again:
  assumes "ex_key_bad (wk_executor w)" "\<not> lp_stopped p" "\<not> lp_pause_stopped p" "wk_key_mtime w \<noteq> config_mtime path d"
    and "fresh_key from_json path d = Some key" "hr_status resp \<in> {401, 403}"
  shows "let w1 = snd (paused_pass from_json path d p w);
      w2 = w1\<lparr>wk_executor := snd (handle_response job tries now (Some resp) (wk_executor w1))\<rparr>;
      w3 = fold (\<lambda>io w. snd (paused_pass from_json path d io w)) ios w2
    in \<not> ex_key_bad (wk_executor w1) \<and> ex_api_key (wk_executor w1) = key
     \<and> ex_key_bad (wk_executor w3) \<and> ex_api_key (wk_executor w3) = key"
proof -
  let ?w1 = "snd (paused_pass from_json path d p w)"
  let ?ex = "snd (handle_response job tries now (Some resp) (wk_executor ?w1))"
  note f = refreshed[OF assms(1-5)]
  have keep: "ex_api_key (adopt_limits job resp ex) = ex_api_key ex" for ex
    by (auto simp: adopt_limits_def on_app_def on_method_def set_app_def set_method_def Let_def split: option.splits)
  have "hr_status resp = 401 \<or> hr_status resp = 403" using assms(6) by auto
  then have ex: "ex_key_bad ?ex" "ex_api_key ?ex = ex_api_key (wk_executor ?w1)"
    using keep by (auto simp: handle_response_def Let_def)
  have "wk_executor (fold (\<lambda>io w. snd (paused_pass from_json path d io w)) ios (?w1\<lparr>wk_executor := ?ex\<rparr>)) = ?ex"
    using stays_paused[of "?w1\<lparr>wk_executor := ?ex\<rparr>" path d from_json ios] ex(1) f(3) by simp
  then show ?thesis using ex f(2) by (simp add: set_api_key_def Let_def)
qed

theorem late_rejection_pauses_again_witness:
  "let d = [''c'' \<mapsto> (Some (sample_to_json sample_config), 7)]; w1 = snd (paused_pass sample_from_json ''c'' d sample_loop_io sample_paused);
       resp = \<lparr>hr_status = 403, hr_app_limit = None, hr_method_limit = None, hr_retry_after = None, hr_limit_type = None, hr_body = None\<rparr>;
       job = sample_late
   in \<not> ex_key_bad (wk_executor w1) \<and> ex_key_bad (wk_executor (fold (\<lambda>io w. snd (paused_pass sample_from_json ''c'' d io w))
        [sample_loop_io, sample_loop_io] (w1\<lparr>wk_executor := snd (handle_response job 1 0 (Some resp) (wk_executor w1))\<rparr>)))"
proof -
  let ?d = "[''c'' \<mapsto> (Some (sample_to_json sample_config), 7)]"
  have "sample_from_json (sample_to_json sample_config) = Some sample_config"
    using sample_json[of "\<lambda>_. None" 5] by (simp add: json_ok_def sample_io_def)
  then have f: "fresh_key sample_from_json ''c'' ?d = Some ''K1''" by (simp add: fresh_key_def config_load_def sample_config_def)
  have w: "ex_key_bad (wk_executor sample_paused)" "\<not> lp_stopped sample_loop_io" "\<not> lp_pause_stopped sample_loop_io"
    "wk_key_mtime sample_paused \<noteq> config_mtime ''c'' ?d"
    by (simp_all add: sample_paused_def sample_loop_io_def worker_new_def config_mtime_def)
  show ?thesis
    using late_rejection_pauses_again[OF w f, of "\<lparr>hr_status = 403, hr_app_limit = None, hr_method_limit = None, hr_retry_after = None, hr_limit_type = None, hr_body = None\<rparr>"
        sample_late 1 0 "[sample_loop_io, sample_loop_io]"]
    by (simp add: Let_def)
qed

end
