(* ===== verification/Mock.thy ===== *)
theory Mock
  imports Worker
begin

text \<open>
  The mock node of the desktop application (\<^verbatim>\<open>crates/desktop/src/mock.rs\<close>): its random generator, the choice of fake traffic, the life of a fake
  job and the scripted loop, on the same handle as the real work loop.

  Clock readings, what the stop channel says and when a key arrives are arguments.  A fake job is the list of its stages; every stage is the
  code between two sleeps, and the stages of different jobs may run in any order.
\<close>

unbundle bit_operations_syntax

section \<open>Random numbers\<close>

definition rng_seeded :: "u64 \<Rightarrow> u64" where
  "rng_seeded nanos = nanos OR 1"

definition rng_next :: "u64 \<Rightarrow> u64 \<times> u64" where
  "rng_next x =
     (let x = x XOR drop_bit 12 x;
          x = x XOR push_bit 25 x;
          x = x XOR drop_bit 27 x
      in (x * 0x2545F4914F6CDD1D, x))"

definition rng_below :: "u64 \<Rightarrow> u64 \<Rightarrow> u64 \<times> u64" where
  "rng_below n x = (case rng_next x of (v, x) \<Rightarrow> (v mod n, x))"

definition rng_ms :: "u64 \<Rightarrow> u64 \<Rightarrow> u64 \<Rightarrow> u64 \<times> u64" where
  "rng_ms lo hi x = (case rng_below (hi - lo) x of (v, x) \<Rightarrow> (lo + v, x))"

section \<open>Traffic\<close>

definition TRAFFIC :: "(string \<times> string \<times> u64) list" where
  "TRAFFIC =
     [(''europe'', ''match-v5.match'', 30), (''americas'', ''match-v5.match'', 22), (''asia'', ''match-v5.match'', 16),
      (''sea'', ''match-v5.match'', 8), (''europe'', ''match-v5.matchlist'', 6), (''americas'', ''match-v5.matchlist'', 4),
      (''euw1'', ''league-v4.entries'', 5), (''na1'', ''league-v4.entries'', 4), (''kr'', ''league-v4.entries'', 3),
      (''euw1'', ''summoner-v4.by-puuid'', 2)]"

text \<open>\<open>None\<close> is the \<^verbatim>\<open>unreachable!\<close> at the end of the loop.\<close>

fun pick_entry :: "(string \<times> string \<times> u64) list \<Rightarrow> u64 \<Rightarrow> (string \<times> string) option" where
  "pick_entry [] draw = None"
| "pick_entry ((host, method, w) # ts) draw = (if draw < w then Some (host, method) else pick_entry ts (draw - w))"

definition pick_traffic :: "u64 \<Rightarrow> (string \<times> string) option \<times> u64" where
  "pick_traffic x =
     (let weights = sum_list (map (\<lambda>(_, _, w). w) TRAFFIC)
      in case rng_below weights x of (draw, x) \<Rightarrow> (pick_entry TRAFFIC draw, x))"

section \<open>Fake jobs\<close>

definition fake_outcome :: "u64 \<Rightarrow> string" where
  "fake_outcome draw = (if draw < 91 then ''ok'' else if draw < 97 then ''not_found'' else ''failed'')"

definition fake_done :: "nat \<Rightarrow> string \<Rightarrow> string \<Rightarrow> string \<Rightarrow> nat \<Rightarrow> node_handle \<Rightarrow> node_handle" where
  "fake_done i host method result ms h =
     (let is_match = (method = ''match-v5.match'' \<and> result = ''ok'')
      in emit (JobDone i host method result ms) (job_finished host is_match h))"

datatype stage = Announce node_event | Finish nat string string string nat

fun run_stage :: "stage \<Rightarrow> node_handle \<Rightarrow> node_handle" where
  "run_stage (Announce ev) h = emit ev h"
| "run_stage (Finish i host method result ms) h = fake_done i host method result ms h"

text \<open>The stages of a job and the milliseconds slept after each; no job when the traffic could not be picked.\<close>

definition fake_job :: "nat \<Rightarrow> u64 \<Rightarrow> (stage list \<times> nat list) option" where
  "fake_job i seed =
     (case pick_traffic (seed OR 1) of
        (None, _) \<Rightarrow> None
      | (Some (host, method), x) \<Rightarrow>
          (case rng_ms 300 2600 x of (queue_ms, x) \<Rightarrow>
           case rng_ms 120 900 x of (ms, x) \<Rightarrow>
           case rng_below 100 x of (draw, x) \<Rightarrow>
           case rng_ms 150 700 x of (up_ms, x) \<Rightarrow>
             Some ([Announce (JobStarted i host method), Announce (JobActive i),
                    Finish i host method (fake_outcome draw) (unat ms), Announce (JobUploaded i)],
                   [unat queue_ms, unat ms, unat up_ms])))"

section \<open>The loop\<close>

record mock_state =
  mk_handle :: node_handle
  mk_rng :: u64
  mk_next_id :: nat
  mk_next_blip :: nat
  mk_key_demo_done :: bool
  mk_jobs :: "(nat \<times> stage list) list"

definition on_mock :: "(node_handle \<Rightarrow> node_handle) \<Rightarrow> mock_state \<Rightarrow> mock_state" where
  "on_mock f m = m\<lparr>mk_handle := f (mk_handle m)\<rparr>"

definition connect :: "mock_state \<Rightarrow> mock_state" where
  "connect m = on_mock (\<lambda>h. emit Connected (h\<lparr>nh_connected := True\<rparr>)) m"

definition disconnect :: "mock_state \<Rightarrow> mock_state" where
  "disconnect m = on_mock (\<lambda>h. emit Disconnected (h\<lparr>nh_connected := False\<rparr>)) m"

definition mock_finish :: "mock_state \<Rightarrow> mock_state" where
  "mock_finish m = on_mock (\<lambda>h. emit Stopped (h\<lparr>nh_connected := False\<rparr>)) m"

text \<open>Before the loop, 1200 milliseconds may be cut short by a stop.\<close>

definition mock_begin :: "u64 \<Rightarrow> bool \<Rightarrow> node_handle \<Rightarrow> loop_end \<times> mock_state" where
  "mock_begin nanos stopped h =
     (let m = \<lparr>mk_handle = h, mk_rng = rng_seeded nanos, mk_next_id = 1, mk_next_blip = 90, mk_key_demo_done = False, mk_jobs = []\<rparr>
      in if stopped then (Break, mock_finish m) else (Continue, connect m))"

record mock_io =
  mi_stopped :: bool
  mi_elapsed :: nat
  mi_key_stopped :: bool
  mi_blip_stopped :: bool

definition spawn_job :: "mock_state \<Rightarrow> mock_state" where
  "spawn_job m =
     (case rng_next (mk_rng m) of (seed, x) \<Rightarrow>
        m\<lparr>mk_rng := x, mk_next_id := mk_next_id m + 1,
          mk_jobs := mk_jobs m @ (case fake_job (mk_next_id m) seed of Some (stages, _) \<Rightarrow> [(mk_next_id m, stages)] | None \<Rightarrow> [])\<rparr>)"

definition spawn_batch :: "mock_state \<Rightarrow> mock_state" where
  "spawn_batch m =
     (case rng_below 3 (mk_rng m) of (n, x) \<Rightarrow> (spawn_job ^^ (1 + unat n)) (m\<lparr>mk_rng := x\<rparr>))"

definition key_demo :: "bool \<Rightarrow> mock_state \<Rightarrow> loop_end \<times> mock_state" where
  "key_demo stopped m =
     (let m = on_mock (\<lambda>h. emit KeyBad (h\<lparr>nh_key_bad := True\<rparr>)) (m\<lparr>mk_key_demo_done := True\<rparr>)
      in if stopped then (Break, m) else (Continue, on_mock (\<lambda>h. emit KeyOk (h\<lparr>nh_key_bad := False\<rparr>)) m))"

definition mock_pass :: "mock_io \<Rightarrow> mock_state \<Rightarrow> loop_end \<times> mock_state" where
  "mock_pass io m =
     (let m = m\<lparr>mk_rng := snd (rng_ms 350 1100 (mk_rng m))\<rparr> in
      if mi_stopped io then (Break, m)
      else if \<not> mk_key_demo_done m \<and> mi_elapsed io \<ge> 150 then key_demo (mi_key_stopped io) m
      else if mi_elapsed io \<ge> mk_next_blip m then
        let m = disconnect (m\<lparr>mk_next_blip := mi_elapsed io + 90\<rparr>) in
        if mi_blip_stopped io then (Break, m) else (Continue, spawn_batch (connect m))
      else (Continue, spawn_batch m))"

section \<open>Statistics\<close>

definition mock_windows :: "nat \<Rightarrow> nat \<Rightarrow> nat list" where
  "mock_windows rpm extra = [rpm * 60 + extra, rpm * 60 * 20 + extra, rpm * 60 * 20 * 6 + extra, rpm * 60 * 20 * 25 + extra]"

definition CREW :: "(string \<times> nat \<times> bool) list" where
  "CREW = [(''poro-feeder'', 480, True), (''baron-stealer'', 350, True), (''minion-wave'', 220, True), (''afk-ward'', 90, False)]"

definition mock_stats :: "string \<Rightarrow> node_handle \<Rightarrow> (string \<times> bool \<times> nat list \<times> nat list) list" where
  "mock_stats you h =
     map (\<lambda>(name, rpm, online). (name, online, mock_windows rpm 0, mock_windows (rpm div 3) 0)) CREW
     @ [(you, True, mock_windows 300 (nh_completed h), mock_windows 100 (nh_matches h))]"

section \<open>The generator\<close>

lemma xor_is_zero: "x XOR y = 0 \<Longrightarrow> y = x" for x y :: u64
  by (simp add: bit_eq_iff bit_xor_iff)

lemma xor_shift_right: "0 < n \<Longrightarrow> x XOR drop_bit n x = 0 \<longleftrightarrow> x = 0" for x :: u64
proof
  assume n: "0 < n" and z: "x XOR drop_bit n x = 0"
  have "drop_bit n x = x" by (rule xor_is_zero[OF z])
  then have e: "unat (drop_bit n x) = unat x" by (rule arg_cong)
  show "x = 0"
  proof (rule ccontr)
    assume "x \<noteq> 0"
    from unat_drop_bit_less[OF this n] show False unfolding e by simp
  qed
qed simp

lemma xor_shift_left: "x XOR push_bit 25 x = 0 \<longleftrightarrow> x = 0" for x :: u64
proof
  assume "x XOR push_bit 25 x = 0"
  then have e: "push_bit 25 x = x" by (rule xor_is_zero)
  have "bit x k = (25 \<le> k \<and> k < 64 \<and> bit x (k - 25))" for k
    using arg_cong[OF e, of "\<lambda>w. bit w k"] by (auto simp: bit_simps dest: bit_imp_le_length)
  then have "\<not> bit x k" for k by (induction k rule: less_induct) (metis diff_less less_le_trans zero_less_numeral)
  then show "x = 0" by (simp add: bit_eq_iff)
qed simp

lemma rng_next_nonzero: "x \<noteq> 0 \<Longrightarrow> snd (rng_next x) \<noteq> 0"
proof -
  assume "x \<noteq> 0"
  then have "x XOR drop_bit 12 x \<noteq> 0" by (subst xor_shift_right) simp_all
  then have "(x XOR drop_bit 12 x) XOR push_bit 25 (x XOR drop_bit 12 x) \<noteq> 0" by (subst xor_shift_left)
  then show ?thesis unfolding rng_next_def Let_def snd_conv by (subst xor_shift_right) simp_all
qed

lemma seeded_nonzero: "rng_seeded n \<noteq> 0"
proof
  assume "rng_seeded n = 0"
  then have "bit (n OR 1) 0 = bit (0 :: u64) 0" by (simp add: rng_seeded_def)
  then show False by (simp add: bit_simps)
qed

lemma snd_rng [simp]: "snd (rng_below n x) = snd (rng_next x)" "snd (rng_ms lo hi x) = snd (rng_next x)"
  by (simp_all add: rng_below_def rng_ms_def case_prod_beta)

lemma rng_below_less: "n \<noteq> 0 \<Longrightarrow> fst (rng_below n x) < n"
  by (simp add: rng_below_def case_prod_beta word_mod_less_divisor word_gt_0)

lemma pick_entry_total:
  assumes "unat draw < sum_list (map (\<lambda>(_, _, w). unat w) ts)"
  shows "\<exists>host meth w. pick_entry ts draw = Some (host, meth) \<and> (host, meth, w) \<in> set ts"
  using assms
proof (induction ts arbitrary: draw)
  case (Cons t ts)
  obtain host meth w where t: "t = (host, meth, w)" by (cases t)
  show ?case
  proof (cases "draw < w")
    case False
    then have "unat (draw - w) < sum_list (map (\<lambda>(_, _, w). unat w) ts)"
      using Cons.prems by (simp add: t unat_sub word_le_nat_alt word_less_nat_alt not_less)
    from Cons.IH[OF this] False show ?thesis by (auto simp: t)
  qed (auto simp: t)
qed simp

lemma pick_traffic_total: "\<exists>host meth w. fst (pick_traffic x) = Some (host, meth) \<and> (host, meth, w) \<in> set TRAFFIC"
proof -
  have t: "sum_list (map (\<lambda>(_, _, w). w) TRAFFIC) = 100" by (simp add: TRAFFIC_def)
  have "fst (rng_below 100 x) < 100" by (rule rng_below_less) simp
  then have "unat (fst (rng_below 100 x)) < sum_list (map (\<lambda>(_, _, w). unat w) TRAFFIC)"
    by (simp add: TRAFFIC_def word_less_nat_alt)
  from pick_entry_total[OF this] show ?thesis by (simp add: pick_traffic_def t case_prod_beta)
qed

section \<open>Runs\<close>

text \<open>The loop and the jobs it spawned, interleaved; the loop has ended when the state is \<open>Break\<close>.\<close>

inductive mock_step :: "loop_end \<times> mock_state \<Rightarrow> loop_end \<times> mock_state \<Rightarrow> bool" where
  passed: "mock_pass io m = (e, m') \<Longrightarrow> mock_step (Continue, m) (e, if e = Break then mock_finish m' else m')"
| staged: "mk_jobs m = as @ (i, st # rest) # bs \<Longrightarrow>
    mock_step (e, m) (e, m\<lparr>mk_handle := run_stage st (mk_handle m), mk_jobs := as @ (i, rest) # bs\<rparr>)"

definition mock_reach :: "loop_end \<times> mock_state \<Rightarrow> bool" where
  "mock_reach x \<longleftrightarrow> (\<exists>nanos stopped. mock_step\<^sup>*\<^sup>* (mock_begin nanos stopped node_handle_new) x)"

fun event_job :: "node_event \<Rightarrow> nat option" where
  "event_job (JobStarted i _ _) = Some i"
| "event_job (JobActive i) = Some i"
| "event_job (JobDone i _ _ _ _) = Some i"
| "event_job (JobUploaded i) = Some i"
| "event_job _ = None"

fun is_done :: "node_event \<Rightarrow> bool" where
  "is_done (JobDone _ _ _ _ _) = True"
| "is_done _ = False"

fun stage_event :: "stage \<Rightarrow> node_event" where
  "stage_event (Announce ev) = ev"
| "stage_event (Finish i host meth result ms) = JobDone i host meth result ms"

definition life_of :: "nat \<Rightarrow> node_event list \<Rightarrow> bool" where
  "life_of i evs \<longleftrightarrow> (\<exists>host meth result ms. evs = [JobStarted i host meth, JobActive i, JobDone i host meth result ms, JobUploaded i])"

abbreviation seen_of :: "nat \<Rightarrow> node_handle \<Rightarrow> node_event list" where
  "seen_of i h \<equiv> filter (\<lambda>e. event_job e = Some i) (nh_events h)"

definition honest_stage :: "stage \<Rightarrow> bool" where
  "honest_stage st \<longleftrightarrow> event_job (stage_event st) \<noteq> None \<and> (\<forall>ev. st = Announce ev \<longrightarrow> \<not> is_done ev)"

definition mock_inv :: "mock_state \<Rightarrow> bool" where
  "mock_inv m \<longleftrightarrow> mk_rng m \<noteq> 0
     \<and> nh_completed (mk_handle m) = length (filter is_done (nh_events (mk_handle m)))
     \<and> count_list (nh_events (mk_handle m)) KeyBad = (if mk_key_demo_done m then 1 else 0)
     \<and> map fst (mk_jobs m) = [1..<mk_next_id m] \<and> 1 \<le> mk_next_id m
     \<and> (\<forall>i. i = 0 \<or> mk_next_id m \<le> i \<longrightarrow> seen_of i (mk_handle m) = [])
     \<and> (\<forall>i rest. (i, rest) \<in> set (mk_jobs m) \<longrightarrow> list_all honest_stage rest \<and> life_of i (seen_of i (mk_handle m) @ map stage_event rest))"

lemma run_stage_facts:
  "honest_stage st \<Longrightarrow> nh_events (run_stage st h) = nh_events h @ [stage_event st]"
  "honest_stage st \<Longrightarrow> nh_completed (run_stage st h) = nh_completed h + (if is_done (stage_event st) then 1 else 0)"
  by (cases st; auto simp: honest_stage_def fake_done_def job_finished_def emit_def Let_def)+

lemma fake_job_stages:
  obtains host meth result ms delays where
    "fake_job i seed = Some ([Announce (JobStarted i host meth), Announce (JobActive i), Finish i host meth result ms, Announce (JobUploaded i)], delays)"
proof -
  obtain host meth x where "pick_traffic (seed OR 1) = (Some (host, meth), x)"
    using pick_traffic_total[of "seed OR 1"] by (metis prod.collapse)
  then show thesis by (intro that) (simp add: fake_job_def case_prod_beta)
qed

text \<open>An announcement of the loop itself concerns no job.\<close>

lemma inv_announce:
  assumes "mock_inv m" "event_job ev = None" "nh_events h = nh_events (mk_handle m) @ [ev]" "nh_completed h = nh_completed (mk_handle m)"
    and "count_list [ev] KeyBad + (if mk_key_demo_done m then 1 else 0) = (if d then 1 else 0)"
  shows "mock_inv (m\<lparr>mk_handle := h, mk_key_demo_done := d\<rparr>)"
proof -
  have "\<not> is_done ev" using assms(2) by (cases ev) auto
  then show ?thesis using assms by (simp add: mock_inv_def)
qed

lemma inv_loop_event:
  assumes "mock_inv m" "event_job ev = None" "ev \<noteq> KeyBad" "nh_events (f (mk_handle m)) = nh_events (mk_handle m) @ [ev]"
    and "nh_completed (f (mk_handle m)) = nh_completed (mk_handle m)"
  shows "mock_inv (on_mock f m)"
  using inv_announce[OF assms(1,2,4,5), of "mk_key_demo_done m"] assms(3) by (simp add: on_mock_def)

lemma inv_connections: "mock_inv m \<Longrightarrow> mock_inv (connect m)" "mock_inv m \<Longrightarrow> mock_inv (disconnect m)" "mock_inv m \<Longrightarrow> mock_inv (mock_finish m)"
  unfolding connect_def disconnect_def mock_finish_def by (rule inv_loop_event; simp add: emit_def)+

lemma inv_rng: "mock_inv m \<Longrightarrow> x \<noteq> 0 \<Longrightarrow> mock_inv (m\<lparr>mk_rng := x, mk_next_blip := b\<rparr>)"
  by (simp add: mock_inv_def)

lemma inv_spawn:
  assumes "mock_inv m"
  shows "mock_inv (spawn_job m)"
proof -
  obtain seed x where x: "rng_next (mk_rng m) = (seed, x)" by fastforce
  obtain host meth result ms delays where
    j: "fake_job (mk_next_id m) seed = Some ([Announce (JobStarted (mk_next_id m) host meth), Announce (JobActive (mk_next_id m)),
          Finish (mk_next_id m) host meth result ms, Announce (JobUploaded (mk_next_id m))], delays)" by (rule fake_job_stages)
  have "x \<noteq> 0" using rng_next_nonzero[of "mk_rng m"] x assms by (simp add: mock_inv_def)
  moreover have "seen_of (mk_next_id m) (mk_handle m) = []" using assms unfolding mock_inv_def by blast
  ultimately show ?thesis using assms
    by (auto simp: spawn_job_def x j mock_inv_def honest_stage_def life_of_def)
qed

lemma inv_batch:
  assumes "mock_inv m"
  shows "mock_inv (spawn_batch m)"
proof -
  obtain n x where x: "rng_below 3 (mk_rng m) = (n, x)" by fastforce
  have "x \<noteq> 0" using rng_next_nonzero[of "mk_rng m"] snd_rng(1)[of 3 "mk_rng m"] x assms by (simp add: mock_inv_def)
  then have "mock_inv (m\<lparr>mk_rng := x\<rparr>)" using inv_rng[OF assms, of x "mk_next_blip m"] by simp
  then have "mock_inv ((spawn_job ^^ k) (m\<lparr>mk_rng := x\<rparr>))" for k by (induction k) (auto intro: inv_spawn)
  from this[of "1 + unat n"] show ?thesis by (simp add: spawn_batch_def x)
qed

lemma inv_key_demo:
  assumes "mock_inv m" "\<not> mk_key_demo_done m"
  shows "mock_inv (snd (key_demo stopped m))"
proof -
  let ?m = "on_mock (\<lambda>h. emit KeyBad (h\<lparr>nh_key_bad := True\<rparr>)) (m\<lparr>mk_key_demo_done := True\<rparr>)"
  have "mock_inv ?m" using inv_announce[OF assms(1), of KeyBad "emit KeyBad ((mk_handle m)\<lparr>nh_key_bad := True\<rparr>)" True] assms(2)
    by (simp add: on_mock_def emit_def mock_inv_def)
  moreover from this have "mock_inv (on_mock (\<lambda>h. emit KeyOk (h\<lparr>nh_key_bad := False\<rparr>)) ?m)"
    by (rule inv_loop_event) (simp_all add: emit_def)
  ultimately show ?thesis by (simp add: key_demo_def Let_def)
qed

lemma inv_pass:
  assumes "mock_inv m" "mock_pass io m = (e, m')"
  shows "mock_inv m'"
proof -
  let ?m = "m\<lparr>mk_rng := snd (rng_ms 350 1100 (mk_rng m))\<rparr>"
  have "mk_rng m \<noteq> 0" using assms(1) by (simp add: mock_inv_def)
  then have m: "mock_inv ?m" and b: "mock_inv (?m\<lparr>mk_next_blip := b\<rparr>)" for b
    using inv_rng[OF assms(1), of "snd (rng_next (mk_rng m))" "mk_next_blip m"] inv_rng[OF assms(1), of "snd (rng_next (mk_rng m))" b]
      rng_next_nonzero by simp_all
  show ?thesis
    using assms(2) m inv_key_demo[OF m, of "mi_key_stopped io"] inv_batch[OF m] inv_connections(2)[OF b]
      inv_batch[OF inv_connections(1)[OF inv_connections(2)[OF b]]]
    by (auto simp: mock_pass_def Let_def split: if_splits)
qed

lemma inv_stage:
  assumes "mock_inv m" "mk_jobs m = as @ (i, st # rest) # bs"
  shows "mock_inv (m\<lparr>mk_handle := run_stage st (mk_handle m), mk_jobs := as @ (i, rest) # bs\<rparr>)"
proof -
  have st: "honest_stage st" and life: "list_all honest_stage rest" "life_of i (seen_of i (mk_handle m) @ stage_event st # map stage_event rest)"
    using assms by (auto simp: mock_inv_def)
  have ev: "event_job (stage_event st) = Some i"
    using life(2) by (auto simp: life_of_def append_eq_Cons_conv Cons_eq_append_conv)
  have ids: "map fst (mk_jobs m) = [1..<mk_next_id m]" using assms(1) by (simp add: mock_inv_def)
  have "distinct (map fst (mk_jobs m))" unfolding ids by simp
  then have apart: "\<And>r. (i, r) \<notin> set as" "\<And>r. (i, r) \<notin> set bs" using assms(2) by force+
  have "i \<in> set (map fst (mk_jobs m))" using assms(2) by simp
  then have pos: "i \<noteq> 0" "i < mk_next_id m" unfolding ids by simp_all
  let ?h = "run_stage st (mk_handle m)"
  have seen: "seen_of j ?h = seen_of j (mk_handle m) @ (if j = i then [stage_event st] else [])" for j
    using run_stage_facts(1)[OF st] ev by simp
  have kb: "count_list (nh_events ?h) KeyBad = count_list (nh_events (mk_handle m)) KeyBad"
    using run_stage_facts(1)[OF st] ev by auto
  have jobs: "list_all honest_stage r \<and> life_of j (seen_of j ?h @ map stage_event r)" if "(j, r) \<in> set (as @ (i, rest) # bs)" for j r
  proof (cases "j = i")
    case True
    then have "r = rest" using that apart by auto
    then show ?thesis using life by (simp add: True seen)
  next
    case False
    then have "(j, r) \<in> set (mk_jobs m)" using that assms(2) by auto
    then show ?thesis using assms(1) False unfolding mock_inv_def seen by simp
  qed
  have none: "seen_of j ?h = []" if "j = 0 \<or> mk_next_id m \<le> j" for j
    using that pos assms(1) unfolding mock_inv_def seen by auto
  show ?thesis using assms(1) ids assms(2) run_stage_facts[OF st, of "mk_handle m"] kb jobs none by (simp add: mock_inv_def)
qed

lemma mock_step_inv: "mock_step x y \<Longrightarrow> mock_inv (snd x) \<Longrightarrow> mock_inv (snd y)"
proof (induction rule: mock_step.induct)
  case (passed io m e m')
  then show ?case using inv_pass[of m io e m'] inv_connections(3)[of m'] by simp
next
  case (staged m as i st rest bs e)
  then show ?case using inv_stage by simp
qed

lemma mock_begin_inv: "mock_inv (snd (mock_begin nanos stopped node_handle_new))"
proof -
  let ?m = "\<lparr>mk_handle = node_handle_new, mk_rng = rng_seeded nanos, mk_next_id = 1, mk_next_blip = 90, mk_key_demo_done = False, mk_jobs = []\<rparr>"
  have "mock_inv ?m" by (simp add: mock_inv_def seeded_nonzero node_handle_new_def)
  from inv_connections(1,3)[OF this] show ?thesis by (simp add: mock_begin_def Let_def)
qed

lemma mock_reach_inv: "mock_reach (e, m) \<Longrightarrow> mock_inv m"
proof -
  assume "mock_reach (e, m)"
  then obtain nanos stopped where "mock_step\<^sup>*\<^sup>* (mock_begin nanos stopped node_handle_new) (e, m)" by (auto simp: mock_reach_def)
  then have "mock_inv (snd (e, m))" by (induction rule: rtranclp_induct) (auto simp: mock_begin_inv intro: mock_step_inv)
  then show ?thesis by simp
qed

section \<open>Properties\<close>

text \<open>The mock plays a faithful node: however its loop and its jobs interleave, its generator never gets stuck at zero and the \<^verbatim>\<open>unreachable!\<close> in the choice of
  traffic is not reached, so every job lives; what the frontend sees of a job is a prefix of started, active, done, uploaded, for the same host
  and method; the counter of completed jobs is the number of done events; and the key expires at most once.\<close>

theorem mock_plays_a_node:
  assumes "mock_reach (e, m)"
  shows "mk_rng m \<noteq> 0 \<and> map fst (mk_jobs m) = [1..<mk_next_id m]
     \<and> nh_completed (mk_handle m) = length (filter is_done (nh_events (mk_handle m)))
     \<and> count_list (nh_events (mk_handle m)) KeyBad \<le> 1
     \<and> (\<forall>i. \<exists>host meth result ms rest. seen_of i (mk_handle m) @ rest =
           [JobStarted i host meth, JobActive i, JobDone i host meth result ms, JobUploaded i])"
proof -
  note I = mock_reach_inv[OF assms]
  have "\<exists>rest. life_of i (seen_of i (mk_handle m) @ rest)" for i
  proof (cases "i = 0 \<or> mk_next_id m \<le> i")
    case False
    then have "i \<in> set (map fst (mk_jobs m))" using I by (simp add: mock_inv_def)
    then obtain rest where "(i, rest) \<in> set (mk_jobs m)" by auto
    then show ?thesis using I unfolding mock_inv_def by blast
  next
    case True
    then have "seen_of i (mk_handle m) = []" using I unfolding mock_inv_def by blast
    then show ?thesis using life_of_def[of i "[JobStarted i [] [], JobActive i, JobDone i [] [] [] 0, JobUploaded i]"] by auto
  qed
  then have "\<exists>host meth result ms rest. seen_of i (mk_handle m) @ rest =
      [JobStarted i host meth, JobActive i, JobDone i host meth result ms, JobUploaded i]" for i
    unfolding life_of_def by blast
  then show ?thesis using I by (auto simp: mock_inv_def)
qed

theorem mock_plays_a_node_witness:
  "\<exists>e m. mock_reach (e, m) \<and> mk_rng m \<noteq> 0 \<and> mk_next_id m \<ge> 2 \<and> map fst (mk_jobs m) = [1..<mk_next_id m]"
proof -
  let ?m = "snd (mock_begin 5 False node_handle_new)"
  let ?io = "\<lparr>mi_stopped = False, mi_elapsed = 1, mi_key_stopped = False, mi_blip_stopped = False\<rparr>"
  have c: "mock_begin 5 False node_handle_new = (Continue, ?m)" by (simp add: mock_begin_def Let_def)
  have n: "mk_next_id ((spawn_job ^^ k) m) = mk_next_id m + k" for k m by (induction k) (simp_all add: spawn_job_def case_prod_beta)
  have p: "mock_pass ?io ?m = (Continue, spawn_batch (?m\<lparr>mk_rng := snd (rng_ms 350 1100 (mk_rng ?m))\<rparr>))"
    by (simp add: mock_pass_def mock_begin_def connect_def on_mock_def Let_def)
  let ?m' = "spawn_batch (?m\<lparr>mk_rng := snd (rng_ms 350 1100 (mk_rng ?m))\<rparr>)"
  have "mock_step (Continue, ?m) (Continue, ?m')" using passed[OF p] by simp
  then have r: "mock_reach (Continue, ?m')" unfolding mock_reach_def by (metis c r_into_rtranclp)
  have "mk_next_id ?m' \<ge> 2"
    unfolding spawn_batch_def by (simp add: case_prod_beta n del: funpow.simps) (simp add: mock_begin_def connect_def on_mock_def Let_def)
  then show ?thesis using mock_plays_a_node[OF r] r by blast
qed

end
