(* ===== verification/Desktop.thy ===== *)
theory Desktop
  imports Node_Cli_Props Mock
begin

text \<open>
  The desktop frontend (\<^verbatim>\<open>crates/desktop/src/main.rs\<close>): the shared application data, the commands of the user interface, the start of the node
  loop, the forwarding of its events and the life of the window and of the process.

  A watch channel is a number, counted as channels are made; \<open>dt_closed\<close> are those whose sender was dropped, because another one took its place.  A loop
  is told to stop when \<^verbatim>\<open>true\<close> was sent on its channel or when the sender was dropped, since every wait of the loops also waits for
  \<^verbatim>\<open>stop.changed()\<close>, which then returns at once.  The enrolment command suspends while the server answers, and the start of a loop takes the locks on the
  configuration, the channel and the client one after the other; \<open>desk_step\<close> interleaves these lock sections of several enrolments.  The requests that the
  application itself makes are logged in \<open>dt_posts\<close>.  The texts of notifications, the tray icon, the Windows registration and the
  updater are not modelled.
\<close>

section \<open>State\<close>

datatype loop_kind = MockLoop | NodeLoop node_config string

record desktop =
  dt_handle :: node_handle
  dt_path :: string
  dt_cfg :: "node_config option"
  dt_stop_tx :: "nat option"
  dt_client :: "server_client option"
  dt_mock :: bool
  dt_disk :: disk
  dt_chans :: nat
  dt_closed :: "nat list"
  dt_loops :: "(nat \<times> loop_kind) list"
  dt_told :: "nat list"
  dt_posts :: "string list"
  dt_nudges :: nat

definition loop_alive :: "desktop \<Rightarrow> nat \<Rightarrow> bool" where
  "loop_alive d i \<longleftrightarrow> i < length (dt_loops d) \<and> fst (dt_loops d ! i) \<notin> set (dt_closed d) \<and> fst (dt_loops d ! i) \<notin> set (dt_told d)"

record ui_state =
  ui_enrolled :: bool
  ui_name :: string
  ui_server :: string
  ui_version :: string
  ui_snapshot :: node_snapshot

definition get_state :: "string \<Rightarrow> desktop \<Rightarrow> ui_state" where
  "get_state version d =
     \<lparr>ui_enrolled = (dt_cfg d \<noteq> None), ui_name = (case dt_cfg d of Some c \<Rightarrow> nc_name c | None \<Rightarrow> []),
      ui_server = (case dt_cfg d of Some c \<Rightarrow> nc_server c | None \<Rightarrow> []), ui_version = version,
      ui_snapshot = handle_snapshot (dt_handle d)\<rparr>"

text \<open>The lock sections of \<^verbatim>\<open>start_worker\<close>: reading the configuration, storing the sender of a new channel in place of the old one, storing the client,
  and spawning the loop.\<close>

definition start_read :: "desktop \<Rightarrow> node_config option" where
  "start_read d = dt_cfg d"

definition start_publish :: "desktop \<Rightarrow> nat \<times> desktop" where
  "start_publish d =
     (dt_chans d,
      d\<lparr>dt_chans := dt_chans d + 1, dt_stop_tx := Some (dt_chans d),
        dt_closed := (case dt_stop_tx d of Some old \<Rightarrow> old # dt_closed d | None \<Rightarrow> dt_closed d)\<rparr>)"

definition start_client :: "node_config \<Rightarrow> desktop \<Rightarrow> desktop" where
  "start_client cfg d = d\<lparr>dt_client := Some (server_client_new (nc_server cfg) (nc_token cfg))\<rparr>"

definition start_spawn :: "nat \<Rightarrow> loop_kind \<Rightarrow> desktop \<Rightarrow> desktop" where
  "start_spawn ch k d = d\<lparr>dt_loops := dt_loops d @ [(ch, k)]\<rparr>"

definition start_worker :: "desktop \<Rightarrow> desktop" where
  "start_worker d =
     (case start_read d of
        None \<Rightarrow> d
      | Some cfg \<Rightarrow>
          (case start_publish d of
             (ch, d) \<Rightarrow>
               if dt_mock d then start_spawn ch MockLoop d
               else start_spawn ch (NodeLoop cfg (dt_path d)) (start_client cfg d)))"

section \<open>Start\<close>

definition mock_mode :: "string list \<Rightarrow> string option \<Rightarrow> bool" where
  "mock_mode argv env \<longleftrightarrow> list_ex (\<lambda>a. a = ''--mock'') argv \<or> (case env of Some v \<Rightarrow> v \<noteq> [] \<and> v \<noteq> ''0'' | None \<Rightarrow> False)"

definition desktop_new :: "(string \<Rightarrow> node_config option) \<Rightarrow> string option \<Rightarrow> string list \<Rightarrow> string option \<Rightarrow> disk \<Rightarrow> desktop" where
  "desktop_new from_json config_dir argv env d =
     (let mock = mock_mode argv env; path = default_path config_dir;
          cfg = (if mock then None else case config_load from_json path d of Inr c \<Rightarrow> c | Inl _ \<Rightarrow> None)
      in \<lparr>dt_handle = node_handle_new, dt_path = path, dt_cfg = cfg, dt_stop_tx = None, dt_client = None, dt_mock = mock, dt_disk = d,
          dt_chans = 0, dt_closed = [], dt_loops = [], dt_told = [], dt_posts = [], dt_nudges = 0\<rparr>)"

definition desktop_setup :: "(string \<Rightarrow> node_config option) \<Rightarrow> string option \<Rightarrow> string list \<Rightarrow> string option \<Rightarrow> disk \<Rightarrow> desktop" where
  "desktop_setup from_json config_dir argv env d = start_worker (desktop_new from_json config_dir argv env d)"

section \<open>Commands\<close>

datatype ui_error = AlreadyEnrolled | NotEnrolled | CallFailed node_error

record enroll_form =
  ef_server :: string
  ef_name :: string
  ef_invite :: string
  ef_key :: string

definition form_server :: "enroll_form \<Rightarrow> string" where
  "form_server f = trim_end (CHR ''/'') (trim (ef_server f))"

definition mock_config :: "enroll_form \<Rightarrow> node_config" where
  "mock_config f = \<lparr>nc_server = form_server f, nc_name = trim (ef_name f), nc_token = ''mock-token'', nc_riot_api_key = trim (ef_key f)\<rparr>"

definition granted_config :: "enroll_form \<Rightarrow> enroll_response \<Rightarrow> node_config" where
  "granted_config f er = \<lparr>nc_server = form_server f, nc_name = es_name er, nc_token = es_token er, nc_riot_api_key = trim (ef_key f)\<rparr>"

text \<open>The pieces of \<^verbatim>\<open>enroll\<close>: the test on entry, the request, and what follows an answer.\<close>

definition enroll_post :: "enroll_form \<Rightarrow> desktop \<Rightarrow> desktop" where
  "enroll_post f d = d\<lparr>dt_posts := dt_posts d @ [form_server f @ ''/v1/enroll'']\<rparr>"

definition save_config :: "(node_config \<Rightarrow> string) \<Rightarrow> nat \<Rightarrow> node_config \<Rightarrow> desktop \<Rightarrow> desktop" where
  "save_config to_json now cfg d = d\<lparr>dt_disk := config_save to_json (dt_path d) now cfg (dt_disk d)\<rparr>"

definition keep_config :: "node_config \<Rightarrow> desktop \<Rightarrow> desktop" where
  "keep_config cfg d = d\<lparr>dt_cfg := Some cfg\<rparr>"

definition ui_enroll ::
  "(nat \<Rightarrow> string) \<Rightarrow> (enroll_request, enroll_response) network \<Rightarrow> (node_config \<Rightarrow> string) \<Rightarrow> string \<Rightarrow> nat \<Rightarrow> enroll_form \<Rightarrow> desktop
     \<Rightarrow> (ui_error + ui_state) \<times> desktop" where
  "ui_enroll status_text net to_json version now f d =
     (if dt_cfg d \<noteq> None then (Inl AlreadyEnrolled, d)
      else if dt_mock d then
        let d = start_worker (keep_config (mock_config f) d) in (Inr (get_state version d), d)
      else
        let d = enroll_post f d in
        case enroll_call status_text net (form_server f) (trim (ef_name f)) (trim (ef_invite f)) of
          Inl e \<Rightarrow> (Inl (CallFailed e), d)
        | Inr er \<Rightarrow>
            let cfg = granted_config f er;
                d = start_worker (keep_config cfg (save_config to_json now cfg d))
            in (Inr (get_state version d), d))"

definition ui_set_key :: "(node_config \<Rightarrow> string) \<Rightarrow> nat \<Rightarrow> string \<Rightarrow> desktop \<Rightarrow> (ui_error + unit) \<times> desktop" where
  "ui_set_key to_json now key d =
     (case dt_cfg d of
        None \<Rightarrow> (Inl NotEnrolled, d)
      | Some cfg \<Rightarrow>
          let cfg = cfg\<lparr>nc_riot_api_key := trim key\<rparr>;
              d = keep_config cfg d;
              d = (if \<not> dt_mock d then save_config to_json now cfg d else d)
          in (Inr (), d\<lparr>dt_nudges := dt_nudges d + 1\<rparr>))"

definition ui_fetch_stats ::
  "(nat \<Rightarrow> string) \<Rightarrow> (unit, 'stats) network \<Rightarrow> (string \<Rightarrow> node_handle \<Rightarrow> 'stats) \<Rightarrow> desktop \<Rightarrow> (ui_error + 'stats) \<times> desktop" where
  "ui_fetch_stats status_text net mock_table d =
     (if dt_mock d then
        (case dt_cfg d of Some c \<Rightarrow> Inr (mock_table (nc_name c) (dt_handle d)) | None \<Rightarrow> Inl NotEnrolled, d)
      else case dt_client d of
        None \<Rightarrow> (Inl NotEnrolled, d)
      | Some c \<Rightarrow> (map_sum CallFailed id (client_stats status_text net c), d\<lparr>dt_posts := dt_posts d @ [sc_server c @ ''/v1/stats'']\<rparr>))"

definition ui_quit :: "desktop \<Rightarrow> desktop" where
  "ui_quit d = (case dt_stop_tx d of Some ch \<Rightarrow> d\<lparr>dt_told := ch # dt_told d\<rparr> | None \<Rightarrow> d)"

section \<open>Events and the window\<close>

datatype toast = KeyNeeded | Clear

text \<open>What the forwarding task does with an event before it emits it to the webview.\<close>

definition toasts_of :: "bool \<Rightarrow> node_event \<Rightarrow> toast list" where
  "toasts_of windows ev = (case ev of KeyBad \<Rightarrow> [KeyNeeded] | KeyOk \<Rightarrow> if windows then [Clear] else [] | _ \<Rightarrow> [])"

datatype shell_event = CloseRequested | ShowMain | ExitRequested "nat option"

record shell =
  sh_window :: bool
  sh_running :: bool

fun shell_on :: "shell_event \<Rightarrow> shell \<Rightarrow> shell" where
  "shell_on CloseRequested s = s\<lparr>sh_window := False\<rparr>"
| "shell_on ShowMain s = s\<lparr>sh_window := True\<rparr>"
| "shell_on (ExitRequested code) s = (if code = None then s else s\<lparr>sh_running := False\<rparr>)"

text \<open>The process ends only when it is told to exit with a code, as \<^verbatim>\<open>quit\<close> does; closing windows keeps it running.\<close>

lemma shell_keeps_running:
  "\<forall>code. ExitRequested (Some code) \<notin> set evs \<Longrightarrow> sh_running (fold shell_on evs s) = sh_running s"
proof (induction evs arbitrary: s)
  case (Cons ev evs)
  have "sh_running (shell_on ev s) = sh_running s" using Cons.prems by (cases ev) auto
  then show ?case using Cons by simp
qed simp

section \<open>Interleaved commands\<close>

text \<open>How far an enrolment that has kept its configuration is with starting its loop.\<close>

datatype start_stage = Kept | Cloned node_config | Published node_config nat | Linked node_config nat

text \<open>\<open>ds_known\<close> are the enrolments there have been, the one read from disk included; \<open>ds_overlap\<close> records that an enrolment passed the test on entry while another
  was under way.\<close>

record desk_system =
  ds_app :: desktop
  ds_asking :: "enroll_form list"
  ds_saved :: "node_config list"
  ds_starting :: "start_stage list"
  ds_known :: "node_config list"
  ds_overlap :: bool

definition enrolling :: "desk_system \<Rightarrow> bool" where
  "enrolling s \<longleftrightarrow> ds_asking s \<noteq> [] \<or> ds_saved s \<noteq> [] \<or> ds_starting s \<noteq> []"

abbreviation on_app_data :: "(desktop \<Rightarrow> desktop) \<Rightarrow> desk_system \<Rightarrow> desk_system" where
  "on_app_data f s \<equiv> s\<lparr>ds_app := f (ds_app s)\<rparr>"

inductive desk_step :: "(node_config \<Rightarrow> string) \<Rightarrow> desk_system \<Rightarrow> desk_system \<Rightarrow> bool" for to_json where
  asked: "dt_cfg (ds_app s) = None \<Longrightarrow> \<not> dt_mock (ds_app s) \<Longrightarrow>
    desk_step to_json s ((on_app_data (enroll_post f) s)\<lparr>ds_asking := f # ds_asking s, ds_overlap := ds_overlap s \<or> enrolling s\<rparr>)"
| mocked: "dt_cfg (ds_app s) = None \<Longrightarrow> dt_mock (ds_app s) \<Longrightarrow>
    desk_step to_json s (s\<lparr>ds_saved := mock_config f # ds_saved s, ds_known := mock_config f # ds_known s, ds_overlap := ds_overlap s \<or> enrolling s\<rparr>)"
| refused: "ds_asking s = as @ f # bs \<Longrightarrow> desk_step to_json s (s\<lparr>ds_asking := as @ bs\<rparr>)"
| granted: "ds_asking s = as @ f # bs \<Longrightarrow>
    desk_step to_json s ((on_app_data (save_config to_json now (granted_config f er)) s)
      \<lparr>ds_asking := as @ bs, ds_saved := granted_config f er # ds_saved s, ds_known := granted_config f er # ds_known s\<rparr>)"
| kept: "ds_saved s = as @ cfg # bs \<Longrightarrow>
    desk_step to_json s ((on_app_data (keep_config cfg) s)\<lparr>ds_saved := as @ bs, ds_starting := Kept # ds_starting s\<rparr>)"
| nothing: "ds_starting s = as @ Kept # bs \<Longrightarrow> start_read (ds_app s) = None \<Longrightarrow> desk_step to_json s (s\<lparr>ds_starting := as @ bs\<rparr>)"
| cloned: "ds_starting s = as @ Kept # bs \<Longrightarrow> start_read (ds_app s) = Some cfg \<Longrightarrow>
    desk_step to_json s (s\<lparr>ds_starting := as @ Cloned cfg # bs\<rparr>)"
| published: "ds_starting s = as @ Cloned cfg # bs \<Longrightarrow> start_publish (ds_app s) = (ch, d) \<Longrightarrow>
    desk_step to_json s (s\<lparr>ds_app := d, ds_starting := as @ Published cfg ch # bs\<rparr>)"
| mock_spawned: "ds_starting s = as @ Published cfg ch # bs \<Longrightarrow> dt_mock (ds_app s) \<Longrightarrow>
    desk_step to_json s ((on_app_data (start_spawn ch MockLoop) s)\<lparr>ds_starting := as @ bs\<rparr>)"
| linked: "ds_starting s = as @ Published cfg ch # bs \<Longrightarrow> \<not> dt_mock (ds_app s) \<Longrightarrow>
    desk_step to_json s ((on_app_data (start_client cfg) s)\<lparr>ds_starting := as @ Linked cfg ch # bs\<rparr>)"
| spawned: "ds_starting s = as @ Linked cfg ch # bs \<Longrightarrow>
    desk_step to_json s ((on_app_data (start_spawn ch (NodeLoop cfg (dt_path (ds_app s)))) s)\<lparr>ds_starting := as @ bs\<rparr>)"
| key_set: "desk_step to_json s (on_app_data (\<lambda>d. snd (ui_set_key to_json now key d)) s)"
| stats: "desk_step to_json s (on_app_data (\<lambda>d. snd (ui_fetch_stats status_text net (\<lambda>_ _. ()) d)) s)"
| quitted: "desk_step to_json s (on_app_data ui_quit s)"

definition desk_init :: "desktop \<Rightarrow> desk_system" where
  "desk_init d = \<lparr>ds_app = d, ds_asking = [], ds_saved = [], ds_starting = [], ds_known = (case dt_cfg d of Some c \<Rightarrow> [c] | None \<Rightarrow> []),
     ds_overlap = False\<rparr>"

definition desk_reach :: "(node_config \<Rightarrow> string) \<Rightarrow> desktop \<Rightarrow> desk_system \<Rightarrow> bool" where
  "desk_reach to_json d s \<longleftrightarrow> (desk_step to_json)\<^sup>*\<^sup>* (desk_init d) s"

text \<open>Without interference the sections are the whole function.\<close>

lemma start_worker_sections:
  assumes "dt_cfg (ds_app s) = Some cfg" "\<not> dt_mock (ds_app s)" "ds_starting s = [Kept]"
  shows "(desk_step to_json)\<^sup>*\<^sup>* s (s\<lparr>ds_app := start_worker (ds_app s), ds_starting := []\<rparr>)"
proof -
  obtain ch d where p: "start_publish (ds_app s) = (ch, d)" by fastforce
  have d: "\<not> dt_mock d" "dt_path (start_client cfg d) = dt_path d" using p assms(2) by (auto simp: start_publish_def start_client_def)
  let ?s1 = "s\<lparr>ds_starting := [] @ Cloned cfg # []\<rparr>"
  let ?s2 = "?s1\<lparr>ds_app := d, ds_starting := [] @ Published cfg ch # []\<rparr>"
  let ?s3 = "(on_app_data (start_client cfg) ?s2)\<lparr>ds_starting := [] @ Linked cfg ch # []\<rparr>"
  let ?s4 = "(on_app_data (start_spawn ch (NodeLoop cfg (dt_path (ds_app ?s3)))) ?s3)\<lparr>ds_starting := [] @ []\<rparr>"
  have 1: "desk_step to_json s ?s1" by (rule cloned) (simp_all add: assms start_read_def)
  have 2: "desk_step to_json ?s1 ?s2" by (rule published) (simp_all add: p)
  have 3: "desk_step to_json ?s2 ?s3" by (rule linked) (simp_all add: d)
  have 4: "desk_step to_json ?s3 ?s4" by (rule spawned) simp
  have "?s4 = s\<lparr>ds_app := start_worker (ds_app s), ds_starting := []\<rparr>"
    using d p assms(1) by (simp add: start_worker_def start_read_def)
  then show ?thesis using 1 2 3 4 by (metis (no_types) r_into_rtranclp rtranclp.rtrancl_into_rtrancl)
qed

section \<open>Invariants\<close>

definition same_enrolment :: "node_config \<Rightarrow> node_config \<Rightarrow> bool" where
  "same_enrolment a b \<longleftrightarrow> nc_server a = nc_server b \<and> nc_name a = nc_name b \<and> nc_token a = nc_token b"

lemma same_enrolment_refl [simp]: "same_enrolment a a"
  by (simp add: same_enrolment_def)

fun stage_config :: "start_stage \<Rightarrow> node_config list" where
  "stage_config Kept = []"
| "stage_config (Cloned c) = [c]"
| "stage_config (Published c ch) = [c]"
| "stage_config (Linked c ch) = [c]"

fun stage_chan :: "start_stage \<Rightarrow> nat list" where
  "stage_chan (Published c ch) = [ch]"
| "stage_chan (Linked c ch) = [ch]"
| "stage_chan _ = []"

fun loop_config :: "loop_kind \<Rightarrow> node_config list" where
  "loop_config MockLoop = []"
| "loop_config (NodeLoop c path) = [c]"

text \<open>Every channel has one owner, and all but the one stored last have lost their sender.\<close>

definition chans_ok :: "desk_system \<Rightarrow> bool" where
  "chans_ok s \<longleftrightarrow>
     distinct (map fst (dt_loops (ds_app s)) @ concat (map stage_chan (ds_starting s)))
     \<and> (\<forall>ch \<in> set (map fst (dt_loops (ds_app s)) @ concat (map stage_chan (ds_starting s))). ch < dt_chans (ds_app s))
     \<and> (\<forall>ch < dt_chans (ds_app s). dt_stop_tx (ds_app s) = Some ch \<or> ch \<in> set (dt_closed (ds_app s)))"

text \<open>Every configuration in use is one of an enrolment that there has been.\<close>

definition configs :: "desk_system \<Rightarrow> node_config list" where
  "configs s = (case dt_cfg (ds_app s) of Some c \<Rightarrow> [c] | None \<Rightarrow> []) @ ds_saved s @ concat (map stage_config (ds_starting s))
     @ concat (map (loop_config \<circ> snd) (dt_loops (ds_app s)))"

definition known_ok :: "desk_system \<Rightarrow> bool" where
  "known_ok s \<longleftrightarrow> (\<forall>c \<in> set (configs s). \<exists>k \<in> set (ds_known s). same_enrolment c k)"

text \<open>As long as enrolments did not overlap: the loop runs with the configuration in memory, and before there is a loop its start is on the way to that.\<close>

definition runs_config :: "desktop \<Rightarrow> node_config \<Rightarrow> bool" where
  "runs_config d cfg \<longleftrightarrow> (\<exists>ch k. dt_loops d = [(ch, k)] \<and> dt_stop_tx d = Some ch
     \<and> (if dt_mock d then k = MockLoop
        else dt_client d = Some (server_client_new (nc_server cfg) (nc_token cfg)) \<and> (\<exists>c. k = NodeLoop c (dt_path d) \<and> same_enrolment c cfg)))"

fun stage_fits :: "desktop \<Rightarrow> node_config \<Rightarrow> start_stage \<Rightarrow> bool" where
  "stage_fits d cfg Kept \<longleftrightarrow> True"
| "stage_fits d cfg (Cloned c) \<longleftrightarrow> same_enrolment c cfg"
| "stage_fits d cfg (Published c ch) \<longleftrightarrow> same_enrolment c cfg \<and> dt_stop_tx d = Some ch"
| "stage_fits d cfg (Linked c ch) \<longleftrightarrow> same_enrolment c cfg \<and> dt_stop_tx d = Some ch \<and> \<not> dt_mock d
     \<and> dt_client d = Some (server_client_new (nc_server cfg) (nc_token cfg))"

definition alone_ok :: "desk_system \<Rightarrow> bool" where
  "alone_ok s \<longleftrightarrow>
     (case dt_cfg (ds_app s) of
        None \<Rightarrow> ds_starting s = [] \<and> dt_loops (ds_app s) = [] \<and> length (ds_asking s) + length (ds_saved s) \<le> 1
      | Some cfg \<Rightarrow> ds_asking s = [] \<and> ds_saved s = []
          \<and> (ds_starting s = [] \<and> runs_config (ds_app s) cfg
             \<or> (\<exists>st. ds_starting s = [st] \<and> dt_loops (ds_app s) = [] \<and> stage_fits (ds_app s) cfg st)))"

text \<open>Mock mode touches neither the disk nor the network.\<close>

definition mock_ok :: "desktop \<Rightarrow> desk_system \<Rightarrow> bool" where
  "mock_ok d0 s \<longleftrightarrow> dt_mock (ds_app s) = dt_mock d0
     \<and> (dt_mock d0 \<longrightarrow> dt_disk (ds_app s) = dt_disk d0 \<and> dt_posts (ds_app s) = dt_posts d0 \<and> ds_asking s = [] \<and> dt_client (ds_app s) = None
          \<and> snd ` set (dt_loops (ds_app s)) \<subseteq> {MockLoop} \<and> (\<forall>c ch. Linked c ch \<notin> set (ds_starting s)))"

lemmas app_defs = keep_config_def save_config_def enroll_post_def
  start_read_def start_publish_def start_client_def start_spawn_def

text \<open>The key command changes the key and the file only.\<close>

lemma set_key_same:
  "dt_loops (snd (ui_set_key to_json now key d)) = dt_loops d" "dt_chans (snd (ui_set_key to_json now key d)) = dt_chans d"
  "dt_closed (snd (ui_set_key to_json now key d)) = dt_closed d" "dt_stop_tx (snd (ui_set_key to_json now key d)) = dt_stop_tx d"
  "dt_client (snd (ui_set_key to_json now key d)) = dt_client d" "dt_mock (snd (ui_set_key to_json now key d)) = dt_mock d"
  "dt_path (snd (ui_set_key to_json now key d)) = dt_path d" "dt_posts (snd (ui_set_key to_json now key d)) = dt_posts d"
  "dt_mock d \<Longrightarrow> dt_disk (snd (ui_set_key to_json now key d)) = dt_disk d"
  "dt_cfg (snd (ui_set_key to_json now key d)) = map_option (\<lambda>c. c\<lparr>nc_riot_api_key := trim key\<rparr>) (dt_cfg d)"
  by (auto simp: ui_set_key_def keep_config_def save_config_def Let_def split: option.split)

lemma stats_same:
  "dt_loops (snd (ui_fetch_stats st net tab d)) = dt_loops d" "dt_chans (snd (ui_fetch_stats st net tab d)) = dt_chans d"
  "dt_closed (snd (ui_fetch_stats st net tab d)) = dt_closed d" "dt_stop_tx (snd (ui_fetch_stats st net tab d)) = dt_stop_tx d"
  "dt_client (snd (ui_fetch_stats st net tab d)) = dt_client d" "dt_mock (snd (ui_fetch_stats st net tab d)) = dt_mock d"
  "dt_path (snd (ui_fetch_stats st net tab d)) = dt_path d" "dt_cfg (snd (ui_fetch_stats st net tab d)) = dt_cfg d"
  "dt_disk (snd (ui_fetch_stats st net tab d)) = dt_disk d" "dt_mock d \<Longrightarrow> dt_posts (snd (ui_fetch_stats st net tab d)) = dt_posts d"
  by (auto simp: ui_fetch_stats_def split: option.split)

lemma quit_same:
  "dt_loops (ui_quit d) = dt_loops d" "dt_chans (ui_quit d) = dt_chans d" "dt_closed (ui_quit d) = dt_closed d"
  "dt_stop_tx (ui_quit d) = dt_stop_tx d" "dt_client (ui_quit d) = dt_client d" "dt_mock (ui_quit d) = dt_mock d"
  "dt_path (ui_quit d) = dt_path d" "dt_cfg (ui_quit d) = dt_cfg d" "dt_disk (ui_quit d) = dt_disk d" "dt_posts (ui_quit d) = dt_posts d"
  by (simp_all add: ui_quit_def split: option.split)

lemmas command_same = set_key_same stats_same quit_same

lemma rekeyed [simp]: "same_enrolment c (c'\<lparr>nc_riot_api_key := k\<rparr>) = same_enrolment c c'" "same_enrolment (c\<lparr>nc_riot_api_key := k\<rparr>) c' = same_enrolment c c'"
  by (simp_all add: same_enrolment_def)

lemma step_chans: "desk_step to_json s s' \<Longrightarrow> chans_ok s \<Longrightarrow> chans_ok s'"
proof (induction rule: desk_step.induct)
  case (published s as cfg bs ch d)
  have d: "ch = dt_chans (ds_app s)" "dt_loops d = dt_loops (ds_app s)" "dt_chans d = Suc ch" "dt_stop_tx d = Some ch"
    "dt_closed d = (case dt_stop_tx (ds_app s) of Some old \<Rightarrow> old # dt_closed (ds_app s) | None \<Rightarrow> dt_closed (ds_app s))"
    using published.hyps(2) by (auto simp: start_publish_def)
  have "\<forall>c \<in> set (map fst (dt_loops (ds_app s)) @ concat (map stage_chan (ds_starting s))). c < ch" using published.prems by (simp add: chans_ok_def d(1))
  then show ?case using published.prems published.hyps(1) by (auto simp: chans_ok_def d less_Suc_eq split: option.splits)
qed (auto simp: chans_ok_def app_defs command_same split: option.splits)

lemma step_known: "desk_step to_json s s' \<Longrightarrow> known_ok s \<Longrightarrow> known_ok s'"
proof (induction rule: desk_step.induct)
  case (published s as cfg bs ch d)
  have "dt_loops d = dt_loops (ds_app s)" "dt_cfg d = dt_cfg (ds_app s)" using published.hyps(2) by (auto simp: start_publish_def)
  then show ?case using published by (auto simp: known_ok_def configs_def)
next
  case (kept s as cfg bs)
  then show ?case by (auto simp: known_ok_def configs_def keep_config_def split: option.splits)
next
  case (granted s as f bs now er)
  then show ?case by (auto simp: known_ok_def configs_def save_config_def)
next
  case (mocked s f)
  then show ?case by (auto simp: known_ok_def configs_def)
qed (auto simp: known_ok_def configs_def app_defs command_same split: option.splits)

lemma step_mock: "desk_step to_json s s' \<Longrightarrow> mock_ok d0 s \<Longrightarrow> mock_ok d0 s'"
  by (induction rule: desk_step.induct) (auto simp: mock_ok_def app_defs command_same)

lemma alone_key: "alone_ok s \<Longrightarrow> alone_ok (on_app_data (\<lambda>d. snd (ui_set_key to_json now key d)) s)"
proof (cases "dt_cfg (ds_app s)")
  case (Some cfg)
  assume a: "alone_ok s"
  have "stage_fits (snd (ui_set_key to_json now key d)) (cfg\<lparr>nc_riot_api_key := trim key\<rparr>) st = stage_fits d cfg st" for d st
    by (cases st) (simp_all add: command_same)
  moreover have "runs_config (snd (ui_set_key to_json now key d)) (cfg\<lparr>nc_riot_api_key := trim key\<rparr>) = runs_config d cfg" for d
    by (simp add: runs_config_def command_same)
  ultimately show ?thesis using a Some by (auto simp: alone_ok_def command_same)
qed (simp add: alone_ok_def command_same)

lemma alone_same:
  assumes "alone_ok s" "dt_cfg d = dt_cfg (ds_app s)" "dt_stop_tx d = dt_stop_tx (ds_app s)" "dt_client d = dt_client (ds_app s)"
    "dt_mock d = dt_mock (ds_app s)" "dt_path d = dt_path (ds_app s)" "dt_loops d = dt_loops (ds_app s)"
  shows "alone_ok (s\<lparr>ds_app := d\<rparr>)"
proof -
  have "stage_fits d cfg st = stage_fits (ds_app s) cfg st" for cfg st using assms by (cases st) simp_all
  moreover have "runs_config d cfg = runs_config (ds_app s) cfg" for cfg using assms by (simp add: runs_config_def)
  ultimately show ?thesis using assms(1,2,7) by (simp add: alone_ok_def split: option.splits)
qed

lemma alone_starting:
  assumes "alone_ok s" "ds_starting s = as @ st # bs"
  obtains cfg where "as = []" "bs = []" "dt_cfg (ds_app s) = Some cfg" "stage_fits (ds_app s) cfg st"
    "ds_asking s = []" "ds_saved s = []" "dt_loops (ds_app s) = []"
proof (cases "dt_cfg (ds_app s)")
  case (Some cfg)
  then have a: "ds_asking s = []" "ds_saved s = []" "\<exists>x. ds_starting s = [x] \<and> dt_loops (ds_app s) = [] \<and> stage_fits (ds_app s) cfg x"
    using assms by (auto simp: alone_ok_def)
  then have "as = []" "bs = []" "dt_loops (ds_app s) = []" "stage_fits (ds_app s) cfg st" using assms(2) by (cases as; auto)+
  with a(1,2) Some show ?thesis by (intro that)
qed (use assms in \<open>simp add: alone_ok_def\<close>)

lemma step_alone:
  assumes "desk_step to_json s s'" "\<not> ds_overlap s \<longrightarrow> alone_ok s" "\<not> ds_overlap s'"
  shows "alone_ok s'"
  using assms
proof (induction rule: desk_step.induct)
  case (asked s f)
  then show ?case by (auto simp: alone_ok_def enrolling_def enroll_post_def)
next
  case (mocked s f)
  then show ?case by (auto simp: alone_ok_def enrolling_def)
next
  case (refused s as f bs)
  then show ?case by (auto simp: alone_ok_def split: option.splits)
next
  case (granted s as f bs now er)
  then show ?case by (auto simp: alone_ok_def save_config_def split: option.splits)
next
  case (kept s as cfg bs)
  then show ?case by (auto simp: alone_ok_def keep_config_def split: option.splits)
next
  case (nothing s as bs)
  have "alone_ok s" using nothing.prems by simp
  then obtain c where "dt_cfg (ds_app s) = Some c" using nothing.hyps(1) by (rule alone_starting)
  then show ?case using nothing.hyps(2) by (simp add: start_read_def)
next
  case (cloned s as bs cfg)
  have "alone_ok s" using cloned.prems by simp
  then obtain c where "as = []" "bs = []" "dt_cfg (ds_app s) = Some c" "ds_asking s = []" "ds_saved s = []" "dt_loops (ds_app s) = []"
    using cloned.hyps(1) by (rule alone_starting)
  then show ?case using cloned.hyps(2) by (simp add: alone_ok_def start_read_def)
next
  case (published s as cfg bs ch d)
  have "alone_ok s" using published.prems by simp
  then obtain c where "as = []" "bs = []" "dt_cfg (ds_app s) = Some c" "stage_fits (ds_app s) c (Cloned cfg)"
    "ds_asking s = []" "ds_saved s = []" "dt_loops (ds_app s) = []" using published.hyps(1) by (rule alone_starting)
  then show ?case using published.hyps(2) by (auto simp: alone_ok_def start_publish_def)
next
  case (mock_spawned s as cfg ch bs)
  have "alone_ok s" using mock_spawned.prems by simp
  then obtain c where "as = []" "bs = []" "dt_cfg (ds_app s) = Some c" "stage_fits (ds_app s) c (Published cfg ch)"
    "ds_asking s = []" "ds_saved s = []" "dt_loops (ds_app s) = []" using mock_spawned.hyps(1) by (rule alone_starting)
  then show ?case using mock_spawned.hyps(2) by (simp add: alone_ok_def start_spawn_def runs_config_def)
next
  case (linked s as cfg ch bs)
  have "alone_ok s" using linked.prems by simp
  then obtain c where "as = []" "bs = []" "dt_cfg (ds_app s) = Some c" "stage_fits (ds_app s) c (Published cfg ch)"
    "ds_asking s = []" "ds_saved s = []" "dt_loops (ds_app s) = []" using linked.hyps(1) by (rule alone_starting)
  then show ?case using linked.hyps(2) by (simp add: alone_ok_def start_client_def same_enrolment_def)
next
  case (spawned s as cfg ch bs)
  have "alone_ok s" using spawned.prems by simp
  then obtain c where "as = []" "bs = []" "dt_cfg (ds_app s) = Some c" "stage_fits (ds_app s) c (Linked cfg ch)"
    "ds_asking s = []" "ds_saved s = []" "dt_loops (ds_app s) = []" using spawned.hyps(1) by (rule alone_starting)
  then show ?case by (simp add: alone_ok_def start_spawn_def runs_config_def)
next
  case (key_set s now key)
  then show ?case using alone_key by simp
next
  case (stats s status_text net)
  then show ?case by (intro alone_same) (simp_all add: command_same)
next
  case (quitted s)
  then show ?case by (intro alone_same) (simp_all add: command_same)
qed

lemma desk_reach_inv:
  assumes "desk_reach to_json (desktop_setup from_json dir argv env d) s"
  shows "chans_ok s \<and> known_ok s \<and> (\<not> ds_overlap s \<longrightarrow> alone_ok s) \<and> mock_ok (desktop_new from_json dir argv env d) s"
  using assms unfolding desk_reach_def
proof (induction rule: rtranclp_induct)
  case base
  show ?case
    by (cases "dt_cfg (desktop_new from_json dir argv env d)")
      (auto simp: desk_init_def desktop_setup_def start_worker_def app_defs chans_ok_def known_ok_def configs_def alone_ok_def runs_config_def mock_ok_def
        desktop_new_def Let_def split: if_splits)
next
  case (step s s')
  then show ?case using step_chans step_known step_alone step_mock by blast
qed

lemma reach_trans: "desk_reach to_json d s \<Longrightarrow> desk_step to_json s s' \<Longrightarrow> desk_reach to_json d s'"
  unfolding desk_reach_def by (rule rtranclp.rtrancl_into_rtrancl)

lemma one_alive:
  assumes "chans_ok s" "loop_alive (ds_app s) i" "loop_alive (ds_app s) j"
  shows "i = j"
proof -
  let ?cs = "map fst (dt_loops (ds_app s))"
  have "?cs ! x < dt_chans (ds_app s)" if "x < length ?cs" for x using assms(1) nth_mem[OF that] by (auto simp: chans_ok_def)
  then have "dt_stop_tx (ds_app s) = Some (?cs ! x)" if "loop_alive (ds_app s) x" for x
    using assms(1) that by (auto simp: chans_ok_def loop_alive_def)
  then have "?cs ! i = ?cs ! j" using assms(2,3) by (metis option.inject)
  moreover have "distinct ?cs" "i < length ?cs" "j < length ?cs" using assms by (simp_all add: chans_ok_def loop_alive_def)
  ultimately show ?thesis using nth_eq_iff_index_eq by blast
qed

section \<open>Sample steps\<close>

text \<open>What the overlapping enrolments below depend on.\<close>

record desk_view =
  dv_cfg :: "node_config option"
  dv_disk :: "node_error + node_config option"
  dv_asking :: "enroll_form list"
  dv_saved :: "node_config list"
  dv_starting :: "start_stage list"
  dv_chans :: nat
  dv_tx :: "nat option"
  dv_closed :: "nat list"
  dv_told :: "nat list"
  dv_loops :: "(nat \<times> loop_kind) list"
  dv_path :: string

definition view_of :: "desk_system \<Rightarrow> desk_view" where
  "view_of s = (let d = ds_app s in
     \<lparr>dv_cfg = dt_cfg d, dv_disk = config_load sample_from_json (dt_path d) (dt_disk d), dv_asking = ds_asking s, dv_saved = ds_saved s,
      dv_starting = ds_starting s, dv_chans = dt_chans d, dv_tx = dt_stop_tx d, dv_closed = dt_closed d, dv_told = dt_told d,
      dv_loops = dt_loops d, dv_path = dt_path d\<rparr>)"

text \<open>A view that some reachable state of the real mode shows.\<close>

definition shown :: "desktop \<Rightarrow> desk_view \<Rightarrow> bool" where
  "shown d v \<longleftrightarrow> (\<exists>s. desk_reach sample_to_json d s \<and> \<not> dt_mock (ds_app s) \<and> view_of s = v)"

lemma shown_step:
  assumes "shown d v" "\<And>s. \<not> dt_mock (ds_app s) \<Longrightarrow> view_of s = v \<Longrightarrow> \<exists>s'. desk_step sample_to_json s s' \<and> \<not> dt_mock (ds_app s') \<and> view_of s' = v'"
  shows "shown d v'"
proof -
  obtain s where s: "desk_reach sample_to_json d s" "\<not> dt_mock (ds_app s)" "view_of s = v" using assms(1) by (auto simp: shown_def)
  from assms(2)[OF s(2,3)] obtain s' where "desk_step sample_to_json s s'" "\<not> dt_mock (ds_app s')" "view_of s' = v'" by blast
  then show ?thesis using reach_trans[OF s(1)] by (auto simp: shown_def)
qed

lemma shown_asked: "shown d v \<Longrightarrow> dv_cfg v = None \<Longrightarrow> shown d (v\<lparr>dv_asking := f # dv_asking v\<rparr>)"
  by (erule shown_step, intro exI conjI, rule asked[where f = f]) (auto simp: view_of_def Let_def enroll_post_def)

lemma shown_granted:
  assumes "shown d v" "dv_asking v = f # as"
  shows "shown d (v\<lparr>dv_asking := as, dv_disk := Inr (Some (granted_config f er)), dv_saved := granted_config f er # dv_saved v\<rparr>)"
proof -
  have j: "sample_from_json (sample_to_json g) = Some g" for g using sample_json[of "\<lambda>_. None" 5] by (simp add: json_ok_def sample_io_def)
  show ?thesis
    by (rule shown_step[OF assms(1)], intro exI conjI, rule granted[where as = "[]" and f = f and er = er and now = 1])
      (use assms(2) in \<open>auto simp: view_of_def Let_def save_config_def config_load_def config_save_def j\<close>)
qed

lemma shown_kept: "shown d v \<Longrightarrow> dv_saved v = as @ c # bs \<Longrightarrow> shown d (v\<lparr>dv_cfg := Some c, dv_saved := as @ bs, dv_starting := Kept # dv_starting v\<rparr>)"
  by (erule shown_step, intro exI conjI, rule kept[where as = as and cfg = c]) (auto simp: view_of_def Let_def keep_config_def)

lemma shown_cloned: "shown d v \<Longrightarrow> dv_starting v = as @ Kept # bs \<Longrightarrow> dv_cfg v = Some c \<Longrightarrow> shown d (v\<lparr>dv_starting := as @ Cloned c # bs\<rparr>)"
  by (erule shown_step, intro exI conjI, rule cloned[where as = as and cfg = c]) (auto simp: view_of_def Let_def start_read_def)

lemma shown_published:
  "shown d v \<Longrightarrow> dv_starting v = as @ Cloned c # bs \<Longrightarrow>
     shown d (v\<lparr>dv_starting := as @ Published c (dv_chans v) # bs, dv_chans := dv_chans v + 1, dv_tx := Some (dv_chans v),
       dv_closed := (case dv_tx v of Some old \<Rightarrow> old # dv_closed v | None \<Rightarrow> dv_closed v)\<rparr>)"
  by (erule shown_step, intro exI conjI, rule published[where as = as and cfg = c, OF _ prod.collapse[symmetric]])
    (auto simp: view_of_def Let_def start_publish_def split: option.split)

lemma shown_linked: "shown d v \<Longrightarrow> dv_starting v = as @ Published c ch # bs \<Longrightarrow> shown d (v\<lparr>dv_starting := as @ Linked c ch # bs\<rparr>)"
  by (erule shown_step, intro exI conjI, rule linked[where as = as and cfg = c]) (auto simp: view_of_def Let_def start_client_def)

lemma shown_spawned:
  "shown d v \<Longrightarrow> dv_starting v = as @ Linked c ch # bs \<Longrightarrow>
     shown d (v\<lparr>dv_starting := as @ bs, dv_loops := dv_loops v @ [(ch, NodeLoop c (dv_path v))]\<rparr>)"
  by (erule shown_step, intro exI conjI, rule spawned[where as = as and cfg = c and ch = ch]) (auto simp: view_of_def Let_def start_spawn_def)

lemma shown_started:
  assumes "shown d v" "dv_starting v = as @ Cloned c # bs"
  shows "shown d (v\<lparr>dv_starting := as @ bs, dv_chans := dv_chans v + 1, dv_tx := Some (dv_chans v),
    dv_closed := (case dv_tx v of Some old \<Rightarrow> old # dv_closed v | None \<Rightarrow> dv_closed v),
    dv_loops := dv_loops v @ [(dv_chans v, NodeLoop c (dv_path v))]\<rparr>)"
proof -
  note p = shown_published[OF assms]
  from shown_linked[OF p, of as c "dv_chans v" bs]
  have "shown d (v\<lparr>dv_starting := as @ Linked c (dv_chans v) # bs, dv_chans := dv_chans v + 1, dv_tx := Some (dv_chans v),
      dv_closed := (case dv_tx v of Some old \<Rightarrow> old # dv_closed v | None \<Rightarrow> dv_closed v)\<rparr>)" by (cases v) simp
  from shown_spawned[OF this, of as c "dv_chans v" bs] show ?thesis by (cases v) simp
qed

section \<open>Properties\<close>

text \<open>C23: The desktop application never runs two node loops, and it runs the enrolment it shows unless enrolments overlap.  However the lock sections of enrolments and of
  starting their loops, key changes, statistics and quitting interleave, at most one loop has an open channel and was not told to stop, and every
  loop that was ever started runs with the server, name and token of an enrolment that was granted or was on disk.  As long as no enrolment passed the test on entry
  while another was under way: without an enrolment there is no loop, and with one, when its start is over, one loop was ever started, with the
  server, name and token in memory, and the client for the leaderboard has the same server and token.  In mock mode nothing is written to disk and no
  request is made.\<close>

theorem one_enrolled_loop:
  assumes "desk_reach to_json (desktop_setup from_json dir argv env disk0) s"
  shows "(loop_alive (ds_app s) i \<and> loop_alive (ds_app s) j \<longrightarrow> i = j)
    \<and> ((ch, NodeLoop c path) \<in> set (dt_loops (ds_app s)) \<longrightarrow> (\<exists>k \<in> set (ds_known s). same_enrolment c k))
    \<and> (\<not> ds_overlap s \<longrightarrow> (case dt_cfg (ds_app s) of
        None \<Rightarrow> dt_loops (ds_app s) = []
      | Some cfg \<Rightarrow> ds_starting s = [] \<longrightarrow> (\<exists>ch k. dt_loops (ds_app s) = [(ch, k)] \<and> dt_stop_tx (ds_app s) = Some ch
          \<and> (if dt_mock (ds_app s) then k = MockLoop
             else dt_client (ds_app s) = Some (server_client_new (nc_server cfg) (nc_token cfg))
               \<and> (\<exists>c. k = NodeLoop c (dt_path (ds_app s)) \<and> same_enrolment c cfg)))))
    \<and> (mock_mode argv env \<longrightarrow> dt_disk (ds_app s) = disk0 \<and> dt_posts (ds_app s) = [] \<and> snd ` set (dt_loops (ds_app s)) \<subseteq> {MockLoop})"
proof -
  have I: "chans_ok s" "known_ok s" "\<not> ds_overlap s \<longrightarrow> alone_ok s" "mock_ok (desktop_new from_json dir argv env disk0) s"
    using desk_reach_inv[OF assms] by blast+
  have m: "dt_mock (desktop_new from_json dir argv env disk0) = mock_mode argv env" "dt_disk (desktop_new from_json dir argv env disk0) = disk0"
    "dt_posts (desktop_new from_json dir argv env disk0) = []" by (simp_all add: desktop_new_def Let_def)
  have "(ch, NodeLoop c path) \<in> set (dt_loops (ds_app s)) \<longrightarrow> c \<in> set (configs s)" by (force simp: configs_def)
  then have "(ch, NodeLoop c path) \<in> set (dt_loops (ds_app s)) \<longrightarrow> (\<exists>k \<in> set (ds_known s). same_enrolment c k)" using I(2) by (auto simp: known_ok_def)
  moreover have "\<not> ds_overlap s \<longrightarrow> (case dt_cfg (ds_app s) of None \<Rightarrow> dt_loops (ds_app s) = [] | Some cfg \<Rightarrow> ds_starting s = [] \<longrightarrow> runs_config (ds_app s) cfg)"
    using I(3) by (auto simp: alone_ok_def split: option.splits)
  moreover have "mock_mode argv env \<longrightarrow> dt_disk (ds_app s) = disk0 \<and> dt_posts (ds_app s) = [] \<and> snd ` set (dt_loops (ds_app s)) \<subseteq> {MockLoop}"
    using I(4) by (simp add: mock_ok_def m)
  ultimately show ?thesis using one_alive[OF I(1)] unfolding runs_config_def by blast
qed

theorem one_enrolled_loop_witness:
  "\<exists>s cfg. desk_reach sample_to_json (desktop_setup sample_from_json None [] None [default_path None \<mapsto> (Some (sample_to_json sample_config), 1)]) s
     \<and> dt_cfg (ds_app s) = Some cfg \<and> nc_riot_api_key cfg = ''K9'' \<and> length (dt_loops (ds_app s)) = 1
     \<and> dt_client (ds_app s) = Some (server_client_new (nc_server cfg) (nc_token cfg))"
proof -
  let ?d = "desktop_setup sample_from_json None [] None [default_path None \<mapsto> (Some (sample_to_json sample_config), 1)]"
  have "sample_from_json (sample_to_json sample_config) = Some sample_config"
    using sample_json[of "\<lambda>_. None" 5] by (simp add: json_ok_def sample_io_def)
  then have d: "dt_cfg ?d = Some sample_config" "\<not> dt_mock ?d"
    by (simp_all add: desktop_setup_def desktop_new_def mock_mode_def config_load_def start_worker_def app_defs Let_def)
  let ?s = "on_app_data (\<lambda>d. snd (ui_set_key sample_to_json 7 ''K9'' d)) (desk_init ?d)"
  have 0: "desk_reach sample_to_json ?d (desk_init ?d)" by (simp add: desk_reach_def)
  have r: "desk_reach sample_to_json ?d ?s" by (rule reach_trans[OF 0 key_set])
  have "trim ''K9'' = ''K9''" by (simp add: trim_def is_space_def)
  then have "dt_cfg (ds_app ?s) = Some (sample_config\<lparr>nc_riot_api_key := ''K9''\<rparr>)" "ds_starting ?s = []" "\<not> ds_overlap ?s" "\<not> dt_mock (ds_app ?s)"
    using d by (simp_all add: desk_init_def command_same)
  then obtain s where s: "desk_reach sample_to_json ?d s" "dt_cfg (ds_app s) = Some (sample_config\<lparr>nc_riot_api_key := ''K9''\<rparr>)"
    "ds_starting s = []" "\<not> ds_overlap s" "\<not> dt_mock (ds_app s)" using r by blast
  from one_enrolled_loop[OF s(1), where i = 0 and j = 0 and ch = 0 and c = sample_config and path = "[]"] s(2-5) obtain ch k where "dt_loops (ds_app s) = [(ch, k)]"
    "dt_client (ds_app s) = Some (server_client_new (nc_server sample_config) (nc_token sample_config))" by auto
  then show ?thesis using s(1,2) by (intro exI[of _ s] exI[of _ "sample_config\<lparr>nc_riot_api_key := ''K9''\<rparr>"]) simp
qed

text \<open>Two enrolments that overlap can leave the application running an enrolment that it does not show: both pass the test on entry and are granted; the first keeps its
  configuration and reads it back to start its loop; then the second keeps its own and starts its loop; then the first goes on, replaces the
  channel, which stops the second loop, and starts its loop.  Nothing is under way any more, the configuration in memory is the second one, the loop that runs
  and the file that the next start reads have the first one.\<close>

theorem overlapping_enrolments_diverge:
  "\<exists>s cfg cfg' i ch. desk_reach sample_to_json (desktop_setup sample_from_json None [] None (\<lambda>_. None)) s
     \<and> \<not> enrolling s \<and> dt_cfg (ds_app s) = Some cfg
     \<and> loop_alive (ds_app s) i \<and> dt_loops (ds_app s) ! i = (ch, NodeLoop cfg' (dt_path (ds_app s)))
     \<and> config_load sample_from_json (dt_path (ds_app s)) (dt_disk (ds_app s)) = Inr (Some cfg') \<and> nc_token cfg \<noteq> nc_token cfg'"
proof -
  let ?d = "desktop_setup sample_from_json None [] None (\<lambda>_. None)"
  let ?f = "\<lparr>ef_server = ''s'', ef_name = ''n'', ef_invite = ''i'', ef_key = ''k''\<rparr>"
  let ?ea = "\<lparr>es_token = ''a'', es_name = ''n''\<rparr>" and ?eb = "\<lparr>es_token = ''b'', es_name = ''m''\<rparr>"
  let ?a = "granted_config ?f ?ea" and ?b = "granted_config ?f ?eb"
  let ?v = "\<lparr>dv_cfg = None, dv_disk = Inr None, dv_asking = [], dv_saved = [], dv_starting = [], dv_chans = 0, dv_tx = None, dv_closed = [], dv_told = [],
    dv_loops = [], dv_path = dt_path ?d\<rparr>"
  have "view_of (desk_init ?d) = ?v" "\<not> dt_mock (ds_app (desk_init ?d))"
    by (simp_all add: view_of_def desk_init_def desktop_setup_def desktop_new_def mock_mode_def config_load_def start_worker_def app_defs Let_def)
  then have "shown ?d ?v" unfolding shown_def desk_reach_def by blast
  from shown_asked[OF this, of ?f] have "shown ?d (?v\<lparr>dv_asking := [?f]\<rparr>)" by simp
  from shown_asked[OF this, of ?f] have "shown ?d (?v\<lparr>dv_asking := [?f, ?f]\<rparr>)" by simp
  from shown_granted[OF this, where er = ?eb] have "shown ?d (?v\<lparr>dv_asking := [?f], dv_disk := Inr (Some ?b), dv_saved := [?b]\<rparr>)" by simp
  from shown_granted[OF this, where er = ?ea] have "shown ?d (?v\<lparr>dv_disk := Inr (Some ?a), dv_saved := [?a, ?b]\<rparr>)" by simp
  from shown_kept[OF this, of "[]"] have "shown ?d (?v\<lparr>dv_cfg := Some ?a, dv_disk := Inr (Some ?a), dv_saved := [?b], dv_starting := [Kept]\<rparr>)" by simp
  from shown_cloned[OF this, of "[]"] have "shown ?d (?v\<lparr>dv_cfg := Some ?a, dv_disk := Inr (Some ?a), dv_saved := [?b], dv_starting := [Cloned ?a]\<rparr>)" by simp
  from shown_kept[OF this, of "[]"] have "shown ?d (?v\<lparr>dv_cfg := Some ?b, dv_disk := Inr (Some ?a), dv_starting := [Kept, Cloned ?a]\<rparr>)" by simp
  from shown_cloned[OF this, of "[]"] have "shown ?d (?v\<lparr>dv_cfg := Some ?b, dv_disk := Inr (Some ?a), dv_starting := [Cloned ?b, Cloned ?a]\<rparr>)" by simp
  from shown_started[OF this, of "[]"] have "shown ?d (?v\<lparr>dv_cfg := Some ?b, dv_disk := Inr (Some ?a), dv_starting := [Cloned ?a], dv_chans := 1, dv_tx := Some 0,
      dv_loops := [(0, NodeLoop ?b (dt_path ?d))]\<rparr>)" by simp
  from shown_started[OF this, of "[]"] have "shown ?d (?v\<lparr>dv_cfg := Some ?b, dv_disk := Inr (Some ?a), dv_chans := 2, dv_tx := Some 1,
      dv_closed := [0], dv_loops := [(0, NodeLoop ?b (dt_path ?d)), (1, NodeLoop ?a (dt_path ?d))]\<rparr>)" by (simp add: numeral_2_eq_2)
  then obtain s where r: "desk_reach sample_to_json ?d s" and v: "view_of s = ?v\<lparr>dv_cfg := Some ?b, dv_disk := Inr (Some ?a), dv_chans := 2, dv_tx := Some 1,
      dv_closed := [0], dv_loops := [(0, NodeLoop ?b (dt_path ?d)), (1, NodeLoop ?a (dt_path ?d))]\<rparr>" by (auto simp: shown_def)
  have "\<not> enrolling s" "dt_cfg (ds_app s) = Some ?b" "loop_alive (ds_app s) 1" "dt_loops (ds_app s) ! 1 = (1, NodeLoop ?a (dt_path (ds_app s)))"
    "config_load sample_from_json (dt_path (ds_app s)) (dt_disk (ds_app s)) = Inr (Some ?a)"
    using v by (auto simp: view_of_def Let_def enrolling_def loop_alive_def)
  moreover have "nc_token ?b \<noteq> nc_token ?a" by (simp add: granted_config_def)
  ultimately show ?thesis using r by blast
qed

end
