(* ===== verification/Metrics.thy ===== *)
theory Metrics
  imports Api
begin

text \<open>
  The throughput reporter of the server (\<^verbatim>\<open>crates/server/src/metrics.rs\<close>): the counters of stored games per platform and the line
  printed every minute, with the growth of each counter since the line before.

  Hash maps are partial maps, with the order of an iteration as an argument.  The subtractions of the reporter are on \<^verbatim>\<open>u64\<close>: where one would
  go below zero the result is \<open>None\<close>; a build with overflow checks panics there, which ends the reporter, and one without prints a
  number near \<open>2 ^ 64\<close>.
\<close>

section \<open>Counters\<close>

type_synonym counters = "string \<Rightarrow> nat option"

definition metrics_new :: "string list \<Rightarrow> counters" where
  "metrics_new platforms = fold (\<lambda>p games. games(p \<mapsto> 0)) platforms Map.empty"

definition inc_games :: "string \<Rightarrow> counters \<Rightarrow> counters" where
  "inc_games plat games = (case games plat of Some n \<Rightarrow> games(plat \<mapsto> n + 1) | None \<Rightarrow> games)"

definition totals :: "string list \<Rightarrow> counters \<Rightarrow> (string \<times> nat) list" where
  "totals order games = sort (List.map_filter (\<lambda>p. map_option (Pair p) (games p)) order)"

section \<open>The line\<close>

definition last_count :: "counters \<Rightarrow> string \<Rightarrow> nat" where
  "last_count prev p = (case prev p of Some n \<Rightarrow> n | None \<Rightarrow> 0)"

text \<open>One pass over counters: \<^verbatim>\<open>prev.insert(name, total).unwrap_or(0)\<close> and the difference.\<close>

fun deltas :: "(string \<times> nat) list \<Rightarrow> counters \<Rightarrow> ((string \<times> nat \<times> nat) list \<times> counters) option" where
  "deltas [] prev = Some ([], prev)"
| "deltas ((p, tot) # xs) prev =
     (let before = last_count prev p; prev = prev(p \<mapsto> tot) in
      if tot < before then None
      else map_option (apfst (Cons (p, tot - before, tot))) (deltas xs prev))"

definition counter_text :: "string \<times> nat \<times> nat \<Rightarrow> string" where
  "counter_text x = (case x of (p, d, tot) \<Rightarrow> p @ ''=+'' @ show_nat d @ '' (total '' @ show_nat tot @ '')'')"

definition counters_line :: "(string \<times> nat \<times> nat) list \<Rightarrow> string" where
  "counters_line xs = join_with ''  '' (map counter_text xs)"

definition node_text :: "node_report \<Rightarrow> nat \<Rightarrow> string" where
  "node_text r d =
     (let s = rep_name r @ ''=+'' @ show_nat d;
          s = (if rep_audits_pass r + rep_audits_soft_fail r + rep_audits_hard_fail r > 0
               then s @ '' audits:'' @ show_nat (rep_audits_pass r) @ ''ok/'' @ show_nat (rep_audits_soft_fail r) @ ''soft/''
                      @ show_nat (rep_audits_hard_fail r) @ ''FAIL''
               else s);
          s = (if rep_key_bad r then s @ '' KEY-BAD'' else s)
      in case idle_secs r of
           Some i \<Rightarrow> if i > 120 then s @ '' idle:'' @ show_nat (i div 60) @ ''m'' else s
         | None \<Rightarrow> s @ '' offline'')"

definition completed_counts :: "node_report list \<Rightarrow> (string \<times> nat) list" where
  "completed_counts reports = map (\<lambda>r. (rep_name r, rep_completed r)) reports"

definition nodes_line :: "node_report list \<Rightarrow> (string \<times> nat \<times> nat) list \<Rightarrow> string" where
  "nodes_line reports ds =
     (if reports = [] then ''none enrolled''
      else join_with ''  '' (map2 (\<lambda>r (_, d, _). node_text r d) reports ds))"

record reporter =
  rs_prev_games :: counters
  rs_prev_valid :: counters
  rs_prev_reqs :: counters
  rs_window :: nat

definition reporter_new :: reporter where
  "reporter_new = \<lparr>rs_prev_games = Map.empty, rs_prev_valid = Map.empty, rs_prev_reqs = Map.empty, rs_window = 0\<rparr>"

text \<open>One turn of the loop after its sleep: the totals of the metrics and of the store, the report of the registry and the depth of the broker.\<close>

definition report_tick ::
  "(string \<times> nat) list \<Rightarrow> (string \<times> nat) list \<Rightarrow> node_report list \<Rightarrow> nat \<times> nat \<Rightarrow> reporter \<Rightarrow> (string \<times> reporter) option" where
  "report_tick games valid reports d rs =
     (let window = rs_window rs + 1 in
      Option.bind (deltas games (rs_prev_games rs)) (\<lambda>(gs, prev_games).
      Option.bind (deltas valid (rs_prev_valid rs)) (\<lambda>(vs, prev_valid).
      Option.bind (deltas (completed_counts reports) (rs_prev_reqs rs)) (\<lambda>(ns, prev_reqs).
      Some (''[window '' @ (if window < 10 then ''0'' else []) @ show_nat window @ ''] games/60s: '' @ counters_line gs
              @ '' | valid samples: '' @ counters_line vs @ '' | nodes: '' @ nodes_line reports ns
              @ '' | jobs: '' @ show_nat (fst d) @ '' queued, '' @ show_nat (snd d) @ '' leased'',
            \<lparr>rs_prev_games = prev_games, rs_prev_valid = prev_valid, rs_prev_reqs = prev_reqs, rs_window = window\<rparr>)))))"

text \<open>The turn on the state of the server; \<open>order1\<close> to \<open>order3\<close> are the iterations over the counters, the nodes and the jobs.\<close>

definition reporter_turn ::
  "string list \<Rightarrow> nat list \<Rightarrow> nat list \<Rightarrow> nat \<Rightarrow> counters \<Rightarrow> server \<Rightarrow> reporter \<Rightarrow> (string \<times> reporter) option" where
  "reporter_turn order1 order2 order3 now games sv rs =
     report_tick (totals order1 games) (map (apsnd unat) (valid_sample_totals (sv_store sv)))
       (report order2 now (sv_registry sv)) (depth order3 (sv_broker sv)) rs"

section \<open>Runs\<close>

datatype report_event = Stored string | Tick "string list"

text \<open>Games stored and minutes passing, with what the reporter printed about games.  This is the part of the loop that subtracts game counters; its
  subtractions over valid samples and over the nodes are part of the line above and not of these runs.\<close>

fun report_run :: "report_event list \<Rightarrow> counters \<times> counters \<times> (string \<times> nat \<times> nat) list \<Rightarrow> (counters \<times> counters \<times> (string \<times> nat \<times> nat) list) option" where
  "report_run [] st = Some st"
| "report_run (Stored p # evs) (games, prev, lns) = report_run evs (inc_games p games, prev, lns)"
| "report_run (Tick order # evs) (games, prev, lns) =
     (case deltas (totals order games) prev of
        None \<Rightarrow> None
      | Some (ds, prev) \<Rightarrow> report_run evs (games, prev, lns @ ds))"

definition printed :: "string \<Rightarrow> (string \<times> nat \<times> nat) list \<Rightarrow> nat" where
  "printed p lns = sum_list (map (\<lambda>(q, d, _). if q = p then d else 0) lns)"

lemma printed_simps [simp]:
  "printed p [] = 0" "printed p ((q, d, t) # xs) = (if q = p then d else 0) + printed p xs" "printed p (xs @ ys) = printed p xs + printed p ys"
  by (simp_all add: printed_def)

lemma deltas_grow:
  assumes "distinct (map fst xs)" "\<And>p t. (p, t) \<in> set xs \<Longrightarrow> last_count prev p \<le> t"
  shows "\<exists>ys. deltas xs prev = Some (ys, prev ++ map_of xs)
    \<and> (\<forall>p. printed p ys + last_count prev p = last_count (prev ++ map_of xs) p)"
  using assms
proof (induction xs arbitrary: prev)
  case (Cons x xs)
  obtain p t where x: "x = (p, t)" by fastforce
  have "\<And>q u. (q, u) \<in> set xs \<Longrightarrow> last_count (prev(p \<mapsto> t)) q \<le> u"
    using Cons.prems by (force simp: x last_count_def)
  moreover have "distinct (map fst xs)" using Cons.prems(1) by simp
  ultimately obtain ys where ys: "deltas xs (prev(p \<mapsto> t)) = Some (ys, prev(p \<mapsto> t) ++ map_of xs)"
    "\<And>q. printed q ys + last_count (prev(p \<mapsto> t)) q = last_count (prev(p \<mapsto> t) ++ map_of xs) q" using Cons.IH by blast
  have p: "p \<notin> dom (map_of xs)" using Cons.prems(1) by (simp add: x dom_map_of_conv_image_fst)
  have m: "prev(p \<mapsto> t) ++ map_of xs = prev ++ map_of (x # xs)"
    using p by (auto simp: x fun_eq_iff map_add_def split: option.splits)
  have le: "last_count prev p \<le> t" using Cons.prems(2) by (simp add: x)
  have "printed q ((p, t - last_count prev p, t) # ys) + last_count prev q = last_count (prev(p \<mapsto> t) ++ map_of xs) q" for q
    using ys(2)[of q] le by (cases "q = p") (simp_all add: last_count_def)
  moreover have "deltas (x # xs) prev = Some ((p, t - last_count prev p, t) # ys, prev(p \<mapsto> t) ++ map_of xs)"
    using ys(1) le by (simp add: x Let_def)
  ultimately show ?case unfolding m by blast
qed simp

text \<open>What a pass that does not fail says about the counts of one name: they lie between the remembered count before and after.\<close>

lemma deltas_bounds:
  "deltas xs prev = Some (ys, prev') \<Longrightarrow> last_count prev p \<le> last_count prev' p
     \<and> (\<forall>t. (p, t) \<in> set xs \<longrightarrow> last_count prev p \<le> t \<and> t \<le> last_count prev' p)"
proof (induction xs arbitrary: prev ys)
  case (Cons x xs)
  obtain q u where x: "x = (q, u)" by fastforce
  from Cons.prems obtain zs where le: "last_count prev q \<le> u" and "deltas xs (prev(q \<mapsto> u)) = Some (zs, prev')"
    by (auto simp: x Let_def split: if_splits)
  from Cons.IH[OF this(2)] have IH: "last_count (prev(q \<mapsto> u)) p \<le> last_count prev' p"
    "\<And>t. (p, t) \<in> set xs \<Longrightarrow> last_count (prev(q \<mapsto> u)) p \<le> t \<and> t \<le> last_count prev' p" by blast+
  show ?case
  proof (cases "q = p")
    case True
    then have "last_count (prev(q \<mapsto> u)) p = u" by (simp add: last_count_def)
    then show ?thesis using IH le True by (fastforce simp: x)
  next
    case False
    then have "last_count (prev(q \<mapsto> u)) p = last_count prev p" by (simp add: last_count_def)
    then show ?thesis using IH False by (auto simp: x)
  qed
qed auto

lemma inc_games_count: "games p \<noteq> None \<Longrightarrow> last_count (inc_games q games) p = last_count games p + (if q = p then 1 else 0)"
  by (auto simp: inc_games_def last_count_def split: option.splits)

lemma inc_games_dom [simp]: "dom (inc_games q games) = dom games"
  by (auto simp: inc_games_def split: option.splits)

lemma totals_mem: "set (totals order games) = {(p, n). p \<in> set order \<and> games p = Some n}"
  by (force simp: totals_def List.map_filter_def)

lemma totals_le: "(\<And>p. last_count prev p \<le> last_count games p) \<Longrightarrow> (p, t) \<in> set (totals order games) \<Longrightarrow> last_count prev p \<le> t"
proof -
  assume "\<And>p. last_count prev p \<le> last_count games p" "(p, t) \<in> set (totals order games)"
  then have "last_count prev p \<le> last_count games p" "games p = Some t" by (auto simp: totals_mem)
  then show ?thesis by (simp add: last_count_def)
qed

lemma totals_distinct: "distinct order \<Longrightarrow> distinct (map fst (totals order games))"
proof -
  assume d: "distinct order"
  let ?xs = "List.map_filter (\<lambda>p. map_option (Pair p) (games p)) order"
  have "map fst ?xs = filter (\<lambda>p. games p \<noteq> None) order" by (induction order) (auto simp: List.map_filter_def)
  then have "distinct (map fst ?xs)" using d by simp
  moreover have "mset (map fst (totals order games)) = mset (map fst ?xs)" by (simp add: totals_def)
  ultimately show ?thesis by (rule mset_eq_imp_distinct_iff[THEN iffD2, rotated])
qed

lemma totals_map_of:
  assumes "distinct order" "dom games \<subseteq> set order"
  shows "map_of (totals order games) = games"
proof
  fix p
  show "map_of (totals order games) p = games p"
  proof (cases "games p")
    case None
    then show ?thesis by (auto simp: map_of_eq_None_iff totals_mem)
  next
    case (Some n)
    then have "(p, n) \<in> set (totals order games)" using assms(2) by (auto simp: totals_mem)
    then show ?thesis using Some totals_distinct[OF assms(1)] by simp
  qed
qed

lemma totals_step:
  assumes "distinct order" "dom games \<subseteq> set order" "\<And>p. last_count prev p \<le> last_count games p" "dom prev \<subseteq> dom games"
  obtains ds where "deltas (totals order games) prev = Some (ds, games)" "\<And>p. printed p ds + last_count prev p = last_count games p"
proof -
  have pg: "prev ++ map_of (totals order games) = games"
    using assms(4) unfolding totals_map_of[OF assms(1,2)] by (auto simp: map_add_def fun_eq_iff split: option.splits)
  obtain ds where "deltas (totals order games) prev = Some (ds, prev ++ map_of (totals order games))"
    "\<And>p. printed p ds + last_count prev p = last_count (prev ++ map_of (totals order games)) p"
    using deltas_grow[OF totals_distinct[OF assms(1)], of games prev] totals_le[OF assms(3)] by blast
  then show thesis unfolding pg by (rule that)
qed

lemma metrics_new_games: "metrics_new ps p = (if p \<in> set ps then Some 0 else None)"
proof -
  have "fold (\<lambda>p games. games(p \<mapsto> 0)) ps g p = (if p \<in> set ps then Some 0 else g p)" for g :: counters
    by (induction ps arbitrary: g) auto
  then show ?thesis by (simp add: metrics_new_def)
qed

definition ticks_ok :: "string list \<Rightarrow> report_event list \<Rightarrow> bool" where
  "ticks_ok ps evs \<longleftrightarrow> (\<forall>order. Tick order \<in> set evs \<longrightarrow> distinct order \<and> set order = set ps)"

text \<open>The counters never fall below what was printed, and what was printed is what is remembered.\<close>

lemma report_run_counts:
  assumes "ticks_ok ps evs" "dom games = set ps" "\<And>p. last_count prev p \<le> last_count games p" "dom prev \<subseteq> set ps"
  shows "\<exists>games' prev' lns'. report_run evs (games, prev, lns) = Some (games', prev', lns') \<and> dom games' = set ps
    \<and> (\<forall>p. last_count prev' p \<le> last_count games' p) \<and> dom prev' \<subseteq> set ps
    \<and> (\<forall>p. printed p lns' + last_count prev p = printed p lns + last_count prev' p)
    \<and> (\<forall>p \<in> set ps. last_count games' p = last_count games p + length (filter (\<lambda>e. e = Stored p) evs))"
  using assms
proof (induction evs "(games, prev, lns)" arbitrary: games prev lns rule: report_run.induct)
  case (2 q evs games prev lns)
  have g: "games p \<noteq> None" if "p \<in> set ps" for p using 2(3) that by blast
  have le: "last_count prev p \<le> last_count (inc_games q games) p" for p
    using 2(4)[of p] by (auto simp: inc_games_def last_count_def split: option.splits)
  have "ticks_ok ps evs" using 2(2) by (simp add: ticks_ok_def)
  from 2(1)[OF this _ le 2(5)] 2(3) obtain games' prev' lns' where
    r: "report_run evs (inc_games q games, prev, lns) = Some (games', prev', lns')" "dom games' = set ps"
    "\<forall>p. last_count prev' p \<le> last_count games' p" "dom prev' \<subseteq> set ps"
    "\<forall>p. printed p lns' + last_count prev p = printed p lns + last_count prev' p"
    "\<forall>p \<in> set ps. last_count games' p = last_count (inc_games q games) p + length (filter (\<lambda>e. e = Stored p) evs)" by auto
  then show ?case using inc_games_count[OF g] by (intro exI[of _ games'] exI[of _ prev'] exI[of _ lns']) auto
next
  case (3 order evs games prev lns)
  have o: "distinct order" "set order = set ps" using 3(2) by (auto simp: ticks_ok_def)
  have "dom games \<subseteq> set order" "dom prev \<subseteq> dom games" using o(2) 3(3,5) by simp_all
  from totals_step[OF o(1) this(1) 3(4) this(2)] obtain ds where
    ds: "deltas (totals order games) prev = Some (ds, games)" "\<And>p. printed p ds + last_count prev p = last_count games p" by blast
  have "ticks_ok ps evs" using 3(2) by (simp add: ticks_ok_def)
  from 3(1)[OF ds(1) refl this 3(3)] 3(3) obtain games' prev' lns' where
    r: "report_run evs (games, games, lns @ ds) = Some (games', prev', lns')" "dom games' = set ps"
    "\<forall>p. last_count prev' p \<le> last_count games' p" "dom prev' \<subseteq> set ps"
    "\<forall>p. printed p lns' + last_count games p = printed p (lns @ ds) + last_count prev' p"
    "\<forall>p \<in> set ps. last_count games' p = last_count games p + length (filter (\<lambda>e. e = Stored p) evs)" by auto
  have "printed p lns' + last_count prev p = printed p lns + last_count prev' p" for p
    using spec[OF r(5), of p] ds(2)[of p] by simp
  then show ?case using r ds(1) by (intro exI[of _ games'] exI[of _ prev'] exI[of _ lns']) simp
qed auto

lemma report_run_append:
  "report_run (evs @ es) st = (case report_run evs st of None \<Rightarrow> None | Some st' \<Rightarrow> report_run es st')"
  by (induction evs st rule: report_run.induct) (auto split: option.splits)

section \<open>Properties\<close>

text \<open>C37: The minute lines account for every game: whatever games are stored between whatever lines, no subtraction over the game counters goes below zero, and
  right after a line the numbers of new games printed so far for a platform add up to the games stored on it.\<close>

theorem reporter_counts_games:
  assumes "ticks_ok ps (evs @ [Tick order])" "p \<in> set ps"
  shows "\<exists>games prev lns. report_run (evs @ [Tick order]) (metrics_new ps, Map.empty, []) = Some (games, prev, lns)
    \<and> printed p lns = length (filter (\<lambda>e. e = Stored p) evs)"
proof -
  have d: "dom (metrics_new ps) = set ps" "\<And>p. last_count Map.empty p \<le> last_count (metrics_new ps) p" "dom (Map.empty :: counters) \<subseteq> set ps"
    and z: "last_count (metrics_new ps) q = 0" and e: "last_count Map.empty q = 0" for q
    by (auto simp: metrics_new_games last_count_def split: if_splits)
  have t: "ticks_ok ps evs" "distinct order" "set order = set ps" using assms(1) by (auto simp: ticks_ok_def)
  obtain games prev lns where r: "report_run evs (metrics_new ps, Map.empty, []) = Some (games, prev, lns)" "dom games = set ps"
    "\<forall>p. last_count prev p \<le> last_count games p" "dom prev \<subseteq> set ps" "\<forall>p. printed p lns = last_count prev p"
    "\<forall>p \<in> set ps. last_count games p = length (filter (\<lambda>e. e = Stored p) evs)"
    using report_run_counts[OF t(1) d, of "[]"] by (auto simp: z e)
  have "dom games \<subseteq> set order" "dom prev \<subseteq> dom games" using t(3) r(2,4) by simp_all
  from totals_step[OF t(2) this(1) spec[OF r(3)] this(2)] obtain ds where
    ds: "deltas (totals order games) prev = Some (ds, games)" "\<And>p. printed p ds + last_count prev p = last_count games p" by blast
  have "printed p (lns @ ds) = length (filter (\<lambda>e. e = Stored p) evs)"
    using ds(2)[of p] spec[OF r(5), of p] bspec[OF r(6) assms(2)] by simp
  then show ?thesis using r(1) ds(1) by (simp add: report_run_append)
qed

theorem reporter_counts_games_witness:
  "\<exists>games prev lns. report_run ([Stored ''EUW1'', Tick [''KR'', ''EUW1''], Stored ''EUW1'', Stored ''KR''] @ [Tick [''EUW1'', ''KR'']])
      (metrics_new [''EUW1'', ''KR''], Map.empty, []) = Some (games, prev, lns) \<and> printed ''EUW1'' lns = 2"
proof -
  let ?evs = "[Stored ''EUW1'', Tick [''KR'', ''EUW1''], Stored ''EUW1'', Stored ''KR'']"
  have "ticks_ok [''EUW1'', ''KR''] (?evs @ [Tick [''EUW1'', ''KR'']])" by (auto simp: ticks_ok_def)
  moreover have "''EUW1'' \<in> set [''EUW1'', ''KR'']" by simp
  moreover have "length (filter (\<lambda>e. e = Stored ''EUW1'') ?evs) = 2" by simp
  ultimately show ?thesis using reporter_counts_games[of "[''EUW1'', ''KR'']" ?evs "[''EUW1'', ''KR'']" "''EUW1''"] by metis
qed

text \<open>Two nodes of the same name break the reporter: it remembers the completed requests by name, so once two nodes that share a name have
  completed different numbers, of two lines in a row at the latest the second fails in a subtraction, whatever the order in
  which the registry lists its nodes and whatever was printed before.\<close>

theorem equal_names_break_the_report:
  assumes "reg_nodes r i = Some m" "reg_nodes r j = Some n" "nr_name m = nr_name n" "completed m \<noteq> completed n"
    and "set order1 = dom (reg_nodes r)" "set order2 = dom (reg_nodes r)"
    and "report_tick games1 valid1 (report order1 now1 r) d1 rs = Some (line, rs')"
  shows "report_tick games2 valid2 (report order2 now2 r) d2 rs' = None"
proof -
  have mem: "(nr_name m, completed m) \<in> set (completed_counts (report order now r))" "(nr_name m, completed n) \<in> set (completed_counts (report order now r))"
    if "set order = dom (reg_nodes r)" for order now
    using assms(1-3) that by (force simp: completed_counts_def report_def List.map_filter_def node_report_of_def)+
  obtain ns where d1: "deltas (completed_counts (report order1 now1 r)) (rs_prev_reqs rs) = Some (ns, rs_prev_reqs rs')"
    using assms(7) by (auto simp: report_tick_def Let_def bind_eq_Some_conv)
  show ?thesis
  proof (cases "deltas (completed_counts (report order2 now2 r)) (rs_prev_reqs rs')")
    case (Some x)
    then obtain ys prev where x: "deltas (completed_counts (report order2 now2 r)) (rs_prev_reqs rs') = Some (ys, prev)" by (cases x) simp
    have hi: "completed m \<le> last_count (rs_prev_reqs rs') (nr_name m)" "completed n \<le> last_count (rs_prev_reqs rs') (nr_name m)"
      using deltas_bounds[OF d1, of "nr_name m"] mem[OF assms(5), of now1] by auto
    have lo: "last_count (rs_prev_reqs rs') (nr_name m) \<le> completed m" "last_count (rs_prev_reqs rs') (nr_name m) \<le> completed n"
      using deltas_bounds[OF x, of "nr_name m"] mem[OF assms(6), of now2] by auto
    show ?thesis using hi lo assms(4) by simp
  qed (auto simp: report_tick_def Let_def bind_eq_None_conv)
qed

theorem equal_names_break_the_report_witness:
  "let r = job_completed 1 (enroll_runtime 2 ''bob'' ''h2'' (enroll_runtime 1 ''bob'' ''h1'' registry_new));
       (line, rs) = the (report_tick [] [] (report [2, 1] 0 r) (0, 0) reporter_new)
   in report_tick [] [] (report [1, 2] 0 r) (0, 0) rs = None"
proof -
  let ?r = "job_completed 1 (enroll_runtime 2 ''bob'' ''h2'' (enroll_runtime 1 ''bob'' ''h1'' registry_new))"
  have n: "reg_nodes ?r 1 = Some ((node_rt_new ''bob'')\<lparr>completed := 1\<rparr>)" "reg_nodes ?r 2 = Some (node_rt_new ''bob'')"
    "dom (reg_nodes ?r) = {1, 2}"
    by (auto simp: job_completed_def enroll_runtime_def registry_new_def node_rt_new_def split: if_splits)
  have l: "set [2, 1] = dom (reg_nodes ?r)" "set [1, 2] = dom (reg_nodes ?r)" using n(3) by auto
  have "completed_counts (report [2, 1] 0 ?r) = [(''bob'', 0), (''bob'', 1)]"
    by (simp add: completed_counts_def report_def List.map_filter_simps n(1,2)[unfolded One_nat_def] node_report_of_def node_rt_new_def)
  then have "\<exists>x. report_tick [] [] (report [2, 1] 0 ?r) (0, 0) reporter_new = Some x"
    by (simp add: report_tick_def reporter_new_def last_count_def Let_def)
  then obtain line rs where t: "report_tick [] [] (report [2, 1] 0 ?r) (0, 0) reporter_new = Some (line, rs)" by auto
  have "nr_name ((node_rt_new ''bob'')\<lparr>completed := 1\<rparr>) = nr_name (node_rt_new ''bob'')"
    "completed ((node_rt_new ''bob'')\<lparr>completed := 1\<rparr>) \<noteq> completed (node_rt_new ''bob'')" by (simp_all add: node_rt_new_def)
  from equal_names_break_the_report[OF n(1,2) this l t] show ?thesis unfolding t Let_def by simp
qed

end
