(* ===== verification/Recompactor.thy ===== *)
theory Recompactor
  imports Store_Frontier Rust_Text
begin

text \<open>
  The background recompaction of \<^verbatim>\<open>crates/server/src/main.rs\<close>: which segment files a cycle rewrites, and the cycle over the
  enabled regions.  Directory listings, file modification times and the clock are arguments, and so is the date parser of the date library
  (\<open>parse_date\<close>, days).  Nothing else writes the files of closed days meanwhile.  Log lines are dropped; a failed recompaction leaves the loop going.
\<close>

text \<open>The stem of a file name with extension \<^verbatim>\<open>seg\<close>.\<close>

definition seg_stem :: "string \<Rightarrow> string option" where
  "seg_stem name =
     (let n = length name - 4 in if n > 0 \<and> drop n name = ''.seg'' then Some (take n name) else None)"

definition mtime_older_than :: "(string \<Rightarrow> nat option) \<Rightarrow> nat \<Rightarrow> nat \<Rightarrow> string \<Rightarrow> bool" where
  "mtime_older_than mtime age now path = (case mtime path of Some m \<Rightarrow> m \<le> now \<and> age \<le> now - m | None \<Rightarrow> False)"

record cycle_io =
  cy_parse_date :: "string \<Rightarrow> int option"
  cy_today :: int
  cy_now :: nat
  cy_mtime :: "string \<Rightarrow> nat option"
  cy_listing :: "string \<Rightarrow> string list option"

definition segment_due :: "cycle_io \<Rightarrow> string list \<Rightarrow> string \<Rightarrow> string \<Rightarrow> bool" where
  "segment_due io open_dates dir date_s =
     (case cy_parse_date io date_s of
        None \<Rightarrow> False
      | Some date \<Rightarrow>
          if date \<ge> cy_today io then False
          else if date_s \<in> set open_dates then False
          else mtime_older_than (cy_mtime io) 3600000 (cy_now io) (seg_path dir date_s))"

definition recompact_listed :: "seg_codec \<Rightarrow> cycle_io \<Rightarrow> string list \<Rightarrow> string \<Rightarrow> string list \<Rightarrow> fsys \<Rightarrow> fsys" where
  "recompact_listed c io open_dates dir names fs =
     fold (\<lambda>date_s fs.
         if segment_due io open_dates dir date_s
         then snd (recompact_segment c (seg_path dir date_s) (idx_path dir date_s) fs) else fs)
       (List.map_filter seg_stem (sort names)) fs"

definition matches_dir :: "string \<Rightarrow> string \<Rightarrow> string" where
  "matches_dir data_dir plat = data_dir @ ''/matches/'' @ plat"

definition run_recompaction_cycle :: "seg_codec \<Rightarrow> cycle_io \<Rightarrow> string \<Rightarrow> store \<Rightarrow> store" where
  "run_recompaction_cycle c io data_dir s =
     (let open_dates = open_writer_dates s in
      s\<lparr>st_files := fold (\<lambda>rg fs.
            case cy_listing io (matches_dir data_dir (rg_platform rg)) of
              None \<Rightarrow> fs
            | Some names \<Rightarrow> recompact_listed c io open_dates (matches_dir data_dir (rg_platform rg)) names fs)
          enabled_regions (st_files s)\<rparr>)"

section \<open>Paths\<close>

lemma matches_path_eq:
  assumes "CHR ''/'' \<notin> set p" "CHR ''/'' \<notin> set p'" "matches_dir d p @ ''/'' @ x = matches_dir d p' @ ''/'' @ y"
  shows "p = p' \<and> x = y"
proof -
  have e: "p @ CHR ''/'' # x = p' @ CHR ''/'' # y" using assms(3) by (simp add: matches_dir_def)
  have "Some (p', y) = Some (p, x)"
    by (rule trans[OF split_once_append[OF assms(2), symmetric] split_once_append[OF assms(1), of x, unfolded e]])
  then show ?thesis by simp
qed

text \<open>The four files that a recompaction touches.\<close>

definition day_files :: "string \<Rightarrow> string \<Rightarrow> string set" where
  "day_files dir date = {seg_path dir date, idx_path dir date, tmp_path (seg_path dir date), tmp_path (idx_path dir date)}"

lemma day_files_eq:
  "day_files dir b = {dir @ ''/'' @ b @ ''.seg'', dir @ ''/'' @ b @ ''.idx'', dir @ ''/'' @ b @ ''.seg.tmp'', dir @ ''/'' @ b @ ''.idx.tmp''}"
  by (simp add: day_files_def seg_path_def idx_path_def tmp_path_def)

lemma day_files_apart:
  assumes "CHR ''/'' \<notin> set p" "CHR ''/'' \<notin> set p'" "seg_path (matches_dir d p) a \<in> day_files (matches_dir d p') b \<or> idx_path (matches_dir d p) a \<in> day_files (matches_dir d p') b"
  shows "p = p' \<and> a = b"
proof -
  obtain s1 s2 where s: "s1 \<in> {''.seg'', ''.idx''}" "s2 \<in> {''.seg'', ''.idx'', ''.seg.tmp'', ''.idx.tmp''}"
    and e: "matches_dir d p @ ''/'' @ (a @ s1) = matches_dir d p' @ ''/'' @ (b @ s2)"
    using assms(3) unfolding day_files_eq seg_path_def idx_path_def by blast
  from matches_path_eq[OF assms(1,2) e] have p: "p = p'" and ab: "a @ s1 = b @ s2" by blast+
  have "last (a @ s1) = last (b @ s2)" by (simp only: ab)
  then have "s1 = s2" using s by auto
  with ab p show ?thesis by simp
qed

lemma recompact_frame:
  assumes "recompact_segment c seg idx fs = (res, fs')" "p \<notin> {seg, idx, tmp_path seg, tmp_path idx}"
  shows "fs' p = fs p"
  using assms
  by (auto simp: recompact_segment_def recompact_segment_inner_def ensure_idx_consistent_or_rebuild_def replace_idx_def rename_file_def Let_def
      split: option.splits sum.splits prod.splits if_splits)

section \<open>The cycle as one list of days\<close>

definition recompact_day :: "seg_codec \<Rightarrow> cycle_io \<Rightarrow> string list \<Rightarrow> string \<Rightarrow> string \<times> string \<Rightarrow> fsys \<Rightarrow> fsys" where
  "recompact_day c io open_dates data_dir = (\<lambda>(plat, date) fs.
     if segment_due io open_dates (matches_dir data_dir plat) date
     then snd (recompact_segment c (seg_path (matches_dir data_dir plat) date) (idx_path (matches_dir data_dir plat) date) fs) else fs)"

definition cycle_days :: "cycle_io \<Rightarrow> string \<Rightarrow> (string \<times> string) list" where
  "cycle_days io data_dir =
     concat (map (\<lambda>rg. case cy_listing io (matches_dir data_dir (rg_platform rg)) of
         None \<Rightarrow> [] | Some names \<Rightarrow> map (Pair (rg_platform rg)) (List.map_filter seg_stem (sort names))) enabled_regions)"

lemma cycle_as_days:
  "st_files (run_recompaction_cycle c io data_dir s) =
     fold (recompact_day c io (open_writer_dates s) data_dir) (cycle_days io data_dir) (st_files s)"
proof -
  have "fold (\<lambda>rg fs. case cy_listing io (matches_dir data_dir (rg_platform rg)) of None \<Rightarrow> fs
         | Some names \<Rightarrow> recompact_listed c io od (matches_dir data_dir (rg_platform rg)) names fs) rgs fs =
      fold (recompact_day c io od data_dir) (concat (map (\<lambda>rg. case cy_listing io (matches_dir data_dir (rg_platform rg)) of
         None \<Rightarrow> [] | Some names \<Rightarrow> map (Pair (rg_platform rg)) (List.map_filter seg_stem (sort names))) rgs)) fs" for rgs fs od
    by (induction rgs arbitrary: fs) (simp_all add: recompact_listed_def recompact_day_def fold_map comp_def split: option.split)
  then show ?thesis by (simp add: run_recompaction_cycle_def cycle_days_def Let_def)
qed

section \<open>Days do not interfere\<close>

abbreviation day_seg :: "string \<Rightarrow> string \<times> string \<Rightarrow> string" where
  "day_seg data_dir x \<equiv> seg_path (matches_dir data_dir (fst x)) (snd x)"

abbreviation day_idx :: "string \<Rightarrow> string \<times> string \<Rightarrow> string" where
  "day_idx data_dir x \<equiv> idx_path (matches_dir data_dir (fst x)) (snd x)"

lemma day_other:
  assumes "CHR ''/'' \<notin> set (fst x)" "CHR ''/'' \<notin> set (fst y)" "x \<noteq> y"
  shows "recompact_day c io od data_dir y fs (day_seg data_dir x) = fs (day_seg data_dir x)
    \<and> recompact_day c io od data_dir y fs (day_idx data_dir x) = fs (day_idx data_dir x)"
proof -
  obtain res fs' where r: "recompact_segment c (day_seg data_dir y) (day_idx data_dir y) fs = (res, fs')" by fastforce
  have "\<not> (day_seg data_dir x \<in> day_files (matches_dir data_dir (fst y)) (snd y) \<or> day_idx data_dir x \<in> day_files (matches_dir data_dir (fst y)) (snd y))"
    using day_files_apart[OF assms(1,2)] assms(3) by (metis prod.collapse)
  then have "fs' (day_seg data_dir x) = fs (day_seg data_dir x)" "fs' (day_idx data_dir x) = fs (day_idx data_dir x)"
    by (auto intro!: recompact_frame[OF r] simp: day_files_def)
  then show ?thesis using r by (simp add: recompact_day_def split_def)
qed

lemma days_other:
  assumes "CHR ''/'' \<notin> set (fst x)" "\<forall>y \<in> set ys. CHR ''/'' \<notin> set (fst y)" "x \<notin> set ys"
  shows "fold (recompact_day c io od data_dir) ys fs (day_seg data_dir x) = fs (day_seg data_dir x)
    \<and> fold (recompact_day c io od data_dir) ys fs (day_idx data_dir x) = fs (day_idx data_dir x)"
  using assms(2,3)
proof (induction ys arbitrary: fs)
  case (Cons y ys)
  then show ?case using day_other[OF assms(1), of y c io od data_dir fs] by auto
qed simp

lemma intact_layout:
  "intact c f pos rs \<Longrightarrow> read_layout_loop c f pos lay = Inr lay' \<Longrightarrow> sl_records lay' = sl_records lay @ rs"
proof (induction arbitrary: lay rule: intact.induct)
  case (intact_end pos)
  then show ?case by (simp add: read_layout_loop.simps[of c f "length f"])
next
  case (intact_step pos b rs)
  from intact_step.prems intact_step.hyps(1) read_pos_less[OF intact_step.hyps(1)] obtain lay2 where
    "read_layout_loop c f (sb_next_off b) lay2 = Inr lay'" "sl_records lay2 = sl_records lay @ sb_records b"
    by (subst (asm) read_layout_loop.simps) (auto simp: res_bind_eq_Inr split: if_splits)
  with intact_step.IH show ?case by simp
qed

text \<open>What a cycle, and so any number of cycles, may do to the segment of a day.\<close>

definition day_kept :: "seg_codec \<Rightarrow> bytes option \<Rightarrow> bytes option \<Rightarrow> bool" where
  "day_kept c old new \<longleftrightarrow> new = old
     \<or> (\<exists>f lay g. old = Some f \<and> read_segment_layout c f = Inr lay \<and> new = Some g \<and> intact c g 0 (sl_records lay))"

lemma day_kept_trans: "day_kept c x y \<Longrightarrow> day_kept c y z \<Longrightarrow> day_kept c x z"
  unfolding day_kept_def read_segment_layout_def by (auto dest: intact_layout)

lemma day_kept_records:
  "day_kept c x y \<Longrightarrow> y = x \<or> (\<exists>f lay g. x = Some f \<and> read_segment_layout c f = Inr lay \<and> y = Some g \<and> read_segment_records c g = Inr (sl_records lay))"
  unfolding day_kept_def by (auto dest: intact_records)

lemma day_done: "day_kept c (fs (day_seg data_dir x)) (recompact_day c io od data_dir x fs (day_seg data_dir x))"
proof -
  obtain res fs' where r: "recompact_segment c (day_seg data_dir x) (day_idx data_dir x) fs = (res, fs')" by fastforce
  have l: "last (tmp_path q) \<noteq> last (seg_path dir a)" "last (tmp_path q) \<noteq> last (idx_path dir a)" for dir a q
    by (simp_all add: seg_path_def idx_path_def tmp_path_def)
  have "tmp_path q \<noteq> seg_path dir a" for dir a q using l(1)[of q dir a] by auto
  moreover have "tmp_path q \<noteq> idx_path dir a" for dir a q using l(2)[of q dir a] by auto
  ultimately have ne: "day_seg data_dir x \<noteq> day_idx data_dir x" "tmp_path (day_seg data_dir x) \<noteq> day_idx data_dir x" "tmp_path (day_idx data_dir x) \<noteq> day_seg data_dir x"
    "tmp_path (day_seg data_dir x) \<noteq> day_seg data_dir x" by simp_all
  from recompact_correct[OF r] ne have "day_kept c (fs (day_seg data_dir x)) (fs' (day_seg data_dir x))"
    by (auto simp: paths_ok_def recompact_ok_def day_kept_def split: sum.splits)
  then show ?thesis using r by (auto simp: recompact_day_def split_def day_kept_def)
qed

lemma days_kept:
  assumes "distinct ys" "\<forall>y \<in> set ys. CHR ''/'' \<notin> set (fst y)" "CHR ''/'' \<notin> set (fst x)"
  shows "day_kept c (fs (day_seg data_dir x)) (fold (recompact_day c io od data_dir) ys fs (day_seg data_dir x))"
  using assms(1,2)
proof (induction ys arbitrary: fs)
  case (Cons y ys)
  show ?case
  proof (cases "x = y")
    case True
    then show ?thesis using days_other[OF assms(3), of ys c io od data_dir] Cons.prems day_done[of c fs data_dir x io od] by simp
  next
    case False
    then have "recompact_day c io od data_dir y fs (day_seg data_dir x) = fs (day_seg data_dir x)"
      using day_other[OF assms(3), of y c io od data_dir fs] Cons.prems by simp
    then show ?thesis using Cons.IH[of "recompact_day c io od data_dir y fs"] Cons.prems by simp
  qed
qed (simp add: day_kept_def)

text \<open>A day that is not due stays as it is.\<close>

lemma days_not_due:
  assumes "\<not> segment_due io od (matches_dir data_dir (fst x)) (snd x)" "\<forall>y \<in> set ys. CHR ''/'' \<notin> set (fst y)" "CHR ''/'' \<notin> set (fst x)"
  shows "fold (recompact_day c io od data_dir) ys fs (day_seg data_dir x) = fs (day_seg data_dir x)
    \<and> fold (recompact_day c io od data_dir) ys fs (day_idx data_dir x) = fs (day_idx data_dir x)"
  using assms(2)
proof (induction ys arbitrary: fs)
  case (Cons y ys)
  have "x = y \<Longrightarrow> recompact_day c io od data_dir y fs = fs" using assms(1) by (auto simp: recompact_day_def split_def)
  then show ?case using day_other[OF assms(3), of y c io od data_dir fs] Cons by (cases "x = y") auto
qed simp

section \<open>Properties\<close>

text \<open>The listed days are distinct when no directory lists a name twice.\<close>

lemma seg_stem_eq: "seg_stem name = Some d \<Longrightarrow> name = d @ ''.seg''"
  unfolding seg_stem_def Let_def by (metis append_take_drop_id option.distinct(1) option.inject)

lemma stems_distinct: "distinct names \<Longrightarrow> distinct (List.map_filter seg_stem names)"
proof (induction names)
  case (Cons n names)
  have "d \<notin> set (List.map_filter seg_stem names)" if "seg_stem n = Some d" for d
    using Cons.prems seg_stem_eq[OF that] seg_stem_eq by (auto simp: map_filter_mem)
  then show ?case using Cons by (auto simp: List.map_filter_simps split: option.split)
qed (simp add: List.map_filter_simps)

lemma days_distinct:
  assumes "\<And>dir names. cy_listing io dir = Some names \<Longrightarrow> distinct names"
  shows "distinct (cycle_days io data_dir)"
proof -
  let ?f = "\<lambda>rg. case cy_listing io (matches_dir data_dir (rg_platform rg)) of
         None \<Rightarrow> [] | Some names \<Rightarrow> map (Pair (rg_platform rg)) (List.map_filter seg_stem (sort names))"
  have one: "distinct (?f rg)" for rg
    using assms stems_distinct by (auto simp: distinct_map inj_on_def split: option.split)
  have fst: "x \<in> set (?f rg) \<Longrightarrow> fst x = rg_platform rg" for x rg by (auto split: option.splits)
  have "distinct (map rg_platform rgs) \<Longrightarrow> distinct (concat (map ?f rgs))" for rgs
  proof (induction rgs)
    case (Cons rg rgs)
    have "set (?f rg) \<inter> (\<Union>r \<in> set rgs. set (?f r)) = {}"
    proof (rule ccontr)
      assume "set (?f rg) \<inter> (\<Union>r \<in> set rgs. set (?f r)) \<noteq> {}"
      then obtain x r where "x \<in> set (?f rg)" "r \<in> set rgs" "x \<in> set (?f r)" by blast
      then have "rg_platform rg = rg_platform r" "r \<in> set rgs" using fst by (metis, blast)
      then show False using Cons.prems by auto
    qed
    then show ?case using Cons one[of rg] by simp
  qed simp
  then show ?thesis using enabled_distinct unfolding cycle_days_def by blast
qed

lemma enabled_plain: "rg \<in> set enabled_regions \<Longrightarrow> CHR ''/'' \<notin> set (rg_platform rg)"
  by (auto simp: enabled_regions_def ALL_REGIONS_def ENABLED_REGIONS_def)

lemma days_plain: "\<forall>y \<in> set (cycle_days io data_dir). CHR ''/'' \<notin> set (fst y)"
  using enabled_plain by (auto simp: cycle_days_def split: option.splits)

lemma cycle_keeps_day:
  assumes "\<And>dir names. cy_listing io dir = Some names \<Longrightarrow> distinct names" "rg \<in> set enabled_regions"
  shows "day_kept c (st_files s (seg_path (matches_dir data_dir (rg_platform rg)) date))
    (st_files (run_recompaction_cycle c io data_dir s) (seg_path (matches_dir data_dir (rg_platform rg)) date))"
  using days_kept[where x = "(rg_platform rg, date)", OF days_distinct[OF assms(1)] days_plain[of io data_dir]] enabled_plain[OF assms(2)]
  by (simp add: cycle_as_days)

text \<open>C15: A recompaction cycle loses nothing and keeps away from the days that are still written.  For every region and day, the segment and index of a
  day that an open writer has, that is today or later, or whose name is no date are not touched, and the segment of any other day is
  either untouched or replaced by one that reads back exactly the records the old one held up to its torn tail.\<close>

theorem recompaction_cycle_safe:
  assumes "\<And>dir names. cy_listing io dir = Some names \<Longrightarrow> distinct names" "rg \<in> set enabled_regions"
  shows "let fs = st_files s; fs' = st_files (run_recompaction_cycle c io data_dir s);
             seg = seg_path (matches_dir data_dir (rg_platform rg)) date; idx = idx_path (matches_dir data_dir (rg_platform rg)) date
         in (if date \<in> set (open_writer_dates s) \<or> (case cy_parse_date io date of None \<Rightarrow> True | Some d \<Rightarrow> cy_today io \<le> d)
             then fs' seg = fs seg \<and> fs' idx = fs idx
             else fs' seg = fs seg \<or> (\<exists>f lay g. fs seg = Some f \<and> read_segment_layout c f = Inr lay \<and> fs' seg = Some g
                    \<and> read_segment_records c g = Inr (sl_records lay)))"
proof -
  let ?x = "(rg_platform rg, date)"
  have p: "CHR ''/'' \<notin> set (fst ?x)" using enabled_plain[OF assms(2)] by simp
  have "\<not> segment_due io (open_writer_dates s) (matches_dir data_dir (fst ?x)) (snd ?x)"
    if "date \<in> set (open_writer_dates s) \<or> (case cy_parse_date io date of None \<Rightarrow> True | Some d \<Rightarrow> cy_today io \<le> d)"
    using that by (auto simp: segment_due_def split: option.splits)
  then show ?thesis
    using days_not_due[where io = io and od = "open_writer_dates s" and data_dir = data_dir and c = c and fs = "st_files s",
        OF _ days_plain[of io data_dir] p]
      day_kept_records[OF cycle_keeps_day[OF assms]]
    unfolding cycle_as_days Let_def by auto
qed

theorem recompaction_cycle_safe_witness:
  "\<exists>s io. cy_listing io ''data/matches/EUW1'' = Some [''1.seg'']
     \<and> st_files (run_recompaction_cycle sample_codec io ''data'' s) ''data/matches/EUW1/9.seg'' = st_files s ''data/matches/EUW1/9.seg''"
proof -
  obtain s where "store_reach sample_lib sample_home s {}" using sample_stored by blast
  let ?io = "\<lparr>cy_parse_date = (\<lambda>d. if d = ''1'' then Some 1 else Some 9), cy_today = 9, cy_now = 5000000, cy_mtime = (\<lambda>_. Some 0),
    cy_listing = (\<lambda>dir. if dir = ''data/matches/EUW1'' then Some [''1.seg''] else None)\<rparr>"
  have d: "cy_listing ?io dir = Some names \<Longrightarrow> distinct names" for dir names by (auto split: if_splits)
  have "\<exists>rg \<in> set enabled_regions. rg_platform rg = ''EUW1''"
    by (simp add: enabled_regions_def ALL_REGIONS_def ENABLED_REGIONS_def)
  then obtain rg where rg: "rg \<in> set enabled_regions" "rg_platform rg = ''EUW1''" by blast
  from recompaction_cycle_safe[where io = ?io and s = s and c = sample_codec and data_dir = "''data''" and date = "''9''", OF d rg(1)] rg(2)
  show ?thesis by (intro exI[of _ s] exI[of _ ?io]) (simp add: matches_dir_def seg_path_def Let_def)
qed

end
