(* ===== verification/Inspect.thy ===== *)
theory Inspect
  imports Recompactor Invites
begin

text \<open>
  The command \<^verbatim>\<open>inspect\<close> (\<^verbatim>\<open>crates/server/src/inspect.rs\<close>): the counts of the store, and for every segment file the records that decode, their
  timelines and patches.  The output is the list of printed lines.  prost's decoder is \<open>pdecode\<close> of the segment codec; directory listings
  are arguments.
\<close>

section \<open>One segment\<close>

record seg_report =
  sr_decoded :: nat
  sr_decode_errors :: nat
  sr_raw_bytes :: nat
  sr_with_timeline :: nat
  sr_by_patch :: "(string, nat) table"
  sr_sample :: "match_record option"

definition seg_report_new :: seg_report where
  "seg_report_new = \<lparr>sr_decoded = 0, sr_decode_errors = 0, sr_raw_bytes = 0, sr_with_timeline = 0, sr_by_patch = RBT.empty, sr_sample = None\<rparr>"

definition patch_key :: "match_record \<Rightarrow> string" where
  "patch_key r = show_nat (unat (patch_major r)) @ ''.'' @ show_nat (unat (patch_minor r))"

definition inspect_record :: "seg_codec \<Rightarrow> bytes \<Rightarrow> seg_report \<Rightarrow> seg_report" where
  "inspect_record c raw rep =
     (let rep = rep\<lparr>sr_raw_bytes := sr_raw_bytes rep + length raw\<rparr> in
      case pdecode c raw of
        Some r \<Rightarrow>
          let rep = rep\<lparr>sr_decoded := sr_decoded rep + 1\<rparr>;
              rep = (if timeline r \<noteq> None then rep\<lparr>sr_with_timeline := sr_with_timeline rep + 1\<rparr> else rep);
              n = (case RBT.lookup (sr_by_patch rep) (patch_key r) of Some n \<Rightarrow> n | None \<Rightarrow> 0);
              rep = rep\<lparr>sr_by_patch := RBT.insert (patch_key r) (n + 1) (sr_by_patch rep)\<rparr>
          in if sr_sample rep = None then rep\<lparr>sr_sample := Some r\<rparr> else rep
      | None \<Rightarrow> rep\<lparr>sr_decode_errors := sr_decode_errors rep + 1\<rparr>)"

definition inspect_records :: "seg_codec \<Rightarrow> bytes list \<Rightarrow> seg_report" where
  "inspect_records c raws = fold (inspect_record c) raws seg_report_new"

definition inspect_segment :: "seg_codec \<Rightarrow> bytes \<Rightarrow> seg_error + nat \<times> seg_report" where
  "inspect_segment c f = map_sum id (\<lambda>raws. (length f, inspect_records c raws)) (read_segment_records c f)"

definition bytes_per_match :: "nat \<Rightarrow> seg_report \<Rightarrow> (nat \<times> nat) option" where
  "bytes_per_match file_bytes rep =
     (if sr_decoded rep > 0 then Some (file_bytes div sr_decoded rep, sr_raw_bytes rep div sr_decoded rep) else None)"

section \<open>Output\<close>

definition show_bool :: "bool \<Rightarrow> string" where
  "show_bool b = (if b then ''true'' else ''false'')"

definition sample_line :: "match_record \<Rightarrow> string" where
  "sample_line r =
     (let count = (\<lambda>f. show_nat (case timeline r of Some t \<Rightarrow> f t | None \<Rightarrow> 0)) in
      ''first record:      '' @ platform r @ ''_'' @ show_nat (unat (game_id r)) @ '' queue='' @ show_nat (unat (queue_id r))
      @ '' dur='' @ show_nat (unat (duration_s r)) @ ''s blue_won='' @ show_bool (blue_won r)
      @ '' participants='' @ show_nat (length (participants r)) @ '' frames='' @ count (\<lambda>t. length (frames t))
      @ '' kills='' @ count (\<lambda>t. length (kills t)) @ '' objectives='' @ count (\<lambda>t. length (objectives t))
      @ '' wards='' @ count (\<lambda>t. length (wards t)))"

definition patches_text :: "(string, nat) table \<Rightarrow> string" where
  "patches_text t = ''{'' @ join_with '', '' (map (\<lambda>(k, n). [CHR 0x22] @ k @ [CHR 0x22] @ '': '' @ show_nat n) (RBT.entries t)) @ ''}''"

definition segment_lines :: "string \<Rightarrow> nat \<Rightarrow> seg_report \<Rightarrow> string list" where
  "segment_lines path file_bytes rep =
     [[], ''== '' @ path @ '' =='',
      ''records decoded:   '' @ show_nat (sr_decoded rep) @ '' (errors: '' @ show_nat (sr_decode_errors rep) @ '')'',
      ''with timeline:     '' @ show_nat (sr_with_timeline rep),
      ''file size:         '' @ show_nat file_bytes @ '' B'']
     @ (case bytes_per_match file_bytes rep of
          Some (disk, raw) \<Rightarrow> [''bytes/match:       '' @ show_nat disk @ '' on disk, '' @ show_nat raw @ '' uncompressed'']
        | None \<Rightarrow> [])
     @ [''patches:           '' @ patches_text (sr_by_patch rep)]
     @ (case sr_sample rep of Some r \<Rightarrow> [sample_line r] | None \<Rightarrow> [])"

definition pad2 :: "nat \<Rightarrow> string" where
  "pad2 n = (if n < 10 then '' '' @ show_nat n else show_nat n)"

definition store_lines :: "store_stats \<Rightarrow> string list" where
  "store_lines st =
     [''== store =='',
      ''players:                  '' @ show_nat (ss_players st),
      ''rank snapshots:           '' @ show_nat (ss_rank_snapshots st),
      ''player timeline entries:  '' @ show_nat (ss_player_timeline_entries st)]
     @ map (\<lambda>(plat, n). ''seen matches '' @ plat @ '':       '' @ show_nat n) (ss_seen st)
     @ map (\<lambda>(plat, bucket, n). ''frontier '' @ plat @ '' '' @ (if bucket = 0 then ''priority'' else ''other'') @ '':   '' @ show_nat n) (ss_frontier st)
     @ [''cohort members:           '' @ show_nat (ss_cohort st),
        ''outsiders tracked:        '' @ show_nat (ss_outsiders_tracked st)]
     @ map (\<lambda>(plat, n). ''valid samples '' @ plat @ '':      '' @ show_nat (unat n)) (ss_valid_samples st)
     @ [''readiness histogram (matches by #participants with full history):'']
     @ List.map_filter (\<lambda>(ready, n). if n > 0 then Some (''  '' @ pad2 ready @ ''/10 ready: '' @ show_nat n) else None)
         (enumerate 0 (ss_readiness_histogram st))"

section \<open>The command\<close>

fun inspect_files :: "seg_codec \<Rightarrow> fsys \<Rightarrow> string list \<Rightarrow> seg_error + string list" where
  "inspect_files c fs [] = Inr []"
| "inspect_files c fs (path # paths) =
     (case fs path of
        None \<Rightarrow> Inl FileMissing
      | Some f \<Rightarrow>
          res_bind (inspect_segment c f) (\<lambda>(n, rep).
          res_bind (inspect_files c fs paths) (\<lambda>lines. Inr (segment_lines path n rep @ lines))))"

text \<open>\<open>listing\<close>: the platform directories in the order of the iteration with the names in them, \<open>None\<close> when there is no \<^verbatim>\<open>matches\<close> directory.  Closing the store
  commits it.\<close>

definition inspect_run ::
  "store_lib \<Rightarrow> seg_codec \<Rightarrow> string \<Rightarrow> (string \<times> string list) list option \<Rightarrow> u64 \<Rightarrow> tables \<Rightarrow> fsys
     \<Rightarrow> store_error + store \<times> (seg_error + string list)" where
  "inspect_run lib c data_dir listing now t fs =
     (case open_store lib data_dir t fs of
        Inl e \<Rightarrow> Inl e
      | Inr s \<Rightarrow>
          let out = store_lines (debug_stats s);
              s = commit_store lib now s
          in Inr (s, case listing of
               None \<Rightarrow> Inr out
             | Some dirs \<Rightarrow>
                 map_sum id (append out)
                   (inspect_files c (st_files s)
                      (concat (map (\<lambda>(dir, names). map (\<lambda>n. dir @ ''/'' @ n) (sort (filter (\<lambda>n. seg_stem n \<noteq> None) names))) dirs)))))"

section \<open>Facts\<close>

definition with_patch :: "seg_codec \<Rightarrow> string \<Rightarrow> bytes list \<Rightarrow> nat" where
  "with_patch c k raws = length (filter (\<lambda>r. patch_key r = k) (List.map_filter (pdecode c) raws))"

lemma inspect_record_fields [simp]:
  "sr_decoded (inspect_record c raw rep) = sr_decoded rep + (if pdecode c raw = None then 0 else 1)"
  "sr_decode_errors (inspect_record c raw rep) = sr_decode_errors rep + (if pdecode c raw = None then 1 else 0)"
  "sr_raw_bytes (inspect_record c raw rep) = sr_raw_bytes rep + length raw"
  "sr_with_timeline (inspect_record c raw rep) =
     sr_with_timeline rep + (case pdecode c raw of Some r \<Rightarrow> if timeline r \<noteq> None then 1 else 0 | None \<Rightarrow> 0)"
  "sr_sample (inspect_record c raw rep) = (case sr_sample rep of Some r \<Rightarrow> Some r | None \<Rightarrow> pdecode c raw)"
  by (auto simp: inspect_record_def Let_def split: option.splits)

lemma inspect_record_patch:
  "RBT.lookup (sr_by_patch (inspect_record c raw rep)) k =
     (case pdecode c raw of
        Some r \<Rightarrow> if patch_key r = k then Some ((case RBT.lookup (sr_by_patch rep) k of Some n \<Rightarrow> n | None \<Rightarrow> 0) + 1) else RBT.lookup (sr_by_patch rep) k
      | None \<Rightarrow> RBT.lookup (sr_by_patch rep) k)"
  by (auto simp: inspect_record_def Let_def split: option.splits)

lemma inspect_fold:
  "sr_decoded (fold (inspect_record c) raws rep) = sr_decoded rep + length (List.map_filter (pdecode c) raws)"
  "sr_decode_errors (fold (inspect_record c) raws rep) = sr_decode_errors rep + length (filter (\<lambda>raw. pdecode c raw = None) raws)"
  "sr_raw_bytes (fold (inspect_record c) raws rep) = sr_raw_bytes rep + length (concat raws)"
  "sr_with_timeline (fold (inspect_record c) raws rep) =
     sr_with_timeline rep + length (filter (\<lambda>r. timeline r \<noteq> None) (List.map_filter (pdecode c) raws))"
  "sr_sample (fold (inspect_record c) raws rep) =
     (case sr_sample rep of Some r \<Rightarrow> Some r | None \<Rightarrow> (case List.map_filter (pdecode c) raws of r # _ \<Rightarrow> Some r | [] \<Rightarrow> None))"
  by (induction raws arbitrary: rep) (auto simp: List.map_filter_simps split: option.splits list.splits)

lemma inspect_fold_patch:
  "(case RBT.lookup (sr_by_patch (fold (inspect_record c) raws rep)) k of Some n \<Rightarrow> n | None \<Rightarrow> 0) =
     (case RBT.lookup (sr_by_patch rep) k of Some n \<Rightarrow> n | None \<Rightarrow> 0) + with_patch c k raws"
  "RBT.lookup (sr_by_patch (fold (inspect_record c) raws rep)) k = None \<longleftrightarrow>
     RBT.lookup (sr_by_patch rep) k = None \<and> with_patch c k raws = 0"
proof (induction raws arbitrary: rep)
  case (Cons raw raws)
  {
    case 1 show ?case using Cons(1)[of "inspect_record c raw rep"]
      by (auto simp: inspect_record_patch with_patch_def List.map_filter_simps split: option.splits)
  next
    case 2 show ?case using Cons(2)[of "inspect_record c raw rep"]
      by (auto simp: inspect_record_patch with_patch_def List.map_filter_simps split: option.splits)
  }
qed (simp_all add: with_patch_def List.map_filter_simps)

lemma map_filter_partition: "length (List.map_filter f xs) + length (filter (\<lambda>x. f x = None) xs) = length xs"
  by (induction xs) (auto simp: List.map_filter_simps split: option.splits)

text \<open>The report of a list of records counts exactly.\<close>

definition report_exact :: "seg_codec \<Rightarrow> bytes list \<Rightarrow> seg_report \<Rightarrow> bool" where
  "report_exact c raws rep \<longleftrightarrow>
     (let decoded = List.map_filter (pdecode c) raws in
      sr_decoded rep = length decoded \<and> sr_decoded rep + sr_decode_errors rep = length raws
      \<and> sr_with_timeline rep = length (filter (\<lambda>r. timeline r \<noteq> None) decoded)
      \<and> (\<forall>k. RBT.lookup (sr_by_patch rep) k =
           (if filter (\<lambda>r. patch_key r = k) decoded = [] then None else Some (length (filter (\<lambda>r. patch_key r = k) decoded))))
      \<and> sr_raw_bytes rep = length (concat raws) \<and> sr_sample rep = (if decoded = [] then None else Some (hd decoded)))"

lemma inspect_records_exact: "report_exact c raws (inspect_records c raws)"
proof -
  have "RBT.lookup (sr_by_patch (inspect_records c raws)) k =
      (if with_patch c k raws = 0 then None else Some (with_patch c k raws))" for k
    using inspect_fold_patch[of c raws seg_report_new k]
    by (auto simp: inspect_records_def seg_report_new_def split: option.splits)
  then show ?thesis using map_filter_partition[of "pdecode c" raws]
    by (simp add: report_exact_def inspect_records_def inspect_fold seg_report_new_def with_patch_def Let_def split: list.split)
qed

lemma recompacted_intact:
  assumes "fs seg = Some f" "intact c f 0 rs" "recompact_segment c seg idx fs = (res, fs')" "paths_ok seg idx"
  shows "\<exists>g. fs' seg = Some g \<and> intact c g 0 rs"
proof -
  have ne: "seg \<noteq> tmp_path seg" "seg \<noteq> tmp_path idx" using assms(4) by (auto simp: paths_ok_def)
  have f: "(fs(tmp_path seg := None, tmp_path idx := None)) seg = Some f" using assms(1) ne by simp
  note r = recompact_correct[OF assms(3,4), unfolded recompact_ok_def]
  show ?thesis
  proof (cases res)
    case (Inl e)
    then show ?thesis using r f assms(2) by simp
  next
    case (Inr out)
    with r f obtain lay g where "read_segment_layout c f = Inr lay" "fs' seg = Some g" "intact c g 0 (sl_records lay)" by auto
    moreover from this(1) have "sl_records lay = rs"
      using intact_layout[OF assms(2)] by (auto simp: read_segment_layout_def)
    ultimately show ?thesis by auto
  qed
qed

section \<open>Properties\<close>

text \<open>C38: What \<^verbatim>\<open>inspect\<close> reports of an intact segment is exact, before and after the segment was recompacted: it counts the records that decode and those that
  do not, the timelines among the decoded ones, under each patch the decoded records that have it and no other patch, the bytes of all records, and
  shows the first record that decodes; the average sizes are those of the file as it is and of the records, and are left out when nothing decodes.\<close>

theorem inspect_report_exact:
  assumes "fs seg = Some f" "intact c f 0 rs" "recompact_segment c seg idx fs = (res, fs')" "paths_ok seg idx"
    and "file = f \<or> fs' seg = Some file"
  shows "\<exists>rep. inspect_segment c file = Inr (length file, rep)
    \<and> (let decoded = List.map_filter (pdecode c) rs in
       sr_decoded rep = length decoded \<and> sr_decoded rep + sr_decode_errors rep = length rs
       \<and> sr_with_timeline rep = length (filter (\<lambda>r. timeline r \<noteq> None) decoded)
       \<and> (\<forall>k. RBT.lookup (sr_by_patch rep) k =
            (if filter (\<lambda>r. patch_key r = k) decoded = [] then None else Some (length (filter (\<lambda>r. patch_key r = k) decoded))))
       \<and> sr_raw_bytes rep = length (concat rs) \<and> sr_sample rep = (if decoded = [] then None else Some (hd decoded))
       \<and> bytes_per_match (length file) rep =
           (if decoded = [] then None else Some (length file div length decoded, length (concat rs) div length decoded)))"
proof -
  have "intact c file 0 rs" using recompacted_intact[OF assms(1-4)] assms(2,5) by auto
  then have "inspect_segment c file = Inr (length file, inspect_records c rs)" by (simp add: inspect_segment_def intact_records)
  then show ?thesis using inspect_records_exact[of c rs]
    by (intro exI[of _ "inspect_records c rs"]) (simp add: report_exact_def bytes_per_match_def Let_def)
qed

theorem inspect_report_exact_witness:
  "let f = container sample_codec SEG_MAGIC (row_bytes [[1, 2, 3]]) in
     \<exists>g rep. snd (recompact_segment sample_codec ''a.seg'' ''a.idx'' [''a.seg'' \<mapsto> f]) ''a.seg'' = Some g
     \<and> inspect_segment sample_codec g = Inr (length g, rep) \<and> sr_decoded rep + sr_decode_errors rep = 1 \<and> sr_raw_bytes rep = 3"
proof -
  let ?f = "container sample_codec SEG_MAGIC (row_bytes [[1, 2, 3]])"
  let ?r = "recompact_segment sample_codec ''a.seg'' ''a.idx'' [''a.seg'' \<mapsto> ?f]"
  have "block_fits sample_codec (row_bytes [[1, 2, 3]])"
    by (simp add: block_fits_def sample_codec_def row_bytes_def MAX_SEGMENT_BLOCK_BYTES_def)
  moreover have "length ?f < 2 ^ 64" by (simp add: container_length sample_codec_def row_bytes_def)
  ultimately have i: "intact sample_codec ?f 0 [[1, 2, 3]]"
    using append_rows_intact[of sample_codec "[]" "[]" "[[1, 2, 3]]"] by (simp add: intact_end)
  have m: "[''a.seg'' \<mapsto> ?f] ''a.seg'' = Some ?f" "paths_ok ''a.seg'' ''a.idx''" by (simp_all add: paths_ok_def tmp_path_def)
  have e: "recompact_segment sample_codec ''a.seg'' ''a.idx'' [''a.seg'' \<mapsto> ?f] = (fst ?r, snd ?r)" by simp
  obtain g where g: "snd ?r ''a.seg'' = Some g" using recompacted_intact[OF m(1) i e m(2)] by blast
  from inspect_report_exact[OF m(1) i e m(2), of g] g show ?thesis by (auto simp: Let_def)
qed

end
