(* ===== verification/Worker_Props.thy ===== *)
theory Worker_Props
  imports Worker
begin

text \<open>
  A node against the server: it never holds more jobs per host than the server's target, it accounts for every job it was given, and the uploader of
  a result always ends.  What the node relies on from the server is the locale \<open>job_source\<close>; the broker is its instance.
\<close>

section \<open>Uploading ends\<close>

text \<open>The seconds slept before request \<open>n\<close>, and the delay after it.\<close>

definition slept :: "nat \<Rightarrow> nat" where
  "slept n = (if n \<le> 5 then 2 ^ n - 1 else 31 + 30 * (n - 5))"

definition delay_after :: "nat \<Rightarrow> nat" where
  "delay_after n = (if n \<le> 4 then 2 ^ n else 30)"

lemma delay_step: "min (delay_after n * 2) 30 = delay_after (Suc n)" "slept n + delay_after n = slept (Suc n)"
proof -
  have "n \<in> {0, 1, 2, 3, 4, 5} \<or> 5 < n" by auto
  then show "min (delay_after n * 2) 30 = delay_after (Suc n)" "slept n + delay_after n = slept (Suc n)"
    by (auto simp: delay_after_def slept_def)
qed

lemma slept_bound: "300 \<le> slept n \<longleftrightarrow> 14 \<le> n"
proof (cases "n \<le> 5")
  case True
  then have "n \<in> {0, 1, 2, 3, 4, 5}" by auto
  then show ?thesis by (auto simp: slept_def)
qed (auto simp: slept_def)

lemma upload_from:
  assumes "n \<le> 14"
  shows "\<exists>k. n \<le> k \<and> k \<le> 14 \<and> (\<forall>j. n \<le> j \<and> j < k \<longrightarrow> replies j = UpError) \<and> (replies k \<noteq> UpError \<or> k = 14)
    \<and> upload_loop replies n (delay_after n) (slept n) = Some (if replies k = UpOk then Delivered else GivenUp, k + 1, slept k)"
  using assms
proof (induction "14 - n" arbitrary: n rule: less_induct)
  case less
  show ?case
  proof (cases "replies n = UpError \<and> n < 14")
    case True
    have "\<not> 300 \<le> slept n" using slept_bound True by simp
    then have u: "upload_loop replies n (delay_after n) (slept n) = upload_loop replies (Suc n) (delay_after (Suc n)) (slept (Suc n))"
      using True by (subst upload_loop.simps) (simp add: delay_step)
    have lt: "14 - Suc n < 14 - n" and le: "Suc n \<le> 14" using True by auto
    obtain k where k: "Suc n \<le> k" "k \<le> 14" "\<forall>j. Suc n \<le> j \<and> j < k \<longrightarrow> replies j = UpError" "replies k \<noteq> UpError \<or> k = 14"
      "upload_loop replies (Suc n) (delay_after (Suc n)) (slept (Suc n)) =
        Some (if replies k = UpOk then Delivered else GivenUp, k + 1, slept k)"
      using less.hyps[OF lt le] by blast
    moreover have "\<forall>j. n \<le> j \<and> j < k \<longrightarrow> replies j = UpError" using k(3) True by (metis Suc_leI le_neq_implies_less)
    ultimately show ?thesis using u by (intro exI[of _ k]) auto
  next
    case False
    then have "replies n \<noteq> UpError \<or> n = 14" using less.prems by auto
    moreover have "upload_loop replies n (delay_after n) (slept n) = Some (if replies n = UpOk then Delivered else GivenUp, n + 1, slept n)"
      using False slept_bound[of n] less.prems by (cases "replies n") (subst upload_loop.simps, simp)+
    ultimately show ?thesis using less.prems by (intro exI[of _ n]) auto
  qed
qed

section \<open>The node and its server\<close>

text \<open>The node with an outstanding poll (the counts it reported), the state of the server, and the ids of the jobs received and of the results
  that have left the node.\<close>

record 'b node_system =
  ns_worker :: worker
  ns_request :: "(string \<Rightarrow> nat option) option"
  ns_server :: 'b
  ns_received :: "nat list"
  ns_left :: "nat list"

abbreviation on_worker :: "(worker \<Rightarrow> worker) \<Rightarrow> 'b node_system \<Rightarrow> 'b node_system" where
  "on_worker f n \<equiv> n\<lparr>ns_worker := f (ns_worker n)\<rparr>"

definition running :: "worker \<Rightarrow> string \<Rightarrow> nat" where
  "running w host = length (filter (\<lambda>j. job_host j = host) (wk_tasks w))"

text \<open>The steps: \<open>serve\<close> relates the reported counts, the server before and after, and the jobs handed out; \<open>env\<close> is what the server does
  otherwise.  Tasks end and results leave while a poll is outstanding.\<close>

inductive node_step ::
  "((string \<Rightarrow> nat option) \<Rightarrow> 'b \<Rightarrow> job list \<Rightarrow> 'b \<Rightarrow> bool) \<Rightarrow> ('b \<Rightarrow> 'b \<Rightarrow> bool) \<Rightarrow> 'b node_system \<Rightarrow> 'b node_system \<Rightarrow> bool"
  for serve env where
  polled: "ns_request n = None \<Longrightarrow> \<not> ex_key_bad (wk_executor (ns_worker n)) \<Longrightarrow>
    node_step serve env n (n\<lparr>ns_request := Some (pending_of (wk_inflight (ns_worker n)))\<rparr>)"
| answered: "ns_request n = Some pending \<Longrightarrow> serve pending (ns_server n) js b \<Longrightarrow>
    node_step serve env n (n\<lparr>ns_worker := poll_ok js (ns_worker n), ns_request := None, ns_server := b,
      ns_received := map job_id js @ ns_received n\<rparr>)"
| lost: "ns_request n = Some pending \<Longrightarrow> serve pending (ns_server n) js b \<Longrightarrow>
    node_step serve env n (n\<lparr>ns_worker := poll_failed (ns_worker n), ns_request := None, ns_server := b\<rparr>)"
| unreachable: "ns_request n = Some pending \<Longrightarrow>
    node_step serve env n (n\<lparr>ns_worker := poll_failed (ns_worker n), ns_request := None\<rparr>)"
| started: "job \<in> set (wk_tasks (ns_worker n)) \<Longrightarrow> node_step serve env n (on_worker (start_task job) n)"
| sent: "job \<in> set (wk_tasks (ns_worker n)) \<Longrightarrow> node_step serve env n (on_worker (send_task job) n)"
| executing: "node_step serve env n (on_worker (\<lambda>w. w\<lparr>wk_executor := ex\<rparr>) n)"
| ended: "job \<in> set (wk_tasks (ns_worker n)) \<Longrightarrow> res_id res = job_id job \<Longrightarrow> node_step serve env n (on_worker (end_task job res ms) n)"
| left: "wk_results (ns_worker n) = res # rs \<Longrightarrow>
    node_step serve env n (n\<lparr>ns_worker := uploaded res ((ns_worker n)\<lparr>wk_results := rs\<rparr>), ns_left := res_id res # ns_left n\<rparr>)"
| paused: "ex_key_bad (wk_executor (ns_worker n)) \<Longrightarrow> node_step serve env n (on_worker announce_pause n)"
| refreshed: "ex_key_bad (wk_executor (ns_worker n)) \<Longrightarrow> node_step serve env n (on_worker (refresh_key m fresh) n)"
| server: "env (ns_server n) b \<Longrightarrow> node_step serve env n (n\<lparr>ns_server := b\<rparr>)"

definition node_init :: "string \<Rightarrow> nat option \<Rightarrow> 'b \<Rightarrow> 'b node_system" where
  "node_init key mtime b = \<lparr>ns_worker = worker_new key mtime node_handle_new, ns_request = None, ns_server = b, ns_received = [], ns_left = []\<rparr>"

definition node_reach ::
  "((string \<Rightarrow> nat option) \<Rightarrow> 'b \<Rightarrow> job list \<Rightarrow> 'b \<Rightarrow> bool) \<Rightarrow> ('b \<Rightarrow> 'b \<Rightarrow> bool) \<Rightarrow> 'b \<Rightarrow> 'b node_system \<Rightarrow> bool" where
  "node_reach serve env b n \<longleftrightarrow> (\<exists>key mtime. (node_step serve env)\<^sup>*\<^sup>* (node_init key mtime b) n)"

section \<open>Accounts\<close>

definition reported :: "(string \<Rightarrow> nat option) \<Rightarrow> string \<Rightarrow> nat" where
  "reported pending host = (case pending host of Some n \<Rightarrow> n | None \<Rightarrow> 0)"

text \<open>The counts are those of the running tasks; every job received is running, waiting for upload, or has left; the counters of the handle count
  the finished tasks.\<close>

definition accounts_ok :: "'b node_system \<Rightarrow> bool" where
  "accounts_ok n \<longleftrightarrow>
     (let w = ns_worker n in
        (\<forall>h. host_count (wk_inflight w) h = running w h)
      \<and> mset (ns_received n) = mset (map job_id (wk_tasks w)) + mset (map res_id (wk_results w)) + mset (ns_left n)
      \<and> nh_completed (wk_handle w) = length (wk_results w) + length (ns_left n))"

lemma handle_same [simp]:
  "wk_inflight (on_handle f w) = wk_inflight w" "wk_tasks (on_handle f w) = wk_tasks w" "wk_results (on_handle f w) = wk_results w"
  "wk_handle (on_handle f w) = f (wk_handle w)" "wk_executor (on_handle f w) = wk_executor w"
  by (simp_all add: on_handle_def)

lemma emit_same [simp]:
  "nh_completed (emit ev h) = nh_completed h" "nh_connected (emit ev h) = nh_connected h" "nh_key_bad (emit ev h) = nh_key_bad h"
  by (simp_all add: emit_def)

lemma finished_completed [simp]: "nh_completed (job_finished host m h) = nh_completed h + 1"
  by (simp add: job_finished_def Let_def)

lemma take_jobs_worker:
  "wk_tasks (fold take_job js w) = wk_tasks w @ js" "wk_results (fold take_job js w) = wk_results w"
  "wk_handle (fold take_job js w) = wk_handle w"
  "host_count (wk_inflight (fold take_job js w)) h = host_count (wk_inflight w) h + length (filter (\<lambda>j. job_host j = h) js)"
  by (induction js arbitrary: w) (auto simp: take_job_def host_count_def)

lemma poll_ok_worker:
  "wk_tasks (poll_ok js w) = wk_tasks w @ js" "wk_results (poll_ok js w) = wk_results w"
  "nh_completed (wk_handle (poll_ok js w)) = nh_completed (wk_handle w)"
  "host_count (wk_inflight (poll_ok js w)) h = host_count (wk_inflight w) h + length (filter (\<lambda>j. job_host j = h) js)"
  by (simp_all add: poll_ok_def Let_def take_jobs_worker)

lemma poll_failed_worker:
  "wk_tasks (poll_failed w) = wk_tasks w" "wk_results (poll_failed w) = wk_results w" "wk_inflight (poll_failed w) = wk_inflight w"
  "nh_completed (wk_handle (poll_failed w)) = nh_completed (wk_handle w)"
  by (simp_all add: poll_failed_def Let_def)

lemma remove1_count: "x \<in> set xs \<Longrightarrow> length (filter P xs) = length (filter P (remove1 x xs)) + (if P x then 1 else 0)"
  by (induction xs) auto

lemma end_task_worker:
  assumes "job \<in> set (wk_tasks w)" "\<And>h. host_count (wk_inflight w) h = running w h"
  shows "wk_tasks (end_task job res ms w) = remove1 job (wk_tasks w)" "wk_results (end_task job res ms w) = wk_results w @ [res]"
    and "nh_completed (wk_handle (end_task job res ms w)) = nh_completed (wk_handle w) + 1"
    and "host_count (wk_inflight (end_task job res ms w)) h = running (end_task job res ms w) h"
proof -
  show t: "wk_tasks (end_task job res ms w) = remove1 job (wk_tasks w)"
    and "wk_results (end_task job res ms w) = wk_results w @ [res]"
    and "nh_completed (wk_handle (end_task job res ms w)) = nh_completed (wk_handle w) + 1"
    by (simp_all add: end_task_def Let_def split: option.split)
  have "host_count (wk_inflight (end_task job res ms w)) h = host_count (wk_inflight w) h - (if job_host job = h then 1 else 0)"
    by (auto simp: end_task_def host_count_def Let_def split: option.split)
  then show "host_count (wk_inflight (end_task job res ms w)) h = running (end_task job res ms w) h"
    using assms(2)[of h] remove1_count[OF assms(1), of "\<lambda>j. job_host j = h"] by (simp add: running_def t)
qed

lemma accounts_init: "accounts_ok (node_init key mtime b)"
  by (simp add: accounts_ok_def node_init_def worker_new_def node_handle_new_def host_count_def running_def)

lemma accounts_step: "node_step serve env n n' \<Longrightarrow> accounts_ok n \<Longrightarrow> accounts_ok n'"
proof (induction rule: node_step.induct)
  case (answered n pending js b)
  then show ?case by (simp add: accounts_ok_def Let_def poll_ok_worker running_def)
next
  case (ended job n res ms)
  have c: "\<And>h. host_count (wk_inflight (ns_worker n)) h = running (ns_worker n) h" using ended(3) by (simp add: accounts_ok_def Let_def)
  note e = end_task_worker[OF ended(1) c]
  have "mset (map job_id (wk_tasks (ns_worker n))) = add_mset (job_id job) (mset (map job_id (remove1 job (wk_tasks (ns_worker n)))))"
    using ended(1) by (metis image_mset_add_mset insert_DiffM mset_map mset_remove1 set_mset_mset)
  then show ?case using ended(2,3) e by (simp add: accounts_ok_def Let_def)
next
  case (left n res rs)
  then show ?case by (simp add: accounts_ok_def Let_def uploaded_def running_def)
qed (simp_all add: accounts_ok_def Let_def poll_failed_worker running_def start_task_def send_task_def announce_pause_def refresh_key_def
    split: option.split)

lemma accounts_reach: "node_reach serve env b n \<Longrightarrow> accounts_ok n"
  unfolding node_reach_def
proof (elim exE)
  fix key mtime
  assume "(node_step serve env)\<^sup>*\<^sup>* (node_init key mtime b) n"
  then show "accounts_ok n" by (induction rule: rtranclp_induct) (auto intro: accounts_init accounts_step)
qed

section \<open>What the node relies on\<close>

text \<open>A server that tops each host up to its target at most, given the counts the node reports.\<close>

locale job_source =
  fixes inv :: "'b \<Rightarrow> bool" and serve :: "(string \<Rightarrow> nat option) \<Rightarrow> 'b \<Rightarrow> job list \<Rightarrow> 'b \<Rightarrow> bool" and env :: "'b \<Rightarrow> 'b \<Rightarrow> bool"
    and target :: nat
  assumes serve_inv: "inv b \<Longrightarrow> serve pending b js b' \<Longrightarrow> inv b'"
    and env_inv: "inv b \<Longrightarrow> env b b' \<Longrightarrow> inv b'"
    and serve_tops_up: "inv b \<Longrightarrow> serve pending b js b' \<Longrightarrow>
      length (filter (\<lambda>j. job_host j = h) js) \<le> target - reported pending h"
begin

text \<open>The node holds at most the target; what an outstanding poll reported covers what is running.\<close>

definition load_ok :: "'b node_system \<Rightarrow> bool" where
  "load_ok n \<longleftrightarrow> inv (ns_server n) \<and> (\<forall>h. running (ns_worker n) h \<le> target)
     \<and> (\<forall>pending h. ns_request n = Some pending \<longrightarrow> running (ns_worker n) h \<le> reported pending h \<and> reported pending h \<le> target)"

lemma pending_reported: "reported (pending_of m) h = host_count m h"
  by (simp add: reported_def pending_of_def host_count_def split: option.split)

lemma load_step: "node_step serve env n n' \<Longrightarrow> accounts_ok n \<Longrightarrow> load_ok n \<Longrightarrow> load_ok n'"
proof (induction rule: node_step.induct)
  case (polled n)
  then show ?case by (simp add: load_ok_def accounts_ok_def Let_def pending_reported)
next
  case (answered n pending js b)
  have "running (poll_ok js (ns_worker n)) h \<le> target" for h
    using answered serve_tops_up[of "ns_server n" pending js b h]
    by (auto simp: load_ok_def running_def poll_ok_worker dest!: spec[of _ h])
  then show ?case using answered serve_inv by (auto simp: load_ok_def)
next
  case (ended job n res ms)
  have c: "\<And>h. host_count (wk_inflight (ns_worker n)) h = running (ns_worker n) h" using ended(3) by (simp add: accounts_ok_def Let_def)
  have "running (end_task job res ms (ns_worker n)) h \<le> running (ns_worker n) h" for h
    using remove1_count[OF ended(1), of "\<lambda>j. job_host j = h"] end_task_worker(1)[OF ended(1) c] by (simp add: running_def)
  then show ?case using ended(4) unfolding load_ok_def by (simp, meson order_trans)
qed (auto simp: load_ok_def poll_failed_worker running_def start_task_def send_task_def announce_pause_def refresh_key_def uploaded_def
    Let_def intro: serve_inv env_inv split: option.split)

lemma never_overfull:
  assumes "node_reach serve env b n" "inv b"
  shows "load_ok n"
proof -
  obtain key mtime where r: "(node_step serve env)\<^sup>*\<^sup>* (node_init key mtime b) n" using assms(1) by (auto simp: node_reach_def)
  have i: "load_ok (node_init key mtime b)" using assms(2) by (simp add: load_ok_def node_init_def worker_new_def running_def)
  have a: "accounts_ok m" if "(node_step serve env)\<^sup>*\<^sup>* (node_init key mtime b) m" for m
    by (rule accounts_reach[of serve env b]) (use that in \<open>auto simp: node_reach_def\<close>)
  from r show ?thesis
  proof (induction rule: rtranclp_induct)
    case base
    then show ?case by (rule i)
  next
    case (step m m')
    then show ?case using load_step[OF step(2) a[OF step(1)]] by blast
  qed
qed

lemma holds_at_most: "node_reach serve env b n \<Longrightarrow> inv b \<Longrightarrow> running (ns_worker n) h \<le> target"
  using never_overfull by (simp add: load_ok_def)

end

section \<open>The broker serves a node\<close>

text \<open>A poll of the broker by node \<open>node\<close>, and everything else that happens to the broker.\<close>

definition broker_serve :: "nat \<Rightarrow> (string \<Rightarrow> nat option) \<Rightarrow> broker \<Rightarrow> job list \<Rightarrow> broker \<Rightarrow> bool" where
  "broker_serve node pending b js b' \<longleftrightarrow>
     js = [] \<and> b' = b \<or> (\<exists>hosts order rolls now. distinct hosts \<and> take_jobs hosts order rolls now node pending b = (js, b'))"

inductive broker_env :: "(string \<Rightarrow> 'json option) \<Rightarrow> broker \<Rightarrow> broker \<Rightarrow> bool" for parse :: "string \<Rightarrow> 'json option" where
  "broker_env parse b (fetch_enqueue host method path now b)"
| "broker_env parse b (snd (take_jobs hosts order rolls now other pending b))"
| "broker_env parse b (complete parse now other res b)"
| "broker_env parse b (sweep order1 order2 now b)"
| "distinct order \<Longrightarrow> set order = dom (jobs b) \<Longrightarrow> broker_env parse b (shutdown order b)"

interpretation broker_source: job_source binv "broker_serve node" "broker_env parse" TARGET_INFLIGHT_PER_HOST
  for node and parse :: "string \<Rightarrow> 'json option"
proof (unfold_locales, goal_cases)
  case (1 b pending js b')
  then show ?case unfolding broker_serve_def using scheduling.take by (metis snd_conv)
next
  case (2 b b')
  from 2(2,1) show ?case
    by (induction rule: broker_env.induct)
      (auto intro: scheduling.enqueue scheduling.take scheduling.complete scheduling.sweep scheduling.shutdown)
next
  case (3 b pending js b' h)
  show ?case
  proof (cases "js = []")
    case False
    then obtain hosts order rolls now where "distinct hosts" "take_jobs hosts order rolls now node pending b = (js, b')"
      using 3(2) by (auto simp: broker_serve_def)
    then show ?thesis using take_jobs_out[OF 3(1), of hosts h order rolls now node pending] by (simp add: host_cap_def reported_def)
  qed simp
qed

section \<open>A sample node\<close>

definition sample_fetch :: broker where
  "sample_fetch = fetch_enqueue ''euw1'' ''match-v5.match'' ''/x'' 0 (broker_new registry_new Map.empty)"

definition sample_job1 :: job where
  "sample_job1 = \<lparr>job_id = 1, job_host = ''euw1'', job_method = ''match-v5.match'', job_path = ''/x'', job_lease_ms = 150000\<rparr>"

lemma sample_take: "fst (take_jobs [''euw1''] [] [] 0 4 Map.empty sample_fetch) = [sample_job1]"
  by (simp add: sample_fetch_def sample_job1_def take_jobs_def take_host_def lease_one_def fetch_enqueue_def push_back_def queue_of_def
      broker_new_def registry_new_def active_node_other_than_def pick_loop.simps TARGET_INFLIGHT_PER_HOST_def LEASE_MS_def Let_def)

lemma node_reach_step: "node_reach serve env b n \<Longrightarrow> node_step serve env n n' \<Longrightarrow> node_reach serve env b n'"
  unfolding node_reach_def by (meson rtranclp.rtrancl_into_rtrancl)

text \<open>The node has polled and got the job.\<close>

lemma sample_node:
  "\<exists>n. node_reach (broker_serve 4) (broker_env (\<lambda>_. Some ())) (broker_new registry_new Map.empty) n
     \<and> wk_tasks (ns_worker n) = [sample_job1] \<and> ns_received n = [1] \<and> ns_left n = []"
proof -
  let ?serve = "broker_serve 4" and ?env = "broker_env (\<lambda>_. Some ())" and ?b = "broker_new registry_new Map.empty"
  let ?n0 = "node_init ''key'' None ?b"
  have 0: "node_reach ?serve ?env ?b ?n0" unfolding node_reach_def by blast
  have "?env (ns_server ?n0) sample_fetch" unfolding sample_fetch_def node_init_def by simp (rule broker_env.intros(1))
  from node_reach_step[OF 0 server[where serve = ?serve and env = ?env and n = ?n0, OF this]]
  have 1: "node_reach ?serve ?env ?b (?n0\<lparr>ns_server := sample_fetch\<rparr>)" .
  let ?n1 = "?n0\<lparr>ns_server := sample_fetch\<rparr>"
  have p: "pending_of (wk_inflight (ns_worker ?n1)) = Map.empty"
    by (simp add: node_init_def worker_new_def pending_of_def fun_eq_iff)
  have c: "ns_request ?n1 = None" "\<not> ex_key_bad (wk_executor (ns_worker ?n1))"
    by (simp_all add: node_init_def worker_new_def executor_new_def)
  let ?n2 = "?n1\<lparr>ns_request := Some Map.empty\<rparr>"
  have 2: "node_reach ?serve ?env ?b ?n2"
    using node_reach_step[OF 1 polled[OF c]] unfolding p .
  obtain b' where t: "take_jobs [''euw1''] [] [] 0 4 Map.empty sample_fetch = ([sample_job1], b')" using sample_take by (metis prod.collapse)
  then have "?serve Map.empty (ns_server ?n2) [sample_job1] b'" unfolding broker_serve_def by (auto intro!: exI[of _ "[''euw1'']"])
  from node_reach_step[OF 2 answered[where serve = ?serve and env = ?env and n = ?n2, OF _ this]]
  have "node_reach ?serve ?env ?b (?n2\<lparr>ns_worker := poll_ok [sample_job1] (ns_worker ?n2), ns_request := None, ns_server := b',
      ns_received := map job_id [sample_job1] @ ns_received ?n2\<rparr>)" by simp
  then show ?thesis
    by (intro exI conjI, assumption) (simp_all add: poll_ok_worker node_init_def worker_new_def sample_job1_def)
qed

section \<open>Properties\<close>

text \<open>C14: A node is never overfilled.  However polls, tasks, uploads and the server interleave, a node that talks to the broker runs at most eight jobs
  per routing host at any time, and the counts it reports are exactly the jobs it is running.\<close>

theorem node_never_overfull:
  assumes "node_reach (broker_serve node) (broker_env parse) (broker_new reg st) n"
  shows "running (ns_worker n) h \<le> 8 \<and> host_count (wk_inflight (ns_worker n)) h = running (ns_worker n) h"
proof -
  have "running (ns_worker n) h \<le> TARGET_INFLIGHT_PER_HOST"
    by (rule broker_source.holds_at_most[OF assms]) (rule scheduling.init)
  then have "running (ns_worker n) h \<le> 8" by (simp add: TARGET_INFLIGHT_PER_HOST_def)
  then show ?thesis using accounts_reach[OF assms] by (simp add: accounts_ok_def Let_def)
qed

theorem node_never_overfull_witness:
  "\<exists>n. node_reach (broker_serve 4) (broker_env (\<lambda>_. Some ())) (broker_new registry_new Map.empty) n
     \<and> wk_tasks (ns_worker n) = [sample_job1] \<and> running (ns_worker n) ''euw1'' \<le> 8
     \<and> host_count (wk_inflight (ns_worker n)) ''euw1'' = 1"
proof -
  obtain n where n: "node_reach (broker_serve 4) (broker_env (\<lambda>_. Some ())) (broker_new registry_new Map.empty) n"
    "wk_tasks (ns_worker n) = [sample_job1]" using sample_node by blast
  have "running (ns_worker n) ''euw1'' = 1" using n(2) by (simp add: running_def sample_job1_def)
  then show ?thesis using node_never_overfull[OF n(1), of "''euw1''"] n by (intro exI[of _ n]) simp
qed

text \<open>C35: A node accounts for every job: each job it received is exactly one of running, waiting for the upload of its result, or gone from the node, and the
  counter of completed jobs is the number of those that are no longer running.\<close>

theorem node_accounts_for_jobs:
  assumes "node_reach serve env b n"
  shows "mset (ns_received n) = mset (map job_id (wk_tasks (ns_worker n))) + mset (map res_id (wk_results (ns_worker n))) + mset (ns_left n)
    \<and> sn_completed (handle_snapshot (wk_handle (ns_worker n))) + length (wk_tasks (ns_worker n)) = length (ns_received n)"
proof -
  note a = accounts_reach[OF assms, unfolded accounts_ok_def Let_def]
  have "length (ns_received n) = size (mset (map job_id (wk_tasks (ns_worker n))) + mset (map res_id (wk_results (ns_worker n))) + mset (ns_left n))"
    using a by (metis size_mset)
  then show ?thesis using a by (simp add: handle_snapshot_def)
qed

theorem node_accounts_for_jobs_witness:
  "\<exists>n. node_reach (broker_serve 4) (broker_env (\<lambda>_. Some ())) (broker_new registry_new Map.empty) n \<and> ns_received n = [1]
     \<and> mset (ns_received n) = mset (map job_id (wk_tasks (ns_worker n))) + mset (map res_id (wk_results (ns_worker n))) + mset (ns_left n)
     \<and> sn_completed (handle_snapshot (wk_handle (ns_worker n))) = 0"
proof -
  obtain n where n: "node_reach (broker_serve 4) (broker_env (\<lambda>_. Some ())) (broker_new registry_new Map.empty) n"
    "wk_tasks (ns_worker n) = [sample_job1]" "ns_received n = [1]" using sample_node by blast
  show ?thesis using node_accounts_for_jobs[OF n(1)] n by (intro exI[of _ n]) simp
qed

text \<open>C17: The uploader of a result always ends, after at most 15 requests and 301 seconds of sleep.  It stops at the first request that
  does not fail for lack of the server, delivering the result when the server took it; it gives up after failures only when it has slept for 300
  seconds, which is longer than the lease of the job.\<close>

theorem upload_ends:
  "\<exists>k. k \<le> 14 \<and> upload replies = Some (if replies k = UpOk then Delivered else GivenUp, k + 1, slept k)
     \<and> (\<forall>j<k. replies j = UpError) \<and> slept k \<le> 301
     \<and> (replies k = UpError \<longrightarrow> 300 \<le> slept k \<and> LEASE_MS < 1000 * slept k)"
proof -
  obtain k where k: "k \<le> 14" "\<forall>j. 0 \<le> j \<and> j < k \<longrightarrow> replies j = UpError" "replies k \<noteq> UpError \<or> k = 14"
    "upload_loop replies 0 (delay_after 0) (slept 0) = Some (if replies k = UpOk then Delivered else GivenUp, k + 1, slept k)"
    using upload_from[of 0 replies] by blast
  have "slept k \<le> slept 14"
  proof (cases "k \<le> 5")
    case True
    then have "k \<in> {0, 1, 2, 3, 4, 5}" by auto
    then show ?thesis by (auto simp: slept_def)
  qed (use k(1) in \<open>simp add: slept_def\<close>)
  then show ?thesis using k by (intro exI[of _ k]) (auto simp: upload_def delay_after_def slept_def LEASE_MS_def)
qed

theorem upload_ends_witness: "upload (\<lambda>_. UpError) = Some (GivenUp, 15, 301)"
proof -
  obtain k where k: "k \<le> 14" "upload (\<lambda>_. UpError) = Some (GivenUp, k + 1, slept k)" "300 \<le> slept k"
    using upload_ends[of "\<lambda>_. UpError"] by auto
  have "k \<in> {0, 1, 2, 3, 4, 5} \<or> 5 < k" by auto
  then have "k = 14" using k(1,3) by (auto simp: slept_def)
  then show ?thesis using k(2) by (simp add: slept_def)
qed

end
