(* ===== verification/Riot.thy ===== *)
theory Riot
  imports Crawler Broker
begin

text \<open>
  The typed API surface of \<^verbatim>\<open>crates/server/src/riot.rs\<close>: each call is a request (routing host, limiter method, path) handed to
  the broker and a decoding of what the broker answers.  The JSON decoders that serde derives are arguments.  The answers are what
  the crawl loop of \<^verbatim>\<open>crawler.rs\<close> takes as its API results.
\<close>

section \<open>Requests\<close>

type_synonym riot_request = "string \<times> string \<times> string"

definition apex_league_request :: "region \<Rightarrow> string \<Rightarrow> riot_request" where
  "apex_league_request rg league =
     (rg_platform_host rg, ''league-v4.apex'', ''/lol/league/v4/'' @ league @ ''/by-queue/'' @ RANKED_QUEUE_TYPE)"

definition league_entries_page_request :: "region \<Rightarrow> string \<Rightarrow> string \<Rightarrow> u32 \<Rightarrow> riot_request" where
  "league_entries_page_request rg tier division page =
     (rg_platform_host rg, ''league-v4.entries'',
      ''/lol/league/v4/entries/'' @ RANKED_QUEUE_TYPE @ ''/'' @ tier @ ''/'' @ division @ ''?page='' @ show_nat (unat page))"

definition league_entries_by_puuid_request :: "region \<Rightarrow> string \<Rightarrow> riot_request" where
  "league_entries_by_puuid_request rg puuid =
     (rg_platform_host rg, ''league-v4.by-puuid'', ''/lol/league/v4/entries/by-puuid/'' @ puuid)"

definition match_ids_page_request :: "region \<Rightarrow> string \<Rightarrow> int option \<Rightarrow> u32 \<Rightarrow> riot_request" where
  "match_ids_page_request rg puuid start_time_s start =
     (let path = ''/lol/match/v5/matches/by-puuid/'' @ puuid @ ''/ids?queue='' @ show_nat (unat QUEUE_ID) @ ''&start='' @ show_nat (unat start) @ ''&count=100'';
          path = (case start_time_s of Some t \<Rightarrow> path @ ''&startTime='' @ show_int t | None \<Rightarrow> path)
      in (rg_regional_host rg, ''match-v5.ids'', path))"

definition match_raw_request :: "region \<Rightarrow> string \<Rightarrow> riot_request" where
  "match_raw_request rg match_id = (rg_regional_host rg, ''match-v5.match'', ''/lol/match/v5/matches/'' @ match_id)"

definition timeline_raw_request :: "region \<Rightarrow> string \<Rightarrow> riot_request" where
  "timeline_raw_request rg match_id = (rg_regional_host rg, ''match-v5.timeline'', ''/lol/match/v5/matches/'' @ match_id @ ''/timeline'')"

section \<open>Answers\<close>

datatype riot_error = FetchFailed fetch_error | BadJson

definition get_json :: "(string \<Rightarrow> 'a option) \<Rightarrow> fetch_result \<Rightarrow> riot_error + 'a option" where
  "get_json decode reply =
     (case reply of
        Inl e \<Rightarrow> Inl (FetchFailed e)
      | Inr None \<Rightarrow> Inr None
      | Inr (Some body) \<Rightarrow> (case decode body of Some v \<Rightarrow> Inr (Some v) | None \<Rightarrow> Inl BadJson))"

definition or_default :: "'a list option \<Rightarrow> 'a list" where
  "or_default v = (case v of Some xs \<Rightarrow> xs | None \<Rightarrow> [])"

definition apex_league :: "(string \<Rightarrow> league_list_entry list option) \<Rightarrow> fetch_result \<Rightarrow> riot_error + league_list_entry list" where
  "apex_league decode reply = map_sum id or_default (get_json decode reply)"

definition league_entries :: "(string \<Rightarrow> league_entry list option) \<Rightarrow> fetch_result \<Rightarrow> riot_error + league_entry list" where
  "league_entries decode reply = map_sum id or_default (get_json decode reply)"

definition match_ids_page :: "(string \<Rightarrow> string list option) \<Rightarrow> fetch_result \<Rightarrow> riot_error + string list" where
  "match_ids_page decode reply = map_sum id or_default (get_json decode reply)"

definition match_raw :: "(string \<Rightarrow> json option) \<Rightarrow> fetch_result \<Rightarrow> match_reply" where
  "match_raw decode reply =
     (case reply of
        Inl e \<Rightarrow> ReplyError
      | Inr None \<Rightarrow> ReplyMissing
      | Inr (Some body) \<Rightarrow> ReplyBody body (decode body))"

section \<open>Facts\<close>

text \<open>A 404 is an empty list for the list calls, and a missing match for the match call; only a failed fetch or an undecodable body is an
  error.\<close>

lemma riot_answers:
  "match_ids_page decode (Inr None) = Inr []"
  "match_ids_page decode (Inl e) = Inl (FetchFailed e)"
  "decode body = Some ids \<Longrightarrow> match_ids_page decode (Inr (Some body)) = Inr ids"
  "decode body = None \<Longrightarrow> match_ids_page decode (Inr (Some body)) = Inl BadJson"
  by (simp_all add: match_ids_page_def get_json_def or_default_def)

text \<open>Different pages of the ladder and of a match list are different requests.\<close>

lemma ladder_pages_differ:
  "league_entries_page_request rg tier division p = league_entries_page_request rg tier division q \<longleftrightarrow> p = q"
  by (simp add: league_entries_page_request_def show_nat_inj word_unat_eq_iff)

end
