(* ===== verification/Transpose.thy ===== *)
theory Transpose
  imports Segment_Props "HOL-Library.Monad_Syntax"
begin

unbundle bit_operations_syntax

text \<open>
  The transposition benchmark (\<^verbatim>\<open>docs/experiments/columnar/transpose_bench.rs\<close>): a parser of protobuf match records by hand that writes the column
  streams while it reads.  It is a second implementation of the writer half of \<^verbatim>\<open>columnar.rs\<close>.

  A cursor is the list of the bytes it has left.  \<open>None\<close> is a panic: an index or slice out of range, an unexpected field, or an overflow
  that a build with overflow checks detects.  The three column vectors are those of \<^verbatim>\<open>columnar.rs\<close>, with a fixed number of columns.  The state of the
  frame series is reset by every timeline and belongs to its buffers here.
\<close>

section \<open>Cursor and primitive writers\<close>

fun cur_varint_loop :: "nat \<Rightarrow> u64 \<Rightarrow> bytes \<Rightarrow> (u64 \<times> bytes) option" where
  "cur_varint_loop s r [] = None"
| "cur_varint_loop s r (x # b) =
     (if s \<ge> 64 then None
      else
        let r = r OR push_bit s (ucast (x AND 0x7f)) in
        if x AND 0x80 = 0 then Some (r, b) else cur_varint_loop (s + 7) r b)"

definition cur_varint :: "bytes \<Rightarrow> (u64 \<times> bytes) option" where
  "cur_varint b = cur_varint_loop 0 0 b"

definition cur_bytes :: "nat \<Rightarrow> bytes \<Rightarrow> (bytes \<times> bytes) option" where
  "cur_bytes n b = (if n \<le> length b then Some (take n b, drop n b) else None)"

text \<open>\<^verbatim>\<open>let n = cur.varint() as usize; cur.bytes(n)\<close>\<close>

definition cur_sub :: "bytes \<Rightarrow> (bytes \<times> bytes) option" where
  "cur_sub b = do { (n, b) \<leftarrow> cur_varint b; cur_bytes (unat n) b }"

text \<open>\<^verbatim>\<open>while !cur.done()\<close>.\<close>

partial_function (option) cur_loop :: "(bytes \<Rightarrow> 's \<Rightarrow> (bytes \<times> 's) option) \<Rightarrow> bytes \<Rightarrow> 's \<Rightarrow> 's option" where
  "cur_loop step b s = (if b = [] then Some s else do { (b, s) \<leftarrow> step b s; cur_loop step b s })"

function bench_wv :: "u64 \<Rightarrow> bytes" where
  "bench_wv v =
     (let x = ucast (v AND 0x7f) :: u8; v' = drop_bit 7 v in
      if v' \<noteq> 0 then (x OR 0x80) # bench_wv v' else [x])"
  by pat_completeness auto
termination
proof (relation "measure unat", goal_cases)
  case (2 v x xa)
  then have "v \<noteq> 0" by auto
  with 2 show ?case by (simp add: unat_drop_bit_less)
qed simp

declare bench_wv.simps [simp del]

definition bench_wz :: "i64 \<Rightarrow> bytes" where
  "bench_wz v = bench_wv (push_bit 1 v XOR signed_drop_bit 63 v)"

text \<open>\<^verbatim>\<open>a as i64 - b as i64\<close>\<close>

definition sub_i64 :: "u64 \<Rightarrow> u64 \<Rightarrow> i64 option" where
  "sub_i64 a b =
     (let d = sint a - sint b in if - (2 ^ 63) \<le> d \<and> d < 2 ^ 63 then Some (word_of_int d) else None)"

section \<open>Columns\<close>

definition NSTAT :: nat where
  "NSTAT = 160"

definition NRUNE :: nat where
  "NRUNE = 16"

definition bench_cols :: cols where
  "bench_cols = \<lparr>cfixed = replicate NMISC [], cstat = replicate NSTAT [], crune = replicate NRUNE []\<rparr>"

definition bwv :: "nat \<Rightarrow> u64 \<Rightarrow> cols \<Rightarrow> cols" where
  "bwv k v c = c\<lparr>cfixed := push_to k (bench_wv v) (cfixed c)\<rparr>"

definition bwz :: "nat \<Rightarrow> i64 \<Rightarrow> cols \<Rightarrow> cols" where
  "bwz k v c = c\<lparr>cfixed := push_to k (bench_wz v) (cfixed c)\<rparr>"

definition push_col :: "nat \<Rightarrow> bytes \<Rightarrow> bytes list \<Rightarrow> bytes list option" where
  "push_col i bs xs = (if i < length xs then Some (push_to i bs xs) else None)"

text \<open>The field number and the wire type of a tag.\<close>

definition bench_key :: "u64 \<Rightarrow> nat \<times> nat" where
  "bench_key t = (unat (drop_bit 3 t), unat (t AND 7))"

section \<open>Participants and bans\<close>

definition put_misc :: "nat \<Rightarrow> bytes \<Rightarrow> cols \<Rightarrow> (bytes \<times> cols) option" where
  "put_misc k b c = do { (v, b) \<leftarrow> cur_varint b; Some (b, bwv k v c) }"

definition rune_step :: "bytes \<Rightarrow> nat \<times> cols \<Rightarrow> (bytes \<times> nat \<times> cols) option" where
  "rune_step b st =
     (case st of (ri, c) \<Rightarrow> do {
        (v, b) \<leftarrow> cur_varint b;
        xs \<leftarrow> push_col ri (bench_wv v) (crune c);
        Some (b, ri + 1, c\<lparr>crune := xs\<rparr>) })"

definition stat_step :: "bytes \<Rightarrow> nat \<times> cols \<Rightarrow> (bytes \<times> nat \<times> cols) option" where
  "stat_step b st =
     (case st of (si, c) \<Rightarrow> do {
        (v, b) \<leftarrow> cur_varint b;
        xs \<leftarrow> push_col si (bench_wv v) (cstat c);
        Some (b, si + 1, c\<lparr>cstat := xs\<rparr>) })"

definition participant_step :: "bytes \<Rightarrow> cols \<Rightarrow> (bytes \<times> cols) option" where
  "participant_step b c = do {
     (t, b) \<leftarrow> cur_varint b;
     let k = bench_key t;
     if k = (1, 0) then put_misc P_PLAYER b c
     else if k = (2, 0) then put_misc P_CHAMP b c
     else if k = (3, 0) then put_misc P_POS b c
     else if k = (4, 0) then put_misc P_SP1 b c
     else if k = (5, 0) then put_misc P_SP2 b c
     else if k = (6, 2) then do {
       (q, b) \<leftarrow> cur_sub b;
       (ri, c) \<leftarrow> cur_loop rune_step q (0, c);
       Some (b, bwv P_RUNES_N (of_nat ri) c) }
     else if k = (7, 2) then do {
       (q, b) \<leftarrow> cur_sub b;
       (si, c) \<leftarrow> cur_loop stat_step q (0, c);
       Some (b, bwv P_STATS_N (of_nat si) c) }
     else None }"

definition ban_step :: "bytes \<Rightarrow> nat \<times> cols \<Rightarrow> (bytes \<times> nat \<times> cols) option" where
  "ban_step b st =
     (case st of (bn, c) \<Rightarrow> do { (b, c) \<leftarrow> put_misc BANS b c; Some (b, bn + 1, c) })"

section \<open>Timeline\<close>

record tl_buf =
  tb_nf :: nat
  tb_nk :: nat
  tb_no :: nat
  tb_nw :: nat
  tb_kt :: u64
  tb_ot :: u64
  tb_wt :: u64
  tb_prev :: "u64 list list"
  tb_len :: "nat list"
  tb_fminutes :: bytes
  tb_fns :: "bytes list"
  tb_fcols :: "bytes list"
  tb_kcols :: "bytes list"
  tb_ocols :: "bytes list"
  tb_wcols :: "bytes list"

definition tl_buf_new :: tl_buf where
  "tl_buf_new =
     \<lparr>tb_nf = 0, tb_nk = 0, tb_no = 0, tb_nw = 0, tb_kt = 0, tb_ot = 0, tb_wt = 0,
      tb_prev = replicate 4 (replicate 10 0), tb_len = replicate 4 0, tb_fminutes = [],
      tb_fns = replicate 4 [], tb_fcols = replicate 4 [], tb_kcols = replicate 6 [],
      tb_ocols = replicate 5 [], tb_wcols = replicate 3 []\<rparr>"

definition slot_step :: "nat \<Rightarrow> bytes \<Rightarrow> nat \<times> bytes \<times> u64 list \<Rightarrow> (bytes \<times> nat \<times> bytes \<times> u64 list) option" where
  "slot_step len b st =
     (case st of (j, col, row) \<Rightarrow> do {
        (v, b) \<leftarrow> cur_varint b;
        let pv = (if j < len then row ! j else 0);
        d \<leftarrow> sub_i64 v pv;
        if j < length row then Some (b, j + 1, col @ bench_wz d, row[j := v]) else None })"

definition frame_step :: "bytes \<Rightarrow> tl_buf \<Rightarrow> (bytes \<times> tl_buf) option" where
  "frame_step b tb = do {
     (t, b) \<leftarrow> cur_varint b;
     let (s, wt) = bench_key t;
     if (s, wt) = (1, 0) then do {
       (v, b) \<leftarrow> cur_varint b;
       Some (b, tb\<lparr>tb_fminutes := tb_fminutes tb @ bench_wv v\<rparr>) }
     else if 2 \<le> s \<and> s \<le> 5 \<and> wt = 2 then do {
       let si = s - 2;
       (q, b) \<leftarrow> cur_sub b;
       (j, col, row) \<leftarrow> cur_loop (slot_step (tb_len tb ! si)) q (0, tb_fcols tb ! si, tb_prev tb ! si);
       Some (b, tb\<lparr>tb_fcols := (tb_fcols tb)[si := col], tb_prev := (tb_prev tb)[si := row],
                  tb_len := (tb_len tb)[si := j], tb_fns := push_to si (bench_wv (of_nat j)) (tb_fns tb)\<rparr>) }
     else None }"

text \<open>The loops over the fields of a kill, an objective and a ward differ in their columns only: field 1 is a time, written as its difference to
  the time before, the fields up to \<open>maxf\<close> are written as they are.\<close>

definition event_step :: "nat \<Rightarrow> bytes \<Rightarrow> u64 \<times> bytes list \<Rightarrow> (bytes \<times> u64 \<times> bytes list) option" where
  "event_step maxf b st =
     (case st of (prev, ecols) \<Rightarrow> do {
        (t, b) \<leftarrow> cur_varint b;
        let (f, wt) = bench_key t;
        if (f, wt) = (1, 0) then do {
          (t3, b) \<leftarrow> cur_varint b;
          d \<leftarrow> sub_i64 t3 prev;
          Some (b, t3, push_to 0 (bench_wz d) ecols) }
        else if 2 \<le> f \<and> f \<le> maxf \<and> wt = 0 then do {
          (v, b) \<leftarrow> cur_varint b;
          Some (b, prev, push_to (f - 1) (bench_wv v) ecols) }
        else None })"

definition timeline_step :: "bytes \<Rightarrow> tl_buf \<Rightarrow> (bytes \<times> tl_buf) option" where
  "timeline_step b tb = do {
     (t, b) \<leftarrow> cur_varint b;
     let k = bench_key t;
     if k = (1, 2) then do {
       (f, b) \<leftarrow> cur_sub b;
       tb \<leftarrow> cur_loop frame_step f (tb\<lparr>tb_nf := tb_nf tb + 1\<rparr>);
       Some (b, tb) }
     else if k = (2, 2) then do {
       (q, b) \<leftarrow> cur_sub b;
       (kt, kcols) \<leftarrow> cur_loop (event_step 6) q (tb_kt tb, tb_kcols tb);
       Some (b, tb\<lparr>tb_nk := tb_nk tb + 1, tb_kt := kt, tb_kcols := kcols\<rparr>) }
     else if k = (3, 2) then do {
       (q, b) \<leftarrow> cur_sub b;
       (ot, ocols) \<leftarrow> cur_loop (event_step 5) q (tb_ot tb, tb_ocols tb);
       Some (b, tb\<lparr>tb_no := tb_no tb + 1, tb_ot := ot, tb_ocols := ocols\<rparr>) }
     else if k = (4, 2) then do {
       (q, b) \<leftarrow> cur_sub b;
       (wt, wcols) \<leftarrow> cur_loop (event_step 3) q (tb_wt tb, tb_wcols tb);
       Some (b, tb\<lparr>tb_nw := tb_nw tb + 1, tb_wt := wt, tb_wcols := wcols\<rparr>) }
     else None }"

text \<open>\<^verbatim>\<open>for (j, col) in [...].iter().enumerate() { c.misc[*col].extend_from_slice(&cols[j]) }\<close>\<close>

definition extend_misc :: "nat list \<Rightarrow> bytes list \<Rightarrow> cols \<Rightarrow> cols" where
  "extend_misc ks bss c = for_each (\<lambda>j k. wbytes k (bss ! j)) 0 ks c"

definition timeline_flush :: "tl_buf \<Rightarrow> cols \<Rightarrow> cols" where
  "timeline_flush tb c =
     (let c = bwv NFRAMES (of_nat (tb_nf tb)) c;
          c = wbytes F_MINUTE (tb_fminutes tb) c;
          c = for_each (\<lambda>si (dst_n, dst) c. wbytes dst (tb_fcols tb ! si) (wbytes dst_n (tb_fns tb ! si) c)) 0
                [(F_GOLD_N, F_GOLD), (F_XP_N, F_XP), (F_CS_N, F_CS), (F_DMG_N, F_DMG)] c;
          c = bwv NKILLS (of_nat (tb_nk tb)) c;
          c = extend_misc [K_T, K_KILLER, K_VICTIM, K_MASK, K_X, K_Y] (tb_kcols tb) c;
          c = bwv NOBJS (of_nat (tb_no tb)) c;
          c = extend_misc [O_T, O_KIND, O_KILLER, O_TEAM, O_LANE] (tb_ocols tb) c;
          c = bwv NWARDS (of_nat (tb_nw tb)) c
      in extend_misc [W_T, W_KIND, W_PART] (tb_wcols tb) c)"

section \<open>Records\<close>

record bench_head =
  bh_schema :: u64
  bh_gid :: u64
  bh_plat :: bytes
  bh_queue :: u64
  bh_start :: u64
  bh_dur :: u64
  bh_blue :: u64
  bh_gv :: bytes
  bh_pmaj :: u64
  bh_pmin :: u64
  bh_nparts :: nat
  bh_tl_present :: u64

definition bench_head_new :: bench_head where
  "bench_head_new =
     \<lparr>bh_schema = 0, bh_gid = 0, bh_plat = [], bh_queue = 0, bh_start = 0, bh_dur = 0, bh_blue = 0, bh_gv = [],
      bh_pmaj = 0, bh_pmin = 0, bh_nparts = 0, bh_tl_present = 0\<rparr>"

definition put_head :: "(u64 \<Rightarrow> bench_head \<Rightarrow> bench_head) \<Rightarrow> bytes \<Rightarrow> bench_head \<times> cols \<Rightarrow> (bytes \<times> bench_head \<times> cols) option" where
  "put_head upd b st = do { (v, b) \<leftarrow> cur_varint b; Some (b, upd v (fst st), snd st) }"

definition record_step :: "bytes \<Rightarrow> bench_head \<times> cols \<Rightarrow> (bytes \<times> bench_head \<times> cols) option" where
  "record_step b st =
     (case st of (h, c) \<Rightarrow> do {
        (t, b) \<leftarrow> cur_varint b;
        let k = bench_key t;
        if k = (1, 0) then put_head (\<lambda>v. bh_schema_update (\<lambda>_. v)) b st
        else if k = (2, 0) then put_head (\<lambda>v. bh_gid_update (\<lambda>_. v)) b st
        else if k = (3, 2) then do { (s, b) \<leftarrow> cur_sub b; Some (b, h\<lparr>bh_plat := s\<rparr>, c) }
        else if k = (4, 0) then put_head (\<lambda>v. bh_queue_update (\<lambda>_. v)) b st
        else if k = (5, 0) then put_head (\<lambda>v. bh_start_update (\<lambda>_. v)) b st
        else if k = (6, 0) then put_head (\<lambda>v. bh_dur_update (\<lambda>_. v)) b st
        else if k = (7, 0) then put_head (\<lambda>v. bh_blue_update (\<lambda>_. v)) b st
        else if k = (8, 2) then do { (s, b) \<leftarrow> cur_sub b; Some (b, h\<lparr>bh_gv := s\<rparr>, c) }
        else if k = (9, 0) then put_head (\<lambda>v. bh_pmaj_update (\<lambda>_. v)) b st
        else if k = (10, 0) then put_head (\<lambda>v. bh_pmin_update (\<lambda>_. v)) b st
        else if k = (11, 2) then do {
          (p, b) \<leftarrow> cur_sub b;
          c \<leftarrow> cur_loop participant_step p c;
          Some (b, h\<lparr>bh_nparts := bh_nparts h + 1\<rparr>, c) }
        else if k = (12, 2) then do {
          (tl, b) \<leftarrow> cur_sub b;
          tb \<leftarrow> cur_loop timeline_step tl tl_buf_new;
          Some (b, h\<lparr>bh_tl_present := 1\<rparr>, timeline_flush tb c) }
        else if k = (13, 2) then do {
          (q, b) \<leftarrow> cur_sub b;
          (bn, c) \<leftarrow> cur_loop ban_step q (0, c);
          Some (b, h, bwv BANS_N (of_nat bn) c) }
        else None })"

record bench =
  be_cols :: cols
  be_gid :: u64
  be_start :: u64
  be_nrec :: nat

definition bench_new :: bench where
  "bench_new = \<lparr>be_cols = bench_cols, be_gid = 0, be_start = 0, be_nrec = 0\<rparr>"

definition bench_record :: "bytes \<Rightarrow> bench \<Rightarrow> bench option" where
  "bench_record b be = do {
     (h, c) \<leftarrow> cur_loop record_step b (bench_head_new, be_cols be);
     let c = bwv SCHEMA (bh_schema h) c;
     gid_d \<leftarrow> sub_i64 (bh_gid h) (be_gid be);
     let c = bwz GID_D gid_d c;
     let c = bwv PLAT_LEN (of_nat (length (bh_plat h))) c;
     let c = wbytes PLAT (bh_plat h) c;
     let c = bwv QUEUE (bh_queue h) c;
     start_d \<leftarrow> sub_i64 (bh_start h) (be_start be);
     let c = bwz START_D start_d c;
     let c = bwv DUR (bh_dur h) c;
     let c = bwv BLUE (bh_blue h) c;
     let c = bwv GV_LEN (of_nat (length (bh_gv h))) c;
     let c = wbytes GV (bh_gv h) c;
     let c = bwv PMAJ (bh_pmaj h) c;
     let c = bwv PMIN (bh_pmin h) c;
     let c = bwv NPARTS (of_nat (bh_nparts h)) c;
     let c = bwv TL_PRESENT (bh_tl_present h) c;
     Some \<lparr>be_cols = c, be_gid = bh_gid h, be_start = bh_start h, be_nrec = be_nrec be + 1\<rparr> }"

function bench_loop :: "bytes \<Rightarrow> bench \<Rightarrow> bench option" where
  "bench_loop data be =
     (if length data < 4 then Some be
      else
        let rlen = unat (from_le (take 4 data) :: u32); rest = drop 4 data in
        if length rest < rlen then None
        else case bench_record (take rlen rest) be of
               None \<Rightarrow> None
             | Some be \<Rightarrow> bench_loop (drop rlen rest) be)"
  by pat_completeness auto
termination
  by (relation "measure (\<lambda>(data, be). length data)") auto

declare bench_loop.simps [simp del]

definition bench_main :: "bytes \<Rightarrow> (nat \<times> bytes) option" where
  "bench_main data = do {
     be \<leftarrow> bench_loop data bench_new;
     Some (be_nrec be, concat (cfixed (be_cols be) @ cstat (be_cols be) @ crune (be_cols be))) }"

section \<open>Primitives agree with the codec\<close>

lemma bench_wv_eq [simp]: "bench_wv v = write_varint v"
proof (induction v rule: bench_wv.induct)
  case (1 v)
  then show ?case by (subst bench_wv.simps, subst write_varint.simps) (simp add: Let_def)
qed

lemma bench_wz_eq [simp]: "bench_wz v = write_varint (zigzag_i64 v)"
  by (simp add: bench_wz_def zigzag_i64_def)

lemma bwv_eq [simp]: "bwv k v c = wv k v c"
  by (simp add: bwv_def wv_def)

lemma bwz_eq [simp]: "bwz k v c = wz k v c"
  by (simp add: bwz_def wz_def wv_def)

lemma cur_varint_loop_read:
  "read_varint_loop bs idx pos out = Inr (v, pos') \<Longrightarrow> cur_varint_loop (idx * 7) out (drop pos bs) = Some (v, drop pos' bs)"
proof (induction bs idx pos out rule: read_varint_loop.induct)
  case (1 bs idx pos out)
  from "1.prems" have i: "idx < 10" "pos < length bs"
    by (subst (asm) read_varint_loop.simps, simp split: if_splits)+
  then have d: "drop pos bs = bs ! pos # drop (pos + 1) bs" by (simp add: Cons_nth_drop_Suc)
  have s: "idx * 7 + 7 = (idx + 1) * 7" "\<not> 64 \<le> idx * 7" using i(1) by simp_all
  show ?case
  proof (cases "bs ! pos AND 0x80 = 0")
    case True
    then show ?thesis using "1.prems" i s(2)
      by (subst (asm) read_varint_loop.simps) (auto simp: d Let_def split: if_splits)
  next
    case False
    with "1.prems" i have "read_varint_loop bs (idx + 1) (pos + 1) (out OR push_bit (idx * 7) (ucast (bs ! pos AND 0x7f))) = Inr (v, pos')"
      and n: "\<not> (idx = 9 \<and> bs ! pos AND 0xfe \<noteq> 0)"
      by (subst (asm) read_varint_loop.simps, simp add: Let_def split: if_splits)+
    from "1.IH"[OF i refl refl n refl False this(1)] show ?thesis using False s by (simp add: d Let_def add.commute)
  qed
qed

lemma cur_varint_write [simp]: "cur_varint (write_varint v @ rest) = Some (v, rest)"
  using cur_varint_loop_read[of "write_varint v @ rest" 0 0 0 v "length (write_varint v)"]
    read_varint_write[of 0 "write_varint v @ rest" v rest]
  by (simp add: cur_varint_def read_varint_at_def)

lemma cur_varint_write_end [simp]: "cur_varint (write_varint v) = Some (v, [])"
  using cur_varint_write[of v "[]"] by simp

lemma cur_sub_write: "length s < 2 ^ 64 \<Longrightarrow> cur_sub (write_varint (of_nat (length s)) @ s @ rest) = Some (s, rest)"
  by (simp add: cur_sub_def cur_bytes_def)

lemma bench_key_of:
  assumes "wt < 8" "8 * f + wt < 2 ^ 64"
  shows "bench_key (of_nat (8 * f + wt)) = (f, wt)"
proof -
  let ?t = "of_nat (8 * f + wt) :: u64"
  have u: "unat ?t = 8 * f + wt" using assms(2) by (rule unat_of_nat_u64)
  have "(7 :: u64) = mask 3" by (simp add: mask_eq_exp_minus_1)
  then have "?t AND 7 = take_bit 3 ?t" by (simp add: take_bit_eq_mask)
  then have "unat (?t AND 7) = take_bit 3 (unat ?t)" by (simp only: unsigned_take_bit_eq)
  then have "unat (?t AND 7) = unat ?t mod 8" by (simp only: take_bit_eq_mod) simp
  moreover have "unat (drop_bit 3 ?t) = unat ?t div 8" unfolding unat_drop_bit_eq by (simp add: drop_bit_eq_div)
  ultimately show ?thesis using assms(1) by (simp add: bench_key_def u del: of_nat_add of_nat_mult)
qed

section \<open>Scanning\<close>

text \<open>\<open>scans step bs s s'\<close>: a loop that finds \<open>bs\<close> ahead in the state \<open>s\<close> goes on after it in the state \<open>s'\<close>.\<close>

definition scans :: "(bytes \<Rightarrow> 's \<Rightarrow> (bytes \<times> 's) option) \<Rightarrow> bytes \<Rightarrow> 's \<Rightarrow> 's \<Rightarrow> bool" where
  "scans step bs s s' \<longleftrightarrow> (\<forall>rest. cur_loop step (bs @ rest) s = cur_loop step rest s')"

lemma cur_loop_Nil [simp]: "cur_loop step [] s = Some s"
  by (simp add: cur_loop.simps)

lemma scans_Nil: "scans step [] s s"
  by (simp add: scans_def)

lemma scans_append: "scans step xs s t \<Longrightarrow> scans step ys t u \<Longrightarrow> scans step (xs @ ys) s u"
  by (simp add: scans_def)

lemma scans_end: "scans step bs s s' \<Longrightarrow> cur_loop step bs s = Some s'"
  unfolding scans_def by (drule spec[of _ "[]"]) simp

lemma scans_step:
  assumes "bs \<noteq> []" "\<And>rest. step (bs @ rest) s = Some (rest, s')"
  shows "scans step bs s s'"
  unfolding scans_def using assms by (subst cur_loop.simps) simp

lemma wire_key_simps:
  assumes "unat f < 2 ^ 32" "wt < 8"
  shows "cur_varint (wire_key f wt @ rest) = Some (of_nat (8 * unat f + wt), rest)"
    "bench_key (of_nat (8 * unat f + wt)) = (unat f, wt)"
proof -
  show "cur_varint (wire_key f wt @ rest) = Some (of_nat (8 * unat f + wt), rest)" by (simp add: wire_key_def)
  have "8 * unat f + wt < 2 ^ 64" using assms by simp
  then show "bench_key (of_nat (8 * unat f + wt)) = (unat f, wt)" by (rule bench_key_of[OF assms(2)])
qed

text \<open>A field is scanned when the loop body takes the rest of the field behind its tag to the state wanted.\<close>

lemma scans_varint:
  assumes "v \<noteq> 0" "\<And>t rest. bench_key t = (unat f, 0) \<Longrightarrow>
     (\<And>b. cur_varint b = Some (t, write_varint v @ rest) \<Longrightarrow> step b s = Some (rest, s'))"
  shows "scans step (fld_varint f v) s s'"
proof (rule scans_step)
  have u: "unat f < 2 ^ 32" using unsigned_less[of f, where ?'a = nat] by simp
  show "fld_varint f v \<noteq> []" using assms(1) by (simp add: fld_varint_def)
  show "step (fld_varint f v @ rest) s = Some (rest, s')" for rest
    by (rule assms(2)[OF wire_key_simps(2)[OF u]]) (use assms(1) in \<open>simp_all add: fld_varint_def wire_key_simps(1)[OF u] del: of_nat_add of_nat_mult\<close>)
qed

lemma scans_message:
  assumes "length m < 2 ^ 64" "\<And>t rest. bench_key t = (unat f, 2) \<Longrightarrow>
     (\<And>b b'. cur_varint b = Some (t, b') \<Longrightarrow> cur_sub b' = Some (m, rest) \<Longrightarrow> step b s = Some (rest, s'))"
  shows "scans step (fld_message f m) s s'"
proof (rule scans_step)
  have u: "unat f < 2 ^ 32" using unsigned_less[of f, where ?'a = nat] by simp
  show "fld_message f m \<noteq> []" by (simp add: fld_message_def)
  show "step (fld_message f m @ rest) s = Some (rest, s')" for rest
    by (rule assms(2)[where b = "fld_message f m @ rest" and b' = "write_varint (of_nat (length m)) @ m @ rest", OF wire_key_simps(2)[OF u]])
      (simp_all add: fld_message_def wire_key_simps(1)[OF u] cur_sub_write[OF assms(1)] del: of_nat_add of_nat_mult)
qed

section \<open>Columns grow\<close>

definition cols_ok :: "cols \<Rightarrow> bool" where
  "cols_ok c \<longleftrightarrow> length (cfixed c) = NMISC \<and> length (cstat c) = NSTAT \<and> length (crune c) = NRUNE"

definition adds :: "cols \<Rightarrow> tok list \<Rightarrow> cols \<Rightarrow> bool" where
  "adds c ts c' \<longleftrightarrow> cols_ok c' \<and> (\<forall>k. view c' k = view c k @ proj k ts)"

lemma adds_refl: "cols_ok c \<Longrightarrow> adds c [] c"
  by (simp add: adds_def)

lemma adds_trans: "adds c ts c' \<Longrightarrow> adds c' us c'' \<Longrightarrow> adds c (ts @ us) c''"
  by (simp add: adds_def)

lemma adds_cong: "adds c ts c' \<Longrightarrow> (\<And>k. proj k ts = proj k us) \<Longrightarrow> adds c us c'"
  by (simp add: adds_def)

lemma adds_ok: "adds c ts c' \<Longrightarrow> cols_ok c'"
  by (simp add: adds_def)

lemma adds_writes:
  assumes "cols_ok c" "writes f ts" "cstat (f c) = cstat c" "crune (f c) = crune c"
  shows "adds c ts (f c)"
  using assms by (simp add: adds_def cols_ok_def writes_def)

lemma adds_wv: "cols_ok c \<Longrightarrow> k < NMISC \<Longrightarrow> adds c [(Fixed k, write_varint v)] (wv k v c)"
  by (rule adds_writes[OF _ writes_wv]) (simp_all add: wv_def)

lemma adds_rune: "cols_ok c \<Longrightarrow> i < NRUNE \<Longrightarrow> adds c [(Rune i, bs)] (c\<lparr>crune := push_to i bs (crune c)\<rparr>)"
  unfolding adds_def cols_ok_def by (intro conjI allI; simp?) (case_tac k; simp)

lemma adds_stat: "cols_ok c \<Longrightarrow> i < NSTAT \<Longrightarrow> adds c [(Stat i, bs)] (c\<lparr>cstat := push_to i bs (cstat c)\<rparr>)"
  unfolding adds_def cols_ok_def by (intro conjI allI; simp?) (case_tac k; simp)

lemma emit_list_map: "emit_list f i (map g xs) = emit_list (\<lambda>i x. f i (g x)) i xs"
  by (induction xs arbitrary: i) auto

text \<open>A loop over packed varints that counts them and pushes each onto a column; at most \<open>cap\<close> of them are accepted.\<close>

locale counted_loop =
  fixes step :: "bytes \<Rightarrow> nat \<times> cols \<Rightarrow> (bytes \<times> nat \<times> cols) option" and toks :: "nat \<Rightarrow> u64 \<Rightarrow> tok list" and cap :: nat
  assumes pushes: "cols_ok c \<Longrightarrow> i < cap \<Longrightarrow>
    \<exists>c'. (\<forall>rest. step (write_varint v @ rest) (i, c) = Some (rest, i + 1, c')) \<and> adds c (toks i v) c'"
begin

lemma scanned:
  "cols_ok c \<Longrightarrow> i + length vs \<le> cap \<Longrightarrow>
   \<exists>c'. scans step (concat (map write_varint vs)) (i, c) (i + length vs, c') \<and> adds c (emit_list toks i vs) c'"
proof (induction vs arbitrary: i c)
  case Nil
  then show ?case by (auto intro: scans_Nil adds_refl)
next
  case (Cons v vs)
  from pushes[of c i v] Cons.prems obtain c1 where
    1: "\<And>rest. step (write_varint v @ rest) (i, c) = Some (rest, i + 1, c1)" "adds c (toks i v) c1" by auto
  from Cons.IH[OF adds_ok[OF 1(2)], of "i + 1"] Cons.prems(2) obtain c2 where
    2: "scans step (concat (map write_varint vs)) (i + 1, c1) (i + 1 + length vs, c2)" "adds c1 (emit_list toks (i + 1) vs) c2" by auto
  have "scans step (write_varint v) (i, c) (i + 1, c1)" by (rule scans_step) (simp_all add: 1(1))
  from scans_append[OF this 2(1)] adds_trans[OF 1(2) 2(2)] show ?case by auto
qed

lemma ran:
  assumes "cols_ok c" "length vs \<le> cap"
  obtains c' where "cur_loop step (concat (map write_varint vs)) (0, c) = Some (length vs, c')" "adds c (emit_list toks 0 vs) c'"
  using scanned[OF assms(1), of 0 vs] assms(2) scans_end by fastforce

end

interpretation rune_loop: counted_loop rune_step "\<lambda>i v. [(Rune i, write_varint v)]" NRUNE
proof
  fix c :: cols and i :: nat and v :: u64
  assume "cols_ok c" "i < NRUNE"
  then show "\<exists>c'. (\<forall>rest. rune_step (write_varint v @ rest) (i, c) = Some (rest, i + 1, c')) \<and> adds c [(Rune i, write_varint v)] c'"
    using adds_rune[of c i "write_varint v"] by (auto simp: rune_step_def push_col_def cols_ok_def)
qed

interpretation stat_loop: counted_loop stat_step "\<lambda>i v. [(Stat i, write_varint v)]" NSTAT
proof
  fix c :: cols and i :: nat and v :: u64
  assume "cols_ok c" "i < NSTAT"
  then show "\<exists>c'. (\<forall>rest. stat_step (write_varint v @ rest) (i, c) = Some (rest, i + 1, c')) \<and> adds c [(Stat i, write_varint v)] c'"
    using adds_stat[of c i "write_varint v"] by (auto simp: stat_step_def push_col_def cols_ok_def)
qed

interpretation ban_loop: counted_loop ban_step "\<lambda>_ v. [(Fixed BANS, write_varint v)]" cap for cap
proof
  fix c :: cols and i :: nat and v :: u64
  assume "cols_ok c"
  then show "\<exists>c'. (\<forall>rest. ban_step (write_varint v @ rest) (i, c) = Some (rest, i + 1, c')) \<and> adds c [(Fixed BANS, write_varint v)] c'"
    using adds_wv[of c BANS v] by (auto simp: ban_step_def put_misc_def)
qed

section \<open>Participants\<close>

definition parses :: "(bytes \<Rightarrow> cols \<Rightarrow> (bytes \<times> cols) option) \<Rightarrow> bytes \<Rightarrow> tok list \<Rightarrow> bool" where
  "parses step bs ts \<longleftrightarrow> (\<forall>c. cols_ok c \<longrightarrow> (\<exists>c'. scans step bs c c' \<and> adds c ts c'))"

lemma parses_append: "parses step xs ts \<Longrightarrow> parses step ys us \<Longrightarrow> parses step (xs @ ys) (ts @ us)"
  unfolding parses_def by (meson adds_ok adds_trans scans_append)

lemma parses_Nil: "parses step [] []"
  unfolding parses_def by (meson adds_refl scans_Nil)

text \<open>What is written of a scalar: nothing when it is zero, because protobuf leaves such a field out.\<close>

definition vbytes :: "u64 \<Rightarrow> bytes" where
  "vbytes v = (if v = 0 then [] else write_varint v)"

definition bench_participant_toks :: "nat \<Rightarrow> participant \<Rightarrow> tok list" where
  "bench_participant_toks i p =
     (Fixed P_PLAYER, vbytes (ucast (player_id p))) # (Fixed P_CHAMP, vbytes (ucast (champion_id p))) # (Fixed P_POS, vbytes (ucast (position p)))
     # (Fixed P_SP1, vbytes (ucast (spell1 p))) # (Fixed P_SP2, vbytes (ucast (spell2 p)))
     # (if runes p = [] then [] else emit_list rune_toks 0 (runes p) @ [(Fixed P_RUNES_N, write_varint (of_nat (length (runes p))))])
     @ (if stats p = [] then [] else emit_list stat_toks 0 (stats p) @ [(Fixed P_STATS_N, write_varint (of_nat (length (stats p))))])"

definition participant_small :: "participant \<Rightarrow> bool" where
  "participant_small p \<longleftrightarrow> length (runes p) \<le> NRUNE \<and> length (stats p) \<le> NSTAT"

lemma length_packed: "length (concat (map write_varint vs)) \<le> 10 * length vs"
  by (induction vs) (use length_write_varint in \<open>auto intro!: add_mono\<close>)

lemma packed_u32_eq: "packed_u32 vs = concat (map write_varint (map ucast vs))"
  by (simp add: packed_u32_def comp_def)

lemma packed_sint64_eq: "packed_sint64 vs = concat (map write_varint (map zigzag_i64 vs))"
  by (simp add: packed_sint64_def comp_def)

lemma packed_Nil [simp]: "concat (map write_varint vs) = [] \<longleftrightarrow> vs = []"
  by (cases vs) auto

lemma emit_runes: "emit_list (\<lambda>i v. [(Rune i, write_varint v)]) 0 (map ucast rs) = emit_list rune_toks 0 rs"
  by (simp add: emit_list_map rune_toks_def[abs_def])

lemma emit_stats: "emit_list (\<lambda>i v. [(Stat i, write_varint v)]) 0 (map zigzag_i64 rs) = emit_list stat_toks 0 rs"
  by (simp add: emit_list_map stat_toks_def[abs_def])

lemma parses_scalar:
  assumes "\<And>t b b' c. bench_key t = (unat f, 0) \<Longrightarrow> cur_varint b = Some (t, b') \<Longrightarrow> step b c = put_misc k b' c" "k < NMISC"
  shows "parses step (fld_varint f v) [(Fixed k, vbytes v)]"
proof (cases "v = 0")
  case True
  have "adds c [(Fixed k, [])] c" if "cols_ok c" for c by (rule adds_cong[OF adds_refl[OF that]]) simp
  then show ?thesis using True scans_Nil[of step] by (auto simp: fld_varint_def vbytes_def parses_def)
next
  case False
  have "scans step (fld_varint f v) c (wv k v c)" for c
    by (rule scans_varint[OF False]) (simp add: assms(1) put_misc_def)
  then show ?thesis using adds_wv[OF _ assms(2), of _ v] False by (auto simp: parses_def vbytes_def)
qed

lemma parses_scalar_then:
  assumes "\<And>t b b' c. bench_key t = (unat f, 0) \<Longrightarrow> cur_varint b = Some (t, b') \<Longrightarrow> step b c = put_misc k b' c" "k < NMISC" "parses step ys us"
  shows "parses step (fld_varint f v @ ys) ((Fixed k, vbytes v) # us)"
  using parses_append[OF parses_scalar[OF assms(1,2), where v = v] assms(3)] by simp

lemma parses_runes:
  assumes "length rs \<le> NRUNE"
  shows "parses participant_step (fld_bytes 6 (packed_u32 rs))
    (if rs = [] then [] else emit_list rune_toks 0 rs @ [(Fixed P_RUNES_N, write_varint (of_nat (length rs)))])"
proof (cases "rs = []")
  case False
  let ?w = "concat (map write_varint (map ucast rs))"
  have l: "length ?w < 2 ^ 64" using length_packed[of "map ucast rs"] assms by (simp add: NRUNE_def)
  have "\<exists>c'. scans participant_step (fld_message 6 ?w) c c'
      \<and> adds c (emit_list rune_toks 0 rs @ [(Fixed P_RUNES_N, write_varint (of_nat (length rs)))]) c'" if ok: "cols_ok c" for c
  proof -
    obtain c1 where 1: "cur_loop rune_step ?w (0, c) = Some (length rs, c1)" "adds c (emit_list rune_toks 0 rs) c1"
      by (rule rune_loop.ran[OF ok, of "map ucast rs"]) (use assms in \<open>simp_all add: emit_runes\<close>)
    have "scans participant_step (fld_message 6 ?w) c (wv P_RUNES_N (of_nat (length rs)) c1)"
      by (rule scans_message[OF l]) (simp add: participant_step_def 1(1) del: map_map)
    with adds_trans[OF 1(2) adds_wv[OF adds_ok[OF 1(2)]]] show ?thesis by fastforce
  qed
  then show ?thesis using False by (simp add: parses_def fld_bytes_def packed_u32_eq del: map_map)
qed (simp add: fld_bytes_def packed_u32_def parses_Nil)

lemma parses_stats:
  assumes "length rs \<le> NSTAT"
  shows "parses participant_step (fld_bytes 7 (packed_sint64 rs))
    (if rs = [] then [] else emit_list stat_toks 0 rs @ [(Fixed P_STATS_N, write_varint (of_nat (length rs)))])"
proof (cases "rs = []")
  case False
  let ?w = "concat (map write_varint (map zigzag_i64 rs))"
  have l: "length ?w < 2 ^ 64" using length_packed[of "map zigzag_i64 rs"] assms by (simp add: NSTAT_def)
  have "\<exists>c'. scans participant_step (fld_message 7 ?w) c c'
      \<and> adds c (emit_list stat_toks 0 rs @ [(Fixed P_STATS_N, write_varint (of_nat (length rs)))]) c'" if ok: "cols_ok c" for c
  proof -
    obtain c1 where 1: "cur_loop stat_step ?w (0, c) = Some (length rs, c1)" "adds c (emit_list stat_toks 0 rs) c1"
      by (rule stat_loop.ran[OF ok, of "map zigzag_i64 rs"]) (use assms in \<open>simp_all add: emit_stats\<close>)
    have "scans participant_step (fld_message 7 ?w) c (wv P_STATS_N (of_nat (length rs)) c1)"
      by (rule scans_message[OF l]) (simp add: participant_step_def 1(1) del: map_map)
    with adds_trans[OF 1(2) adds_wv[OF adds_ok[OF 1(2)]]] show ?thesis by fastforce
  qed
  then show ?thesis using False by (simp add: parses_def fld_bytes_def packed_sint64_eq del: map_map)
qed (simp add: fld_bytes_def packed_sint64_def parses_Nil)

lemma participant_parses:
  assumes "participant_small p"
  shows "parses participant_step (wire_participant p) (bench_participant_toks i p)"
  unfolding wire_participant_def bench_participant_toks_def concat.simps append_Nil2
  using assms unfolding participant_small_def
  by (intro parses_scalar_then parses_append parses_runes parses_stats) (simp_all add: participant_step_def)

end
