(* ===== verification/Match_Parse_Types.thy ===== *)
theory Match_Parse_Types
  imports Match_Parse_Props
begin

unbundle bit_operations_syntax

text \<open>
  The shape of every record the parser of \<^verbatim>\<open>record.rs\<close> produces, as the comments of its message types promise it: fixed lengths, participant references that
  are an index or 255, masks and codes in range.
\<close>

section \<open>Well-formed records\<close>

definition pid_ok :: "u32 \<Rightarrow> bool" where
  "pid_ok v \<longleftrightarrow> v < 10 \<or> v = 255"

definition frame_wf :: "minute_frame \<Rightarrow> bool" where
  "frame_wf f \<longleftrightarrow> length (total_gold f) = 10 \<and> length (xp f) = 10 \<and> length (cs f) = 10 \<and> length (dmg_to_champs f) = 10"

definition kill_wf :: "kill_event \<Rightarrow> bool" where
  "kill_wf k \<longleftrightarrow> pid_ok (k_killer k) \<and> pid_ok (k_victim k) \<and> k_assist_mask k < 2 ^ 10"

definition objective_wf :: "objective_event \<Rightarrow> bool" where
  "objective_wf b \<longleftrightarrow> o_kind b \<in> {DRAGON, RIFT_HERALD, BARON, HORDE, ELDER_DRAGON, ATAKHAN, TOWER, INHIBITOR, PLATE, OTHER_MONSTER, OTHER_BUILDING}
     \<and> pid_ok (o_killer b) \<and> o_lane b \<in> {LANE_NONE, LANE_TOP, LANE_MID, LANE_BOT}"

definition ward_wf :: "ward_event \<Rightarrow> bool" where
  "ward_wf w \<longleftrightarrow> w_kind w \<in> {WARD_PLACED, WARD_KILLED} \<and> pid_ok (w_participant w)"

definition timeline_wf :: "timeline_lite \<Rightarrow> bool" where
  "timeline_wf t \<longleftrightarrow> map minute (frames t) = map of_nat [0..<length (frames t)] \<and> list_all frame_wf (frames t)
     \<and> list_all kill_wf (kills t) \<and> list_all objective_wf (objectives t) \<and> list_all ward_wf (wards t)"

definition record_wf :: "match_record \<Rightarrow> bool" where
  "record_wf r \<longleftrightarrow> schema_version r = SCHEMA_VERSION \<and> map position (participants r) = [0, 1, 2, 3, 4, 0, 1, 2, 3, 4]
     \<and> list_all (\<lambda>p. length (stats p) = length STAT_FIELDS_V1) (participants r) \<and> (case timeline r of None \<Rightarrow> True | Some t \<Rightarrow> timeline_wf t)"

section \<open>Participant references\<close>

definition order_map :: "nat list \<Rightarrow> bool" where
  "order_map m \<longleftrightarrow> (\<forall>i < 10. m ! i < 10)"

lemma invert_order_map:
  assumes "full_order ps order"
  shows "order_map (invert_order order)"
  unfolding order_map_def
proof (intro allI impI)
  fix i :: nat assume "i < 10"
  then have "i \<in> set order" using full_order_facts(3)[OF assms] by simp
  then obtain k where "k < 10" "order ! k = i" using full_order_facts(1)[OF assms] by (auto simp: in_set_conv_nth)
  then show "invert_order order ! i < 10" using invert_order_nth[OF assms, of k] by simp
qed

lemma map_pid_ok: "order_map m \<Longrightarrow> pid_ok (map_pid m v)"
proof (cases "1 \<le> sint v \<and> sint v \<le> 10")
  case True
  assume "order_map m"
  moreover have "nat (sint v - 1) < 10" using True by linarith
  ultimately have "m ! nat (sint v - 1) < 10" by (simp add: order_map_def)
  then have "(of_nat (m ! nat (sint v - 1)) :: u32) < 10" by (simp add: word_less_nat_alt unat_of_nat)
  then show ?thesis using True by (simp add: map_pid_def pid_ok_def)
qed (auto simp: map_pid_def pid_ok_def)

lemma mask_step: "(mk :: u32) < 2 ^ 10 \<Longrightarrow> idx < 10 \<Longrightarrow> mk OR push_bit (unat (idx :: u32)) 1 < 2 ^ 10"
proof -
  assume a: "mk < 2 ^ 10" "idx < 10"
  have n: "unat idx < 10" using a(2) by (simp add: word_less_nat_alt)
  have "uint (push_bit (unat idx) (1 :: u32)) = take_bit 32 (2 ^ unat idx)" unfolding unsigned_push_bit_eq by simp
  moreover have "(2 :: int) ^ unat idx < 2 ^ 10" using n by (intro power_strict_increasing) simp_all
  moreover have "take_bit 32 ((2 :: int) ^ unat idx) = 2 ^ unat idx" using n by simp
  ultimately have "uint (push_bit (unat idx) (1 :: u32)) < 2 ^ 10" by simp
  moreover have "uint mk < 2 ^ 10" using a(1) by (simp add: word_less_def)
  ultimately have "uint (mk OR push_bit (unat idx) 1) < 2 ^ 10" unfolding unsigned_or_eq by (intro OR_upper) simp_all
  then show ?thesis by (simp add: word_less_def)
qed

lemma assist_mask_less: "assist_mask m e < 2 ^ 10"
proof -
  have "fold (\<lambda>a mask. let idx = map_pid m (case as_i64 a of Some n \<Rightarrow> n | None \<Rightarrow> 0) in
      if idx < 10 then mask OR push_bit (unat idx) 1 else mask) as k < 2 ^ 10" if "k < 2 ^ 10" for as and k :: u32
    using that
  proof (induction as arbitrary: k)
    case (Cons a as)
    let ?k = "let idx = map_pid m (case as_i64 a of Some n \<Rightarrow> n | None \<Rightarrow> 0) in if idx < 10 then k OR push_bit (unat idx) 1 else k"
    have "?k < 2 ^ 10" using mask_step[OF Cons.prems] Cons.prems unfolding Let_def by (cases "map_pid m (case as_i64 a of Some n \<Rightarrow> n | None \<Rightarrow> 0) < 10") simp_all
    from Cons.IH[OF this] show ?case by simp
  qed simp
  then show ?thesis by (simp add: assist_mask_def split: option.split)
qed

section \<open>Timelines\<close>

lemma parse_frame_wf: "frame_wf (parse_frame m i v) \<and> minute (parse_frame m i v) = of_nat i"
proof -
  have "frame_wf mf \<Longrightarrow> frame_wf (fold (set_participant_frame m) pfs mf) \<and> minute (fold (set_participant_frame m) pfs mf) = minute mf" for pfs mf
  proof (induction pfs arbitrary: mf)
    case (Cons pf pfs)
    have "frame_wf (set_participant_frame m pf mf)" "minute (set_participant_frame m pf mf) = minute mf"
      using Cons.prems by (simp_all add: set_participant_frame_def frame_wf_def Let_def split: prod.split)
    then show ?case using Cons.IH by simp
  qed simp
  then show ?thesis by (simp add: parse_frame_def Let_def frame_wf_def split: option.split)
qed

definition events_wf :: "timeline_lite \<Rightarrow> bool" where
  "events_wf t \<longleftrightarrow> list_all kill_wf (kills t) \<and> list_all objective_wf (objectives t) \<and> list_all ward_wf (wards t)"

lemma parse_event_wf:
  assumes "order_map m" "events_wf t"
  shows "events_wf (parse_event m e t)" "frames (parse_event m e t) = frames t"
proof -
  have k: "monster_kind e \<in> {DRAGON, RIFT_HERALD, BARON, HORDE, ELDER_DRAGON, ATAKHAN, OTHER_MONSTER}"
    "building_kind e \<in> {TOWER, INHIBITOR, OTHER_BUILDING}" "parse_lane x \<in> {LANE_NONE, LANE_TOP, LANE_MID, LANE_BOT}" for x
    by (simp_all add: monster_kind_def building_kind_def parse_lane_def Let_def)
  have "pid_ok 255" by (simp add: pid_ok_def)
  then show "events_wf (parse_event m e t)"
    using assms(2) k map_pid_ok[OF assms(1)] assist_mask_less[of m e]
    unfolding parse_event_def Let_def events_wf_def by (auto simp: kill_wf_def objective_wf_def ward_wf_def)
  show "frames (parse_event m e t) = frames t" by (simp add: parse_event_def Let_def)
qed

lemma parse_events_wf: "order_map m \<Longrightarrow> events_wf t \<Longrightarrow> events_wf (fold (parse_event m) es t) \<and> frames (fold (parse_event m) es t) = frames t"
  by (induction es arbitrary: t) (simp_all add: parse_event_wf)

lemma parse_minutes_wf:
  assumes "order_map m" "events_wf t" "list_all frame_wf (frames t)" "map minute (frames t) = map of_nat [0..<n]"
  shows "timeline_wf (fold (parse_minute m) (enumerate n fs) t)"
  using assms(2-4)
proof (induction fs arbitrary: n t)
  case Nil
  then have "length (frames t) = n" by (metis length_map length_upt diff_zero)
  then show ?case using Nil by (simp add: timeline_wf_def events_wf_def)
next
  case (Cons f fs)
  let ?t = "t\<lparr>frames := frames t @ [parse_frame m n f]\<rparr>"
  have w: "events_wf ?t" "list_all frame_wf (frames ?t)" "map minute (frames ?t) = map of_nat [0..<Suc n]"
    using Cons.prems parse_frame_wf[of m n f] by (simp_all add: events_wf_def)
  have "events_wf (parse_minute m (n, f) t)" "frames (parse_minute m (n, f) t) = frames ?t"
    using parse_events_wf[OF assms(1) w(1)] w(1) by (simp_all add: parse_minute_def Let_def split: option.split)
  then show ?case using Cons.IH[of "parse_minute m (n, f) t" "Suc n"] w(2,3) by simp
qed

lemma parse_timeline_wf: "order_map m \<Longrightarrow> parse_timeline m v = Inr t \<Longrightarrow> timeline_wf t"
  using parse_minutes_wf[of m "\<lparr>frames = [], kills = [], objectives = [], wards = []\<rparr>" 0]
  by (auto simp: parse_timeline_def events_wf_def split: option.splits)

lemma parsed_record_wf:
  assumes "parse_match v tml = Inr (r, puuids)"
  shows "record_wf r \<and> length puuids = 10 \<and> (timeline r = None \<longleftrightarrow> tml = None)"
proof -
  obtain ps order where e: "length ps = 10" "order_participants ps = Inr order" "puuids = map (\<lambda>orig. get_s (ps ! orig) ''puuid'') order"
    "participants r = map (\<lambda>(k, orig). parse_participant (k mod 5) (ps ! orig)) (enumerate 0 order)" "schema_version r = SCHEMA_VERSION"
    and t: "(case tml of Some tj \<Rightarrow> res_bind (parse_timeline (invert_order order) tj) (Inr o Some) | None \<Rightarrow> Inr None) = (Inr (timeline r) :: parse_error + _)"
    using assms by (auto simp: parse_match_def Let_def res_bind_eq_Inr split: option.splits if_splits prod.splits)
  have fo: "full_order ps order" using order_participants_cases[OF e(1)] e(2) by fastforce
  have l: "length order = 10" by (rule full_order_facts(1)[OF fo])
  have "map position (participants r) = map (\<lambda>k. of_nat (k mod 5)) [0..<10]"
    unfolding e(4) enumerate_eq_zip l by (rule nth_equalityI) (simp_all add: l parse_participant_def)
  then have "map position (participants r) = [0, 1, 2, 3, 4, 0, 1, 2, 3, 4]" by (simp add: upt_conv_Cons)
  moreover have "list_all (\<lambda>p. length (stats p) = length STAT_FIELDS_V1) (participants r)"
    by (auto simp: e(4) list_all_iff parse_participant_def)
  moreover have "case timeline r of None \<Rightarrow> True | Some t \<Rightarrow> timeline_wf t"
    using t parse_timeline_wf[OF invert_order_map[OF fo]] by (auto simp: res_bind_eq_Inr split: option.splits)
  moreover have "timeline r = None \<longleftrightarrow> tml = None" using t by (cases tml) (auto simp: res_bind_eq_Inr dest: sym)
  ultimately show ?thesis using e(3,5) l by (simp add: record_wf_def)
qed

section \<open>Properties\<close>

text \<open>C40: Every record the parser returns is well formed: the current schema version, ten participants at the positions 0 to 4 of either team with one value per
  stat field of that version, one puuid each; and in a timeline the frames are the minutes from 0 on with ten values per series, participant
  references are an index below ten or 255, assists are a mask of ten bits, and kinds and lanes are codes of the schema.\<close>

theorem parse_match_well_formed:
  assumes "parse_match v tml = Inr (r, puuids)"
  shows "record_wf r \<and> length puuids = 10 \<and> (timeline r = None \<longleftrightarrow> tml = None)"
  by (rule parsed_record_wf[OF assms])

definition sample_timeline :: json where
  "sample_timeline = JObj [(''info'', JObj [(''frames'', JArr [JObj [(''events'', JArr [JObj [(''type'', JStr ''CHAMPION_KILL''),
     (''killerId'', JNum (Some 3)), (''victimId'', JNum (Some 11)), (''assistingParticipantIds'', JArr [JNum (Some 1), JNum (Some 2)])]])]])])]"

theorem parse_match_well_formed_witness:
  "\<exists>r puuids t. parse_match sample_match (Some sample_timeline) = Inr (r, puuids) \<and> timeline r = Some t \<and> timeline_wf t \<and> length (kills t) = 1
     \<and> record_wf r \<and> length puuids = 10"
proof -
  have g: "grouped 100 (take 5 sample_players)" "grouped 200 (drop 5 sample_players)" "length sample_players = 10"
    by (simp_all add: sample_players_def sample_player_def get_i_def get_s_def POSITIONS_def)
  obtain order where o: "order_participants sample_players = Inr order" using order_participants_cases(2)[OF g(3,1,2)] by blast
  have i: "split_match_id ''EUW1_17'' = Some (''EUW1'', 17)" by (simp add: split_match_id_def parse_uint_def is_digit_def)
  obtain t where t: "parse_timeline (invert_order order) sample_timeline = Inr t" "length (kills t) = 1"
    by (simp add: parse_timeline_def sample_timeline_def get_array_def parse_minute_def parse_event_def get_s_def Let_def)
  obtain r puuids where r: "parse_match sample_match (Some sample_timeline) = Inr (r, puuids)" "timeline r = Some t"
    using g(3) o i t(1) by (simp add: parse_match_def sample_match_def get_s_def get_array_def Let_def)
  from parse_match_well_formed[OF r(1)] show ?thesis using r t(2) by (auto simp: record_wf_def)
qed

end
