(* ===== verification/Transpose_Props.thy ===== *)
theory Transpose_Props
  imports Transpose Match_Parse_Types
begin

text \<open>
  The benchmark of \<^verbatim>\<open>Transpose\<close> against the encoder of \<^verbatim>\<open>columnar.rs\<close>.  \<open>tb_at\<close> ties the buffers of a timeline to the tokens of the encoder, column by column.
\<close>

section \<open>Timeline\<close>

lemma sint_ucast_u32: "sint (ucast (v :: u32) :: u64) = uint v"
proof -
  have "0 \<le> uint v" "uint v < 2 ^ 32" using unsigned_less[of v, where ?'a = int] by simp_all
  moreover have "(2 :: int) ^ 32 \<le> 2 ^ 63" "- (2 ^ 63) \<le> (0 :: int)" by simp_all
  ultimately have "- (2 ^ 63) \<le> uint v" "uint v < 2 ^ 63" by linarith+
  then have "sint (word_of_int (uint v) :: i64) = uint v" by (rule sint_word_of_int_64)
  then show ?thesis by simp
qed

lemma sub_u32 [simp]: "sub_i64 (ucast (v :: u32)) (ucast (p :: u32)) = Some (ucast v - ucast p)"
proof -
  have "0 \<le> uint v" "uint v < 2 ^ 32" "0 \<le> uint p" "uint p < 2 ^ 32"
    using unsigned_less[of v, where ?'a = int] unsigned_less[of p, where ?'a = int] by simp_all
  moreover have "(2 :: int) ^ 32 \<le> 2 ^ 63" by simp
  ultimately have "- (2 ^ 63) \<le> uint v - uint p" "uint v - uint p < 2 ^ 63" by linarith+
  moreover have "(word_of_int (uint v - uint p) :: i64) = ucast v - ucast p" by simp
  ultimately show ?thesis unfolding sub_i64_def sint_ucast_u32 Let_def by simp
qed

lemma sub_u32_0 [simp]: "sub_i64 (ucast (v :: u32)) 0 = Some (ucast v)"
  using sub_u32[of v 0] by simp

lemma slots_free: "m \<noteq> v \<Longrightarrow> proj (Fixed m) (emit_list (slot_toks v prev) i vals) = []"
  by (rule emit_list_free) (simp add: slot_toks_def)

definition remembers_row :: "u64 list \<Rightarrow> nat \<Rightarrow> u32 list \<Rightarrow> bool" where
  "remembers_row row n prev \<longleftrightarrow> length row = 10 \<and> n = length prev \<and> n \<le> 10 \<and> (\<forall>j < n. row ! j = ucast (prev ! j))"

lemma slots_scanned:
  assumes "k < NMISC" "length row = 10" "j + length vs \<le> 10" "length prev \<le> 10"
    and "\<And>i. j \<le> i \<Longrightarrow> i < length prev \<Longrightarrow> row ! i = ucast (prev ! i)"
  shows "\<exists>row'. scans (slot_step (length prev)) (packed_u32 vs) (j, col, row)
      (j + length vs, col @ proj (Fixed k) (emit_list (slot_toks k prev) j vs), row')
    \<and> length row' = 10 \<and> (\<forall>i < j. row' ! i = row ! i) \<and> (\<forall>i < length vs. row' ! (j + i) = ucast (vs ! i))"
  using assms
proof (induction vs arbitrary: j col row)
  case Nil
  then show ?case by (auto simp: packed_u32_def intro: scans_Nil)
next
  case (Cons v vs)
  let ?z = "write_varint (zigzag_i64 (ucast v - ucast (get_or_0 prev j)))" and ?row = "row[j := ucast v]"
  have pv: "(if j < length prev then row ! j else 0) = ucast (get_or_0 prev j)" using Cons.prems(5)[of j] by (simp add: get_or_0_def)
  have 1: "scans (slot_step (length prev)) (write_varint (ucast v)) (j, col, row) (j + 1, col @ ?z, ?row)"
    by (rule scans_step) (use Cons.prems(2,3) in \<open>simp_all add: slot_step_def pv Let_def\<close>)
  have "?row ! i = ucast (prev ! i)" if "j + 1 \<le> i" "i < length prev" for i using Cons.prems(5)[of i] that by simp
  from Cons.IH[of ?row "j + 1" "col @ ?z", OF Cons.prems(1) _ _ Cons.prems(4) this] Cons.prems(2,3) obtain row' where
    2: "scans (slot_step (length prev)) (packed_u32 vs) (j + 1, col @ ?z, ?row)
      (j + 1 + length vs, (col @ ?z) @ proj (Fixed k) (emit_list (slot_toks k prev) (j + 1) vs), row')"
    "length row' = 10" "\<forall>i < j + 1. row' ! i = ?row ! i" "\<forall>i < length vs. row' ! (j + 1 + i) = ucast (vs ! i)" by auto
  have "row' ! (j + i) = ucast ((v # vs) ! i)" if "i < length (v # vs)" for i
    using 2(3,4) that Cons.prems(2,3) by (cases i) auto
  moreover have "\<forall>i < j. row' ! i = row ! i" using 2(3) by simp
  ultimately show ?case using scans_append[OF 1 2(1)] 2(2) Cons.prems(1)
    by (intro exI[of _ row']) (simp add: packed_u32_def slot_toks_def[of k prev j v])
qed

definition series_at :: "tl_buf \<Rightarrow> u32 list list \<Rightarrow> bool" where
  "series_at tb prev \<longleftrightarrow> length prev = 4 \<and> length (tb_prev tb) = 4 \<and> length (tb_len tb) = 4
     \<and> (\<forall>si < 4. remembers_row (tb_prev tb ! si) (tb_len tb ! si) (prev ! si))"

lemma series_at_cong: "series_at tb prev \<Longrightarrow> tb_prev tb' = tb_prev tb \<Longrightarrow> tb_len tb' = tb_len tb \<Longrightarrow> series_at tb' prev"
  by (simp add: series_at_def)

text \<open>The buffers hold the tokens \<open>ts\<close>, after the given numbers of items, with the times and the series before.\<close>

definition tb_at :: "tl_buf \<Rightarrow> tok list \<Rightarrow> nat \<times> nat \<times> nat \<times> nat \<Rightarrow> u32 \<times> u32 \<times> u32 \<Rightarrow> u32 list list \<Rightarrow> bool" where
  "tb_at tb ts counts tms prev \<longleftrightarrow>
     (tb_nf tb, tb_nk tb, tb_no tb, tb_nw tb) = counts
   \<and> (tb_kt tb, tb_ot tb, tb_wt tb) = (ucast (fst tms), ucast (fst (snd tms)), ucast (snd (snd tms)))
   \<and> series_at tb prev
   \<and> tb_fminutes tb = proj (Fixed F_MINUTE) ts
   \<and> tb_fns tb = map (\<lambda>k. proj (Fixed k) ts) [F_GOLD_N, F_XP_N, F_CS_N, F_DMG_N]
   \<and> tb_fcols tb = map (\<lambda>k. proj (Fixed k) ts) [F_GOLD, F_XP, F_CS, F_DMG]
   \<and> tb_kcols tb = map (\<lambda>k. proj (Fixed k) ts) [K_T, K_KILLER, K_VICTIM, K_MASK, K_X, K_Y]
   \<and> tb_ocols tb = map (\<lambda>k. proj (Fixed k) ts) [O_T, O_KIND, O_KILLER, O_TEAM, O_LANE]
   \<and> tb_wcols tb = map (\<lambda>k. proj (Fixed k) ts) [W_T, W_KIND, W_PART]"

lemma tb_at_new: "tb_at tl_buf_new [] (0, 0, 0, 0) (0, 0, 0) (replicate 4 [])"
proof -
  have r: "replicate 3 ([] :: bytes) = [[], [], []]" "replicate 4 ([] :: bytes) = [[], [], [], []]"
    "replicate 5 ([] :: bytes) = [[], [], [], [], []]" "replicate 6 ([] :: bytes) = [[], [], [], [], [], []]" by (simp_all add: numeral_eq_Suc)
  show ?thesis by (simp add: tb_at_def tl_buf_new_def r) (simp add: series_at_def remembers_row_def)
qed

lemma tb_at_frame_part:
  assumes "tb_at tb ts counts tms prev" "series_at tb' prev'" "tb_fminutes tb' = proj (Fixed F_MINUTE) (ts @ us)"
    and "tb_fns tb' = map (\<lambda>k. proj (Fixed k) (ts @ us)) [F_GOLD_N, F_XP_N, F_CS_N, F_DMG_N]"
    and "tb_fcols tb' = map (\<lambda>k. proj (Fixed k) (ts @ us)) [F_GOLD, F_XP, F_CS, F_DMG]"
    and "\<And>m. 32 < m \<Longrightarrow> proj (Fixed m) us = []"
    and "tb_nf tb' = tb_nf tb" "tb_nk tb' = tb_nk tb" "tb_no tb' = tb_no tb" "tb_nw tb' = tb_nw tb"
    and "tb_kt tb' = tb_kt tb" "tb_ot tb' = tb_ot tb" "tb_wt tb' = tb_wt tb"
    and "tb_kcols tb' = tb_kcols tb" "tb_ocols tb' = tb_ocols tb" "tb_wcols tb' = tb_wcols tb"
  shows "tb_at tb' (ts @ us) counts tms prev'"
  unfolding tb_at_def assms(3-5,7-16) using assms(1,2,6) by (simp add: tb_at_def)

lemma less_4_cases: "(si :: nat) < 4 \<Longrightarrow> si = 0 \<or> si = 1 \<or> si = 2 \<or> si = 3"
  by linarith

lemma series_scanned:
  assumes at: "tb_at tb ts counts tms prev" and si: "si < 4" and vals: "vals \<noteq> []" "length vals \<le> 10" and f: "unat f = si + 2"
  shows "\<exists>tb'. scans frame_step (fld_bytes f (packed_u32 vals)) tb tb'
    \<and> tb_at tb' (ts @ series_toks (25 + 2 * si) (26 + 2 * si) (prev ! si) vals) counts tms (prev[si := vals])"
proof -
  let ?v = "26 + 2 * si" and ?w = "packed_u32 vals"
  let ?out = "proj (Fixed ?v) (emit_list (slot_toks ?v (prev ! si)) 0 vals)"
  have rem: "remembers_row (tb_prev tb ! si) (tb_len tb ! si) (prev ! si)" using at si by (simp add: tb_at_def series_at_def)
  have len: "tb_len tb ! si = length (prev ! si)" using rem by (simp add: remembers_row_def)
  have "?v < NMISC" using si by (simp add: NMISC_def)
  from slots_scanned[OF this, of "tb_prev tb ! si" 0 vals "prev ! si" "tb_fcols tb ! si"] rem vals(2) obtain row where
    row: "scans (slot_step (length (prev ! si))) ?w (0, tb_fcols tb ! si, tb_prev tb ! si) (length vals, tb_fcols tb ! si @ ?out, row)"
    "length row = 10" "\<forall>i < length vals. row ! i = ucast (vals ! i)" by (auto simp: remembers_row_def)
  let ?tb = "tb\<lparr>tb_fcols := (tb_fcols tb)[si := tb_fcols tb ! si @ ?out], tb_prev := (tb_prev tb)[si := row],
      tb_len := (tb_len tb)[si := length vals], tb_fns := push_to si (write_varint (of_nat (length vals))) (tb_fns tb)\<rparr>"
  have l: "length ?w < 2 ^ 64" using length_packed[of "map ucast vals"] vals(2) by (simp add: packed_u32_eq)
  have ne: "?w \<noteq> []" using vals(1) by (simp add: packed_u32_eq del: map_map)
  have "scans frame_step (fld_message f ?w) tb ?tb"
    by (rule scans_message[OF l]) (use si in \<open>simp add: frame_step_def f len scans_end[OF row(1)] Let_def\<close>)
  moreover have "tb_at ?tb (ts @ series_toks (25 + 2 * si) ?v (prev ! si) vals) counts tms (prev[si := vals])"
  proof -
    have s: "series_at tb prev" using at by (simp add: tb_at_def)
    have c: "tb_fns tb = map (\<lambda>k. proj (Fixed k) ts) [F_GOLD_N, F_XP_N, F_CS_N, F_DMG_N]"
      "tb_fcols tb = map (\<lambda>k. proj (Fixed k) ts) [F_GOLD, F_XP, F_CS, F_DMG]" using at unfolding tb_at_def by blast+
    have "remembers_row ((tb_prev tb)[si := row] ! i) ((tb_len tb)[si := length vals] ! i) (prev[si := vals] ! i)" if "i < 4" for i
      using s that row(2,3) vals(2) by (cases "i = si") (auto simp: series_at_def remembers_row_def)
    then have S: "series_at ?tb (prev[si := vals])" using s by (simp add: series_at_def)
    have C: "tb_fcols ?tb = map (\<lambda>k. proj (Fixed k) (ts @ series_toks (25 + 2 * si) ?v (prev ! si) vals)) [F_GOLD, F_XP, F_CS, F_DMG]"
      using less_4_cases[OF si] by (elim disjE; hypsubst) (simp_all add: c(2) series_toks_def slots_free)
    have N: "tb_fns ?tb = map (\<lambda>k. proj (Fixed k) (ts @ series_toks (25 + 2 * si) ?v (prev ! si) vals)) [F_GOLD_N, F_XP_N, F_CS_N, F_DMG_N]"
      using less_4_cases[OF si] by (elim disjE; hypsubst) (simp_all add: c(1) series_toks_def slots_free push_to_def)
    have Z: "proj (Fixed m) (series_toks (25 + 2 * si) ?v (prev ! si) vals) = []" if "m < 25 \<or> 32 < m" for m
      using that si by (auto simp: series_toks_def slots_free)
    have M: "tb_fminutes ?tb = proj (Fixed F_MINUTE) (ts @ series_toks (25 + 2 * si) ?v (prev ! si) vals)"
      using at Z[of 24] by (simp add: tb_at_def)
    show ?thesis by (rule tb_at_frame_part[OF at S M N C Z]) simp_all
  qed
  ultimately show ?thesis using ne by (auto simp: fld_bytes_def)
qed

lemma ucast_nz: "(ucast (v :: u32) :: u64) = 0 \<longleftrightarrow> v = 0"
proof -
  have "unat v < 2 ^ 64" using unsigned_less[of v, where ?'a = nat] by simp
  then have "unat (ucast v :: u64) = unat v" by (simp add: unsigned_ucast_eq take_bit_nat_eq_self)
  then show ?thesis by (metis unsigned_0 unat_eq_zero)
qed

text \<open>What the benchmark writes of the items of a timeline: like the encoder, but nothing for a default value; a time of zero and an empty series leave
  the time and the series before in place.\<close>

definition bench_series_toks :: "nat \<Rightarrow> nat \<Rightarrow> u32 list \<Rightarrow> u32 list \<Rightarrow> tok list" where
  "bench_series_toks n_col v_col prev vals = (if vals = [] then [] else series_toks n_col v_col prev vals)"

definition bench_frame_toks :: "nat \<Rightarrow> u32 list list \<Rightarrow> minute_frame \<Rightarrow> tok list" where
  "bench_frame_toks i prev f =
     (Fixed F_MINUTE, vbytes (ucast (minute f)))
     # bench_series_toks F_GOLD_N F_GOLD (prev ! 0) (total_gold f) @ bench_series_toks F_XP_N F_XP (prev ! 1) (xp f)
     @ bench_series_toks F_CS_N F_CS (prev ! 2) (cs f) @ bench_series_toks F_DMG_N F_DMG (prev ! 3) (dmg_to_champs f)"

definition keep_series :: "u32 list \<Rightarrow> u32 list \<Rightarrow> u32 list" where
  "keep_series prev vals = (if vals = [] then prev else vals)"

definition bench_frame_series :: "u32 list list \<Rightarrow> minute_frame \<Rightarrow> u32 list list" where
  "bench_frame_series prev f =
     [keep_series (prev ! 0) (total_gold f), keep_series (prev ! 1) (xp f), keep_series (prev ! 2) (cs f), keep_series (prev ! 3) (dmg_to_champs f)]"

definition frame_small :: "minute_frame \<Rightarrow> bool" where
  "frame_small f \<longleftrightarrow> list_all (\<lambda>vals. length vals \<le> 10) [total_gold f, xp f, cs f, dmg_to_champs f]"

lemma series_field:
  assumes "tb_at tb ts counts tms prev" "si < 4" "length vals \<le> 10" "unat f = si + 2"
  shows "\<exists>tb'. scans frame_step (fld_bytes f (packed_u32 vals)) tb tb'
    \<and> tb_at tb' (ts @ bench_series_toks (25 + 2 * si) (26 + 2 * si) (prev ! si) vals) counts tms (prev[si := keep_series (prev ! si) vals])"
proof (cases "vals = []")
  case True
  then show ?thesis using assms(1) scans_Nil[of frame_step tb]
    by (auto simp: fld_bytes_def packed_u32_def bench_series_toks_def keep_series_def)
next
  case False
  then show ?thesis using series_scanned[OF assms(1,2) False assms(3,4)] by (simp add: bench_series_toks_def keep_series_def)
qed

lemma frame_scanned:
  assumes "tb_at tb ts counts tms prev" "frame_small f"
  shows "\<exists>tb'. cur_loop frame_step (wire_frame f) tb = Some tb' \<and> tb_at tb' (ts @ bench_frame_toks i prev f) counts tms (bench_frame_series prev f)"
proof -
  have d: "length (total_gold f) \<le> 10" "length (xp f) \<le> 10" "length (cs f) \<le> 10" "length (dmg_to_champs f) \<le> 10"
    using assms(2) by (simp_all add: frame_small_def)
  obtain a b c e where p: "prev = [a, b, c, e]" by (rule length_4_cases[of prev]) (use assms(1) in \<open>simp add: tb_at_def series_at_def\<close>)
  let ?g = "keep_series a (total_gold f)" and ?x = "keep_series b (xp f)" and ?c = "keep_series c (cs f)"
  let ?m = "[(Fixed F_MINUTE, vbytes (ucast (minute f)))]"
  let ?tb = "tb\<lparr>tb_fminutes := tb_fminutes tb @ vbytes (ucast (minute f))\<rparr>"
  have 0: "scans frame_step (fld_varint 1 (ucast (minute f))) tb ?tb"
  proof (cases "ucast (minute f) = (0 :: u64)")
    case True
    then show ?thesis by (simp add: vbytes_def fld_varint_def scans_Nil)
  next
    case False
    then show ?thesis by (rule scans_varint) (simp add: frame_step_def Let_def vbytes_def False)
  qed
  have "tb_at ?tb (ts @ ?m) counts tms prev" using assms(1) by (auto simp: tb_at_def intro: series_at_cong)
  from series_field[OF this, of 0, OF _ d(1), of 2] obtain t1 where
    1: "scans frame_step (fld_bytes 2 (packed_u32 (total_gold f))) ?tb t1"
    "tb_at t1 ((ts @ ?m) @ bench_series_toks 25 26 a (total_gold f)) counts tms [?g, b, c, e]" by (auto simp: p)
  from series_field[OF 1(2), of 1, OF _ d(2), of 3] obtain t2 where
    2: "scans frame_step (fld_bytes 3 (packed_u32 (xp f))) t1 t2"
    "tb_at t2 (((ts @ ?m) @ bench_series_toks 25 26 a (total_gold f)) @ bench_series_toks 27 28 b (xp f)) counts tms [?g, ?x, c, e]" by auto
  from series_field[OF 2(2), of 2, OF _ d(3), of 4] obtain t3 where
    3: "scans frame_step (fld_bytes 4 (packed_u32 (cs f))) t2 t3"
    "tb_at t3 ((((ts @ ?m) @ bench_series_toks 25 26 a (total_gold f)) @ bench_series_toks 27 28 b (xp f)) @ bench_series_toks 29 30 c (cs f))
      counts tms [?g, ?x, ?c, e]" by auto
  from series_field[OF 3(2), of 3, OF _ d(4), of 5] obtain t4 where
    4: "scans frame_step (fld_bytes 5 (packed_u32 (dmg_to_champs f))) t3 t4"
    "tb_at t4 (ts @ bench_frame_toks i prev f) counts tms (bench_frame_series prev f)" by (auto simp: p bench_frame_toks_def bench_frame_series_def)
  have "scans frame_step (wire_frame f) tb t4"
    unfolding wire_frame_def concat.simps append_Nil2 by (intro scans_append[OF 0] scans_append[OF 1(1)] scans_append[OF 2(1)] scans_append[OF 3(1)] 4(1))
  then show ?thesis using 4(2) by (intro exI[of _ t4] conjI scans_end)
qed

subsection \<open>Events\<close>

definition bench_time :: "u32 \<Rightarrow> u32 \<Rightarrow> bytes" where
  "bench_time prev t = (if t = 0 then [] else write_varint (zigzag_i64 (ucast t - ucast prev)))"

definition keep_time :: "u32 \<Rightarrow> u32 \<Rightarrow> u32" where
  "keep_time prev t = (if t = 0 then prev else t)"

definition bench_kill_toks :: "nat \<Rightarrow> u32 \<Rightarrow> kill_event \<Rightarrow> tok list" where
  "bench_kill_toks i prev k =
     [(Fixed K_T, bench_time prev (k_t_s k)), (Fixed K_KILLER, vbytes (ucast (k_killer k))), (Fixed K_VICTIM, vbytes (ucast (k_victim k))),
      (Fixed K_MASK, vbytes (ucast (k_assist_mask k))), (Fixed K_X, vbytes (ucast (k_x k))), (Fixed K_Y, vbytes (ucast (k_y k)))]"

definition bench_objective_toks :: "nat \<Rightarrow> u32 \<Rightarrow> objective_event \<Rightarrow> tok list" where
  "bench_objective_toks i prev b =
     [(Fixed O_T, bench_time prev (o_t_s b)), (Fixed O_KIND, vbytes (ucast (o_kind b))), (Fixed O_KILLER, vbytes (ucast (o_killer b))),
      (Fixed O_TEAM, vbytes (ucast (o_losing_team b))), (Fixed O_LANE, vbytes (ucast (o_lane b)))]"

definition bench_ward_toks :: "nat \<Rightarrow> u32 \<Rightarrow> ward_event \<Rightarrow> tok list" where
  "bench_ward_toks i prev w =
     [(Fixed W_T, bench_time prev (w_t_s w)), (Fixed W_KIND, vbytes (ucast (w_kind w))), (Fixed W_PART, vbytes (ucast (w_participant w)))]"

lemma push_Nil [simp]: "push_to i [] xs = xs"
  by (simp add: push_to_def)

lemma event_time:
  "scans (event_step maxf) (fld_varint 1 (ucast t)) (ucast prev, es) (ucast (keep_time prev t), push_to 0 (bench_time prev t) es)"
proof (cases "t = 0")
  case True
  then show ?thesis by (simp add: fld_varint_def keep_time_def bench_time_def scans_Nil)
next
  case False
  then have "ucast t \<noteq> (0 :: u64)" by (simp add: ucast_nz)
  then show ?thesis by (rule scans_varint) (simp add: event_step_def Let_def keep_time_def bench_time_def False)
qed

lemma event_field:
  assumes "2 \<le> unat f" "unat f \<le> maxf"
  shows "scans (event_step maxf) (fld_varint f v) (t, es) (t, push_to (unat f - 1) (vbytes v) es)"
proof (cases "v = 0")
  case True
  then show ?thesis by (simp add: fld_varint_def vbytes_def scans_Nil)
next
  case False
  then show ?thesis by (rule scans_varint) (use assms in \<open>simp add: event_step_def Let_def vbytes_def False\<close>)
qed

lemma kill_scanned:
  "cur_loop (event_step 6) (wire_kill k) (ucast kt, map (\<lambda>k. proj (Fixed k) ts) [K_T, K_KILLER, K_VICTIM, K_MASK, K_X, K_Y])
    = Some (ucast (keep_time kt (k_t_s k)), map (\<lambda>m. proj (Fixed m) (ts @ bench_kill_toks i kt k)) [K_T, K_KILLER, K_VICTIM, K_MASK, K_X, K_Y])"
  unfolding wire_kill_def concat.simps append_Nil2 bench_kill_toks_def
  apply (rule scans_end[THEN trans])
   apply (rule scans_append[OF event_time])
   apply (rule scans_append[OF event_field], simp, simp)+
   apply (rule event_field, simp, simp)
  apply (simp add: push_to_def)
  done

lemma objective_scanned:
  "cur_loop (event_step 5) (wire_objective b) (ucast ot, map (\<lambda>k. proj (Fixed k) ts) [O_T, O_KIND, O_KILLER, O_TEAM, O_LANE])
    = Some (ucast (keep_time ot (o_t_s b)), map (\<lambda>m. proj (Fixed m) (ts @ bench_objective_toks i ot b)) [O_T, O_KIND, O_KILLER, O_TEAM, O_LANE])"
  unfolding wire_objective_def concat.simps append_Nil2 bench_objective_toks_def
  apply (rule scans_end[THEN trans])
   apply (rule scans_append[OF event_time])
   apply (rule scans_append[OF event_field], simp, simp)+
   apply (rule event_field, simp, simp)
  apply (simp add: push_to_def)
  done

lemma ward_scanned:
  "cur_loop (event_step 3) (wire_ward w) (ucast wt, map (\<lambda>k. proj (Fixed k) ts) [W_T, W_KIND, W_PART])
    = Some (ucast (keep_time wt (w_t_s w)), map (\<lambda>m. proj (Fixed m) (ts @ bench_ward_toks i wt w)) [W_T, W_KIND, W_PART])"
  unfolding wire_ward_def concat.simps append_Nil2 bench_ward_toks_def
  apply (rule scans_end[THEN trans])
   apply (rule scans_append[OF event_time])
   apply (rule scans_append[OF event_field], simp, simp)+
   apply (rule event_field, simp, simp)
  apply (simp add: push_to_def)
  done

text \<open>One kind of item of a timeline: its messages extend the buffers by the tokens of the encoder.\<close>

locale timeline_items =
  fixes inv :: "tl_buf \<Rightarrow> tok list \<Rightarrow> nat \<Rightarrow> 'p \<Rightarrow> bool" and msg :: "'a \<Rightarrow> bytes" and emit :: "nat \<Rightarrow> 'p \<Rightarrow> 'a \<Rightarrow> tok list"
    and nxt :: "'p \<Rightarrow> 'a \<Rightarrow> 'p" and ok :: "'a \<Rightarrow> bool"
  assumes item: "inv tb ts n p \<Longrightarrow> ok a \<Longrightarrow> length (msg a) < 2 ^ 64 \<Longrightarrow>
    \<exists>tb'. scans timeline_step (msg a) tb tb' \<and> inv tb' (ts @ emit i p a) (n + 1) (nxt p a)"
begin

lemma scanned:
  "inv tb ts n p \<Longrightarrow> list_all ok as \<Longrightarrow> length (concat (map msg as)) < 2 ^ 64 \<Longrightarrow>
   \<exists>tb' p'. scans timeline_step (concat (map msg as)) tb tb' \<and> inv tb' (ts @ emit_all emit nxt i p as) (n + length as) p'"
proof (induction as arbitrary: tb ts n p i)
  case Nil
  then show ?case by (auto intro: scans_Nil)
next
  case (Cons a as)
  from item[of tb ts n p a i] Cons.prems obtain t1 where
    1: "scans timeline_step (msg a) tb t1" "inv t1 (ts @ emit i p a) (n + 1) (nxt p a)" by auto
  from Cons.IH[OF 1(2), of "Suc i"] Cons.prems(2,3) obtain t2 p' where
    2: "scans timeline_step (concat (map msg as)) t1 t2" "inv t2 ((ts @ emit i p a) @ emit_all emit nxt (Suc i) (nxt p a) as) (n + 1 + length as) p'"
    by auto
  show ?case using scans_append[OF 1(1) 2(1)] 2(2) by (intro exI[of _ t2] exI[of _ p']) simp
qed

end

lemma scans_item:
  assumes "length (fld_message f m) < 2 ^ 64" "\<And>t rest b b'. bench_key t = (unat f, 2) \<Longrightarrow> cur_varint b = Some (t, b') \<Longrightarrow>
     cur_sub b' = Some (m, rest) \<Longrightarrow> step b s = Some (rest, s')"
  shows "scans step (fld_message f m) s s'"
  by (rule scans_message) (use assms in \<open>simp_all add: fld_message_def\<close>)

interpretation frame_items: timeline_items "\<lambda>tb ts n. tb_at tb ts (n, nk, no, nw) tms" "\<lambda>f. fld_message 1 (wire_frame f)" bench_frame_toks bench_frame_series frame_small
  for nk no nw tms
proof
  fix tb ts n prev f i
  assume a: "tb_at tb ts (n, nk, no, nw) tms prev" "frame_small f" "length (fld_message 1 (wire_frame f)) < 2 ^ 64"
  have "tb_at (tb\<lparr>tb_nf := n + 1\<rparr>) ts (n + 1, nk, no, nw) tms prev" using a(1) by (auto simp: tb_at_def intro: series_at_cong)
  from frame_scanned[OF this a(2), of i] obtain tb' where
    t: "cur_loop frame_step (wire_frame f) (tb\<lparr>tb_nf := n + 1\<rparr>) = Some tb'" "tb_at tb' (ts @ bench_frame_toks i prev f) (n + 1, nk, no, nw) tms (bench_frame_series prev f)"
    by blast
  have "scans timeline_step (fld_message 1 (wire_frame f)) tb tb'"
    using a(1) by (intro scans_item[OF a(3)]) (simp add: timeline_step_def tb_at_def t(1)[simplified])
  then show "\<exists>tb'. scans timeline_step (fld_message 1 (wire_frame f)) tb tb' \<and> tb_at tb' (ts @ bench_frame_toks i prev f) (n + 1, nk, no, nw) tms (bench_frame_series prev f)"
    using t(2) by blast
qed

interpretation kill_items: timeline_items "\<lambda>tb ts n kt. tb_at tb ts (nf, n, no, nw) (kt, ot, wt) prev" "\<lambda>k. fld_message 2 (wire_kill k)" bench_kill_toks "\<lambda>kt k. keep_time kt (k_t_s k)" "\<lambda>_. True"
  for nf no nw ot wt prev
proof
  fix tb ts n kt k i
  assume a: "tb_at tb ts (nf, n, no, nw) (kt, ot, wt) prev" "length (fld_message 2 (wire_kill k)) < 2 ^ 64"
  let ?cols = "map (\<lambda>m. proj (Fixed m) (ts @ bench_kill_toks i kt k)) [K_T, K_KILLER, K_VICTIM, K_MASK, K_X, K_Y]"
  let ?tb = "tb\<lparr>tb_nk := n + 1, tb_kt := ucast (keep_time kt (k_t_s k)), tb_kcols := ?cols\<rparr>"
  have s: "tb_nk tb = n" "tb_kt tb = ucast kt" "tb_kcols tb = map (\<lambda>m. proj (Fixed m) ts) [K_T, K_KILLER, K_VICTIM, K_MASK, K_X, K_Y]"
    using a(1) by (simp_all add: tb_at_def)
  have "scans timeline_step (fld_message 2 (wire_kill k)) tb ?tb"
    by (rule scans_item[OF a(2)]) (simp add: timeline_step_def s(1,2) kill_scanned[where i = i] s(3) del: list.map)
  moreover have "tb_at ?tb (ts @ bench_kill_toks i kt k) (nf, n + 1, no, nw) (keep_time kt (k_t_s k), ot, wt) prev"
    using a(1) by (auto simp: tb_at_def bench_kill_toks_def intro: series_at_cong)
  ultimately show "\<exists>tb'. scans timeline_step (fld_message 2 (wire_kill k)) tb tb' \<and> tb_at tb' (ts @ bench_kill_toks i kt k) (nf, n + 1, no, nw) (keep_time kt (k_t_s k), ot, wt) prev"
    by blast
qed

interpretation objective_items: timeline_items "\<lambda>tb ts n ot. tb_at tb ts (nf, nk, n, nw) (kt, ot, wt) prev" "\<lambda>b. fld_message 3 (wire_objective b)" bench_objective_toks "\<lambda>ot b. keep_time ot (o_t_s b)" "\<lambda>_. True"
  for nf nk nw kt wt prev
proof
  fix tb ts n ot b i
  assume a: "tb_at tb ts (nf, nk, n, nw) (kt, ot, wt) prev" "length (fld_message 3 (wire_objective b)) < 2 ^ 64"
  let ?cols = "map (\<lambda>m. proj (Fixed m) (ts @ bench_objective_toks i ot b)) [O_T, O_KIND, O_KILLER, O_TEAM, O_LANE]"
  let ?tb = "tb\<lparr>tb_no := n + 1, tb_ot := ucast (keep_time ot (o_t_s b)), tb_ocols := ?cols\<rparr>"
  have s: "tb_no tb = n" "tb_ot tb = ucast ot" "tb_ocols tb = map (\<lambda>m. proj (Fixed m) ts) [O_T, O_KIND, O_KILLER, O_TEAM, O_LANE]"
    using a(1) by (simp_all add: tb_at_def)
  have "scans timeline_step (fld_message 3 (wire_objective b)) tb ?tb"
    by (rule scans_item[OF a(2)]) (simp add: timeline_step_def s(1,2) objective_scanned[where i = i] s(3) del: list.map)
  moreover have "tb_at ?tb (ts @ bench_objective_toks i ot b) (nf, nk, n + 1, nw) (kt, keep_time ot (o_t_s b), wt) prev"
    using a(1) by (auto simp: tb_at_def bench_objective_toks_def intro: series_at_cong)
  ultimately show "\<exists>tb'. scans timeline_step (fld_message 3 (wire_objective b)) tb tb' \<and> tb_at tb' (ts @ bench_objective_toks i ot b) (nf, nk, n + 1, nw) (kt, keep_time ot (o_t_s b), wt) prev"
    by blast
qed

interpretation ward_items: timeline_items "\<lambda>tb ts n wt. tb_at tb ts (nf, nk, no, n) (kt, ot, wt) prev" "\<lambda>w. fld_message 4 (wire_ward w)" bench_ward_toks "\<lambda>wt w. keep_time wt (w_t_s w)" "\<lambda>_. True"
  for nf nk no kt ot prev
proof
  fix tb ts n wt w i
  assume a: "tb_at tb ts (nf, nk, no, n) (kt, ot, wt) prev" "length (fld_message 4 (wire_ward w)) < 2 ^ 64"
  let ?cols = "map (\<lambda>m. proj (Fixed m) (ts @ bench_ward_toks i wt w)) [W_T, W_KIND, W_PART]"
  let ?tb = "tb\<lparr>tb_nw := n + 1, tb_wt := ucast (keep_time wt (w_t_s w)), tb_wcols := ?cols\<rparr>"
  have s: "tb_nw tb = n" "tb_wt tb = ucast wt" "tb_wcols tb = map (\<lambda>m. proj (Fixed m) ts) [W_T, W_KIND, W_PART]"
    using a(1) by (simp_all add: tb_at_def)
  have "scans timeline_step (fld_message 4 (wire_ward w)) tb ?tb"
    by (rule scans_item[OF a(2)]) (simp add: timeline_step_def s(1,2) ward_scanned[where i = i] s(3) del: list.map)
  moreover have "tb_at ?tb (ts @ bench_ward_toks i wt w) (nf, nk, no, n + 1) (kt, ot, keep_time wt (w_t_s w)) prev"
    using a(1) by (auto simp: tb_at_def bench_ward_toks_def intro: series_at_cong)
  ultimately show "\<exists>tb'. scans timeline_step (fld_message 4 (wire_ward w)) tb tb' \<and> tb_at tb' (ts @ bench_ward_toks i wt w) (nf, nk, no, n + 1) (kt, ot, keep_time wt (w_t_s w)) prev"
    by blast
qed


definition timeline_small :: "timeline_lite \<Rightarrow> bool" where
  "timeline_small t \<longleftrightarrow> list_all frame_small (frames t)"

definition item_toks :: "timeline_lite \<Rightarrow> tok list" where
  "item_toks t = emit_all bench_frame_toks bench_frame_series 0 (replicate 4 []) (frames t) @ emit_all bench_kill_toks (\<lambda>kt k. keep_time kt (k_t_s k)) 0 0 (kills t)
     @ emit_all bench_objective_toks (\<lambda>ot b. keep_time ot (o_t_s b)) 0 0 (objectives t) @ emit_all bench_ward_toks (\<lambda>wt w. keep_time wt (w_t_s w)) 0 0 (wards t)"

definition bench_timeline_toks :: "timeline_lite \<Rightarrow> tok list" where
  "bench_timeline_toks t =
     (Fixed NFRAMES, write_varint (of_nat (length (frames t))))
     # emit_all bench_frame_toks bench_frame_series 0 (replicate 4 []) (frames t)
     @ (Fixed NKILLS, write_varint (of_nat (length (kills t))))
     # emit_all bench_kill_toks (\<lambda>kt k. keep_time kt (k_t_s k)) 0 0 (kills t)
     @ (Fixed NOBJS, write_varint (of_nat (length (objectives t))))
     # emit_all bench_objective_toks (\<lambda>ot b. keep_time ot (o_t_s b)) 0 0 (objectives t)
     @ (Fixed NWARDS, write_varint (of_nat (length (wards t))))
     # emit_all bench_ward_toks (\<lambda>wt w. keep_time wt (w_t_s w)) 0 0 (wards t)"

lemma timeline_scanned:
  assumes "timeline_small t" "length (wire_timeline t) < 2 ^ 64"
  shows "\<exists>tb tms prev. cur_loop timeline_step (wire_timeline t) tl_buf_new = Some tb
    \<and> tb_at tb (item_toks t) (length (frames t), length (kills t), length (objectives t), length (wards t)) tms prev"
proof -
  have d: "list_all frame_small (frames t)" using assms(1) by (simp add: timeline_small_def)
  have l: "length (concat (map (\<lambda>f. fld_message 1 (wire_frame f)) (frames t))) < 2 ^ 64" "length (concat (map (\<lambda>k. fld_message 2 (wire_kill k)) (kills t))) < 2 ^ 64"
    "length (concat (map (\<lambda>b. fld_message 3 (wire_objective b)) (objectives t))) < 2 ^ 64" "length (concat (map (\<lambda>w. fld_message 4 (wire_ward w)) (wards t))) < 2 ^ 64"
    using assms(2) by (simp_all add: wire_timeline_def)
  from frame_items.scanned[OF tb_at_new d l(1), of 0] obtain t1 prev where
    1: "scans timeline_step (concat (map (\<lambda>f. fld_message 1 (wire_frame f)) (frames t))) tl_buf_new t1"
    "tb_at t1 ([] @ emit_all bench_frame_toks bench_frame_series 0 (replicate 4 []) (frames t)) (0 + length (frames t), 0, 0, 0) (0, 0, 0) prev" by blast
  from kill_items.scanned[OF 1(2) list_all_True l(2), of 0] obtain t2 kt where
    2: "scans timeline_step (concat (map (\<lambda>k. fld_message 2 (wire_kill k)) (kills t))) t1 t2"
    "tb_at t2 (([] @ emit_all bench_frame_toks bench_frame_series 0 (replicate 4 []) (frames t)) @ emit_all bench_kill_toks (\<lambda>kt k. keep_time kt (k_t_s k)) 0 0 (kills t))
      (0 + length (frames t), 0 + length (kills t), 0, 0) (kt, 0, 0) prev" by blast
  from objective_items.scanned[OF 2(2) list_all_True l(3), of 0] obtain t3 ot where
    3: "scans timeline_step (concat (map (\<lambda>b. fld_message 3 (wire_objective b)) (objectives t))) t2 t3"
    "tb_at t3 ((([] @ emit_all bench_frame_toks bench_frame_series 0 (replicate 4 []) (frames t)) @ emit_all bench_kill_toks (\<lambda>kt k. keep_time kt (k_t_s k)) 0 0 (kills t))
      @ emit_all bench_objective_toks (\<lambda>ot b. keep_time ot (o_t_s b)) 0 0 (objectives t))
      (0 + length (frames t), 0 + length (kills t), 0 + length (objectives t), 0) (kt, ot, 0) prev" by blast
  from ward_items.scanned[OF 3(2) list_all_True l(4), of 0] obtain t4 wt where
    4: "scans timeline_step (concat (map (\<lambda>w. fld_message 4 (wire_ward w)) (wards t))) t3 t4"
    "tb_at t4 (item_toks t) (length (frames t), length (kills t), length (objectives t), length (wards t)) (kt, ot, wt) prev"
    by (auto simp: item_toks_def)
  have "scans timeline_step (wire_timeline t) tl_buf_new t4"
    unfolding wire_timeline_def by (intro scans_append[OF 1(1)] scans_append[OF 2(1)] scans_append[OF 3(1)] 4(1))
  then show ?thesis using 4(2) by (blast intro: scans_end)
qed

subsection \<open>The flush of the buffers\<close>

definition flush_toks :: "tl_buf \<Rightarrow> tok list" where
  "flush_toks tb =
     [(Fixed NFRAMES, write_varint (of_nat (tb_nf tb))), (Fixed F_MINUTE, tb_fminutes tb),
      (Fixed F_GOLD_N, tb_fns tb ! 0), (Fixed F_GOLD, tb_fcols tb ! 0), (Fixed F_XP_N, tb_fns tb ! 1), (Fixed F_XP, tb_fcols tb ! 1),
      (Fixed F_CS_N, tb_fns tb ! 2), (Fixed F_CS, tb_fcols tb ! 2), (Fixed F_DMG_N, tb_fns tb ! 3), (Fixed F_DMG, tb_fcols tb ! 3),
      (Fixed NKILLS, write_varint (of_nat (tb_nk tb))), (Fixed K_T, tb_kcols tb ! 0), (Fixed K_KILLER, tb_kcols tb ! 1),
      (Fixed K_VICTIM, tb_kcols tb ! 2), (Fixed K_MASK, tb_kcols tb ! 3), (Fixed K_X, tb_kcols tb ! 4), (Fixed K_Y, tb_kcols tb ! 5),
      (Fixed NOBJS, write_varint (of_nat (tb_no tb))), (Fixed O_T, tb_ocols tb ! 0), (Fixed O_KIND, tb_ocols tb ! 1),
      (Fixed O_KILLER, tb_ocols tb ! 2), (Fixed O_TEAM, tb_ocols tb ! 3), (Fixed O_LANE, tb_ocols tb ! 4),
      (Fixed NWARDS, write_varint (of_nat (tb_nw tb))), (Fixed W_T, tb_wcols tb ! 0), (Fixed W_KIND, tb_wcols tb ! 1), (Fixed W_PART, tb_wcols tb ! 2)]"

lemma flush_adds:
  assumes "cols_ok c"
  shows "adds c (flush_toks tb) (timeline_flush tb c)"
proof (rule adds_writes[OF assms])
  show "writes (timeline_flush tb) (flush_toks tb)"
    unfolding timeline_flush_def Let_def extend_misc_def for_each.simps prod.case bwv_eq
    by (rule writes_from, (rule then_wv then_wbytes writes_id)+) (simp_all add: flush_toks_def numeral_eq_Suc)
qed (simp_all add: timeline_flush_def extend_misc_def Let_def wv_def wbytes_def)

lemma bench_series_columns: "m \<noteq> n \<Longrightarrow> m \<noteq> v \<Longrightarrow> proj (Fixed m) (bench_series_toks n v prev vals) = []"
  by (simp add: bench_series_toks_def series_toks_def slots_free)

lemma frame_columns: "m < 24 \<or> 32 < m \<Longrightarrow> proj (Fixed m) (emit_all bench_frame_toks nxt i p fs) = []"
  by (rule emit_all_free) (auto simp: bench_frame_toks_def bench_series_columns)

lemma kill_columns: "m < 34 \<or> 39 < m \<Longrightarrow> proj (Fixed m) (emit_all bench_kill_toks nxt i p ks) = []"
  by (rule emit_all_free) (auto simp: bench_kill_toks_def)

lemma objective_columns: "m < 41 \<or> 45 < m \<Longrightarrow> proj (Fixed m) (emit_all bench_objective_toks nxt i p bs) = []"
  by (rule emit_all_free) (auto simp: bench_objective_toks_def)

lemma ward_columns: "m < 47 \<or> 49 < m \<Longrightarrow> proj (Fixed m) (emit_all bench_ward_toks nxt i p ws) = []"
  by (rule emit_all_free) (auto simp: bench_ward_toks_def)

lemma other_columns:
  "proj (Stat m) (bench_frame_toks i p f) = []" "proj (Rune m) (bench_frame_toks i p f) = []"
  by (simp_all add: bench_frame_toks_def bench_series_toks_def series_toks_def emit_list_free slot_toks_def)

lemma timeline_columns:
  assumes "\<And>m. k = Fixed m \<Longrightarrow> m < 23 \<or> 49 < m"
  shows "proj k (bench_timeline_toks t) = []"
proof (cases k)
  case (Fixed m)
  with assms have "m < 23 \<or> 49 < m" by blast
  then show ?thesis using frame_columns[of m] kill_columns[of m] objective_columns[of m] ward_columns[of m]
    unfolding Fixed bench_timeline_toks_def by (elim disjE) simp_all
next
  case (Stat m)
  then show ?thesis by (simp add: bench_timeline_toks_def emit_all_free other_columns bench_kill_toks_def bench_objective_toks_def bench_ward_toks_def)
next
  case (Rune m)
  then show ?thesis by (simp add: bench_timeline_toks_def emit_all_free other_columns bench_kill_toks_def bench_objective_toks_def bench_ward_toks_def)
qed

lemma timeline_col_cases:
  assumes "23 \<le> m" "m < 50"
  shows "m \<in> {23, 24, 25, 26, 27, 28, 29, 30, 31, 32, 33, 34, 35, 36, 37, 38, 39, 40, 41, 42, 43, 44, 45, 46, 47, 48, 49 :: nat}"
  using assms by (simp only: insert_iff empty_iff) presburger

lemma flush_matches:
  assumes "tb_at tb (item_toks t) (length (frames t), length (kills t), length (objectives t), length (wards t)) tms prev"
  shows "proj k (flush_toks tb) = proj k (bench_timeline_toks t)"
proof -
  note a = assms[unfolded tb_at_def]
  have f: "tb_nf tb = length (frames t)" "tb_nk tb = length (kills t)" "tb_no tb = length (objectives t)" "tb_nw tb = length (wards t)"
    and b: "tb_fminutes tb = proj (Fixed F_MINUTE) (item_toks t)" "tb_fns tb = map (\<lambda>k. proj (Fixed k) (item_toks t)) [F_GOLD_N, F_XP_N, F_CS_N, F_DMG_N]"
      "tb_fcols tb = map (\<lambda>k. proj (Fixed k) (item_toks t)) [F_GOLD, F_XP, F_CS, F_DMG]"
      "tb_kcols tb = map (\<lambda>k. proj (Fixed k) (item_toks t)) [K_T, K_KILLER, K_VICTIM, K_MASK, K_X, K_Y]"
      "tb_ocols tb = map (\<lambda>k. proj (Fixed k) (item_toks t)) [O_T, O_KIND, O_KILLER, O_TEAM, O_LANE]"
      "tb_wcols tb = map (\<lambda>k. proj (Fixed k) (item_toks t)) [W_T, W_KIND, W_PART]"
    using a by (simp_all only: prod.inject)
  show ?thesis
  proof (cases "\<exists>m. k = Fixed m \<and> 23 \<le> m \<and> m < 50")
    case True
    then obtain m where k: "k = Fixed m" "23 \<le> m" "m < 50" by blast
    from timeline_col_cases[OF k(2,3)] show ?thesis unfolding k(1) insert_iff empty_iff flush_toks_def f b bench_timeline_toks_def item_toks_def
      by (elim disjE; hypsubst?) (simp_all add: frame_columns kill_columns objective_columns ward_columns)
  next
    case False
    then have m: "\<And>m. k = Fixed m \<Longrightarrow> m < 23 \<or> 49 < m" by fastforce
    have "proj k (flush_toks tb) = []"
    proof (cases k)
      case (Fixed m)
      with m have "m < 23 \<or> 49 < m" by blast
      then show ?thesis unfolding Fixed flush_toks_def by (elim disjE) simp_all
    qed (simp_all add: flush_toks_def)
    then show ?thesis by (simp add: timeline_columns[OF m])
  qed
qed

section \<open>Records\<close>

lemma head_field:
  assumes "\<And>t b b'. bench_key t = (unat f, 0) \<Longrightarrow> cur_varint b = Some (t, b') \<Longrightarrow> record_step b (h, c) = put_head upd b' (h, c)" "upd 0 h = h"
  shows "scans record_step (fld_varint f v) (h, c) (upd v h, c)"
proof (cases "v = 0")
  case True
  then show ?thesis using assms(2) by (simp add: fld_varint_def scans_Nil)
next
  case False
  then show ?thesis by (rule scans_varint) (simp add: assms(1) put_head_def)
qed

lemma head_bytes:
  assumes "\<And>t rest b b'. bench_key t = (unat f, 2) \<Longrightarrow> cur_varint b = Some (t, b') \<Longrightarrow> cur_sub b' = Some (s, rest) \<Longrightarrow> record_step b (h, c) = Some (rest, upd s h, c)"
    "upd [] h = h" "length (fld_bytes f s) < 2 ^ 64"
  shows "scans record_step (fld_bytes f s) (h, c) (upd s h, c)"
proof (cases "s = []")
  case True
  then show ?thesis using assms(2) by (simp add: fld_bytes_def scans_Nil)
next
  case False
  then have l: "length (fld_message f s) < 2 ^ 64" using assms(3) by (simp add: fld_bytes_def)
  have "scans record_step (fld_message f s) (h, c) (upd s h, c)" by (rule scans_item[OF l]) (rule assms(1))
  then show ?thesis using False by (simp add: fld_bytes_def)
qed

lemma participants_scanned:
  assumes "cols_ok c" "list_all participant_small ps" "length (concat (map (\<lambda>p. fld_message 11 (wire_participant p)) ps)) < 2 ^ 64"
  shows "\<exists>c'. scans record_step (concat (map (\<lambda>p. fld_message 11 (wire_participant p)) ps)) (h, c) (h\<lparr>bh_nparts := bh_nparts h + length ps\<rparr>, c')
    \<and> adds c (emit_list bench_participant_toks i ps) c'"
  using assms
proof (induction ps arbitrary: c h i)
  case Nil
  then show ?case by (auto intro: scans_Nil adds_refl)
next
  case (Cons p ps)
  have small: "participant_small p" and l: "length (fld_message 11 (wire_participant p)) < 2 ^ 64" using Cons.prems by simp_all
  from participant_parses[OF small] Cons.prems(1) obtain c1 where
    1: "scans participant_step (wire_participant p) c c1" "adds c (bench_participant_toks i p) c1" unfolding parses_def by blast
  have 2: "scans record_step (fld_message 11 (wire_participant p)) (h, c) (h\<lparr>bh_nparts := bh_nparts h + 1\<rparr>, c1)"
    by (rule scans_item[OF l]) (simp add: record_step_def scans_end[OF 1(1)])
  from Cons.IH[OF adds_ok[OF 1(2)], of "h\<lparr>bh_nparts := bh_nparts h + 1\<rparr>" "Suc i"] Cons.prems(2,3) obtain c2 where
    3: "scans record_step (concat (map (\<lambda>p. fld_message 11 (wire_participant p)) ps)) (h\<lparr>bh_nparts := bh_nparts h + 1\<rparr>, c1)
      (h\<lparr>bh_nparts := bh_nparts h + 1 + length ps\<rparr>, c2)" "adds c1 (emit_list bench_participant_toks (Suc i) ps) c2" by auto
  show ?case using scans_append[OF 2 3(1)] adds_trans[OF 1(2) 3(2)] by (intro exI[of _ c2]) simp
qed

lemma timeline_recorded:
  assumes "cols_ok c" "timeline_small t" "length (fld_message 12 (wire_timeline t)) < 2 ^ 64"
  shows "\<exists>c'. scans record_step (fld_message 12 (wire_timeline t)) (h, c) (h\<lparr>bh_tl_present := 1\<rparr>, c') \<and> adds c (bench_timeline_toks t) c'"
proof -
  have "length (wire_timeline t) < 2 ^ 64" using assms(3) by (simp add: fld_message_def)
  from timeline_scanned[OF assms(2) this] obtain tb tms prev where
    1: "cur_loop timeline_step (wire_timeline t) tl_buf_new = Some tb"
    "tb_at tb (item_toks t) (length (frames t), length (kills t), length (objectives t), length (wards t)) tms prev" by blast
  have "scans record_step (fld_message 12 (wire_timeline t)) (h, c) (h\<lparr>bh_tl_present := 1\<rparr>, timeline_flush tb c)"
    by (rule scans_item[OF assms(3)]) (simp add: record_step_def 1(1))
  moreover have "adds c (bench_timeline_toks t) (timeline_flush tb c)"
    by (rule adds_cong[OF flush_adds[OF assms(1)] flush_matches[OF 1(2)]])
  ultimately show ?thesis by blast
qed

definition bench_ban_toks :: "u32 list \<Rightarrow> tok list" where
  "bench_ban_toks bs = (if bs = [] then [] else emit_list ban_toks 0 bs @ [(Fixed BANS_N, write_varint (of_nat (length bs)))])"

lemma bans_recorded:
  assumes "cols_ok c" "length (fld_bytes 13 (packed_u32 bs)) < 2 ^ 64"
  shows "\<exists>c'. scans record_step (fld_bytes 13 (packed_u32 bs)) (h, c) (h, c')
    \<and> adds c (bench_ban_toks bs) c'"
proof (cases "bs = []")
  case True
  then show ?thesis using adds_refl[OF assms(1)] scans_Nil[of record_step "(h, c)"] by (auto simp: fld_bytes_def packed_u32_def bench_ban_toks_def)
next
  case False
  let ?w = "concat (map write_varint (map ucast bs))"
  have e: "emit_list (\<lambda>_ v. [(Fixed BANS, write_varint v)]) 0 (map ucast bs) = emit_list ban_toks 0 bs"
    by (simp add: emit_list_map ban_toks_def[abs_def])
  have w: "fld_bytes 13 (packed_u32 bs) = fld_message 13 ?w" using False by (simp add: packed_u32_eq fld_bytes_def del: map_map)
  obtain c1 where 1: "cur_loop ban_step ?w (0, c) = Some (length bs, c1)" "adds c (emit_list ban_toks 0 bs) c1"
    by (rule ban_loop.ran[OF assms(1), of "map ucast bs" "length bs"]) (simp_all add: e)
  have "scans record_step (fld_message 13 ?w) (h, c) (h, wv BANS_N (of_nat (length bs)) c1)"
    by (rule scans_item) (use assms(2) w in \<open>simp_all add: record_step_def 1(1) del: map_map\<close>)
  with adds_trans[OF 1(2) adds_wv[OF adds_ok[OF 1(2)], of BANS_N "of_nat (length bs)"]] show ?thesis using False unfolding w bench_ban_toks_def by fastforce
qed


text \<open>A record within the limits of the benchmark.\<close>

definition record_readable :: "match_record \<Rightarrow> bool" where
  "record_readable r \<longleftrightarrow> list_all participant_small (participants r) \<and> (case timeline r of None \<Rightarrow> True | Some t \<Rightarrow> timeline_small t)
     \<and> uint (game_id r) < 2 ^ 63 \<and> length (wire_record r) < 2 ^ 32"

definition body_toks :: "match_record \<Rightarrow> tok list" where
  "body_toks r = emit_list bench_participant_toks 0 (participants r) @ (case timeline r of None \<Rightarrow> [] | Some t \<Rightarrow> bench_timeline_toks t)
     @ bench_ban_toks (bans r)"

definition bench_record_toks :: "i64 \<Rightarrow> i64 \<Rightarrow> match_record \<Rightarrow> tok list" where
  "bench_record_toks g s r = body_toks r @ record_head_toks g s r @ [(Fixed NPARTS, write_varint (of_nat (length (participants r)))),
      (Fixed TL_PRESENT, write_varint (if timeline r \<noteq> None then 1 else 0))]"

definition head_of :: "match_record \<Rightarrow> bench_head" where
  "head_of r = \<lparr>bh_schema = ucast (schema_version r), bh_gid = game_id r, bh_plat = as_bytes (platform r), bh_queue = ucast (queue_id r),
     bh_start = game_start_ms r, bh_dur = ucast (duration_s r), bh_blue = (if blue_won r then 1 else 0), bh_gv = as_bytes (game_version r),
     bh_pmaj = ucast (patch_major r), bh_pmin = ucast (patch_minor r), bh_nparts = length (participants r),
     bh_tl_present = (if timeline r \<noteq> None then 1 else 0)\<rparr>"

lemma record_scanned:
  assumes "cols_ok c" "record_readable r"
  shows "\<exists>c'. cur_loop record_step (wire_record r) (bench_head_new, c) = Some (head_of r, c') \<and> adds c (body_toks r) c'"
proof -
  have lt: "x < 2 ^ 64" if "x < 2 ^ 32" for x :: nat using that by simp
  have "length (wire_record r) < 2 ^ 32" using assms(2) by (simp add: record_readable_def)
  note small = lt[OF this, unfolded wire_record_def]
  let ?h = "head_of r"
  let ?h10 = "?h\<lparr>bh_nparts := 0, bh_tl_present := 0\<rparr>" and ?h11 = "?h\<lparr>bh_tl_present := 0\<rparr>"
  have ps: "list_all participant_small (participants r)" using assms(2) by (simp add: record_readable_def)
  have "length (concat (map (\<lambda>p. fld_message 11 (wire_participant p)) (participants r))) < 2 ^ 64" using small by simp
  from participants_scanned[OF assms(1) ps this, of ?h10 0] obtain c1 where
    1: "scans record_step (concat (map (\<lambda>p. fld_message 11 (wire_participant p)) (participants r))) (?h10, c) (?h11, c1)"
    "adds c (emit_list bench_participant_toks 0 (participants r)) c1" by (auto simp: head_of_def)
  have "\<exists>c2. scans record_step (case timeline r of None \<Rightarrow> [] | Some t \<Rightarrow> fld_message 12 (wire_timeline t)) (?h11, c1) (?h, c2)
      \<and> adds c1 (case timeline r of None \<Rightarrow> [] | Some t \<Rightarrow> bench_timeline_toks t) c2"
  proof (cases "timeline r")
    case None
    then have "?h11 = ?h" by (simp add: head_of_def)
    then show ?thesis using adds_refl[OF adds_ok[OF 1(2)]] scans_Nil[of record_step "(?h, c1)"] None by auto
  next
    case (Some t)
    have "timeline_small t" "length (fld_message 12 (wire_timeline t)) < 2 ^ 64" using assms(2) small by (simp_all add: record_readable_def Some)
    from timeline_recorded[OF adds_ok[OF 1(2)] this, of ?h11] show ?thesis by (simp add: Some head_of_def)
  qed
  then obtain c2 where 2: "scans record_step (case timeline r of None \<Rightarrow> [] | Some t \<Rightarrow> fld_message 12 (wire_timeline t)) (?h11, c1) (?h, c2)"
    "adds c1 (case timeline r of None \<Rightarrow> [] | Some t \<Rightarrow> bench_timeline_toks t) c2" by blast
  have "length (fld_bytes 13 (packed_u32 (bans r))) < 2 ^ 64" using small by simp
  from bans_recorded[OF adds_ok[OF 2(2)] this, of ?h] obtain c3 where
    3: "scans record_step (fld_bytes 13 (packed_u32 (bans r))) (?h, c2) (?h, c3)"
    "adds c2 (bench_ban_toks (bans r)) c3" by blast
  have "scans record_step (wire_record r) (bench_head_new, c) (?h, c3)"
    unfolding wire_record_def concat.simps append_Nil2
    apply (rule scans_append[OF head_field[where upd = "\<lambda>v. bh_schema_update (\<lambda>_. v)"]], simp add: record_step_def, simp add: bench_head_new_def)
    apply (rule scans_append[OF head_field[where upd = "\<lambda>v. bh_gid_update (\<lambda>_. v)"]], simp add: record_step_def, simp add: bench_head_new_def)
    apply (rule scans_append[OF head_bytes[where upd = "\<lambda>v. bh_plat_update (\<lambda>_. v)"]], simp add: record_step_def, simp add: bench_head_new_def, use small in simp)
    apply (rule scans_append[OF head_field[where upd = "\<lambda>v. bh_queue_update (\<lambda>_. v)"]], simp add: record_step_def, simp add: bench_head_new_def)
    apply (rule scans_append[OF head_field[where upd = "\<lambda>v. bh_start_update (\<lambda>_. v)"]], simp add: record_step_def, simp add: bench_head_new_def)
    apply (rule scans_append[OF head_field[where upd = "\<lambda>v. bh_dur_update (\<lambda>_. v)"]], simp add: record_step_def, simp add: bench_head_new_def)
    apply (rule scans_append[OF head_field[where upd = "\<lambda>v. bh_blue_update (\<lambda>_. v)"]], simp add: record_step_def, simp add: bench_head_new_def)
    apply (rule scans_append[OF head_bytes[where upd = "\<lambda>v. bh_gv_update (\<lambda>_. v)"]], simp add: record_step_def, simp add: bench_head_new_def, use small in simp)
    apply (rule scans_append[OF head_field[where upd = "\<lambda>v. bh_pmaj_update (\<lambda>_. v)"]], simp add: record_step_def, simp add: bench_head_new_def)
    apply (rule scans_append[OF head_field[where upd = "\<lambda>v. bh_pmin_update (\<lambda>_. v)"]], simp add: record_step_def, simp add: bench_head_new_def)
    using scans_append[OF 1(1) scans_append[OF 2(1) 3(1)]]
    by (simp add: bench_head_new_def head_of_def)
  moreover have "adds c (body_toks r) c3" using adds_trans[OF 1(2) adds_trans[OF 2(2) 3(2)]] by (simp add: body_toks_def)
  ultimately show ?thesis by (blast intro: scans_end)
qed


subsection \<open>Blocks\<close>

lemma sint_small: "uint (w :: u64) < 2 ^ 63 \<Longrightarrow> sint w = uint w"
proof -
  assume "uint w < 2 ^ 63"
  moreover have "- (2 ^ 63) \<le> (0 :: int)" "0 \<le> uint w" by simp_all
  ultimately have "- (2 ^ 63) \<le> uint w" "uint w < 2 ^ 63" by linarith+
  then have "sint (word_of_int (uint w) :: i64) = uint w" by (rule sint_word_of_int_64)
  then show ?thesis by simp
qed

lemma sub_delta_u64:
  assumes "uint v < 2 ^ 63" "uint p < 2 ^ 63" "delta_u64 v p = Inr g"
  shows "sub_i64 v p = Some g"
  using assms(3) unfolding sub_i64_def delta_u64_def sint_small[OF assms(1)] sint_small[OF assms(2)] Let_def by (simp split: if_splits)

lemma sub_delta_i64: "delta_i64 v p = Inr s \<Longrightarrow> sub_i64 v p = Some s"
  unfolding sub_i64_def delta_i64_def Let_def by (simp split: if_splits)

definition bench_at :: "bench \<Rightarrow> block_state \<Rightarrow> bool" where
  "bench_at be st \<longleftrightarrow> cols_ok (be_cols be) \<and> be_gid be = bs_game_id st \<and> be_start be = bs_game_start_ms st \<and> uint (bs_game_id st) < 2 ^ 63"

lemma bench_record_adds:
  assumes "bench_at be st" "record_readable r"
    and "delta_u64 (game_id r) (bs_game_id st) = Inr g" "delta_i64 (game_start_ms r) (bs_game_start_ms st) = Inr s"
  shows "\<exists>be'. bench_record (wire_record r) be = Some be' \<and> adds (be_cols be) (bench_record_toks g s r) (be_cols be') \<and> bench_at be' (record_state r)
    \<and> be_nrec be' = be_nrec be + 1"
proof -
  let ?ts = "record_head_toks g s r @ [(Fixed NPARTS, write_varint (of_nat (length (participants r)))),
      (Fixed TL_PRESENT, write_varint (if timeline r \<noteq> None then 1 else 0))]"
  have be: "cols_ok (be_cols be)" "be_gid be = bs_game_id st" "be_start be = bs_game_start_ms st" "uint (bs_game_id st) < 2 ^ 63"
    and gid: "uint (game_id r) < 2 ^ 63" using assms(1,2) by (simp_all add: bench_at_def record_readable_def)
  from record_scanned[OF be(1) assms(2)] obtain c where
    c: "cur_loop record_step (wire_record r) (bench_head_new, be_cols be) = Some (head_of r, c)" "adds (be_cols be) (body_toks r) c" by blast
  have d: "sub_i64 (game_id r) (be_gid be) = Some g" "sub_i64 (game_start_ms r) (be_start be) = Some s"
    unfolding be(2,3) by (rule sub_delta_u64[OF gid be(4) assms(3)], rule sub_delta_i64[OF assms(4)])
  let ?f = "\<lambda>c. wv TL_PRESENT (bh_tl_present (head_of r)) (wv NPARTS (of_nat (bh_nparts (head_of r))) (wv PMIN (bh_pmin (head_of r)) (wv PMAJ (bh_pmaj (head_of r))
     (wbytes GV (bh_gv (head_of r)) (wv GV_LEN (of_nat (length (bh_gv (head_of r)))) (wv BLUE (bh_blue (head_of r)) (wv DUR (bh_dur (head_of r)) (wz START_D s
     (wv QUEUE (bh_queue (head_of r)) (wbytes PLAT (bh_plat (head_of r)) (wv PLAT_LEN (of_nat (length (bh_plat (head_of r)))) (wz GID_D g (wv SCHEMA (bh_schema (head_of r)) c)))))))))))))"
  have r: "bench_record (wire_record r) be = Some \<lparr>be_cols = ?f c, be_gid = game_id r, be_start = game_start_ms r, be_nrec = be_nrec be + 1\<rparr>"
    by (simp add: bench_record_def c(1) d head_of_def Let_def)
  have "writes ?f ?ts"
    by (rule writes_from, (rule then_wv then_wz then_wbytes writes_id)+) (simp_all add: record_head_toks_def head_of_def)
  from adds_writes[OF adds_ok[OF c(2)] this] have "adds c ?ts (?f c)" by (simp add: wv_def wz_def wbytes_def)
  from adds_trans[OF c(2) this] have a: "adds (be_cols be) (bench_record_toks g s r) (?f c)" by (simp add: bench_record_toks_def)
  then have "cols_ok (?f c)" by (rule adds_ok)
  then show ?thesis using r a gid by (auto simp: bench_at_def record_state_def)
qed

lemma bench_cols_view: "view bench_cols k = []" "cols_ok bench_cols"
  by (cases k) (simp_all add: bench_cols_def nth_or_Nil_def cols_ok_def)

fun bench_block_toks :: "block_state \<Rightarrow> match_record list \<Rightarrow> tok list" where
  "bench_block_toks st [] = []"
| "bench_block_toks st (r # rs) =
     bench_record_toks (projr (delta_u64 (game_id r) (bs_game_id st))) (projr (delta_i64 (game_start_ms r) (bs_game_start_ms st))) r
     @ bench_block_toks (record_state r) rs"

lemma bench_loop_adds:
  assumes "bench_at be st" "list_all record_readable rs" "deltas_fit st rs"
  shows "\<exists>be'. bench_loop (row_bytes (map wire_record rs)) be = Some be' \<and> adds (be_cols be) (bench_block_toks st rs) (be_cols be')
    \<and> be_nrec be' = be_nrec be + length rs"
  using assms
proof (induction rs arbitrary: be st)
  case Nil
  then show ?case by (subst bench_loop.simps) (simp add: row_bytes_def adds_refl bench_at_def)
next
  case (Cons r rs)
  from Cons.prems(3) obtain g s where gs: "delta_u64 (game_id r) (bs_game_id st) = Inr g" "delta_i64 (game_start_ms r) (bs_game_start_ms st) = Inr s"
    and fit: "deltas_fit (record_state r) rs" by (rule deltas_fit_Cons)
  have d: "record_readable r" using Cons.prems(2) by simp
  then have l: "length (wire_record r) < 2 ^ 32" by (simp add: record_readable_def)
  from bench_record_adds[OF Cons.prems(1) d gs] obtain b1 where
    1: "bench_record (wire_record r) be = Some b1" "adds (be_cols be) (bench_record_toks g s r) (be_cols b1)" "bench_at b1 (record_state r)"
    "be_nrec b1 = be_nrec be + 1" by blast
  from Cons.IH[OF 1(3) _ fit] Cons.prems(2) obtain b2 where
    2: "bench_loop (row_bytes (map wire_record rs)) b1 = Some b2" "adds (be_cols b1) (bench_block_toks (record_state r) rs) (be_cols b2)"
    "be_nrec b2 = be_nrec b1 + length rs" by auto
  let ?n = "to_le 4 (of_nat (length (wire_record r)) :: u32)"
  have rb: "row_bytes (map wire_record (r # rs)) = ?n @ wire_record r @ row_bytes (map wire_record rs)" by (simp add: row_bytes_def)
  have "bench_loop (row_bytes (map wire_record (r # rs))) be = Some b2"
    unfolding rb by (subst bench_loop.simps) (use l in \<open>simp add: 1(1) 2(1) Let_def unat_of_nat_u32\<close>)
  then show ?case using adds_trans[OF 1(2) 2(2)] 1(4) 2(3) gs by auto
qed


lemma bench_output:
  assumes "list_all record_readable rs" "deltas_fit block_state_default rs"
  obtains c where "bench_main (row_bytes (map wire_record rs)) = Some (length rs, concat (cfixed c @ cstat c @ crune c))"
    "\<And>k. view c k = proj k (bench_block_toks block_state_default rs)"
proof -
  have "bench_at bench_new block_state_default" by (simp add: bench_at_def bench_new_def bench_cols_view block_state_default_def)
  from bench_loop_adds[OF this assms] obtain be where
    b: "bench_loop (row_bytes (map wire_record rs)) bench_new = Some be" "adds bench_cols (bench_block_toks block_state_default rs) (be_cols be)"
    "be_nrec be = length rs" by (auto simp: bench_new_def)
  show thesis by (rule that[of "be_cols be"]) (use b in \<open>simp_all add: bench_main_def adds_def bench_cols_view\<close>)
qed

section \<open>Records without default values\<close>

definition participant_dense :: "participant \<Rightarrow> bool" where
  "participant_dense p \<longleftrightarrow> 0 \<notin> {player_id p, champion_id p, position p, spell1 p, spell2 p} \<and> runes p \<noteq> [] \<and> stats p \<noteq> []"

definition frame_dense :: "minute_frame \<Rightarrow> bool" where
  "frame_dense f \<longleftrightarrow> minute f \<noteq> 0 \<and> [] \<notin> {total_gold f, xp f, cs f, dmg_to_champs f}"

definition kill_dense :: "kill_event \<Rightarrow> bool" where
  "kill_dense k \<longleftrightarrow> 0 \<notin> {k_t_s k, k_killer k, k_victim k, k_assist_mask k, k_x k, k_y k}"

definition objective_dense :: "objective_event \<Rightarrow> bool" where
  "objective_dense b \<longleftrightarrow> 0 \<notin> {o_t_s b, o_kind b, o_killer b, o_losing_team b, o_lane b}"

definition ward_dense :: "ward_event \<Rightarrow> bool" where
  "ward_dense w \<longleftrightarrow> 0 \<notin> {w_t_s w, w_kind w, w_participant w}"

definition timeline_dense :: "timeline_lite \<Rightarrow> bool" where
  "timeline_dense t \<longleftrightarrow> list_all frame_dense (frames t) \<and> list_all kill_dense (kills t)
     \<and> list_all objective_dense (objectives t) \<and> list_all ward_dense (wards t)"

definition record_dense :: "match_record \<Rightarrow> bool" where
  "record_dense r \<longleftrightarrow> list_all participant_dense (participants r) \<and> (case timeline r of None \<Rightarrow> True | Some t \<Rightarrow> timeline_dense t) \<and> bans r \<noteq> []"

lemma emit_all_cong:
  "list_all ok as \<Longrightarrow> (\<And>i p a. ok a \<Longrightarrow> emit i p a = emit' i p a) \<Longrightarrow> (\<And>p a. ok a \<Longrightarrow> nxt p a = nxt' p a) \<Longrightarrow>
   emit_all emit nxt i p as = emit_all emit' nxt' i p as"
  by (induction as arbitrary: i p) auto

lemma vbytes_nz: "v \<noteq> 0 \<Longrightarrow> vbytes (ucast (v :: u32)) = write_varint (ucast v)"
  by (simp add: vbytes_def ucast_nz)

lemma timeline_toks_dense:
  assumes "timeline_dense t"
  shows "bench_timeline_toks t = timeline_toks t"
proof -
  note d = assms[unfolded timeline_dense_def]
  have "emit_all bench_frame_toks bench_frame_series 0 (replicate 4 []) (frames t) = emit_all frame_toks frame_series 0 (replicate 4 []) (frames t)"
    by (rule emit_all_cong[of frame_dense]) (use d in \<open>auto simp: frame_dense_def bench_frame_toks_def bench_frame_series_def frame_toks_def frame_series_def
        bench_series_toks_def keep_series_def vbytes_nz\<close>)
  moreover have "emit_all bench_kill_toks (\<lambda>kt k. keep_time kt (k_t_s k)) 0 0 (kills t) = emit_all kill_toks (\<lambda>_. k_t_s) 0 0 (kills t)"
    by (rule emit_all_cong[of kill_dense]) (use d in \<open>auto simp: kill_dense_def bench_kill_toks_def kill_toks_def bench_time_def keep_time_def vbytes_nz\<close>)
  moreover have "emit_all bench_objective_toks (\<lambda>ot b. keep_time ot (o_t_s b)) 0 0 (objectives t) = emit_all objective_toks (\<lambda>_. o_t_s) 0 0 (objectives t)"
    by (rule emit_all_cong[of objective_dense])
      (use d in \<open>auto simp: objective_dense_def bench_objective_toks_def objective_toks_def bench_time_def keep_time_def vbytes_nz\<close>)
  moreover have "emit_all bench_ward_toks (\<lambda>wt w. keep_time wt (w_t_s w)) 0 0 (wards t) = emit_all ward_toks (\<lambda>_. w_t_s) 0 0 (wards t)"
    by (rule emit_all_cong[of ward_dense]) (use d in \<open>auto simp: ward_dense_def bench_ward_toks_def ward_toks_def bench_time_def keep_time_def vbytes_nz\<close>)
  ultimately show ?thesis by (simp add: bench_timeline_toks_def timeline_toks_def)
qed

lemma participant_free: "proj (Fixed m) (emit_list rune_toks i rs) = []" "proj (Fixed m) (emit_list stat_toks i ss) = []"
  by (rule emit_list_free, simp add: rune_toks_def stat_toks_def)+

lemma participants_proj:
  assumes "list_all participant_dense ps"
  shows "proj k (emit_list bench_participant_toks i ps) = proj k (emit_list participant_toks i ps)"
  using assms
proof (induction ps arbitrary: i)
  case (Cons p ps)
  then have nz: "player_id p \<noteq> 0" "champion_id p \<noteq> 0" "position p \<noteq> 0" "spell1 p \<noteq> 0" "spell2 p \<noteq> 0" "runes p \<noteq> []" "stats p \<noteq> []"
    by (auto simp: participant_dense_def)
  have "proj k (bench_participant_toks i p) = proj k (participant_toks i p)"
    by (cases k) (simp_all add: bench_participant_toks_def participant_toks_def vbytes_nz nz participant_free)
  then show ?case using Cons by simp
qed simp

lemma participants_columns: "m < 15 \<or> 21 < m \<Longrightarrow> proj (Fixed m) (emit_list participant_toks i ps) = []"
  by (rule emit_list_free) (auto simp: participant_toks_def participant_free)

lemma bans_columns: "k \<noteq> Fixed BANS \<Longrightarrow> proj k (emit_list ban_toks i bs) = []"
  by (rule emit_list_free) (simp add: ban_toks_def)

lemma record_toks_proj:
  assumes "record_dense r"
  shows "proj k (bench_record_toks g s r) = proj k (record_toks g s r)"
proof -
  have "list_all participant_dense (participants r)" and b: "bans r \<noteq> []" using assms by (simp_all add: record_dense_def)
  note P = participants_proj[OF this(1), of k 0]
  let ?T = "case timeline r of None \<Rightarrow> [] | Some t \<Rightarrow> bench_timeline_toks t"
  have T: "proj k ?T = []" if "\<And>m. k = Fixed m \<Longrightarrow> m < 23 \<or> 49 < m"
    using timeline_columns[of k, OF that] by (cases "timeline r") simp_all
  have "(case timeline r of None \<Rightarrow> [] | Some t \<Rightarrow> timeline_toks t) = ?T"
    using assms timeline_toks_dense by (auto simp: record_dense_def split: option.splits)
  then have defs: "proj k (record_toks g s r) = proj k (record_head_toks g s r) @ proj k (record_bans_toks r)
      @ proj k [(Fixed NPARTS, write_varint (of_nat (length (participants r))))] @ proj k (emit_list participant_toks 0 (participants r))
      @ proj k [(Fixed TL_PRESENT, write_varint (if timeline r \<noteq> None then 1 else 0))] @ proj k ?T"
    by (simp add: record_toks_def record_body_toks_def)
  note simps = bench_record_toks_def body_toks_def bench_ban_toks_def record_head_toks_def record_bans_toks_def
  show ?thesis
  proof (cases k)
    case (Fixed m)
    consider "m < 15" | "15 \<le> m" "m \<le> 22" | "22 < m" by linarith
    then show ?thesis
    proof cases
      case 1
      then have "proj k ?T = []" "proj k (emit_list participant_toks 0 (participants r)) = []"
        using T participants_columns by (auto simp: Fixed)
      moreover have "proj k (emit_list ban_toks 0 (bans r)) = [] \<or> m = 13" using bans_columns[of k] Fixed by auto
      ultimately show ?thesis unfolding defs using P b 1 by (auto simp: Fixed simps)
    next
      case 2
      then have "proj k ?T = []" "proj k (emit_list ban_toks 0 (bans r)) = []" using T bans_columns[of k] by (auto simp: Fixed)
      moreover have "proj k (emit_list participant_toks 0 (participants r)) = [] \<or> m < 22" using participants_columns 2 by (auto simp: Fixed)
      ultimately show ?thesis unfolding defs using P b 2 by (auto simp: Fixed simps)
    next
      case 3
      then have "proj k (emit_list ban_toks 0 (bans r)) = []" "proj k (emit_list participant_toks 0 (participants r)) = []"
        using bans_columns[of k] participants_columns by (auto simp: Fixed)
      then show ?thesis unfolding defs using P b 3 by (auto simp: Fixed simps)
    qed
  next
    case (Stat m)
    then show ?thesis unfolding defs using P T b bans_columns[of k] by (simp add: simps)
  next
    case (Rune m)
    then show ?thesis unfolding defs using P T b bans_columns[of k] by (simp add: simps)
  qed
qed

lemma block_toks_proj: "list_all record_dense rs \<Longrightarrow> proj k (bench_block_toks st rs) = proj k (block_toks st rs)"
  by (induction rs arbitrary: st) (simp_all add: record_toks_proj)

section \<open>Properties\<close>

lemma concat_all_Nil: "(\<And>i. nth_or_Nil xs i = []) \<Longrightarrow> concat xs = []"
proof -
  assume a: "\<And>i. nth_or_Nil xs i = []"
  have "z = []" if "z \<in> set xs" for z
  proof -
    from that obtain i where "i < length xs" "xs ! i = z" by (auto simp: in_set_conv_nth)
    then show ?thesis using a[of i] by (simp add: nth_or_Nil_def)
  qed
  then show ?thesis by simp
qed

lemma concat_nth_or_Nil: "(\<And>i. nth_or_Nil xs i = nth_or_Nil ys i) \<Longrightarrow> concat xs = concat ys"
proof (induction xs ys rule: list_induct2')
  case (4 x xs y ys)
  have "nth_or_Nil xs i = nth_or_Nil ys i" for i using 4(2)[of "Suc i"] by (auto simp: nth_or_Nil_def nth_Cons_Suc split: if_splits)
  moreover have "x = y" using 4(2)[of 0] by (simp add: nth_or_Nil_def)
  ultimately show ?case using 4(1) by simp
next
  case (2 x xs)
  then show ?case using concat_all_Nil[of "x # xs"] by (simp add: nth_or_Nil_def[of "[]"])
next
  case (3 y ys)
  from 3[symmetric] show ?case using concat_all_Nil[of "y # ys"] by (simp add: nth_or_Nil_def[of "[]"])
qed simp

lemma concat_view:
  assumes "\<And>k. view c k = view c' k"
  shows "concat (cfixed c @ cstat c @ crune c) = concat (cfixed c' @ cstat c' @ crune c')"
proof -
  have "concat (cfixed c) = concat (cfixed c')" using assms[of "Fixed _"] by (intro concat_nth_or_Nil) simp
  moreover have "concat (cstat c) = concat (cstat c')" using assms[of "Stat _"] by (intro concat_nth_or_Nil) simp
  moreover have "concat (crune c) = concat (crune c')" using assms[of "Rune _"] by (intro concat_nth_or_Nil) simp
  ultimately show ?thesis by simp
qed

text \<open>C39: The transposition benchmark on real record bytes.  Given the canonical bytes of records within its limits, each behind its length as in a row block, it does not
  panic, counts the records, and writes to every column what \<open>bench_block_toks\<close> says: the values of the encoder of \<^verbatim>\<open>columnar.rs\<close>, less the default values
  of repeated parts.  Where there are no such values its output is byte for byte the column data that the encoder writes for the same records.\<close>

theorem bench_matches_encoder:
  assumes "list_all record_readable rs" "deltas_fit block_state_default rs" "\<And>r. r \<in> set rs \<Longrightarrow> decode (wire_record r) = Some r"
  shows "\<exists>b c st. bench_main (row_bytes (map wire_record rs)) = Some (length rs, concat (cfixed b @ cstat b @ crune b))
     \<and> (\<forall>k. view b k = proj k (bench_block_toks block_state_default rs))
     \<and> encode_records decode 0 (map wire_record rs) (cols_new, block_state_default) = Inr (c, st)
     \<and> (list_all record_dense rs \<longrightarrow> concat (cfixed b @ cstat b @ crune b) = concat (cfixed c @ cstat c @ crune c))"
proof -
  from bench_output[OF assms(1,2)] obtain b where
    b: "bench_main (row_bytes (map wire_record rs)) = Some (length rs, concat (cfixed b @ cstat b @ crune b))"
    "\<And>k. view b k = proj k (bench_block_toks block_state_default rs)" by blast
  from encode_records_writes[OF assms(2), of decode wire_record 0] assms(3) obtain f st where
    e: "\<And>c. encode_records decode 0 (map wire_record rs) (c, block_state_default) = Inr (f c, st)" "writes f (block_toks block_state_default rs)" by blast
  have "length (cfixed cols_new) = NMISC" by (simp add: cols_new_def)
  then have "view b k = view (f cols_new) k" if "list_all record_dense rs" for k
    using b(2)[of k] e(2) by (simp add: writes_def block_toks_proj[OF that])
  then have "list_all record_dense rs \<longrightarrow> concat (cfixed b @ cstat b @ crune b) = concat (cfixed (f cols_new) @ cstat (f cols_new) @ crune (f cols_new))"
    using concat_view by blast
  then show ?thesis using e(1)[of cols_new] b by blast
qed

definition dense_sample :: match_record where
  "dense_sample = \<lparr>schema_version = 1, game_id = 300, platform = ''EUW1'', queue_id = 420, game_start_ms = 1700, duration_s = 0, blue_won = True,
     game_version = [], patch_major = 14, patch_minor = 1,
     participants = [\<lparr>player_id = 7, champion_id = 266, position = 1, spell1 = 4, spell2 = 14, runes = [8005], stats = [0, - 3]\<rparr>],
     timeline = Some \<lparr>frames = [\<lparr>minute = 1, total_gold = [500], xp = [0, 2], cs = [1], dmg_to_champs = [9]\<rparr>],
       kills = [\<lparr>k_t_s = 95, k_killer = 1, k_victim = 6, k_assist_mask = 2, k_x = 100, k_y = 200\<rparr>],
       objectives = [\<lparr>o_t_s = 400, o_kind = 2, o_killer = 3, o_losing_team = 1, o_lane = 2\<rparr>],
       wards = [\<lparr>w_t_s = 30, w_kind = 1, w_participant = 5\<rparr>]\<rparr>,
     bans = [157, 0]\<rparr>"

lemma fld_lengths:
  "length (fld_varint f v) \<le> 20" "length (fld_message f m) \<le> 20 + length m" "length (fld_bytes f m) \<le> 20 + length m"
  using length_write_varint[of v] length_write_varint[of "of_nat (8 * unat f)"] length_write_varint[of "of_nat (8 * unat f + 2)"]
    length_write_varint[of "of_nat (length m)"]
  by (simp_all add: fld_varint_def fld_message_def fld_bytes_def wire_key_def del: of_nat_add of_nat_mult)

lemma length_concat_bound: "list_all (\<lambda>x. length x \<le> n) xs \<Longrightarrow> length (concat xs) \<le> n * length xs"
  by (induction xs) auto

lemma packed_lengths: "length (packed_u32 vs) \<le> 10 * length vs" "length (packed_sint64 ws) \<le> 10 * length ws"
  using length_packed[of "map ucast vs"] length_packed[of "map zigzag_i64 ws"] by (simp_all add: packed_u32_eq packed_sint64_eq)

lemma dense_sample_length: "length (wire_record dense_sample) < 2 ^ 32"
proof -
  have v: "length (fld_varint f v) \<le> 60" for f v using fld_lengths(1)[of f v] by simp
  have p: "length (fld_bytes f (packed_u32 vs)) \<le> 60" if "length vs \<le> 2" for f vs
    using fld_lengths(3)[of f "packed_u32 vs"] packed_lengths(1)[of vs] that by linarith
  have s: "length (fld_bytes f (packed_sint64 vs)) \<le> 60" if "length vs \<le> 2" for f vs
    using fld_lengths(3)[of f "packed_sint64 vs"] packed_lengths(2)[of vs] that by linarith
  have b: "length (fld_bytes f m) \<le> 60" if "length m \<le> 4" for f m using fld_lengths(3)[of f m] that by linarith
  have m: "length (fld_message f m) \<le> 600" if "length m \<le> 420" for f m using fld_lengths(2)[of f m] that by linarith
  have M: "length (fld_message f m) \<le> 3000" if "length m \<le> 2400" for f m using fld_lengths(2)[of f m] that by linarith
  obtain q where q: "participants dense_sample = [q]" "length (runes q) \<le> 2" "length (stats q) \<le> 2" by (simp add: dense_sample_def)
  obtain f k d w where t: "timeline dense_sample = Some \<lparr>frames = [f], kills = [k], objectives = [d], wards = [w]\<rparr>"
    "length (total_gold f) \<le> 2" "length (xp f) \<le> 2" "length (cs f) \<le> 2" "length (dmg_to_champs f) \<le> 2" by (simp add: dense_sample_def)
  have "length (wire_participant q) \<le> 420"
    unfolding wire_participant_def using length_concat_bound[of 60] by (rule order_trans) (simp_all add: v p s q)
  note P = m[OF this]
  have "length (wire_frame f) \<le> 420" unfolding wire_frame_def using length_concat_bound[of 60] by (rule order_trans) (simp_all add: v p t)
  moreover have "length (wire_kill k) \<le> 420" unfolding wire_kill_def using length_concat_bound[of 60] by (rule order_trans) (simp_all add: v)
  moreover have "length (wire_objective d) \<le> 420" unfolding wire_objective_def using length_concat_bound[of 60] by (rule order_trans) (simp_all add: v)
  moreover have "length (wire_ward w) \<le> 420" unfolding wire_ward_def using length_concat_bound[of 60] by (rule order_trans) (simp_all add: v)
  ultimately have "length (wire_timeline \<lparr>frames = [f], kills = [k], objectives = [d], wards = [w]\<rparr>) \<le> 2400"
    using m[of "wire_frame f" 1] m[of "wire_kill k" 2] m[of "wire_objective d" 3] m[of "wire_ward w" 4] by (simp add: wire_timeline_def)
  note T = M[OF this]
  have x: "length (platform dense_sample) \<le> 4" "length (game_version dense_sample) \<le> 4" "length (bans dense_sample) \<le> 2" by (simp_all add: dense_sample_def)
  have up: "n \<le> 60 \<Longrightarrow> n \<le> 3000" "n \<le> 600 \<Longrightarrow> n \<le> 3000" for n :: nat by simp_all
  have "length (wire_record dense_sample) \<le> 3000 * 13"
    unfolding wire_record_def using length_concat_bound[of 3000]
    by (rule order_trans) (simp_all add: up(1)[OF v] up(1)[OF p] up(1)[OF b] up(2)[OF P] T q(1) t(1) x)
  then show ?thesis by simp
qed

theorem bench_matches_encoder_witness:
  "\<exists>c st. encode_records (\<lambda>b. if b = wire_record dense_sample then Some dense_sample else None) 0 [wire_record dense_sample] (cols_new, block_state_default)
       = Inr (c, st)
     \<and> bench_main (row_bytes [wire_record dense_sample]) = Some (1, concat (cfixed c @ cstat c @ crune c))"
proof -
  have "list_all record_readable [dense_sample]"
    using dense_sample_length by (simp add: record_readable_def) (simp add: dense_sample_def participant_small_def timeline_small_def frame_small_def NRUNE_def NSTAT_def)
  moreover have "list_all record_dense [dense_sample]"
    by (simp add: record_dense_def dense_sample_def participant_dense_def timeline_dense_def frame_dense_def kill_dense_def objective_dense_def ward_dense_def)
  moreover have "deltas_fit block_state_default [dense_sample]" by (simp add: dense_sample_def block_state_default_def)
  moreover have "(if wire_record r = wire_record dense_sample then Some dense_sample else None) = Some r" if "r \<in> set [dense_sample]" for r using that by simp
  ultimately show ?thesis
    using bench_matches_encoder[of "[dense_sample]" "\<lambda>b. if b = wire_record dense_sample then Some dense_sample else None"] by auto
qed

text \<open>The records the parser makes do have default values, because it numbers positions and minutes from 0: the position column of the benchmark has eight
  entries for the ten participants of every parsed match, so that its columns cannot be read back by counting.\<close>

theorem parsed_positions_misalign:
  assumes "parse_match v tml = Inr (r, puuids)"
  shows "length (proj (Fixed P_POS) (record_toks g s r)) = 10 \<and> length (proj (Fixed P_POS) (bench_record_toks g s r)) = 8"
proof -
  have w: "map position (participants r) = [0, 1, 2, 3, 4, 0, 1, 2, 3, 4]" using parsed_record_wf[OF assms] by (simp add: record_wf_def)
  have P: "proj (Fixed P_POS) (emit_list participant_toks i ps) = concat (map (\<lambda>x. write_varint (ucast x)) (map position ps))"
    "proj (Fixed P_POS) (emit_list bench_participant_toks i ps) = concat (map (\<lambda>x. vbytes (ucast x)) (map position ps))" for i ps
    by (induction ps arbitrary: i) (simp_all add: participant_toks_def bench_participant_toks_def participant_free)
  have one: "write_varint 0 = [0]" "write_varint 1 = [1]" "write_varint 2 = [2]" "write_varint 3 = [3]" "write_varint 4 = [4]"
    by (subst write_varint.simps, simp)+
  have T: "proj (Fixed P_POS) (case timeline r of None \<Rightarrow> [] | Some t \<Rightarrow> bench_timeline_toks t) = []"
    using timeline_columns[of "Fixed P_POS"] by (simp split: option.split)
  have T': "proj (Fixed P_POS) (case timeline r of None \<Rightarrow> [] | Some t \<Rightarrow> timeline_toks t) = []"
  proof (cases "timeline r")
    case (Some t)
    have "proj (Fixed P_POS) (frame_toks i p f) = []" "proj (Fixed P_POS) (kill_toks i q e) = []" "proj (Fixed P_POS) (objective_toks i q b) = []"
      "proj (Fixed P_POS) (ward_toks i q w) = []" for i p f q e b w
      by (simp_all add: frame_toks_def series_toks_def slots_free kill_toks_def objective_toks_def ward_toks_def)
    then show ?thesis by (simp add: Some timeline_toks_def emit_all_free)
  qed simp
  show ?thesis
    by (simp add: record_toks_def record_head_toks_def record_bans_toks_def record_body_toks_def bench_record_toks_def body_toks_def bench_ban_toks_def
        P w T T' one vbytes_def bans_columns)
qed

end
