(* ===== verification/Server_Main.thy ===== *)
theory Server_Main
  imports Inspect Node_Cli_Props Crawler_Props
begin

text \<open>
  The program around the server's components (\<^verbatim>\<open>crates/server/src/main.rs\<close>): the commands, the environment and the background tasks that
  \<^verbatim>\<open>main\<close> spawns.  A host is what the program finds in its data directory: the tables of the database, the files and the text of the invite file.

  A task that sleeps in a loop runs along a list of its rounds.  A round carries what other tasks did meanwhile, whether the stop signal
  came, and the readings of the clock and of the directories.  Log lines and the error of an unwritable directory are dropped.
\<close>

section \<open>Environment and commands\<close>

definition DATA_DIR :: string where "DATA_DIR = ''data''"

definition data_dir_of :: "string option \<Rightarrow> string" where
  "data_dir_of var = (case var of Some v \<Rightarrow> v | None \<Rightarrow> DATA_DIR)"

text \<open>The arguments behind the program name.\<close>

datatype server_cmd = CmdServe bool | CmdInspect | CmdInvite string | CmdUnknown string

definition server_cmd_of :: "string list \<Rightarrow> server_cmd" where
  "server_cmd_of args =
     (case args of
        [] \<Rightarrow> CmdServe False
      | cmd # rest \<Rightarrow>
          if cmd = ''inspect'' then CmdInspect
          else if cmd = ''backfill'' then CmdServe True
          else if cmd = ''invite'' then CmdInvite (case rest of label # _ \<Rightarrow> label | [] \<Rightarrow> ''friend'')
          else CmdUnknown cmd)"

record host =
  ho_tables :: tables
  ho_files :: fsys
  ho_invites :: "string option"

record server_io =
  si_data_dir :: "string option"
  si_now :: u64
  si_draws :: "nat list"
  si_listing :: "(string \<times> string list) list option"

datatype main_error = StoreFailed store_error | SegmentFailed seg_error | UnknownCommand string | NoRegions

datatype main_end = Serving server | Printed "string list" | MainFailed main_error

definition invite_lines :: "string \<Rightarrow> string \<Rightarrow> string list" where
  "invite_lines label code =
     [''invite code for '' @ label @ '': '' @ code, ''they enroll with: crawler-node --server http://<this-host>:8420'']"

definition server_main :: "store_lib \<Rightarrow> seg_codec \<Rightarrow> server_io \<Rightarrow> string list \<Rightarrow> host \<Rightarrow> main_end \<times> host" where
  "server_main lib c io args ho =
     (let dir = data_dir_of (si_data_dir io) in
      case server_cmd_of args of
        CmdInspect \<Rightarrow>
          (case inspect_run lib c dir (si_listing io) (si_now io) (ho_tables ho) (ho_files ho) of
             Inl e \<Rightarrow> (MainFailed (StoreFailed e), ho)
           | Inr (s, res) \<Rightarrow>
               (case res of Inl e \<Rightarrow> MainFailed (SegmentFailed e) | Inr ls \<Rightarrow> Printed ls,
                ho\<lparr>ho_tables := st_durable s, ho_files := st_files s\<rparr>))
      | CmdInvite label \<Rightarrow>
          (case invite_create (si_draws io) label (ho_invites ho) of
             (code, f) \<Rightarrow> (Printed (invite_lines label code), ho\<lparr>ho_invites := f\<rparr>))
      | CmdUnknown other \<Rightarrow> (MainFailed (UnknownCommand other), ho)
      | CmdServe backfill \<Rightarrow>
          (case server_start lib dir backfill (si_now io) (ho_tables ho) (ho_files ho) (ho_invites ho) of
             Inl e \<Rightarrow> (MainFailed (StoreFailed e), ho)
           | Inr sv \<Rightarrow> (if enabled_regions = [] then MainFailed NoRegions else Serving sv, ho)))"

section \<open>The recompactor\<close>

record tick_io =
  tk_stopped :: bool
  tk_woken :: bool
  tk_env :: "store \<Rightarrow> store"
  tk_cycle :: cycle_io
  tk_raw_listing :: "string list"
  tk_raw_mtime :: "string \<Rightarrow> nat option"
  tk_raw_now :: nat
  tk_raw_others :: "fsys \<Rightarrow> fsys"

text \<open>A whole cycle: the segments of the closed days, then the raw samples.\<close>

definition recompaction_cycle :: "raw_lib \<Rightarrow> seg_codec \<Rightarrow> string \<Rightarrow> tick_io \<Rightarrow> store \<Rightarrow> store" where
  "recompaction_cycle z c data_dir io s =
     (let s = run_recompaction_cycle c (tk_cycle io) data_dir s
      in s\<lparr>st_files := snd (recompact_raw_samples z (tk_raw_mtime io) (tk_raw_now io) (tk_raw_others io) data_dir (tk_raw_listing io) (st_files s))\<rparr>)"

text \<open>The sleeps in seconds, and the store at the end.\<close>

fun recompactor_loop :: "raw_lib \<Rightarrow> seg_codec \<Rightarrow> string \<Rightarrow> nat \<Rightarrow> tick_io list \<Rightarrow> store \<Rightarrow> nat list \<times> store" where
  "recompactor_loop z c data_dir delay [] s = ([], s)"
| "recompactor_loop z c data_dir delay (io # ios) s =
     (if tk_stopped io then ([], s)
      else if tk_woken io then ([delay], tk_env io s)
      else apfst (Cons delay) (recompactor_loop z c data_dir 3600 ios (recompaction_cycle z c data_dir io (tk_env io s))))"

definition spawn_recompactor :: "raw_lib \<Rightarrow> seg_codec \<Rightarrow> string \<Rightarrow> tick_io list \<Rightarrow> store \<Rightarrow> nat list \<times> store" where
  "spawn_recompactor z c data_dir ios s = recompactor_loop z c data_dir 30 ios s"

section \<open>The adoption worker\<close>

text \<open>A round receives a message or the end of the channel, unless the five seconds pass first.\<close>

record adoption_io =
  ao_stopped :: bool
  ao_slept :: bool
  ao_entries :: "string \<Rightarrow> league_entry list option"
  ao_now :: u64

fun adoption_run :: "adoption_io list \<Rightarrow> (u32 \<times> string) list \<Rightarrow> store \<Rightarrow> (u32 \<times> string) list \<times> store" where
  "adoption_run [] rx s = (rx, s)"
| "adoption_run (io # ios) rx s =
     (if ao_stopped io then (rx, s)
      else if ao_slept io then adoption_run ios rx s
      else case rx of
        [] \<Rightarrow> ([], s)
      | (pid, puuid) # rx \<Rightarrow> adoption_run ios rx (snd (adoption_handle (ao_entries io puuid) (ao_now io) pid s)))"

section \<open>The lease sweeper and the flusher of the counters\<close>

record sweep_io =
  sp_woken :: bool
  sp_env :: "broker \<Rightarrow> broker"
  sp_order1 :: "nat list"
  sp_order2 :: "nat list"
  sp_now :: nat

fun spawn_sweeper :: "sweep_io list \<Rightarrow> broker \<Rightarrow> broker" where
  "spawn_sweeper [] b = b"
| "spawn_sweeper (io # ios) b =
     (let b = sp_env io b in
      if sp_woken io then b else spawn_sweeper ios (sweep (sp_order1 io) (sp_order2 io) (sp_now io) b))"

record flush_io =
  fl_woken :: bool
  fl_env :: "server \<Rightarrow> server"
  fl_order :: "nat list"

fun stats_flusher :: "flush_io list \<Rightarrow> server \<Rightarrow> server" where
  "stats_flusher [] sv = sv"
| "stats_flusher (io # ios) sv =
     (let sv = flush_stats (fl_order io) (fl_env io sv) in
      if fl_woken io then sv else stats_flusher ios sv)"

end
