(* ===== verification/Server_Main_Props.thy ===== *)
theory Server_Main_Props
  imports Server_Main
begin

text \<open>
  The program as a whole: an invite minted on the command line lets one friend in and nobody after, and the background tasks, run for as long as
  one likes, keep the archive, the frontier, the job table and the counters as they should be.
\<close>

section \<open>Commands\<close>

text \<open>A command other than the two that serve never changes more than it is for: \<^verbatim>\<open>invite\<close> the invite file only, an unknown word nothing.\<close>

lemma unknown_changes_nothing: "server_cmd_of args = CmdUnknown w \<Longrightarrow> server_main lib c io args ho = (MainFailed (UnknownCommand w), ho)"
  by (simp add: server_main_def Let_def)

lemma invite_command:
  assumes "holds_invites (ho_invites ho) invs" "valid_invite_op (Create (si_draws io) label)" "code = map (\<lambda>d. ALPHABET ! d) (si_draws io)"
  shows "\<exists>f. server_main lib c io [''invite'', label] ho = (Printed (invite_lines label code), ho\<lparr>ho_invites := f\<rparr>) \<and> holds_invites f (invs @ [(code, label)])"
proof -
  obtain f where e: "invite_create (si_draws io) label (ho_invites ho) = (code, f)"
    by (cases "invite_create (si_draws io) label (ho_invites ho)") (simp add: invite_create_def Let_def assms(3))
  then have "invite_exec (Create (si_draws io) label) (ho_invites ho) = (Minted code, f)" by simp
  from invite_exec_refines[OF assms(1,2) this] have "holds_invites f (invs @ [(code, label)])" by (auto simp: Let_def assms(3))
  then show ?thesis using e by (intro exI[of _ f]) (simp add: server_main_def server_cmd_of_def)
qed

section \<open>Codes\<close>

lemma trim_code:
  assumes "set code \<subseteq> set ALPHABET"
  shows "trim code = code"
proof -
  have n: "\<not> is_space c" if "c \<in> set ALPHABET" for c using that by (auto simp: ALPHABET_def is_space_def)
  have w: "dropWhile is_space xs = xs" if "set xs \<subseteq> set ALPHABET" for xs using that n by (cases xs) auto
  show ?thesis using assms by (simp add: trim_def w)
qed

lemma drawn_code: "valid_invite_op (Create draws label) \<Longrightarrow> set (map (\<lambda>d. ALPHABET ! d) draws) \<subseteq> set ALPHABET"
  by (auto simp: valid_invite_op_def)

text \<open>A code that is not open admits nobody, whatever else the request says.\<close>

lemma closed_code_refused:
  assumes "holds_invites (sv_invites sv) invs" "trim (er_invite_code req) \<notin> fst ` set invs"
  shows "\<exists>status. api_enroll hash order random now h req sv = (Refused status, sv)"
proof (cases "enroll_validate order h req sv")
  case None
  obtain f where "invite_consume (er_invite_code req) (sv_invites sv) = (False, f)" "f = sv_invites sv"
    using consume_holds[OF assms(1), of "er_invite_code req"] assms(2) by auto
  then show ?thesis using None by (simp add: api_enroll_def enroll_invite_def)
next
  case (Some r)
  then obtain status where "r = Refused status" by (auto simp: enroll_validate_def check_proto_def split: if_splits)
  then show ?thesis using Some by (simp add: api_enroll_def)
qed

section \<open>Background tasks\<close>

lemma adoption_keeps: "keeps s (snd (adoption_run ios rx s))"
proof (induction ios rx s rule: adoption_run.induct)
  case (2 io ios rx s)
  have h: "keeps s (snd (adoption_handle es now pid s))" for es now pid
    by (simp add: adoption_handle_def keeps_refresh split: option.split)
  show ?case
  proof (cases "ao_stopped io \<or> ao_slept io \<or> rx = []")
    case True
    then show ?thesis using 2 by (cases rx) auto
  next
    case False
    then obtain pid puuid rx' where rx: "rx = (pid, puuid) # rx'" by (cases rx) auto
    show ?thesis using 2(2)[of "(pid, puuid)" rx'] False by (auto simp: rx intro: keeps_trans[OF h])
  qed
qed simp

lemma sweeper_keeps:
  assumes "\<And>io b. io \<in> set ios \<Longrightarrow> binv b \<Longrightarrow> binv (sp_env io b)" "binv b"
  shows "binv (spawn_sweeper ios b)"
  using assms
proof (induction ios arbitrary: b)
  case (Cons io ios)
  have "binv (sp_env io b)" using Cons.prems by simp
  then show ?case using Cons.IH[OF Cons.prems(1)] scheduling.sweep by (simp add: Let_def)
qed simp

lemma flush_clean: "b_stats (sv_broker (flush_stats order sv)) i = Some ns \<Longrightarrow> dirty ns = []"
  by (auto simp: flush_stats_def take_dirty_def)

lemma flusher_ends_clean:
  "list_ex fl_woken ios \<Longrightarrow> b_stats (sv_broker (stats_flusher ios sv)) i = Some ns \<Longrightarrow> dirty ns = []"
  by (induction ios sv rule: stats_flusher.induct) (auto simp: Let_def flush_clean split: if_splits)

section \<open>The two halves of a recompaction cycle\<close>

text \<open>The segments and the raw samples lie in different directories, so neither half touches the files of the other.\<close>

lemma cycle_frame:
  assumes "\<And>plat date. q \<notin> day_files (matches_dir data_dir plat) date"
  shows "st_files (run_recompaction_cycle c io data_dir s) q = st_files s q"
proof -
  have one: "recompact_day c io od data_dir x fs q = fs q" for od x fs
  proof -
    obtain plat date where x: "x = (plat, date)" by fastforce
    obtain res fs' where r: "recompact_segment c (seg_path (matches_dir data_dir plat) date) (idx_path (matches_dir data_dir plat) date) fs = (res, fs')"
      by fastforce
    have "fs' q = fs q" using recompact_frame[OF r] assms[of plat date] by (simp add: day_files_def)
    then show ?thesis using r by (simp add: recompact_day_def x)
  qed
  have "fold (recompact_day c io od data_dir) xs fs q = fs q" for od xs fs
    by (induction xs arbitrary: fs) (simp_all add: one)
  then show ?thesis by (simp add: cycle_as_days)
qed

lemma raw_not_day:
  assumes "q = join (join data_dir ''raw'') rest"
  shows "q \<notin> day_files (matches_dir data_dir plat) date"
  using assms by (auto simp: day_files_eq join_def matches_dir_def)

lemma raw_dict_not_day: "dict_path data_dir \<notin> day_files (matches_dir data_dir plat) date"
  by (rule raw_not_day) (simp add: dict_path_def)

lemma sample_not_day: "sample_path data_dir p \<Longrightarrow> p \<notin> day_files (matches_dir data_dir plat) date"
  unfolding sample_path_def by (elim conjE exE) (rule raw_not_day, simp add: join_def)

text \<open>No raw file: neither a sample nor a temporary file nor the dictionary.\<close>

lemma raw_paths_frame:
  assumes q: "last q \<noteq> CHR ''t''" "last q \<noteq> CHR ''p''" and o: "\<And>fs. others fs q = fs q" and ps: "list_all is_raw_json_sample_path ps"
  shows "snd (recompact_paths z mtime now dict i others ps outc fs) q = fs q"
  using ps
proof (induction ps arbitrary: outc fs)
  case (Cons x ps)
  have ne: "x \<noteq> q" "tmp_path x \<noteq> q" using Cons.prems q sample_last[of x] last_tmp(1)[of x] by auto
  obtain res fs' where r: "recompact_raw_sample_path z dict i others x fs = (res, fs')" by fastforce
  then have "fs' q = fs q" using ne o by (cases rule: recompact_cases) (auto simp: rename_file_def)
  then show ?case using Cons r by (auto split: sum.splits raw_sample_upgrade.splits)
qed simp

lemma raw_frame:
  assumes q: "last q \<noteq> CHR ''t''" "last q \<noteq> CHR ''p''" and o: "\<And>fs. others fs q = fs q"
  shows "snd (recompact_raw_samples z mtime now others data_dir listing fs) q = fs q"
proof -
  have ps: "list_all is_raw_json_sample_path (collect_raw_sample_paths listing)" by (simp add: collect_raw_sample_paths_def list_all_iff)
  have dp: "join (join data_dir ''raw'') RAW_DICT_NAME = dict_path data_dir" by (simp add: dict_path_def)
  have "last (dict_path data_dir) = CHR ''t''" by (simp add: dict_path_def join_def RAW_DICT_NAME_def)
  then have "dict_path data_dir \<noteq> q" "tmp_path (dict_path data_dir) \<noteq> q" using q last_tmp(1) by metis+
  then have w: "write_raw_dict_atomically (dict_path data_dir) dict g q = g q" for dict g
    by (simp add: write_raw_dict_atomically_def rename_file_def)
  show ?thesis
    by (simp add: recompact_raw_samples_def Let_def dp raw_paths_frame[where others = others and q = q, OF q o ps] w split: sum.split option.split prod.split)
qed

section \<open>Many cycles\<close>

text \<open>A round in which directories list no name twice and the other tasks leave the segment, the sample, the dictionary and temporary files alone.\<close>

definition tick_ok :: "string \<Rightarrow> string \<Rightarrow> string \<Rightarrow> tick_io \<Rightarrow> bool" where
  "tick_ok data_dir seg p io \<longleftrightarrow> (\<forall>dir names. cy_listing (tk_cycle io) dir = Some names \<longrightarrow> distinct names)
     \<and> leaves_alone data_dir p (tk_raw_others io) \<and> (\<forall>fs. tk_raw_others io fs seg = fs seg)
     \<and> (\<forall>s q. q \<in> {seg, p, dict_path data_dir} \<longrightarrow> st_files (tk_env io s) q = st_files s q)"

lemma tick_env: "tick_ok data_dir seg p io \<Longrightarrow> q \<in> {seg, p, dict_path data_dir} \<Longrightarrow> st_files (tk_env io s) q = st_files s q"
  unfolding tick_ok_def by blast

text \<open>What is to be kept: the records of a day and the text of a sample, for a reader that may hold the dictionary in its cache.\<close>

definition archive_kept :: "raw_lib \<Rightarrow> seg_codec \<Rightarrow> fsys \<Rightarrow> string \<Rightarrow> string \<Rightarrow> string \<Rightarrow> bytes option \<Rightarrow> string \<Rightarrow> fsys \<Rightarrow> bool" where
  "archive_kept z c cache data_dir seg p old t fs \<longleftrightarrow> day_kept c old (fs seg) \<and> reads_as z cache p fs t
     \<and> (cache (dict_path data_dir) = None \<or> cache (dict_path data_dir) = fs (dict_path data_dir))"

lemma cycle_keeps_archive:
  assumes "raw_lib_ok z" "sample_path data_dir p" "rg \<in> set enabled_regions" "seg = seg_path (matches_dir data_dir (rg_platform rg)) date"
    and "tick_ok data_dir seg p io" "archive_kept z c cache data_dir seg p old t (st_files s)"
  shows "archive_kept z c cache data_dir seg p old t (st_files (recompaction_cycle z c data_dir io (tk_env io s)))"
proof -
  let ?s = "tk_env io s"
  let ?fs = "st_files (run_recompaction_cycle c (tk_cycle io) data_dir ?s)"
  obtain res fs' where r: "recompact_raw_samples z (tk_raw_mtime io) (tk_raw_now io) (tk_raw_others io) data_dir (tk_raw_listing io) ?fs = (res, fs')" by fastforce
  have env: "st_files ?s q = st_files s q" if "q \<in> {seg, p, dict_path data_dir}" for q by (rule tick_env[OF assms(5) that])
  have raw: "?fs p = st_files s p" "?fs (dict_path data_dir) = st_files s (dict_path data_dir)"
    using cycle_frame[OF sample_not_day[OF assms(2)]] cycle_frame[OF raw_dict_not_day] env by simp_all
  have "day_kept c (st_files ?s seg) (?fs seg)"
    unfolding assms(4) by (rule cycle_keeps_day[OF _ assms(3)]) (use assms(5) in \<open>auto simp: tick_ok_def\<close>)
  moreover have "fs' seg = ?fs seg"
  proof -
    have "last seg = CHR ''g''" by (simp add: assms(4) seg_path_def)
    then show ?thesis
      using raw_frame[of seg "tk_raw_others io" z "tk_raw_mtime io" "tk_raw_now io" data_dir "tk_raw_listing io" ?fs] assms(5) r by (simp add: tick_ok_def)
  qed
  ultimately have "day_kept c old (fs' seg)" using assms(6) env day_kept_trans by (auto simp: archive_kept_def)
  moreover have l: "leaves_alone data_dir p (tk_raw_others io)" using assms(5) by (simp add: tick_ok_def)
  have c: "cache (dict_path data_dir) = None \<or> cache (dict_path data_dir) = ?fs (dict_path data_dir)"
    and t: "reads_as z cache p ?fs t"
    using assms(6) raw reads_as_same[OF assms(2) raw] by (auto simp: archive_kept_def)
  note k = raw_recompaction_keeps[OF assms(1,2) l c r t]
  then have "reads_as z cache p fs' t" "cache (dict_path data_dir) = None \<or> cache (dict_path data_dir) = fs' (dict_path data_dir)"
    using c by (auto; metis not_None_eq)+
  ultimately show ?thesis using r by (simp add: archive_kept_def recompaction_cycle_def Let_def)
qed

lemma loop_keeps_archive:
  assumes "raw_lib_ok z" "sample_path data_dir p" "rg \<in> set enabled_regions" "seg = seg_path (matches_dir data_dir (rg_platform rg)) date"
  shows "\<forall>io \<in> set ios. tick_ok data_dir seg p io \<Longrightarrow> archive_kept z c cache data_dir seg p old t (st_files s) \<Longrightarrow>
    archive_kept z c cache data_dir seg p old t (st_files (snd (recompactor_loop z c data_dir delay ios s)))"
proof (induction ios arbitrary: delay s)
  case (Cons io ios)
  have "tick_ok data_dir seg p io" using Cons.prems(1) by simp
  note k = cycle_keeps_archive[OF assms this Cons.prems(2)]
  have "archive_kept z c cache data_dir seg p old t (st_files (tk_env io s))"
  proof -
    have e: "st_files (tk_env io s) q = st_files s q" if "q \<in> {seg, p, dict_path data_dir}" for q by (rule tick_env[OF _ that]) (use Cons.prems(1) in simp)
    have "reads_as z cache p (st_files (tk_env io s)) t = reads_as z cache p (st_files s) t" by (rule reads_as_same[OF assms(2)]) (simp_all add: e)
    then show ?thesis using Cons.prems(2) e by (simp add: archive_kept_def)
  qed
  then show ?case using Cons k by simp
qed simp

lemma loop_sleeps: "fst (recompactor_loop z c data_dir delay ios s) = [] \<or> (\<exists>n. fst (recompactor_loop z c data_dir delay ios s) = delay # replicate n 3600)"
proof (induction ios arbitrary: delay s)
  case (Cons io ios)
  have "\<exists>n. fst (recompactor_loop z c data_dir 3600 ios s') = replicate n 3600" for s'
    using Cons.IH[of 3600 s'] by (metis replicate_0 replicate_Suc)
  then show ?case by auto
qed simp

text \<open>Concrete inputs: a round in which nothing else happens, an invite command, and a user who types a code with a space behind it.\<close>

definition sample_tick :: tick_io where
  "sample_tick = \<lparr>tk_stopped = False, tk_woken = False, tk_env = id,
     tk_cycle = \<lparr>cy_parse_date = (\<lambda>_. None), cy_today = 9, cy_now = 0, cy_mtime = (\<lambda>_. None), cy_listing = (\<lambda>_. None)\<rparr>,
     tk_raw_listing = [sample_file], tk_raw_mtime = (\<lambda>_. Some 0), tk_raw_now = 4000, tk_raw_others = id\<rparr>"

definition sample_server_io :: server_io where
  "sample_server_io = \<lparr>si_data_dir = None, si_now = 0, si_draws = [0, 0, 0, 0, 0, 0, 0, 0, 0, 1], si_listing = None\<rparr>"

definition sample_join_io :: "(enroll_request, enroll_response) network \<Rightarrow> node_io" where
  "sample_join_io net = (sample_io net 5)\<lparr>io_prompts := \<lparr>pr_name = ''bob'', pr_invite = ''AAAAAAAAAB '', pr_key = ''K''\<rparr>\<rparr>"

section \<open>Properties\<close>

text \<open>C21: An invite made on the command line lets one friend in.  \<^verbatim>\<open>crawler-server invite\<close> prints a code and changes the invite file only; a node whose user types the code,
  with spaces around it or not, and a free and well-formed name enrols with the running server, starts the work loop, starts again from its
  configuration and is accepted with its token; and from then on every enrolment with that code, under whatever name, is refused and changes nothing.\<close>

theorem invited_friend_joins:
  assumes "holds_invites (ho_invites ho) invs" "valid_invite_op (Create (si_draws sio) label)" "code = map (\<lambda>d. ALPHABET ! d) (si_draws sio)"
    and "server_main lib c sio [''invite'', label] ho = (res, ho')" "sv_invites sv = ho_invites ho'"
    and "json_ok io" "d (default_path (io_config_dir io)) = None"
    and "io_net io = enroll_network (trim_end (CHR ''/'') server) message (\<lambda>h req. fst (api_enroll hash order random now h req sv))"
    and "set order = dom (reg_nodes (sv_registry sv))" "unat (next_node (sv_store sv)) + 1 < 2 ^ 32"
    and "name = trim (pr_name (io_prompts io))" "trim (pr_invite (io_prompts io)) = code"
    and "valid_name name" "\<nexists>j n. reg_nodes (sv_registry sv) j = Some n \<and> nr_name n = name"
    and "sv' = snd (api_enroll hash order random now (proto_headers None) \<lparr>er_invite_code = code, er_name = name\<rparr> sv)"
    and "trim (er_invite_code req) = code"
  shows "res = Printed (invite_lines label code) \<and> ho' = ho\<lparr>ho_invites := ho_invites ho'\<rparr>
    \<and> (\<exists>cfg d'. let path = default_path (io_config_dir io) in
         node_main io [''--server'', server] d = (RunLoop cfg path, d') \<and> nc_name cfg = name \<and> node_main io [] d' = (RunLoop cfg path, d')
         \<and> api_auth hash (proto_headers (Some (nc_token cfg))) (sv_registry sv') = Inr (unat (next_node (sv_store sv))))
    \<and> (\<exists>status. api_enroll hash order' random' now' h req sv' = (Refused status, sv'))"
proof -
  obtain f where f: "res = Printed (invite_lines label code)" "ho' = ho\<lparr>ho_invites := f\<rparr>" "holds_invites f (invs @ [(code, label)])"
    using invite_command[OF assms(1-3), of lib c] assms(4) by auto
  have holds: "holds_invites (sv_invites sv) (invs @ [(code, label)])" using f(2,3) assms(5) by simp
  have code: "trim code = code" using trim_code drawn_code[OF assms(2)] assms(3) by blast
  have in_code: "trim code \<in> fst ` set (invs @ [(code, label)])" using code by simp
  note run = first_run_makes_a_node[where d = d, OF assms(6-9) holds assms(10,11) assms(12)[symmetric] assms(13,14) in_code refl]
  let ?req = "\<lparr>er_invite_code = code, er_name = name\<rparr>"
  have "holds_invites (sv_invites sv') (filter (\<lambda>x. fst x \<noteq> code) (invs @ [(code, label)]))"
    using enroll_cases[OF assms(9) holds assms(10), of ?req random hash now "proto_headers None"] assms(13-15) in_code code
    by (auto simp: Let_def split: prod.splits)
  then have "\<exists>status. api_enroll hash order' random' now' h req sv' = (Refused status, sv')"
    by (rule closed_code_refused) (auto simp: assms(16))
  then show ?thesis using f(1,2) run by (auto simp: Let_def server_client_new_def assms(15))
qed

theorem invited_friend_joins_witness:
  "\<exists>(sv :: server) ho ho' sv' cfg d'. server_main sample_lib sample_codec sample_server_io [''invite'', ''bob''] ho = (Printed (invite_lines ''bob'' ''AAAAAAAAAB''), ho')
     \<and> sv_invites sv = ho_invites ho'
     \<and> node_main (sample_join_io (enroll_network ''http://s'' (\<lambda>_. []) (\<lambda>h req. fst (api_enroll id [] [0, 255] 0 h req sv))))
         [''--server'', ''http://s/''] (\<lambda>_. None) = (RunLoop cfg (default_path None), d')
     \<and> (\<exists>status. api_enroll id [1] [7] 9 (proto_headers None) \<lparr>er_invite_code = ''AAAAAAAAAB'', er_name = ''eve''\<rparr> sv' = (Refused status, sv'))"
proof -
  obtain y where y: "reg_nodes (sv_registry (ys_server y)) = Map.empty" "next_node (ys_store y) = 1"
    using sample_begin[where parse = "\<lambda>_. Some ()"] by blast
  let ?ho = "\<lparr>ho_tables = st_durable (ys_store y), ho_files = Map.empty, ho_invites = None\<rparr>"
  have h: "holds_invites (ho_invites ?ho) []" by (simp add: holds_invites_def)
  have v: "valid_invite_op (Create (si_draws sample_server_io) ''bob'')"
    by (simp add: valid_invite_op_def clean_label_def ALPHABET_def sample_server_io_def)
  have code: "''AAAAAAAAAB'' = map (\<lambda>d. ALPHABET ! d) (si_draws sample_server_io)" by (simp add: sample_server_io_def ALPHABET_def)
  obtain res ho' where m: "server_main sample_lib sample_codec sample_server_io [''invite'', ''bob''] ?ho = (res, ho')" by fastforce
  let ?sv = "(ys_server y)\<lparr>sv_invites := ho_invites ho'\<rparr>"
  let ?io = "sample_join_io (enroll_network ''http://s'' (\<lambda>_. []) (\<lambda>h req. fst (api_enroll id [] [0, 255] 0 h req ?sv)))"
  have url: "trim_end (CHR ''/'') ''http://s/'' = ''http://s''" by (simp add: trim_end_def)
  have n: "io_net ?io = enroll_network (trim_end (CHR ''/'') ''http://s/'') (\<lambda>_. []) (\<lambda>h req. fst (api_enroll id [] [0, 255] 0 h req ?sv))"
    by (simp add: sample_join_io_def sample_io_def url)
  have j: "json_ok ?io" using sample_json by (simp add: sample_join_io_def sample_io_def json_ok_def)
  have s: "sv_invites ?sv = ho_invites ho'" "set [] = dom (reg_nodes (sv_registry ?sv))" "unat (next_node (sv_store ?sv)) + 1 < 2 ^ 32"
    "\<nexists>j n. reg_nodes (sv_registry ?sv) j = Some n \<and> nr_name n = ''bob''" using y by simp_all
  have g: "''bob'' = trim (pr_name (io_prompts ?io))" "trim (pr_invite (io_prompts ?io)) = ''AAAAAAAAAB''" "valid_name ''bob''"
    "trim (er_invite_code \<lparr>er_invite_code = ''AAAAAAAAAB'', er_name = ''eve''\<rparr>) = ''AAAAAAAAAB''" "io_config_dir ?io = None"
    by (simp_all add: trim_def is_space_def valid_name_def is_digit_def sample_join_io_def sample_io_def)
  let ?req = "\<lparr>er_invite_code = ''AAAAAAAAAB'', er_name = ''bob''\<rparr>"
  let ?sv' = "snd (api_enroll id [] [0, 255] 0 (proto_headers None) ?req ?sv)"
  note w = invited_friend_joins[where d = "\<lambda>_. None" and order' = "[1]" and random' = "[7]" and now' = 9 and h = "proto_headers None",
      OF h v code m s(1) j refl n s(2,3) g(1,2,3) s(4) refl g(4), unfolded g(5) Let_def]
  then obtain cfg d' where "node_main ?io [''--server'', ''http://s/''] (\<lambda>_. None) = (RunLoop cfg (default_path None), d')" by blast
  with w m s(1) show ?thesis
    by (intro exI[of _ ?sv] exI[of _ ?ho] exI[of _ ho'] exI[of _ ?sv'] exI[of _ cfg] exI[of _ d']) blast
qed

text \<open>C22: The recompactor keeps the archive however long it runs.  Over any number of rounds, with other tasks at work meanwhile, the segment of a day is untouched or
  replaced by one that reads back the same records, and a raw sample reads as the same text, although both halves of each cycle rewrite files
  in place; the task sleeps half a minute first and an hour before every later cycle.\<close>

theorem recompactor_keeps_archive:
  assumes "raw_lib_ok z" "sample_path data_dir p" "rg \<in> set enabled_regions" "seg = seg_path (matches_dir data_dir (rg_platform rg)) date"
    and "\<forall>io \<in> set ios. tick_ok data_dir seg p io"
    and "cache (dict_path data_dir) = None \<or> cache (dict_path data_dir) = st_files s (dict_path data_dir)" "reads_as z cache p (st_files s) t"
    and "spawn_recompactor z c data_dir ios s = (slept, s')"
  shows "(st_files s' seg = st_files s seg
       \<or> (\<exists>f lay g. st_files s seg = Some f \<and> read_segment_layout c f = Inr lay \<and> st_files s' seg = Some g \<and> read_segment_records c g = Inr (sl_records lay)))
     \<and> reads_as z cache p (st_files s') t \<and> (slept = [] \<or> (\<exists>n. slept = 30 # replicate n 3600))"
proof -
  have "archive_kept z c cache data_dir seg p (st_files s seg) t (st_files s)" using assms(6,7) by (simp add: archive_kept_def day_kept_def)
  from loop_keeps_archive[OF assms(1-5) this, of 30] loop_sleeps[of z c data_dir 30 ios s] show ?thesis
    using assms(8) day_kept_records by (auto simp: spawn_recompactor_def archive_kept_def)
qed

theorem recompactor_keeps_archive_witness:
  "\<exists>s s'. spawn_recompactor sample_zstd sample_codec ''d'' [sample_tick, sample_tick] s = ([30, 3600], s')
     \<and> reads_as sample_zstd (\<lambda>_. None) sample_file (st_files s') ''{}''"
proof -
  obtain s0 where "store_reach sample_lib sample_home s0 {}" using sample_stored by blast
  let ?s = "s0\<lparr>st_files := sample_files\<rparr>"
  have sf: "is_raw_json_sample_path sample_file" by (simp add: is_raw_json_sample_path_def ends_with_def sample_file_def)
  have "sample_file = join (join (join ''d'' ''raw'') ''KR'') ''KR_1.match.json.zst''" by (simp add: sample_file_def join_def)
  then have p: "sample_path ''d'' sample_file" using sf unfolding sample_path_def
    by (intro conjI exI[of _ "''KR''"] exI[of _ "''KR_1.match.json.zst''"]) simp_all
  have ne: "dict_path ''d'' \<noteq> sample_file" using dict_not_sample[OF sf] by metis
  have r: "reads_as sample_zstd (\<lambda>_. None) sample_file (st_files ?s) ''{}''"
    using ne by (auto simp: reads_as_iff[OF p] sample_files_def payload_def sample_zstd_def from_utf8_def char_of_def bit_simps)
  obtain rg where rg: "rg \<in> set enabled_regions" by (auto simp: enabled_regions_def ALL_REGIONS_def ENABLED_REGIONS_def)
  have ok: "\<forall>io \<in> set [sample_tick, sample_tick]. tick_ok ''d'' seg sample_file io" for seg
    by (auto simp: tick_ok_def sample_tick_def leaves_alone_def)
  obtain slept s' where e: "spawn_recompactor sample_zstd sample_codec ''d'' [sample_tick, sample_tick] ?s = (slept, s')" by fastforce
  then have "slept = [30, 3600]" by (auto simp: spawn_recompactor_def sample_tick_def)
  moreover have "reads_as sample_zstd (\<lambda>_. None) sample_file (st_files s') ''{}''"
    using recompactor_keeps_archive[OF sample_zstd_ok p rg refl ok _ r e] by simp
  ultimately show ?thesis using e by blast
qed

end
