(* ===== verification/Spec2Isabelle.thy ===== *)
theory Spec2Isabelle
  imports Desktop Metrics Inspect Worker_Props Riot Transpose_Props Server_Main_Props
begin

text \<open>
  Verification of the match crawler (the Rust workspace under \<^verbatim>\<open>src/crates\<close>).

  \<^bold>\<open>The program.\<close>  A server decides which players of a game to follow, downloads their matches and archives them; it never talks to the
  game's API itself.  Nodes run by volunteers poll the server for opaque requests, run them with their own API keys under the
  API's rate limits, and upload the answers.  On the server, one crawl loop per region (\<^verbatim>\<open>server/src/crawler.rs\<close>) asks the typed client
  (\<^verbatim>\<open>riot.rs\<close>), which hands each call to the broker (\<^verbatim>\<open>broker.rs\<close>); the HTTP handlers (\<^verbatim>\<open>api.rs\<close>) let nodes take jobs from the broker and
  complete them.  What comes back is parsed (\<^verbatim>\<open>record.rs\<close>), stored (\<^verbatim>\<open>storage.rs\<close>: database tables with a fast and a durable commit, in-memory
  caches, a crawl frontier, daily segment files, raw samples) and later recompressed into a columnar format (\<^verbatim>\<open>columnar.rs\<close>) by a background
  task (\<^verbatim>\<open>main.rs\<close>).  A node (\<^verbatim>\<open>node/src\<close>) is a poll loop, a job executor, a rate limiter and an uploader.

  \<^bold>\<open>Theories and sources.\<close>
  \<^item> \<^verbatim>\<open>Crawl_Prelude\<close>: machine-word types, results as sums, shared lemmas.  \<^verbatim>\<open>Rust_Text\<close>: the text operations of Rust's standard library.
    \<^verbatim>\<open>Tables\<close>: ordered tables over red-black trees with range scans.
  \<^item> \<^verbatim>\<open>Varint\<close>, \<^verbatim>\<open>Column_Streams\<close>, \<^verbatim>\<open>Match_Record\<close>, \<^verbatim>\<open>Columnar\<close>, \<^verbatim>\<open>Columnar_Codec\<close>, \<^verbatim>\<open>Columnar_Block\<close>: \<^verbatim>\<open>columnar.rs\<close> and the record types of
    \<^verbatim>\<open>record.rs\<close>.  A stream is a byte list; the locales \<open>plain_codec\<close> and \<open>item_codec\<close> are the contract of a column codec, with one
    interpretation per record type.
  \<^item> \<^verbatim>\<open>Match_Parse\<close>, \<^verbatim>\<open>Match_Parse_Props\<close>, \<^verbatim>\<open>Match_Parse_Types\<close>: the parser of \<^verbatim>\<open>record.rs\<close> over JSON values.
  \<^item> \<^verbatim>\<open>Segment\<close>, \<^verbatim>\<open>Segment_Props\<close>: the segment log, its index and the recompaction of a day (\<^verbatim>\<open>storage.rs\<close>); a file system is a map
    from paths to bytes.  \<^verbatim>\<open>Recompactor\<close>: the recompaction cycle of \<^verbatim>\<open>main.rs\<close>.  \<^verbatim>\<open>Raw_Samples\<close>, \<^verbatim>\<open>Raw_Samples_Props\<close>: the archive of raw API
    answers and its compression dictionary.
  \<^item> \<^verbatim>\<open>Frontier\<close>, \<^verbatim>\<open>Frontier_Props\<close>: the frontier tables and operations; \<open>queued\<close> is the abstract schedule, the locale \<open>due_queue\<close> the
    contract of a priority queue.
  \<^item> \<^verbatim>\<open>Store\<close>, \<^verbatim>\<open>Store_History\<close>, \<^verbatim>\<open>Store_Inv\<close>, \<^verbatim>\<open>Store_Crash\<close>, \<^verbatim>\<open>Store_Props\<close>, \<^verbatim>\<open>Store_Frontier\<close>: the methods of \<^verbatim>\<open>Store\<close>.  The record \<open>store\<close> keeps the
    database twice, as transactions see it and as a crash leaves it, with the caches, the open writers and the files.
  \<^item> \<^verbatim>\<open>Registry\<close>, \<^verbatim>\<open>Stats\<close>, \<^verbatim>\<open>Broker\<close>, \<^verbatim>\<open>Broker_Inv\<close>, \<^verbatim>\<open>Broker_Props\<close>: \<^verbatim>\<open>registry.rs\<close>, \<^verbatim>\<open>stats.rs\<close>, \<^verbatim>\<open>broker.rs\<close>.  Each method is one step under the mutex;
    the locale \<open>broker_invariant\<close> carries an invariant over every interleaving.
  \<^item> \<^verbatim>\<open>Crawler\<close>, \<^verbatim>\<open>Crawler_Props\<close>, \<^verbatim>\<open>Crawler_Frame\<close>, \<^verbatim>\<open>Riot\<close>: \<^verbatim>\<open>crawler.rs\<close> and \<^verbatim>\<open>riot.rs\<close>.  The answers of the API, the clock and the stop flag are
    arguments of each pass; the locale \<open>store_frame\<close> lifts a relation between stores that the store operations respect to a whole
    run of the crawl loop.
  \<^item> \<^verbatim>\<open>Invites\<close>, \<^verbatim>\<open>Api\<close>, \<^verbatim>\<open>Api_Props\<close>: \<^verbatim>\<open>invites.rs\<close>, \<^verbatim>\<open>api.rs\<close> and the start and stop of the server in \<^verbatim>\<open>main.rs\<close>.  Handlers are functions; \<open>api_step\<close>
    interleaves the parts of enrolments, with the reading and the writing of the invite file apart, with everything else and with restarts.
  \<^item> \<^verbatim>\<open>Ratelimit\<close>, \<^verbatim>\<open>Ratelimit_Props\<close>, \<^verbatim>\<open>Executor\<close>, \<^verbatim>\<open>Worker\<close>, \<^verbatim>\<open>Worker_Props\<close>: \<^verbatim>\<open>ratelimit.rs\<close>, \<^verbatim>\<open>executor.rs\<close>, \<^verbatim>\<open>worker.rs\<close> and \<^verbatim>\<open>events.rs\<close> of the node.  The locale
    \<open>job_source\<close> is what a node relies on from its server; the broker is the interpretation.
  \<^item> \<^verbatim>\<open>Node_Cli\<close>, \<^verbatim>\<open>Node_Cli_Props\<close>: the command line (\<^verbatim>\<open>node/src/main.rs\<close>), the configuration file (\<^verbatim>\<open>config.rs\<close>), the enrolment call (\<^verbatim>\<open>lib.rs\<close>) and the request
    wrapper of \<^verbatim>\<open>worker.rs\<close>; a disk maps paths to contents and modification times.
  \<^item> \<^verbatim>\<open>Metrics\<close>, \<^verbatim>\<open>Inspect\<close>: the minute report (\<^verbatim>\<open>metrics.rs\<close>) and the inspect command (\<^verbatim>\<open>inspect.rs\<close>) of the server, with their texts.
  \<^item> \<^verbatim>\<open>Server_Main\<close>, \<^verbatim>\<open>Server_Main_Props\<close>: the commands of the server and the background tasks that \<^verbatim>\<open>main\<close> spawns (recompactor, adoption worker, lease
    sweeper, flusher of the counters), each along a list of its rounds.
  \<^item> \<^verbatim>\<open>Mock\<close>, \<^verbatim>\<open>Desktop\<close>: the mock node (\<^verbatim>\<open>desktop/src/mock.rs\<close>) and the desktop application (\<^verbatim>\<open>desktop/src/main.rs\<close>).  \<open>desk_step\<close> interleaves the lock sections of
    the window's commands, \<open>mock_step\<close> the mock loop with its fake jobs.
  \<^item> \<^verbatim>\<open>Transpose\<close>, \<^verbatim>\<open>Transpose_Props\<close>: the transposition benchmark (\<^verbatim>\<open>docs/experiments/columnar/transpose_bench.rs\<close>), a second writer of the columns that reads
    records from the wire by hand.  The locales \<open>counted_loop\<close> and \<open>timeline_items\<close> carry its loops, with one interpretation per repeated field.

  \<^bold>\<open>What is shown.\<close>
  \<^item> Archive: encoding and decoding of records and blocks are inverse; a block is written exactly when it decodes back, and otherwise the error names its first
    bad record; a flushed segment reads
    back, a torn tail is cut off exactly, recompaction and a recompaction cycle lose no record and keep away from open days, raw samples
    stay readable under recompression.  Every record the parser returns is well formed.  The benchmark agrees with the encoder on records without default values.
  \<^item> Store: every stop of the process leaves durable tables and files from which the store reopens consistently; also between the flushes of two writers; a commit and restart keeps
    every table and cache; player ids are unique; the progress counters of stored games are exact for players on one platform; adoption is exact.
  \<^item> Scheduling: the frontier tables implement one schedule per player; draining serves the due players in order; the startup repair
    requeues exactly the stranded players; no run of the crawl loop loses a followed player; revisits lie within the configured bounds; the ladder is
    walked page by page.
  \<^item> Broker and nodes: a fetch is answered once, every open job stays scheduled, a node is never overfilled and accounts for its jobs, its
    uploads end, a job ends with the outcome its responses call for, and no declared rate limit window is exceeded.
  \<^item> Access: invite codes work once when they are checked one after another, an enrolment succeeds exactly under its conditions, and a token handed out stays valid across crawling and
    restarts.
  \<^item> Frontends and tools: an invite minted on the server's command line lets one node in, which then
    starts again from its configuration and is accepted, and nobody after it; the background recompactor keeps days and samples over any number of cycles; \<^verbatim>\<open>set-key\<close> resumes a paused
    node; the desktop application has at most one loop that was not told to stop, for the enrolment it shows unless enrolments overlap; the minute lines account for every stored game;
    \<^verbatim>\<open>inspect\<close> reports exactly the counts of the records of a segment, before and after its recompaction; the mock plays only event sequences a node can show.
  \<^item> Divergences proved as theorems: games of players on two platforms are miscredited, a late failure report duplicates a job, a declared limit of zero
    panics, two overlapping enrolments can share a name and an invite code, two nodes of one name make the minute report underflow, a late rejection of an old key
    pauses a node that has its new key, two overlapping enrolments in the desktop application leave it showing one while its loop and its file have the other, the
    benchmark's columns of parsed records do not line up because the wire omits zeros.

  \<^bold>\<open>Bounds and termination.\<close>  Recursive loops terminate by measures (bytes left, pages left under the matchlist depth, queue entries left).  The acquire loop of
  the limiter runs on fuel; \<open>acquire_returns\<close> shows that four rounds are enough when limits are positive.  The executor and the long poll run along
  scripts of what happens to them; the uploader is a partial function shown to return after at most 15 requests.

  \<^bold>\<open>Abstractions.\<close>  Hash maps whose order matters take the order as an argument.  Serialisation of tables (postcard, redb) is replaced by typed tables.  zstd,
  crc32, prost, the roaring bitmaps, serde's JSON decoding (API answers, configuration file, wire), SHA-256 and the date parser are parameters with their documented laws as named
  hypotheses where a theorem needs one.  Floating-point arithmetic of the limiter and of the revisit heuristic is done in exact rationals.  I/O errors
  of writes are dropped, log lines other than the minute report too.  Milliseconds and counters are words where the code's wrap-around can matter and
  naturals otherwise.  Instants of the limiter are unbounded, so adding a \<^verbatim>\<open>Retry-After\<close> near \<open>2 ^ 63\<close> seconds does not panic.  Writing a configuration or an invite file is
  one step, without the moment in which \<^verbatim>\<open>fs::write\<close> has truncated it.  A node's task that panics is one that never ends.  The crash points of \<open>store_reach\<close>
  lie between operations, between the phases of commits and date rolls and between the flushes of two writers; a stop inside a block write is treated
  on the segment (\<open>torn_write_recovers\<close>).  The matches stored in \<open>store_reach\<close> have players that are met on one platform and games of a player that start at different times, which the crawler
  does not guarantee.

  \<^bold>\<open>Not modelled.\<close>  The tray, the notification back end and the self-updater of the desktop application (calls of the GUI framework), the HTTP client and
  server libraries, sockets, timers and signal handling.
\<close>

section \<open>Properties across components\<close>

text \<open>C18: Crawling does not cost a node its enrolment: take any reachable state of the server and any run of a region's crawl loop from its store, whatever the API
  answers, and then a restart from what is durable; every token handed out before authenticates as its node afterwards.\<close>

theorem crawling_keeps_tokens:
  assumes "api_reach hash parse lib y" "(token, i, name) \<in> set (ys_enrolled y)" "cw_store c = ys_store y"
    and "server_start lib dir backfill now (st_durable (cw_store (crawl_run clib rg t ios c))) fs invites = Inr sv"
  shows "auth hash token (sv_registry sv) = Some i \<and> name_of fallback i (sv_registry sv) = name"
proof -
  let ?y = "on_server (\<lambda>v. v\<lparr>sv_store := cw_store (crawl_run clib rg t ios c)\<rparr>) y"
  have "nodes_quiet (ys_store y) (cw_store (crawl_run clib rg t ios c))"
    using node_frame.ran[of c clib rg t ios] assms(3) by simp
  then have "api_reach hash parse lib ?y" by (rule reach_step[OF assms(1) crawled])
  moreover have "server_start lib dir backfill now (st_durable (ys_store ?y)) fs invites = Inr sv" using assms(4) by simp
  ultimately have "api_reach hash parse lib (drop_enrolments (?y\<lparr>ys_server := sv\<rparr>))"
    by (intro reach_step[OF _ restarted])
  from reach_token[OF this, of token i name fallback] assms(2) show ?thesis by simp
qed

theorem crawling_keeps_tokens_witness:
  "\<exists>s sv. server_start sample_lib ''data'' False 0
       (st_durable (cw_store (crawl_run \<lparr>cl_store = sample_lib, cl_raw = sample_zstd\<rparr> sample_region 10 [sample_pass]
          \<lparr>cw_store = s, cw_braked = False, cw_adopt_tx = []\<rparr>))) (\<lambda>_. None) None = Inr sv
     \<and> auth id ''a'' (sv_registry sv) = Some 1"
proof -
  obtain y where y: "api_reach id (\<lambda>_. Some ()) sample_lib y" "ys_enrolled y = [(''a'', 1, ''bob''), (''b'', 2, ''bob'')]"
    using sample_race by blast
  let ?c = "\<lparr>cw_store = ys_store y, cw_braked = False, cw_adopt_tx = []\<rparr>"
  obtain sv where e: "server_start sample_lib ''data'' False 0
      (st_durable (cw_store (crawl_run \<lparr>cl_store = sample_lib, cl_raw = sample_zstd\<rparr> sample_region 10 [sample_pass] ?c))) (\<lambda>_. None) None = Inr sv"
    using sample_restart by blast
  have "(''a'', 1, ''bob'') \<in> set (ys_enrolled y)" "cw_store ?c = ys_store y" using y(2) by simp_all
  from crawling_keeps_tokens[OF y(1) this e] e show ?thesis by blast
qed

end
